(* ===== verification/Prelude.thy ===== *)
theory Prelude
  imports Complex_Main "HOL-Library.Word"
begin

text \<open>
  Shared vocabulary of the development: the machine-integer and buffer types the C++ code
  uses, the double-precision values it computes with, the ways an operation of the code can
  go wrong, and the generic lemmas the component theories build on.

  Doubles are the values of IEEE binary64: not-a-number, the two infinities
  (\<open>DInf True\<close> is minus infinity) and the finite values.  Comparisons are IEEE
  comparisons, in particular every comparison with a NaN is false except \<open>!=\<close>.
  Arithmetic is exact arithmetic followed by a rounding function \<open>rnd\<close>, an argument of every
  definition that computes with doubles.  Signed zeros are not distinguished and a finite
  result is assumed not to overflow; the values of this program are far below that range.
\<close>

unbundle bit_operations_syntax

named_theorems model_defs \<open>definitions of the model that component proofs unfold\<close>
named_theorems frame_simps \<open>what an operation leaves unchanged\<close>

type_synonym u8 = "8 word"
type_synonym u16 = "16 word"
type_synonym u32 = "32 word"
type_synonym u64 = "64 word"
type_synonym bytes = "u8 list"

text \<open>Undefined behaviour and exceptions of the C++ code that the model reports.\<close>

datatype fault =
    NullDeref
  | OutOfBounds
  | BadCast
  | InvalidArgument
  | Blocked
  | DivByZero
  | ExitFailure
  | RuntimeError

text \<open>Sequencing of operations that may fault.\<close>

definition bindR :: "'e + 'a \<Rightarrow> ('a \<Rightarrow> 'e + 'b) \<Rightarrow> 'e + 'b" where
  "bindR m f = (case m of Inl e \<Rightarrow> Inl e | Inr x \<Rightarrow> f x)"

fun foldR :: "('a \<Rightarrow> 's \<Rightarrow> 'e + 's) \<Rightarrow> 'a list \<Rightarrow> 's \<Rightarrow> 'e + 's" where
  "foldR f [] s = Inr s"
| "foldR f (x # xs) s = bindR (f x s) (foldR f xs)"

lemma bindR_simps [simp]: "bindR (Inl e) f = Inl e" "bindR (Inr x) f = f x"
  by (simp_all add: bindR_def)

lemma bindR_Inr_iff: "bindR m f = Inr y \<longleftrightarrow> (\<exists>x. m = Inr x \<and> f x = Inr y)"
  by (cases m) auto

lemma bindR_Inl_iff: "bindR m f = Inl e \<longleftrightarrow> m = Inl e \<or> (\<exists>x. m = Inr x \<and> f x = Inl e)"
  by (cases m) auto

lemma bindR_Inr_I: "m = Inr x \<Longrightarrow> f x = Inr y \<Longrightarrow> bindR m f = Inr y"
  by simp

lemma foldR_append: "foldR f (xs @ ys) s = bindR (foldR f xs s) (foldR f ys)"
proof (induction xs arbitrary: s)
  case (Cons x xs)
  show ?case by (cases "f x s") (simp_all add: Cons.IH)
qed simp

lemma foldR_inv:
  assumes "\<And>x s s'. x \<in> set xs \<Longrightarrow> P s \<Longrightarrow> f x s = Inr s' \<Longrightarrow> P s'" and "P s" and "foldR f xs s = Inr s'"
  shows "P s'"
  using assms
proof (induction xs arbitrary: s)
  case (Cons x xs)
  then obtain t where "f x s = Inr t" "foldR f xs t = Inr s'" by (auto simp: bindR_Inr_iff)
  with Cons show ?case by (metis list.set_intros)
qed simp

lemma foldR_total:
  assumes "\<And>x s. x \<in> set xs \<Longrightarrow> P s \<Longrightarrow> \<exists>s'. f x s = Inr s' \<and> P s'" and "P s"
  shows "\<exists>s'. foldR f xs s = Inr s' \<and> P s'"
  using assms
proof (induction xs arbitrary: s)
  case (Cons x xs)
  obtain t where "f x s = Inr t" "P t" using Cons.prems by force
  with Cons show ?case by auto
qed simp

section \<open>Double-precision values\<close>

datatype double = DNaN | DInf bool | Fin real

fun dlt :: "double \<Rightarrow> double \<Rightarrow> bool" where
  "dlt (Fin a) (Fin b) = (a < b)"
| "dlt (Fin a) (DInf s) = (\<not> s)"
| "dlt (DInf s) (Fin b) = s"
| "dlt (DInf s) (DInf t) = (s \<and> \<not> t)"
| "dlt DNaN y = False"
| "dlt x DNaN = False"

fun deq :: "double \<Rightarrow> double \<Rightarrow> bool" where
  "deq (Fin a) (Fin b) = (a = b)"
| "deq (DInf s) (DInf t) = (s = t)"
| "deq x y = False"

fun dneg :: "double \<Rightarrow> double" where
  "dneg DNaN = DNaN"
| "dneg (DInf s) = DInf (\<not> s)"
| "dneg (Fin a) = Fin (- a)"

fun dadd :: "(real \<Rightarrow> real) \<Rightarrow> double \<Rightarrow> double \<Rightarrow> double" where
  "dadd rnd (Fin a) (Fin b) = Fin (rnd (a + b))"
| "dadd rnd (Fin a) (DInf s) = DInf s"
| "dadd rnd (DInf s) (Fin b) = DInf s"
| "dadd rnd (DInf s) (DInf t) = (if s = t then DInf s else DNaN)"
| "dadd rnd DNaN y = DNaN"
| "dadd rnd x DNaN = DNaN"

definition dsub :: "(real \<Rightarrow> real) \<Rightarrow> double \<Rightarrow> double \<Rightarrow> double" where
  "dsub rnd x y = dadd rnd x (dneg y)"

fun dmul :: "(real \<Rightarrow> real) \<Rightarrow> double \<Rightarrow> double \<Rightarrow> double" where
  "dmul rnd (Fin a) (Fin b) = Fin (rnd (a * b))"
| "dmul rnd (Fin a) (DInf s) = (if a = 0 then DNaN else DInf (s \<noteq> (a < 0)))"
| "dmul rnd (DInf s) (Fin b) = (if b = 0 then DNaN else DInf (s \<noteq> (b < 0)))"
| "dmul rnd (DInf s) (DInf t) = DInf (s \<noteq> t)"
| "dmul rnd DNaN y = DNaN"
| "dmul rnd x DNaN = DNaN"

fun ddiv :: "(real \<Rightarrow> real) \<Rightarrow> double \<Rightarrow> double \<Rightarrow> double" where
  "ddiv rnd (Fin a) (Fin b) =
     (if b = 0 then (if a = 0 then DNaN else DInf (a < 0)) else Fin (rnd (a / b)))"
| "ddiv rnd (Fin a) (DInf s) = Fin 0"
| "ddiv rnd (DInf s) (Fin b) = DInf (s \<noteq> (b < 0))"
| "ddiv rnd (DInf s) (DInf t) = DNaN"
| "ddiv rnd DNaN y = DNaN"
| "ddiv rnd x DNaN = DNaN"

text \<open>\<open>std::min\<close> and \<open>std::max\<close> return their first argument unless the comparison holds.\<close>

definition std_min :: "double \<Rightarrow> double \<Rightarrow> double" where
  "std_min a b = (if dlt b a then b else a)"

definition std_max :: "double \<Rightarrow> double \<Rightarrow> double" where
  "std_max a b = (if dlt a b then b else a)"

text \<open>Truncation towards zero, as a conversion from floating point to an integer type does.\<close>

definition trunc_real :: "real \<Rightarrow> int" where
  "trunc_real x = (if 0 \<le> x then \<lfloor>x\<rfloor> else \<lceil>x\<rceil>)"

text \<open>
  \<open>static_cast\<close> from double to an integer type with values \<open>lo..hi\<close>: undefined, here
  \<^const>\<open>None\<close>, for NaN, the infinities and values whose truncation is out of range.
\<close>

definition cast_int :: "int \<Rightarrow> int \<Rightarrow> double \<Rightarrow> int option" where
  "cast_int lo hi x =
     (case x of Fin r \<Rightarrow> (let t = trunc_real r in if lo \<le> t \<and> t \<le> hi then Some t else None)
      | _ \<Rightarrow> None)"

lemma std_min_Fin [simp]: "std_min (Fin a) (Fin b) = Fin (min a b)"
  by (simp add: std_min_def min_def)

lemma std_max_Fin [simp]: "std_max (Fin a) (Fin b) = Fin (max a b)"
  by (simp add: std_max_def max_def)

lemma dsub_Fin [simp]: "dsub rnd (Fin a) (Fin b) = Fin (rnd (a - b))"
  by (simp add: dsub_def)

lemma trunc_real_of_int [simp]: "trunc_real (real_of_int n) = n"
  by (simp add: trunc_real_def)

lemma trunc_real_mono: "x \<le> y \<Longrightarrow> trunc_real x \<le> trunc_real y"
proof -
  assume le: "x \<le> y"
  show ?thesis
  proof (cases "0 \<le> x")
    case True
    then show ?thesis using le by (simp add: trunc_real_def floor_mono)
  next
    case False
    show ?thesis
    proof (cases "0 \<le> y")
      case True
      have "\<lceil>x\<rceil> \<le> 0" using False by simp
      also have "0 \<le> \<lfloor>y\<rfloor>" using True by simp
      finally show ?thesis using False True by (simp add: trunc_real_def)
    next
      case f: False
      then show ?thesis using le False by (simp add: trunc_real_def ceiling_mono)
    qed
  qed
qed

lemma trunc_real_bounds:
  assumes "0 \<le> x" and "x \<le> real_of_int n"
  shows "0 \<le> trunc_real x" and "trunc_real x \<le> n"
  using trunc_real_mono [OF assms(1)] trunc_real_mono [OF assms(2)]
    trunc_real_of_int [of 0] by simp_all

section \<open>Rounding\<close>

text \<open>
  What the code relies on of binary64 arithmetic: rounding is monotone and exact on the
  integers up to \<open>2^53\<close>.  Facts about codes and bounds are proved from these two laws
  only, so they hold for every rounding mode.
\<close>

locale fp_rounding =
  fixes rnd :: "real \<Rightarrow> real"
  assumes rnd_mono: "x \<le> y \<Longrightarrow> rnd x \<le> rnd y"
    and rnd_int: "\<bar>n\<bar> \<le> 2 ^ 53 \<Longrightarrow> rnd (real_of_int n) = real_of_int n"
begin

lemma rnd_0: "rnd 0 = 0"
  using rnd_int [of 0] by simp

lemma rnd_1: "rnd 1 = 1"
  using rnd_int [of 1] by simp

lemma rnd_nonneg: "0 \<le> x \<Longrightarrow> 0 \<le> rnd x"
  using rnd_mono [of 0 x] by (simp add: rnd_0)

lemma rnd_le_int: "x \<le> real_of_int n \<Longrightarrow> \<bar>n\<bar> \<le> 2 ^ 53 \<Longrightarrow> rnd x \<le> real_of_int n"
  using rnd_mono [of x "real_of_int n"] by (simp add: rnd_int)

lemma rnd_ge_int: "real_of_int n \<le> x \<Longrightarrow> \<bar>n\<bar> \<le> 2 ^ 53 \<Longrightarrow> real_of_int n \<le> rnd x"
  using rnd_mono [of "real_of_int n" x] by (simp add: rnd_int)

lemma rnd_le_1: "x \<le> 1 \<Longrightarrow> rnd x \<le> 1"
  using rnd_mono [of x 1] by (simp add: rnd_1)

lemma rnd_quotient_unit:
  assumes "0 \<le> a" and "a \<le> s" and "0 < s"
  shows "0 \<le> rnd (a / s)" and "rnd (a / s) \<le> 1"
  using assms by (auto intro: rnd_nonneg rnd_le_1)

end

interpretation fp_exact: fp_rounding "\<lambda>x. x"
  by unfold_locales auto

section \<open>Fixed-size arrays\<close>

text \<open>A C array of known size is a list; a write outside of it is a fault.\<close>

definition arr_get :: "'a list \<Rightarrow> nat \<Rightarrow> fault + 'a" where
  "arr_get xs i = (if i < length xs then Inr (xs ! i) else Inl OutOfBounds)"

definition arr_set :: "'a list \<Rightarrow> nat \<Rightarrow> 'a \<Rightarrow> fault + 'a list" where
  "arr_set xs i v = (if i < length xs then Inr (xs[i := v]) else Inl OutOfBounds)"

lemma arr_set_length: "arr_set xs i v = Inr ys \<Longrightarrow> length ys = length xs"
  by (auto simp: arr_set_def split: if_splits)

text \<open>Byte order.  All targets of the code are little-endian.\<close>

definition le_bytes32 :: "u32 \<Rightarrow> bytes" where
  "le_bytes32 w = [ucast w, ucast (drop_bit 8 w), ucast (drop_bit 16 w), ucast (drop_bit 24 w)]"

definition le_word32 :: "bytes \<Rightarrow> u32" where
  "le_word32 bs = (case bs of [a, b, c, d] \<Rightarrow>
     ucast a OR push_bit 8 (ucast b) OR push_bit 16 (ucast c) OR push_bit 24 (ucast d) | _ \<Rightarrow> 0)"

definition bswap32 :: "u32 \<Rightarrow> u32" where
  "bswap32 w = le_word32 (rev (le_bytes32 w))"

section \<open>Words\<close>

lemma and_pow2_minus_1: "unat (w AND (2 ^ k - 1) :: u64) = unat w mod 2 ^ k"
proof -
  have "w AND (2 ^ k - 1) = take_bit k w"
    by (simp only: mask_eq_exp_minus_1 [symmetric] take_bit_eq_mask)
  then have "unat (w AND (2 ^ k - 1)) = take_bit k (unat w)"
    by (simp only: unsigned_take_bit_eq)
  then show ?thesis by (simp only: take_bit_eq_mod)
qed

lemma unat_pow2_u64: "k < 64 \<Longrightarrow> unat (2 ^ k :: u64) = 2 ^ k"
proof -
  assume k: "k < 64"
  have "(2::nat) ^ k < 2 ^ 64" using k by (intro power_strict_increasing) auto
  then have "unat (of_nat (2 ^ k) :: u64) = 2 ^ k"
    by (simp only: unsigned_of_nat) (use k in \<open>simp add: take_bit_nat_eq_self\<close>)
  then show ?thesis by simp
qed

lemma unat_u64_less: "unat (h::u64) < 18446744073709551616"
  using unsigned_less [of h, where 'a = nat] by simp

lemma unat_succ_u64: "(h::u64) \<noteq> 0xFFFFFFFFFFFFFFFF \<Longrightarrow> unat (h + 1) = Suc (unat h)"
  using unat_u64_less [of h] by (simp add: word_unat_eq_iff unat_word_ariths)

text \<open>Byte order.\<close>

lemma bit_u8_high [simp]: "\<not> bit (a::u8) (8 + n)" "\<not> bit (a::u8) (16 + n)" "\<not> bit (a::u8) (24 + n)"
  using bit_imp_le_length [of a] by fastforce+

lemma le_word32_bytes [simp]: "le_word32 (le_bytes32 w) = w"
proof (rule bit_word_eqI)
  fix n assume n: "n < LENGTH(32)"
  consider "n < 8" | "8 \<le> n" "n < 16" | "16 \<le> n" "n < 24" | "24 \<le> n" using n by linarith
  then show "bit (le_word32 (le_bytes32 w)) n = bit w n"
    using n by cases (auto simp: le_word32_def le_bytes32_def bit_simps)
qed

lemma le_bytes32_word [simp]: "le_bytes32 (le_word32 [a, b, c, d]) = [a, b, c, d]"
  by (simp add: le_word32_def le_bytes32_def) (intro conjI bit_word_eqI; auto simp: bit_simps)

lemma length_le_bytes32 [simp]: "length (le_bytes32 w) = 4"
  by (simp add: le_bytes32_def)

lemma le_bytes32_bswap [simp]: "le_bytes32 (bswap32 w) = rev (le_bytes32 w)"
  unfolding bswap32_def by (simp add: le_bytes32_def [of w])

lemma le_word32_rev [simp]: "le_word32 (rev (le_bytes32 w)) = bswap32 w"
  by (simp add: bswap32_def)

lemma bswap32_bswap32 [simp]: "bswap32 (bswap32 w) = w"
  by (simp add: bswap32_def [of "bswap32 w"])

section \<open>Step relations and their invariants\<close>

text \<open>A relation whose steps keep an invariant as long as a bound holds, where steps never make the
  bound true again (a counter that must not wrap, say).\<close>

locale bounded_steps =
  fixes step :: "'s \<Rightarrow> 's \<Rightarrow> bool"
    and start :: 's
    and inv :: "'s \<Rightarrow> bool"
    and bound :: "'s \<Rightarrow> bool"
  assumes start_inv: "inv start"
    and step_inv: "step s s' \<Longrightarrow> inv s \<Longrightarrow> bound s' \<Longrightarrow> inv s'"
    and bound_back: "step s s' \<Longrightarrow> bound s' \<Longrightarrow> bound s"
begin

lemma reachable_inv: "step\<^sup>*\<^sup>* start s \<Longrightarrow> bound s \<Longrightarrow> inv s"
  by (induction rule: rtranclp_induct) (auto intro: start_inv step_inv bound_back)

end

locale invariant_steps =
  fixes step :: "'s \<Rightarrow> 's \<Rightarrow> bool"
    and start :: 's
    and inv :: "'s \<Rightarrow> bool"
  assumes start_inv: "inv start"
    and step_inv: "step s s' \<Longrightarrow> inv s \<Longrightarrow> inv s'"

sublocale invariant_steps \<subseteq> free: bounded_steps step start inv "\<lambda>_. True"
  by unfold_locales (rule start_inv step_inv; assumption?; simp)+

context invariant_steps
begin

lemma always: "step\<^sup>*\<^sup>* start s \<Longrightarrow> inv s"
  by (rule free.reachable_inv) simp_all

end

end
