(* ===== verification/Binary64.thy ===== *)
theory Binary64
  imports Prelude
begin

text \<open>
  The rounding of IEEE binary64 in its normal range: to the nearest value with a 53-bit
  significand, ties to the even significand.  It satisfies the two laws of
  \<^theory_text>\<open>locale fp_rounding\<close> and has the usual relative error.
\<close>

definition round_even :: "real \<Rightarrow> int" where
  "round_even y = (let f = \<lfloor>y\<rfloor>; d = y - of_int f in
     if d < 1/2 then f else if 1/2 < d then f + 1 else if even f then f else f + 1)"

definition expo64 :: "real \<Rightarrow> int" where
  "expo64 x = \<lfloor>log 2 \<bar>x\<bar>\<rfloor> - 52"

definition rnd64 :: "real \<Rightarrow> real" where
  "rnd64 x = (if x = 0 then 0
     else of_int (round_even (x / 2 powr of_int (expo64 x))) * 2 powr of_int (expo64 x))"

lemma round_even_err: "\<bar>of_int (round_even y) - y\<bar> \<le> 1/2"
  unfolding round_even_def Let_def by (simp split: if_splits)

lemma round_even_int [simp]: "round_even (of_int n) = n"
  by (simp add: round_even_def)

lemma round_even_mono: "x \<le> y \<Longrightarrow> round_even x \<le> round_even y"
proof -
  assume le: "x \<le> y"
  have "\<lfloor>x\<rfloor> \<le> \<lfloor>y\<rfloor>" using le by (rule floor_mono)
  then consider "\<lfloor>x\<rfloor> = \<lfloor>y\<rfloor>" | "\<lfloor>x\<rfloor> + 1 \<le> \<lfloor>y\<rfloor>" by linarith
  then show ?thesis
  proof cases
    case 1
    then show ?thesis using le by (auto simp: round_even_def Let_def)
  next
    case 2
    then show ?thesis by (auto simp: round_even_def Let_def)
  qed
qed

lemma round_even_le_int: "x \<le> of_int n \<Longrightarrow> round_even x \<le> n"
  using round_even_mono [of x "of_int n"] by simp

lemma round_even_ge_int: "of_int n \<le> x \<Longrightarrow> n \<le> round_even x"
  using round_even_mono [of "of_int n" x] by simp

lemma expo64_bounds:
  assumes "x \<noteq> 0"
  shows "2 powr of_int (expo64 x + 52) \<le> \<bar>x\<bar>" and "\<bar>x\<bar> < 2 powr of_int (expo64 x + 53)"
proof -
  let ?e = "\<lfloor>log 2 \<bar>x\<bar>\<rfloor>"
  have ax: "0 < \<bar>x\<bar>" using assms by simp
  have "2 powr of_int ?e \<le> \<bar>x\<bar>"
    by (rule le_log_iff [THEN iffD1, OF _ ax]) simp_all
  then show "2 powr of_int (expo64 x + 52) \<le> \<bar>x\<bar>" by (simp add: expo64_def)
  have "\<bar>x\<bar> < 2 powr (of_int ?e + 1)"
    by (rule log_less_iff [THEN iffD1, OF _ ax]) (simp, linarith)
  then show "\<bar>x\<bar> < 2 powr of_int (expo64 x + 53)" by (simp add: expo64_def add.commute)
qed

lemma rnd64_err: "\<bar>rnd64 x - x\<bar> \<le> \<bar>x\<bar> / 2 ^ 53"
proof (cases "x = 0")
  case False
  let ?p = "2 powr of_int (expo64 x) :: real"
  let ?r = "of_int (round_even (x / ?p)) :: real"
  have p: "0 < ?p" by simp
  have "rnd64 x - x = (?r - x / ?p) * ?p"
    using False p by (simp add: rnd64_def left_diff_distrib)
  then have "\<bar>rnd64 x - x\<bar> = \<bar>?r - x / ?p\<bar> * ?p"
    by (simp add: abs_mult)
  also have "\<dots> \<le> 1/2 * ?p"
    by (rule mult_right_mono [OF round_even_err]) simp
  also have "1/2 * ?p = 2 powr of_int (expo64 x + 52) / 2 ^ 53"
    by (simp add: powr_add powr_realpow)
  also have "\<dots> \<le> \<bar>x\<bar> / 2 ^ 53"
    by (rule divide_right_mono [OF expo64_bounds(1) [OF False]]) simp
  finally show ?thesis .
qed (simp add: rnd64_def)

text \<open>Integers with at most 53 bits are their own rounding.\<close>

lemma rnd64_grid:
  assumes "x = of_int m * 2 powr of_int k" and "k \<ge> expo64 x"
  shows "rnd64 x = x"
proof (cases "x = 0")
  case False
  define d where "d = nat (k - expo64 x)"
  have k: "k = expo64 x + int d" using assms(2) by (simp add: d_def)
  have p: "(2::real) powr of_int k = 2 ^ d * 2 powr of_int (expo64 x)"
    unfolding k by (simp add: powr_add powr_realpow mult.commute)
  have "x / 2 powr of_int (expo64 x) = of_int m * 2 ^ d"
    by (subst assms(1)) (simp add: p)
  also have "\<dots> = of_int (m * 2 ^ d)" by simp
  finally have q: "x / 2 powr of_int (expo64 x) = of_int (m * 2 ^ d)" .
  have "rnd64 x = of_int (m * 2 ^ d) * 2 powr of_int (expo64 x)"
    using False by (simp only: rnd64_def q round_even_int if_False)
  also have "\<dots> = x" by (subst (2) assms(1)) (simp add: p)
  finally show ?thesis .
qed (simp add: rnd64_def)

lemma expo64_less:
  assumes "\<bar>x\<bar> < 2 powr of_int k" and "x \<noteq> 0"
  shows "expo64 x + 52 < k"
proof -
  have "(2::real) powr of_int (expo64 x + 52) < 2 powr of_int k"
    using expo64_bounds(1) [OF assms(2)] assms(1) by linarith
  then show ?thesis by simp
qed

lemma expo64_powr [simp]: "expo64 (2 powr of_int k) = k - 52"
  by (simp add: expo64_def)

lemma expo64_neg [simp]: "expo64 (- x) = expo64 x"
  by (simp add: expo64_def)

lemma rnd64_powr [simp]: "rnd64 (2 powr of_int k) = 2 powr of_int k"
  by (rule rnd64_grid [where m = 1 and k = k]) simp_all

lemma rnd64_int_small:
  assumes "\<bar>n\<bar> < 2 ^ 53"
  shows "rnd64 (real_of_int n) = real_of_int n"
proof (cases "n = 0")
  case False
  have "real_of_int \<bar>n\<bar> < real_of_int (2 ^ 53)" using assms by (simp only: of_int_less_iff)
  then have "\<bar>real_of_int n\<bar> < 2 powr of_int 53" by simp
  then have "expo64 (real_of_int n) + 52 < 53" using False by (intro expo64_less) auto
  then show ?thesis by (intro rnd64_grid [where m = n and k = 0]) auto
qed (simp add: rnd64_def)

lemma rnd64_pos_range:
  assumes "0 < x"
  shows "2 powr of_int (expo64 x + 52) \<le> rnd64 x" and "rnd64 x \<le> 2 powr of_int (expo64 x + 53)"
proof -
  let ?p = "2 powr of_int (expo64 x) :: real"
  have p: "0 < ?p" by simp
  have e: "(2::real) powr of_int (expo64 x + 52) = of_int (2 ^ 52) * ?p"
    "(2::real) powr of_int (expo64 x + 53) = of_int (2 ^ 53) * ?p"
    by (simp_all add: powr_add powr_numeral)
  have "of_int (2 ^ 52) * ?p \<le> x" "x \<le> of_int (2 ^ 53) * ?p"
    using expo64_bounds [of x] assms e by auto
  then have "of_int (2 ^ 52) \<le> x / ?p" "x / ?p \<le> of_int (2 ^ 53)"
    using p by (simp_all add: pos_le_divide_eq pos_divide_le_eq)
  then have "2 ^ 52 \<le> round_even (x / ?p)" "round_even (x / ?p) \<le> 2 ^ 53"
    by (auto intro: round_even_le_int round_even_ge_int)
  then have "real_of_int (2 ^ 52) \<le> of_int (round_even (x / ?p))"
    "of_int (round_even (x / ?p)) \<le> real_of_int (2 ^ 53)"
    by (simp_all only: of_int_le_iff)
  then have "of_int (2 ^ 52) * ?p \<le> of_int (round_even (x / ?p)) * ?p"
    "of_int (round_even (x / ?p)) * ?p \<le> of_int (2 ^ 53) * ?p"
    using p by (simp_all only: mult_right_mono)
  then show "2 powr of_int (expo64 x + 52) \<le> rnd64 x" and "rnd64 x \<le> 2 powr of_int (expo64 x + 53)"
    using assms by (simp_all only: e rnd64_def) simp_all
qed

lemma round_even_minus: "round_even (- y) = - round_even y"
proof (cases "y = of_int \<lfloor>y\<rfloor>")
  case True
  then show ?thesis by (metis of_int_minus round_even_int)
next
  case False
  then have f: "\<lfloor>- y\<rfloor> = - \<lfloor>y\<rfloor> - 1" by linarith
  then show ?thesis unfolding round_even_def Let_def by auto
qed

lemma rnd64_minus: "rnd64 (- x) = - rnd64 x"
  by (simp add: rnd64_def round_even_minus)

lemma rnd64_mono_pos:
  assumes "0 < x" and "x \<le> y"
  shows "rnd64 x \<le> rnd64 y"
proof -
  have y: "0 < y" using assms by simp
  have "log 2 x \<le> log 2 y" using assms y by simp
  then have "expo64 x \<le> expo64 y"
    using assms(1) y by (simp add: expo64_def floor_mono)
  then consider "expo64 x = expo64 y" | "expo64 x + 1 \<le> expo64 y" by linarith
  then show ?thesis
  proof cases
    case 1
    let ?p = "2 powr of_int (expo64 y) :: real"
    have "x / ?p \<le> y / ?p" using assms by (simp add: divide_right_mono)
    then have "round_even (x / ?p) \<le> round_even (y / ?p)" by (rule round_even_mono)
    then show ?thesis using assms(1) y 1 by (simp add: rnd64_def)
  next
    case 2
    have "rnd64 x \<le> 2 powr of_int (expo64 x + 53)"
      using assms(1) by (rule rnd64_pos_range)
    also have "\<dots> \<le> 2 powr of_int (expo64 y + 52)" using 2 by simp
    also have "\<dots> \<le> rnd64 y" using y by (rule rnd64_pos_range)
    finally show ?thesis .
  qed
qed

lemma rnd64_nonneg: "0 \<le> x \<Longrightarrow> 0 \<le> rnd64 x"
  by (cases "x = 0") (auto simp: rnd64_def [of 0] intro: order_trans [OF _ rnd64_pos_range(1)])

lemma rnd64_mono: "x \<le> y \<Longrightarrow> rnd64 x \<le> rnd64 y"
proof -
  assume le: "x \<le> y"
  consider "0 < x" | "x \<le> 0" "0 \<le> y" | "y < 0" by linarith
  then show ?thesis
  proof cases
    case 1
    then show ?thesis using le by (rule rnd64_mono_pos)
  next
    case 2
    have "0 \<le> rnd64 (- x)" using 2(1) by (intro rnd64_nonneg) simp
    moreover have "0 \<le> rnd64 y" using 2(2) by (rule rnd64_nonneg)
    ultimately show ?thesis by (simp add: rnd64_minus)
  next
    case 3
    then have "rnd64 (- y) \<le> rnd64 (- x)" using le by (intro rnd64_mono_pos) auto
    then show ?thesis by (simp add: rnd64_minus)
  qed
qed

lemma rnd64_int:
  assumes "\<bar>n\<bar> \<le> 2 ^ 53"
  shows "rnd64 (real_of_int n) = real_of_int n"
proof -
  have p: "real_of_int (2 ^ 53) = 2 powr of_int 53" by (simp add: powr_numeral)
  have q: "rnd64 (real_of_int (2 ^ 53)) = real_of_int (2 ^ 53)"
    by (simp only: p rnd64_powr)
  consider "\<bar>n\<bar> < 2 ^ 53" | "n = 2 ^ 53" | "n = - (2 ^ 53)" using assms by linarith
  then show ?thesis
  proof cases
    case 1
    then show ?thesis by (rule rnd64_int_small)
  next
    case 2
    then show ?thesis using q by simp
  next
    case 3
    then show ?thesis using q rnd64_minus [of "real_of_int (2 ^ 53)"] by simp
  qed
qed

interpretation binary64: fp_rounding rnd64
  by unfold_locales (fact rnd64_mono, fact rnd64_int)

end
