(* ===== verification/Utility.thy ===== *)
theory Utility
  imports Binary64
begin

text \<open>
  \<open>lib/utility/Utility.cpp\<close> and the protocol helpers of \<open>include/mercury_shm.h\<close>: the affine
  fixed-point codes of the Damiao protocol and the byte-wise reinterpretation of floats and
  integers.  A \<open>float\<close> is its 32-bit pattern; \<open>f32_val\<close> is its value as a double.
  A conversion the C++ standard leaves undefined yields \<^const>\<open>None\<close>.
\<close>

definition limitMinMax :: "double \<Rightarrow> double \<Rightarrow> double \<Rightarrow> double" where
  "limitMinMax x lo hi = std_max lo (std_min x hi)"

definition code_max :: "nat \<Rightarrow> double" where
  "code_max bits = Fin (real_of_int (2 ^ bits - 1))"

definition cast_u16 :: "double \<Rightarrow> u16 option" where
  "cast_u16 x = map_option word_of_int (cast_int 0 65535 x)"

definition doubleToUint ::
    "(real \<Rightarrow> real) \<Rightarrow> double \<Rightarrow> double \<Rightarrow> double \<Rightarrow> nat \<Rightarrow> u16 option" where
  "doubleToUint rnd x x_min x_max bits =
     (let x = limitMinMax x x_min x_max;
          span = dsub rnd x_max x_min;
          data_norm = ddiv rnd (dsub rnd x x_min) span
      in cast_u16 (dmul rnd data_norm (code_max bits)))"

definition uintToDouble ::
    "(real \<Rightarrow> real) \<Rightarrow> u16 \<Rightarrow> double \<Rightarrow> double \<Rightarrow> nat \<Rightarrow> double" where
  "uintToDouble rnd x lo hi bits =
     (let span = dsub rnd hi lo;
          data_norm = ddiv rnd (Fin (real (unat x))) (code_max bits)
      in dadd rnd (dmul rnd data_norm span) lo)"

definition floatToUint8s :: "u32 \<Rightarrow> bytes" where
  "floatToUint8s value = le_bytes32 value"

definition uint8sToFloat :: "bytes \<Rightarrow> u32" where
  "uint8sToFloat bs = le_word32 bs"

definition uint8sToUint32 :: "u8 \<Rightarrow> u8 \<Rightarrow> u8 \<Rightarrow> u8 \<Rightarrow> u32" where
  "uint8sToUint32 byte1 byte2 byte3 byte4 = le_word32 [byte1, byte2, byte3, byte4]"

text \<open>The helpers of \<open>mercury_shm.h\<close>: the same codes with the clamp written as two tests.\<close>

definition double_to_uint ::
    "(real \<Rightarrow> real) \<Rightarrow> double \<Rightarrow> double \<Rightarrow> double \<Rightarrow> nat \<Rightarrow> u16 option" where
  "double_to_uint rnd x x_min x_max bits =
     (let x1 = (if dlt x x_min then x_min else x);
          x2 = (if dlt x_max x1 then x_max else x1)
      in cast_u16 (dmul rnd (ddiv rnd (dsub rnd x2 x_min) (dsub rnd x_max x_min)) (code_max bits)))"

definition uint_to_double ::
    "(real \<Rightarrow> real) \<Rightarrow> u16 \<Rightarrow> double \<Rightarrow> double \<Rightarrow> nat \<Rightarrow> double" where
  "uint_to_double rnd x min_v max_v bits =
     dadd rnd (dmul rnd (ddiv rnd (Fin (real (unat x))) (code_max bits)) (dsub rnd max_v min_v)) min_v"

text \<open>The value of a binary32 pattern: sign, 8 exponent bits, 23 fraction bits.\<close>

definition f32_val :: "u32 \<Rightarrow> double" where
  "f32_val w =
     (let neg = bit w 31;
          e = unat (drop_bit 23 w AND 0xFF);
          f = unat (w AND 0x7FFFFF);
          s = (if neg then -1 else 1 :: real)
      in if e = 255 then (if f = 0 then DInf neg else DNaN)
         else if e = 0 then Fin (s * real f / 2 ^ 149)
         else Fin (s * real (2 ^ 23 + f) * 2 ^ e / 2 ^ 150))"

section \<open>Clamping\<close>

lemma limitMinMax_Fin [simp]:
  "limitMinMax (Fin x) (Fin lo) (Fin hi) = Fin (max lo (min x hi))"
  by (simp add: limitMinMax_def)

lemma limitMinMax_finite:
  assumes "lo \<le> hi"
  obtains r where "limitMinMax x (Fin lo) (Fin hi) = Fin r" "lo \<le> r" "r \<le> hi"
proof (cases x)
  case DNaN
  then show ?thesis using assms that [of lo]
    by (simp add: limitMinMax_def std_max_def std_min_def)
next
  case (DInf s)
  then show ?thesis using assms that [of lo] that [of hi]
    by (cases s) (auto simp: limitMinMax_def std_max_def std_min_def split: if_splits)
next
  case (Fin r)
  then show ?thesis using assms that [of "max lo (min r hi)"] by simp
qed

lemma limitMinMax_NaN: "limitMinMax DNaN (Fin lo) (Fin hi) = Fin lo"
  by (simp add: limitMinMax_def std_max_def std_min_def)

section \<open>Codes\<close>

lemma cast_u16_Fin:
  assumes "0 \<le> r" and "r \<le> real_of_int n" and "n \<le> 65535"
  shows "cast_u16 (Fin r) = Some (word_of_int (trunc_real r))"
    and "unat (word_of_int (trunc_real r) :: u16) = nat (trunc_real r)"
proof -
  note b = trunc_real_bounds [OF assms(1,2)]
  show "cast_u16 (Fin r) = Some (word_of_int (trunc_real r))"
    using b assms(3) by (simp add: cast_u16_def cast_int_def Let_def)
  have "take_bit 16 (trunc_real r) = trunc_real r"
    using b assms(3) by (intro take_bit_int_eq_self) auto
  then show "unat (word_of_int (trunc_real r) :: u16) = nat (trunc_real r)"
    by (simp add: unsigned_of_int)
qed

lemma two_power_le_16: "bits \<le> 16 \<Longrightarrow> (2::int) ^ bits - 1 \<le> 65535"
  using power_increasing [of bits 16 "2::int"] by simp

text \<open>The real number whose truncation is the code of a value already inside the range.\<close>

definition code_real :: "(real \<Rightarrow> real) \<Rightarrow> real \<Rightarrow> real \<Rightarrow> nat \<Rightarrow> real \<Rightarrow> real" where
  "code_real rnd lo hi bits r =
     rnd (rnd (rnd (r - lo) / rnd (hi - lo)) * real_of_int (2 ^ bits - 1))"

context fp_rounding
begin

lemma code_real_range:
  assumes "lo \<le> r" "r \<le> hi" "0 < rnd (hi - lo)" "bits \<le> 16"
  shows "0 \<le> code_real rnd lo hi bits r" and "code_real rnd lo hi bits r \<le> real_of_int (2 ^ bits - 1)"
proof -
  let ?q = "rnd (rnd (r - lo) / rnd (hi - lo))"
  have "0 \<le> rnd (r - lo)" "rnd (r - lo) \<le> rnd (hi - lo)"
    using assms by (auto intro: rnd_nonneg rnd_mono)
  then have q: "0 \<le> ?q" "?q \<le> 1"
    using assms(3) by (auto intro: rnd_quotient_unit)
  have n: "\<bar>(2::int) ^ bits - 1\<bar> \<le> 2 ^ 53" "(0::int) \<le> 2 ^ bits - 1"
    using two_power_le_16 [OF assms(4)] by (simp_all add: abs_le_iff)
  show "0 \<le> code_real rnd lo hi bits r"
    unfolding code_real_def using q(1) n(2) by (intro rnd_nonneg [OF mult_nonneg_nonneg]) auto
  show "code_real rnd lo hi bits r \<le> real_of_int (2 ^ bits - 1)"
    unfolding code_real_def
  proof (rule rnd_le_int [OF _ n(1)])
    have "?q * real_of_int (2 ^ bits - 1) \<le> 1 * real_of_int (2 ^ bits - 1)"
      by (rule mult_right_mono [OF q(2)]) (use n(2) in simp)
    then show "?q * real_of_int (2 ^ bits - 1) \<le> real_of_int (2 ^ bits - 1)" by simp
  qed
qed

lemma code_real_mono:
  assumes "r \<le> s" "0 < rnd (hi - lo)"
  shows "code_real rnd lo hi bits r \<le> code_real rnd lo hi bits s"
  unfolding code_real_def using assms
  by (intro rnd_mono mult_right_mono divide_right_mono) auto

lemma doubleToUint_code:
  assumes "limitMinMax x (Fin lo) (Fin hi) = Fin r" "lo \<le> r" "r \<le> hi"
    and "0 < rnd (hi - lo)" "bits \<le> 16"
  shows "doubleToUint rnd x (Fin lo) (Fin hi) bits
           = Some (word_of_int (trunc_real (code_real rnd lo hi bits r)))"
    and "unat (word_of_int (trunc_real (code_real rnd lo hi bits r)) :: u16)
           = nat (trunc_real (code_real rnd lo hi bits r))"
    and "trunc_real (code_real rnd lo hi bits r) \<in> {0..2 ^ bits - 1}"
proof -
  note rg = code_real_range [OF assms(2-5)]
  note c = cast_u16_Fin [OF rg two_power_le_16 [OF assms(5)]]
  show "doubleToUint rnd x (Fin lo) (Fin hi) bits
           = Some (word_of_int (trunc_real (code_real rnd lo hi bits r)))"
    using assms(1,4) c(1) by (simp add: doubleToUint_def code_max_def code_real_def)
  show "unat (word_of_int (trunc_real (code_real rnd lo hi bits r)) :: u16)
           = nat (trunc_real (code_real rnd lo hi bits r))"
    by (rule c(2))
  show "trunc_real (code_real rnd lo hi bits r) \<in> {0..2 ^ bits - 1}"
    using trunc_real_bounds [OF rg] by simp
qed

lemma doubleToUint_total:
  assumes "lo \<le> hi" "0 < rnd (hi - lo)" "bits \<le> 16"
  obtains c where "doubleToUint rnd x (Fin lo) (Fin hi) bits = Some c" "unat c < 2 ^ bits"
proof -
  obtain r where r: "limitMinMax x (Fin lo) (Fin hi) = Fin r" "lo \<le> r" "r \<le> hi"
    by (rule limitMinMax_finite [OF assms(1)])
  note d = doubleToUint_code [OF r assms(2,3)]
  have "nat (trunc_real (code_real rnd lo hi bits r)) < 2 ^ bits"
    using d(3) by (simp add: nat_less_iff)
  then show ?thesis using d(1,2) that by metis
qed

lemma doubleToUint_mono:
  assumes "x \<le> y" "lo \<le> hi" "0 < rnd (hi - lo)" "bits \<le> 16"
    and "doubleToUint rnd (Fin x) (Fin lo) (Fin hi) bits = Some c"
    and "doubleToUint rnd (Fin y) (Fin lo) (Fin hi) bits = Some d"
  shows "unat c \<le> unat d"
proof -
  let ?r = "max lo (min x hi)" and ?s = "max lo (min y hi)"
  have rs: "limitMinMax (Fin x) (Fin lo) (Fin hi) = Fin ?r" "lo \<le> ?r" "?r \<le> hi"
    "limitMinMax (Fin y) (Fin lo) (Fin hi) = Fin ?s" "lo \<le> ?s" "?s \<le> hi" "?r \<le> ?s"
    using assms(1,2) by auto
  note dx = doubleToUint_code [OF rs(1-3) assms(3,4)]
  note dy = doubleToUint_code [OF rs(4-6) assms(3,4)]
  have "trunc_real (code_real rnd lo hi bits ?r) \<le> trunc_real (code_real rnd lo hi bits ?s)"
    by (intro trunc_real_mono code_real_mono [OF rs(7) assms(3)])
  then show ?thesis using dx(1,2) dy(1,2) assms(5,6) by (simp add: nat_mono)
qed

end

section \<open>Accuracy\<close>

text \<open>
  With the relative error of binary64, encoding a value and decoding its code loses at most
  one quantum of the code, up to the rounding error of the conversion.
\<close>

locale fp_error = fp_rounding +
  assumes rnd_err: "\<bar>rnd x - x\<bar> \<le> \<bar>x\<bar> / 2 ^ 53"
begin

lemma rnd_err_le: "\<bar>x\<bar> \<le> b \<Longrightarrow> \<bar>rnd x - x\<bar> \<le> b / 2 ^ 53"
  by (rule order_trans [OF rnd_err]) (simp add: divide_right_mono)

lemma norm_err:
  assumes "lo < hi" "lo \<le> r" "r \<le> hi"
  shows "\<bar>rnd (rnd (r - lo) / rnd (hi - lo)) - (r - lo) / (hi - lo)\<bar> \<le> 4 / 2 ^ 53"
proof -
  define S where "S = hi - lo"
  define u where "u = (1::real) / 2 ^ 53"
  have u: "0 < u" "u \<le> 1/10" by (simp_all add: u_def)
  have S: "0 < S" using assms by (simp add: S_def)
  let ?t = "r - lo" and ?a = "rnd (r - lo)" and ?D = "rnd S"
  have t: "0 \<le> ?t" "?t \<le> S" using assms by (simp_all add: S_def)
  have a: "0 \<le> ?a" "?a \<le> ?D" using t by (auto intro: rnd_nonneg rnd_mono)
  have D: "\<bar>?D - S\<bar> \<le> u * S" using rnd_err_le [of S S] S by (simp add: u_def)
  have ae: "\<bar>?a - ?t\<bar> \<le> u * S" using rnd_err_le [of ?t S] t by (simp add: u_def)
  have uS: "u * S \<le> S / 10" using mult_right_mono [OF u(2), of S] S by simp
  have Dge: "9 / 10 * S \<le> ?D" using D uS by linarith
  then have Dpos: "0 < ?D" using S by linarith
  have "?a / ?D - ?t / S = (S * (?a - ?t) + ?t * (S - ?D)) / (?D * S)"
    using Dpos S by (simp add: field_simps)
  also have "\<bar>\<dots>\<bar> \<le> (S * (u * S) + S * (u * S)) / (?D * S)"
  proof -
    have "\<bar>S * (?a - ?t) + ?t * (S - ?D)\<bar> \<le> \<bar>S * (?a - ?t)\<bar> + \<bar>?t * (S - ?D)\<bar>"
      by (rule abs_triangle_ineq)
    also have "\<bar>S * (?a - ?t)\<bar> \<le> S * (u * S)" using ae S by (simp add: abs_mult)
    also have "\<bar>?t * (S - ?D)\<bar> \<le> S * (u * S)"
      using t D S unfolding abs_mult by (intro mult_mono) (auto simp: abs_minus_commute)
    finally have "\<bar>S * (?a - ?t) + ?t * (S - ?D)\<bar> / (?D * S) \<le> (S * (u * S) + S * (u * S)) / (?D * S)"
      using Dpos S by (intro divide_right_mono) auto
    then show ?thesis using Dpos S by (simp only: abs_divide abs_mult [of ?D S] abs_of_pos)
  qed
  also have "\<dots> = 2 * u * S / ?D" using Dpos S by (simp add: field_simps)
  also have "\<dots> \<le> 3 * u"
  proof -
    have "2 * u * S \<le> 3 * u * ?D"
      using mult_left_mono [OF Dge, of "3 * u"] u(1) S mult_pos_pos [OF u(1) S] by simp
    then show ?thesis using Dpos by (simp add: pos_divide_le_eq)
  qed
  finally have 1: "\<bar>?a / ?D - ?t / S\<bar> \<le> 3 * u" .
  have "\<bar>?a / ?D\<bar> \<le> 1" using a Dpos by simp
  then have "\<bar>rnd (?a / ?D) - ?a / ?D\<bar> \<le> u" using rnd_err_le [of "?a / ?D" 1] by (simp add: u_def)
  with 1 have "\<bar>rnd (?a / ?D) - ?t / S\<bar> \<le> 4 * u" by linarith
  then show ?thesis by (simp add: S_def u_def)
qed

lemma code_real_err:
  assumes "lo < hi" "lo \<le> r" "r \<le> hi" "0 < N" "N = real_of_int (2 ^ bits - 1)" 
  shows "\<bar>code_real rnd lo hi bits r - (r - lo) / (hi - lo) * N\<bar> \<le> 6 / 2 ^ 53 * N"
proof -
  let ?q = "rnd (rnd (r - lo) / rnd (hi - lo))" and ?t = "(r - lo) / (hi - lo)"
  have q: "\<bar>?q - ?t\<bar> \<le> 4 / 2 ^ 53" by (rule norm_err [OF assms(1-3)])
  have "?t \<le> 1" "0 \<le> ?t" using assms by simp_all
  moreover have "\<bar>?q - ?t\<bar> \<le> 1" by (rule order_trans [OF q]) simp
  ultimately have "\<bar>?q\<bar> \<le> 2" by linarith
  then have b: "\<bar>?q * N\<bar> \<le> 2 * N" using assms(4) by (simp add: abs_mult)
  have "\<bar>rnd (?q * N) - ?q * N\<bar> \<le> 2 * N / 2 ^ 53" by (rule rnd_err_le [OF b])
  moreover have "\<bar>?q * N - ?t * N\<bar> \<le> 4 / 2 ^ 53 * N"
    using mult_right_mono [OF q, of N] assms(4)
    by (simp only: abs_mult [of _ N] left_diff_distrib [symmetric] abs_of_pos less_imp_le)
  ultimately have "\<bar>rnd (?q * N) - ?t * N\<bar> \<le> 2 * N / 2 ^ 53 + 4 / 2 ^ 53 * N" by linarith
  also have "\<dots> = 6 / 2 ^ 53 * N" by simp
  finally have "\<bar>rnd (?q * N) - ?t * N\<bar> \<le> 6 / 2 ^ 53 * N" .
  then show ?thesis by (simp only: code_real_def assms(5))
qed

lemma decode_err:
  assumes "lo < hi" "\<bar>lo\<bar> \<le> hi - lo" "0 < N" "0 \<le> c" "c \<le> N"
    and "\<bar>c / N - t\<bar> \<le> e" "0 \<le> t" "t \<le> 1" 
  shows "\<bar>rnd (rnd (rnd (c / N) * rnd (hi - lo)) + lo) - (t * (hi - lo) + lo)\<bar>
           \<le> (hi - lo) * (e + 1 / 2 ^ 49)"
proof -
  define S where "S = hi - lo"
  define u where "u = (1::real) / 2 ^ 53"
  have u: "0 < u" "u \<le> 1/10" by (simp_all add: u_def)
  have S: "0 < S" "\<bar>lo\<bar> \<le> S" using assms by (simp_all add: S_def)
  let ?n = "rnd (c / N)" and ?D = "rnd S"
  have D: "\<bar>?D - S\<bar> \<le> u * S" using rnd_err_le [of S S] S by (simp add: u_def)
  have uS: "u * S \<le> S / 10" using mult_right_mono [OF u(2), of S] S by simp
  have D0: "0 \<le> ?D" "?D \<le> 2 * S" using D uS S by linarith+
  have c: "0 \<le> c / N" "c / N \<le> 1" using assms by simp_all
  have n: "0 \<le> ?n" "?n \<le> 1" using c by (auto intro: rnd_nonneg rnd_le_1)
  have ne: "\<bar>?n - c / N\<bar> \<le> u" using rnd_err_le [of "c / N" 1] c by (simp add: u_def)
  have nt: "\<bar>?n * S - t * S\<bar> \<le> (e + u) * S"
  proof -
    have "\<bar>?n - t\<bar> \<le> e + u" using ne assms(6) by linarith
    from mult_right_mono [OF this, of S] show ?thesis
      using S by (simp add: abs_mult left_diff_distrib [symmetric])
  qed
  have nD: "\<bar>?n * ?D - ?n * S\<bar> \<le> u * S"
    using mult_mono [OF n(2) D] n S by (simp add: abs_mult right_diff_distrib [symmetric])
  have b: "\<bar>?n * ?D\<bar> \<le> 2 * S"
    using mult_mono [OF n(2) D0(2)] n D0 by (simp add: abs_mult)
  have m: "\<bar>rnd (?n * ?D) - ?n * ?D\<bar> \<le> 2 * (u * S)"
    using rnd_err_le [OF b] by (simp add: u_def)
  let ?m = "rnd (?n * ?D)"
  have "\<bar>?m + lo\<bar> \<le> 4 * S" using b m uS S by linarith
  then have v: "\<bar>rnd (?m + lo) - (?m + lo)\<bar> \<le> 4 * (u * S)"
    using rnd_err_le [of "?m + lo" "4 * S"] by (simp add: u_def)
  have "\<bar>rnd (?m + lo) - (t * S + lo)\<bar> \<le> (e + u) * S + 7 * (u * S)"
    using nt nD m v by linarith
  also have "\<dots> \<le> S * (e + 16 * u)"
    using mult_pos_pos [OF u(1) S(1)] by (simp add: algebra_simps)
  finally show ?thesis by (simp add: S_def u_def)
qed

lemma quantisation_error:
  assumes "lo < hi" "\<bar>lo\<bar> \<le> hi - lo" "1 \<le> bits" "bits \<le> 16" "0 < rnd (hi - lo)"
    and r: "limitMinMax x (Fin lo) (Fin hi) = Fin r" "lo \<le> r" "r \<le> hi"
    and c: "doubleToUint rnd x (Fin lo) (Fin hi) bits = Some c"
  shows "\<exists>v. uintToDouble rnd c (Fin lo) (Fin hi) bits = Fin v \<and>
           \<bar>v - r\<bar> \<le> (hi - lo) * (1 / (2 ^ bits - 1) + 1 / 2 ^ 48)"
proof -
  define N where "N = real_of_int (2 ^ bits - 1)"
  define p where "p = code_real rnd lo hi bits r"
  have "(2::int) ^ 1 \<le> 2 ^ bits" using assms(3) by (intro power_increasing) auto
  then have N: "0 < N" unfolding N_def by (simp only: of_int_0_less_iff) simp
  note d = doubleToUint_code [OF r assms(5,4), folded p_def]
  have cp: "real (unat c) = real_of_int (trunc_real p)" using d c by simp
  have p0: "0 \<le> p" "p \<le> N"
    using code_real_range [OF r(2,3) assms(5,4)] by (simp_all add: p_def N_def)
  have fl: "p - 1 \<le> real (unat c)" "real (unat c) \<le> p"
    unfolding cp using p0(1) by (simp_all add: trunc_real_def)
  have "\<bar>p - (r - lo) / (hi - lo) * N\<bar> \<le> 6 / 2 ^ 53 * N"
    unfolding p_def by (rule code_real_err [OF assms(1) r(2,3) N N_def])
  then have "\<bar>real (unat c) - (r - lo) / (hi - lo) * N\<bar> \<le> 1 + 6 / 2 ^ 53 * N"
    using fl by linarith
  then have "\<bar>real (unat c) - (r - lo) / (hi - lo) * N\<bar> / N \<le> (1 + 6 / 2 ^ 53 * N) / N"
    using N by (intro divide_right_mono) auto
  also have "\<dots> = 1 / N + 6 / 2 ^ 53" using N by (simp add: add_divide_distrib)
  also have "\<bar>real (unat c) - (r - lo) / (hi - lo) * N\<bar> / N
      = \<bar>real (unat c) / N - (r - lo) / (hi - lo)\<bar>"
  proof -
    have "real (unat c) / N - (r - lo) / (hi - lo) = (real (unat c) - (r - lo) / (hi - lo) * N) / N"
      using N by (simp add: diff_divide_distrib)
    then show ?thesis using N by (simp only: abs_divide abs_of_pos)
  qed
  finally have e: "\<bar>real (unat c) / N - (r - lo) / (hi - lo)\<bar> \<le> 1 / N + 6 / 2 ^ 53" .
  let ?v = "rnd (rnd (rnd (real (unat c) / N) * rnd (hi - lo)) + lo)"
  have "\<bar>?v - ((r - lo) / (hi - lo) * (hi - lo) + lo)\<bar> \<le> (hi - lo) * (1 / N + 6 / 2 ^ 53 + 1 / 2 ^ 49)"
    by (rule decode_err [OF assms(1,2) N of_nat_0_le_iff _ e])
      (use fl p0 r assms(1) in auto)
  also have "(r - lo) / (hi - lo) * (hi - lo) + lo = r" using assms(1) by simp
  also have "(hi - lo) * (1 / N + 6 / 2 ^ 53 + 1 / 2 ^ 49) \<le> (hi - lo) * (1 / N + 1 / 2 ^ 48)"
    using assms(1) by (intro mult_left_mono) auto
  finally have "\<bar>?v - r\<bar> \<le> (hi - lo) * (1 / N + 1 / 2 ^ 48)" .
  moreover have "uintToDouble rnd c (Fin lo) (Fin hi) bits = Fin ?v"
    using N by (simp add: uintToDouble_def code_max_def N_def)
  ultimately show ?thesis by (auto simp: N_def)
qed

end

interpretation binary64_err: fp_error rnd64
  by unfold_locales (rule rnd64_err)


section \<open>The two implementations\<close>

text \<open>C37: the codes of the robot (\<open>utility::doubleToUint\<close>) and of the actuator side
  (\<open>mercury::double_to_uint\<close>) agree on every value, infinities included, except that a NaN is
  sent as the lower bound by the first and is undefined for the second; the decoders are the same.\<close>

theorem codes_agree:
  assumes "lo \<le> hi"
  shows "double_to_uint rnd x (Fin lo) (Fin hi) bits =
      (if x = DNaN then None else doubleToUint rnd x (Fin lo) (Fin hi) bits) \<and>
    doubleToUint rnd DNaN (Fin lo) (Fin hi) bits = doubleToUint rnd (Fin lo) (Fin lo) (Fin hi) bits \<and>
    uint_to_double rnd c (Fin lo) (Fin hi) bits = uintToDouble rnd c (Fin lo) (Fin hi) bits"
proof -
  have clamp: "limitMinMax x (Fin lo) (Fin hi) =
      (let x1 = (if dlt x (Fin lo) then Fin lo else x) in if dlt (Fin hi) x1 then Fin hi else x1)" if "x \<noteq> DNaN"
    using assms that by (cases x) (auto simp: limitMinMax_def std_min_def std_max_def Let_def)
  have nan: "double_to_uint rnd DNaN (Fin lo) (Fin hi) bits = None"
    by (simp add: double_to_uint_def Let_def dsub_def cast_u16_def cast_int_def)
  have "double_to_uint rnd x (Fin lo) (Fin hi) bits = doubleToUint rnd x (Fin lo) (Fin hi) bits" if "x \<noteq> DNaN"
    by (simp add: doubleToUint_def double_to_uint_def clamp [OF that] Let_def)
  then show ?thesis
    using nan assms by (auto simp: doubleToUint_def uint_to_double_def uintToDouble_def limitMinMax_NaN Let_def)
qed

theorem codes_agree_witness:
  "double_to_uint rnd64 (DInf True) (Fin (-18)) (Fin 18) 12 = doubleToUint rnd64 (DInf True) (Fin (-18)) (Fin 18) 12 \<and>
   double_to_uint rnd64 DNaN (Fin (-18)) (Fin 18) 12 = None"
  using codes_agree [of "-18" 18 rnd64 "DInf True" 12] codes_agree [of "-18" 18 rnd64 DNaN 12] by simp

end
