(* ===== verification/CanBus.thy ===== *)
theory CanBus
  imports Utility "HOL-Library.AList"
begin

text \<open>
  The CAN layer of \<open>lib/motor\<close>: \<open>UdpServer\<close> (frames, pending replies, subscribers, the
  receive loop), the HAL functions of \<open>CANAPI.cpp\<close>, the \<open>CAN\<close> wrapper, and
  \<open>MotorParamCache\<close>, which the receive path writes.

  The process-wide state these files share is one record, \<open>can_world\<close>, which the theories
  of the layers above extend.  The result of the \<open>n\<close>-th \<open>sendto\<close> call is \<open>send_result n\<close>;
  every datagram handed to the socket is appended to \<open>sent\<close>.  An observer's
  \<open>packetHandler\<close> is \<^const>\<open>None\<close> for the null pointer and otherwise the context pointer it
  is called with.  Critical sections run to completion.
\<close>

section \<open>Data\<close>

definition HAL_HANDLE_ERROR :: int where "HAL_HANDLE_ERROR = -1098"
definition HAL_CAN_SEND_PERIOD_STOP_REPEATING :: int where "HAL_CAN_SEND_PERIOD_STOP_REPEATING = -1"
definition HAL_CAN_TIMEOUT :: int where "HAL_CAN_TIMEOUT = -1154"
definition MAX_DEVICE_ID :: int where "MAX_DEVICE_ID = 12"

datatype HAL_CANManufacturer = HAL_CAN_Man_kBroadcast | HAL_CAN_Man_Dummy | HAL_CAN_Man_Dm

datatype HAL_CANDeviceType = HAL_CAN_Dev_kBroadcast | HAL_CAN_Dev_karmController
  | HAL_CAN_Dev_kgripperController | HAL_CAN_Dev_kgyroSensor | HAL_CAN_Dev_kMotionController

record CANFrameId =
  fi_deviceId :: u8
  forwardCANId :: u32
  replyCANId :: u32
  hanlde :: int

definition CANFrameId_init :: CANFrameId where
  "CANFrameId_init = \<lparr>fi_deviceId = 0, forwardCANId = 0, replyCANId = 0, hanlde = 0\<rparr>"

record Receives =
  lastTimeStamp :: u64
  rx_data :: bytes
  rx_length :: u8

definition Receives_zero :: Receives where
  "Receives_zero = \<lparr>lastTimeStamp = 0, rx_data = replicate 8 0, rx_length = 0\<rparr>"

record CANStorage =
  manufacturer :: HAL_CANManufacturer
  deviceType :: HAL_CANDeviceType
  st_deviceId :: u8
  masterId :: u8
  receives :: "int \<rightharpoonup> Receives"
  periodicSends :: "int \<rightharpoonup> int"
  replyEvent :: bool

record CANFrame =
  FrameHeader :: u8
  FrameId :: u32
  fr_data :: bytes

definition CANFrame_init :: CANFrame where
  "CANFrame_init = \<lparr>FrameHeader = 8, FrameId = 1, fr_data = replicate 8 0\<rparr>"

definition frame_modify :: "u32 \<Rightarrow> bytes option \<Rightarrow> u8 \<Rightarrow> CANFrame \<Rightarrow> fault + CANFrame" where
  "frame_modify i send_data dataSize f =
     (let n = unat dataSize; f' = f\<lparr>FrameId := bswap32 i\<rparr> in
      if n = 0 then Inr f'
      else case send_data of
        None \<Rightarrow> Inl NullDeref
      | Some d \<Rightarrow> if length d < n \<or> length (fr_data f) < n then Inl OutOfBounds
                  else Inr (f'\<lparr>fr_data := take n d @ drop n (fr_data f)\<rparr>))"

text \<open>The packed object as it lies in memory, without its alignment padding.\<close>

definition frame_image :: "CANFrame \<Rightarrow> bytes" where
  "frame_image f = FrameHeader f # le_bytes32 (FrameId f) @ fr_data f"

definition frame_of_image :: "bytes \<Rightarrow> CANFrame" where
  "frame_of_image bs = \<lparr>FrameHeader = bs ! 0, FrameId = le_word32 (take 4 (drop 1 bs)),
     fr_data = take 8 (drop 5 bs)\<rparr>"

section \<open>MotorParamCache\<close>

record MotorParamCache =
  pc_bus_voltage :: "double list"
  pc_bus_current :: "double list"
  pc_reflected_rotor_inertia :: "double list"

definition NUM_MOTORS :: nat where "NUM_MOTORS = 12"

definition MotorParamCache_init :: MotorParamCache where
  "MotorParamCache_init = \<lparr>pc_bus_voltage = replicate NUM_MOTORS (Fin 0),
     pc_bus_current = replicate NUM_MOTORS (Fin 0),
     pc_reflected_rotor_inertia = replicate NUM_MOTORS (Fin 0)\<rparr>"

definition load_bus_voltage :: "MotorParamCache \<Rightarrow> nat \<Rightarrow> fault + double" where
  "load_bus_voltage c idx = arr_get (pc_bus_voltage c) idx"

definition load_bus_current :: "MotorParamCache \<Rightarrow> nat \<Rightarrow> fault + double" where
  "load_bus_current c idx = arr_get (pc_bus_current c) idx"

definition load_reflected_rotor_inertia :: "MotorParamCache \<Rightarrow> nat \<Rightarrow> fault + double" where
  "load_reflected_rotor_inertia c idx = arr_get (pc_reflected_rotor_inertia c) idx"

definition store_bus_voltage :: "nat \<Rightarrow> double \<Rightarrow> MotorParamCache \<Rightarrow> fault + MotorParamCache" where
  "store_bus_voltage idx v c =
     bindR (arr_set (pc_bus_voltage c) idx v) (\<lambda>xs. Inr (c\<lparr>pc_bus_voltage := xs\<rparr>))"

definition store_bus_current :: "nat \<Rightarrow> double \<Rightarrow> MotorParamCache \<Rightarrow> fault + MotorParamCache" where
  "store_bus_current idx v c =
     bindR (arr_set (pc_bus_current c) idx v) (\<lambda>xs. Inr (c\<lparr>pc_bus_current := xs\<rparr>))"

definition store_reflected_rotor_inertia ::
    "nat \<Rightarrow> double \<Rightarrow> MotorParamCache \<Rightarrow> fault + MotorParamCache" where
  "store_reflected_rotor_inertia idx v c =
     bindR (arr_set (pc_reflected_rotor_inertia c) idx v)
       (\<lambda>xs. Inr (c\<lparr>pc_reflected_rotor_inertia := xs\<rparr>))"

definition RID_BUS_VOLTAGE :: u8 where "RID_BUS_VOLTAGE = 0x50"
definition RID_BUS_CURRENT :: u8 where "RID_BUS_CURRENT = 0x51"
definition RID_REFLECTED_ROTOR_INERTIA :: u8 where "RID_REFLECTED_ROTOR_INERTIA = 0x52"

text \<open>The store that both the receive thread and \<open>Motor::callback\<close> select by register id.\<close>

definition store_rid :: "u8 \<Rightarrow> nat \<Rightarrow> double \<Rightarrow> MotorParamCache \<Rightarrow> fault + MotorParamCache" where
  "store_rid rid idx v c =
     (if rid = RID_BUS_VOLTAGE then store_bus_voltage idx v c
      else if rid = RID_BUS_CURRENT then store_bus_current idx v c
      else if rid = RID_REFLECTED_ROTOR_INERTIA then store_reflected_rotor_inertia idx v c
      else Inr c)"

text \<open>Registers whose value is an unsigned integer; the others hold a float.\<close>

definition is_int_rid :: "u8 \<Rightarrow> bool" where
  "is_int_rid rid \<longleftrightarrow> 7 \<le> rid \<and> rid \<le> 10 \<or> 13 \<le> rid \<and> rid \<le> 16 \<or> 35 \<le> rid \<and> rid \<le> 36"

definition reg_value :: "bytes \<Rightarrow> double" where
  "reg_value d =
     (if is_int_rid (d ! 3) then Fin (real (unat (uint8sToUint32 (d ! 4) (d ! 5) (d ! 6) (d ! 7))))
      else f32_val (uint8sToFloat [d ! 4, d ! 5, d ! 6, d ! 7]))"

section \<open>Servers and the shared state\<close>

record client_observer =
  wantedIP :: string
  packetHandler :: "nat option"

datatype client_addr = ClientLeft | ClientRight

record UdpServer =
  m_serverId :: int
  m_sockfd :: int
  m_isClosed :: bool
  m_threadStarted :: bool
  m_localPort :: u16
  m_remotePort :: u16
  m_subscribers :: "client_observer list"
  m_subscriberActive :: "bool list"
  m_deviceIPs :: "client_addr option list"
  m_frameIds :: "int \<rightharpoonup> int"
  m_canHandles :: bool
  m_paramCache :: bool

definition UdpServer_init :: "int \<Rightarrow> UdpServer" where
  "UdpServer_init i =
     \<lparr>m_serverId = i, m_sockfd = -1, m_isClosed = True, m_threadStarted = False,
      m_localPort = 0, m_remotePort = 0,
      m_subscribers = replicate 13 \<lparr>wantedIP = '''', packetHandler = None\<rparr>,
      m_subscriberActive = replicate 13 False, m_deviceIPs = replicate 13 None,
      m_frameIds = Map.empty, m_canHandles = False, m_paramCache = False\<rparr>"

record UdpConfig =
  baseLocalPort :: int
  baseRemotePort :: int

record datagram =
  dg_server :: int
  dg_client :: "client_addr option"
  dg_bytes :: bytes

record can_world =
  canHandles :: "(int \<times> CANStorage) list option"
  servers :: "int \<rightharpoonup> UdpServer"
  param_cache :: MotorParamCache
  maxCanDevice :: int
  udp_config :: UdpConfig
  observerIp :: string
  send_result :: "nat \<Rightarrow> int"
  sent :: "datagram list"

definition getInstance :: "int \<Rightarrow> 'z can_world_scheme \<Rightarrow> UdpServer" where
  "getInstance i w = (case servers w i of None \<Rightarrow> UdpServer_init i | Some s \<Rightarrow> s)"

definition putInstance :: "int \<Rightarrow> UdpServer \<Rightarrow> 'z can_world_scheme \<Rightarrow> 'z can_world_scheme" where
  "putInstance i s w = w\<lparr>servers := (servers w)(i \<mapsto> s)\<rparr>"

definition in_range :: "int \<Rightarrow> bool" where
  "in_range deviceId \<longleftrightarrow> 0 \<le> deviceId \<and> deviceId \<le> MAX_DEVICE_ID"

definition subscribe ::
    "int \<Rightarrow> int \<Rightarrow> client_observer \<Rightarrow> 'z can_world_scheme \<Rightarrow> 'z can_world_scheme" where
  "subscribe i deviceId obs w =
     (if \<not> in_range deviceId then w
      else let s = getInstance i w; n = nat deviceId in
        putInstance i (s\<lparr>m_subscribers := (m_subscribers s)[n := obs],
                         m_subscriberActive := (m_subscriberActive s)[n := True]\<rparr>) w)"

definition getClientAddrByDeviceId :: "UdpServer \<Rightarrow> int \<Rightarrow> client_addr option" where
  "getClientAddrByDeviceId s deviceId =
     (if \<not> in_range deviceId then None else m_deviceIPs s ! nat deviceId)"

definition bindDevicesToServer :: "int \<Rightarrow> int \<Rightarrow> 'z can_world_scheme \<Rightarrow> 'z can_world_scheme" where
  "bindDevicesToServer i deviceId w =
     (if \<not> in_range deviceId then w
      else let s = getInstance i w;
               c = (if deviceId < maxCanDevice w then ClientLeft else ClientRight) in
        putInstance i (s\<lparr>m_deviceIPs := (m_deviceIPs s)[nat deviceId := Some c]\<rparr>) w)"

definition setParamCache :: "int \<Rightarrow> 'z can_world_scheme \<Rightarrow> 'z can_world_scheme" where
  "setParamCache i w = putInstance i ((getInstance i w)\<lparr>m_paramCache := True\<rparr>) w"

section \<open>Sending\<close>

text \<open>
  The comparison \<open>numBytesSent < dataSize\<close> is between \<open>size_t\<close> values: the \<open>-1\<close> of a
  failed \<open>sendto\<close> is the largest of them.
\<close>

definition sendMsg ::
    "int \<Rightarrow> CANFrameId \<Rightarrow> bytes option \<Rightarrow> u8 \<Rightarrow> bool \<Rightarrow> 'z can_world_scheme \<Rightarrow> fault + 'z can_world_scheme" where
  "sendMsg i fid d dataSize reply w =
     (let s = getInstance i w;
          client = getClientAddrByDeviceId s (uint (fi_deviceId fid));
          key = sint (replyCANId fid) in
      bindR (frame_modify (forwardCANId fid) d dataSize CANFrame_init) (\<lambda>frame.
        let s1 = (if reply then s\<lparr>m_frameIds := (m_frameIds s)(key \<mapsto> hanlde fid)\<rparr> else s);
            numBytesSent = (word_of_int (send_result w (length (sent w))) :: u64);
            s2 = (if numBytesSent < ucast dataSize \<and> reply
                  then s1\<lparr>m_frameIds := (m_frameIds s1)(key := None)\<rparr> else s1)
        in Inr (putInstance i s2
             (w\<lparr>sent := sent w @ [\<lparr>dg_server = i, dg_client = client, dg_bytes = frame_image frame\<rparr>]\<rparr>))))"

section \<open>CANAPI\<close>

definition CreateCANId :: "CANStorage \<Rightarrow> int \<Rightarrow> int \<Rightarrow> CANFrameId" where
  "CreateCANId st apiId handle =
     (case manufacturer st of
        HAL_CAN_Man_Dm \<Rightarrow>
          \<lparr>fi_deviceId = st_deviceId st,
           forwardCANId = (if apiId = 1 \<or> apiId = 2 \<or> apiId = 3 \<or> apiId = 4 then 0x7FF
                           else ucast (st_deviceId st) AND 0x3F),
           replyCANId = ucast (masterId st), hanlde = handle\<rparr>
      | _ \<Rightarrow> CANFrameId_init)"

definition HAL_InitializeCAN ::
    "HAL_CANManufacturer \<Rightarrow> int \<Rightarrow> HAL_CANDeviceType \<Rightarrow> 'z can_world_scheme \<Rightarrow> fault + int \<times> 'z can_world_scheme" where
  "HAL_InitializeCAN man deviceId dtype w =
     (case canHandles w of
        None \<Rightarrow> Inl NullDeref
      | Some hs \<Rightarrow>
          let handle = int (length hs);
              can = \<lparr>manufacturer = man, deviceType = dtype, st_deviceId = word_of_int deviceId,
                     masterId = word_of_int (deviceId + 0x10), receives = Map.empty,
                     periodicSends = Map.empty, replyEvent = False\<rparr>
          in Inr (handle, w\<lparr>canHandles :=
                 Some (if map_of hs handle = None then hs @ [(handle, can)] else hs)\<rparr>))"

text \<open>\<open>canHandles->find(handle)\<close>: a null map pointer faults, a missing handle is \<open>end()\<close>.\<close>

definition find_handle :: "int \<Rightarrow> 'z can_world_scheme \<Rightarrow> fault + CANStorage option" where
  "find_handle h w = (case canHandles w of None \<Rightarrow> Inl NullDeref | Some hs \<Rightarrow> Inr (map_of hs h))"

definition update_storage ::
    "int \<Rightarrow> (CANStorage \<Rightarrow> CANStorage) \<Rightarrow> 'z can_world_scheme \<Rightarrow> 'z can_world_scheme" where
  "update_storage h f w =
     w\<lparr>canHandles := map_option (map (\<lambda>(k, st). (k, if k = h then f st else st))) (canHandles w)\<rparr>"

definition server_of :: "CANStorage \<Rightarrow> 'z can_world_scheme \<Rightarrow> int" where
  "server_of st w = (if uint (st_deviceId st) < maxCanDevice w then 0 else 1)"

definition set_periodic :: "int \<Rightarrow> int \<Rightarrow> CANStorage \<Rightarrow> CANStorage" where
  "set_periodic apiId ms st = st\<lparr>periodicSends := (periodicSends st)(apiId \<mapsto> ms)\<rparr>"

definition InitializeCANAPI ::
    "(int \<Rightarrow> 'z can_world_scheme \<Rightarrow> fault + 'z can_world_scheme) \<Rightarrow> int \<Rightarrow> 'z can_world_scheme \<Rightarrow> fault + 'z can_world_scheme" where
  "InitializeCANAPI start_server i w =
     (let w1 = (case canHandles w of None \<Rightarrow> w\<lparr>canHandles := Some []\<rparr> | Some _ \<Rightarrow> w);
          w2 = putInstance i ((getInstance i w1)\<lparr>m_canHandles := True\<rparr>) w1
      in start_server i w2)"

definition HAL_WriteCANPacket ::
    "int \<Rightarrow> bytes option \<Rightarrow> int \<Rightarrow> int \<Rightarrow> bool \<Rightarrow> int \<Rightarrow> 'z can_world_scheme \<Rightarrow> fault + int \<times> 'z can_world_scheme" where
  "HAL_WriteCANPacket handle d len apiId reply status w =
     bindR (find_handle handle w) (\<lambda>it. case it of
         None \<Rightarrow> Inr (HAL_HANDLE_ERROR, w)
       | Some can \<Rightarrow>
           let fid = CreateCANId can apiId handle;
               w1 = update_storage handle (set_periodic apiId (-1)) w
           in bindR (sendMsg (server_of can w) fid d (word_of_int len) reply w1)
                (\<lambda>w2. Inr (status, w2)))"

definition HAL_WriteCANPacketRepeating ::
    "int \<Rightarrow> bytes option \<Rightarrow> int \<Rightarrow> int \<Rightarrow> int \<Rightarrow> bool \<Rightarrow> int \<Rightarrow> 'z can_world_scheme \<Rightarrow> fault + int \<times> 'z can_world_scheme" where
  "HAL_WriteCANPacketRepeating handle d len apiId repeatMs reply status w =
     bindR (find_handle handle w) (\<lambda>it. case it of
         None \<Rightarrow> Inr (HAL_HANDLE_ERROR, w)
       | Some can \<Rightarrow>
           bindR (sendMsg (server_of can w) (CreateCANId can apiId handle) d (word_of_int len) reply w)
             (\<lambda>w1. Inr (status, update_storage handle (set_periodic apiId repeatMs) w1)))"

definition HAL_StopCANPacketRepeating ::
    "int \<Rightarrow> int \<Rightarrow> bool \<Rightarrow> int \<Rightarrow> 'z can_world_scheme \<Rightarrow> fault + int \<times> 'z can_world_scheme" where
  "HAL_StopCANPacketRepeating handle apiId reply status w =
     bindR (find_handle handle w) (\<lambda>it. case it of
         None \<Rightarrow> Inr (HAL_HANDLE_ERROR, w)
       | Some can \<Rightarrow>
           bindR (sendMsg (server_of can w) (CreateCANId can apiId handle) None
                    (word_of_int HAL_CAN_SEND_PERIOD_STOP_REPEATING) reply w)
             (\<lambda>w1. Inr (status, update_storage handle (set_periodic apiId (-1)) w1)))"

text \<open>
  \<open>wpi::waitForObject\<close> on an automatic-reset event: a signalled event is reset and the call
  returns, an unsignalled one blocks the caller.
\<close>

definition wait_reply :: "int \<Rightarrow> 'z can_world_scheme \<Rightarrow> fault + 'z can_world_scheme" where
  "wait_reply h w =
     bindR (find_handle h w) (\<lambda>it. case it of
         None \<Rightarrow> Inl NullDeref
       | Some st \<Rightarrow> if replyEvent st then Inr (update_storage h (\<lambda>s. s\<lparr>replyEvent := False\<rparr>) w)
                   else Inl Blocked)"

record CANData =
  cd_data :: bytes
  cd_length :: int
  cd_timestamp :: u64

text \<open>A fresh message: \<open>dataSize\<close> and \<open>ts\<close> are still 0 when it is stored, and no byte is copied.\<close>

definition store_fresh :: "int \<Rightarrow> CANStorage \<Rightarrow> CANStorage" where
  "store_fresh key st =
     st\<lparr>receives := (receives st)(key \<mapsto>
         (case receives st key of None \<Rightarrow> Receives_zero | Some m \<Rightarrow> m)
            \<lparr>rx_length := 0, lastTimeStamp := 0\<rparr>)\<rparr>"

definition HAL_ReadCANPacketNew ::
    "int \<Rightarrow> int \<Rightarrow> CANData \<Rightarrow> bool \<Rightarrow> int \<Rightarrow> 'z can_world_scheme \<Rightarrow> fault + CANData \<times> int \<times> 'z can_world_scheme" where
  "HAL_ReadCANPacketNew handle apiId cd reply status w =
     bindR (find_handle handle w) (\<lambda>it. case it of
         None \<Rightarrow> Inr (cd, HAL_HANDLE_ERROR, w)
       | Some can \<Rightarrow>
           let messageId = CreateCANId can apiId handle in
           bindR (sendMsg (server_of can w) messageId None
                    (word_of_int HAL_CAN_SEND_PERIOD_STOP_REPEATING) reply w) (\<lambda>w1.
           bindR (wait_reply handle w1) (\<lambda>w2.
             Inr (cd\<lparr>cd_length := 0, cd_timestamp := 0\<rparr>, status,
               if status = 0 then update_storage handle (store_fresh (sint (replyCANId messageId))) w2
               else w2))))"

text \<open>Copying a stored message to the caller's buffer of 8 bytes.\<close>

definition copy_out :: "Receives \<Rightarrow> CANData \<Rightarrow> fault + CANData" where
  "copy_out m cd =
     (let n = unat (rx_length m) in
      if 8 < n then Inl OutOfBounds
      else Inr \<lparr>cd_data = take n (rx_data m) @ drop n (cd_data cd), cd_length = int n,
                cd_timestamp = lastTimeStamp m\<rparr>)"

definition HAL_ReadCANPacketLatest ::
    "int \<Rightarrow> int \<Rightarrow> CANData \<Rightarrow> int \<Rightarrow> 'z can_world_scheme \<Rightarrow> fault + CANData \<times> int \<times> 'z can_world_scheme" where
  "HAL_ReadCANPacketLatest handle apiId cd status w =
     bindR (find_handle handle w) (\<lambda>it. case it of
         None \<Rightarrow> Inl NullDeref
       | Some can \<Rightarrow>
           let key = sint (replyCANId (CreateCANId can apiId handle)) in
           bindR (wait_reply handle w) (\<lambda>w1.
             if status = 0 then
               Inr (cd\<lparr>cd_length := 0, cd_timestamp := 0\<rparr>, status, update_storage handle (store_fresh key) w1)
             else case receives can key of
                 None \<Rightarrow> Inr (cd, status, w1)
               | Some m \<Rightarrow> bindR (copy_out m cd) (\<lambda>cd'. Inr (cd', 0, w1))))"

definition HAL_ReadCANPacketTimeout ::
    "u32 \<Rightarrow> int \<Rightarrow> int \<Rightarrow> int \<Rightarrow> CANData \<Rightarrow> int \<Rightarrow> 'z can_world_scheme \<Rightarrow> fault + CANData \<times> int \<times> 'z can_world_scheme" where
  "HAL_ReadCANPacketTimeout now handle apiId timeoutMs cd status w =
     bindR (find_handle handle w) (\<lambda>it. case it of
         None \<Rightarrow> Inl NullDeref
       | Some can \<Rightarrow>
           let key = sint (replyCANId (CreateCANId can apiId handle)) in
           bindR (wait_reply handle w) (\<lambda>w1.
             if status = 0 then
               Inr (cd\<lparr>cd_length := 0, cd_timestamp := 0\<rparr>, status, update_storage handle (store_fresh key) w1)
             else case receives can key of
                 None \<Rightarrow> Inr (cd, status, w1)
               | Some m \<Rightarrow>
                   if ucast now - lastTimeStamp m > ucast (word_of_int timeoutMs :: u32)
                   then Inr (cd, HAL_CAN_TIMEOUT, w1)
                   else bindR (copy_out m cd) (\<lambda>cd'. Inr (cd', 0, w1))))"

section \<open>The CAN wrapper\<close>

definition CAN_ctor :: "int \<Rightarrow> 'z can_world_scheme \<Rightarrow> fault + int \<times> 'z can_world_scheme" where
  "CAN_ctor deviceId w = HAL_InitializeCAN HAL_CAN_Man_Dm deviceId HAL_CAN_Dev_kMotionController w"

definition registrateCallback ::
    "int \<Rightarrow> client_observer \<Rightarrow> 'z can_world_scheme \<Rightarrow> 'z can_world_scheme" where
  "registrateCallback deviceId obs w =
     (let i = (if deviceId < maxCanDevice w then 0 else 1) in
      bindDevicesToServer i deviceId (subscribe i deviceId obs w))"

definition writePacket ::
    "int \<Rightarrow> bytes \<Rightarrow> int \<Rightarrow> int \<Rightarrow> bool \<Rightarrow> 'z can_world_scheme \<Rightarrow> fault + 'z can_world_scheme" where
  "writePacket m_handle d len apiId reply w =
     bindR (HAL_WriteCANPacket m_handle (Some d) len apiId reply 0 w) (\<lambda>(status, w1). Inr w1)"

definition writePacketRepeating ::
    "int \<Rightarrow> bytes \<Rightarrow> int \<Rightarrow> int \<Rightarrow> int \<Rightarrow> 'z can_world_scheme \<Rightarrow> fault + 'z can_world_scheme" where
  "writePacketRepeating m_handle d len apiId repeatMs w =
     bindR (HAL_WriteCANPacketRepeating m_handle (Some d) len apiId repeatMs False 0 w)
       (\<lambda>(status, w1). Inr w1)"

definition stopPacketRepeating :: "int \<Rightarrow> int \<Rightarrow> 'z can_world_scheme \<Rightarrow> fault + 'z can_world_scheme" where
  "stopPacketRepeating m_handle apiId w =
     bindR (HAL_StopCANPacketRepeating m_handle apiId False 0 w) (\<lambda>(status, w1). Inr w1)"

definition readPacketNew ::
    "int \<Rightarrow> int \<Rightarrow> CANData \<Rightarrow> 'z can_world_scheme \<Rightarrow> fault + bool \<times> CANData \<times> 'z can_world_scheme" where
  "readPacketNew m_handle apiId cd w =
     bindR (HAL_ReadCANPacketNew m_handle apiId cd False 0 w) (\<lambda>(cd', status, w1). Inr (status = 0, cd', w1))"

definition readPacketLatest ::
    "int \<Rightarrow> int \<Rightarrow> CANData \<Rightarrow> 'z can_world_scheme \<Rightarrow> fault + bool \<times> CANData \<times> 'z can_world_scheme" where
  "readPacketLatest m_handle apiId cd w =
     bindR (HAL_ReadCANPacketLatest m_handle apiId cd 0 w) (\<lambda>(cd', status, w1). Inr (status = 0, cd', w1))"

definition readPacketTimeout ::
    "u32 \<Rightarrow> int \<Rightarrow> int \<Rightarrow> int \<Rightarrow> CANData \<Rightarrow> 'z can_world_scheme \<Rightarrow> fault + bool \<times> CANData \<times> 'z can_world_scheme" where
  "readPacketTimeout now m_handle apiId timeoutMs cd w =
     bindR (HAL_ReadCANPacketTimeout now m_handle apiId timeoutMs cd 0 w)
       (\<lambda>(cd', status, w1). Inr (status = 0, cd', w1))"

section \<open>Receiving\<close>

text \<open>
  \<open>dispatchMessage\<close> hands a frame to at most one observer.  The observer's code is the
  argument \<open>cb\<close>: it gets the context pointer and the eight data bytes and may change the
  state.  \<open>consume_reply\<close> is the part that runs under \<open>m_frameIdsMutex\<close>: it yields the stored
  handle with its storage, and the state without the pending entry.
\<close>

datatype reply_lookup = NoReply | StaleHandle | ReplyFor int CANStorage

definition consume_reply ::
    "int \<Rightarrow> int \<Rightarrow> 'z can_world_scheme \<Rightarrow> fault + reply_lookup \<times> 'z can_world_scheme" where
  "consume_reply i key w =
     (let s = getInstance i w in
      case m_frameIds s key of
        None \<Rightarrow> Inr (NoReply, w)
      | Some handle \<Rightarrow>
          let w1 = putInstance i (s\<lparr>m_frameIds := (m_frameIds s)(key := None)\<rparr>) w in
          if \<not> m_canHandles s then Inl NullDeref
          else bindR (find_handle handle w1) (\<lambda>it. case it of
              None \<Rightarrow> Inr (StaleHandle, w1)
            | Some st \<Rightarrow> Inr (ReplyFor handle st, w1)))"

definition signal_reply :: "int \<Rightarrow> 'z can_world_scheme \<Rightarrow> 'z can_world_scheme" where
  "signal_reply h = update_storage h (\<lambda>st. st\<lparr>replyEvent := True\<rparr>)"

definition handler_of :: "UdpServer \<Rightarrow> int \<Rightarrow> nat option" where
  "handler_of s devId =
     (if in_range devId \<and> m_subscriberActive s ! nat devId
      then packetHandler (m_subscribers s ! nat devId) else None)"

definition is_param_reply :: "u32 \<Rightarrow> bytes \<Rightarrow> bool" where
  "is_param_reply fid d \<longleftrightarrow> fid = 0x7FF \<and> (d ! 2 = 0x33 \<or> d ! 2 = 0x55)"

text \<open>
  The parameter-cache branch: it stores the value, then consumes the pending reply.
  \<open>static_cast<size_t>(motorId) - 1\<close> wraps to the largest \<open>size_t\<close> for motor id 0, which
  the bound check rejects.
\<close>

definition cache_signal :: "int \<Rightarrow> int \<Rightarrow> 'z can_world_scheme \<Rightarrow> 'z can_world_scheme" where
  "cache_signal i key w =
     (let s = getInstance i w in
      case m_frameIds s key of
        None \<Rightarrow> w
      | Some handle \<Rightarrow>
          let w1 = putInstance i (s\<lparr>m_frameIds := (m_frameIds s)(key := None)\<rparr>) w in
          if m_canHandles s then signal_reply handle w1 else w1)"

definition cache_param :: "int \<Rightarrow> bytes \<Rightarrow> 'z can_world_scheme \<Rightarrow> fault + 'z can_world_scheme" where
  "cache_param i d w =
     (let cacheIndex = (ucast (d ! 0) - 1 :: u64) in
      bindR (if unat cacheIndex < NUM_MOTORS
             then store_rid (d ! 3) (unat cacheIndex) (reg_value d) (param_cache w)
             else Inr (param_cache w))
        (\<lambda>c. Inr (cache_signal i (uint (d ! 0)) (w\<lparr>param_cache := c\<rparr>))))"

definition deliver_unsolicited ::
    "(nat \<Rightarrow> bytes \<Rightarrow> 'z can_world_scheme \<Rightarrow> fault + 'z can_world_scheme) \<Rightarrow> int \<Rightarrow> u32 \<Rightarrow> bytes \<Rightarrow>
     'z can_world_scheme \<Rightarrow> fault + 'z can_world_scheme" where
  "deliver_unsolicited cb i fid d w =
     (case handler_of (getInstance i w) (sint fid - 0x10) of
        None \<Rightarrow> Inr w | Some ctx \<Rightarrow> cb ctx d w)"

definition dispatchMessage ::
    "(nat \<Rightarrow> bytes \<Rightarrow> 'z can_world_scheme \<Rightarrow> fault + 'z can_world_scheme) \<Rightarrow> int \<Rightarrow> CANFrame \<Rightarrow>
     'z can_world_scheme \<Rightarrow> fault + 'z can_world_scheme" where
  "dispatchMessage cb i frame w =
     (let fid0 = bswap32 (FrameId frame); d = fr_data frame in
      if is_param_reply fid0 d \<and> m_paramCache (getInstance i w) then cache_param i d w
      else
        let fid = (if fid0 = 0x7FF then ucast (d ! 0) else fid0) in
        bindR (consume_reply i (sint fid) w) (\<lambda>(r, w1). case r of
            NoReply \<Rightarrow> deliver_unsolicited cb i fid d w1
          | StaleHandle \<Rightarrow> Inr w1
          | ReplyFor handle st \<Rightarrow>
              (case handler_of (getInstance i w1) (uint (st_deviceId st)) of
                 None \<Rightarrow> deliver_unsolicited cb i fid d w1
               | Some ctx \<Rightarrow> bindR (cb ctx d w1) (\<lambda>w2. Inr (signal_reply handle w2)))))"

text \<open>
  One turn of the receive loop.  \<open>recvfrom\<close> stores at most 15 bytes over a default frame
  and returns their number; its \<open>-1\<close> becomes the largest \<open>size_t\<close>.
\<close>

datatype recv_event = EpollInterrupted | EpollError | EpollTimeout | Datagram bytes | RecvError

definition recv_frame :: "bytes \<Rightarrow> CANFrame" where
  "recv_frame bs = frame_of_image
     (let b = take 15 bs; img = frame_image CANFrame_init in b @ drop (length b) img)"

definition recv_length :: "recv_event \<Rightarrow> u64" where
  "recv_length e = (case e of Datagram bs \<Rightarrow> of_nat (length (take 15 bs)) | RecvError \<Rightarrow> -1 | _ \<Rightarrow> 0)"

fun udp_run ::
    "(nat \<Rightarrow> bytes \<Rightarrow> 'z can_world_scheme \<Rightarrow> fault + 'z can_world_scheme) \<Rightarrow> int \<Rightarrow> recv_event list \<Rightarrow>
     'z can_world_scheme \<Rightarrow> fault + 'z can_world_scheme" where
  "udp_run cb i [] w = Inr w"
| "udp_run cb i (e # es) w =
     (if m_isClosed (getInstance i w) then Inr w
      else case e of
          EpollError \<Rightarrow> Inr w
        | EpollInterrupted \<Rightarrow> udp_run cb i es w
        | EpollTimeout \<Rightarrow> udp_run cb i es w
        | Datagram bs \<Rightarrow>
            bindR (if recv_length e < 1 then Inr w else dispatchMessage cb i (recv_frame bs) w) (udp_run cb i es)
        | RecvError \<Rightarrow>
            bindR (if recv_length e < 1 then Inr w else dispatchMessage cb i CANFrame_init w) (udp_run cb i es))"

section \<open>Life cycle\<close>

text \<open>
  The results of the socket and thread calls, one record per call of \<open>start\<close> or \<open>close\<close>.
\<close>

record sys_results =
  r_socket :: int
  r_inet_aton :: bool
  r_gethostbyname :: bool
  r_bind :: int
  r_pthread_create :: int
  r_close :: int

definition udp_init :: "sys_results \<Rightarrow> int \<Rightarrow> u16 \<Rightarrow> u16 \<Rightarrow> 'z can_world_scheme \<Rightarrow> fault + bool \<times> 'z can_world_scheme" where
  "udp_init r i localPort remotePort w =
     (let s = (getInstance i w)\<lparr>m_sockfd := r_socket r\<rparr> in
      if \<not> r_inet_aton r \<and> \<not> r_gethostbyname r then Inl RuntimeError
      else let s1 = s\<lparr>m_localPort := localPort\<rparr> in
        if r_bind r = -1 then Inr (False, putInstance i (s1\<lparr>m_isClosed := True\<rparr>) w)
        else Inr (True, putInstance i (s1\<lparr>m_remotePort := remotePort, m_isClosed := False\<rparr>) w))"

definition udp_start :: "sys_results \<Rightarrow> int \<Rightarrow> 'z can_world_scheme \<Rightarrow> fault + 'z can_world_scheme" where
  "udp_start r i w =
     (let c = udp_config w;
          localPort = baseLocalPort c + m_serverId (getInstance i w) * 2;
          remotePort = baseRemotePort c + m_serverId (getInstance i w) * 2 in
      bindR (udp_init r i (word_of_int localPort) (word_of_int remotePort) w) (\<lambda>(ok, w1).
        if \<not> ok \<or> r_pthread_create r \<noteq> 0 then Inr w1
        else Inr (putInstance i ((getInstance i w1)\<lparr>m_threadStarted := True\<rparr>) w1)))"

text \<open>\<open>close\<close> joins the receive thread, whose loop ends once \<open>m_isClosed\<close> is set.\<close>

definition udp_close :: "sys_results \<Rightarrow> int \<Rightarrow> 'z can_world_scheme \<Rightarrow> bool \<times> 'z can_world_scheme" where
  "udp_close r i w =
     (let s = getInstance i w in
      if m_isClosed s then (False, w)
      else let s1 = s\<lparr>m_isClosed := True, m_threadStarted := False\<rparr> in
        if 0 \<le> m_sockfd s1 then
          if r_close r = -1 then (False, putInstance i s1 w)
          else (True, putInstance i (s1\<lparr>m_sockfd := -1\<rparr>) w)
        else (True, putInstance i s1 w))"

section \<open>Arrays, instances and handles\<close>

lemma getInstance_put [simp]:
  "getInstance j (putInstance i s w) = (if j = i then s else getInstance j w)"
  by (simp add: getInstance_def putInstance_def)

lemma putInstance_frame [simp]:
  "canHandles (putInstance i s w) = canHandles w" "param_cache (putInstance i s w) = param_cache w"
  "maxCanDevice (putInstance i s w) = maxCanDevice w" "udp_config (putInstance i s w) = udp_config w"
  "observerIp (putInstance i s w) = observerIp w" "send_result (putInstance i s w) = send_result w"
  "sent (putInstance i s w) = sent w" "can_world.more (putInstance i s w) = can_world.more w"
  by (simp_all add: putInstance_def)

lemma handler_of_frameIds [simp]: "handler_of (s\<lparr>m_frameIds := f\<rparr>) d = handler_of s d"
  by (simp add: handler_of_def)

lemma getInstance_frame [simp]:
  "getInstance i (w\<lparr>canHandles := h\<rparr>) = getInstance i w" "getInstance i (w\<lparr>sent := l\<rparr>) = getInstance i w"
  "getInstance i (w\<lparr>param_cache := c\<rparr>) = getInstance i w"
  by (simp_all add: getInstance_def)

lemma update_storage_frame [simp]:
  "servers (update_storage h f w) = servers w" "param_cache (update_storage h f w) = param_cache w"
  "maxCanDevice (update_storage h f w) = maxCanDevice w" "udp_config (update_storage h f w) = udp_config w"
  "observerIp (update_storage h f w) = observerIp w" "send_result (update_storage h f w) = send_result w"
  "sent (update_storage h f w) = sent w" "can_world.more (update_storage h f w) = can_world.more w"
  "getInstance i (update_storage h f w) = getInstance i w"
  by (simp_all add: update_storage_def)

lemma map_of_update [simp]:
  "map_of (map (\<lambda>(k, st). (k, if k = h then f st else st)) hs) j =
     (if j = h then map_option f (map_of hs j) else map_of hs j)"
  by (induction hs) auto

lemma find_handle_update [simp]:
  "find_handle j (update_storage h f w) =
     bindR (find_handle j w) (\<lambda>it. Inr (if j = h then map_option f it else it))"
  by (auto simp: find_handle_def update_storage_def split: option.splits)

lemma find_handle_put [simp]: "find_handle j (putInstance i s w) = find_handle j w"
  by (simp add: find_handle_def)

lemma find_handle_sent [simp]: "find_handle j (w\<lparr>sent := l\<rparr>) = find_handle j w"
  by (simp add: find_handle_def)

text \<open>Handles are handed out consecutively and never removed.\<close>

definition handles_ok :: "'z can_world_scheme \<Rightarrow> bool" where
  "handles_ok w = (\<forall>hs. canHandles w = Some hs \<longrightarrow> map fst hs = map int [0..<length hs])"

lemma map_of_consecutive:
  "map fst hs = map int [0..<length hs] \<Longrightarrow> map_of hs (int (length hs)) = None"
  by (simp only: map_of_eq_None_iff set_map [symmetric]) auto

lemma handles_ok_update [simp]: "handles_ok (update_storage h f w) = handles_ok w"
  by (auto simp: handles_ok_def update_storage_def case_prod_beta comp_def)

lemma HAL_InitializeCAN_ok:
  assumes "handles_ok w" "canHandles w = Some hs"
  obtains w' where "HAL_InitializeCAN man dev dt w = Inr (int (length hs), w')"
    "w' = w\<lparr>canHandles := canHandles w'\<rparr>" "handles_ok w'"
    "find_handle (int (length hs)) w' = Inr (Some \<lparr>manufacturer = man, deviceType = dt,
       st_deviceId = word_of_int dev, masterId = word_of_int (dev + 0x10), receives = Map.empty,
       periodicSends = Map.empty, replyEvent = False\<rparr>)"
    "\<And>h. h \<noteq> int (length hs) \<Longrightarrow> find_handle h w' = find_handle h w"
proof -
  have keys: "map fst hs = map int [0..<length hs]" using assms by (simp add: handles_ok_def)
  note fresh = map_of_consecutive [OF keys]
  show thesis
    by (rule that)
      (use assms(2) keys fresh in \<open>auto simp: HAL_InitializeCAN_def find_handle_def handles_ok_def Let_def
         map_add_def split: option.splits\<close>)
qed

section \<open>Sending a full frame\<close>

lemma frame_modify_8:
  "length d = 8 \<Longrightarrow> frame_modify i (Some d) 8 CANFrame_init =
     Inr \<lparr>FrameHeader = 8, FrameId = bswap32 i, fr_data = d\<rparr>"
  by (simp add: frame_modify_def CANFrame_init_def)

text \<open>What goes over the wire: the header byte, the big-endian identifier, the data.\<close>

definition wire :: "u32 \<Rightarrow> bytes \<Rightarrow> bytes" where
  "wire i d = 8 # rev (le_bytes32 i) @ d"

lemma frame_image_wire:
  "frame_image \<lparr>FrameHeader = 8, FrameId = bswap32 i, fr_data = d\<rparr> = wire i d"
  by (simp add: frame_image_def wire_def)

lemma length_wire [simp]: "length d = 8 \<Longrightarrow> length (wire i d) = 13"
  by (simp add: wire_def)

lemma sendMsg_no_reply:
  assumes "length d = 8"
  shows "sendMsg i fid (Some d) 8 False w =
    Inr (putInstance i (getInstance i w) (w\<lparr>sent := sent w @ [\<lparr>dg_server = i,
      dg_client = getClientAddrByDeviceId (getInstance i w) (uint (fi_deviceId fid)),
      dg_bytes = wire (forwardCANId fid) d\<rparr>]\<rparr>))"
  by (simp add: sendMsg_def frame_modify_8 [OF assms] frame_image_wire Let_def)

text \<open>A received datagram of a full frame is the frame that was sent.\<close>

lemma recv_wire:
  "length d = 8 \<Longrightarrow> recv_frame (wire i d) = \<lparr>FrameHeader = 8, FrameId = bswap32 i, fr_data = d\<rparr>"
  by (simp add: recv_frame_def frame_of_image_def wire_def frame_image_def CANFrame_init_def Let_def)

section \<open>Observers\<close>

text \<open>
  What the receive thread relies on of an observer: the callback sends nothing and leaves the
  servers and handles alone.  \<open>only_replies\<close> is what then holds of a whole run: nothing is
  sent, subscriptions and routes stay, and pending replies are only ever consumed.
\<close>

definition only_replies :: "'z can_world_scheme \<Rightarrow> 'z can_world_scheme \<Rightarrow> bool" where
  "only_replies w w' \<longleftrightarrow> sent w' = sent w \<and> maxCanDevice w' = maxCanDevice w \<and>
     (\<forall>i. m_subscribers (getInstance i w') = m_subscribers (getInstance i w) \<and>
          m_subscriberActive (getInstance i w') = m_subscriberActive (getInstance i w) \<and>
          m_deviceIPs (getInstance i w') = m_deviceIPs (getInstance i w) \<and>
          m_frameIds (getInstance i w') \<subseteq>\<^sub>m m_frameIds (getInstance i w))"

lemma only_replies_refl [simp]: "only_replies w w"
  by (simp add: only_replies_def)

lemma only_replies_trans: "only_replies u v \<Longrightarrow> only_replies v w \<Longrightarrow> only_replies u w"
  unfolding only_replies_def using map_le_trans by fastforce

lemma only_replies_consume:
  "only_replies w (putInstance i ((getInstance i w)\<lparr>m_frameIds := (m_frameIds (getInstance i w))(k := None)\<rparr>) w)"
  by (auto simp: only_replies_def map_le_def)

lemma only_replies_update: "only_replies w (update_storage h f w)"
  by (simp add: only_replies_def)

lemma only_replies_cache: "only_replies w (w\<lparr>param_cache := c\<rparr>)"
  by (simp add: only_replies_def)

lemma consume_reply_only: "consume_reply i key w = Inr (r, w') \<Longrightarrow> only_replies w w'"
  using only_replies_consume [of w i key]
  by (auto simp: consume_reply_def Let_def bindR_Inr_iff split: option.splits if_splits)

lemma cache_signal_only: "only_replies w (cache_signal i key w)"
  using only_replies_trans [OF only_replies_consume only_replies_update] only_replies_consume
  by (auto simp: cache_signal_def Let_def signal_reply_def split: option.split)

lemma cache_param_only: "cache_param i d w = Inr w' \<Longrightarrow> only_replies w w'"
  using only_replies_trans [OF only_replies_cache cache_signal_only]
  by (auto simp: cache_param_def Let_def bindR_Inr_iff)

locale packet_observer =
  fixes cb :: "nat \<Rightarrow> bytes \<Rightarrow> 'z can_world_scheme \<Rightarrow> fault + 'z can_world_scheme"
  assumes cb_keeps: "cb ctx d w = Inr w' \<Longrightarrow>
    servers w' = servers w \<and> canHandles w' = canHandles w \<and> sent w' = sent w \<and>
    maxCanDevice w' = maxCanDevice w"
begin

lemma cb_only: "cb ctx d w = Inr w' \<Longrightarrow> only_replies w w'"
  using cb_keeps by (simp add: only_replies_def getInstance_def)

lemma deliver_only: "deliver_unsolicited cb i fid d w = Inr w' \<Longrightarrow> only_replies w w'"
  using cb_only by (auto simp: deliver_unsolicited_def split: option.splits)

lemma dispatch_only:
  assumes "dispatchMessage cb i frame w = Inr w'"
  shows "only_replies w w'"
proof (cases "is_param_reply (bswap32 (FrameId frame)) (fr_data frame) \<and> m_paramCache (getInstance i w)")
  case True
  then show ?thesis using assms cache_param_only by (simp add: dispatchMessage_def Let_def)
next
  case False
  then obtain fid r w1 where c: "consume_reply i (sint fid) w = Inr (r, w1)"
    and rest: "(case r of NoReply \<Rightarrow> deliver_unsolicited cb i fid (fr_data frame) w1
        | StaleHandle \<Rightarrow> Inr w1
        | ReplyFor handle st \<Rightarrow> (case handler_of (getInstance i w1) (uint (st_deviceId st)) of
             None \<Rightarrow> deliver_unsolicited cb i fid (fr_data frame) w1
           | Some ctx \<Rightarrow> bindR (cb ctx (fr_data frame) w1) (\<lambda>w2. Inr (signal_reply handle w2)))) = Inr w'"
    using assms by (auto simp: dispatchMessage_def Let_def bindR_Inr_iff)
  have "only_replies w1 w'"
    using rest deliver_only cb_only only_replies_update only_replies_trans
    by (fastforce simp: bindR_Inr_iff signal_reply_def split: reply_lookup.splits option.splits)
  then show ?thesis using consume_reply_only [OF c] only_replies_trans by blast
qed

lemma run_only: "udp_run cb i es w = Inr w' \<Longrightarrow> only_replies w w'"
proof (induction es arbitrary: w)
  case (Cons e es)
  have step: "only_replies w w'"
    if "bindR (dispatchMessage cb i f w) (udp_run cb i es) = Inr w'" for f
  proof -
    from that obtain v where "dispatchMessage cb i f w = Inr v" "udp_run cb i es v = Inr w'"
      by (auto simp: bindR_Inr_iff)
    then show ?thesis by (rule only_replies_trans [OF dispatch_only Cons.IH])
  qed
  show ?case
    using Cons step by (auto split: if_splits recv_event.splits)
qed simp

text \<open>An awaited reply is handed to the device's observer and wakes the waiting caller.\<close>

lemma dispatch_reply:
  assumes fid: "bswap32 (FrameId frame) = fid" "fid \<noteq> 0x7FF"
    and pend: "m_frameIds (getInstance i w) (sint fid) = Some h" "m_canHandles (getInstance i w)"
    and st: "find_handle h w = Inr (Some st)"
    and hd: "handler_of (getInstance i w) (uint (st_deviceId st)) = Some ctx"
    and cb: "cb ctx (fr_data frame) (putInstance i ((getInstance i w)
        \<lparr>m_frameIds := (m_frameIds (getInstance i w))(sint fid := None)\<rparr>) w) = Inr w2"
  shows "dispatchMessage cb i frame w = Inr (signal_reply h w2)"
    and "m_frameIds (getInstance i (signal_reply h w2)) (sint fid) = None"
    and "\<exists>st'. find_handle h (signal_reply h w2) = Inr (Some st') \<and> replyEvent st'"
proof -
  show "dispatchMessage cb i frame w = Inr (signal_reply h w2)"
    using assms by (simp add: dispatchMessage_def is_param_reply_def consume_reply_def Let_def)
  have k: "servers w2 = servers (putInstance i ((getInstance i w)
        \<lparr>m_frameIds := (m_frameIds (getInstance i w))(sint fid := None)\<rparr>) w)" "canHandles w2 = canHandles w"
    using cb_keeps [OF cb] by simp_all
  show "m_frameIds (getInstance i (signal_reply h w2)) (sint fid) = None"
    using k(1) by (simp add: signal_reply_def getInstance_def putInstance_def)
  show "\<exists>st'. find_handle h (signal_reply h w2) = Inr (Some st') \<and> replyEvent st'"
  proof -
    have "find_handle h w2 = Inr (Some st)" using k(2) st by (simp add: find_handle_def)
    then show ?thesis by (simp add: signal_reply_def)
  qed
qed

end

end
