(* ===== verification/MercuryShm.thy ===== *)
theory MercuryShm
  imports Prelude
begin

text \<open>
  \<open>include/mercury_shm.h\<close>: the sensor and command records, the binary payload header, the
  single-producer single-consumer ring buffer, the per-source double buffer and the shared
  memory layout.  A template parameter is a type parameter; the ring's \<open>Capacity\<close> is an
  argument of its operations.  Every operation here runs to completion; the interleaving of
  producer and consumer is the subject of theory \<open>SpscConcurrent\<close>.
\<close>

section \<open>Constants\<close>

definition NUM_ACT_JOINT :: nat where "NUM_ACT_JOINT = 12"
definition MOTORS_PER_GROUP :: nat where "MOTORS_PER_GROUP = 6"
definition SHM_MAGIC :: u32 where "SHM_MAGIC = 0x4D455243"
definition SHM_VERSION :: u32 where "SHM_VERSION = 5"
definition HEARTBEAT_STALE_NS :: u64 where "HEARTBEAT_STALE_NS = 100000000"
definition PAYLOAD_MAGIC :: u16 where "PAYLOAD_MAGIC = 0x4D52"
definition PAYLOAD_VERSION :: u8 where "PAYLOAD_VERSION = 1"
definition BATCH_SIZE :: nat where "BATCH_SIZE = 4"
definition LOG_RING_CAPACITY :: u64 where "LOG_RING_CAPACITY = 256"

datatype ShmLifecycle = UNINITIALIZED | INITIALIZING | RUNNING | SHUTTING_DOWN | TERMINATED

definition lifecycle_code :: "ShmLifecycle \<Rightarrow> u32" where
  "lifecycle_code l = (case l of UNINITIALIZED \<Rightarrow> 0 | INITIALIZING \<Rightarrow> 1 | RUNNING \<Rightarrow> 2
     | SHUTTING_DOWN \<Rightarrow> 3 | TERMINATED \<Rightarrow> 4)"

datatype RecordType = R_COMMAND | R_SENSOR | R_STATUS | R_SENSOR_BATCH

definition record_code :: "RecordType \<Rightarrow> u8" where
  "record_code r = (case r of R_COMMAND \<Rightarrow> 1 | R_SENSOR \<Rightarrow> 2 | R_STATUS \<Rightarrow> 3 | R_SENSOR_BATCH \<Rightarrow> 4)"

section \<open>Timing statistics\<close>

record TimingStats =
  min_ns :: u64
  max_ns :: u64
  total_ns :: u64
  ts_count :: u64

definition TimingStats_init :: TimingStats where
  "TimingStats_init = \<lparr>min_ns = 0xFFFFFFFFFFFFFFFF, max_ns = 0, total_ns = 0, ts_count = 0\<rparr>"

definition ts_record :: "u64 \<Rightarrow> TimingStats \<Rightarrow> TimingStats" where
  "ts_record d s =
     s\<lparr>min_ns := (if d < min_ns s then d else min_ns s),
       max_ns := (if max_ns s < d then d else max_ns s),
       total_ns := total_ns s + d,
       ts_count := ts_count s + 1\<rparr>"

definition avg_us :: "TimingStats \<Rightarrow> real" where
  "avg_us s = (if 0 < ts_count s then real (unat (total_ns s div ts_count s)) / 1000 else 0)"

definition min_us :: "TimingStats \<Rightarrow> real" where
  "min_us s = (if 0 < ts_count s then real (unat (min_ns s)) / 1000 else 0)"

definition max_us :: "TimingStats \<Rightarrow> real" where
  "max_us s = real (unat (max_ns s)) / 1000"

text \<open>\<open>get_monotonic_ns\<close> combines the two fields of the \<open>timespec\<close> the clock returned.\<close>

definition get_monotonic_ns :: "u64 \<Rightarrow> u64 \<Rightarrow> u64" where
  "get_monotonic_ns tv_sec tv_nsec = tv_sec * 1000000000 + tv_nsec"

section \<open>Sensor, command and log records\<close>

record SensorData =
  imu_inc :: "double list"
  imu_ang_vel :: "double list"
  imu_acc :: "double list"
  joint_jpos :: "double list"
  joint_jvel :: "double list"
  motor_jpos :: "double list"
  motor_jvel :: "double list"
  bus_current :: "double list"
  bus_voltage :: "double list"
  jtorque :: "double list"
  motor_current :: "double list"
  reflected_rotor_inertia :: "double list"
  rfoot_contact :: u8
  lfoot_contact :: u8
  imu_timestamp_ns :: u64
  motor_group_a_timestamp_ns :: u64
  motor_group_b_timestamp_ns :: u64
  compose_timestamp_ns :: u64
  imu_sequence :: u64
  motor_group_a_sequence :: u64
  motor_group_b_sequence :: u64
  leg_a_duration_us :: u32
  leg_a_interval_us :: u32
  leg_b_duration_us :: u32
  leg_b_interval_us :: u32

record Command =
  jtorque_cmd :: "double list"
  jpos_cmd :: "double list"
  jvel_cmd :: "double list"
  c_kp :: "double list"
  c_kd :: "double list"
  control_mode :: "u8 list"
  c_enabled :: "u8 list"
  c_timestamp_ns :: u64
  c_sequence :: u64

record BinaryPayloadHeader =
  h_magic :: u16
  h_version :: u8
  h_record_type :: u8
  h_robot_id :: u32
  h_payload_size :: u32
  h_reserved :: u32
  h_sequence :: u64
  h_timestamp_ns :: u64

record SensorCommandPair =
  p_sensor :: SensorData
  p_cmd :: Command

record BatchLogRecord =
  b_header :: BinaryPayloadHeader
  sample_count :: u32
  samples :: "SensorCommandPair list"

text \<open>Value initialisation (\<open>T x{}\<close>) zeroes every field and every array element.\<close>

definition zeros :: "nat \<Rightarrow> double list" where
  "zeros n = replicate n (Fin 0)"

definition SensorData_zero :: SensorData where
  "SensorData_zero =
     \<lparr>imu_inc = zeros 3, imu_ang_vel = zeros 3, imu_acc = zeros 3,
      joint_jpos = zeros 12, joint_jvel = zeros 12, motor_jpos = zeros 12, motor_jvel = zeros 12,
      bus_current = zeros 12, bus_voltage = zeros 12, jtorque = zeros 12, motor_current = zeros 12,
      reflected_rotor_inertia = zeros 12, rfoot_contact = 0, lfoot_contact = 0,
      imu_timestamp_ns = 0, motor_group_a_timestamp_ns = 0, motor_group_b_timestamp_ns = 0,
      compose_timestamp_ns = 0, imu_sequence = 0, motor_group_a_sequence = 0,
      motor_group_b_sequence = 0, leg_a_duration_us = 0, leg_a_interval_us = 0,
      leg_b_duration_us = 0, leg_b_interval_us = 0\<rparr>"

definition Command_zero :: Command where
  "Command_zero =
     \<lparr>jtorque_cmd = zeros 12, jpos_cmd = zeros 12, jvel_cmd = zeros 12, c_kp = zeros 12,
      c_kd = zeros 12, control_mode = replicate 12 0, c_enabled = replicate 12 0,
      c_timestamp_ns = 0, c_sequence = 0\<rparr>"

definition Header_zero :: BinaryPayloadHeader where
  "Header_zero = \<lparr>h_magic = 0, h_version = 0, h_record_type = 0, h_robot_id = 0,
     h_payload_size = 0, h_reserved = 0, h_sequence = 0, h_timestamp_ns = 0\<rparr>"

definition Pair_zero :: SensorCommandPair where
  "Pair_zero = \<lparr>p_sensor = SensorData_zero, p_cmd = Command_zero\<rparr>"

definition Batch_zero :: BatchLogRecord where
  "Batch_zero = \<lparr>b_header = Header_zero, sample_count = 0, samples = replicate BATCH_SIZE Pair_zero\<rparr>"

section \<open>The SPSC ring buffer\<close>

record 'a SPSCRingBuffer =
  r_head :: u64
  r_tail :: u64
  ring_dropped :: u64
  r_buffer :: "'a list"

definition ring_init :: "u64 \<Rightarrow> 'a \<Rightarrow> 'a SPSCRingBuffer" where
  "ring_init cap z = \<lparr>r_head = 0, r_tail = 0, ring_dropped = 0, r_buffer = replicate (unat cap) z\<rparr>"

definition ring_push :: "u64 \<Rightarrow> 'a \<Rightarrow> 'a SPSCRingBuffer \<Rightarrow> bool \<times> 'a SPSCRingBuffer" where
  "ring_push cap item r =
     (let head = r_head r; tail = r_tail r in
      if cap \<le> head - tail then (False, r\<lparr>ring_dropped := ring_dropped r + 1\<rparr>)
      else (True, r\<lparr>r_buffer := (r_buffer r)[unat (head AND (cap - 1)) := item],
                    r_head := head + 1\<rparr>))"

definition ring_pop :: "u64 \<Rightarrow> 'a SPSCRingBuffer \<Rightarrow> 'a option \<times> 'a SPSCRingBuffer" where
  "ring_pop cap r =
     (let tail = r_tail r; head = r_head r in
      if head \<le> tail then (None, r)
      else (Some (r_buffer r ! unat (tail AND (cap - 1))), r\<lparr>r_tail := tail + 1\<rparr>))"

definition ring_size :: "'a SPSCRingBuffer \<Rightarrow> u64" where
  "ring_size r = r_head r - r_tail r"

section \<open>Per-source double buffers\<close>

record ImuStageData =
  i_imu_inc :: "double list"
  i_imu_ang_vel :: "double list"
  i_imu_acc :: "double list"
  i_timestamp_ns :: u64
  i_sequence :: u64

record MotorGroupStageData =
  g_joint_jpos :: "double list"
  g_joint_jvel :: "double list"
  g_motor_jpos :: "double list"
  g_motor_jvel :: "double list"
  g_bus_current :: "double list"
  g_bus_voltage :: "double list"
  g_jtorque :: "double list"
  g_motor_current :: "double list"
  g_reflected_rotor_inertia :: "double list"
  g_motor_status :: "u8 list"
  g_mos_temperature :: "int list"
  g_rotor_temperature :: "int list"
  controller_duration_us :: u32
  controller_interval_us :: u32
  g_timestamp_ns :: u64
  g_sequence :: u64

definition ImuStageData_zero :: ImuStageData where
  "ImuStageData_zero = \<lparr>i_imu_inc = zeros 3, i_imu_ang_vel = zeros 3, i_imu_acc = zeros 3,
     i_timestamp_ns = 0, i_sequence = 0\<rparr>"

definition MotorGroupStageData_zero :: MotorGroupStageData where
  "MotorGroupStageData_zero =
     \<lparr>g_joint_jpos = zeros 6, g_joint_jvel = zeros 6, g_motor_jpos = zeros 6, g_motor_jvel = zeros 6,
      g_bus_current = zeros 6, g_bus_voltage = zeros 6, g_jtorque = zeros 6, g_motor_current = zeros 6,
      g_reflected_rotor_inertia = zeros 6, g_motor_status = replicate 6 0,
      g_mos_temperature = replicate 6 0, g_rotor_temperature = replicate 6 0,
      controller_duration_us = 0, controller_interval_us = 0, g_timestamp_ns = 0, g_sequence = 0\<rparr>"

record 'a SourceDoubleBuffer =
  buffers :: "'a list"
  write_idx :: u32
  d_sequence :: u64
  heartbeat_ns :: u64

definition dbuf_zero :: "'a \<Rightarrow> 'a SourceDoubleBuffer" where
  "dbuf_zero z = \<lparr>buffers = [z, z], write_idx = 0, d_sequence = 0, heartbeat_ns = 0\<rparr>"

text \<open>\<open>ts\<close> selects the element's \<open>timestamp_ns\<close> member.\<close>

definition publish ::
    "('a \<Rightarrow> u64) \<Rightarrow> 'a \<Rightarrow> 'a SourceDoubleBuffer \<Rightarrow> fault + 'a SourceDoubleBuffer" where
  "publish ts data b =
     (let wb = 1 - write_idx b in
      case arr_set (buffers b) (unat wb) data of
        Inl e \<Rightarrow> Inl e
      | Inr bs \<Rightarrow> Inr (b\<lparr>buffers := bs, d_sequence := d_sequence b + 1,
                        heartbeat_ns := ts data, write_idx := wb\<rparr>))"

definition read_buf :: "'a SourceDoubleBuffer \<Rightarrow> fault + 'a" where
  "read_buf b = arr_get (buffers b) (unat (write_idx b))"

section \<open>Shared memory layout\<close>

record SharedMemoryLayout =
  magic :: u32
  version :: u32
  num_joints :: u32
  control_freq_hz :: u32
  lifecycle_state :: u32
  imu_stage :: "ImuStageData SourceDoubleBuffer"
  motor_group_a_stage :: "MotorGroupStageData SourceDoubleBuffer"
  motor_group_b_stage :: "MotorGroupStageData SourceDoubleBuffer"
  composed_buffers :: "SensorData list"
  composed_write_idx :: u32
  composed_sequence :: u64
  cmd_buffers :: "Command list"
  cmd_write_idx :: u32
  cmd_sequence :: u64
  emergency_stop :: bool
  controller_emergency_stop :: bool
  motor_can_ids :: "u16 list"
  robot_id :: u32

definition SharedMemoryLayout_zero :: SharedMemoryLayout where
  "SharedMemoryLayout_zero =
     \<lparr>magic = 0, version = 0, num_joints = 0, control_freq_hz = 0, lifecycle_state = 0,
      imu_stage = dbuf_zero ImuStageData_zero,
      motor_group_a_stage = dbuf_zero MotorGroupStageData_zero,
      motor_group_b_stage = dbuf_zero MotorGroupStageData_zero,
      composed_buffers = [SensorData_zero, SensorData_zero], composed_write_idx = 0,
      composed_sequence = 0, cmd_buffers = [Command_zero, Command_zero], cmd_write_idx = 0,
      cmd_sequence = 0, emergency_stop = False, controller_emergency_stop = False,
      motor_can_ids = replicate 12 0, robot_id = 0\<rparr>"

section \<open>Bounded queues\<close>

text \<open>
  What the producer and the consumer of a log ring rely on: pushing appends unless the queue
  is full, popping takes the oldest element.  \<open>room\<close> says that a further element can be
  counted.
\<close>

locale bounded_queue =
  fixes push :: "'a \<Rightarrow> 'q \<Rightarrow> bool \<times> 'q"
    and pop :: "'q \<Rightarrow> 'a option \<times> 'q"
    and contents :: "'q \<Rightarrow> 'a list"
    and inv :: "'q \<Rightarrow> bool"
    and room :: "'q \<Rightarrow> bool"
    and capacity :: nat
  assumes contents_le: "inv q \<Longrightarrow> length (contents q) \<le> capacity"
    and push_free: "inv q \<Longrightarrow> room q \<Longrightarrow> length (contents q) < capacity \<Longrightarrow>
      fst (push x q) \<and> contents (snd (push x q)) = contents q @ [x] \<and> inv (snd (push x q))"
    and push_full: "inv q \<Longrightarrow> length (contents q) = capacity \<Longrightarrow>
      \<not> fst (push x q) \<and> contents (snd (push x q)) = contents q \<and> inv (snd (push x q))"
    and pop_empty: "inv q \<Longrightarrow> contents q = [] \<Longrightarrow> pop q = (None, q)"
    and pop_cons: "inv q \<Longrightarrow> contents q = x # xs \<Longrightarrow>
      fst (pop q) = Some x \<and> contents (snd (pop q)) = xs \<and> inv (snd (pop q))"
begin

lemma push_inv: "inv q \<Longrightarrow> room q \<Longrightarrow> inv (snd (push x q))"
  using contents_le [of q] push_free [of q x] push_full [of q x]
  by (cases "length (contents q) < capacity") auto

lemma pop_inv: "inv q \<Longrightarrow> inv (snd (pop q))"
  using pop_empty [of q] pop_cons [of q] by (cases "contents q") auto

lemma pop_contents:
  "inv q \<Longrightarrow> contents q = (case fst (pop q) of None \<Rightarrow> [] | Some x \<Rightarrow> x # contents (snd (pop q)))"
  using pop_empty [of q] pop_cons [of q] by (cases "contents q") auto

lemma push_pop_fifo:
  assumes "inv q" "room q" "length (contents q) < capacity" "contents q = x # xs"
  shows "fst (pop (snd (push y q))) = Some x"
    and "contents (snd (pop (snd (push y q)))) = xs @ [y]"
  using push_free [OF assms(1-3), of y] pop_cons [of "snd (push y q)" x "xs @ [y]"] assms(4)
  by auto

end

section \<open>The ring refines a bounded queue\<close>

definition ring_inv :: "nat \<Rightarrow> 'a SPSCRingBuffer \<Rightarrow> bool" where
  "ring_inv k r \<longleftrightarrow> k < 64 \<and> length (r_buffer r) = 2 ^ k \<and> r_tail r \<le> r_head r \<and>
     unat (r_head r) - unat (r_tail r) \<le> 2 ^ k"

definition ring_list :: "nat \<Rightarrow> 'a SPSCRingBuffer \<Rightarrow> 'a list" where
  "ring_list k r = map (\<lambda>i. r_buffer r ! (i mod 2 ^ k)) [unat (r_tail r)..<unat (r_head r)]"

definition ring_room :: "'a SPSCRingBuffer \<Rightarrow> bool" where
  "ring_room r \<longleftrightarrow> r_head r \<noteq> 0xFFFFFFFFFFFFFFFF"

lemma ring_length: "ring_inv k r \<Longrightarrow> length (ring_list k r) = unat (r_head r) - unat (r_tail r)"
  by (simp add: ring_list_def)

lemma ring_empty_iff: "ring_inv k r \<Longrightarrow> ring_list k r = [] \<longleftrightarrow> r_head r \<le> r_tail r"
  by (auto simp: ring_list_def ring_inv_def word_le_nat_alt)

lemma ring_full_iff:
  "ring_inv k r \<Longrightarrow> 2 ^ k \<le> r_head r - r_tail r \<longleftrightarrow> length (ring_list k r) = 2 ^ k"
  by (auto simp: ring_inv_def ring_list_def word_le_nat_alt unat_sub unat_pow2_u64)

lemma ring_push_free:
  assumes "ring_inv k r" "ring_room r" "length (ring_list k r) < 2 ^ k"
  shows "ring_push (2 ^ k) x r =
      (True, r\<lparr>r_buffer := (r_buffer r)[unat (r_head r) mod 2 ^ k := x], r_head := r_head r + 1\<rparr>)"
  using assms ring_full_iff [OF assms(1)]
  by (simp add: ring_push_def and_pow2_minus_1 Let_def)

lemma mod_window_neq:
  fixes i h n :: nat
  assumes "i < h" "h < i + n"
  shows "i mod n \<noteq> h mod n"
proof
  assume "i mod n = h mod n"
  then have "n dvd h - i" using assms(1) by (metis less_imp_le mod_eq_dvd_iff_nat)
  then show False using assms by (auto dest: dvd_imp_le)
qed

lemma ring_push_contents:
  assumes "ring_inv k r" "ring_room r" "length (ring_list k r) < 2 ^ k"
  shows "ring_list k (snd (ring_push (2 ^ k) x r)) = ring_list k r @ [x]"
    and "ring_inv k (snd (ring_push (2 ^ k) x r))"
proof -
  let ?h = "unat (r_head r)" and ?t = "unat (r_tail r)"
  have le: "?t \<le> ?h" "?h - ?t < 2 ^ k" and len: "length (r_buffer r) = 2 ^ k" and k: "k < 64"
    using assms(1,3) by (auto simp: ring_inv_def ring_list_def word_le_nat_alt)
  have suc: "unat (r_head r + 1) = Suc ?h"
    using assms(2) by (simp add: ring_room_def unat_succ_u64)
  have upd: "(r_buffer r)[?h mod 2 ^ k := x] ! (i mod 2 ^ k) = r_buffer r ! (i mod 2 ^ k)"
    if "i \<in> set [?t..<?h]" for i
  proof -
    have "i mod 2 ^ k \<noteq> ?h mod 2 ^ k" using that le by (intro mod_window_neq) auto
    then show ?thesis by simp
  qed
  show "ring_list k (snd (ring_push (2 ^ k) x r)) = ring_list k r @ [x]"
    unfolding ring_push_free [OF assms] ring_list_def
    using le upd by (simp add: suc len)
  show "ring_inv k (snd (ring_push (2 ^ k) x r))"
    unfolding ring_push_free [OF assms]
    using le k len by (simp add: ring_inv_def suc word_le_nat_alt)
qed

lemma ring_pop_cons:
  assumes "ring_inv k r" "ring_list k r = x # xs"
  shows "fst (ring_pop (2 ^ k) r) = Some x \<and> ring_list k (snd (ring_pop (2 ^ k) r)) = xs \<and>
    ring_inv k (snd (ring_pop (2 ^ k) r))"
proof -
  let ?h = "unat (r_head r)" and ?t = "unat (r_tail r)"
  have lt: "?t < ?h" using assms(2) by (cases "?t < ?h") (auto simp: ring_list_def)
  have nz: "r_tail r \<noteq> 0xFFFFFFFFFFFFFFFF"
    using lt unat_u64_less [of "r_head r"] by auto
  have suc: "unat (r_tail r + 1) = Suc ?t" by (rule unat_succ_u64 [OF nz])
  have pop: "ring_pop (2 ^ k) r =
      (Some (r_buffer r ! (?t mod 2 ^ k)), r\<lparr>r_tail := r_tail r + 1\<rparr>)"
    using lt by (simp add: ring_pop_def and_pow2_minus_1 word_le_nat_alt Let_def)
  have "ring_list k r = r_buffer r ! (?t mod 2 ^ k) #
      map (\<lambda>i. r_buffer r ! (i mod 2 ^ k)) [Suc ?t..<?h]"
    using lt by (simp add: ring_list_def upt_conv_Cons)
  then show ?thesis
    using assms lt unfolding pop by (auto simp: ring_list_def ring_inv_def suc word_le_nat_alt)
qed

interpretation spsc: bounded_queue "ring_push (2 ^ k)" "ring_pop (2 ^ k)" "ring_list k"
    "ring_inv k" ring_room "2 ^ k" for k
proof unfold_locales
  fix q :: "'a SPSCRingBuffer" and x :: 'a and xs
  assume inv: "ring_inv k q"
  show "length (ring_list k q) \<le> 2 ^ k" using inv by (simp add: ring_length ring_inv_def)
  show "fst (ring_push (2 ^ k) x q) \<and> ring_list k (snd (ring_push (2 ^ k) x q)) = ring_list k q @ [x]
      \<and> ring_inv k (snd (ring_push (2 ^ k) x q))"
    if "ring_room q" "length (ring_list k q) < 2 ^ k"
    using ring_push_contents [OF inv that] ring_push_free [OF inv that] by simp
  show "\<not> fst (ring_push (2 ^ k) x q) \<and> ring_list k (snd (ring_push (2 ^ k) x q)) = ring_list k q
      \<and> ring_inv k (snd (ring_push (2 ^ k) x q))"
    if "length (ring_list k q) = 2 ^ k"
    using inv that ring_full_iff [OF inv]
    by (simp add: ring_push_def ring_list_def ring_inv_def)
  show "ring_pop (2 ^ k) q = (None, q)" if "ring_list k q = []"
    using ring_empty_iff [OF inv] that by (simp add: ring_pop_def)
  show "fst (ring_pop (2 ^ k) q) = Some x \<and> ring_list k (snd (ring_pop (2 ^ k) q)) = xs \<and>
      ring_inv k (snd (ring_pop (2 ^ k) q))" if "ring_list k q = x # xs"
    by (rule ring_pop_cons [OF inv that])
qed

lemma ring_init_inv: "k < 64 \<Longrightarrow> ring_inv k (ring_init (2 ^ k) z)" "ring_list k (ring_init c z) = []"
  by (simp_all add: ring_inv_def ring_init_def ring_list_def unat_pow2_u64)

section \<open>Double buffers\<close>

definition dbuf_inv :: "'a SourceDoubleBuffer \<Rightarrow> bool" where
  "dbuf_inv b \<longleftrightarrow> length (buffers b) = 2 \<and> write_idx b \<in> {0, 1}"

lemma dbuf_zero_inv: "dbuf_inv (dbuf_zero z)"
  by (simp add: dbuf_inv_def dbuf_zero_def)

lemma publish_ok:
  assumes "dbuf_inv b"
  obtains b' where "publish ts d b = Inr b'" "dbuf_inv b'" "read_buf b' = Inr d"
    "d_sequence b' = d_sequence b + 1" "heartbeat_ns b' = ts d" "write_idx b' = 1 - write_idx b"
    "buffers b' ! unat (write_idx b) = buffers b ! unat (write_idx b)"
  using assms
  by (auto simp: dbuf_inv_def publish_def read_buf_def arr_set_def arr_get_def)

lemma read_buf_ok: "dbuf_inv b \<Longrightarrow> read_buf b = Inr (buffers b ! unat (write_idx b))"
  by (auto simp: dbuf_inv_def read_buf_def arr_get_def)

section \<open>Timing statistics\<close>

lemma ts_record_fold_max:
  "unat (max_ns (fold ts_record ds s)) = fold max (map unat ds) (unat (max_ns s))"
  by (induction ds arbitrary: s) (auto simp: ts_record_def word_less_nat_alt max_def)

lemma ts_record_fold_min:
  "unat (min_ns (fold ts_record ds s)) = fold min (map unat ds) (unat (min_ns s))"
  by (induction ds arbitrary: s) (auto simp: ts_record_def word_less_nat_alt min_def)

lemma ts_record_fold_sum:
  "total_ns (fold ts_record ds s) = total_ns s + sum_list ds"
  "ts_count (fold ts_record ds s) = ts_count s + of_nat (length ds)"
  by (induction ds arbitrary: s) (simp_all add: ts_record_def algebra_simps)

end
