(* ===== verification/Motor.thy ===== *)
theory Motor
  imports CanBus MercuryShm
begin

text \<open>
  \<open>lib/motor/Motor.cpp\<close> with the frame layouts of \<open>DmFrame.h\<close> and the limits of \<open>Common.h\<close>:
  commands encoded into CAN frames, and the callback that decodes what a motor sends.

  Motors live in the list \<open>motors\<close>; the position of a motor there is its address, the context
  pointer its observer is registered with.  A frame object that the code leaves partly
  uninitialised takes its other bytes from the argument \<open>junk\<close>.  \<open>now\<close> is what
  \<open>get_monotonic_ns\<close> returns.
\<close>

section \<open>Frames\<close>

datatype MotorType = DM8009 | DM10010L

record LimitParam =
  pMax :: double
  vMax :: double
  tMax :: double

definition MOTOR_LIMIT_PARAMS :: "MotorType \<Rightarrow> LimitParam" where
  "MOTOR_LIMIT_PARAMS t = (case t of
      DM8009 \<Rightarrow> \<lparr>pMax = Fin 12.5, vMax = Fin 45, tMax = Fin 54\<rparr>
    | DM10010L \<Rightarrow> \<lparr>pMax = Fin 12.5, vMax = Fin 25, tMax = Fin 200\<rparr>)"

definition getLimitParam :: "nat \<Rightarrow> fault + LimitParam" where
  "getLimitParam index =
     (if 2 \<le> index then Inl InvalidArgument
      else Inr (MOTOR_LIMIT_PARAMS (if index = 0 then DM8009 else DM10010L)))"

record MITParam =
  mit_kp :: double
  mit_kd :: double
  mit_q :: double
  mit_dq :: double
  mit_tau :: double

record StateResult =
  sr_state :: int
  sr_position :: double
  sr_velocity :: double
  sr_torque :: double
  sr_t_mos :: int
  sr_t_rotor :: int
  sr_valid :: bool

record ParamResult =
  pr_rid :: u8
  pr_value :: double
  pr_valid :: bool

definition CMD_API_GET_MOTOR_STATUS :: int where "CMD_API_GET_MOTOR_STATUS = 1"
definition CMD_API_GET_MOTOR_PARAMETERS :: int where "CMD_API_GET_MOTOR_PARAMETERS = 2"
definition CMD_API_SAVE_MOTOR_PARAMETERS :: int where "CMD_API_SAVE_MOTOR_PARAMETERS = 3"
definition CMD_API_WRITE_MOTOR_PARAMETERS :: int where "CMD_API_WRITE_MOTOR_PARAMETERS = 4"

definition dataframe_clear_error :: bytes where
  "dataframe_clear_error = [0xFF, 0xFF, 0xFF, 0xFF, 0xFF, 0xFF, 0xFF, 0xFB]"
definition dataframe_enable_motor :: bytes where
  "dataframe_enable_motor = [0xFF, 0xFF, 0xFF, 0xFF, 0xFF, 0xFF, 0xFF, 0xFC]"
definition dataframe_disable_motor :: bytes where
  "dataframe_disable_motor = [0xFF, 0xFF, 0xFF, 0xFF, 0xFF, 0xFF, 0xFF, 0xFD]"
definition dataframe_set_zero_position :: bytes where
  "dataframe_set_zero_position = [0xFF, 0xFF, 0xFF, 0xFF, 0xFF, 0xFF, 0xFF, 0xFE]"

text \<open>\<open>can_id\<close> is an \<open>int16_t\<close>, stored little-endian.\<close>

definition dataframe_get_motor_status :: "bytes \<Rightarrow> u32 \<Rightarrow> bytes" where
  "dataframe_get_motor_status junk can_id =
     [ucast can_id, ucast (drop_bit 8 can_id), 0xCC, 0] @ drop 4 junk"

definition dataframe_reg_param :: "bytes \<Rightarrow> u32 \<Rightarrow> u8 \<Rightarrow> u8 \<Rightarrow> bytes" where
  "dataframe_reg_param junk can_id cmd reg_id =
     [ucast can_id, ucast (drop_bit 8 can_id), cmd, reg_id] @ drop 4 junk"

text \<open>The bit layout of a MIT command, from its five codes.\<close>

definition mit_pack :: "u16 \<Rightarrow> u16 \<Rightarrow> u16 \<Rightarrow> u16 \<Rightarrow> u16 \<Rightarrow> bytes" where
  "mit_pack q_uint dq_uint kp_uint kd_uint tau_uint =
     [ucast (drop_bit 8 q_uint AND 0xFF),
      ucast (q_uint AND 0xFF),
      ucast (drop_bit 4 dq_uint),
      ucast (push_bit 4 (dq_uint AND 0xF) OR (drop_bit 8 kp_uint AND 0xF)),
      ucast (kp_uint AND 0xFF),
      ucast (drop_bit 4 kd_uint),
      ucast (push_bit 4 (kd_uint AND 0xF) OR (drop_bit 8 tau_uint AND 0xF)),
      ucast (tau_uint AND 0xFF)]"

definition to_code :: "(real \<Rightarrow> real) \<Rightarrow> double \<Rightarrow> double \<Rightarrow> double \<Rightarrow> nat \<Rightarrow> fault + u16" where
  "to_code rnd x lo hi bits =
     (case doubleToUint rnd x lo hi bits of None \<Rightarrow> Inl BadCast | Some c \<Rightarrow> Inr c)"

definition mit_frame :: "(real \<Rightarrow> real) \<Rightarrow> MotorType \<Rightarrow> MITParam \<Rightarrow> fault + bytes" where
  "mit_frame rnd mt p =
     (let limits = MOTOR_LIMIT_PARAMS mt in
      bindR (to_code rnd (mit_kp p) (Fin 0) (Fin 500) 12) (\<lambda>kp_uint.
      bindR (to_code rnd (mit_kd p) (Fin 0) (Fin 5) 12) (\<lambda>kd_uint.
      bindR (to_code rnd (mit_q p) (dneg (pMax limits)) (pMax limits) 16) (\<lambda>q_uint.
      bindR (to_code rnd (mit_dq p) (dneg (vMax limits)) (vMax limits) 12) (\<lambda>dq_uint.
      bindR (to_code rnd (mit_tau p) (dneg (tMax limits)) (tMax limits) 12) (\<lambda>tau_uint.
        Inr (mit_pack q_uint dq_uint kp_uint kd_uint tau_uint)))))))"

section \<open>The motor object\<close>

record Motor =
  m_deviceId :: u32
  m_motorType :: MotorType
  m_enabled :: bool
  m_status :: int
  m_stateQ :: double
  m_stateDq :: double
  m_stateTau :: double
  m_stateTmos :: int
  m_stateTrotor :: int
  m_lastMitParam :: MITParam
  m_lastSendTimeNs :: u64
  m_lastUpdateTime :: u64
  m_paramDict :: "u8 \<rightharpoonup> int"
  m_hasCache :: bool
  m_canHandle :: int

record motor_world = can_world +
  motors :: "Motor list"

definition MITParam_zero :: MITParam where
  "MITParam_zero = \<lparr>mit_kp = Fin 0, mit_kd = Fin 0, mit_q = Fin 0, mit_dq = Fin 0, mit_tau = Fin 0\<rparr>"

definition Motor_ctor ::
    "MotorType \<Rightarrow> u32 \<Rightarrow> bool \<Rightarrow> 'z motor_world_scheme \<Rightarrow> fault + nat \<times> 'z motor_world_scheme" where
  "Motor_ctor motor_type device_id has_cache w =
     bindR (CAN_ctor (sint device_id) w) (\<lambda>(h, w1).
       let this = length (motors w1);
           m = \<lparr>m_deviceId = device_id, m_motorType = motor_type, m_enabled = False, m_status = 0,
                m_stateQ = Fin 0, m_stateDq = Fin 0, m_stateTau = Fin 0, m_stateTmos = 0,
                m_stateTrotor = 0, m_lastMitParam = MITParam_zero, m_lastSendTimeNs = 0,
                m_lastUpdateTime = 0, m_paramDict = Map.empty, m_hasCache = has_cache,
                m_canHandle = h\<rparr>;
           obs = \<lparr>wantedIP = observerIp w1, packetHandler = Some this\<rparr>
       in Inr (this, registrateCallback (sint device_id) obs (w1\<lparr>motors := motors w1 @ [m]\<rparr>)))"

definition get_motor :: "nat \<Rightarrow> 'z motor_world_scheme \<Rightarrow> fault + Motor" where
  "get_motor n w = (if n < length (motors w) then Inr (motors w ! n) else Inl NullDeref)"

definition put_motor :: "nat \<Rightarrow> Motor \<Rightarrow> 'z motor_world_scheme \<Rightarrow> 'z motor_world_scheme" where
  "put_motor n m w = w\<lparr>motors := (motors w)[n := m]\<rparr>"

definition setEnabled :: "bool \<Rightarrow> Motor \<Rightarrow> Motor" where
  "setEnabled e m = m\<lparr>m_enabled := e\<rparr>"

definition getParam :: "u8 \<Rightarrow> Motor \<Rightarrow> int" where
  "getParam RID m = (case m_paramDict m RID of None \<Rightarrow> -1 | Some v \<Rightarrow> v)"

definition getRecvId :: "Motor \<Rightarrow> u32" where
  "getRecvId m = m_deviceId m + 0x10"

text \<open>The \<open>double\<close> of a parameter is converted to \<open>setTempParam\<close>'s \<open>int\<close> argument.\<close>

definition setTempParam :: "u8 \<Rightarrow> double \<Rightarrow> Motor \<Rightarrow> fault + Motor" where
  "setTempParam RID val m =
     (case cast_int (- 2147483648) 2147483647 val of
        None \<Rightarrow> Inl BadCast | Some v \<Rightarrow> Inr (m\<lparr>m_paramDict := (m_paramDict m)(RID \<mapsto> v)\<rparr>))"

definition updateState :: "u64 \<Rightarrow> StateResult \<Rightarrow> Motor \<Rightarrow> Motor" where
  "updateState now r m =
     m\<lparr>m_status := sr_state r, m_stateQ := sr_position r, m_stateDq := sr_velocity r,
       m_stateTau := sr_torque r, m_stateTmos := sr_t_mos r, m_stateTrotor := sr_t_rotor r,
       m_lastUpdateTime := now\<rparr>"

section \<open>Decoding\<close>

definition StateResult_invalid :: StateResult where
  "StateResult_invalid = \<lparr>sr_state = 0, sr_position = Fin 0, sr_velocity = Fin 0, sr_torque = Fin 0,
     sr_t_mos = 0, sr_t_rotor = 0, sr_valid = False\<rparr>"

definition q_code :: "bytes \<Rightarrow> u16" where
  "q_code d = push_bit 8 (ucast (d ! 1)) OR ucast (d ! 2)"
definition dq_code :: "bytes \<Rightarrow> u16" where
  "dq_code d = push_bit 4 (ucast (d ! 3)) OR drop_bit 4 (ucast (d ! 4))"
definition tau_code :: "bytes \<Rightarrow> u16" where
  "tau_code d = push_bit 8 (ucast (d ! 4 AND 0xF)) OR ucast (d ! 5)"

definition parseMotorStateData :: "(real \<Rightarrow> real) \<Rightarrow> MotorType \<Rightarrow> bytes \<Rightarrow> StateResult" where
  "parseMotorStateData rnd mt d =
     (if length d < 8 then StateResult_invalid
      else let limits = MOTOR_LIMIT_PARAMS mt in
        \<lparr>sr_state = uint (drop_bit 4 (d ! 0) AND 0xF),
         sr_position = uintToDouble rnd (q_code d) (dneg (pMax limits)) (pMax limits) 16,
         sr_velocity = uintToDouble rnd (dq_code d) (dneg (vMax limits)) (vMax limits) 12,
         sr_torque = uintToDouble rnd (tau_code d) (dneg (tMax limits)) (tMax limits) 12,
         sr_t_mos = uint (d ! 6), sr_t_rotor = uint (d ! 7), sr_valid = True\<rparr>)"

definition parseMotorParamData :: "bytes \<Rightarrow> ParamResult" where
  "parseMotorParamData d =
     (if length d < 8 then \<lparr>pr_rid = 0, pr_value = DNaN, pr_valid = False\<rparr>
      else if d ! 2 = 0x33 \<or> d ! 2 = 0x55
      then \<lparr>pr_rid = d ! 3, pr_value = reg_value d, pr_valid = True\<rparr>
      else \<lparr>pr_rid = 0, pr_value = DNaN, pr_valid = False\<rparr>)"

text \<open>\<open>idx\<close> is \<open>m_deviceId - 1\<close> in \<open>uint32_t\<close>, which no check bounds.\<close>

definition callback ::
    "(real \<Rightarrow> real) \<Rightarrow> u64 \<Rightarrow> nat \<Rightarrow> bytes \<Rightarrow> 'z motor_world_scheme \<Rightarrow> fault + 'z motor_world_scheme" where
  "callback rnd now this d w =
     bindR (get_motor this w) (\<lambda>m.
       let paramResult = parseMotorParamData d in
       if pr_valid paramResult then
         bindR (setTempParam (pr_rid paramResult) (pr_value paramResult) m) (\<lambda>m1.
         let w1 = put_motor this m1 w in
         if m_hasCache m then
           bindR (store_rid (pr_rid paramResult) (unat (m_deviceId m - 1)) (pr_value paramResult)
                    (param_cache w1))
             (\<lambda>c. Inr (w1\<lparr>param_cache := c\<rparr>))
         else Inr w1)
       else
         let stateResult = parseMotorStateData rnd (m_motorType m) d in
         if sr_valid stateResult then Inr (put_motor this (updateState now stateResult m) w)
         else Inr w)"

section \<open>Commands\<close>

definition sendMessage ::
    "nat \<Rightarrow> bytes \<Rightarrow> int \<Rightarrow> bool \<Rightarrow> 'z motor_world_scheme \<Rightarrow> fault + 'z motor_world_scheme" where
  "sendMessage this dataFrame command_id reply w =
     bindR (get_motor this w) (\<lambda>m. writePacket (m_canHandle m) dataFrame 8 command_id reply w)"

definition enableMotor :: "nat \<Rightarrow> 'z motor_world_scheme \<Rightarrow> fault + 'z motor_world_scheme" where
  "enableMotor this w = sendMessage this dataframe_enable_motor 0 False w"

definition disableMotor :: "nat \<Rightarrow> 'z motor_world_scheme \<Rightarrow> fault + 'z motor_world_scheme" where
  "disableMotor this w = sendMessage this dataframe_disable_motor 0 False w"

definition setZeroCommand :: "nat \<Rightarrow> 'z motor_world_scheme \<Rightarrow> fault + 'z motor_world_scheme" where
  "setZeroCommand this w = sendMessage this dataframe_set_zero_position 0 False w"

definition clearMotorError :: "nat \<Rightarrow> 'z motor_world_scheme \<Rightarrow> fault + 'z motor_world_scheme" where
  "clearMotorError this w = sendMessage this dataframe_clear_error 0 False w"

definition setMitControl ::
    "(real \<Rightarrow> real) \<Rightarrow> u64 \<Rightarrow> nat \<Rightarrow> MITParam \<Rightarrow> 'z motor_world_scheme \<Rightarrow> fault + 'z motor_world_scheme" where
  "setMitControl rnd now this mit_param w =
     bindR (get_motor this w) (\<lambda>m.
       let w1 = put_motor this (m\<lparr>m_lastMitParam := mit_param, m_lastSendTimeNs := now\<rparr>) w in
       bindR (mit_frame rnd (m_motorType m) mit_param) (\<lambda>df. sendMessage this df 0 False w1))"

text \<open>\<open>to_f32\<close> is the conversion from double to float, as a bit pattern.\<close>

definition setPosvelControl ::
    "(double \<Rightarrow> u32) \<Rightarrow> nat \<Rightarrow> double \<Rightarrow> double \<Rightarrow> 'z motor_world_scheme \<Rightarrow> fault + 'z motor_world_scheme" where
  "setPosvelControl to_f32 this pq pdq w =
     sendMessage this (floatToUint8s (to_f32 pq) @ floatToUint8s (to_f32 pdq)) 0 False w"

definition getMotorStatus :: "bytes \<Rightarrow> nat \<Rightarrow> 'z motor_world_scheme \<Rightarrow> fault + 'z motor_world_scheme" where
  "getMotorStatus junk this w =
     bindR (get_motor this w) (\<lambda>m.
       sendMessage this (dataframe_get_motor_status junk (m_deviceId m)) CMD_API_GET_MOTOR_STATUS False w)"

definition getRegParam :: "bytes \<Rightarrow> nat \<Rightarrow> int \<Rightarrow> 'z motor_world_scheme \<Rightarrow> fault + 'z motor_world_scheme" where
  "getRegParam junk this RID w =
     bindR (get_motor this w) (\<lambda>m.
       sendMessage this (dataframe_reg_param junk (m_deviceId m) 0x33 (word_of_int RID))
         CMD_API_GET_MOTOR_PARAMETERS False w)"

text \<open>The value to write is never put into the frame.\<close>

definition writeRegParam ::
    "bytes \<Rightarrow> nat \<Rightarrow> int \<Rightarrow> int \<Rightarrow> 'z motor_world_scheme \<Rightarrow> fault + 'z motor_world_scheme" where
  "writeRegParam junk this RID val w =
     bindR (get_motor this w) (\<lambda>m.
       sendMessage this (dataframe_reg_param junk (m_deviceId m) 0x55 (word_of_int RID))
         CMD_API_WRITE_MOTOR_PARAMETERS False w)"

definition saveRegParam :: "bytes \<Rightarrow> nat \<Rightarrow> int \<Rightarrow> 'z motor_world_scheme \<Rightarrow> fault + 'z motor_world_scheme" where
  "saveRegParam junk this RID w =
     bindR (get_motor this w) (\<lambda>m.
       sendMessage this (dataframe_reg_param junk (m_deviceId m) 0xAA (word_of_int RID))
         CMD_API_SAVE_MOTOR_PARAMETERS False w)"

section \<open>Frame layout\<close>

text \<open>
  What an actuator reads back from a MIT command and what \<open>parseMotorStateData\<close> reads from a
  state frame: the layouts lose no bit of a 16-bit or 12-bit code.
\<close>

lemma bit_u16_high [simp]: "\<not> bit (a::u16) (16 + n)"
  using bit_imp_le_length [of a] by fastforce

lemma u12_high:
  assumes "unat (c::u16) < 2 ^ 12" "12 \<le> n"
  shows "\<not> bit c n"
proof
  assume "bit c n"
  moreover have "take_bit 12 c = c"
    using assms(1) by (simp add: word_unat_eq_iff unsigned_take_bit_eq take_bit_nat_eq_self)
  ultimately have "bit (take_bit 12 c) n" by simp
  then show False using assms(2) by (simp add: bit_take_bit_iff)
qed

lemma and_take_bit: "(x::u16) AND 0xFF = take_bit 8 x" "(x::u16) AND 0xF = take_bit 4 x"
  "(y::u8) AND 0xF = take_bit 4 y"
  by (simp_all add: take_bit_eq_mask mask_eq_exp_minus_1)

lemma pack16:
  "push_bit 8 (ucast (ucast (drop_bit 8 (c::u16) AND 0xFF) :: u8)) OR ucast (ucast (c AND 0xFF) :: u8) = c"
  (is "?l = c")
proof (rule bit_word_eqI)
  fix n assume "n < LENGTH(16)"
  then show "bit ?l n = bit c n" unfolding and_take_bit by (cases "n < 8") (auto simp: bit_simps)
qed

lemma pack12_high:
  assumes "unat (c::u16) < 2 ^ 12"
  shows "push_bit 4 (ucast (ucast (drop_bit 4 c) :: u8)) OR
    drop_bit 4 (ucast (ucast (push_bit 4 (c AND 0xF) OR (drop_bit 8 k AND 0xF)) :: u8)) = c"
  (is "?l = c")
proof (rule bit_word_eqI)
  fix n assume "n < LENGTH(16)"
  then show "bit ?l n = bit c n"
    using u12_high [OF assms, of n] unfolding and_take_bit
    by (cases "n < 4"; cases "n < 12") (auto simp: bit_simps)
qed

lemma pack12_low:
  assumes "unat (k::u16) < 2 ^ 12"
  shows "push_bit 8 (ucast ((ucast (push_bit 4 (c AND 0xF) OR (drop_bit 8 k AND 0xF)) :: u8) AND 0xF)) OR
    ucast (ucast (k AND 0xFF) :: u8) = k"
  (is "?l = k")
proof (rule bit_word_eqI)
  fix n assume "n < LENGTH(16)"
  then show "bit ?l n = bit k n"
    using u12_high [OF assms, of n] unfolding and_take_bit
    by (cases "n < 8"; cases "n < 12") (auto simp: bit_simps)
qed

section \<open>Every command has a frame\<close>

lemma rnd64_span_pos: "1 \<le> s \<Longrightarrow> 0 < rnd64 s"
  using binary64.rnd_mono [of 1 s] binary64.rnd_1 by linarith

lemma to_code_ok:
  assumes "lo + 1 \<le> hi" "bits \<le> 16"
  obtains c where "to_code rnd64 x (Fin lo) (Fin hi) bits = Inr c" "unat c < 2 ^ bits"
    "doubleToUint rnd64 x (Fin lo) (Fin hi) bits = Some c"
proof -
  obtain c where "doubleToUint rnd64 x (Fin lo) (Fin hi) bits = Some c" "unat c < 2 ^ bits"
    by (rule binary64.doubleToUint_total [of lo hi bits x])
      (use assms rnd64_span_pos [of "hi - lo"] in auto)
  then show thesis using that by (simp add: to_code_def)
qed

lemma mit_frame_ok:
  assumes "MOTOR_LIMIT_PARAMS mt = \<lparr>pMax = Fin P, vMax = Fin V, tMax = Fin T\<rparr>"
  obtains cq cdq ckp ckd ctau where
    "mit_frame rnd64 mt p = Inr (mit_pack cq cdq ckp ckd ctau)"
    "doubleToUint rnd64 (mit_q p) (Fin (- P)) (Fin P) 16 = Some cq"
    "doubleToUint rnd64 (mit_dq p) (Fin (- V)) (Fin V) 12 = Some cdq"
    "doubleToUint rnd64 (mit_kp p) (Fin 0) (Fin 500) 12 = Some ckp"
    "doubleToUint rnd64 (mit_kd p) (Fin 0) (Fin 5) 12 = Some ckd"
    "doubleToUint rnd64 (mit_tau p) (Fin (- T)) (Fin T) 12 = Some ctau"
    "unat cdq < 2 ^ 12" "unat ckp < 2 ^ 12" "unat ckd < 2 ^ 12" "unat ctau < 2 ^ 12"
proof -
  have r: "1 \<le> P" "1 \<le> V" "1 \<le> T"
    using assms by (cases mt; simp add: MOTOR_LIMIT_PARAMS_def)+
  obtain cq where 1: "to_code rnd64 (mit_q p) (Fin (- P)) (Fin P) 16 = Inr cq"
    "doubleToUint rnd64 (mit_q p) (Fin (- P)) (Fin P) 16 = Some cq"
    by (rule to_code_ok [of "- P" P 16 "mit_q p"]) (use r in auto)
  obtain cdq where 2: "to_code rnd64 (mit_dq p) (Fin (- V)) (Fin V) 12 = Inr cdq" "unat cdq < 2 ^ 12"
    "doubleToUint rnd64 (mit_dq p) (Fin (- V)) (Fin V) 12 = Some cdq"
    by (rule to_code_ok [of "- V" V 12 "mit_dq p"]) (use r in auto)
  obtain ckp where 3: "to_code rnd64 (mit_kp p) (Fin 0) (Fin 500) 12 = Inr ckp" "unat ckp < 2 ^ 12"
    "doubleToUint rnd64 (mit_kp p) (Fin 0) (Fin 500) 12 = Some ckp"
    by (rule to_code_ok [of 0 500 12 "mit_kp p"]) auto
  obtain ckd where 4: "to_code rnd64 (mit_kd p) (Fin 0) (Fin 5) 12 = Inr ckd" "unat ckd < 2 ^ 12"
    "doubleToUint rnd64 (mit_kd p) (Fin 0) (Fin 5) 12 = Some ckd"
    by (rule to_code_ok [of 0 5 12 "mit_kd p"]) auto
  obtain ctau where 5: "to_code rnd64 (mit_tau p) (Fin (- T)) (Fin T) 12 = Inr ctau" "unat ctau < 2 ^ 12"
    "doubleToUint rnd64 (mit_tau p) (Fin (- T)) (Fin T) 12 = Some ctau"
    by (rule to_code_ok [of "- T" T 12 "mit_tau p"]) (use r in auto)
  show thesis
    by (rule that [OF _ 1(2) 2(3) 3(3) 4(3) 5(3) 2(2) 3(2) 4(2) 5(2)])
      (simp add: mit_frame_def assms 1 2 3 4 5)
qed

lemma length_mit_pack [simp]: "length (mit_pack a b c d e) = 8"
  by (simp add: mit_pack_def)

section \<open>Wiring\<close>

text \<open>
  Devices below \<open>maxCanDevice\<close> belong to server 0 and the left controller, the others to
  server 1 and the right one.  A motor is wired when its handle, its subscription and its
  route agree with its device id; \<open>Motor_ctor\<close> establishes this and every operation keeps it.
\<close>

definition leg_server :: "int \<Rightarrow> int \<Rightarrow> int" where
  "leg_server maxdev d = (if d < maxdev then 0 else 1)"

definition leg_client :: "int \<Rightarrow> int \<Rightarrow> client_addr" where
  "leg_client maxdev d = (if d < maxdev then ClientLeft else ClientRight)"

definition dev_of :: "Motor \<Rightarrow> int" where
  "dev_of m = uint (m_deviceId m)"

definition handle_of :: "int \<Rightarrow> CANStorage \<Rightarrow> bool" where
  "handle_of d st \<longleftrightarrow> manufacturer st = HAL_CAN_Man_Dm \<and> uint (st_deviceId st) = d \<and>
     uint (masterId st) = d + 0x10"

definition route_ok :: "int \<Rightarrow> nat \<Rightarrow> client_addr \<Rightarrow> UdpServer \<Rightarrow> bool" where
  "route_ok d n c s \<longleftrightarrow>
     length (m_subscribers s) = 13 \<and> length (m_subscriberActive s) = 13 \<and> length (m_deviceIPs s) = 13 \<and>
     m_deviceIPs s ! nat d = Some c \<and> m_subscriberActive s ! nat d \<and>
     packetHandler (m_subscribers s ! nat d) = Some n"

definition wired :: "'z motor_world_scheme \<Rightarrow> nat \<Rightarrow> bool" where
  "wired w n \<longleftrightarrow> n < length (motors w) \<and>
     (let m = motors w ! n; d = dev_of m; mx = maxCanDevice w in
      1 \<le> d \<and> d \<le> 12 \<and>
      (\<exists>st. find_handle (m_canHandle m) w = Inr (Some st) \<and> handle_of d st) \<and>
      route_ok d n (leg_client mx d) (getInstance (leg_server mx d) w))"

text \<open>What the environment of a motor must keep for it to stay wired.\<close>

definition static_storage :: "CANStorage \<Rightarrow> HAL_CANManufacturer \<times> u8 \<times> u8" where
  "static_storage st = (manufacturer st, st_deviceId st, masterId st)"

definition motor_key :: "Motor \<Rightarrow> u32 \<times> int \<times> MotorType \<times> bool" where
  "motor_key m = (m_deviceId m, m_canHandle m, m_motorType m, m_hasCache m)"

definition same_wiring :: "'z motor_world_scheme \<Rightarrow> 'z motor_world_scheme \<Rightarrow> bool" where
  "same_wiring w w' \<longleftrightarrow>
     map motor_key (motors w') = map motor_key (motors w) \<and>
     maxCanDevice w' = maxCanDevice w \<and>
     (\<forall>h. bindR (find_handle h w') (\<lambda>x. Inr (map_option static_storage x)) =
          bindR (find_handle h w) (\<lambda>x. Inr (map_option static_storage x))) \<and>
     (\<forall>i. m_subscribers (getInstance i w') = m_subscribers (getInstance i w) \<and>
          m_subscriberActive (getInstance i w') = m_subscriberActive (getInstance i w) \<and>
          m_deviceIPs (getInstance i w') = m_deviceIPs (getInstance i w))"

lemma same_wiring_refl [simp]: "same_wiring w w"
  by (simp add: same_wiring_def)

lemma same_wiring_trans: "same_wiring u v \<Longrightarrow> same_wiring v w \<Longrightarrow> same_wiring u w"
  by (simp add: same_wiring_def)

lemma same_wiring_motor:
  assumes "same_wiring w w'" "n < length (motors w)"
  shows "m_deviceId (motors w' ! n) = m_deviceId (motors w ! n)"
    and "m_canHandle (motors w' ! n) = m_canHandle (motors w ! n)"
    and "m_motorType (motors w' ! n) = m_motorType (motors w ! n)"
    and "m_hasCache (motors w' ! n) = m_hasCache (motors w ! n)"
    and "length (motors w') = length (motors w)"
proof -
  have eq: "map motor_key (motors w') = map motor_key (motors w)"
    using assms(1) unfolding same_wiring_def by (rule conjunct1)
  from map_eq_imp_length_eq [OF this] show len: "length (motors w') = length (motors w)" .
  have "motor_key (motors w' ! n) = motor_key (motors w ! n)"
    using arg_cong [OF eq, of "\<lambda>l. l ! n"] len assms(2) by simp
  then show "m_deviceId (motors w' ! n) = m_deviceId (motors w ! n)"
    "m_canHandle (motors w' ! n) = m_canHandle (motors w ! n)"
    "m_motorType (motors w' ! n) = m_motorType (motors w ! n)"
    "m_hasCache (motors w' ! n) = m_hasCache (motors w ! n)" by (simp_all add: motor_key_def)
qed

lemma same_wiring_wired:
  assumes "same_wiring w w'" "wired w n"
  shows "wired w' n"
proof -
  let ?m = "motors w ! n"
  have n: "n < length (motors w)" using assms(2) by (simp add: wired_def)
  note m = same_wiring_motor [OF assms(1) n]
  obtain st where st: "find_handle (m_canHandle ?m) w = Inr (Some st)" "handle_of (dev_of ?m) st"
    using assms(2) by (auto simp: wired_def Let_def)
  have "bindR (find_handle (m_canHandle ?m) w') (\<lambda>x. Inr (map_option static_storage x)) =
      Inr (Some (static_storage st))"
    using assms(1) st(1) by (simp add: same_wiring_def)
  then obtain st' where "find_handle (m_canHandle ?m) w' = Inr (Some st')"
      "static_storage st' = static_storage st"
    by (auto simp: bindR_Inr_iff)
  with st(2) have "\<exists>st. find_handle (m_canHandle ?m) w' = Inr (Some st) \<and> handle_of (dev_of ?m) st"
    by (auto simp: handle_of_def static_storage_def)
  moreover have "dev_of (motors w' ! n) = dev_of ?m" by (simp add: dev_of_def m)
  moreover have "route_ok d k c (getInstance i w') = route_ok d k c (getInstance i w)" for d k c i
    using assms(1) by (simp add: same_wiring_def route_ok_def)
  moreover have "maxCanDevice w' = maxCanDevice w" using assms(1) by (simp add: same_wiring_def)
  ultimately show ?thesis
    using assms(2) n m(2,5) by (simp add: wired_def Let_def)
qed

lemma same_wiring_put_motor:
  assumes "n < length (motors w)" "m_deviceId m = m_deviceId (motors w ! n)"
    "m_canHandle m = m_canHandle (motors w ! n)" "m_motorType m = m_motorType (motors w ! n)"
    "m_hasCache m = m_hasCache (motors w ! n)"
  shows "same_wiring w (put_motor n m w)"
proof -
  have "map motor_key ((motors w)[n := m]) = map motor_key (motors w)"
    using assms by (intro nth_equalityI) (auto simp: nth_list_update motor_key_def)
  then show ?thesis
    by (simp add: same_wiring_def put_motor_def find_handle_def getInstance_def)
qed

section \<open>Sending from a wired motor\<close>

lemma put_motor_frame [simp]:
  "canHandles (put_motor n m w) = canHandles w" "servers (put_motor n m w) = servers w"
  "param_cache (put_motor n m w) = param_cache w" "maxCanDevice (put_motor n m w) = maxCanDevice w"
  "sent (put_motor n m w) = sent w" "motors (put_motor n m w) = (motors w)[n := m]"
  "getInstance i (put_motor n m w) = getInstance i w" "find_handle h (put_motor n m w) = find_handle h w"
  by (simp_all add: put_motor_def getInstance_def find_handle_def)

lemma motors_frame [simp]:
  "motors (putInstance i s w) = motors w" "motors (update_storage h f w) = motors w"
  by (simp_all add: putInstance_def update_storage_def)

lemma motors_update_frame [simp]:
  "getInstance i (w\<lparr>motors := ms\<rparr>) = getInstance i w" "find_handle h (w\<lparr>motors := ms\<rparr>) = find_handle h w"
  "handles_ok (w\<lparr>motors := ms\<rparr>) = handles_ok w"
  by (simp_all add: getInstance_def find_handle_def handles_ok_def)

text \<open>The datagram a motor's command becomes.\<close>

definition command_dg :: "int \<Rightarrow> Motor \<Rightarrow> int \<Rightarrow> bytes \<Rightarrow> datagram" where
  "command_dg mx m apiId d =
     \<lparr>dg_server = leg_server mx (dev_of m), dg_client = Some (leg_client mx (dev_of m)),
      dg_bytes = wire (if apiId \<in> {1, 2, 3, 4} then 0x7FF else m_deviceId m) d\<rparr>"

lemma dev_id_words:
  assumes "uint (b::u8) = uint (i::u32)" "uint i \<le> 12"
  shows "ucast b AND (0x3F::u32) = i"
proof -
  have "(ucast b :: u32) = word_of_int (uint i)" by (simp flip: assms(1))
  then have "ucast b AND (0x3F::u32) = i AND mask 6" by (simp add: mask_eq_exp_minus_1)
  also have "\<dots> = take_bit 6 i" by (simp only: take_bit_eq_mask)
  also have "\<dots> = i"
    using assms(2) by (simp add: word_uint_eq_iff unsigned_take_bit_eq take_bit_int_eq_self)
  finally show ?thesis .
qed

lemma static_set_periodic: "static_storage (set_periodic a ms st) = static_storage st"
  by (simp add: static_storage_def set_periodic_def)

lemma same_wiring_I:
  assumes "motors w' = motors w" "maxCanDevice w' = maxCanDevice w"
    and "\<And>h. bindR (find_handle h w') (\<lambda>x. Inr (map_option static_storage x)) =
          bindR (find_handle h w) (\<lambda>x. Inr (map_option static_storage x))"
    and "\<And>i. getInstance i w' = getInstance i w"
  shows "same_wiring w w'"
  using assms by (simp add: same_wiring_def)

lemma sendMessage_wired:
  assumes "wired w n" "length d = 8"
  obtains w' where "sendMessage n d apiId False w = Inr w'" "same_wiring w w'"
    "sent w' = sent w @ [command_dg (maxCanDevice w) (motors w ! n) apiId d]" "motors w' = motors w"
    "param_cache w' = param_cache w"
proof -
  let ?m = "motors w ! n" and ?mx = "maxCanDevice w"
  let ?i = "leg_server ?mx (dev_of ?m)"
  obtain st where n: "n < length (motors w)" and d: "1 \<le> dev_of ?m" "dev_of ?m \<le> 12"
    and st: "find_handle (m_canHandle ?m) w = Inr (Some st)" "handle_of (dev_of ?m) st"
    and r: "route_ok (dev_of ?m) n (leg_client ?mx (dev_of ?m)) (getInstance ?i w)"
    using assms(1) by (auto simp: wired_def Let_def)
  let ?w1 = "update_storage (m_canHandle ?m) (set_periodic apiId (-1)) w"
  define w' where "w' = putInstance ?i (getInstance ?i w)
    (?w1\<lparr>sent := sent w @ [command_dg ?mx ?m apiId d]\<rparr>)"
  have "server_of st w = ?i"
    using st(2) by (simp add: server_of_def leg_server_def handle_of_def)
  moreover have "getClientAddrByDeviceId (getInstance ?i w) (dev_of ?m) = Some (leg_client ?mx (dev_of ?m))"
    using r d by (simp add: getClientAddrByDeviceId_def route_ok_def in_range_def MAX_DEVICE_ID_def)
  moreover have "ucast (st_deviceId st) AND 0x3F = m_deviceId ?m"
    using st(2) d by (intro dev_id_words) (auto simp: handle_of_def dev_of_def)
  ultimately have "sendMessage n d apiId False w = Inr w'"
    using n st assms(2)
    by (simp add: sendMessage_def get_motor_def writePacket_def HAL_WriteCANPacket_def CreateCANId_def
        handle_of_def sendMsg_no_reply command_dg_def w'_def Let_def)
  moreover have "same_wiring w w'"
  proof (rule same_wiring_I)
    show "bindR (find_handle h w') (\<lambda>x. Inr (map_option static_storage x)) =
        bindR (find_handle h w) (\<lambda>x. Inr (map_option static_storage x))" for h
      by (cases "find_handle h w") (auto simp: w'_def option.map_comp comp_def static_set_periodic)
  qed (simp_all add: w'_def)
  ultimately show thesis by (rule that) (simp_all add: w'_def)
qed

lemma setMitControl_wired:
  assumes "wired w n" "mit_frame rnd (m_motorType (motors w ! n)) p = Inr d" "length d = 8"
  obtains w' where "setMitControl rnd now n p w = Inr w'" "same_wiring w w'"
    "sent w' = sent w @ [command_dg (maxCanDevice w) (motors w ! n) 0 d]"
    "motors w' = (motors w)[n := (motors w ! n)\<lparr>m_lastMitParam := p, m_lastSendTimeNs := now\<rparr>]"
    "param_cache w' = param_cache w"
proof -
  let ?m = "(motors w ! n)\<lparr>m_lastMitParam := p, m_lastSendTimeNs := now\<rparr>"
  have n: "n < length (motors w)" using assms(1) by (simp add: wired_def)
  have sw: "same_wiring w (put_motor n ?m w)" by (rule same_wiring_put_motor [OF n]) simp_all
  obtain w' where w': "sendMessage n d 0 False (put_motor n ?m w) = Inr w'"
    "same_wiring (put_motor n ?m w) w'" "motors w' = motors (put_motor n ?m w)"
    "param_cache w' = param_cache (put_motor n ?m w)"
    "sent w' = sent (put_motor n ?m w) @ [command_dg (maxCanDevice (put_motor n ?m w))
       (motors (put_motor n ?m w) ! n) 0 d]"
    by (rule sendMessage_wired [OF same_wiring_wired [OF sw assms(1)] assms(3)])
  show thesis
    by (rule that [of w'])
      (use w' n assms(2) same_wiring_trans [OF sw] in
        \<open>simp_all add: setMitControl_def get_motor_def command_dg_def dev_of_def\<close>)
qed

section \<open>Construction\<close>

definition arrays_ok :: "'z can_world_scheme \<Rightarrow> bool" where
  "arrays_ok w \<longleftrightarrow> (\<forall>i. length (m_subscribers (getInstance i w)) = 13 \<and>
     length (m_subscriberActive (getInstance i w)) = 13 \<and> length (m_deviceIPs (getInstance i w)) = 13)"

definition devices :: "'z motor_world_scheme \<Rightarrow> int list" where
  "devices w = map dev_of (motors w)"

text \<open>The state between two constructions: every motor so far is wired and the ids differ.\<close>

definition motors_inv :: "'z motor_world_scheme \<Rightarrow> bool" where
  "motors_inv w \<longleftrightarrow> handles_ok w \<and> arrays_ok w \<and> canHandles w \<noteq> None \<and>
     (\<forall>n < length (motors w). wired w n)"

lemma u8_of_dev:
  assumes "1 \<le> uint (i::u32)" "uint i \<le> 12"
  shows "uint (word_of_int (sint i) :: u8) = uint i" "uint (word_of_int (sint i + 16) :: u8) = uint i + 16"
    "sint i = uint i"
proof -
  have "sint i = signed_take_bit 31 (uint i)" by (simp add: sint_uint)
  also have "\<dots> = uint i" using assms by (intro signed_take_bit_int_eq_self) auto
  finally show si: "sint i = uint i" .
  show "uint (word_of_int (sint i) :: u8) = uint i"
    unfolding si using assms by (simp only: uint_word_of_int) (simp add: take_bit_int_eq_self)
  have "uint (word_of_int (uint i + 16) :: u8) = (uint i + 16) mod 256"
    by (simp only: uint_word_of_int) simp
  then show "uint (word_of_int (sint i + 16) :: u8) = uint i + 16"
    using assms by (simp add: si)
qed

lemma registrateCallback_instances:
  assumes "in_range d"
  shows "getInstance j (registrateCallback d obs w) =
    (let i = leg_server (maxCanDevice w) d; s = getInstance j w in
     if j = i then s\<lparr>m_subscribers := (m_subscribers s)[nat d := obs],
        m_subscriberActive := (m_subscriberActive s)[nat d := True],
        m_deviceIPs := (m_deviceIPs s)[nat d := Some (leg_client (maxCanDevice w) d)]\<rparr>
     else s)"
  using assms
  by (simp add: registrateCallback_def subscribe_def bindDevicesToServer_def leg_server_def
      leg_client_def Let_def)

lemma registrateCallback_frame [simp]:
  "canHandles (registrateCallback d obs w) = canHandles w" "sent (registrateCallback d obs w) = sent w"
  "maxCanDevice (registrateCallback d obs w) = maxCanDevice w"
  "param_cache (registrateCallback d obs w) = param_cache w"
  "find_handle h (registrateCallback d obs w) = find_handle h w"
  by (simp_all add: registrateCallback_def subscribe_def bindDevicesToServer_def Let_def)

lemma registrateCallback_motors [simp]: "motors (registrateCallback d obs w) = motors w"
  by (simp add: registrateCallback_def subscribe_def bindDevicesToServer_def Let_def)

lemma route_ok_register:
  assumes "route_ok d' n c s" "nat d' \<noteq> nat d"
  shows "route_ok d' n c (s\<lparr>m_subscribers := (m_subscribers s)[nat d := obs],
        m_subscriberActive := (m_subscriberActive s)[nat d := True],
        m_deviceIPs := (m_deviceIPs s)[nat d := x]\<rparr>)"
  using assms by (simp add: route_ok_def)

lemma route_ok_registrate:
  assumes "route_ok d' n c (getInstance j w)" "nat d' \<noteq> nat d" "in_range d"
  shows "route_ok d' n c (getInstance j (registrateCallback d obs w))"
  using assms by (auto simp: registrateCallback_instances Let_def intro!: route_ok_register)

lemma wired_registrate_new:
  assumes "arrays_ok w" "n < length (motors w)" "dev_of (motors w ! n) = d" "1 \<le> d" "d \<le> 12"
    "find_handle (m_canHandle (motors w ! n)) w = Inr (Some st)" "handle_of d st"
    "packetHandler obs = Some n"
  shows "wired (registrateCallback d obs w) n"
  using assms by (auto simp: wired_def Let_def registrateCallback_instances in_range_def MAX_DEVICE_ID_def
      route_ok_def arrays_ok_def nat_less_iff)

lemma wired_registrate_old:
  assumes "wired w n" "dev_of (motors w ! n) \<noteq> d" "1 \<le> d" "d \<le> 12"
  shows "wired (registrateCallback d obs w) n"
proof -
  have "nat (dev_of (motors w ! n)) \<noteq> nat d" using assms by (auto simp: wired_def Let_def)
  moreover have "in_range d" using assms(3,4) by (simp add: in_range_def MAX_DEVICE_ID_def)
  ultimately show ?thesis
    using assms(1) by (simp add: wired_def Let_def route_ok_registrate)
qed

lemma Motor_ctor_ok:
  assumes inv: "motors_inv w" and dev: "1 \<le> uint dev" "uint dev \<le> 12"
    and new: "uint dev \<notin> set (devices w)"
  obtains w' m where "Motor_ctor mt dev cache w = Inr (length (motors w), w')" "motors_inv w'"
    "motors w' = motors w @ [m]" "m_deviceId m = dev" "m_motorType m = mt" "m_hasCache m = cache"
    "sent w' = sent w" "maxCanDevice w' = maxCanDevice w" "param_cache w' = param_cache w"
proof -
  let ?n = "length (motors w)"
  note words = u8_of_dev [OF dev]
  obtain hs where hs: "canHandles w = Some hs" using inv by (auto simp: motors_inv_def)
  have hok: "handles_ok w" using inv by (simp add: motors_inv_def)
  obtain w1 where w1: "HAL_InitializeCAN HAL_CAN_Man_Dm (sint dev) HAL_CAN_Dev_kMotionController w
        = Inr (int (length hs), w1)"
    and fr: "w1 = w\<lparr>canHandles := canHandles w1\<rparr>" and hok1: "handles_ok w1"
    and new_h: "find_handle (int (length hs)) w1 = Inr (Some \<lparr>manufacturer = HAL_CAN_Man_Dm,
       deviceType = HAL_CAN_Dev_kMotionController,
       st_deviceId = word_of_int (sint dev), masterId = word_of_int (sint dev + 0x10), receives = Map.empty,
       periodicSends = Map.empty, replyEvent = False\<rparr>)"
    and old_h: "\<And>h. h \<noteq> int (length hs) \<Longrightarrow> find_handle h w1 = find_handle h w"
    by (rule HAL_InitializeCAN_ok
        [OF hok hs, of HAL_CAN_Man_Dm "sint dev" HAL_CAN_Dev_kMotionController]) blast
  define m where "m = \<lparr>m_deviceId = dev, m_motorType = mt, m_enabled = False, m_status = 0,
                m_stateQ = Fin 0, m_stateDq = Fin 0, m_stateTau = Fin 0, m_stateTmos = 0,
                m_stateTrotor = 0, m_lastMitParam = MITParam_zero, m_lastSendTimeNs = 0,
                m_lastUpdateTime = 0, m_paramDict = Map.empty, m_hasCache = cache,
                m_canHandle = int (length hs)\<rparr>"
  define w2 where "w2 = w1\<lparr>motors := motors w @ [m]\<rparr>"
  define obs where "obs = \<lparr>wantedIP = observerIp w, packetHandler = Some ?n\<rparr>"
  define w' where "w' = registrateCallback (uint dev) obs w2"
  have w1s: "motors w1 = motors w" "observerIp w1 = observerIp w" "sent w1 = sent w"
      "maxCanDevice w1 = maxCanDevice w" "param_cache w1 = param_cache w" "getInstance i w1 = getInstance i w" for i
    using arg_cong [OF fr, of motors] arg_cong [OF fr, of observerIp] arg_cong [OF fr, of sent]
      arg_cong [OF fr, of maxCanDevice] arg_cong [OF fr, of param_cache]
      arg_cong [OF fr, of "getInstance i"] by simp_all
  have w2s: "motors w2 = motors w @ [m]" "sent w2 = sent w" "maxCanDevice w2 = maxCanDevice w"
      "param_cache w2 = param_cache w" "find_handle h w2 = find_handle h w1"
      "getInstance i w2 = getInstance i w" "handles_ok w2" for i h
    using hok1 by (simp_all add: w2_def w1s)
  have ctor: "Motor_ctor mt dev cache w = Inr (?n, w')"
    by (simp add: Motor_ctor_def CAN_ctor_def w1 [unfolded words(3)] Let_def w'_def w2_def
        obs_def m_def w1s words(3))
  have arr: "arrays_ok w2" using inv by (simp add: motors_inv_def arrays_ok_def w2s)
  have hof: "handle_of (uint dev) \<lparr>manufacturer = HAL_CAN_Man_Dm,
       deviceType = HAL_CAN_Dev_kMotionController,
       st_deviceId = word_of_int (sint dev), masterId = word_of_int (sint dev + 0x10), receives = Map.empty,
       periodicSends = Map.empty, replyEvent = False\<rparr>"
    by (simp only: handle_of_def CANStorage.select_convs words(1,2) simp_thms)
  have new_wired: "wired w' ?n"
    unfolding w'_def
    by (rule wired_registrate_new [OF arr _ _ dev _ hof])
      (simp_all add: w2s new_h m_def dev_of_def obs_def)
  have old_wired: "wired w' k" if k: "k < ?n" for k
    unfolding w'_def
  proof (rule wired_registrate_old)
    have wk: "wired w k" using inv k by (simp add: motors_inv_def)
    then obtain st where st: "find_handle (m_canHandle (motors w ! k)) w = Inr (Some st)"
      by (auto simp: wired_def Let_def)
    have "m_canHandle (motors w ! k) \<noteq> int (length hs)"
    proof
      assume eq: "m_canHandle (motors w ! k) = int (length hs)"
      have "map_of hs (int (length hs)) = None"
        using hok hs by (intro map_of_consecutive) (simp add: handles_ok_def)
      then show False using st hs by (simp add: find_handle_def eq)
    qed
    then show "wired w2 k"
      using wk k by (simp add: wired_def w2s old_h nth_append)
    have "dev_of (motors w ! k) \<in> set (devices w)" using k by (simp add: devices_def)
    then show "dev_of (motors w2 ! k) \<noteq> uint dev" using new k by (auto simp: w2s nth_append)
  qed (use dev in simp_all)
  have "motors_inv w'"
  proof -
    have "canHandles w' = canHandles w1" by (simp add: w'_def w2_def)
    moreover have "canHandles w1 \<noteq> None" using new_h by (auto simp: find_handle_def split: option.splits)
    moreover have "arrays_ok w'"
      using arr dev by (simp add: arrays_ok_def w'_def registrateCallback_instances in_range_def
          MAX_DEVICE_ID_def Let_def)
    moreover have "wired w' k" if "k < length (motors w')" for k
      using that new_wired old_wired by (cases "k = ?n") (auto simp: w'_def w2s)
    ultimately show ?thesis using hok1 by (simp add: motors_inv_def handles_ok_def)
  qed
  then show thesis
    by (rule that [OF ctor]) (simp_all add: w'_def w2s, simp_all add: m_def)
qed

section \<open>Receiving\<close>

lemma callback_state:
  assumes "n < length (motors w)" "length d = 8" "d ! 2 \<noteq> 0x33" "d ! 2 \<noteq> 0x55"
  shows "callback rnd now n d w =
    Inr (put_motor n (updateState now (parseMotorStateData rnd (m_motorType (motors w ! n)) d) (motors w ! n)) w)"
  using assms by (simp add: callback_def get_motor_def parseMotorParamData_def parseMotorStateData_def Let_def)

lemma store_rid_length:
  "store_rid r i v c = Inr c' \<Longrightarrow> length (pc_bus_voltage c') = length (pc_bus_voltage c) \<and>
    length (pc_bus_current c') = length (pc_bus_current c) \<and>
    length (pc_reflected_rotor_inertia c') = length (pc_reflected_rotor_inertia c)"
  by (auto simp: store_rid_def store_bus_voltage_def store_bus_current_def
      store_reflected_rotor_inertia_def bindR_Inr_iff arr_set_def split: if_splits)

interpretation motor_cb: packet_observer "callback rnd now" for rnd now
proof unfold_locales
  fix ctx d and w w' :: "'a motor_world_scheme"
  assume "callback rnd now ctx d w = Inr w'"
  then show "servers w' = servers w \<and> canHandles w' = canHandles w \<and> sent w' = sent w \<and>
      maxCanDevice w' = maxCanDevice w"
    by (auto simp: callback_def Let_def bindR_Inr_iff split: if_splits)
qed

text \<open>A frame that carries a motor's reply identifier reaches that motor.\<close>

lemma dispatch_to_motor:
  assumes "wired w n" "d = dev_of (motors w ! n)"
    and "bswap32 (FrameId frame) = word_of_int (d + 0x10)"
    and "m_frameIds (getInstance (leg_server (maxCanDevice w) d) w) (d + 0x10) = None"
  shows "dispatchMessage cb (leg_server (maxCanDevice w) d) frame w = cb n (fr_data frame) w"
proof -
  have d: "1 \<le> d" "d \<le> 12" and r: "route_ok d n (leg_client (maxCanDevice w) d)
      (getInstance (leg_server (maxCanDevice w) d) w)"
    using assms(1,2) by (auto simp: wired_def Let_def)
  have u: "uint (word_of_int (d + 0x10) :: u32) = d + 0x10"
    using d by (simp only: uint_word_of_int) (simp add: take_bit_int_eq_self)
  have ne: "word_of_int (d + 0x10) \<noteq> (0x7FF :: u32)"
  proof
    assume "word_of_int (d + 0x10) = (0x7FF :: u32)"
    then have "d + 0x10 = uint (0x7FF :: u32)" using u by metis
    then show False using d by simp
  qed
  have si: "sint (word_of_int (d + 0x10) :: u32) = d + 0x10"
    using d unfolding sint_uint u by (intro signed_take_bit_int_eq_self) auto
  have "handler_of (getInstance (leg_server (maxCanDevice w) d) w) d = Some n"
    using r d by (simp add: handler_of_def route_ok_def in_range_def MAX_DEVICE_ID_def)
  then show ?thesis
    using assms(3,4) ne si
    by (simp add: dispatchMessage_def is_param_reply_def consume_reply_def deliver_unsolicited_def Let_def)
qed

end
