(* ===== verification/DamiaoSimulator.thy ===== *)
theory DamiaoSimulator
  imports Motor
begin

text \<open>
  \<open>tools/DamiaoSimulator.cpp\<close>, the stand-in for the actuators: it decodes the frames that
  \<open>Motor\<close> sends, keeps one state per motor, and answers with feedback and parameter frames.
  \<open>motors_\<close> is a list ordered by CAN id, the order in which \<open>std::map\<close> iterates.  A float is
  its bit pattern; \<open>responses\<close> collects the datagrams given to \<open>sendto\<close>.
\<close>

section \<open>State\<close>

definition CAN_FRAME_SIZE :: nat where "CAN_FRAME_SIZE = 13"
definition MAX_MOTORS :: nat where "MAX_MOTORS = 12"

datatype MotorStatus = DISABLED | ENABLED | OVERVOLTAGE | UNDERVOLTAGE | OVERCURRENT
  | MOS_OVERTEMP | COIL_OVERTEMP | COMM_LOST | OVERLOAD

definition status_code :: "MotorStatus \<Rightarrow> u8" where
  "status_code s = (case s of DISABLED \<Rightarrow> 0 | ENABLED \<Rightarrow> 1 | OVERVOLTAGE \<Rightarrow> 8 | UNDERVOLTAGE \<Rightarrow> 9
     | OVERCURRENT \<Rightarrow> 0xA | MOS_OVERTEMP \<Rightarrow> 0xB | COIL_OVERTEMP \<Rightarrow> 0xC | COMM_LOST \<Rightarrow> 0xD
     | OVERLOAD \<Rightarrow> 0xE)"

record SimLimits =
  sl_pMax :: real
  sl_vMax :: real
  sl_tMax :: real

definition DEFAULT_LIMITS :: SimLimits where
  "DEFAULT_LIMITS = \<lparr>sl_pMax = 12.5, sl_vMax = 45, sl_tMax = 18\<rparr>"

record MotorState =
  s_canId :: u16
  s_masterId :: u16
  s_status :: MotorStatus
  s_position :: double
  s_velocity :: double
  s_torque :: double
  mosFetTemp :: int
  rotorTemp :: int
  targetPos :: double
  targetVel :: double
  targetTorque :: double
  s_kp :: double
  s_kd :: double
  limits :: SimLimits
  zeroSaved :: bool
  parameters :: "u8 \<rightharpoonup> u32"

text \<open>
  Conversion of an unsigned integer to \<open>float\<close>: exact up to 24 significant bits, otherwise
  rounded to the nearest, ties to even.
\<close>

fun nlog2 :: "nat \<Rightarrow> nat" where
  "nlog2 n = (if n < 2 then 0 else Suc (nlog2 (n div 2)))"

definition f32_of_nat :: "nat \<Rightarrow> u32" where
  "f32_of_nat n =
     (if n = 0 then 0
      else let e = nlog2 n in
        if e \<le> 23 then of_nat ((e + 127) * 2 ^ 23 + (n * 2 ^ (23 - e) - 2 ^ 23))
        else let k = e - 23; a = n div 2 ^ k; r = n mod 2 ^ k; half = 2 ^ (k - 1);
                 a' = (if r > half \<or> r = half \<and> odd a then a + 1 else a)
             in of_nat ((e + 127) * 2 ^ 23 + (a' - 2 ^ 23)))"

text \<open>The float limits 12.5, 45, 18 and the other literals, as patterns.\<close>

definition initDefaults :: "MotorState \<Rightarrow> MotorState" where
  "initDefaults m = m\<lparr>parameters := (parameters m)
     (0x05 \<mapsto> 0x41480000, 0x06 \<mapsto> f32_of_nat 45, 0x07 \<mapsto> f32_of_nat (unat (s_canId m)),
      0x08 \<mapsto> f32_of_nat (unat (s_masterId m)), 0x09 \<mapsto> f32_of_nat 10000,
      0x0A \<mapsto> f32_of_nat 18, 0x0B \<mapsto> f32_of_nat 100)\<rparr>"

definition MotorState_init :: MotorState where
  "MotorState_init = \<lparr>s_canId = 1, s_masterId = 0, s_status = DISABLED, s_position = Fin 0,
     s_velocity = Fin 0, s_torque = Fin 0, mosFetTemp = 35, rotorTemp = 40, targetPos = Fin 0,
     targetVel = Fin 0, targetTorque = Fin 0, s_kp = Fin 0, s_kd = Fin 0, limits = DEFAULT_LIMITS,
     zeroSaved = False, parameters = Map.empty\<rparr>"

record Sim =
  motors_ids :: "(u16 \<times> MotorState) list"
  responses :: "bytes list"

fun map_put :: "u16 \<Rightarrow> MotorState \<Rightarrow> (u16 \<times> MotorState) list \<Rightarrow> (u16 \<times> MotorState) list" where
  "map_put k v [] = [(k, v)]"
| "map_put k v ((j, u) # xs) =
     (if k = j then (k, v) # xs else if k < j then (k, v) # (j, u) # xs else (j, u) # map_put k v xs)"

definition sim_add :: "u16 \<Rightarrow> Sim \<Rightarrow> Sim" where
  "sim_add i s = s\<lparr>motors_ids :=
     map_put i (initDefaults (MotorState_init\<lparr>s_canId := i, s_masterId := i + 0x10\<rparr>)) (motors_ids s)\<rparr>"

definition DamiaoMultiSimulator :: "u16 list \<Rightarrow> fault + Sim" where
  "DamiaoMultiSimulator motorIds =
     (if MAX_MOTORS < length motorIds then Inl ExitFailure
      else Inr (fold sim_add motorIds \<lparr>motors_ids = [], responses = []\<rparr>))"

section \<open>Protocol helpers\<close>

definition sim_double_to_uint :: "(real \<Rightarrow> real) \<Rightarrow> double \<Rightarrow> real \<Rightarrow> nat \<Rightarrow> fault + u16" where
  "sim_double_to_uint rnd x bnd bits =
     (let x_min = Fin (- bnd); x_max = Fin bnd;
          x = std_max x_min (std_min x x_max); span = dsub rnd x_max x_min in
      case cast_u16 (dmul rnd (ddiv rnd (dsub rnd x x_min) span) (code_max bits)) of
        None \<Rightarrow> Inl BadCast | Some c \<Rightarrow> Inr c)"

definition sim_uint_to_double :: "(real \<Rightarrow> real) \<Rightarrow> u16 \<Rightarrow> double \<Rightarrow> double \<Rightarrow> nat \<Rightarrow> double" where
  "sim_uint_to_double rnd x min_val max_val bits =
     (let span = dsub rnd max_val min_val in
      dadd rnd (dmul rnd (ddiv rnd (Fin (real (unat x))) (code_max bits)) span) min_val)"

definition bytes_to_float :: "bytes \<Rightarrow> double" where
  "bytes_to_float bs = f32_val (le_word32 (take 4 bs))"

definition extract_can_id :: "bytes \<Rightarrow> u32" where
  "extract_can_id msg = push_bit 24 (ucast (msg ! 1)) OR push_bit 16 (ucast (msg ! 2)) OR
     push_bit 8 (ucast (msg ! 3)) OR ucast (msg ! 4)"

definition set_can_id :: "u32 \<Rightarrow> bytes" where
  "set_can_id i = [ucast (drop_bit 24 i), ucast (drop_bit 16 i), ucast (drop_bit 8 i), ucast i]"

section \<open>Command identification\<close>

datatype CommandType = UNKNOWN | ENABLE | DISABLE | SAVE_ZERO | CLEAR_ERROR | MIT_CONTROL
  | POSVEL_CONTROL | VELOCITY_CONTROL | POSFORCE_CONTROL | QUERY_PARAM | WRITE_PARAM | REFRESH

definition findMotorByCanId :: "Sim \<Rightarrow> u32 \<Rightarrow> u16 option" where
  "findMotorByCanId s canId =
     (if map_of (motors_ids s) (ucast canId) \<noteq> None then Some (ucast canId)
      else map_option fst (find (\<lambda>(b, m). canId = ucast b + 0x100 \<or> canId = ucast b + 0x200 \<or>
                                          canId = ucast b + 0x300) (motors_ids s)))"

definition findMotorByParamData :: "Sim \<Rightarrow> bytes \<Rightarrow> u16 option" where
  "findMotorByParamData s d =
     (let motorId = (ucast (d ! 0) OR push_bit 8 (ucast (d ! 1)) :: u16) in
      if map_of (motors_ids s) motorId \<noteq> None then Some motorId else None)"

record ParsedCommand =
  pc_type :: CommandType
  pc_motor :: "u16 option"
  pc_canId :: u32

definition control_type :: "u8 \<Rightarrow> CommandType" where
  "control_type b = (if b = 0xFC then ENABLE else if b = 0xFD then DISABLE
     else if b = 0xFE then SAVE_ZERO else if b = 0xFB then CLEAR_ERROR else UNKNOWN)"

definition identifyCommand :: "Sim \<Rightarrow> bytes \<Rightarrow> nat \<Rightarrow> ParsedCommand" where
  "identifyCommand s msg len =
     (if len < CAN_FRAME_SIZE then \<lparr>pc_type = UNKNOWN, pc_motor = None, pc_canId = 0\<rparr>
      else let canId = extract_can_id msg; d = drop 5 msg in
        if take 7 d = replicate 7 0xFF then
          (case findMotorByCanId s canId of
             None \<Rightarrow> \<lparr>pc_type = UNKNOWN, pc_motor = None, pc_canId = canId\<rparr>
           | Some k \<Rightarrow> \<lparr>pc_type = control_type (d ! 7), pc_motor = Some k, pc_canId = canId\<rparr>)
        else if canId = 0x7FF then
          (case findMotorByParamData s d of
             None \<Rightarrow> \<lparr>pc_type = UNKNOWN, pc_motor = None, pc_canId = canId\<rparr>
           | Some k \<Rightarrow> \<lparr>pc_type = (if d ! 2 = 0x33 then QUERY_PARAM else if d ! 2 = 0x55 then WRITE_PARAM
                                 else if d ! 2 = 0xCC then REFRESH else UNKNOWN),
                       pc_motor = Some k, pc_canId = canId\<rparr>)
        else
          (case findMotorByCanId s canId of
             None \<Rightarrow> \<lparr>pc_type = UNKNOWN, pc_motor = None, pc_canId = canId\<rparr>
           | Some k \<Rightarrow>
               let baseId = ucast (s_canId (the (map_of (motors_ids s) k))) in
               \<lparr>pc_type = (if canId = baseId then MIT_CONTROL
                          else if canId = baseId + 0x100 then POSVEL_CONTROL
                          else if canId = baseId + 0x200 then VELOCITY_CONTROL
                          else if canId = baseId + 0x300 then POSFORCE_CONTROL else UNKNOWN),
                pc_motor = Some k, pc_canId = canId\<rparr>))"

section \<open>Handlers\<close>

definition clamp :: "real \<Rightarrow> double \<Rightarrow> double" where
  "clamp bnd x = std_max (Fin (- bnd)) (std_min x (Fin bnd))"

definition dabs :: "double \<Rightarrow> double" where
  "dabs x = (case x of DNaN \<Rightarrow> DNaN | DInf _ \<Rightarrow> DInf False | Fin r \<Rightarrow> Fin \<bar>r\<bar>)"

definition to_int :: "double \<Rightarrow> fault + int" where
  "to_int x = (case cast_int (- 2147483648) 2147483647 x of None \<Rightarrow> Inl BadCast | Some v \<Rightarrow> Inr v)"

definition lag :: "(real \<Rightarrow> real) \<Rightarrow> double \<Rightarrow> double \<Rightarrow> double" where
  "lag rnd x target = dadd rnd x (dmul rnd (Fin (rnd (1 / 10))) (dsub rnd target x))"

definition updatePhysics :: "(real \<Rightarrow> real) \<Rightarrow> MotorState \<Rightarrow> fault + MotorState" where
  "updatePhysics rnd m =
     (let p = clamp (sl_pMax (limits m)) (lag rnd (s_position m) (targetPos m));
          v = clamp (sl_vMax (limits m)) (lag rnd (s_velocity m) (targetVel m));
          t = clamp (sl_tMax (limits m)) (lag rnd (s_torque m) (targetTorque m)) in
      bindR (to_int (dmul rnd (dabs t) (Fin 2))) (\<lambda>mos.
      bindR (to_int (dmul rnd (dabs t) (Fin 1.5))) (\<lambda>rotor.
        Inr (m\<lparr>s_position := p, s_velocity := v, s_torque := t,
               mosFetTemp := 35 + mos, rotorTemp := 40 + rotor\<rparr>))))"

definition handleMitControl :: "(real \<Rightarrow> real) \<Rightarrow> MotorState \<Rightarrow> bytes \<Rightarrow> fault + MotorState" where
  "handleMitControl rnd m d =
     (if s_status m \<noteq> ENABLED then Inr m
      else
        let q_uint = push_bit 8 (ucast (d ! 0)) OR ucast (d ! 1);
            dq_uint = push_bit 4 (ucast (d ! 2)) OR drop_bit 4 (ucast (d ! 3));
            kp_uint = push_bit 8 (ucast (d ! 3 AND 0xF)) OR ucast (d ! 4);
            kd_uint = push_bit 4 (ucast (d ! 5)) OR drop_bit 4 (ucast (d ! 6));
            tau_uint = push_bit 8 (ucast (d ! 6 AND 0xF)) OR ucast (d ! 7);
            l = limits m
        in updatePhysics rnd
             (m\<lparr>targetPos := sim_uint_to_double rnd q_uint (Fin (- sl_pMax l)) (Fin (sl_pMax l)) 16,
                targetVel := sim_uint_to_double rnd dq_uint (Fin (- sl_vMax l)) (Fin (sl_vMax l)) 12,
                s_kp := sim_uint_to_double rnd kp_uint (Fin 0) (Fin 500) 12,
                s_kd := sim_uint_to_double rnd kd_uint (Fin 0) (Fin 5) 12,
                targetTorque := sim_uint_to_double rnd tau_uint (Fin (- sl_tMax l)) (Fin (sl_tMax l)) 12\<rparr>))"

definition handlePosVelControl :: "(real \<Rightarrow> real) \<Rightarrow> MotorState \<Rightarrow> bytes \<Rightarrow> fault + MotorState" where
  "handlePosVelControl rnd m d =
     (if s_status m \<noteq> ENABLED then Inr m
      else updatePhysics rnd (m\<lparr>targetPos := bytes_to_float d, targetVel := bytes_to_float (drop 4 d)\<rparr>))"

definition handleVelocityControl :: "(real \<Rightarrow> real) \<Rightarrow> MotorState \<Rightarrow> bytes \<Rightarrow> fault + MotorState" where
  "handleVelocityControl rnd m d =
     (if s_status m \<noteq> ENABLED then Inr m
      else updatePhysics rnd (m\<lparr>targetVel := bytes_to_float d\<rparr>))"

definition handlePosForceControl :: "(real \<Rightarrow> real) \<Rightarrow> MotorState \<Rightarrow> bytes \<Rightarrow> fault + MotorState" where
  "handlePosForceControl rnd m d =
     (if s_status m \<noteq> ENABLED then Inr m
      else
        let vel_u = (ucast (d ! 4) OR push_bit 8 (ucast (d ! 5)) :: u16);
            i_u = (ucast (d ! 6) OR push_bit 8 (ucast (d ! 7)) :: u16)
        in updatePhysics rnd
             (m\<lparr>targetPos := bytes_to_float d,
                targetVel := ddiv rnd (Fin (real (unat vel_u))) (Fin 100),
                targetTorque := dmul rnd (ddiv rnd (Fin (real (unat i_u))) (Fin 10000))
                                  (Fin (sl_tMax (limits m)))\<rparr>))"

text \<open>The reply to a query: \<open>static_cast<uint32_t>\<close> of an unrepresentable float is undefined.\<close>

definition handleQueryParam :: "MotorState \<Rightarrow> bytes \<Rightarrow> fault + bytes" where
  "handleQueryParam m d =
     (let rid = d ! 3;
          val = (case parameters m rid of None \<Rightarrow> 0 | Some v \<Rightarrow> v) in
      bindR (if is_int_rid rid
             then (case cast_int 0 4294967295 (f32_val val) of
                     None \<Rightarrow> Inl BadCast | Some iv \<Rightarrow> Inr (word_of_int iv :: u32))
             else Inr val)
        (\<lambda>v. Inr (8 # set_can_id (ucast (s_masterId m)) @ [d ! 0, d ! 1, 0x33, rid] @ le_bytes32 v)))"

definition handleWriteParam :: "MotorState \<Rightarrow> bytes \<Rightarrow> fault + MotorState \<times> bytes" where
  "handleWriteParam m d =
     (let rid = d ! 3; raw = le_word32 (take 4 (drop 4 d));
          val = (if is_int_rid rid then f32_of_nat (unat raw) else raw);
          m' = m\<lparr>parameters := (parameters m)(rid \<mapsto> val)\<rparr>
      in bindR (handleQueryParam m' d) (\<lambda>r. Inr (m', r)))"

definition clamp_u8 :: "int \<Rightarrow> u8" where
  "clamp_u8 t = word_of_int (max 0 (min 255 t))"

text \<open>\<open>canId & 0xFF\<close> and \<open>status << 4\<close> are \<open>int\<close> values, their union is cut to a byte.\<close>

definition buildFeedbackFrame :: "(real \<Rightarrow> real) \<Rightarrow> MotorState \<Rightarrow> fault + bytes" where
  "buildFeedbackFrame rnd m =
     bindR (sim_double_to_uint rnd (s_position m) (sl_pMax (limits m)) 16) (\<lambda>pos_u.
     bindR (sim_double_to_uint rnd (s_velocity m) (sl_vMax (limits m)) 12) (\<lambda>vel_u.
     bindR (sim_double_to_uint rnd (s_torque m) (sl_tMax (limits m)) 12) (\<lambda>tau_u.
       Inr (8 # set_can_id (ucast (s_masterId m)) @
         [ucast (s_canId m) OR push_bit 4 (status_code (s_status m)),
          ucast (drop_bit 8 pos_u AND 0xFF), ucast (pos_u AND 0xFF),
          ucast (drop_bit 4 vel_u AND 0xFF),
          ucast (push_bit 4 (vel_u AND 0xF) OR (drop_bit 8 tau_u AND 0xF)),
          ucast (tau_u AND 0xFF),
          clamp_u8 (mosFetTemp m), clamp_u8 (rotorTemp m)]))))"

definition sendFeedback :: "(real \<Rightarrow> real) \<Rightarrow> MotorState \<Rightarrow> Sim \<Rightarrow> fault + Sim" where
  "sendFeedback rnd m s =
     bindR (buildFeedbackFrame rnd m) (\<lambda>f. Inr (s\<lparr>responses := responses s @ [f]\<rparr>))"

definition put_state :: "u16 \<Rightarrow> MotorState \<Rightarrow> Sim \<Rightarrow> Sim" where
  "put_state k m s = s\<lparr>motors_ids := map (\<lambda>(j, u). (j, if j = k then m else u)) (motors_ids s)\<rparr>"

text \<open>What a control command does to the motor it addresses, before the feedback is sent.\<close>

definition control_effect :: "(real \<Rightarrow> real) \<Rightarrow> CommandType \<Rightarrow> MotorState \<Rightarrow> bytes \<Rightarrow> fault + MotorState" where
  "control_effect rnd ct m d =
     (case ct of
        ENABLE \<Rightarrow> Inr (m\<lparr>s_status := ENABLED\<rparr>)
      | DISABLE \<Rightarrow> Inr (m\<lparr>s_status := DISABLED, targetPos := Fin 0, targetVel := Fin 0, targetTorque := Fin 0\<rparr>)
      | SAVE_ZERO \<Rightarrow> Inr (m\<lparr>s_position := Fin 0, zeroSaved := True\<rparr>)
      | CLEAR_ERROR \<Rightarrow> Inr (m\<lparr>s_status := DISABLED\<rparr>)
      | MIT_CONTROL \<Rightarrow> handleMitControl rnd m d
      | POSVEL_CONTROL \<Rightarrow> handlePosVelControl rnd m d
      | VELOCITY_CONTROL \<Rightarrow> handleVelocityControl rnd m d
      | POSFORCE_CONTROL \<Rightarrow> handlePosForceControl rnd m d
      | _ \<Rightarrow> Inr m)"

definition handleCommand :: "(real \<Rightarrow> real) \<Rightarrow> bytes \<Rightarrow> nat \<Rightarrow> Sim \<Rightarrow> fault + Sim" where
  "handleCommand rnd msg len s =
     (let parsed = identifyCommand s msg len; d = drop 5 msg in
      case pc_motor parsed of
        None \<Rightarrow> Inr s
      | Some k \<Rightarrow>
          (case map_of (motors_ids s) k of
             None \<Rightarrow> Inl NullDeref
           | Some m \<Rightarrow>
               if pc_type parsed = UNKNOWN then Inr s
               else if pc_type parsed = QUERY_PARAM then
                 bindR (handleQueryParam m d) (\<lambda>r. Inr (s\<lparr>responses := responses s @ [r]\<rparr>))
               else if pc_type parsed = WRITE_PARAM then
                 bindR (handleWriteParam m d) (\<lambda>(m', r).
                   Inr ((put_state k m' s)\<lparr>responses := responses s @ [r]\<rparr>))
               else bindR (control_effect rnd (pc_type parsed) m d) (\<lambda>m'.
                   sendFeedback rnd m' (put_state k m' s))))"

section \<open>The receive loop\<close>

datatype sim_event = SimEpollError | SimRecvError | SimDatagram bytes

definition sim_recv :: "bytes \<Rightarrow> bytes" where
  "sim_recv bs = take CAN_FRAME_SIZE bs @ replicate (CAN_FRAME_SIZE - length bs) 0"

fun runMotorMode :: "(real \<Rightarrow> real) \<Rightarrow> sim_event list \<Rightarrow> Sim \<Rightarrow> fault + Sim" where
  "runMotorMode rnd [] s = Inr s"
| "runMotorMode rnd (SimEpollError # es) s = Inr s"
| "runMotorMode rnd (SimRecvError # es) s = runMotorMode rnd es s"
| "runMotorMode rnd (SimDatagram bs # es) s =
     (if bs = [] then Inr s
      else bindR (handleCommand rnd (sim_recv bs) (min CAN_FRAME_SIZE (length bs)) s) (runMotorMode rnd es))"

section \<open>The helpers are those of the robot\<close>

lemma sim_double_to_uint_eq: "sim_double_to_uint rnd x bnd bits = to_code rnd x (Fin (- bnd)) (Fin bnd) bits"
  by (simp add: sim_double_to_uint_def to_code_def doubleToUint_def limitMinMax_def Let_def)

lemma sim_uint_to_double_eq: "sim_uint_to_double = uintToDouble"
  by (intro ext) (simp add: sim_uint_to_double_def uintToDouble_def Let_def)

lemma clamp_eq: "clamp bnd x = limitMinMax x (Fin (- bnd)) (Fin bnd)"
  by (simp add: clamp_def limitMinMax_def)

lemma set_can_id_wire: "8 # set_can_id i @ d = wire i d"
  by (simp add: set_can_id_def wire_def le_bytes32_def)

lemma extract_can_id_wire: "extract_can_id (wire i d) = i"
proof -
  have "extract_can_id (wire i d) = le_word32 (le_bytes32 i)"
    by (simp add: extract_can_id_def wire_def le_bytes32_def le_word32_def or.commute or.left_commute)
  then show ?thesis by simp
qed

lemma sim_recv_wire: "length d = 8 \<Longrightarrow> sim_recv (wire i d) = wire i d"
  by (simp add: sim_recv_def CAN_FRAME_SIZE_def)

lemma drop_wire [simp]: "drop 5 (wire i d) = d"
  by (simp add: wire_def)

section \<open>The state stays inside the limits\<close>

definition inside :: "double \<Rightarrow> real \<Rightarrow> bool" where
  "inside x b \<longleftrightarrow> (case x of Fin r \<Rightarrow> \<bar>r\<bar> \<le> b | _ \<Rightarrow> False)"

definition state_ok :: "u16 \<Rightarrow> MotorState \<Rightarrow> bool" where
  "state_ok k m \<longleftrightarrow> s_canId m = k \<and> s_masterId m = k + 0x10 \<and> limits m = DEFAULT_LIMITS \<and>
     inside (s_position m) 12.5 \<and> inside (s_velocity m) 45 \<and> inside (s_torque m) 18 \<and>
     mosFetTemp m \<in> {35..71} \<and> rotorTemp m \<in> {40..67}"

definition sim_inv :: "Sim \<Rightarrow> bool" where
  "sim_inv s \<longleftrightarrow> distinct (map fst (motors_ids s)) \<and> (\<forall>(k, m) \<in> set (motors_ids s). state_ok k m)"

lemma inside_clamp: "0 \<le> b \<Longrightarrow> inside (clamp b x) b"
  unfolding clamp_eq by (rule limitMinMax_finite [of "- b" b x]) (auto simp: inside_def abs_le_iff)

lemma inside_Fin: "inside x b \<Longrightarrow> \<exists>r. x = Fin r \<and> \<bar>r\<bar> \<le> b"
  by (cases x) (auto simp: inside_def)

lemma temp_range:
  assumes "inside t 18" "f = 2 \<or> f = 1.5"
  shows "\<exists>v. to_int (dmul rnd64 (dabs t) (Fin f)) = Inr v \<and> 0 \<le> v \<and> v \<le> (if f = 2 then 36 else 27)"
proof -
  obtain r where r: "t = Fin r" "\<bar>r\<bar> \<le> 18" using inside_Fin [OF assms(1)] by auto
  let ?n = "if f = 2 then 36 else 27 :: int"
  have "\<bar>r\<bar> * f \<le> real_of_int ?n" using assms(2)
  proof
    assume "f = 1.5"
    then show ?thesis using r(2) unfolding \<open>f = 1.5\<close> by simp
  qed (use r(2) in simp)
  then have up: "rnd64 (\<bar>r\<bar> * f) \<le> real_of_int ?n" by (rule binary64.rnd_le_int) simp
  have lo: "0 \<le> rnd64 (\<bar>r\<bar> * f)" using assms(2) by (intro binary64.rnd_nonneg) auto
  note b = trunc_real_bounds [OF lo up]
  then have "cast_int (- 2147483648) 2147483647 (Fin (rnd64 (\<bar>r\<bar> * f))) = Some (trunc_real (rnd64 (\<bar>r\<bar> * f)))"
    by (auto simp: cast_int_def Let_def split: if_splits)
  then show ?thesis using b by (simp add: r to_int_def dabs_def)
qed

text \<open>The part of a motor's state the handlers never touch.\<close>

definition frame_ok :: "u16 \<Rightarrow> MotorState \<Rightarrow> bool" where
  "frame_ok k m \<longleftrightarrow> s_canId m = k \<and> s_masterId m = k + 0x10 \<and> limits m = DEFAULT_LIMITS"

lemma updatePhysics_ok:
  assumes "frame_ok k m"
  shows "\<exists>m'. updatePhysics rnd64 m = Inr m' \<and> state_ok k m' \<and> s_status m' = s_status m \<and>
    targetPos m' = targetPos m \<and> targetVel m' = targetVel m \<and> targetTorque m' = targetTorque m \<and>
    s_kp m' = s_kp m \<and> s_kd m' = s_kd m"
proof -
  define t where "t = clamp 18 (lag rnd64 (s_torque m) (targetTorque m))"
  have "inside t 18" unfolding t_def by (rule inside_clamp) simp
  then obtain a b where "to_int (dmul rnd64 (dabs t) (Fin 2)) = Inr a" "0 \<le> a" "a \<le> 36"
    "to_int (dmul rnd64 (dabs t) (Fin 1.5)) = Inr b" "0 \<le> b" "b \<le> 27"
    using temp_range [of t 2] temp_range [of t "1.5"] by auto
  with \<open>inside t 18\<close> assms show ?thesis
    by (simp add: updatePhysics_def frame_ok_def DEFAULT_LIMITS_def state_ok_def inside_clamp
        t_def [symmetric])
qed

lemma state_frame: "state_ok k m \<Longrightarrow> frame_ok k m"
  by (simp add: state_ok_def frame_ok_def)

lemma control_effect_ok:
  assumes "state_ok k m"
  shows "\<exists>m'. control_effect rnd64 ct m d = Inr m' \<and> state_ok k m'"
proof -
  have up: "\<exists>m'. updatePhysics rnd64 m2 = Inr m' \<and> state_ok k m'" if "frame_ok k m2" for m2
    using updatePhysics_ok [OF that] by blast
  note fr = state_frame [OF assms]
  have "\<exists>m'. handleMitControl rnd64 m d = Inr m' \<and> state_ok k m'"
    using fr assms up unfolding handleMitControl_def Let_def by (simp add: frame_ok_def)
  moreover have "\<exists>m'. handlePosVelControl rnd64 m d = Inr m' \<and> state_ok k m'"
    using fr assms up unfolding handlePosVelControl_def by (simp add: frame_ok_def)
  moreover have "\<exists>m'. handleVelocityControl rnd64 m d = Inr m' \<and> state_ok k m'"
    using fr assms up unfolding handleVelocityControl_def by (simp add: frame_ok_def)
  moreover have "\<exists>m'. handlePosForceControl rnd64 m d = Inr m' \<and> state_ok k m'"
    using fr assms up unfolding handlePosForceControl_def Let_def by (simp add: frame_ok_def)
  ultimately show ?thesis
    using assms by (cases ct) (simp_all add: control_effect_def state_ok_def inside_def)
qed

lemma inside_code:
  assumes "1 \<le> b" "bits \<le> 16"
  obtains c where "sim_double_to_uint rnd64 x b bits = Inr c" "unat c < 2 ^ bits"
    "doubleToUint rnd64 x (Fin (- b)) (Fin b) bits = Some c"
  unfolding sim_double_to_uint_eq by (rule to_code_ok [of "- b" b bits x]) (use assms that in auto)

text \<open>The data part of a feedback frame.\<close>

definition feedback_data :: "MotorState \<Rightarrow> u16 \<Rightarrow> u16 \<Rightarrow> u16 \<Rightarrow> bytes" where
  "feedback_data m pos_u vel_u tau_u =
     [ucast (s_canId m) OR push_bit 4 (status_code (s_status m)),
      ucast (drop_bit 8 pos_u AND 0xFF), ucast (pos_u AND 0xFF),
      ucast (drop_bit 4 vel_u AND 0xFF),
      ucast (push_bit 4 (vel_u AND 0xF) OR (drop_bit 8 tau_u AND 0xF)),
      ucast (tau_u AND 0xFF), clamp_u8 (mosFetTemp m), clamp_u8 (rotorTemp m)]"

lemma length_feedback_data [simp]: "length (feedback_data m a b c) = 8"
  by (simp add: feedback_data_def)

lemma buildFeedbackFrame_ok:
  assumes "state_ok k m"
  obtains p v t where
    "buildFeedbackFrame rnd64 m = Inr (wire (ucast (k + 0x10)) (feedback_data m p v t))"
    "doubleToUint rnd64 (s_position m) (Fin (- (25 / 2))) (Fin (25 / 2)) 16 = Some p"
    "doubleToUint rnd64 (s_velocity m) (Fin (- 45)) (Fin 45) 12 = Some v" "unat v < 2 ^ 12"
    "doubleToUint rnd64 (s_torque m) (Fin (- 18)) (Fin 18) 12 = Some t" "unat t < 2 ^ 12"
proof -
  obtain p where p: "sim_double_to_uint rnd64 (s_position m) (25 / 2) 16 = Inr p"
    "doubleToUint rnd64 (s_position m) (Fin (- (25 / 2))) (Fin (25 / 2)) 16 = Some p"
    by (rule inside_code [of "25 / 2" 16 "s_position m"]) auto
  obtain v where v: "sim_double_to_uint rnd64 (s_velocity m) 45 12 = Inr v" "unat v < 2 ^ 12"
    "doubleToUint rnd64 (s_velocity m) (Fin (- 45)) (Fin 45) 12 = Some v"
    by (rule inside_code [of 45 12 "s_velocity m"]) auto
  obtain t where t: "sim_double_to_uint rnd64 (s_torque m) 18 12 = Inr t" "unat t < 2 ^ 12"
    "doubleToUint rnd64 (s_torque m) (Fin (- 18)) (Fin 18) 12 = Some t"
    by (rule inside_code [of 18 12 "s_torque m"]) auto
  have "limits m = DEFAULT_LIMITS" "s_masterId m = k + 0x10" using assms by (simp_all add: state_ok_def)
  then have "buildFeedbackFrame rnd64 m = Inr (wire (ucast (k + 0x10)) (feedback_data m p v t))"
    by (simp add: buildFeedbackFrame_def DEFAULT_LIMITS_def p(1) v(1) t(1) feedback_data_def
        set_can_id_wire)
  from that [OF this p(2) v(3,2) t(3,2)] show thesis .
qed

lemma put_state_inv:
  assumes "sim_inv s" "state_ok k m"
  shows "sim_inv (put_state k m s)"
  using assms by (auto simp: sim_inv_def put_state_def case_prod_beta comp_def)

lemma responses_inv [simp]: "sim_inv (s\<lparr>responses := r\<rparr>) = sim_inv s"
  by (simp add: sim_inv_def)

lemma sim_inv_lookup: "sim_inv s \<Longrightarrow> map_of (motors_ids s) k = Some m \<Longrightarrow> state_ok k m"
  by (auto simp: sim_inv_def dest: map_of_SomeD)

lemma found_in_map:
  assumes "findMotorByCanId s i = Some k"
  shows "map_of (motors_ids s) k \<noteq> None"
proof (cases "map_of (motors_ids s) (ucast i) \<noteq> None")
  case True
  then show ?thesis using assms by (simp add: findMotorByCanId_def)
next
  case False
  with assms obtain x where "find (\<lambda>(b, m). i = ucast b + 0x100 \<or> i = ucast b + 0x200 \<or>
      i = ucast b + 0x300) (motors_ids s) = Some x" "fst x = k"
    by (auto simp: findMotorByCanId_def)
  then have "x \<in> set (motors_ids s)" unfolding find_Some_iff by (metis nth_mem)
  then show ?thesis using \<open>fst x = k\<close> by (metis map_of_eq_None_iff image_eqI)
qed

lemma identified_in_map:
  assumes "pc_motor (identifyCommand s msg len) = Some k"
  shows "map_of (motors_ids s) k \<noteq> None"
  using assms found_in_map
  by (fastforce simp: identifyCommand_def findMotorByParamData_def Let_def split: if_splits option.splits)

definition is_param_cmd :: "CommandType \<Rightarrow> bool" where
  "is_param_cmd t \<longleftrightarrow> t = QUERY_PARAM \<or> t = WRITE_PARAM"

lemma handleCommand_inv:
  assumes "sim_inv s" "handleCommand rnd64 msg len s = Inr s'"
  shows "sim_inv s'"
proof (cases "pc_motor (identifyCommand s msg len)")
  case None
  then show ?thesis using assms by (simp add: handleCommand_def Let_def)
next
  case (Some k)
  then obtain m where m: "map_of (motors_ids s) k = Some m" using identified_in_map by fastforce
  have ok: "state_ok k m" by (rule sim_inv_lookup [OF assms(1) m])
  have w: "state_ok k m'" if "handleWriteParam m d = Inr (m', r)" for m' r d
    using that ok by (auto simp: handleWriteParam_def Let_def bindR_Inr_iff state_ok_def)
  have c: "state_ok k m'" if "control_effect rnd64 ct m d = Inr m'" for ct d m'
    using that control_effect_ok [OF ok, of ct d] by simp
  show ?thesis
    using assms Some m put_state_inv [OF assms(1) w] put_state_inv [OF assms(1) c]
    by (auto simp: handleCommand_def Let_def bindR_Inr_iff sendFeedback_def split: if_splits)
qed

lemma control_command:
  assumes inv: "sim_inv s" and pm: "pc_motor (identifyCommand s msg len) = Some k"
    and ty: "pc_type (identifyCommand s msg len) = ct" "ct \<noteq> UNKNOWN" "\<not> is_param_cmd ct"
    and m: "map_of (motors_ids s) k = Some m"
  obtains m' p v t where "control_effect rnd64 ct m (drop 5 msg) = Inr m'" "state_ok k m'"
    "handleCommand rnd64 msg len s = Inr ((put_state k m' s)
       \<lparr>responses := responses s @ [wire (ucast (k + 0x10)) (feedback_data m' p v t)]\<rparr>)"
    "doubleToUint rnd64 (s_position m') (Fin (- (25 / 2))) (Fin (25 / 2)) 16 = Some p"
    "doubleToUint rnd64 (s_velocity m') (Fin (- 45)) (Fin 45) 12 = Some v" "unat v < 2 ^ 12"
    "doubleToUint rnd64 (s_torque m') (Fin (- 18)) (Fin 18) 12 = Some t" "unat t < 2 ^ 12"
proof -
  obtain m' where m': "control_effect rnd64 ct m (drop 5 msg) = Inr m'" "state_ok k m'"
    using control_effect_ok [OF sim_inv_lookup [OF inv m]] by blast
  obtain p v t where f: "buildFeedbackFrame rnd64 m' = Inr (wire (ucast (k + 0x10)) (feedback_data m' p v t))"
    and codes: "doubleToUint rnd64 (s_position m') (Fin (- (25 / 2))) (Fin (25 / 2)) 16 = Some p"
    "doubleToUint rnd64 (s_velocity m') (Fin (- 45)) (Fin 45) 12 = Some v" "unat v < 2 ^ 12"
    "doubleToUint rnd64 (s_torque m') (Fin (- 18)) (Fin 18) 12 = Some t" "unat t < 2 ^ 12"
    by (rule buildFeedbackFrame_ok [OF m'(2)])
  have "handleCommand rnd64 msg len s = Inr ((put_state k m' s)
       \<lparr>responses := responses s @ [wire (ucast (k + 0x10)) (feedback_data m' p v t)]\<rparr>)"
    using ty pm m m'(1) f
    by (simp add: handleCommand_def is_param_cmd_def Let_def sendFeedback_def put_state_def)
  from that [OF m' this codes] show thesis .
qed

section \<open>Commands and feedback lose at most one quantum\<close>

lemma mit_decoded:
  assumes "unat cdq < 2 ^ 12" "unat ckp < 2 ^ 12" "unat ckd < 2 ^ 12" "unat ctau < 2 ^ 12"
    and "s_status m = ENABLED" "frame_ok k m"
  shows "\<exists>m'. handleMitControl rnd64 m (mit_pack cq cdq ckp ckd ctau) = Inr m' \<and> state_ok k m' \<and>
    targetPos m' = uintToDouble rnd64 cq (Fin (- (25 / 2))) (Fin (25 / 2)) 16 \<and>
    targetVel m' = uintToDouble rnd64 cdq (Fin (- 45)) (Fin 45) 12 \<and>
    s_kp m' = uintToDouble rnd64 ckp (Fin 0) (Fin 500) 12 \<and>
    s_kd m' = uintToDouble rnd64 ckd (Fin 0) (Fin 5) 12 \<and>
    targetTorque m' = uintToDouble rnd64 ctau (Fin (- 18)) (Fin 18) 12"
proof -
  let ?m = "m\<lparr>targetPos := uintToDouble rnd64 cq (Fin (- (25 / 2))) (Fin (25 / 2)) 16,
    targetVel := uintToDouble rnd64 cdq (Fin (- 45)) (Fin 45) 12,
    s_kp := uintToDouble rnd64 ckp (Fin 0) (Fin 500) 12,
    s_kd := uintToDouble rnd64 ckd (Fin 0) (Fin 5) 12,
    targetTorque := uintToDouble rnd64 ctau (Fin (- 18)) (Fin 18) 12\<rparr>"
  have fr: "frame_ok k ?m" using assms(6) by (simp add: frame_ok_def)
  have "handleMitControl rnd64 m (mit_pack cq cdq ckp ckd ctau) = updatePhysics rnd64 ?m"
    using assms(5,6) pack16 [of cq] pack12_high [OF assms(1), of ckp] pack12_low [OF assms(2), of cdq]
      pack12_high [OF assms(3), of ctau] pack12_low [OF assms(4), of ckd]
    by (simp add: handleMitControl_def mit_pack_def frame_ok_def DEFAULT_LIMITS_def
        sim_uint_to_double_eq Let_def)
  then show ?thesis using updatePhysics_ok [OF fr] by auto
qed

lemma feedback_decoded:
  assumes "unat v < 2 ^ 12" "unat t < 2 ^ 12"
  shows "q_code (feedback_data m p v t) = p" "dq_code (feedback_data m p v t) = v"
    "tau_code (feedback_data m p v t) = t"
proof -
  have v: "ucast (drop_bit 4 v AND 0xFF) = (ucast (drop_bit 4 v) :: u8)"
    unfolding and_take_bit by (rule bit_word_eqI) (auto simp: bit_simps)
  show "q_code (feedback_data m p v t) = p"
    using pack16 [of p] by (simp add: q_code_def feedback_data_def)
  show "dq_code (feedback_data m p v t) = v"
    using pack12_high [OF assms(1), of t] by (simp add: dq_code_def feedback_data_def v)
  show "tau_code (feedback_data m p v t) = t"
    using pack12_low [OF assms(2), of v] by (simp add: tau_code_def feedback_data_def)
qed

section \<open>Construction\<close>

lemma set_map_put: "set (map_put k v xs) \<subseteq> insert (k, v) (set xs)"
  by (induction k v xs rule: map_put.induct) auto

lemma keys_map_put: "fst ` set (map_put k v xs) = insert k (fst ` set xs)"
  by (induction k v xs rule: map_put.induct) auto

lemma sorted_map_put:
  "sorted_wrt (<) (map fst xs) \<Longrightarrow> sorted_wrt (<) (map fst (map_put k v xs))"
proof (induction k v xs rule: map_put.induct)
  case (2 k v j u xs)
  consider "k = j" | "k < j" | "j < k" by fastforce
  then show ?case
  proof cases
    case 3
    then have "\<forall>x \<in> fst ` set (map_put k v xs). j < x" using 2(2) by (auto simp: keys_map_put)
    then show ?thesis using 2 3 by auto
  qed (use 2(2) in \<open>auto intro: less_trans\<close>)
qed simp

lemma sim_add_inv:
  assumes "sim_inv s" "sorted_wrt (<) (map fst (motors_ids s))"
  shows "sim_inv (sim_add i s) \<and> sorted_wrt (<) (map fst (motors_ids (sim_add i s)))"
proof -
  let ?m = "initDefaults (MotorState_init\<lparr>s_canId := i, s_masterId := i + 0x10\<rparr>)"
  have "state_ok i ?m" by (simp add: state_ok_def initDefaults_def MotorState_init_def inside_def)
  then have "\<forall>(k, m) \<in> set (map_put i ?m (motors_ids s)). state_ok k m"
    using set_map_put [of i ?m "motors_ids s"] assms(1) unfolding sim_inv_def by blast
  moreover have srt: "sorted_wrt (<) (map fst (map_put i ?m (motors_ids s)))"
    by (rule sorted_map_put [OF assms(2)])
  moreover have "distinct (map fst (map_put i ?m (motors_ids s)))"
    using srt strict_sorted_iff by blast
  ultimately show ?thesis by (simp add: sim_inv_def sim_add_def)
qed

lemma DamiaoMultiSimulator_inv:
  assumes "DamiaoMultiSimulator ids = Inr s"
  shows "sim_inv s"
proof -
  have "sim_inv (fold sim_add xs t) \<and> sorted_wrt (<) (map fst (motors_ids (fold sim_add xs t)))"
    if "sim_inv t \<and> sorted_wrt (<) (map fst (motors_ids t))" for xs t
    using that by (induction xs arbitrary: t) (simp_all add: sim_add_inv)
  from this [of "\<lparr>motors_ids = [], responses = []\<rparr>" ids] assms show ?thesis
    by (auto simp: DamiaoMultiSimulator_def sim_inv_def split: if_splits)
qed

end
