(* ===== verification/ActuatorLoop.thy ===== *)
theory ActuatorLoop
  imports DamiaoSimulator
begin

text \<open>
  The robot side and the actuator side joined: what \<open>Motor\<close> puts on the wire is what the
  simulated actuator decodes, and what the actuator answers is what \<open>Motor\<close> reads back.
\<close>

definition close_to :: "double \<Rightarrow> double \<Rightarrow> real \<Rightarrow> bool" where
  "close_to x y e \<longleftrightarrow> (case (x, y) of (Fin a, Fin b) \<Rightarrow> \<bar>a - b\<bar> \<le> e | _ \<Rightarrow> False)"

text \<open>One quantum of a \<open>bits\<close>-bit code over a span, plus the rounding error.\<close>

definition quantum :: "real \<Rightarrow> nat \<Rightarrow> real" where
  "quantum width bits = width * (1 / (2 ^ bits - 1) + 1 / 2 ^ 48)"

lemma code_roundtrip:
  assumes "doubleToUint rnd64 x (Fin lo) (Fin hi) bits = Some c" "lo + 1 \<le> hi" "\<bar>lo\<bar> \<le> hi - lo"
    "1 \<le> bits" "bits \<le> 16"
  shows "close_to (uintToDouble rnd64 c (Fin lo) (Fin hi) bits) (limitMinMax x (Fin lo) (Fin hi))
    (quantum (hi - lo) bits)"
proof -
  obtain r where r: "limitMinMax x (Fin lo) (Fin hi) = Fin r" "lo \<le> r" "r \<le> hi"
    by (rule limitMinMax_finite [of lo hi x]) (use assms(2) in auto)
  have "0 < rnd64 (hi - lo)" by (rule rnd64_span_pos) (use assms(2) in simp)
  from binary64_err.quantisation_error [OF _ assms(3-5) this r assms(1)] assms(2)
  show ?thesis by (auto simp: close_to_def quantum_def r(1))
qed

lemma kp_below_max:
  assumes "x \<le> 499" "doubleToUint rnd64 (Fin x) (Fin 0) (Fin 500) 12 = Some c"
  shows "c \<noteq> 0xFFF"
proof -
  define r where "r = max 0 (min x 500)"
  have r: "limitMinMax (Fin x) (Fin 0) (Fin 500) = Fin r" "0 \<le> r" "r \<le> 500" "r \<le> 499"
    using assms(1) by (simp_all add: r_def)
  have pos: "0 < rnd64 (500 - 0)" by (rule rnd64_span_pos) simp
  note d = binary64.doubleToUint_code [OF r(1-3) pos, of 12]
  have "\<bar>code_real rnd64 0 500 12 r - (r - 0) / (500 - 0) * 4095\<bar> \<le> 6 / 2 ^ 53 * 4095"
    by (rule binary64_err.code_real_err [OF _ r(2,3)]) simp_all
  then have "code_real rnd64 0 500 12 r - (r - 0) / (500 - 0) * 4095 \<le> 6 / 2 ^ 53 * 4095"
    by (rule abs_le_D1)
  then have "code_real rnd64 0 500 12 r < 4095" using r(4) by simp
  moreover have "0 \<le> code_real rnd64 0 500 12 r"
    using binary64.code_real_range(1) [OF r(2,3) pos, of 12] by simp
  ultimately have "trunc_real (code_real rnd64 0 500 12 r) < 4095"
    by (simp add: trunc_real_def floor_less_iff)
  then have "unat c < 4095" using d assms(2) by simp
  then show ?thesis by auto
qed

text \<open>
  A MIT command can be mistaken for one of the four control commands only when the stiffness
  is at its maximum.
\<close>

lemma mit_not_control:
  assumes "unat ckp < 2 ^ 12" "ckp \<noteq> 0xFFF"
  shows "take 7 (mit_pack cq cdq ckp ckd ctau) \<noteq> replicate 7 0xFF"
proof
  let ?d = "mit_pack cq cdq ckp ckd ctau"
  assume "take 7 ?d = replicate 7 0xFF"
  then have "take 7 ?d ! 3 = 0xFF" "take 7 ?d ! 4 = 0xFF" by (simp_all add: nth_replicate)
  then have "?d ! 3 = 0xFF" "?d ! 4 = 0xFF" by simp_all
  moreover have "push_bit 8 (ucast (?d ! 3 AND 0xF)) OR ucast (?d ! 4) = ckp"
    using pack12_low [OF assms(1), of cdq] by (simp add: mit_pack_def)
  ultimately show False using assms(2) by simp
qed

section \<open>Addressing\<close>

lemma dev_words:
  assumes "1 \<le> uint (i::u32)" "uint i \<le> 12"
  shows "i \<noteq> 0x7FF" "ucast (ucast i :: u16) = i" "ucast ((ucast i :: u16) + 0x10) = (word_of_int (uint i + 0x10) :: u32)"
proof -
  show "i \<noteq> 0x7FF" using assms by auto
  have t: "take_bit 16 (uint i) = uint i" using assms by (intro take_bit_int_eq_self) auto
  then have u: "uint (ucast i :: u16) = uint i" by (simp add: unsigned_ucast_eq)
  then have "(ucast (ucast i :: u16) :: u32) = word_of_int (uint i)" by (metis ucast_eq)
  then show "ucast (ucast i :: u16) = i" by simp
  have "uint ((ucast i :: u16) + 0x10) = uint i + 0x10"
    using assms u by (simp add: uint_word_ariths)
  then show "ucast ((ucast i :: u16) + 0x10) = (word_of_int (uint i + 0x10) :: u32)"
    by (metis ucast_eq)
qed

lemma identify_mit:
  assumes "1 \<le> uint i" "uint i \<le> 12" "length d = 8" "take 7 d \<noteq> replicate 7 0xFF"
    and "sim_inv s" "map_of (motors_ids s) (ucast i) = Some m"
  shows "identifyCommand s (wire i d) 13 =
    \<lparr>pc_type = MIT_CONTROL, pc_motor = Some (ucast i), pc_canId = i\<rparr>"
proof -
  have "s_canId m = ucast i" using sim_inv_lookup [OF assms(5,6)] by (simp add: state_ok_def)
  then show ?thesis
    using assms dev_words [OF assms(1,2)]
    by (simp add: identifyCommand_def CAN_FRAME_SIZE_def extract_can_id_wire findMotorByCanId_def Let_def)
qed

lemma identify_control:
  assumes "1 \<le> uint i" "uint i \<le> 12" "d = replicate 7 0xFF @ [b]"
    and "map_of (motors_ids s) (ucast i) = Some m"
  shows "identifyCommand s (wire i d) 13 =
    \<lparr>pc_type = control_type b, pc_motor = Some (ucast i), pc_canId = i\<rparr>"
  using assms(4)
  by (simp add: assms(3) identifyCommand_def CAN_FRAME_SIZE_def extract_can_id_wire findMotorByCanId_def Let_def
      nth_append)

lemma lookup_put_state [simp]:
  "map_of (motors_ids (put_state k m s)) j =
     (if j = k then map_option (\<lambda>_. m) (map_of (motors_ids s) j) else map_of (motors_ids s) j)"
proof -
  have "map_of (map (\<lambda>(j, u). (j, if j = k then m else u)) l) j =
      (if j = k then map_option (\<lambda>_. m) (map_of l j) else map_of l j)" for l :: "(u16 \<times> MotorState) list"
    by (induction l) auto
  then show ?thesis by (simp add: put_state_def)
qed

section \<open>Reading feedback\<close>

lemma feedback_frame:
  assumes w: "wired w n" and ty: "m_motorType (motors w ! n) = DM8009"
    and k: "k = (ucast (m_deviceId (motors w ! n)) :: u16)"
    and pend: "m_frameIds (getInstance (leg_server (maxCanDevice w) (dev_of (motors w ! n))) w)
                 (dev_of (motors w ! n) + 0x10) = None"
    and codes: "doubleToUint rnd64 (s_position m) (Fin (- (25 / 2))) (Fin (25 / 2)) 16 = Some p"
      "doubleToUint rnd64 (s_velocity m) (Fin (- 45)) (Fin 45) 12 = Some v" "unat v < 2 ^ 12" "unat t < 2 ^ 12"
    and low: "ucast p \<noteq> (0x33 :: u8)" "ucast p \<noteq> (0x55 :: u8)"
  obtains w' where
    "dispatchMessage (callback rnd64 now) (leg_server (maxCanDevice w) (dev_of (motors w ! n)))
       (recv_frame (wire (ucast (k + 0x10)) (feedback_data m p v t))) w = Inr w'"
    "close_to (m_stateQ (motors w' ! n)) (limitMinMax (s_position m) (Fin (- (25 / 2))) (Fin (25 / 2))) (quantum 25 16)"
    "close_to (m_stateDq (motors w' ! n)) (limitMinMax (s_velocity m) (Fin (- 45)) (Fin 45)) (quantum 90 12)"
    "m_lastUpdateTime (motors w' ! n) = now"
    "\<And>j. j \<noteq> n \<Longrightarrow> motors w' ! j = motors w ! j"
proof -
  let ?m = "motors w ! n" and ?d = "feedback_data m p v t"
  have n: "n < length (motors w)" and dev: "1 \<le> uint (m_deviceId ?m)" "uint (m_deviceId ?m) \<le> 12"
    using w by (auto simp: wired_def Let_def dev_of_def)
  let ?f = "recv_frame (wire (ucast (k + 0x10)) ?d)"
  have f: "bswap32 (FrameId ?f) = word_of_int (dev_of ?m + 0x10)" "fr_data ?f = ?d"
    using dev_words(3) [OF dev] by (simp_all add: recv_wire k dev_of_def)
  have "ucast (p AND 0xFF) = (ucast p :: u8)"
    unfolding and_take_bit by (rule bit_word_eqI) (auto simp: bit_simps)
  then have "?d ! 2 \<noteq> 0x33" "?d ! 2 \<noteq> 0x55" using low by (simp_all add: feedback_data_def)
  note cb = callback_state [OF n length_feedback_data this, of rnd64 now]
  let ?w' = "put_motor n (updateState now (parseMotorStateData rnd64 (m_motorType ?m) ?d) ?m) w"
  have disp: "dispatchMessage (callback rnd64 now) (leg_server (maxCanDevice w) (dev_of ?m)) ?f w = Inr ?w'"
    using dispatch_to_motor [OF w refl f(1) pend, of "callback rnd64 now"] f(2) cb by simp
  have q: "m_stateQ (motors ?w' ! n) = uintToDouble rnd64 p (Fin (- (25 / 2))) (Fin (25 / 2)) 16"
    "m_stateDq (motors ?w' ! n) = uintToDouble rnd64 v (Fin (- 45)) (Fin 45) 12"
    "m_lastUpdateTime (motors ?w' ! n) = now"
    using n by (simp_all add: updateState_def parseMotorStateData_def ty MOTOR_LIMIT_PARAMS_def
        feedback_decoded [OF codes(3,4)])
  show thesis
    by (rule that [OF disp])
      (use code_roundtrip [OF codes(1)] code_roundtrip [OF codes(2)] q in simp_all)
qed

end
