(* ===== verification/SpscConcurrent.thy ===== *)
theory SpscConcurrent
  imports MercuryShm
begin

text \<open>
  The ring buffer of \<open>mercury_shm.h\<close> with its producer and its consumer running at the same
  time.  Every access to \<open>head_\<close>, \<open>tail_\<close> and the buffer is a step of its own; the steps of
  the two threads interleave freely.  The acquire/release pairs on \<open>head_\<close> and \<open>tail_\<close> order
  the buffer accesses, so the interleavings are those of a sequentially consistent memory.
  The ghost fields \<open>pushed\<close> and \<open>popped\<close> record the items whose push or pop has completed.
\<close>

datatype 'a producer_pc = PIdle | PHead 'a u64 | PTail 'a u64 u64 | PWritten 'a u64
datatype 'a consumer_pc = CIdle | CTail u64 | CHead u64 u64 | CRead 'a u64

record 'a spsc =
  ring :: "'a SPSCRingBuffer"
  ppc :: "'a producer_pc"
  cpc :: "'a consumer_pc"
  pushed :: "'a list"
  popped :: "'a list"

inductive spsc_step :: "u64 \<Rightarrow> 'a spsc \<Rightarrow> 'a spsc \<Rightarrow> bool" for cap where
  p_head: "ppc s = PIdle \<Longrightarrow> spsc_step cap s (s\<lparr>ppc := PHead x (r_head (ring s))\<rparr>)"
| p_tail: "ppc s = PHead x h \<Longrightarrow> spsc_step cap s (s\<lparr>ppc := PTail x h (r_tail (ring s))\<rparr>)"
| p_full: "ppc s = PTail x h t \<Longrightarrow> cap \<le> h - t \<Longrightarrow>
    spsc_step cap s (s\<lparr>ring := (ring s)\<lparr>ring_dropped := ring_dropped (ring s) + 1\<rparr>, ppc := PIdle\<rparr>)"
| p_write: "ppc s = PTail x h t \<Longrightarrow> \<not> cap \<le> h - t \<Longrightarrow>
    spsc_step cap s (s\<lparr>ring := (ring s)\<lparr>r_buffer := (r_buffer (ring s))[unat (h AND (cap - 1)) := x]\<rparr>,
      ppc := PWritten x h\<rparr>)"
| p_store: "ppc s = PWritten x h \<Longrightarrow>
    spsc_step cap s (s\<lparr>ring := (ring s)\<lparr>r_head := h + 1\<rparr>, ppc := PIdle, pushed := pushed s @ [x]\<rparr>)"
| c_tail: "cpc s = CIdle \<Longrightarrow> spsc_step cap s (s\<lparr>cpc := CTail (r_tail (ring s))\<rparr>)"
| c_head: "cpc s = CTail t \<Longrightarrow> spsc_step cap s (s\<lparr>cpc := CHead t (r_head (ring s))\<rparr>)"
| c_empty: "cpc s = CHead t h \<Longrightarrow> h \<le> t \<Longrightarrow> spsc_step cap s (s\<lparr>cpc := CIdle\<rparr>)"
| c_read: "cpc s = CHead t h \<Longrightarrow> \<not> h \<le> t \<Longrightarrow>
    spsc_step cap s (s\<lparr>cpc := CRead (r_buffer (ring s) ! unat (t AND (cap - 1))) t\<rparr>)"
| c_store: "cpc s = CRead x t \<Longrightarrow>
    spsc_step cap s (s\<lparr>ring := (ring s)\<lparr>r_tail := t + 1\<rparr>, cpc := CIdle, popped := popped s @ [x]\<rparr>)"

definition spsc_init :: "u64 \<Rightarrow> 'a \<Rightarrow> 'a spsc" where
  "spsc_init cap z = \<lparr>ring = ring_init cap z, ppc = PIdle, cpc = CIdle, pushed = [], popped = []\<rparr>"

definition spsc_reachable :: "u64 \<Rightarrow> 'a \<Rightarrow> 'a spsc \<Rightarrow> bool" where
  "spsc_reachable cap z = (spsc_step cap)\<^sup>*\<^sup>* (spsc_init cap z)"

inductive_cases spsc_stepE: "spsc_step cap s s'"

section \<open>Invariant\<close>

definition ring_state :: "nat \<Rightarrow> 'a spsc \<Rightarrow> bool" where
  "ring_state k s \<longleftrightarrow> ring_inv k (ring s) \<and>
     unat (r_head (ring s)) = length (pushed s) \<and> unat (r_tail (ring s)) = length (popped s) \<and>
     popped s @ ring_list k (ring s) = pushed s"

definition producer_ok :: "nat \<Rightarrow> 'a spsc \<Rightarrow> bool" where
  "producer_ok k s \<longleftrightarrow> (case ppc s of
      PIdle \<Rightarrow> True
    | PHead x h \<Rightarrow> h = r_head (ring s)
    | PTail x h t \<Rightarrow> h = r_head (ring s) \<and> t \<le> r_tail (ring s)
    | PWritten x h \<Rightarrow> h = r_head (ring s) \<and> length (ring_list k (ring s)) < 2 ^ k \<and>
        r_buffer (ring s) ! (unat h mod 2 ^ k) = x)"

definition consumer_ok :: "nat \<Rightarrow> 'a spsc \<Rightarrow> bool" where
  "consumer_ok k s \<longleftrightarrow> (case cpc s of
      CIdle \<Rightarrow> True
    | CTail t \<Rightarrow> t = r_tail (ring s)
    | CHead t h \<Rightarrow> t = r_tail (ring s) \<and> h \<le> r_head (ring s)
    | CRead x t \<Rightarrow> t = r_tail (ring s) \<and> (\<exists>xs. ring_list k (ring s) = x # xs))"

definition spsc_inv :: "nat \<Rightarrow> 'a spsc \<Rightarrow> bool" where
  "spsc_inv k s \<longleftrightarrow> ring_state k s \<and> producer_ok k s \<and> consumer_ok k s"

lemma spsc_init_inv: "k < 64 \<Longrightarrow> spsc_inv k (spsc_init (2 ^ k) z)"
  by (simp add: spsc_inv_def ring_state_def producer_ok_def consumer_ok_def spsc_init_def
      ring_init_inv) (simp add: ring_init_def)

lemma ring_list_write:
  assumes "ring_inv k r" "length (ring_list k r) < 2 ^ k" "h = r_head r"
  shows "ring_list k (r\<lparr>r_buffer := (r_buffer r)[unat h mod 2 ^ k := x]\<rparr>) = ring_list k r"
proof -
  have le: "unat (r_tail r) \<le> unat h" "unat h - unat (r_tail r) < 2 ^ k"
    using assms by (auto simp: ring_inv_def ring_list_def word_le_nat_alt)
  have "(r_buffer r)[unat h mod 2 ^ k := x] ! (i mod 2 ^ k) = r_buffer r ! (i mod 2 ^ k)"
    if "i \<in> set [unat (r_tail r)..<unat h]" for i
  proof -
    have "i mod 2 ^ k \<noteq> unat h mod 2 ^ k" using that le by (intro mod_window_neq) auto
    then show ?thesis by simp
  qed
  then show ?thesis using assms(3) by (simp add: ring_list_def)
qed

lemma ring_list_advance:
  assumes "ring_inv k r" "r_head r \<noteq> 0xFFFFFFFFFFFFFFFF" "length (ring_list k r) < 2 ^ k"
    "r_buffer r ! (unat (r_head r) mod 2 ^ k) = x"
  shows "ring_list k (r\<lparr>r_head := r_head r + 1\<rparr>) = ring_list k r @ [x]"
    and "ring_inv k (r\<lparr>r_head := r_head r + 1\<rparr>)"
proof -
  have suc: "unat (r_head r + 1) = Suc (unat (r_head r))" by (rule unat_succ_u64 [OF assms(2)])
  have le: "unat (r_tail r) \<le> unat (r_head r)" using assms(1) by (simp add: ring_inv_def word_le_nat_alt)
  show "ring_list k (r\<lparr>r_head := r_head r + 1\<rparr>) = ring_list k r @ [x]"
    using le assms(4) by (simp add: ring_list_def suc)
  show "ring_inv k (r\<lparr>r_head := r_head r + 1\<rparr>)"
    using assms(1,3) le by (auto simp: ring_inv_def ring_list_def suc word_le_nat_alt)
qed

text \<open>A stale tail only makes the ring look fuller than it is.\<close>

lemma not_full:
  assumes "ring_inv k r" "t \<le> r_tail r" "\<not> 2 ^ k \<le> r_head r - t"
  shows "length (ring_list k r) < 2 ^ k"
proof -
  have k: "k < 64" and le: "unat (r_tail r) \<le> unat (r_head r)"
    using assms(1) by (auto simp: ring_inv_def word_le_nat_alt)
  have "t \<le> r_head r" using assms(1,2) by (auto simp: ring_inv_def)
  then have "unat (r_head r) - unat t < 2 ^ k"
    using assms(3) k by (simp add: word_le_nat_alt unat_sub unat_pow2_u64)
  moreover have "unat t \<le> unat (r_tail r)" using assms(2) by (simp add: word_le_nat_alt)
  ultimately show ?thesis by (simp add: ring_list_def)
qed

lemma p_write_inv:
  assumes "spsc_inv k s" "ppc s = PTail x h t" "\<not> 2 ^ k \<le> h - t"
  shows "spsc_inv k (s\<lparr>ring := (ring s)\<lparr>r_buffer := (r_buffer (ring s))[unat (h AND (2 ^ k - 1)) := x]\<rparr>,
      ppc := PWritten x h\<rparr>)"
proof -
  let ?r = "ring s"
  have inv: "ring_inv k ?r" and h: "h = r_head ?r" and t: "t \<le> r_tail ?r"
    using assms(1,2) by (auto simp: spsc_inv_def ring_state_def producer_ok_def)
  have lt: "length (ring_list k ?r) < 2 ^ k"
    using not_full [OF inv t] assms(3) h by simp
  note same = ring_list_write [OF inv lt h, of x]
  have "ring_inv k (?r\<lparr>r_buffer := (r_buffer ?r)[unat h mod 2 ^ k := x]\<rparr>)"
    using inv by (simp add: ring_inv_def)
  moreover have "unat h mod 2 ^ k < length (r_buffer ?r)" using inv by (simp add: ring_inv_def)
  ultimately show ?thesis
    using assms(1) same lt h
    by (auto simp: spsc_inv_def ring_state_def producer_ok_def consumer_ok_def and_pow2_minus_1
        split: consumer_pc.splits)
qed

lemma p_store_inv:
  assumes "spsc_inv k s" "ppc s = PWritten x h" "length (pushed s) + 1 < 2 ^ 64"
  shows "spsc_inv k (s\<lparr>ring := (ring s)\<lparr>r_head := h + 1\<rparr>, ppc := PIdle, pushed := pushed s @ [x]\<rparr>)"
proof -
  let ?r = "ring s"
  have inv: "ring_inv k ?r" and h: "h = r_head ?r" and lt: "length (ring_list k ?r) < 2 ^ k"
    and b: "r_buffer ?r ! (unat (r_head ?r) mod 2 ^ k) = x" and len: "unat (r_head ?r) = length (pushed s)"
    using assms(1,2) by (auto simp: spsc_inv_def ring_state_def producer_ok_def)
  have nz: "r_head ?r \<noteq> 0xFFFFFFFFFFFFFFFF"
  proof
    assume "r_head ?r = 0xFFFFFFFFFFFFFFFF"
    then have "unat (r_head ?r) = 2 ^ 64 - 1" by simp
    then show False using len assms(3) by simp
  qed
  note adv = ring_list_advance [OF inv nz lt b]
  have le: "h \<le> h + 1" using unat_succ_u64 [OF nz] h by (simp add: word_le_nat_alt)
  show ?thesis
    using assms(1,2) adv h unat_succ_u64 [OF nz] len le
    by (auto simp: spsc_inv_def ring_state_def producer_ok_def consumer_ok_def
        split: consumer_pc.splits)
qed

lemma c_read_inv:
  assumes "spsc_inv k s" "cpc s = CHead t h" "\<not> h \<le> t"
  shows "spsc_inv k (s\<lparr>cpc := CRead (r_buffer (ring s) ! unat (t AND (2 ^ k - 1))) t\<rparr>)"
proof -
  let ?r = "ring s"
  have inv: "ring_inv k ?r" and t: "t = r_tail ?r" and h: "h \<le> r_head ?r"
    using assms(1,2) by (auto simp: spsc_inv_def ring_state_def consumer_ok_def)
  have "unat (r_tail ?r) < unat (r_head ?r)"
    using assms(3) t h by (simp add: word_le_nat_alt)
  then have "\<exists>xs. ring_list k ?r = r_buffer ?r ! (unat t mod 2 ^ k) # xs"
    by (simp add: ring_list_def upt_conv_Cons t)
  then show ?thesis
    using assms(1) t by (auto simp: spsc_inv_def ring_state_def producer_ok_def consumer_ok_def
        and_pow2_minus_1 split: producer_pc.splits)
qed

lemma c_store_inv:
  assumes "spsc_inv k s" "cpc s = CRead x t"
  shows "spsc_inv k (s\<lparr>ring := (ring s)\<lparr>r_tail := t + 1\<rparr>, cpc := CIdle, popped := popped s @ [x]\<rparr>)"
proof -
  let ?r = "ring s"
  obtain xs where inv: "ring_inv k ?r" and t: "t = r_tail ?r" and l: "ring_list k ?r = x # xs"
    using assms by (auto simp: spsc_inv_def ring_state_def consumer_ok_def)
  have lt: "unat (r_tail ?r) < unat (r_head ?r)"
    using l by (cases "unat (r_tail ?r) < unat (r_head ?r)") (auto simp: ring_list_def)
  have pop: "snd (ring_pop (2 ^ k) ?r) = ?r\<lparr>r_tail := t + 1\<rparr>"
    using lt by (simp add: ring_pop_def word_le_nat_alt t Let_def)
  have nz: "r_tail ?r \<noteq> 0xFFFFFFFFFFFFFFFF" using lt unat_u64_less [of "r_head ?r"] by auto
  note suc = unat_succ_u64 [OF nz]
  have rest: "ring_list k (?r\<lparr>r_tail := t + 1\<rparr>) = xs" "ring_inv k (?r\<lparr>r_tail := t + 1\<rparr>)"
    using ring_pop_cons [OF inv l] pop by auto
  have up: "y \<le> t + 1" if "y \<le> t" for y :: u64
    using that suc t by (simp add: word_le_nat_alt)
  show ?thesis
    using assms(1) rest l t suc up
    by (auto simp: spsc_inv_def ring_state_def producer_ok_def consumer_ok_def
        split: producer_pc.splits)
qed

lemma spsc_step_inv:
  assumes "spsc_step (2 ^ k) s s'" "spsc_inv k s" "length (pushed s') < 2 ^ 64"
  shows "spsc_inv k s'"
  using assms(1)
proof cases
  case (p_full x h t)
  then show ?thesis
    using assms(2) by (auto simp: spsc_inv_def ring_state_def producer_ok_def consumer_ok_def
        ring_inv_def ring_list_def split: consumer_pc.splits)
next
  case (p_write x h t)
  then show ?thesis using p_write_inv [OF assms(2)] by simp
next
  case (p_store x h)
  then show ?thesis using p_store_inv [OF assms(2)] assms(3) by simp
next
  case (c_read t h)
  then show ?thesis using c_read_inv [OF assms(2)] by simp
next
  case (c_store x t)
  then show ?thesis using c_store_inv [OF assms(2)] by simp
qed (use assms(2) in \<open>auto simp: spsc_inv_def ring_state_def producer_ok_def consumer_ok_def
    split: producer_pc.splits consumer_pc.splits\<close>)

lemma pushed_mono: "spsc_step cap s s' \<Longrightarrow> length (pushed s) \<le> length (pushed s')"
  by (erule spsc_stepE) auto

interpretation ring_steps: bounded_steps "spsc_step (2 ^ k)" "spsc_init (2 ^ k) z" "\<lambda>s. k < 64 \<longrightarrow> spsc_inv k s"
    "\<lambda>s. length (pushed s) < 2 ^ 64" for k z
proof
  show "k < 64 \<longrightarrow> spsc_inv k (spsc_init (2 ^ k) z)" by (intro impI spsc_init_inv)
next
  fix s s' :: "'a spsc"
  assume s: "spsc_step (2 ^ k) s s'"
  then show "k < 64 \<longrightarrow> spsc_inv k s'" if "k < 64 \<longrightarrow> spsc_inv k s" "length (pushed s') < 2 ^ 64"
    using that by (simp add: spsc_step_inv [OF s])
  show "length (pushed s) < 2 ^ 64" if "length (pushed s') < 2 ^ 64"
    using pushed_mono [OF s] that by simp
qed

lemma spsc_reachable_inv:
  "spsc_reachable (2 ^ k) z s \<Longrightarrow> k < 64 \<Longrightarrow> length (pushed s) < 2 ^ 64 \<Longrightarrow> spsc_inv k s"
  using ring_steps.reachable_inv [of k z s] by (simp add: spsc_reachable_def)

section \<open>Undisturbed operations\<close>

text \<open>When the other thread does not move, the steps of an operation amount to the whole call.\<close>

lemma push_run:
  assumes "ppc s = PIdle"
  shows "(spsc_step cap)\<^sup>*\<^sup>* s (s\<lparr>ring := snd (ring_push cap x (ring s)), ppc := PIdle,
    pushed := (if fst (ring_push cap x (ring s)) then pushed s @ [x] else pushed s)\<rparr>)"
proof -
  let ?h = "r_head (ring s)" and ?t = "r_tail (ring s)"
  let ?s1 = "s\<lparr>ppc := PHead x ?h\<rparr>" and ?s2 = "s\<lparr>ppc := PTail x ?h ?t\<rparr>"
  have 1: "spsc_step cap s ?s1" by (rule spsc_step.p_head [OF assms])
  have 2: "spsc_step cap ?s1 ?s2" using spsc_step.p_tail [of ?s1 x ?h cap] by simp
  show ?thesis
  proof (cases "cap \<le> ?h - ?t")
    case True
    have "spsc_step cap ?s2 (s\<lparr>ring := (ring s)\<lparr>ring_dropped := ring_dropped (ring s) + 1\<rparr>, ppc := PIdle\<rparr>)"
      using spsc_step.p_full [of ?s2 x ?h ?t cap] True by simp
    with 1 2 True show ?thesis by (simp add: ring_push_def Let_def)
  next
    case False
    let ?r = "(ring s)\<lparr>r_buffer := (r_buffer (ring s))[unat (?h AND (cap - 1)) := x]\<rparr>"
    have 3: "spsc_step cap ?s2 (s\<lparr>ring := ?r, ppc := PWritten x ?h\<rparr>)"
      using spsc_step.p_write [of ?s2 x ?h ?t cap] False by simp
    have 4: "spsc_step cap (s\<lparr>ring := ?r, ppc := PWritten x ?h\<rparr>)
        (s\<lparr>ring := ?r\<lparr>r_head := ?h + 1\<rparr>, ppc := PIdle, pushed := pushed s @ [x]\<rparr>)"
      using spsc_step.p_store [of "s\<lparr>ring := ?r, ppc := PWritten x ?h\<rparr>" x ?h cap] by simp
    show ?thesis
      using rtranclp.rtrancl_into_rtrancl [OF rtranclp.rtrancl_into_rtrancl [OF
        rtranclp.rtrancl_into_rtrancl [OF r_into_rtranclp [of "spsc_step cap", OF 1] 2] 3] 4] False
      by (simp add: ring_push_def Let_def)
  qed
qed

section \<open>Properties\<close>

text \<open>C10: however producer and consumer interleave, the items popped so far followed by the
  items in the ring are exactly the items pushed, in order: nothing is lost, duplicated or
  reordered.  Fewer than 2^64 pushes keep the counters from wrapping.\<close>

theorem spsc_linearizable:
  assumes "spsc_reachable (2 ^ k) z s" "k < 64" "length (pushed s) < 2 ^ 64"
  shows "popped s @ ring_list k (ring s) = pushed s \<and> length (ring_list k (ring s)) \<le> 2 ^ k"
  using spsc_reachable_inv [OF assms] spsc.contents_le [of k "ring s"]
  by (simp add: spsc_inv_def ring_state_def)

theorem spsc_linearizable_witness:
  "\<exists>s. spsc_reachable (2 ^ 1) (0::nat) s \<and> pushed s = [7] \<and> popped s @ ring_list 1 (ring s) = [7]"
proof -
  let ?i = "spsc_init (2 ^ 1) (0::nat)"
  let ?s = "?i\<lparr>ring := snd (ring_push (2 ^ 1) 7 (ring ?i)), ppc := PIdle,
    pushed := (if fst (ring_push (2 ^ 1) 7 (ring ?i)) then pushed ?i @ [7] else pushed ?i)\<rparr>"
  have r: "spsc_reachable (2 ^ 1) 0 ?s"
    unfolding spsc_reachable_def by (rule push_run) (simp add: spsc_init_def)
  moreover have p: "pushed ?s = [7]" by (simp add: spsc_init_def ring_init_def ring_push_def)
  moreover have "popped ?s @ ring_list 1 (ring ?s) = pushed ?s"
    using spsc_linearizable [OF r] p by simp
  ultimately show ?thesis by metis
qed

text \<open>C11: the producer never writes the slot the consumer is reading: whenever the producer has
  decided to write and the consumer has decided to read, the two slots differ, so copying an
  item needs no atomicity.\<close>

theorem spsc_no_race:
  assumes "spsc_reachable (2 ^ k) z s" "k < 64" "length (pushed s) < 2 ^ 64"
    and "ppc s = PTail x h t" "\<not> 2 ^ k \<le> h - t" "cpc s = CHead t' h'" "\<not> h' \<le> t'"
  shows "unat (h AND (2 ^ k - 1)) \<noteq> unat (t' AND (2 ^ k - 1))"
proof -
  let ?r = "ring s"
  have i: "ring_inv k ?r" "h = r_head ?r" "t \<le> r_tail ?r" "t' = r_tail ?r" "h' \<le> r_head ?r"
    using spsc_reachable_inv [OF assms(1-3)] assms(4,6)
    by (auto simp: spsc_inv_def ring_state_def producer_ok_def consumer_ok_def)
  have "length (ring_list k ?r) < 2 ^ k" using not_full [OF i(1,3)] assms(5) i(2) by simp
  then have "unat t' < unat h" "unat h < unat t' + 2 ^ k"
    using i assms(7) by (auto simp: ring_inv_def ring_list_def word_le_nat_alt)
  then show ?thesis unfolding and_pow2_minus_1 by (metis mod_window_neq)
qed

theorem spsc_no_race_witness:
  "\<exists>s. spsc_reachable (2 ^ 1) (0::nat) s \<and> ppc s = PTail 8 1 0 \<and> cpc s = CHead 0 1 \<and>
    unat ((1::u64) AND (2 ^ 1 - 1)) \<noteq> unat ((0::u64) AND (2 ^ 1 - 1))"
proof -
  let ?i = "spsc_init (2 ^ 1) (0::nat)"
  let ?s = "?i\<lparr>ring := snd (ring_push (2 ^ 1) 7 (ring ?i)), ppc := PIdle,
    pushed := (if fst (ring_push (2 ^ 1) 7 (ring ?i)) then pushed ?i @ [7] else pushed ?i)\<rparr>"
  let ?r = "snd (ring_push (2 ^ 1) (7::nat) (ring_init (2 ^ 1) 0))"
  define s1 where "s1 = \<lparr>ring = ?r, ppc = PIdle, cpc = CIdle, pushed = [7], popped = []\<rparr>"
  have "?s = s1" by (simp add: s1_def spsc_init_def ring_push_def ring_init_def Let_def)
  then have r1: "(spsc_step (2 ^ 1))\<^sup>*\<^sup>* ?i s1"
    using push_run [of ?i "2 ^ 1" 7] by (simp add: spsc_init_def)
  have ht: "r_head ?r = 1" "r_tail ?r = 0" by (simp_all add: ring_push_def ring_init_def Let_def)
  define s2 where "s2 = s1\<lparr>ppc := PHead 8 1\<rparr>"
  define s3 where "s3 = s2\<lparr>ppc := PTail 8 1 0\<rparr>"
  define s4 where "s4 = s3\<lparr>cpc := CTail 0\<rparr>"
  define s5 where "s5 = s4\<lparr>cpc := CHead 0 1\<rparr>"
  have "spsc_step (2 ^ 1) s1 s2" using spsc_step.p_head [of s1 "2 ^ 1" 8] ht by (simp add: s1_def s2_def)
  moreover have "spsc_step (2 ^ 1) s2 s3"
    using spsc_step.p_tail [of s2 8 1 "2 ^ 1"] ht by (simp add: s1_def s2_def s3_def)
  moreover have "spsc_step (2 ^ 1) s3 s4"
    using spsc_step.c_tail [of s3 "2 ^ 1"] ht by (simp add: s1_def s2_def s3_def s4_def)
  moreover have "spsc_step (2 ^ 1) s4 s5"
    using spsc_step.c_head [of s4 0 "2 ^ 1"] ht by (simp add: s1_def s2_def s3_def s4_def s5_def)
  ultimately have r: "spsc_reachable (2 ^ 1) 0 s5"
    unfolding spsc_reachable_def using r1 by (meson rtranclp.rtrancl_into_rtrancl)
  have pc: "ppc s5 = PTail 8 1 0" "cpc s5 = CHead 0 1" "length (pushed s5) < 2 ^ 64"
    by (simp_all add: s5_def s4_def s3_def s2_def s1_def)
  show ?thesis
    using r pc spsc_no_race [OF r _ pc(3,1) _ pc(2)] by auto
qed

end
