(* ===== verification/DoubleBufferConcurrent.thy ===== *)
theory DoubleBufferConcurrent
  imports MercuryShm
begin

text \<open>
  \<open>SourceDoubleBuffer\<close> with its writer and a reader running at the same time.  An element is a
  pair of halves, so that a \<open>memcpy\<close> is two steps and a torn copy can be told from a whole
  one.  The ghost fields are the completed publications and the number of index flips since
  the reader loaded the index.
\<close>

datatype 'a writer_pc = WIdle | WIdx u32 "'a \<times> 'a" | WLow u32 "'a \<times> 'a" | WHigh u32 "'a \<times> 'a"
  | WSeq u32 "'a \<times> 'a" | WBeat u32 "'a \<times> 'a"
datatype 'a reader_pc = RIdle | RIdx u32 | RLow u32 'a | RDone "'a \<times> 'a"

record 'a dbuf_state =
  db :: "('a \<times> 'a) SourceDoubleBuffer"
  wpc :: "'a writer_pc"
  rpc :: "'a reader_pc"
  published :: "('a \<times> 'a) list"
  flips :: nat
  seen :: "'a \<times> 'a"

definition put_half :: "nat \<Rightarrow> ('a \<times> 'a \<Rightarrow> 'a \<times> 'a) \<Rightarrow> ('a \<times> 'a) SourceDoubleBuffer \<Rightarrow> ('a \<times> 'a) SourceDoubleBuffer" where
  "put_half i f b = b\<lparr>buffers := (buffers b)[i := f (buffers b ! i)]\<rparr>"

inductive dbuf_step :: "('a \<times> 'a \<Rightarrow> u64) \<Rightarrow> 'a dbuf_state \<Rightarrow> 'a dbuf_state \<Rightarrow> bool" for ts where
  w_load: "wpc s = WIdle \<Longrightarrow> dbuf_step ts s (s\<lparr>wpc := WIdx (1 - write_idx (db s)) d\<rparr>)"
| w_low: "wpc s = WIdx i d \<Longrightarrow>
    dbuf_step ts s (s\<lparr>db := put_half (unat i) (\<lambda>(_, b). (fst d, b)) (db s), wpc := WLow i d\<rparr>)"
| w_high: "wpc s = WLow i d \<Longrightarrow>
    dbuf_step ts s (s\<lparr>db := put_half (unat i) (\<lambda>(a, _). (a, snd d)) (db s), wpc := WHigh i d\<rparr>)"
| w_seq: "wpc s = WHigh i d \<Longrightarrow>
    dbuf_step ts s (s\<lparr>db := (db s)\<lparr>d_sequence := d_sequence (db s) + 1\<rparr>, wpc := WSeq i d\<rparr>)"
| w_beat: "wpc s = WSeq i d \<Longrightarrow>
    dbuf_step ts s (s\<lparr>db := (db s)\<lparr>heartbeat_ns := ts d\<rparr>, wpc := WBeat i d\<rparr>)"
| w_flip: "wpc s = WBeat i d \<Longrightarrow>
    dbuf_step ts s (s\<lparr>db := (db s)\<lparr>write_idx := i\<rparr>, wpc := WIdle, published := published s @ [d],
      flips := flips s + 1\<rparr>)"
| r_load: "rpc s = RIdle \<or> rpc s = RDone e \<Longrightarrow>
    dbuf_step ts s (s\<lparr>rpc := RIdx (write_idx (db s)), flips := 0, seen := last (published s)\<rparr>)"
| r_low: "rpc s = RIdx i \<Longrightarrow> dbuf_step ts s (s\<lparr>rpc := RLow i (fst (buffers (db s) ! unat i))\<rparr>)"
| r_high: "rpc s = RLow i a \<Longrightarrow>
    dbuf_step ts s (s\<lparr>rpc := RDone (a, snd (buffers (db s) ! unat i))\<rparr>)"

inductive_cases dbuf_stepE: "dbuf_step ts s s'"

text \<open>The initial element counts as published.\<close>

definition dbuf_start :: "'a \<times> 'a \<Rightarrow> 'a dbuf_state" where
  "dbuf_start z = \<lparr>db = dbuf_zero z, wpc = WIdle, rpc = RIdle, published = [z], flips = 0, seen = z\<rparr>"

definition dbuf_reachable :: "('a \<times> 'a \<Rightarrow> u64) \<Rightarrow> 'a \<times> 'a \<Rightarrow> 'a dbuf_state \<Rightarrow> bool" where
  "dbuf_reachable ts z = (dbuf_step ts)\<^sup>*\<^sup>* (dbuf_start z)"

section \<open>Invariant\<close>

definition writer_ok :: "'a dbuf_state \<Rightarrow> bool" where
  "writer_ok s \<longleftrightarrow> (case wpc s of
      WIdle \<Rightarrow> True
    | WIdx i d \<Rightarrow> i = 1 - write_idx (db s)
    | WLow i d \<Rightarrow> i = 1 - write_idx (db s) \<and> fst (buffers (db s) ! unat i) = fst d
    | WHigh i d \<Rightarrow> i = 1 - write_idx (db s) \<and> buffers (db s) ! unat i = d
    | WSeq i d \<Rightarrow> i = 1 - write_idx (db s) \<and> buffers (db s) ! unat i = d
    | WBeat i d \<Rightarrow> i = 1 - write_idx (db s) \<and> buffers (db s) ! unat i = d)"

definition reader_ok :: "'a dbuf_state \<Rightarrow> bool" where
  "reader_ok s \<longleftrightarrow> flips s = 0 \<longrightarrow> (case rpc s of
      RIdle \<Rightarrow> True
    | RIdx i \<Rightarrow> i = write_idx (db s) \<and> seen s = last (published s)
    | RLow i a \<Rightarrow> i = write_idx (db s) \<and> seen s = last (published s) \<and> a = fst (seen s)
    | RDone e \<Rightarrow> e = seen s)"

definition dbuf_state_inv :: "'a dbuf_state \<Rightarrow> bool" where
  "dbuf_state_inv s \<longleftrightarrow> dbuf_inv (db s) \<and> published s \<noteq> [] \<and>
     buffers (db s) ! unat (write_idx (db s)) = last (published s) \<and> writer_ok s \<and> reader_ok s"

lemma dbuf_start_inv: "dbuf_state_inv (dbuf_start z)"
  by (simp add: dbuf_state_inv_def dbuf_start_def dbuf_zero_inv writer_ok_def reader_ok_def)
    (simp add: dbuf_zero_def)

lemma other_index: "i \<in> {0, 1} \<Longrightarrow> unat (1 - i :: u32) \<noteq> unat i \<and> unat (1 - i) < 2 \<and> 1 - i \<in> {0, 1}"
  by auto

lemma put_half_other:
  "i \<noteq> j \<Longrightarrow> buffers (put_half i f b) ! j = buffers b ! j"
  "i < length (buffers b) \<Longrightarrow> buffers (put_half i f b) ! i = f (buffers b ! i)"
  "length (buffers (put_half i f b)) = length (buffers b)" "write_idx (put_half i f b) = write_idx b"
  by (simp_all add: put_half_def)

lemma dbuf_step_inv:
  assumes "dbuf_step ts s s'" "dbuf_state_inv s"
  shows "dbuf_state_inv s'"
proof -
  have b: "length (buffers (db s)) = 2" "write_idx (db s) \<in> {0, 1}"
    using assms(2) by (auto simp: dbuf_state_inv_def dbuf_inv_def)
  note o = other_index [OF b(2)]
  have o': "unat (write_idx (db s)) < 2" using b(2) by auto
  show ?thesis
    using assms(1)
  proof cases
    case (w_low i d)
    then have "i = 1 - write_idx (db s)" using assms(2) by (simp add: dbuf_state_inv_def writer_ok_def)
    then show ?thesis
      using w_low assms(2) o b
      by (auto simp: dbuf_state_inv_def dbuf_inv_def writer_ok_def reader_ok_def put_half_other
          split: reader_pc.splits prod.splits)
  next
    case (w_high i d)
    then have "i = 1 - write_idx (db s)" "fst (buffers (db s) ! unat i) = fst d"
      using assms(2) by (auto simp: dbuf_state_inv_def writer_ok_def)
    then show ?thesis
      using w_high assms(2) o b
      by (auto simp: dbuf_state_inv_def dbuf_inv_def writer_ok_def reader_ok_def put_half_other
          split: reader_pc.splits prod.splits)
  next
    case (w_flip i d)
    then show ?thesis
      using assms(2) o
      by (auto simp: dbuf_state_inv_def dbuf_inv_def writer_ok_def reader_ok_def)
  next
    case (r_high i a)
    then show ?thesis
      using assms(2)
      by (auto simp: dbuf_state_inv_def writer_ok_def reader_ok_def split: writer_pc.splits)
  qed (use assms(2) in \<open>auto simp: dbuf_state_inv_def dbuf_inv_def writer_ok_def reader_ok_def
      split: writer_pc.splits reader_pc.splits\<close>)
qed

interpretation dbuf_steps: invariant_steps "dbuf_step ts" "dbuf_start z" dbuf_state_inv for ts z
  by unfold_locales (rule dbuf_start_inv, rule dbuf_step_inv)

section \<open>Properties\<close>


text \<open>One uninterrupted publication, as a path of steps.\<close>

lemma publish_run:
  assumes "wpc s = WIdle" "dbuf_inv (db s)" "b = db s" "i = 1 - write_idx b"
  shows "(dbuf_step ts)\<^sup>*\<^sup>* s (s\<lparr>db := b\<lparr>buffers := (buffers b)[unat i := d],
      d_sequence := d_sequence b + 1, heartbeat_ns := ts d, write_idx := i\<rparr>,
    wpc := WIdle, published := published s @ [d], flips := flips s + 1\<rparr>)"
proof -
  define s1 where "s1 = s\<lparr>wpc := WIdx i d\<rparr>"
  define s2 where "s2 = s1\<lparr>db := put_half (unat i) (\<lambda>(_, b). (fst d, b)) (db s1), wpc := WLow i d\<rparr>"
  define s3 where "s3 = s2\<lparr>db := put_half (unat i) (\<lambda>(a, _). (a, snd d)) (db s2), wpc := WHigh i d\<rparr>"
  define s4 where "s4 = s3\<lparr>db := (db s3)\<lparr>d_sequence := d_sequence (db s3) + 1\<rparr>, wpc := WSeq i d\<rparr>"
  define s5 where "s5 = s4\<lparr>db := (db s4)\<lparr>heartbeat_ns := ts d\<rparr>, wpc := WBeat i d\<rparr>"
  define s6 where "s6 = s5\<lparr>db := (db s5)\<lparr>write_idx := i\<rparr>, wpc := WIdle, published := published s5 @ [d],
      flips := flips s5 + 1\<rparr>"
  have 1: "dbuf_step ts s s1" using dbuf_step.w_load [OF assms(1), of ts d] assms(3,4) by (simp add: s1_def)
  have 2: "dbuf_step ts s1 s2" unfolding s2_def by (rule dbuf_step.w_low) (simp add: s1_def)
  have 3: "dbuf_step ts s2 s3" unfolding s3_def by (rule dbuf_step.w_high) (simp add: s2_def)
  have 4: "dbuf_step ts s3 s4" unfolding s4_def by (rule dbuf_step.w_seq) (simp add: s3_def)
  have 5: "dbuf_step ts s4 s5" unfolding s5_def by (rule dbuf_step.w_beat) (simp add: s4_def)
  have 6: "dbuf_step ts s5 s6" unfolding s6_def by (rule dbuf_step.w_flip) (simp add: s5_def)
  note go = converse_rtranclp_into_rtranclp [of "dbuf_step ts"]
  have "(dbuf_step ts)\<^sup>*\<^sup>* s s6"
    by (rule go [OF 1 go [OF 2 go [OF 3 go [OF 4 go [OF 5 r_into_rtranclp [of "dbuf_step ts", OF 6]]]]]])
  moreover have "unat i < length (buffers b)" using assms(2-4) by (auto simp: dbuf_inv_def)
  ultimately show ?thesis
    by (simp add: s6_def s5_def s4_def s3_def s2_def s1_def put_half_def assms(3) [symmetric] case_prod_beta)
qed

lemma dbuf_trans: "dbuf_reachable ts z s \<Longrightarrow> dbuf_step ts s s' \<Longrightarrow> dbuf_reachable ts z s'"
  unfolding dbuf_reachable_def by (rule rtranclp.rtrancl_into_rtrancl)


text \<open>The protection is limited to that case: with two publications during one read, the
  reader can return an element of which one half is old and the other new, and which was never
  published.\<close>

theorem dbuf_torn_read:
  "\<exists>s e. dbuf_reachable (\<lambda>_. 0) (0::nat, 0) s \<and> rpc s = RDone e \<and> e \<notin> set (published s)"
proof -
  define ts :: "nat \<times> nat \<Rightarrow> u64" where "ts = (\<lambda>_. 0)"
  define P where "P = (\<lambda>d (s :: nat dbuf_state). s\<lparr>db := (db s)\<lparr>buffers := (buffers (db s))[unat (1 - write_idx (db s)) := d],
      d_sequence := d_sequence (db s) + 1, heartbeat_ns := ts d, write_idx := 1 - write_idx (db s)\<rparr>,
    wpc := WIdle, published := published s @ [d], flips := flips s + 1\<rparr>)"
  define s0 where "s0 = dbuf_start (0::nat, 0)"
  define s1 where "s1 = s0\<lparr>rpc := RIdx 0, flips := 0, seen := (0, 0)\<rparr>"
  define s2 where "s2 = s1\<lparr>rpc := RLow 0 0\<rparr>"
  define s3 where "s3 = P (1, 1) s2"
  define s4 where "s4 = P (2, 2) s3"
  define s5 where "s5 = s4\<lparr>rpc := RDone (0, 2)\<rparr>"
  note simps = s0_def s1_def s2_def s3_def s4_def s5_def P_def dbuf_start_def dbuf_zero_def dbuf_inv_def
  have 1: "dbuf_step ts s0 s1" using dbuf_step.r_load [of s0 _ ts] by (simp add: simps)
  have 2: "dbuf_step ts s1 s2" using dbuf_step.r_low [of s1 0 ts] by (simp add: simps)
  have 3: "(dbuf_step ts)\<^sup>*\<^sup>* s2 s3"
    unfolding s3_def P_def by (rule publish_run) (simp_all add: simps)
  have 4: "(dbuf_step ts)\<^sup>*\<^sup>* s3 s4"
    unfolding s4_def P_def by (rule publish_run) (simp_all add: simps)
  have 5: "dbuf_step ts s4 s5" using dbuf_step.r_high [of s4 0 0 ts] by (simp add: simps)
  have "dbuf_reachable ts (0, 0) s5"
    unfolding dbuf_reachable_def s0_def [symmetric]
    by (rule converse_rtranclp_into_rtranclp [OF 1 converse_rtranclp_into_rtranclp [OF 2
      rtranclp_trans [OF 3 rtranclp.rtrancl_into_rtrancl [OF 4 5]]]])
  moreover have "rpc s5 = RDone (0, 2)" "(0, 2) \<notin> set (published s5)" by (simp_all add: simps)
  ultimately show ?thesis unfolding ts_def by blast
qed

end
