(* ===== verification/Composer.thy ===== *)
theory Composer
  imports CanBus MercuryShm
begin

text \<open>
  \<open>lib/composer/Composer.cpp\<close>: one compose cycle merges the three staging buffers and the
  parameter cache into a \<open>SensorData\<close> snapshot, publishes it, and collects snapshot/command
  pairs into batches for the logger.  The staging buffers are those of the shared memory, as
  \<open>Robot::attachSharedMemory\<close> passes them.  \<open>now\<close> arguments are clock readings.
\<close>

section \<open>State\<close>

definition IMU_STALE_TIMEOUT_MS :: u64 where "IMU_STALE_TIMEOUT_MS = 50"
definition MOTOR_GROUP_STALE_TIMEOUT_MS :: u64 where "MOTOR_GROUP_STALE_TIMEOUT_MS = 100"
definition STALE_IMU :: u8 where "STALE_IMU = 1"
definition STALE_MOTOR_GROUP_A :: u8 where "STALE_MOTOR_GROUP_A = 2"
definition STALE_MOTOR_GROUP_B :: u8 where "STALE_MOTOR_GROUP_B = 4"
definition PERIOD_NS :: int where "PERIOD_NS = 2500000"
definition BATCH_RING_CAPACITY :: u64 where "BATCH_RING_CAPACITY = 256"

definition sizeof_uint32 :: nat where "sizeof_uint32 = 4"
definition sizeof_SensorCommandPair :: nat where "sizeof_SensorCommandPair = 1544"

record Composer =
  co_running :: bool
  co_thread_created :: bool
  last_imu_change_ns :: u64
  last_grp_a_change_ns :: u64
  last_grp_b_change_ns :: u64
  prev_imu_seq :: u64
  prev_grp_a_seq :: u64
  prev_grp_b_seq :: u64
  co_batch :: BatchLogRecord
  batch_idx :: u32
  batch_seq :: u64
  co_dropped :: u64

definition Composer_init :: Composer where
  "Composer_init = \<lparr>co_running = False, co_thread_created = False, last_imu_change_ns = 0,
     last_grp_a_change_ns = 0, last_grp_b_change_ns = 0, prev_imu_seq = 0xFFFFFFFFFFFFFFFF,
     prev_grp_a_seq = 0xFFFFFFFFFFFFFFFF, prev_grp_b_seq = 0xFFFFFFFFFFFFFFFF,
     co_batch = Batch_zero, batch_idx = 0, batch_seq = 0, co_dropped = 0\<rparr>"

type_synonym batch_ring = "BatchLogRecord SPSCRingBuffer"

section \<open>Operations\<close>

text \<open>\<open>rc\<close> is the result of \<open>pthread_create\<close>.\<close>

definition composer_start :: "u64 \<Rightarrow> int \<Rightarrow> Composer \<Rightarrow> Composer" where
  "composer_start now rc c =
     (if co_thread_created c then c
      else let c1 = c\<lparr>last_imu_change_ns := now, last_grp_a_change_ns := now,
                      last_grp_b_change_ns := now, co_running := True\<rparr> in
        if rc \<noteq> 0 then c1\<lparr>co_running := False\<rparr> else c1\<lparr>co_thread_created := True\<rparr>)"

definition composer_shutdown :: "Composer \<Rightarrow> Composer" where
  "composer_shutdown c =
     (if \<not> co_thread_created c then c else c\<lparr>co_running := False, co_thread_created := False\<rparr>)"

text \<open>The element-wise copy of a group of six into the twelve joints, from index \<open>off\<close>.\<close>

definition copy_group :: "nat \<Rightarrow> double list \<Rightarrow> double list \<Rightarrow> double list" where
  "copy_group off src dst = take off dst @ take MOTORS_PER_GROUP src @ drop (off + MOTORS_PER_GROUP) dst"

definition copy_groups :: "double list \<Rightarrow> double list \<Rightarrow> double list \<Rightarrow> double list" where
  "copy_groups a b dst = copy_group MOTORS_PER_GROUP b (copy_group 0 a dst)"

definition override :: "(nat \<Rightarrow> fault + double) \<Rightarrow> double list \<Rightarrow> fault + double list" where
  "override ld xs =
     foldR (\<lambda>i ys. bindR (ld i) (\<lambda>v. if \<not> deq v (Fin 0) then arr_set ys i v else Inr ys))
       [0..<NUM_MOTORS] xs"

definition merge_sources ::
    "u64 \<Rightarrow> MotorParamCache \<Rightarrow> ImuStageData \<Rightarrow> MotorGroupStageData \<Rightarrow> MotorGroupStageData \<Rightarrow> fault + SensorData" where
  "merge_sources now pc imu grpA grpB =
     (let z = SensorData_zero;
          sd = z\<lparr>imu_inc := i_imu_inc imu, imu_ang_vel := i_imu_ang_vel imu, imu_acc := i_imu_acc imu,
                 joint_jpos := copy_groups (g_joint_jpos grpA) (g_joint_jpos grpB) (joint_jpos z),
                 joint_jvel := copy_groups (g_joint_jvel grpA) (g_joint_jvel grpB) (joint_jvel z),
                 motor_jpos := copy_groups (g_motor_jpos grpA) (g_motor_jpos grpB) (motor_jpos z),
                 motor_jvel := copy_groups (g_motor_jvel grpA) (g_motor_jvel grpB) (motor_jvel z),
                 bus_current := copy_groups (g_bus_current grpA) (g_bus_current grpB) (bus_current z),
                 bus_voltage := copy_groups (g_bus_voltage grpA) (g_bus_voltage grpB) (bus_voltage z),
                 jtorque := copy_groups (g_jtorque grpA) (g_jtorque grpB) (jtorque z),
                 motor_current := copy_groups (g_motor_current grpA) (g_motor_current grpB) (motor_current z),
                 reflected_rotor_inertia := copy_groups (g_reflected_rotor_inertia grpA)
                   (g_reflected_rotor_inertia grpB) (reflected_rotor_inertia z)\<rparr>
      in bindR (override (load_bus_voltage pc) (bus_voltage sd)) (\<lambda>v.
         bindR (override (load_bus_current pc) (bus_current sd)) (\<lambda>c.
         bindR (override (load_reflected_rotor_inertia pc) (reflected_rotor_inertia sd)) (\<lambda>r.
           Inr (sd\<lparr>bus_voltage := v, bus_current := c, reflected_rotor_inertia := r,
                   imu_timestamp_ns := i_timestamp_ns imu,
                   motor_group_a_timestamp_ns := g_timestamp_ns grpA,
                   motor_group_b_timestamp_ns := g_timestamp_ns grpB,
                   compose_timestamp_ns := now,
                   imu_sequence := i_sequence imu,
                   motor_group_a_sequence := g_sequence grpA,
                   motor_group_b_sequence := g_sequence grpB,
                   leg_a_duration_us := controller_duration_us grpA,
                   leg_a_interval_us := controller_interval_us grpA,
                   leg_b_duration_us := controller_duration_us grpB,
                   leg_b_interval_us := controller_interval_us grpB\<rparr>)))))"

definition track_staleness ::
    "u64 \<Rightarrow> ImuStageData \<Rightarrow> MotorGroupStageData \<Rightarrow> MotorGroupStageData \<Rightarrow> Composer \<Rightarrow> Composer" where
  "track_staleness now imu grpA grpB c =
     (let c1 = (if i_sequence imu \<noteq> prev_imu_seq c
                then c\<lparr>prev_imu_seq := i_sequence imu, last_imu_change_ns := now\<rparr> else c);
          c2 = (if g_sequence grpA \<noteq> prev_grp_a_seq c1
                then c1\<lparr>prev_grp_a_seq := g_sequence grpA, last_grp_a_change_ns := now\<rparr> else c1)
      in if g_sequence grpB \<noteq> prev_grp_b_seq c2
         then c2\<lparr>prev_grp_b_seq := g_sequence grpB, last_grp_b_change_ns := now\<rparr> else c2)"

definition publish_composed :: "SensorData \<Rightarrow> SharedMemoryLayout \<Rightarrow> fault + SharedMemoryLayout" where
  "publish_composed sd shm =
     (let wb = 1 - composed_write_idx shm in
      bindR (arr_set (composed_buffers shm) (unat wb) sd) (\<lambda>bs.
        Inr (shm\<lparr>composed_buffers := bs, composed_write_idx := wb,
                 composed_sequence := composed_sequence shm + 1\<rparr>)))"

definition sealed_batch :: "u64 \<Rightarrow> u32 \<Rightarrow> Composer \<Rightarrow> BatchLogRecord" where
  "sealed_batch now rid c =
     (co_batch c)
       \<lparr>b_header := (b_header (co_batch c))
          \<lparr>h_magic := PAYLOAD_MAGIC, h_version := PAYLOAD_VERSION,
           h_record_type := record_code R_SENSOR_BATCH, h_robot_id := rid,
           h_payload_size := of_nat (sizeof_uint32 * 2 + unat (batch_idx c) * sizeof_SensorCommandPair),
           h_sequence := batch_seq c, h_timestamp_ns := now\<rparr>,
        sample_count := batch_idx c\<rparr>"

definition flush_batch :: "u64 \<Rightarrow> u32 \<Rightarrow> Composer \<Rightarrow> batch_ring \<Rightarrow> Composer \<times> batch_ring" where
  "flush_batch now rid c ring =
     (let b = sealed_batch now rid c;
          (ok, ring') = ring_push BATCH_RING_CAPACITY b ring
      in (c\<lparr>co_batch := b, batch_seq := batch_seq c + 1,
            co_dropped := (if ok then co_dropped c else co_dropped c + 1), batch_idx := 0\<rparr>, ring'))"

definition store_sample :: "SensorData \<Rightarrow> Command \<Rightarrow> Composer \<Rightarrow> fault + Composer" where
  "store_sample sd cmd c =
     bindR (arr_set (samples (co_batch c)) (unat (batch_idx c)) \<lparr>p_sensor = sd, p_cmd = cmd\<rparr>) (\<lambda>ss.
       Inr (c\<lparr>co_batch := (co_batch c)\<lparr>samples := ss\<rparr>, batch_idx := batch_idx c + 1\<rparr>))"

definition compose_cycle ::
    "u64 \<Rightarrow> u64 \<Rightarrow> MotorParamCache \<Rightarrow> Composer \<times> SharedMemoryLayout \<times> batch_ring \<Rightarrow>
     fault + Composer \<times> SharedMemoryLayout \<times> batch_ring" where
  "compose_cycle now now' pc = (\<lambda>(c, shm, ring).
     bindR (read_buf (imu_stage shm)) (\<lambda>imu.
     bindR (read_buf (motor_group_a_stage shm)) (\<lambda>grpA.
     bindR (read_buf (motor_group_b_stage shm)) (\<lambda>grpB.
     bindR (merge_sources now pc imu grpA grpB) (\<lambda>sd.
     let c1 = track_staleness now imu grpA grpB c in
     bindR (publish_composed sd shm) (\<lambda>shm1.
     bindR (arr_get (cmd_buffers shm1) (unat (cmd_write_idx shm1))) (\<lambda>cmd.
     bindR (store_sample sd cmd c1) (\<lambda>c2.
       if of_nat BATCH_SIZE \<le> batch_idx c2
       then (let (c3, ring1) = flush_batch now' (robot_id shm1) c2 ring in Inr (c3, shm1, ring1))
       else Inr (c2, shm1, ring)))))))))"

text \<open>
  The thread's loop.  Before each turn \<open>running_\<close> is read; the list gives, per turn, the two
  clock readings and what other threads made of the parameter cache and the shared memory since
  the last turn.  \<open>tv\<close> is the wake-up time as seconds and nanoseconds.
\<close>

definition next_wakeup :: "int \<times> int \<Rightarrow> int \<times> int" where
  "next_wakeup tv = (case tv of (sec, nsec) \<Rightarrow>
     let n = nsec + PERIOD_NS in if 1000000000 \<le> n then (sec + 1, n - 1000000000) else (sec, n))"

fun composer_run ::
    "(u64 \<times> u64 \<times> MotorParamCache \<times> (SharedMemoryLayout \<Rightarrow> SharedMemoryLayout)) list \<Rightarrow> u64 \<Rightarrow>
     Composer \<times> SharedMemoryLayout \<times> batch_ring \<Rightarrow> fault + Composer \<times> SharedMemoryLayout \<times> batch_ring" where
  "composer_run [] end_now (c, shm, ring) =
     (if 0 < batch_idx c
      then (let (c', ring') = flush_batch end_now (robot_id shm) c ring in Inr (c', shm, ring'))
      else Inr (c, shm, ring))"
| "composer_run ((now, now', pc, env) # ts) end_now (c, shm, ring) =
     bindR (compose_cycle now now' pc (c, env shm, ring)) (composer_run ts end_now)"

definition elapsed_ms :: "u64 \<Rightarrow> u64 \<Rightarrow> u64" where
  "elapsed_ms now lst = (if lst = 0 then 0xFFFFFFFFFFFFFFFF else (now - lst) div 1000000)"

definition check_staleness :: "u64 \<Rightarrow> Composer \<Rightarrow> u8" where
  "check_staleness now c =
     (let m1 = (if IMU_STALE_TIMEOUT_MS \<le> elapsed_ms now (last_imu_change_ns c) then STALE_IMU else 0);
          m2 = (if MOTOR_GROUP_STALE_TIMEOUT_MS \<le> elapsed_ms now (last_grp_a_change_ns c)
                then m1 OR STALE_MOTOR_GROUP_A else m1)
      in if MOTOR_GROUP_STALE_TIMEOUT_MS \<le> elapsed_ms now (last_grp_b_change_ns c)
         then m2 OR STALE_MOTOR_GROUP_B else m2)"

section \<open>Well-formed shared memory\<close>

definition imu_wf :: "ImuStageData \<Rightarrow> bool" where
  "imu_wf d \<longleftrightarrow> length (i_imu_inc d) = 3 \<and> length (i_imu_ang_vel d) = 3 \<and> length (i_imu_acc d) = 3"

definition group_wf :: "MotorGroupStageData \<Rightarrow> bool" where
  "group_wf g \<longleftrightarrow> length (g_joint_jpos g) = 6 \<and> length (g_joint_jvel g) = 6 \<and>
     length (g_motor_jpos g) = 6 \<and> length (g_motor_jvel g) = 6 \<and> length (g_bus_current g) = 6 \<and>
     length (g_bus_voltage g) = 6 \<and> length (g_jtorque g) = 6 \<and> length (g_motor_current g) = 6 \<and>
     length (g_reflected_rotor_inertia g) = 6 \<and> length (g_motor_status g) = 6 \<and>
     length (g_mos_temperature g) = 6 \<and> length (g_rotor_temperature g) = 6"

definition dbuf_wf :: "('a \<Rightarrow> bool) \<Rightarrow> 'a SourceDoubleBuffer \<Rightarrow> bool" where
  "dbuf_wf P b \<longleftrightarrow> dbuf_inv b \<and> (\<forall>x \<in> set (buffers b). P x)"

lemma publish_wf:
  assumes "dbuf_wf P b" "P d"
  obtains b' where "publish ts d b = Inr b'" "dbuf_wf P b'"
proof -
  obtain b' where b': "publish ts d b = Inr b'" "dbuf_inv b'"
    using assms(1) by (auto simp: dbuf_wf_def elim: publish_ok)
  have "set (buffers b') \<subseteq> insert d (set (buffers b))"
    using b'(1) set_update_subset_insert [of "buffers b"]
    by (fastforce simp: publish_def arr_set_def Let_def split: if_splits)
  then show thesis using that b' assms by (auto simp: dbuf_wf_def)
qed

definition shm_wf :: "SharedMemoryLayout \<Rightarrow> bool" where
  "shm_wf shm \<longleftrightarrow> dbuf_wf imu_wf (imu_stage shm) \<and> dbuf_wf group_wf (motor_group_a_stage shm) \<and>
     dbuf_wf group_wf (motor_group_b_stage shm) \<and> length (composed_buffers shm) = 2 \<and>
     composed_write_idx shm \<in> {0, 1} \<and> length (cmd_buffers shm) = 2 \<and> cmd_write_idx shm \<in> {0, 1}"

definition cache_wf :: "MotorParamCache \<Rightarrow> bool" where
  "cache_wf pc \<longleftrightarrow> length (pc_bus_voltage pc) = 12 \<and> length (pc_bus_current pc) = 12 \<and>
     length (pc_reflected_rotor_inertia pc) = 12"

lemma shm_zero_wf: "shm_wf SharedMemoryLayout_zero"
  by (simp add: shm_wf_def SharedMemoryLayout_zero_def dbuf_wf_def dbuf_zero_inv)
    (simp add: dbuf_zero_def imu_wf_def group_wf_def ImuStageData_zero_def MotorGroupStageData_zero_def
      zeros_def)

lemma cache_init_wf: "cache_wf MotorParamCache_init"
  by (simp add: cache_wf_def MotorParamCache_init_def NUM_MOTORS_def)

lemma read_wf: "dbuf_wf P b \<Longrightarrow> \<exists>d. read_buf b = Inr d \<and> P d"
  by (auto simp: dbuf_wf_def read_buf_ok dbuf_inv_def)

section \<open>The merge\<close>

lemma copy_groups_6:
  "length a = 6 \<Longrightarrow> length b = 6 \<Longrightarrow> length z = 12 \<Longrightarrow> copy_groups a b z = a @ b"
  by (simp add: copy_groups_def copy_group_def MOTORS_PER_GROUP_def)

lemma foldR_override:
  "n \<le> length xs \<Longrightarrow> length vs = length xs \<Longrightarrow>
   foldR (\<lambda>i ys. bindR (arr_get vs i) (\<lambda>v. if \<not> deq v (Fin 0) then arr_set ys i v else Inr ys)) [0..<n] xs =
   Inr (map (\<lambda>i. if deq (vs ! i) (Fin 0) then xs ! i else vs ! i) [0..<n] @ drop n xs)"
proof (induction n)
  case (Suc n)
  let ?f = "\<lambda>i. if deq (vs ! i) (Fin 0) then xs ! i else vs ! i"
  have d: "drop n xs = xs ! n # drop (Suc n) xs" using Suc.prems by (simp add: Cons_nth_drop_Suc)
  have up: "(map ?f [0..<n] @ drop n xs)[n := v] = map ?f [0..<n] @ v # drop (Suc n) xs" for v
    using Suc.prems by (simp add: list_update_append d)
  have ih: "foldR (\<lambda>i ys. bindR (arr_get vs i) (\<lambda>v. if \<not> deq v (Fin 0) then arr_set ys i v else Inr ys)) [0..<n] xs =
      Inr (map ?f [0..<n] @ drop n xs)" using Suc by simp
  have g: "arr_get vs n = Inr (vs ! n)" using Suc.prems by (simp add: arr_get_def)
  have st: "arr_set (map ?f [0..<n] @ drop n xs) n v = Inr (map ?f [0..<n] @ v # drop (Suc n) xs)" for v
    using Suc.prems by (simp add: arr_set_def up)
  show ?case by (simp add: foldR_append ih g st) (simp add: d)
qed simp

lemma override_eq:
  assumes "length xs = 12" "length vs = 12"
  shows "override (\<lambda>i. arr_get vs i) xs =
    Inr (map (\<lambda>i. if deq (vs ! i) (Fin 0) then xs ! i else vs ! i) [0..<12])"
  using foldR_override [of 12 xs vs] assms by (simp add: override_def NUM_MOTORS_def)

text \<open>What the merge means, joint by joint.\<close>

definition merged :: "double list \<Rightarrow> double list \<Rightarrow> double list \<Rightarrow> nat \<Rightarrow> double" where
  "merged a b vs i = (if deq (vs ! i) (Fin 0) then (if i < 6 then a ! i else b ! (i - 6)) else vs ! i)"

lemma merge_sources_ok:
  assumes "imu_wf imu" "group_wf ga" "group_wf gb" "cache_wf pc"
  obtains sd where "merge_sources now pc imu ga gb = Inr sd"
    "joint_jpos sd = g_joint_jpos ga @ g_joint_jpos gb" "joint_jvel sd = g_joint_jvel ga @ g_joint_jvel gb"
    "jtorque sd = g_jtorque ga @ g_jtorque gb"
    "bus_voltage sd = map (merged (g_bus_voltage ga) (g_bus_voltage gb) (pc_bus_voltage pc)) [0..<12]"
    "bus_current sd = map (merged (g_bus_current ga) (g_bus_current gb) (pc_bus_current pc)) [0..<12]"
    "imu_acc sd = i_imu_acc imu" "imu_ang_vel sd = i_imu_ang_vel imu" "imu_inc sd = i_imu_inc imu"
    "compose_timestamp_ns sd = now" "imu_sequence sd = i_sequence imu"
    "motor_group_a_sequence sd = g_sequence ga" "motor_group_b_sequence sd = g_sequence gb"
proof -
  have z: "length (joint_jpos SensorData_zero) = 12" "length (joint_jvel SensorData_zero) = 12"
    "length (motor_jpos SensorData_zero) = 12" "length (motor_jvel SensorData_zero) = 12"
    "length (bus_current SensorData_zero) = 12" "length (bus_voltage SensorData_zero) = 12"
    "length (jtorque SensorData_zero) = 12" "length (motor_current SensorData_zero) = 12"
    "length (reflected_rotor_inertia SensorData_zero) = 12"
    by (simp_all add: SensorData_zero_def zeros_def)
  have m: "map (\<lambda>i. if deq (vs ! i) (Fin 0) then (a @ b) ! i else vs ! i) [0..<12] = map (merged a b vs) [0..<12]"
    if "length a = 6" for a b vs :: "double list"
    using that by (simp add: merged_def nth_append)
  note l = load_bus_voltage_def [abs_def] load_bus_current_def [abs_def]
    load_reflected_rotor_inertia_def [abs_def]
  obtain sd where sd: "merge_sources now pc imu ga gb = Inr sd"
    using assms by (simp add: merge_sources_def Let_def group_wf_def cache_wf_def copy_groups_6 z l override_eq)
  then have "sd = projr (merge_sources now pc imu ga gb)" by simp
  then show thesis
    by (intro that [OF sd])
      (use assms in \<open>simp_all add: merge_sources_def Let_def group_wf_def cache_wf_def copy_groups_6 z l
         override_eq m\<close>)
qed

section \<open>One cycle\<close>

definition composer_ok :: "Composer \<Rightarrow> bool" where
  "composer_ok c \<longleftrightarrow> unat (batch_idx c) < BATCH_SIZE \<and> length (samples (co_batch c)) = BATCH_SIZE"

lemma composer_init_ok: "composer_ok Composer_init"
  by (simp add: composer_ok_def Composer_init_def Batch_zero_def BATCH_SIZE_def)

text \<open>The pairs collected since the last flush.\<close>

definition partial_batch :: "Composer \<Rightarrow> SensorCommandPair list" where
  "partial_batch c = take (unat (batch_idx c)) (samples (co_batch c))"

definition batch_pairs :: "BatchLogRecord \<Rightarrow> SensorCommandPair list" where
  "batch_pairs b = take (unat (sample_count b)) (samples b)"

lemma track_staleness_frame [simp]:
  "batch_idx (track_staleness now a b d c) = batch_idx c" "co_batch (track_staleness now a b d c) = co_batch c"
  "batch_seq (track_staleness now a b d c) = batch_seq c" "co_dropped (track_staleness now a b d c) = co_dropped c"
  "co_running (track_staleness now a b d c) = co_running c"
  by (simp_all add: track_staleness_def Let_def)

lemma composer_ok_track [simp]: "composer_ok (track_staleness now a b d c) = composer_ok c"
  by (simp add: composer_ok_def)

lemma idx_cases: "composer_ok c \<Longrightarrow> batch_idx c \<in> {0, 1, 2, 3}"
proof -
  assume "composer_ok c"
  then have "unat (batch_idx c) < 4" by (simp add: composer_ok_def BATCH_SIZE_def)
  then have "unat (batch_idx c) \<in> {0, 1, 2, 3}" by auto
  then show ?thesis by (auto simp: word_unat_eq_iff)
qed

lemma store_sample_ok:
  assumes "composer_ok c"
  obtains c' where "store_sample sd cmd c = Inr c'" "batch_idx c' = batch_idx c + 1"
    "unat (batch_idx c') = Suc (unat (batch_idx c))" "length (samples (co_batch c')) = BATCH_SIZE"
    "partial_batch c' = partial_batch c @ [\<lparr>p_sensor = sd, p_cmd = cmd\<rparr>]"
    "co_dropped c' = co_dropped c" "batch_seq c' = batch_seq c"
proof -
  let ?i = "unat (batch_idx c)" and ?p = "\<lparr>p_sensor = sd, p_cmd = cmd\<rparr>"
  have i: "?i < BATCH_SIZE" "length (samples (co_batch c)) = BATCH_SIZE" using assms by (simp_all add: composer_ok_def)
  have s: "unat (batch_idx c + 1) = Suc ?i" using idx_cases [OF assms] by auto
  have "take (Suc ?i) ((samples (co_batch c))[?i := ?p]) = take ?i (samples (co_batch c)) @ [?p]"
    using i by (simp add: take_Suc_conv_app_nth)
  then show thesis
    by (intro that [of "c\<lparr>co_batch := (co_batch c)\<lparr>samples := (samples (co_batch c))[?i := ?p]\<rparr>,
        batch_idx := batch_idx c + 1\<rparr>"])
      (use i s in \<open>simp_all add: store_sample_def arr_set_def partial_batch_def\<close>)
qed

lemma publish_composed_ok:
  assumes "shm_wf shm"
  obtains shm' where "publish_composed sd shm = Inr shm'" "shm_wf shm'"
    "composed_buffers shm' ! unat (composed_write_idx shm') = sd"
    "composed_write_idx shm' = 1 - composed_write_idx shm"
    "composed_sequence shm' = composed_sequence shm + 1" "cmd_buffers shm' = cmd_buffers shm"
    "cmd_write_idx shm' = cmd_write_idx shm" "robot_id shm' = robot_id shm"
proof -
  let ?wb = "1 - composed_write_idx shm"
  let ?s = "shm\<lparr>composed_buffers := (composed_buffers shm)[unat ?wb := sd], composed_write_idx := ?wb,
      composed_sequence := composed_sequence shm + 1\<rparr>"
  have "unat ?wb < length (composed_buffers shm)" using assms by (auto simp: shm_wf_def)
  then show thesis
    by (intro that [of ?s]) (use assms in \<open>auto simp: publish_composed_def arr_set_def shm_wf_def Let_def\<close>)
qed

lemma sealed_batch_simps:
  "batch_pairs (sealed_batch now rid c) = partial_batch c" "samples (sealed_batch now rid c) = samples (co_batch c)"
  "sample_count (sealed_batch now rid c) = batch_idx c"
  "h_magic (b_header (sealed_batch now rid c)) = PAYLOAD_MAGIC"
  "h_sequence (b_header (sealed_batch now rid c)) = batch_seq c"
  "h_payload_size (b_header (sealed_batch now rid c)) = 8 + batch_idx c * 1544"
  by (simp_all add: sealed_batch_def batch_pairs_def partial_batch_def sizeof_uint32_def
      sizeof_SensorCommandPair_def)

lemma flush_batch_simps:
  assumes "flush_batch now rid c ring = (c', ring')"
  shows "batch_idx c' = 0" "samples (co_batch c') = samples (co_batch c)"
    "ring' = snd (ring_push BATCH_RING_CAPACITY (sealed_batch now rid c) ring)"
    "batch_seq c' = batch_seq c + 1"
  using assms by (auto simp: flush_batch_def Let_def case_prod_beta sealed_batch_simps)

text \<open>Everything logged so far: the batches in the ring, then the unfinished batch.\<close>

definition logged :: "Composer \<Rightarrow> batch_ring \<Rightarrow> SensorCommandPair list" where
  "logged c ring = concat (map batch_pairs (ring_list 8 ring)) @ partial_batch c"

lemma push_256:
  assumes "ring_inv 8 ring" "ring_room ring" "length (ring_list 8 ring) < 256"
  shows "ring_list 8 (snd (ring_push BATCH_RING_CAPACITY b ring)) = ring_list 8 ring @ [b]"
    "ring_inv 8 (snd (ring_push BATCH_RING_CAPACITY b ring))"
    "r_head (snd (ring_push BATCH_RING_CAPACITY b ring)) = r_head ring + 1"
  using spsc.push_free [of 8 ring b] ring_push_free [of 8 ring b] assms
  by (simp_all add: BATCH_RING_CAPACITY_def)

lemma flush_logged:
  assumes "flush_batch now rid c ring = (c', ring')" "ring_inv 8 ring" "ring_room ring"
    "length (ring_list 8 ring) < 256" "length (samples (co_batch c)) = BATCH_SIZE"
  shows "logged c' ring' = logged c ring" "ring_inv 8 ring'" "composer_ok c'"
    "length (ring_list 8 ring') = Suc (length (ring_list 8 ring))" "r_head ring' = r_head ring + 1"
    "batch_idx c' = 0"
  using flush_batch_simps [OF assms(1)] push_256 [OF assms(2-4)] assms(5)
  by (simp_all add: logged_def sealed_batch_simps composer_ok_def BATCH_SIZE_def)
    (simp add: partial_batch_def)

lemma compose_cycle_ok:
  assumes "shm_wf shm" "cache_wf pc" "composer_ok c"
  obtains c' shm' ring' c2 sd where "compose_cycle now now' pc (c, shm, ring) = Inr (c', shm', ring')"
    "shm_wf shm'" "composed_buffers shm' ! unat (composed_write_idx shm') = sd"
    "composed_sequence shm' = composed_sequence shm + 1" "compose_timestamp_ns sd = now"
    "partial_batch c2 = partial_batch c @ [\<lparr>p_sensor = sd, p_cmd = cmd_buffers shm ! unat (cmd_write_idx shm)\<rparr>]"
    "unat (batch_idx c2) = Suc (unat (batch_idx c))" "length (samples (co_batch c2)) = BATCH_SIZE"
    "if unat (batch_idx c) = 3 then flush_batch now' (robot_id shm) c2 ring = (c', ring')
     else c' = c2 \<and> ring' = ring"
proof -
  obtain imu ga gb where r: "read_buf (imu_stage shm) = Inr imu" "imu_wf imu"
    "read_buf (motor_group_a_stage shm) = Inr ga" "group_wf ga"
    "read_buf (motor_group_b_stage shm) = Inr gb" "group_wf gb"
    using assms(1) read_wf [of imu_wf "imu_stage shm"] read_wf [of group_wf "motor_group_a_stage shm"]
      read_wf [of group_wf "motor_group_b_stage shm"] unfolding shm_wf_def by metis
  obtain sd where sd: "merge_sources now pc imu ga gb = Inr sd" "compose_timestamp_ns sd = now"
    by (rule merge_sources_ok [OF r(2,4,6) assms(2)]) blast
  obtain shm' where p: "publish_composed sd shm = Inr shm'" "shm_wf shm'"
    "composed_buffers shm' ! unat (composed_write_idx shm') = sd"
    "composed_sequence shm' = composed_sequence shm + 1" "cmd_buffers shm' = cmd_buffers shm"
    "cmd_write_idx shm' = cmd_write_idx shm" "robot_id shm' = robot_id shm"
    by (rule publish_composed_ok [OF assms(1)])
  let ?cmd = "cmd_buffers shm ! unat (cmd_write_idx shm)"
  have cmd: "arr_get (cmd_buffers shm) (unat (cmd_write_idx shm)) = Inr ?cmd"
    using assms(1) by (auto simp: shm_wf_def arr_get_def)
  let ?c1 = "track_staleness now imu ga gb c"
  obtain c2 where c2: "store_sample sd ?cmd ?c1 = Inr c2" "batch_idx c2 = batch_idx ?c1 + 1"
    "unat (batch_idx c2) = Suc (unat (batch_idx ?c1))" "length (samples (co_batch c2)) = BATCH_SIZE"
    "partial_batch c2 = partial_batch ?c1 @ [\<lparr>p_sensor = sd, p_cmd = ?cmd\<rparr>]"
    by (rule store_sample_ok [of ?c1]) (use assms(3) in simp_all)
  have full: "of_nat BATCH_SIZE \<le> batch_idx c2 \<longleftrightarrow> unat (batch_idx c) = 3"
    using assms(3) c2(3) by (auto simp: BATCH_SIZE_def composer_ok_def word_le_nat_alt)
  have pb: "partial_batch ?c1 = partial_batch c" by (simp add: partial_batch_def)
  show thesis
  proof (cases "unat (batch_idx c) = 3")
    case True
    obtain c' ring' where f: "flush_batch now' (robot_id shm) c2 ring = (c', ring')" by fastforce
    show ?thesis
      by (rule that [of c' shm' ring' sd c2])
        (use r sd p cmd c2 f full True pb in \<open>simp_all add: compose_cycle_def Let_def\<close>)
  next
    case False
    show ?thesis
      by (rule that [of c2 shm' ring sd c2])
        (use r sd p cmd c2 full False pb in \<open>simp_all add: compose_cycle_def Let_def\<close>)
  qed
qed

lemma compose_cycle_logged:
  assumes "shm_wf shm" "cache_wf pc" "composer_ok c" "ring_inv 8 ring" "ring_room ring"
    "length (ring_list 8 ring) < 256"
  obtains c' shm' ring' p where "compose_cycle now now' pc (c, shm, ring) = Inr (c', shm', ring')"
    "shm_wf shm'" "composer_ok c'" "ring_inv 8 ring'" "logged c' ring' = logged c ring @ [p]"
    "compose_timestamp_ns (p_sensor p) = now"
    "4 * length (ring_list 8 ring') + unat (batch_idx c') = Suc (4 * length (ring_list 8 ring) + unat (batch_idx c))"
    "r_head ring' = r_head ring \<or> r_head ring' = r_head ring + 1"
proof -
  obtain c' shm' ring' c2 sd where s: "compose_cycle now now' pc (c, shm, ring) = Inr (c', shm', ring')"
    "shm_wf shm'" "compose_timestamp_ns sd = now"
    and c2: "partial_batch c2 = partial_batch c @ [\<lparr>p_sensor = sd, p_cmd = cmd_buffers shm ! unat (cmd_write_idx shm)\<rparr>]"
    "unat (batch_idx c2) = Suc (unat (batch_idx c))" "length (samples (co_batch c2)) = BATCH_SIZE"
    and cs: "if unat (batch_idx c) = 3 then flush_batch now' (robot_id shm) c2 ring = (c', ring')
     else c' = c2 \<and> ring' = ring"
    by (rule compose_cycle_ok [OF assms(1-3)])
  let ?p = "\<lparr>p_sensor = sd, p_cmd = cmd_buffers shm ! unat (cmd_write_idx shm)\<rparr>"
  have l2: "logged c2 ring = logged c ring @ [?p]" by (simp add: logged_def c2)
  show thesis
  proof (cases "unat (batch_idx c) = 3")
    case True
    then have f: "flush_batch now' (robot_id shm) c2 ring = (c', ring')" using cs by simp
    note fl = flush_logged [OF f assms(4-6) c2(3)]
    show ?thesis by (rule that [OF s(1,2) fl(3,2), of ?p]) (use fl l2 s(3) True in simp_all)
  next
    case False
    then have e: "c' = c2" "ring' = ring" using cs by simp_all
    have "composer_ok c2"
      using assms(3) False c2(2,3) by (auto simp: composer_ok_def BATCH_SIZE_def)
    then show ?thesis
      by (intro that [OF s(1,2), of ?p]) (use e assms(4) l2 s(3) c2(2) in simp_all)
  qed
qed

text \<open>What other threads may do to the shared memory between two cycles.\<close>

definition turn_ok :: "u64 \<times> u64 \<times> MotorParamCache \<times> (SharedMemoryLayout \<Rightarrow> SharedMemoryLayout) \<Rightarrow> bool" where
  "turn_ok t \<longleftrightarrow> (case t of (now, now', pc, env) \<Rightarrow> cache_wf pc \<and> (\<forall>shm. shm_wf shm \<longrightarrow> shm_wf (env shm)))"

lemma composer_run_logged:
  assumes "\<forall>t \<in> set ts. turn_ok t" "shm_wf shm" "composer_ok c" "ring_inv 8 ring"
    "4 * length (ring_list 8 ring) + unat (batch_idx c) + length ts \<le> 1020"
    "unat (r_head ring) + length ts < 2 ^ 64 - 2"
  shows "\<exists>c' shm' ring' ps. composer_run ts e (c, shm, ring) = Inr (c', shm', ring') \<and> ring_inv 8 ring' \<and>
    concat (map batch_pairs (ring_list 8 ring')) = logged c ring @ ps \<and>
    map (\<lambda>p. compose_timestamp_ns (p_sensor p)) ps = map fst ts"
  using assms
proof (induction ts arbitrary: c shm ring)
  case Nil
  have room: "ring_room ring" using Nil(6) by (auto simp: ring_room_def)
  show ?case
  proof (cases "0 < batch_idx c")
    case True
    obtain c' ring' where f: "flush_batch e (robot_id shm) c ring = (c', ring')" by fastforce
    have "length (samples (co_batch c)) = BATCH_SIZE" "length (ring_list 8 ring) < 256"
      using Nil by (auto simp: composer_ok_def)
    note fl = flush_logged [OF f Nil(4) room this(2,1)]
    have "partial_batch c' = []" using fl(6) by (simp add: partial_batch_def)
    then show ?thesis using f fl True by (auto simp: logged_def)
  next
    case False
    then have "batch_idx c = 0" by (metis word_neq_0_conv)
    then have "partial_batch c = []" by (simp add: partial_batch_def)
    then show ?thesis using False Nil(4) by (auto simp: logged_def)
  qed
next
  case (Cons t ts)
  obtain now now' pc env where t: "t = (now, now', pc, env)" by (cases t)
  have pre: "cache_wf pc" "shm_wf (env shm)" "ring_room ring" "length (ring_list 8 ring) < 256"
    using Cons.prems by (auto simp: t turn_ok_def ring_room_def)
  obtain c1 shm1 ring1 p where c: "compose_cycle now now' pc (c, env shm, ring) = Inr (c1, shm1, ring1)"
    "shm_wf shm1" "composer_ok c1" "ring_inv 8 ring1" "logged c1 ring1 = logged c ring @ [p]"
    "compose_timestamp_ns (p_sensor p) = now"
    "4 * length (ring_list 8 ring1) + unat (batch_idx c1) = Suc (4 * length (ring_list 8 ring) + unat (batch_idx c))"
    "r_head ring1 = r_head ring \<or> r_head ring1 = r_head ring + 1"
    by (rule compose_cycle_logged [OF pre(2,1) Cons.prems(3,4) pre(3,4)])
  have "unat (r_head ring1) \<le> Suc (unat (r_head ring))"
    using c(8) pre(3) unat_succ_u64 [of "r_head ring"] by (auto simp: ring_room_def)
  then have "\<exists>c' shm' ring' ps. composer_run ts e (c1, shm1, ring1) = Inr (c', shm', ring') \<and> ring_inv 8 ring' \<and>
      concat (map batch_pairs (ring_list 8 ring')) = logged c1 ring1 @ ps \<and>
      map (\<lambda>p. compose_timestamp_ns (p_sensor p)) ps = map fst ts"
    using Cons.prems c(7) by (intro Cons.IH [OF _ c(2-4)]) auto
  then obtain c' shm' ring' ps where "composer_run ts e (c1, shm1, ring1) = Inr (c', shm', ring')" "ring_inv 8 ring'"
      "concat (map batch_pairs (ring_list 8 ring')) = logged c ring @ p # ps"
      "map (\<lambda>p. compose_timestamp_ns (p_sensor p)) ps = map fst ts"
    using c(5) by auto
  then show ?case
    using c(1,6) by (intro exI [of _ c'] exI [of _ shm'] exI [of _ ring'] exI [of _ "p # ps"]) (simp add: t)
qed

section \<open>Properties\<close>







end
