(* ===== verification/Legged.thy ===== *)
theory Legged
  imports Motor Composer
begin

text \<open>
  \<open>src/subsystems/Legged.cpp\<close>: a leg drives the motors of its group from the command in shared
  memory and stages their feedback.  A leg refers to its motors by their addresses; \<open>l_shm\<close>
  says whether its shared-memory pointer is set and \<open>l_staging\<close> which staging buffer it
  publishes to.  The mapping itself is \<open>w_shm\<close>; using it after it is gone is a fault.
  Clock readings are arguments.
\<close>

section \<open>State\<close>

datatype staging = StageA | StageB

datatype DisableReason = SHM_INVALID_MAGIC | SHM_VERSION_MISMATCH | CONTROLLER_EMERGENCY_STOP
  | EMERGENCY_STOP_ACTIVE | CMD_WRITE_IDX_INVALID

record Legged =
  l_baseId :: int
  m_groupOffset :: int
  l_motors :: "nat list"
  m_motorResponsive :: "bool list"
  l_paramQueryCycle :: u64
  l_shm :: bool
  l_staging :: "staging option"
  m_motorsFaultDisabled :: bool
  m_lastControllerStartNs :: u64
  m_isEnabled :: bool
  m_ready :: bool

record leg_world = motor_world +
  w_shm :: "SharedMemoryLayout option"

definition COMMAND_STALE_THRESHOLD_NS :: u64 where "COMMAND_STALE_THRESHOLD_NS = HEARTBEAT_STALE_NS"
definition MOTOR_RESPONSIVE_TIMEOUT_NS :: u64 where "MOTOR_RESPONSIVE_TIMEOUT_NS = 100000000"

section \<open>Enabling and disabling\<close>

definition disableAllMotorsOnce ::
    "DisableReason \<Rightarrow> Legged \<Rightarrow> 'z motor_world_scheme \<Rightarrow> fault + Legged \<times> 'z motor_world_scheme" where
  "disableAllMotorsOnce reason l w =
     (if m_motorsFaultDisabled l then Inr (l, w)
      else bindR (foldR disableMotor (l_motors l) w)
             (\<lambda>w'. Inr (l\<lparr>m_motorsFaultDisabled := True\<rparr>, w')))"

definition setEnable :: "bool \<Rightarrow> Legged \<Rightarrow> 'z motor_world_scheme \<Rightarrow> fault + Legged \<times> 'z motor_world_scheme" where
  "setEnable en l w =
     (if en \<and> \<not> m_isEnabled l then
        bindR (foldR enableMotor (l_motors l) w) (\<lambda>w'.
          Inr (l\<lparr>m_motorsFaultDisabled := False,
                 m_motorResponsive := replicate (length (m_motorResponsive l)) False,
                 m_isEnabled := True\<rparr>, w'))
      else if \<not> en \<and> m_isEnabled l then
        bindR (foldR disableMotor (l_motors l) w) (\<lambda>w'. Inr (l\<lparr>m_isEnabled := False\<rparr>, w'))
      else Inr (l, w))"

definition disabledInit :: "Legged \<Rightarrow> Legged" where
  "disabledInit l = l\<lparr>m_isEnabled := False\<rparr>"

definition autonomousInit :: "Legged \<Rightarrow> 'z motor_world_scheme \<Rightarrow> fault + Legged \<times> 'z motor_world_scheme" where
  "autonomousInit l w = setEnable True l w"

definition teleopInit :: "Legged \<Rightarrow> 'z motor_world_scheme \<Rightarrow> fault + Legged \<times> 'z motor_world_scheme" where
  "teleopInit l w = setEnable True l w"

datatype message_type = MSG_ENABLE_SUBSYSTEM | MSG_DISABLE_SUBSYSTEM | MSG_EMERGENCY_STOP | MSG_other u8

definition decode_message :: "u8 \<Rightarrow> message_type" where
  "decode_message t = (if t = 0x10 then MSG_ENABLE_SUBSYSTEM else if t = 0x11 then MSG_DISABLE_SUBSYSTEM
     else if t = 0x12 then MSG_EMERGENCY_STOP else MSG_other t)"

definition onMessage ::
    "u8 \<Rightarrow> Legged \<Rightarrow> 'z motor_world_scheme \<Rightarrow> fault + Legged \<times> 'z motor_world_scheme" where
  "onMessage t l w =
     (case decode_message t of
        MSG_ENABLE_SUBSYSTEM \<Rightarrow> setEnable True l w
      | MSG_DISABLE_SUBSYSTEM \<Rightarrow> setEnable False l w
      | MSG_EMERGENCY_STOP \<Rightarrow> setEnable False l w
      | MSG_other _ \<Rightarrow> Inr (l, w))"

definition setShmPointers :: "bool \<Rightarrow> staging option \<Rightarrow> Legged \<Rightarrow> Legged" where
  "setShmPointers shm stg l = l\<lparr>l_shm := shm, l_staging := stg\<rparr>"

fun status_bits :: "nat \<Rightarrow> bool list \<Rightarrow> u32" where
  "status_bits i [] = 0"
| "status_bits i (b # bs) = (if b then push_bit i 1 else 0) OR status_bits (Suc i) bs"

definition getMotorStatusBits :: "Legged \<Rightarrow> u32" where
  "getMotorStatusBits l = status_bits 0 (m_motorResponsive l)"

section \<open>Construction and destruction\<close>

fun make_motors ::
    "u32 list \<Rightarrow> bool \<Rightarrow> 'z motor_world_scheme \<Rightarrow> fault + nat list \<times> 'z motor_world_scheme" where
  "make_motors [] cache w = Inr ([], w)"
| "make_motors (i # ids) cache w =
     bindR (Motor_ctor DM8009 i cache w) (\<lambda>(n, w1).
     bindR (make_motors ids cache w1) (\<lambda>(ns, w2). Inr (n # ns, w2)))"

definition Legged_ctor ::
    "int \<Rightarrow> int \<Rightarrow> bool \<Rightarrow> 'z motor_world_scheme \<Rightarrow> fault + Legged \<times> 'z motor_world_scheme" where
  "Legged_ctor baseId motorsPerLeg cache w =
     bindR (make_motors (map word_of_int [baseId .. baseId + motorsPerLeg - 1]) cache w) (\<lambda>(ms, w1).
     bindR (foldR enableMotor ms w1) (\<lambda>w2.
       Inr (\<lparr>l_baseId = baseId, m_groupOffset = (if baseId = 1 then 0 else int MOTORS_PER_GROUP),
             l_motors = ms, m_motorResponsive = replicate (length ms) False, l_paramQueryCycle = 0,
             l_shm = False, l_staging = None, m_motorsFaultDisabled = False,
             m_lastControllerStartNs = 0, m_isEnabled = False, m_ready = True\<rparr>, w2)))"

definition Legged_dtor :: "Legged \<Rightarrow> 'z motor_world_scheme \<Rightarrow> fault + 'z motor_world_scheme" where
  "Legged_dtor l w = foldR (\<lambda>n v. bindR (setZeroCommand n v) (disableMotor n)) (l_motors l) w"

section \<open>The control cycle\<close>

definition joint_mit :: "Command \<Rightarrow> nat \<Rightarrow> fault + MITParam" where
  "joint_mit cmd j =
     bindR (arr_get (c_kp cmd) j) (\<lambda>a.
     bindR (arr_get (c_kd cmd) j) (\<lambda>b.
     bindR (arr_get (jpos_cmd cmd) j) (\<lambda>x.
     bindR (arr_get (jvel_cmd cmd) j) (\<lambda>v.
     bindR (arr_get (jtorque_cmd cmd) j) (\<lambda>t.
       Inr \<lparr>mit_kp = a, mit_kd = b, mit_q = x, mit_dq = v, mit_tau = t\<rparr>)))))"

definition dispatch_motor ::
    "(real \<Rightarrow> real) \<Rightarrow> (nat \<Rightarrow> u64) \<Rightarrow> Command \<Rightarrow> Legged \<Rightarrow> nat \<Rightarrow> 'z motor_world_scheme \<Rightarrow> fault + 'z motor_world_scheme" where
  "dispatch_motor rnd clk cmd l i w =
     (let j = m_groupOffset l + int i in
      if j < 0 \<or> int NUM_ACT_JOINT \<le> j then Inr w
      else bindR (arr_get (c_enabled cmd) (nat j)) (\<lambda>en.
        if en = 0 then Inr w
        else bindR (joint_mit cmd (nat j)) (\<lambda>mit. setMitControl rnd (clk i) (l_motors l ! i) mit w)))"

definition dispatch_commands ::
    "(real \<Rightarrow> real) \<Rightarrow> (nat \<Rightarrow> u64) \<Rightarrow> Command \<Rightarrow> Legged \<Rightarrow> 'z motor_world_scheme \<Rightarrow> fault + 'z motor_world_scheme" where
  "dispatch_commands rnd clk cmd l w =
     foldR (dispatch_motor rnd clk cmd l) [0..<length (l_motors l)] w"

definition cmd_stale :: "u64 \<Rightarrow> Command \<Rightarrow> bool" where
  "cmd_stale now_ns cmd =
     (let cmd_age_ns = (if 0 < c_timestamp_ns cmd \<and> c_timestamp_ns cmd \<le> now_ns
                        then now_ns - c_timestamp_ns cmd else 0)
      in 0 < c_timestamp_ns cmd \<and> COMMAND_STALE_THRESHOLD_NS < cmd_age_ns)"

text \<open>The part gated on \<open>isEnabled()\<close>.\<close>

definition actuate ::
    "(real \<Rightarrow> real) \<Rightarrow> u64 \<Rightarrow> (nat \<Rightarrow> u64) \<Rightarrow> SharedMemoryLayout \<Rightarrow> Legged \<Rightarrow> 'z motor_world_scheme \<Rightarrow>
     fault + Legged \<times> 'z motor_world_scheme" where
  "actuate rnd now_ns clk shm l w =
     (if \<not> m_isEnabled l then Inr (l, w)
      else if 1 < cmd_write_idx shm then disableAllMotorsOnce CMD_WRITE_IDX_INVALID l w
      else bindR (arr_get (cmd_buffers shm) (unat (cmd_write_idx shm))) (\<lambda>cmd.
        if cmd_stale now_ns cmd then Inr (l, w)
        else bindR (dispatch_commands rnd clk cmd l w) (\<lambda>w'. Inr (l, w'))))"

text \<open>The loop over the motors that fills the staging data, one motor at a time.\<close>

definition stage_motor :: "nat \<Rightarrow> Motor \<Rightarrow> MotorGroupStageData \<Rightarrow> fault + MotorGroupStageData" where
  "stage_motor i m d =
     bindR (arr_set (g_joint_jpos d) i (m_stateQ m)) (\<lambda>a.
     bindR (arr_set (g_joint_jvel d) i (m_stateDq m)) (\<lambda>b.
     bindR (arr_set (g_motor_jpos d) i (m_stateQ m)) (\<lambda>c.
     bindR (arr_set (g_motor_jvel d) i (m_stateDq m)) (\<lambda>e.
     bindR (arr_set (g_jtorque d) i (m_stateTau m)) (\<lambda>f.
     bindR (arr_set (g_mos_temperature d) i (m_stateTmos m)) (\<lambda>g.
     bindR (arr_set (g_rotor_temperature d) i (m_stateTrotor m)) (\<lambda>h.
     bindR (arr_set (g_motor_status d) i (word_of_int (m_status m))) (\<lambda>s.
       Inr (d\<lparr>g_joint_jpos := a, g_joint_jvel := b, g_motor_jpos := c, g_motor_jvel := e,
              g_jtorque := f, g_mos_temperature := g, g_rotor_temperature := h,
              g_motor_status := s\<rparr>)))))))))"

definition responsive :: "u64 \<Rightarrow> Motor \<Rightarrow> bool" where
  "responsive now_ns m =
     (let lastUpdate = m_lastUpdateTime m;
          age_ns = (if lastUpdate \<noteq> 0 \<and> lastUpdate \<le> now_ns then now_ns - lastUpdate else 0)
      in lastUpdate \<noteq> 0 \<and> age_ns < MOTOR_RESPONSIVE_TIMEOUT_NS)"

fun stage_motors ::
    "u64 \<Rightarrow> nat \<Rightarrow> nat list \<Rightarrow> 'z motor_world_scheme \<Rightarrow> MotorGroupStageData \<times> bool list \<Rightarrow>
     fault + MotorGroupStageData \<times> bool list" where
  "stage_motors now_ns i [] w s = Inr s"
| "stage_motors now_ns i (n # ns) w (d, rs) =
     bindR (get_motor n w) (\<lambda>m.
     bindR (stage_motor i m d) (\<lambda>d'.
     bindR (arr_set rs i (responsive now_ns m)) (\<lambda>rs'. stage_motors now_ns (Suc i) ns w (d', rs'))))"

definition publish_stage ::
    "staging \<Rightarrow> MotorGroupStageData \<Rightarrow> SharedMemoryLayout \<Rightarrow> fault + SharedMemoryLayout" where
  "publish_stage stg d shm =
     (case stg of
        StageA \<Rightarrow> bindR (publish g_timestamp_ns d (motor_group_a_stage shm))
                    (\<lambda>b. Inr (shm\<lparr>motor_group_a_stage := b\<rparr>))
      | StageB \<Rightarrow> bindR (publish g_timestamp_ns d (motor_group_b_stage shm))
                    (\<lambda>b. Inr (shm\<lparr>motor_group_b_stage := b\<rparr>)))"

definition stage_feedback ::
    "u64 \<Rightarrow> u64 \<Rightarrow> SharedMemoryLayout \<Rightarrow> Legged \<Rightarrow> 'z leg_world_scheme \<Rightarrow> fault + Legged \<times> 'z leg_world_scheme" where
  "stage_feedback cp_start cp_end shm l w =
     (case l_staging l of
        None \<Rightarrow> Inr (l, w)
      | Some stg \<Rightarrow>
          bindR (stage_motors cp_start 0 (l_motors l) w (MotorGroupStageData_zero, m_motorResponsive l))
            (\<lambda>(d, rs).
          let d' = d\<lparr>controller_duration_us := ucast ((cp_end - cp_start) div 1000),
                     controller_interval_us :=
                       (if m_lastControllerStartNs l \<noteq> 0
                        then ucast ((cp_start - m_lastControllerStartNs l) div 1000) else 0),
                     g_timestamp_ns := cp_start, g_sequence := composed_sequence shm + 1\<rparr>
          in bindR (publish_stage stg d' shm) (\<lambda>shm'.
               Inr (l\<lparr>m_motorResponsive := rs, m_lastControllerStartNs := cp_start\<rparr>,
                    w\<lparr>w_shm := Some shm'\<rparr>))))"

definition controllerPeriodic ::
    "(real \<Rightarrow> real) \<Rightarrow> u64 \<Rightarrow> (nat \<Rightarrow> u64) \<Rightarrow> u64 \<Rightarrow> Legged \<Rightarrow> 'z leg_world_scheme \<Rightarrow>
     fault + Legged \<times> 'z leg_world_scheme" where
  "controllerPeriodic rnd cp_start clk cp_end l w =
     (if \<not> l_shm l then Inr (l, w)
      else case w_shm w of
          None \<Rightarrow> Inl NullDeref
        | Some shm \<Rightarrow>
            if magic shm \<noteq> SHM_MAGIC then disableAllMotorsOnce SHM_INVALID_MAGIC l w
            else if version shm \<noteq> SHM_VERSION then disableAllMotorsOnce SHM_VERSION_MISMATCH l w
            else if controller_emergency_stop shm
            then disableAllMotorsOnce CONTROLLER_EMERGENCY_STOP l w
            else bindR (actuate rnd cp_start clk shm l w) (\<lambda>(l1, w1).
                   stage_feedback cp_start cp_end shm l1 w1))"

text \<open>The supervisory cycle: every tenth call queries one register of one motor.\<close>

definition leg_robotPeriodic ::
    "bytes \<Rightarrow> Legged \<Rightarrow> 'z motor_world_scheme \<Rightarrow> fault + Legged \<times> 'z motor_world_scheme" where
  "leg_robotPeriodic junk l w =
     bindR (if l_paramQueryCycle l mod 10 = 0 then
              (if l_motors l = [] then Inl DivByZero
               else let motor_idx = unat ((l_paramQueryCycle l div 10) mod of_nat (length (l_motors l)))
                    in getRegParam junk (l_motors l ! motor_idx) 21 w)
            else Inr w)
       (\<lambda>w1. Inr (l\<lparr>l_paramQueryCycle := l_paramQueryCycle l + 1\<rparr>, w1))"

section \<open>Commands to all motors of a leg\<close>

lemma w_shm_frame [simp]:
  "w_shm (putInstance i s w) = w_shm w" "w_shm (update_storage h f w) = w_shm w"
  "w_shm (put_motor n m w) = w_shm w"
  by (simp_all add: putInstance_def update_storage_def put_motor_def)

lemma sendMessage_shm: "sendMessage n d a r w = Inr w' \<Longrightarrow> w_shm w' = w_shm w"
  by (auto simp: sendMessage_def writePacket_def HAL_WriteCANPacket_def sendMsg_def Let_def bindR_Inr_iff
      split: option.splits)

lemma setMitControl_shm: "setMitControl rnd t n p w = Inr w' \<Longrightarrow> w_shm w' = w_shm w"
  by (auto simp: setMitControl_def Let_def bindR_Inr_iff dest: sendMessage_shm)

lemma foldR_sendMessage:
  assumes "\<forall>n \<in> set ns. wired w n" "length d = 8"
  shows "\<exists>w'. foldR (\<lambda>n. sendMessage n d a False) ns w = Inr w' \<and> same_wiring w w' \<and> motors w' = motors w \<and>
    sent w' = sent w @ map (\<lambda>n. command_dg (maxCanDevice w) (motors w ! n) a d) ns"
  using assms(1)
proof (induction ns arbitrary: w)
  case (Cons n ns)
  obtain w1 where w1: "sendMessage n d a False w = Inr w1" "same_wiring w w1"
    "sent w1 = sent w @ [command_dg (maxCanDevice w) (motors w ! n) a d]" "motors w1 = motors w"
    by (rule sendMessage_wired [of w n d a]) (use Cons.prems assms(2) in auto)
  have "\<forall>k \<in> set ns. wired w1 k" using Cons.prems same_wiring_wired [OF w1(2)] by auto
  then obtain w' where w': "foldR (\<lambda>n. sendMessage n d a False) ns w1 = Inr w'" "same_wiring w1 w'"
    "motors w' = motors w1"
    "sent w' = sent w1 @ map (\<lambda>n. command_dg (maxCanDevice w1) (motors w1 ! n) a d) ns"
    using Cons.IH [of w1] by auto
  have "maxCanDevice w1 = maxCanDevice w" using w1(2) by (simp add: same_wiring_def)
  then show ?case
    using w' w1 same_wiring_trans [OF w1(2) w'(2)] by (intro exI [of _ w']) simp
qed simp

lemma foldR_send:
  assumes op: "op = (\<lambda>n. sendMessage n d a False)" and "\<forall>n \<in> set ns. wired w n" "length d = 8"
  obtains w' where "foldR op ns w = Inr w'" "same_wiring w w'" "motors w' = motors w"
    "sent w' = sent w @ map (\<lambda>n. command_dg (maxCanDevice w) (motors w ! n) a d) ns"
  using foldR_sendMessage [OF assms(2,3), of a] that unfolding op by auto

lemma foldR_shm:
  fixes w :: "'z leg_world_scheme"
  assumes "foldR op ns w = Inr w'" "\<And>n v v'. op n v = Inr v' \<Longrightarrow> w_shm v' = w_shm v"
  shows "w_shm w' = w_shm w"
  by (rule foldR_inv [where P = "\<lambda>v. w_shm v = w_shm w", OF _ _ assms(1)]) (simp_all add: assms(2))

definition leg_wired :: "'z motor_world_scheme \<Rightarrow> Legged \<Rightarrow> bool" where
  "leg_wired w l \<longleftrightarrow> (\<forall>n \<in> set (l_motors l). wired w n)"

definition leg_frames :: "bytes \<Rightarrow> Legged \<Rightarrow> 'z motor_world_scheme \<Rightarrow> datagram list" where
  "leg_frames d l w = map (\<lambda>n. command_dg (maxCanDevice w) (motors w ! n) 0 d) (l_motors l)"

lemma disable_all:
  assumes "leg_wired w l"
  obtains w' where "foldR disableMotor (l_motors l) w = Inr w'" "same_wiring w w'" "motors w' = motors w"
    "sent w' = sent w @ leg_frames dataframe_disable_motor l w"
  by (rule foldR_send [of disableMotor dataframe_disable_motor 0 "l_motors l" w])
    (use assms that in \<open>auto simp: leg_wired_def disableMotor_def dataframe_disable_motor_def leg_frames_def fun_eq_iff\<close>)

lemma enable_all:
  assumes "leg_wired w l"
  obtains w' where "foldR enableMotor (l_motors l) w = Inr w'" "same_wiring w w'" "motors w' = motors w"
    "sent w' = sent w @ leg_frames dataframe_enable_motor l w"
  by (rule foldR_send [of enableMotor dataframe_enable_motor 0 "l_motors l" w])
    (use assms that in \<open>auto simp: leg_wired_def enableMotor_def dataframe_enable_motor_def leg_frames_def fun_eq_iff\<close>)

lemma disableMotor_shm: "disableMotor n w = Inr w' \<Longrightarrow> w_shm w' = w_shm w"
  by (simp add: disableMotor_def sendMessage_shm)

lemma leg_wired_same: "same_wiring w w' \<Longrightarrow> leg_wired w l \<Longrightarrow> leg_wired w' l"
  by (simp add: leg_wired_def same_wiring_wired)

section \<open>Dispatch\<close>

definition command_wf :: "Command \<Rightarrow> bool" where
  "command_wf c \<longleftrightarrow> length (jtorque_cmd c) = 12 \<and> length (jpos_cmd c) = 12 \<and> length (jvel_cmd c) = 12 \<and>
     length (c_kp c) = 12 \<and> length (c_kd c) = 12 \<and> length (c_enabled c) = 12"

definition joint_param :: "Command \<Rightarrow> nat \<Rightarrow> MITParam" where
  "joint_param cmd j = \<lparr>mit_kp = c_kp cmd ! j, mit_kd = c_kd cmd ! j, mit_q = jpos_cmd cmd ! j,
     mit_dq = jvel_cmd cmd ! j, mit_tau = jtorque_cmd cmd ! j\<rparr>"

lemma joint_mit_ok: "command_wf cmd \<Longrightarrow> j < 12 \<Longrightarrow> joint_mit cmd j = Inr (joint_param cmd j)"
  by (simp add: joint_mit_def arr_get_def command_wf_def joint_param_def)

text \<open>The datagrams a dispatch sends: one per joint enabled in the command.\<close>

definition mit_dg :: "Command \<Rightarrow> Legged \<Rightarrow> 'z motor_world_scheme \<Rightarrow> nat \<Rightarrow> datagram" where
  "mit_dg cmd l w i =
     (let m = motors w ! (l_motors l ! i) in
      command_dg (maxCanDevice w) m 0
        (projr (mit_frame rnd64 (m_motorType m) (joint_param cmd (nat (m_groupOffset l) + i)))))"

definition dispatched :: "Command \<Rightarrow> Legged \<Rightarrow> nat list" where
  "dispatched cmd l =
     filter (\<lambda>i. c_enabled cmd ! (nat (m_groupOffset l) + i) \<noteq> 0) [0..<length (l_motors l)]"

text \<open>What a leg reads off a motor.\<close>

definition observed :: "Motor \<Rightarrow> double \<times> double \<times> double \<times> int \<times> int \<times> int \<times> u64" where
  "observed m = (m_stateQ m, m_stateDq m, m_stateTau m, m_stateTmos m, m_stateTrotor m, m_status m,
     m_lastUpdateTime m)"

definition leg_ok :: "Legged \<Rightarrow> bool" where
  "leg_ok l \<longleftrightarrow> m_groupOffset l \<in> {0, 6} \<and> length (l_motors l) \<le> 6 \<and>
     length (m_motorResponsive l) = length (l_motors l)"

lemma mit_frame_length:
  obtains d where "mit_frame rnd64 mt p = Inr d" "length d = 8"
proof (cases mt)
  case DM8009
  have "MOTOR_LIMIT_PARAMS mt = \<lparr>pMax = Fin (25 / 2), vMax = Fin 45, tMax = Fin 54\<rparr>"
    by (simp add: DM8009 MOTOR_LIMIT_PARAMS_def)
  then show ?thesis by (rule mit_frame_ok [of mt _ _ _ p]) (simp add: that)
next
  case DM10010L
  have "MOTOR_LIMIT_PARAMS mt = \<lparr>pMax = Fin (25 / 2), vMax = Fin 25, tMax = Fin 200\<rparr>"
    by (simp add: DM10010L MOTOR_LIMIT_PARAMS_def)
  then show ?thesis by (rule mit_frame_ok [of mt _ _ _ p]) (simp add: that)
qed

lemma command_dg_key: "motor_key m = motor_key m' \<Longrightarrow> command_dg mx m a d = command_dg mx m' a d"
  by (simp add: command_dg_def motor_key_def dev_of_def)

lemma mit_dg_same:
  assumes "same_wiring w w'" "l_motors l ! i < length (motors w)"
  shows "mit_dg cmd l w' i = mit_dg cmd l w i"
proof -
  have "motor_key (motors w' ! (l_motors l ! i)) = motor_key (motors w ! (l_motors l ! i))"
    using same_wiring_motor [OF assms] by (simp add: motor_key_def)
  note key = command_dg_key [OF this]
  have "m_motorType (motors w' ! (l_motors l ! i)) = m_motorType (motors w ! (l_motors l ! i))"
    "maxCanDevice w' = maxCanDevice w"
    using same_wiring_motor [OF assms] assms(1) by (simp_all add: motor_key_def same_wiring_def)
  then show ?thesis by (simp only: mit_dg_def Let_def key)
qed

lemma observed_update:
  "n < length ms \<Longrightarrow>
   (map observed ms)[n := observed ((ms ! n)\<lparr>m_lastMitParam := p, m_lastSendTimeNs := t\<rparr>)] = map observed ms"
  by (rule nth_equalityI) (auto simp: nth_list_update observed_def)

lemma dispatch_motor_ok:
  assumes "leg_wired w l" "leg_ok l" "command_wf cmd" "i < length (l_motors l)"
  obtains w' where "dispatch_motor rnd64 clk cmd l i w = Inr w'" "same_wiring w w'"
    "sent w' = sent w @ (if c_enabled cmd ! (nat (m_groupOffset l) + i) \<noteq> 0 then [mit_dg cmd l w i] else [])"
    "map observed (motors w') = map observed (motors w)"
proof -
  let ?j = "nat (m_groupOffset l) + i" and ?n = "l_motors l ! i"
  have j: "nat (m_groupOffset l + int i) = ?j" "?j < 12" "0 \<le> m_groupOffset l + int i" "m_groupOffset l + int i < 12"
    using assms(2,4) by (auto simp: leg_ok_def)
  have en: "arr_get (c_enabled cmd) ?j = Inr (c_enabled cmd ! ?j)"
    using assms(3) j by (simp add: arr_get_def command_wf_def)
  have step: "dispatch_motor rnd64 clk cmd l i w =
      (if c_enabled cmd ! ?j = 0 then Inr w else setMitControl rnd64 (clk i) ?n (joint_param cmd ?j) w)"
    using j en joint_mit_ok [OF assms(3) j(2)]
    by (simp add: dispatch_motor_def NUM_ACT_JOINT_def Let_def)
  show thesis
  proof (cases "c_enabled cmd ! ?j = 0")
    case True
    then show ?thesis using that [of w] step by simp
  next
    case False
    have wn: "wired w ?n" using assms(1,4) by (simp add: leg_wired_def)
    obtain d where d: "mit_frame rnd64 (m_motorType (motors w ! ?n)) (joint_param cmd ?j) = Inr d" "length d = 8"
      by (rule mit_frame_length)
    obtain w' where "setMitControl rnd64 (clk i) ?n (joint_param cmd ?j) w = Inr w'" "same_wiring w w'"
      "sent w' = sent w @ [command_dg (maxCanDevice w) (motors w ! ?n) 0 d]"
      "motors w' = (motors w)[?n := (motors w ! ?n)\<lparr>m_lastMitParam := joint_param cmd ?j, m_lastSendTimeNs := clk i\<rparr>]"
      by (rule setMitControl_wired [OF wn d])
    moreover have "?n < length (motors w)" using wn by (simp add: wired_def)
    ultimately show ?thesis
      using that [of w'] step False d(1) by (simp add: mit_dg_def Let_def map_update observed_update)
  qed
qed

lemma dispatch_prefix:
  assumes "leg_wired w l" "leg_ok l" "command_wf cmd" "k \<le> length (l_motors l)"
  shows "\<exists>w'. foldR (dispatch_motor rnd64 clk cmd l) [0..<k] w = Inr w' \<and> same_wiring w w' \<and>
    sent w' = sent w @ map (mit_dg cmd l w)
      (filter (\<lambda>i. c_enabled cmd ! (nat (m_groupOffset l) + i) \<noteq> 0) [0..<k]) \<and> map observed (motors w') = map observed (motors w)"
  using assms(4)
proof (induction k)
  case (Suc k)
  then obtain w1 where w1: "foldR (dispatch_motor rnd64 clk cmd l) [0..<k] w = Inr w1" "same_wiring w w1"
    "sent w1 = sent w @ map (mit_dg cmd l w)
      (filter (\<lambda>i. c_enabled cmd ! (nat (m_groupOffset l) + i) \<noteq> 0) [0..<k])" "map observed (motors w1) = map observed (motors w)" by auto
  have k: "k < length (l_motors l)" using Suc.prems by simp
  then have "wired w (l_motors l ! k)" using assms(1) by (simp add: leg_wired_def)
  then have same: "mit_dg cmd l w1 k = mit_dg cmd l w k"
    by (intro mit_dg_same [OF w1(2)]) (simp add: wired_def)
  obtain w' where "dispatch_motor rnd64 clk cmd l k w1 = Inr w'" "same_wiring w1 w'"
    "sent w' = sent w1 @ (if c_enabled cmd ! (nat (m_groupOffset l) + k) \<noteq> 0 then [mit_dg cmd l w1 k] else [])"
    "map observed (motors w') = map observed (motors w1)"
    by (rule dispatch_motor_ok [OF leg_wired_same [OF w1(2) assms(1)] assms(2,3) k])
  then show ?case
    using w1 same same_wiring_trans [OF w1(2)] by (auto simp: foldR_append)
qed simp

lemma dispatch_commands_ok:
  assumes "leg_wired w l" "leg_ok l" "command_wf cmd"
  obtains w' where "dispatch_commands rnd64 clk cmd l w = Inr w'" "same_wiring w w'"
    "sent w' = sent w @ map (mit_dg cmd l w) (dispatched cmd l)"
    "map observed (motors w') = map observed (motors w)"
  using dispatch_prefix [OF assms order_refl, of clk] that
  by (auto simp: dispatch_commands_def dispatched_def)

section \<open>Staging\<close>

definition put_at :: "nat \<Rightarrow> 'a list \<Rightarrow> 'a list \<Rightarrow> 'a list" where
  "put_at i ys xs = take i xs @ ys @ drop (i + length ys) xs"

lemma put_at_Nil [simp]: "put_at i [] xs = xs"
  by (simp add: put_at_def)

lemma put_at_Cons: "i < length xs \<Longrightarrow> put_at (Suc i) ys (xs[i := y]) = put_at i (y # ys) xs"
  by (simp add: put_at_def take_Suc_conv_app_nth)

lemma put_at_0: "length ys = length xs \<Longrightarrow> put_at 0 ys xs = ys"
  by (simp add: put_at_def)

lemma stage_motor_ok:
  assumes "group_wf d" "i < 6"
  shows "stage_motor i m d =
    Inr (d\<lparr>g_joint_jpos := (g_joint_jpos d)[i := m_stateQ m], g_joint_jvel := (g_joint_jvel d)[i := m_stateDq m],
           g_motor_jpos := (g_motor_jpos d)[i := m_stateQ m], g_motor_jvel := (g_motor_jvel d)[i := m_stateDq m],
           g_jtorque := (g_jtorque d)[i := m_stateTau m],
           g_mos_temperature := (g_mos_temperature d)[i := m_stateTmos m],
           g_rotor_temperature := (g_rotor_temperature d)[i := m_stateTrotor m],
           g_motor_status := (g_motor_status d)[i := word_of_int (m_status m)]\<rparr>)"
  using assms by (simp add: stage_motor_def arr_set_def group_wf_def)

lemma stage_motors_ok:
  assumes "\<forall>n \<in> set ns. n < length (motors w)" "group_wf d" "i + length ns \<le> 6" "i + length ns \<le> length rs"
  shows "\<exists>d'. stage_motors now i ns w (d, rs) = Inr (d', put_at i (map (\<lambda>n. responsive now (motors w ! n)) ns) rs) \<and>
    group_wf d' \<and> g_joint_jpos d' = put_at i (map (\<lambda>n. m_stateQ (motors w ! n)) ns) (g_joint_jpos d) \<and>
    g_joint_jvel d' = put_at i (map (\<lambda>n. m_stateDq (motors w ! n)) ns) (g_joint_jvel d) \<and>
    g_jtorque d' = put_at i (map (\<lambda>n. m_stateTau (motors w ! n)) ns) (g_jtorque d)"
  using assms
proof (induction ns arbitrary: i d rs)
  case (Cons n ns)
  let ?m = "motors w ! n"
  obtain d1 where st: "stage_motor i ?m d = Inr d1" and wf1: "group_wf d1"
    and f: "g_joint_jpos d1 = (g_joint_jpos d)[i := m_stateQ ?m]"
      "g_joint_jvel d1 = (g_joint_jvel d)[i := m_stateDq ?m]" "g_jtorque d1 = (g_jtorque d)[i := m_stateTau ?m]"
    using Cons.prems by (simp add: stage_motor_ok) (simp add: group_wf_def)
  obtain d' where d': "stage_motors now (Suc i) ns w (d1, rs[i := responsive now ?m]) =
      Inr (d', put_at (Suc i) (map (\<lambda>n. responsive now (motors w ! n)) ns) (rs[i := responsive now ?m]))"
    "group_wf d'" "g_joint_jpos d' = put_at (Suc i) (map (\<lambda>n. m_stateQ (motors w ! n)) ns) (g_joint_jpos d1)"
    "g_joint_jvel d' = put_at (Suc i) (map (\<lambda>n. m_stateDq (motors w ! n)) ns) (g_joint_jvel d1)"
    "g_jtorque d' = put_at (Suc i) (map (\<lambda>n. m_stateTau (motors w ! n)) ns) (g_jtorque d1)"
    using Cons.IH [of d1 "Suc i" "rs[i := responsive now ?m]"] Cons.prems wf1 by auto
  have r: "arr_set rs i v = Inr (rs[i := v])" for v using Cons.prems by (simp add: arr_set_def)
  have len: "i < length rs" "i < length (g_joint_jpos d)" "i < length (g_joint_jvel d)" "i < length (g_jtorque d)"
    using Cons.prems by (auto simp: group_wf_def)
  show ?case
    using Cons.prems(1) st d' by (intro exI [of _ d']) (simp add: get_motor_def r f put_at_Cons len)
qed simp

lemma stage_zero_wf: "group_wf MotorGroupStageData_zero"
  by (simp add: group_wf_def MotorGroupStageData_zero_def zeros_def)

text \<open>The buffer a leg publishes to.\<close>

definition stage_of :: "staging \<Rightarrow> SharedMemoryLayout \<Rightarrow> MotorGroupStageData SourceDoubleBuffer" where
  "stage_of stg shm = (case stg of StageA \<Rightarrow> motor_group_a_stage shm | StageB \<Rightarrow> motor_group_b_stage shm)"

lemma publish_stage_ok:
  assumes b: "dbuf_wf group_wf (stage_of stg shm)" and "group_wf d"
  obtains shm' where "publish_stage stg d shm = Inr shm'" "dbuf_wf group_wf (stage_of stg shm')"
    "shm_wf shm \<Longrightarrow> shm_wf shm'" "read_buf (stage_of stg shm') = Inr d"
    "d_sequence (stage_of stg shm') = d_sequence (stage_of stg shm) + 1"
    "stg' \<noteq> stg \<Longrightarrow> stage_of stg' shm' = stage_of stg' shm" "cmd_buffers shm' = cmd_buffers shm"
    "cmd_write_idx shm' = cmd_write_idx shm" "magic shm' = magic shm" "version shm' = version shm"
    "controller_emergency_stop shm' = controller_emergency_stop shm"
proof -
  have "dbuf_inv (stage_of stg shm)" using b by (simp add: dbuf_wf_def)
  then obtain b' where p: "publish g_timestamp_ns d (stage_of stg shm) = Inr b'" "dbuf_inv b'" "read_buf b' = Inr d"
    "d_sequence b' = d_sequence (stage_of stg shm) + 1"
    by (rule publish_ok [where ts = g_timestamp_ns and d = d])
  have bs: "set (buffers b') \<subseteq> insert d (set (buffers (stage_of stg shm)))"
    using p(1) set_update_subset_insert
    by (fastforce simp: publish_def arr_set_def Let_def split: if_splits)
  have wf: "dbuf_wf group_wf b'" using b bs p(2) assms(2) by (auto simp: dbuf_wf_def)
  show thesis
  proof (cases stg)
    case StageA
    show ?thesis
      by (rule that [of "shm\<lparr>motor_group_a_stage := b'\<rparr>"])
        (use StageA p wf in \<open>cases stg'; simp add: stage_of_def publish_stage_def shm_wf_def\<close>)+
  next
    case StageB
    show ?thesis
      by (rule that [of "shm\<lparr>motor_group_b_stage := b'\<rparr>"])
        (use StageB p wf in \<open>cases stg'; simp add: stage_of_def publish_stage_def shm_wf_def\<close>)+
  qed
qed

section \<open>One control cycle\<close>

definition faulted :: "SharedMemoryLayout \<Rightarrow> bool" where
  "faulted shm \<longleftrightarrow> magic shm \<noteq> SHM_MAGIC \<or> version shm \<noteq> SHM_VERSION \<or> controller_emergency_stop shm"

text \<open>What an enabled leg sends for a command buffer index and a command.\<close>

definition actuation :: "u64 \<Rightarrow> SharedMemoryLayout \<Rightarrow> Legged \<Rightarrow> 'z motor_world_scheme \<Rightarrow> datagram list" where
  "actuation now shm l w =
     (let cmd = cmd_buffers shm ! unat (cmd_write_idx shm); t = uint (c_timestamp_ns cmd) in
      if \<not> m_isEnabled l then []
      else if 1 < cmd_write_idx shm
      then (if m_motorsFaultDisabled l then [] else leg_frames dataframe_disable_motor l w)
      else if t \<noteq> 0 \<and> 100000000 < uint now - t then []
      else map (mit_dg cmd l w) (dispatched cmd l))"

lemma age_word: "(a :: u64) \<le> b \<Longrightarrow> uint (b - a) = uint b - uint a"
  by (simp add: uint_minus_simple_alt)

lemma cmd_stale_iff:
  "cmd_stale now cmd \<longleftrightarrow> c_timestamp_ns cmd \<noteq> 0 \<and> 100000000 < uint now - uint (c_timestamp_ns cmd)"
  by (auto simp: cmd_stale_def Let_def COMMAND_STALE_THRESHOLD_NS_def HEARTBEAT_STALE_NS_def word_less_alt
      word_le_def age_word word_neq_0_conv)

lemma responsive_iff:
  "responsive now m \<longleftrightarrow> m_lastUpdateTime m \<noteq> 0 \<and> uint now - uint (m_lastUpdateTime m) < 100000000"
  by (auto simp: responsive_def Let_def MOTOR_RESPONSIVE_TIMEOUT_NS_def word_less_alt word_le_def age_word)

lemma disable_once:
  assumes "leg_wired w l"
  obtains w' where "disableAllMotorsOnce r l w = Inr (l\<lparr>m_motorsFaultDisabled := True\<rparr>, w')" "same_wiring w w'"
    "motors w' = motors w" "w_shm w' = w_shm w"
    "sent w' = sent w @ (if m_motorsFaultDisabled l then [] else leg_frames dataframe_disable_motor l w)"
proof (cases "m_motorsFaultDisabled l")
  case True
  then have "l\<lparr>m_motorsFaultDisabled := True\<rparr> = l" by simp
  then show thesis using that [of w] True by (simp add: disableAllMotorsOnce_def)
next
  case False
  obtain w' where w': "foldR disableMotor (l_motors l) w = Inr w'" "same_wiring w w'" "motors w' = motors w"
    "sent w' = sent w @ leg_frames dataframe_disable_motor l w"
    by (rule disable_all [OF assms])
  show thesis
    using that [of w'] w' False foldR_shm [OF w'(1) disableMotor_shm] by (simp add: disableAllMotorsOnce_def)
qed

lemma actuate_ok:
  fixes w :: "'z leg_world_scheme"
  assumes "leg_wired w l" "leg_ok l" "length (cmd_buffers shm) = 2" "\<forall>c \<in> set (cmd_buffers shm). command_wf c"
  obtains l' w' where "actuate rnd64 now clk shm l w = Inr (l', w')" "same_wiring w w'"
    "sent w' = sent w @ actuation now shm l w" "map observed (motors w') = map observed (motors w)"
    "l' = l\<lparr>m_motorsFaultDisabled := m_motorsFaultDisabled l \<or> m_isEnabled l \<and> 1 < cmd_write_idx shm\<rparr>"
proof -
  let ?cmd = "cmd_buffers shm ! unat (cmd_write_idx shm)"
  have same: "l\<lparr>m_motorsFaultDisabled := m_motorsFaultDisabled l\<rparr> = l" by simp
  consider "\<not> m_isEnabled l" | "m_isEnabled l" "1 < cmd_write_idx shm" | "m_isEnabled l" "\<not> 1 < cmd_write_idx shm"
    by blast
  then show thesis
  proof cases
    case 1
    then show ?thesis using that [of l w] same by (simp add: actuate_def actuation_def)
  next
    case 2
    obtain w' where w': "disableAllMotorsOnce CMD_WRITE_IDX_INVALID l w = Inr (l\<lparr>m_motorsFaultDisabled := True\<rparr>, w')"
      "same_wiring w w'" "motors w' = motors w"
      "sent w' = sent w @ (if m_motorsFaultDisabled l then [] else leg_frames dataframe_disable_motor l w)"
      by (rule disable_once [OF assms(1)])
    show ?thesis
      by (rule that [of "l\<lparr>m_motorsFaultDisabled := True\<rparr>" w'])
        (simp_all add: actuate_def actuation_def Let_def 2 w')
  next
    case 3
    then have idx: "unat (cmd_write_idx shm) < 2" by (simp add: word_less_nat_alt)
    then have wf: "command_wf ?cmd" and get: "arr_get (cmd_buffers shm) (unat (cmd_write_idx shm)) = Inr ?cmd"
      using assms(3,4) by (simp_all add: arr_get_def)
    obtain w' where "dispatch_commands rnd64 clk ?cmd l w = Inr w'" "same_wiring w w'"
      "sent w' = sent w @ map (mit_dg ?cmd l w) (dispatched ?cmd l)" "map observed (motors w') = map observed (motors w)"
      by (rule dispatch_commands_ok [OF assms(1,2) wf])
    then show ?thesis
      using that [of l "if cmd_stale now ?cmd then w else w'"] same 3 get
      by (auto simp: actuate_def actuation_def Let_def cmd_stale_iff uint_0_iff)
  qed
qed

lemma dispatch_motor_shm: "dispatch_motor rnd clk cmd l i w = Inr w' \<Longrightarrow> w_shm w' = w_shm w"
  by (auto simp: dispatch_motor_def Let_def bindR_Inr_iff split: if_splits dest: setMitControl_shm)

lemma actuate_shm: "actuate rnd now clk shm l w = Inr (l', w') \<Longrightarrow> w_shm w' = w_shm w"
  by (auto simp: actuate_def disableAllMotorsOnce_def dispatch_commands_def bindR_Inr_iff split: if_splits
      dest: foldR_shm [OF _ disableMotor_shm] foldR_shm [OF _ dispatch_motor_shm])

lemma faulted_cycle:
  assumes "l_shm l" "w_shm w = Some shm" "faulted shm" "leg_wired w l"
  obtains w' where "controllerPeriodic rnd a clk b l w = Inr (l\<lparr>m_motorsFaultDisabled := True\<rparr>, w')"
    "same_wiring w w'" "motors w' = motors w" "w_shm w' = w_shm w"
    "sent w' = sent w @ (if m_motorsFaultDisabled l then [] else leg_frames dataframe_disable_motor l w)"
proof -
  have r: "controllerPeriodic rnd a clk b l w = disableAllMotorsOnce SHM_INVALID_MAGIC l w"
    using assms(1-3) by (auto simp: controllerPeriodic_def faulted_def disableAllMotorsOnce_def)
  show thesis by (rule disable_once [OF assms(4)]) (rule that [unfolded r])
qed

lemma stage_feedback_ok:
  assumes "l_staging l = Some stg" "\<forall>n \<in> set (l_motors l). n < length (motors w)" "leg_ok l"
    "dbuf_wf group_wf (stage_of stg shm)"
  obtains d shm' where "stage_feedback a b shm l w =
      Inr (l\<lparr>m_motorResponsive := map (\<lambda>n. responsive a (motors w ! n)) (l_motors l), m_lastControllerStartNs := a\<rparr>,
           w\<lparr>w_shm := Some shm'\<rparr>)"
    "read_buf (stage_of stg shm') = Inr d" "shm_wf shm \<Longrightarrow> shm_wf shm'"
    "take (length (l_motors l)) (g_joint_jpos d) = map (\<lambda>n. m_stateQ (motors w ! n)) (l_motors l)"
    "take (length (l_motors l)) (g_joint_jvel d) = map (\<lambda>n. m_stateDq (motors w ! n)) (l_motors l)"
    "take (length (l_motors l)) (g_jtorque d) = map (\<lambda>n. m_stateTau (motors w ! n)) (l_motors l)"
    "g_timestamp_ns d = a" "g_sequence d = composed_sequence shm + 1"
proof -
  let ?ns = "l_motors l"
  obtain d0 where d0: "stage_motors a 0 ?ns w (MotorGroupStageData_zero, m_motorResponsive l) =
      Inr (d0, put_at 0 (map (\<lambda>n. responsive a (motors w ! n)) ?ns) (m_motorResponsive l))" "group_wf d0"
    "g_joint_jpos d0 = put_at 0 (map (\<lambda>n. m_stateQ (motors w ! n)) ?ns) (g_joint_jpos MotorGroupStageData_zero)"
    "g_joint_jvel d0 = put_at 0 (map (\<lambda>n. m_stateDq (motors w ! n)) ?ns) (g_joint_jvel MotorGroupStageData_zero)"
    "g_jtorque d0 = put_at 0 (map (\<lambda>n. m_stateTau (motors w ! n)) ?ns) (g_jtorque MotorGroupStageData_zero)"
    using stage_motors_ok [OF assms(2) stage_zero_wf, of 0 "m_motorResponsive l" a] assms(3)
    by (auto simp: leg_ok_def)
  define d where "d = d0\<lparr>controller_duration_us := ucast ((b - a) div 1000),
      controller_interval_us := (if m_lastControllerStartNs l \<noteq> 0
        then ucast ((a - m_lastControllerStartNs l) div 1000) else 0),
      g_timestamp_ns := a, g_sequence := composed_sequence shm + 1\<rparr>"
  have wf: "group_wf d" using d0(2) by (simp add: d_def group_wf_def)
  obtain shm' where p: "publish_stage stg d shm = Inr shm'" "shm_wf shm \<Longrightarrow> shm_wf shm'"
    "read_buf (stage_of stg shm') = Inr d"
    by (rule publish_stage_ok [OF assms(4) wf, where stg' = StageA]) blast
  show thesis
    by (rule that [of shm' d])
      (use assms(1,3) d0 p in \<open>simp_all add: stage_feedback_def Let_def leg_ok_def put_at_0 d_def [symmetric]\<close>,
       simp_all add: d_def d0 put_at_def)
qed

lemma controllerPeriodic_ok:
  assumes l: "l_shm l" "l_staging l = Some stg" "leg_ok l" "leg_wired w l"
    and shm: "w_shm w = Some shm" "\<not> faulted shm" "dbuf_wf group_wf (stage_of stg shm)"
      "length (cmd_buffers shm) = 2" "\<forall>c \<in> set (cmd_buffers shm). command_wf c"
  obtains l' w' shm' d where "controllerPeriodic rnd64 a clk b l w = Inr (l', w')"
    "sent w' = sent w @ actuation a shm l w" "same_wiring w w'"
    "w_shm w' = Some shm'" "read_buf (stage_of stg shm') = Inr d" "shm_wf shm \<Longrightarrow> shm_wf shm'"
    "take (length (l_motors l)) (g_joint_jpos d) = map (\<lambda>n. m_stateQ (motors w ! n)) (l_motors l)"
    "take (length (l_motors l)) (g_joint_jvel d) = map (\<lambda>n. m_stateDq (motors w ! n)) (l_motors l)"
    "take (length (l_motors l)) (g_jtorque d) = map (\<lambda>n. m_stateTau (motors w ! n)) (l_motors l)"
    "m_motorResponsive l' = map (\<lambda>n. responsive a (motors w ! n)) (l_motors l)"
    "m_isEnabled l' = m_isEnabled l" "l_motors l' = l_motors l"
proof -
  obtain l1 w1 where act: "actuate rnd64 a clk shm l w = Inr (l1, w1)" and sw: "same_wiring w w1"
    and sent: "sent w1 = sent w @ actuation a shm l w" and obs: "map observed (motors w1) = map observed (motors w)"
    and l1: "l1 = l\<lparr>m_motorsFaultDisabled := m_motorsFaultDisabled l \<or> m_isEnabled l \<and> 1 < cmd_write_idx shm\<rparr>"
    by (rule actuate_ok [OF l(4,3) shm(4,5)])
  have len: "length (motors w1) = length (motors w)" using obs by (metis length_map)
  have ns: "\<forall>n \<in> set (l_motors l). n < length (motors w)" using l(4) by (auto simp: leg_wired_def wired_def)
  have o: "observed (motors w1 ! n) = observed (motors w ! n)" if "n < length (motors w)" for n
    using arg_cong [OF obs, of "\<lambda>xs. xs ! n"] that len by simp
  have st: "map (\<lambda>n. m_stateQ (motors w1 ! n)) (l_motors l) = map (\<lambda>n. m_stateQ (motors w ! n)) (l_motors l)"
    "map (\<lambda>n. m_stateDq (motors w1 ! n)) (l_motors l) = map (\<lambda>n. m_stateDq (motors w ! n)) (l_motors l)"
    "map (\<lambda>n. m_stateTau (motors w1 ! n)) (l_motors l) = map (\<lambda>n. m_stateTau (motors w ! n)) (l_motors l)"
    "map (\<lambda>n. responsive a (motors w1 ! n)) (l_motors l) = map (\<lambda>n. responsive a (motors w ! n)) (l_motors l)"
    using o ns by (auto simp: observed_def responsive_def)
  obtain d shm' where f: "stage_feedback a b shm l1 w1 =
      Inr (l1\<lparr>m_motorResponsive := map (\<lambda>n. responsive a (motors w1 ! n)) (l_motors l1), m_lastControllerStartNs := a\<rparr>,
           w1\<lparr>w_shm := Some shm'\<rparr>)"
    "read_buf (stage_of stg shm') = Inr d" "shm_wf shm \<Longrightarrow> shm_wf shm'"
    "take (length (l_motors l1)) (g_joint_jpos d) = map (\<lambda>n. m_stateQ (motors w1 ! n)) (l_motors l1)"
    "take (length (l_motors l1)) (g_joint_jvel d) = map (\<lambda>n. m_stateDq (motors w1 ! n)) (l_motors l1)"
    "take (length (l_motors l1)) (g_jtorque d) = map (\<lambda>n. m_stateTau (motors w1 ! n)) (l_motors l1)"
    by (rule stage_feedback_ok [of l1 stg w1 shm a b]) (use l shm ns len in \<open>simp_all add: l1 leg_ok_def\<close>)
  have "same_wiring w (w1\<lparr>w_shm := Some shm'\<rparr>)"
    using sw by (simp add: same_wiring_def find_handle_def getInstance_def)
  then show thesis
    using f act sent l(1) shm(1,2)
    by (intro that [of "l1\<lparr>m_motorResponsive := map (\<lambda>n. responsive a (motors w ! n)) (l_motors l), m_lastControllerStartNs := a\<rparr>"
          "w1\<lparr>w_shm := Some shm'\<rparr>" shm' d])
      (simp_all add: controllerPeriodic_def faulted_def l1 st)
qed

section \<open>Construction of a leg\<close>

lemma handles_frame [simp]:
  "handles_ok (putInstance i s w) = handles_ok w" "handles_ok (sent_update g w) = handles_ok w"
  "canHandles (putInstance i s w) = canHandles w" "(canHandles (update_storage h f w) = None) = (canHandles w = None)"
  by (simp_all add: putInstance_def update_storage_def handles_ok_def)

lemma sendMessage_handles:
  "sendMessage n d a r w = Inr w' \<Longrightarrow> handles_ok w' = handles_ok w \<and> (canHandles w' = None) = (canHandles w = None)"
  by (auto simp: sendMessage_def writePacket_def HAL_WriteCANPacket_def sendMsg_def Let_def bindR_Inr_iff
      split: option.splits)

lemma foldR_handles:
  assumes "foldR op ns w = Inr w'" "\<And>n v v'. op n v = Inr v' \<Longrightarrow>
    handles_ok v' = handles_ok v \<and> (canHandles v' = None) = (canHandles v = None)"
  shows "handles_ok w' = handles_ok w \<and> (canHandles w' = None) = (canHandles w = None)"
  by (rule foldR_inv [where P = "\<lambda>v. handles_ok v = handles_ok w \<and> (canHandles v = None) = (canHandles w = None)",
        OF _ _ assms(1)]) (use assms(2) in auto)

lemma motors_inv_same:
  assumes "motors_inv w" "same_wiring w w'" "handles_ok w'" "canHandles w' \<noteq> None"
  shows "motors_inv w'"
proof -
  have "arrays_ok w'" using assms(1,2) by (simp add: motors_inv_def arrays_ok_def same_wiring_def)
  moreover have "map motor_key (motors w') = map motor_key (motors w)"
    using assms(2) by (simp add: same_wiring_def)
  moreover from this have "length (motors w') = length (motors w)" by (rule map_eq_imp_length_eq)
  ultimately show ?thesis
    using assms(1,3,4) same_wiring_wired [OF assms(2)] by (simp add: motors_inv_def)
qed

lemma make_motors_ok:
  assumes "motors_inv w" "distinct ids" "\<forall>i \<in> set ids. 1 \<le> uint i \<and> uint i \<le> 12 \<and> uint i \<notin> set (devices w)"
  shows "\<exists>w' ms. make_motors ids cache w = Inr ([length (motors w)..<length (motors w) + length ids], w') \<and>
    motors_inv w' \<and> motors w' = motors w @ ms \<and> map m_deviceId ms = ids \<and> (\<forall>m \<in> set ms. m_motorType m = DM8009) \<and>
    sent w' = sent w \<and> maxCanDevice w' = maxCanDevice w"
  using assms
proof (induction ids arbitrary: w)
  case (Cons i ids)
  obtain w1 m where w1: "Motor_ctor DM8009 i cache w = Inr (length (motors w), w1)" "motors_inv w1"
    "motors w1 = motors w @ [m]" "m_deviceId m = i" "m_motorType m = DM8009" "sent w1 = sent w"
    "maxCanDevice w1 = maxCanDevice w"
    by (rule Motor_ctor_ok [OF Cons.prems(1), of i DM8009 cache]) (use Cons.prems(3) in auto)
  have "\<forall>k \<in> set ids. 1 \<le> uint k \<and> uint k \<le> 12 \<and> uint k \<notin> set (devices w1)"
    using Cons.prems(2,3) w1(3,4) by (auto simp: devices_def dev_of_def dest: word_uint_eqI)
  then obtain w' ms where "make_motors ids cache w1 = Inr ([length (motors w1)..<length (motors w1) + length ids], w')"
    "motors_inv w'" "motors w' = motors w1 @ ms" "map m_deviceId ms = ids" "\<forall>m \<in> set ms. m_motorType m = DM8009"
    "sent w' = sent w1" "maxCanDevice w' = maxCanDevice w1"
    using Cons.IH [OF w1(2)] Cons.prems(2) by auto
  moreover have "length (motors w) # [length (motors w1)..<length (motors w1) + length ids] =
      [length (motors w)..<length (motors w) + length (i # ids)]"
    using upt_conv_Cons [of "length (motors w)" "length (motors w) + length (i # ids)"]
    by (simp add: w1(3) del: upt_Suc)
  ultimately show ?case
    using w1 by (intro exI [of _ w'] exI [of _ "m # ms"]) (simp del: upt_Suc)
qed simp

lemma Legged_ctor_ok:
  assumes "motors_inv w" "1 \<le> base" "base + k - 1 \<le> 12" "0 \<le> k" "k \<le> 6"
    "set (devices w) \<inter> {base..<base + k} = {}"
  obtains l w' ms where "Legged_ctor base k cache w = Inr (l, w')" "motors_inv w'" "leg_wired w' l" "leg_ok l"
    "motors w' = motors w @ ms" "map dev_of ms = [base..base + k - 1]" "\<forall>m \<in> set ms. m_motorType m = DM8009"
    "l_motors l = [length (motors w)..<length (motors w) + nat k]"
    "sent w' = sent w @ map (\<lambda>m. command_dg (maxCanDevice w) m 0 dataframe_enable_motor) ms"
    "\<not> m_isEnabled l" "\<not> m_motorsFaultDisabled l" "\<not> l_shm l" "l_staging l = None"
    "m_groupOffset l = (if base = 1 then 0 else 6)" "maxCanDevice w' = maxCanDevice w"
proof -
  let ?ids = "map word_of_int [base..base + k - 1] :: u32 list" and ?n = "length (motors w)"
  have u: "uint (word_of_int i :: u32) = i" if "i \<in> {base..base + k - 1}" for i
    using that assms(2,3) by (simp only: uint_word_of_int) (simp add: take_bit_int_eq_self)
  have len: "length ?ids = nat k" by simp
  have "inj_on (word_of_int :: int \<Rightarrow> u32) {base..base + k - 1}"
    by (rule inj_on_inverseI [where g = uint]) (rule u)
  then have "distinct ?ids" by (simp add: distinct_map)
  moreover have "\<forall>i \<in> set ?ids. 1 \<le> uint i \<and> uint i \<le> 12 \<and> uint i \<notin> set (devices w)"
    using u assms(2,3,6) by fastforce
  ultimately obtain w1 ms where w1: "make_motors ?ids cache w = Inr ([?n..<?n + length ?ids], w1)" "motors_inv w1"
    "motors w1 = motors w @ ms" "map m_deviceId ms = ?ids" "\<forall>m \<in> set ms. m_motorType m = DM8009"
    "sent w1 = sent w" "maxCanDevice w1 = maxCanDevice w"
    using make_motors_ok [OF assms(1), of ?ids cache] by blast
  let ?ns = "[?n..<?n + nat k]"
  have lms: "length ms = nat k" using arg_cong [OF w1(4), of length] by simp
  have wr: "\<forall>n \<in> set ?ns. wired w1 n" using w1(2,3) lms by (simp add: motors_inv_def)
  obtain w2 where w2: "foldR enableMotor ?ns w1 = Inr w2" "same_wiring w1 w2" "motors w2 = motors w1"
    "sent w2 = sent w1 @ map (\<lambda>n. command_dg (maxCanDevice w1) (motors w1 ! n) 0 dataframe_enable_motor) ?ns"
    by (rule foldR_send [of enableMotor dataframe_enable_motor 0 ?ns w1])
      (use wr in \<open>auto simp: enableMotor_def dataframe_enable_motor_def fun_eq_iff\<close>)
  have ms: "map (\<lambda>n. f (motors w1 ! n)) ?ns = map f ms" for f :: "Motor \<Rightarrow> datagram"
    by (rule nth_equalityI) (simp_all add: lms w1(3))
  have sent: "sent w2 = sent w @ map (\<lambda>m. command_dg (maxCanDevice w) m 0 dataframe_enable_motor) ms"
    unfolding w2(4) w1(6,7) ms [of "\<lambda>m. command_dg (maxCanDevice w) m 0 dataframe_enable_motor"] ..
  have "handles_ok w2 = handles_ok w1 \<and> (canHandles w2 = None) = (canHandles w1 = None)"
    by (rule foldR_handles [OF w2(1)]) (simp add: enableMotor_def sendMessage_handles)
  then have inv: "motors_inv w2" using w1(2) by (intro motors_inv_same [OF w1(2) w2(2)]) (simp_all add: motors_inv_def)
  have "map dev_of ms = map uint (map m_deviceId ms)" by (simp add: dev_of_def comp_def)
  also have "\<dots> = [base..base + k - 1]" unfolding w1(4) map_map by (rule map_idI) (use u in auto)
  finally have ids: "map dev_of ms = [base..base + k - 1]" .
  let ?l = "\<lparr>l_baseId = base, m_groupOffset = (if base = 1 then 0 else int MOTORS_PER_GROUP),
             l_motors = ?ns, m_motorResponsive = replicate (length ?ns) False, l_paramQueryCycle = 0,
             l_shm = False, l_staging = None, m_motorsFaultDisabled = False,
             m_lastControllerStartNs = 0, m_isEnabled = False, m_ready = True\<rparr>"
  show thesis
    by (rule that [of ?l w2 ms])
      (use w1(1,3,5,7) w2(1-3) sent inv ids wr same_wiring_wired [OF w2(2)] assms(5) lms in
        \<open>simp_all add: Legged_ctor_def leg_wired_def leg_ok_def MOTORS_PER_GROUP_def len\<close>,
       use w2(2) in \<open>simp_all add: same_wiring_def\<close>)
qed

section \<open>Concrete states used by the witnesses\<close>

definition idle_world :: leg_world where
  "idle_world = \<lparr>canHandles = Some [], servers = Map.empty, param_cache = MotorParamCache_init,
     maxCanDevice = 7, udp_config = \<lparr>baseLocalPort = 8887, baseRemotePort = 8886\<rparr>,
     observerIp = ''127.0.0.1'', send_result = (\<lambda>_. 13), sent = [], motors = [], w_shm = None\<rparr>"

definition live_shm :: SharedMemoryLayout where
  "live_shm = SharedMemoryLayout_zero\<lparr>magic := SHM_MAGIC, version := SHM_VERSION,
     cmd_buffers := [Command_zero\<lparr>c_enabled := replicate 12 1\<rparr>, Command_zero]\<rparr>"

definition left_leg :: Legged where
  "left_leg = (setShmPointers True (Some StageA) (fst (projr (Legged_ctor 1 6 True idle_world))))\<lparr>m_isEnabled := True\<rparr>"

definition left_world :: "SharedMemoryLayout \<Rightarrow> leg_world" where
  "left_world shm = (snd (projr (Legged_ctor 1 6 True idle_world)))\<lparr>w_shm := Some shm\<rparr>"

lemma same_wiring_shm [simp]: "same_wiring w (w_shm_update f w)"
  by (simp add: same_wiring_def find_handle_def getInstance_def)

lemma idle_inv: "motors_inv idle_world"
  by (simp add: motors_inv_def idle_world_def handles_ok_def arrays_ok_def getInstance_def UdpServer_init_def)

lemma left_leg_ok:
  "leg_wired (left_world shm) left_leg" "leg_ok left_leg" "l_shm left_leg" "l_staging left_leg = Some StageA"
  "m_isEnabled left_leg" "\<not> m_motorsFaultDisabled left_leg" "l_motors left_leg = [0..<6]"
  "length (sent (left_world shm)) = 6" "w_shm (left_world shm) = Some shm" "m_groupOffset left_leg = 0"
proof -
  have z: "motors idle_world = []" "sent idle_world = []" by (simp_all add: idle_world_def)
  obtain l w' ms where c: "Legged_ctor 1 6 True idle_world = Inr (l, w')" "leg_wired w' l" "leg_ok l"
    "map dev_of ms = [1..1 + 6 - 1]" "l_motors l = [length (motors idle_world)..<length (motors idle_world) + nat 6]"
    "sent w' = sent idle_world @ map (\<lambda>m. command_dg (maxCanDevice idle_world) m 0 dataframe_enable_motor) ms"
    "\<not> m_motorsFaultDisabled l" "m_groupOffset l = (if (1::int) = 1 then 0 else 6)"
    by (rule Legged_ctor_ok [OF idle_inv, of 1 6 True]) (simp_all add: devices_def z)
  have "leg_wired (w'\<lparr>w_shm := Some shm\<rparr>) l" by (rule leg_wired_same [OF _ c(2)]) simp
  moreover have "length ms = 6" using arg_cong [OF c(4), of length] by simp
  ultimately show "leg_wired (left_world shm) left_leg" "leg_ok left_leg" "l_shm left_leg"
    "l_staging left_leg = Some StageA" "m_isEnabled left_leg" "\<not> m_motorsFaultDisabled left_leg"
    "l_motors left_leg = [0..<6]" "length (sent (left_world shm)) = 6" "w_shm (left_world shm) = Some shm"
    "m_groupOffset left_leg = 0"
    using c by (simp_all add: left_leg_def left_world_def setShmPointers_def leg_wired_def leg_ok_def z)
qed

lemma live_shm_ok:
  "\<not> faulted live_shm" "dbuf_wf group_wf (stage_of StageA live_shm)" "length (cmd_buffers live_shm) = 2"
  "\<forall>c \<in> set (cmd_buffers live_shm). command_wf c" "cmd_write_idx live_shm = 0"
proof -
  show "\<not> faulted live_shm" "length (cmd_buffers live_shm) = 2" "cmd_write_idx live_shm = 0"
    by (simp_all add: live_shm_def faulted_def SharedMemoryLayout_zero_def)
  show "dbuf_wf group_wf (stage_of StageA live_shm)"
    using shm_zero_wf by (simp add: shm_wf_def live_shm_def stage_of_def)
  show "\<forall>c \<in> set (cmd_buffers live_shm). command_wf c"
    by (simp add: live_shm_def command_wf_def Command_zero_def zeros_def)
qed

section \<open>Properties\<close>

text \<open>C6: a control cycle of a leg on healthy shared memory sends exactly this: nothing while the
  leg is disabled; the disable frame to each motor, once, if the command buffer index is corrupt;
  nothing if the command is older than 100 ms; otherwise one MIT datagram per joint enabled in the
  command, in joint order, carrying that joint's gains and setpoints to that joint's motor.\<close>

theorem leg_cycle_sends:
  assumes "l_shm l" "l_staging l = Some stg" "leg_ok l" "leg_wired w l" "w_shm w = Some shm"
    "\<not> faulted shm" "dbuf_wf group_wf (stage_of stg shm)" "length (cmd_buffers shm) = 2"
    "\<forall>c \<in> set (cmd_buffers shm). command_wf c"
  shows "\<exists>l' w'. controllerPeriodic rnd64 cp_start clk cp_end l w = Inr (l', w') \<and> leg_wired w' l' \<and>
    m_isEnabled l' = m_isEnabled l \<and>
    sent w' = sent w @
      (let cmd = cmd_buffers shm ! unat (cmd_write_idx shm); t = uint (c_timestamp_ns cmd) in
       if \<not> m_isEnabled l then []
       else if 1 < cmd_write_idx shm
       then (if m_motorsFaultDisabled l then []
             else map (\<lambda>n. command_dg (maxCanDevice w) (motors w ! n) 0 dataframe_disable_motor) (l_motors l))
       else if t \<noteq> 0 \<and> 100000000 < uint cp_start - t then []
       else map (\<lambda>i. let m = motors w ! (l_motors l ! i); j = nat (m_groupOffset l) + i in
                  command_dg (maxCanDevice w) m 0 (projr (mit_frame rnd64 (m_motorType m)
                    \<lparr>mit_kp = c_kp cmd ! j, mit_kd = c_kd cmd ! j, mit_q = jpos_cmd cmd ! j,
                     mit_dq = jvel_cmd cmd ! j, mit_tau = jtorque_cmd cmd ! j\<rparr>)))
              (filter (\<lambda>i. c_enabled cmd ! (nat (m_groupOffset l) + i) \<noteq> 0) [0..<length (l_motors l)]))"
proof -
  obtain l' w' where r: "controllerPeriodic rnd64 cp_start clk cp_end l w = Inr (l', w')"
    "sent w' = sent w @ actuation cp_start shm l w" "same_wiring w w'" "m_isEnabled l' = m_isEnabled l"
    "l_motors l' = l_motors l"
    by (rule controllerPeriodic_ok [OF assms]) blast
  have "leg_wired w' l'" using leg_wired_same [OF r(3) assms(4)] r(5) by (simp add: leg_wired_def)
  then show ?thesis
    using r(1,4) r(2) [unfolded actuation_def mit_dg_def [abs_def] joint_param_def dispatched_def leg_frames_def]
    unfolding Let_def by blast
qed

theorem leg_cycle_sends_witness:
  "\<exists>l' w'. controllerPeriodic rnd64 7 (\<lambda>_. 8) 9 left_leg (left_world live_shm) = Inr (l', w') \<and>
    length (sent w') = 12"
proof -
  have en: "c_enabled (cmd_buffers live_shm ! 0) = replicate 12 1" "c_timestamp_ns (cmd_buffers live_shm ! 0) = 0"
    by (simp_all add: live_shm_def Command_zero_def)
  have f: "filter (\<lambda>i. replicate 12 (1 :: u8) ! i \<noteq> 0) [0..<6] = [0..<6]" by (rule filter_True) auto
  show ?thesis
    using leg_cycle_sends [OF left_leg_ok(3,4,2,1,9) live_shm_ok(1-4), of 7 "\<lambda>_. 8" 9]
    by (auto simp: left_leg_ok live_shm_ok(5) en f Let_def)
qed

text \<open>C8: a control cycle on healthy shared memory publishes, whether or not the leg is enabled, a
  staging record whose joint data are the motors' last feedback in motor order, and marks a motor
  responsive exactly when it has reported within the last 100 ms.\<close>

theorem leg_cycle_stages_feedback:
  assumes "l_shm l" "l_staging l = Some stg" "leg_ok l" "leg_wired w l" "w_shm w = Some shm"
    "\<not> faulted shm" "dbuf_wf group_wf (stage_of stg shm)" "length (cmd_buffers shm) = 2"
    "\<forall>c \<in> set (cmd_buffers shm). command_wf c"
  shows "\<exists>l' w' shm' d. controllerPeriodic rnd64 cp_start clk cp_end l w = Inr (l', w') \<and>
    w_shm w' = Some shm' \<and> read_buf (stage_of stg shm') = Inr d \<and>
    take (length (l_motors l)) (g_joint_jpos d) = map (\<lambda>n. m_stateQ (motors w ! n)) (l_motors l) \<and>
    take (length (l_motors l)) (g_joint_jvel d) = map (\<lambda>n. m_stateDq (motors w ! n)) (l_motors l) \<and>
    take (length (l_motors l)) (g_jtorque d) = map (\<lambda>n. m_stateTau (motors w ! n)) (l_motors l) \<and>
    m_motorResponsive l' = map (\<lambda>n. m_lastUpdateTime (motors w ! n) \<noteq> 0 \<and>
      uint cp_start - uint (m_lastUpdateTime (motors w ! n)) < 100000000) (l_motors l)"
  by (rule controllerPeriodic_ok [OF assms]) (unfold responsive_iff, blast)

theorem leg_cycle_stages_feedback_witness:
  "\<exists>l' w' shm' d. controllerPeriodic rnd64 7 (\<lambda>_. 8) 9 left_leg (left_world live_shm) = Inr (l', w') \<and>
    w_shm w' = Some shm' \<and> read_buf (stage_of StageA shm') = Inr d \<and>
    take 6 (g_joint_jpos d) = map (\<lambda>n. m_stateQ (motors (left_world live_shm) ! n)) [0..<6]"
  using leg_cycle_stages_feedback [OF left_leg_ok(3,4,2,1,9) live_shm_ok(1-4), of 7 "\<lambda>_. 8" 9]
  by (auto simp: left_leg_ok(7))

text \<open>Consecutive control cycles; each is given the shared memory as it finds it.\<close>

definition leg_turn ::
    "u64 \<times> (nat \<Rightarrow> u64) \<times> u64 \<times> SharedMemoryLayout \<Rightarrow> Legged \<times> 'z leg_world_scheme \<Rightarrow>
     fault + Legged \<times> 'z leg_world_scheme" where
  "leg_turn = (\<lambda>(a, clk, b, shm) (l, w). controllerPeriodic rnd64 a clk b l (w\<lparr>w_shm := Some shm\<rparr>))"

lemma fault_turns:
  assumes "m_motorsFaultDisabled l" "leg_wired w l" "l_shm l" "\<forall>(a, clk, b, shm) \<in> set ts. faulted shm"
  shows "\<exists>w'. foldR leg_turn ts (l, w) = Inr (l, w') \<and> sent w' = sent w"
  using assms(2,4)
proof (induction ts arbitrary: w)
  case (Cons t ts)
  obtain a clk b shm where t: "t = (a, clk, b, shm)" by (cases t)
  let ?w = "w\<lparr>w_shm := Some shm\<rparr>"
  have wr: "leg_wired ?w l" by (rule leg_wired_same [OF _ Cons.prems(1)]) simp
  obtain w1 where w1: "controllerPeriodic rnd64 a clk b l ?w = Inr (l\<lparr>m_motorsFaultDisabled := True\<rparr>, w1)"
    "same_wiring ?w w1" "sent w1 = sent ?w @ (if m_motorsFaultDisabled l then [] else leg_frames dataframe_disable_motor l ?w)"
    by (rule faulted_cycle [OF assms(3) _ _ wr]) (use Cons.prems(2) t in auto)
  have "l\<lparr>m_motorsFaultDisabled := True\<rparr> = l" using assms(1) by simp
  note cp = w1(1) [unfolded this]
  show ?case
    using Cons.IH [OF leg_wired_same [OF w1(2) wr]] Cons.prems(2) cp w1(3) assms(1) t
    by (simp add: leg_turn_def)
qed simp

text \<open>C7: while the shared memory has a wrong magic or version or the controller holds its
  emergency stop, however long that lasts, a leg sends the disable frame to each of its motors
  exactly once, and no motion command.\<close>

theorem leg_fault_disables_once:
  assumes "leg_wired w l" "l_shm l" "ts \<noteq> []" "\<forall>(a, clk, b, shm) \<in> set ts. faulted shm"
  shows "\<exists>l' w'. foldR leg_turn ts (l, w) = Inr (l', w') \<and> m_motorsFaultDisabled l' \<and>
    sent w' = sent w @ (if m_motorsFaultDisabled l then []
      else map (\<lambda>n. command_dg (maxCanDevice w) (motors w ! n) 0 dataframe_disable_motor) (l_motors l))"
proof -
  obtain a clk b shm us where ts: "ts = (a, clk, b, shm) # us" using assms(3) by (cases ts) auto
  let ?w = "w\<lparr>w_shm := Some shm\<rparr>" and ?l = "l\<lparr>m_motorsFaultDisabled := True\<rparr>"
  have wr: "leg_wired ?w l" by (rule leg_wired_same [OF _ assms(1)]) simp
  obtain w1 where w1: "controllerPeriodic rnd64 a clk b l ?w = Inr (?l, w1)" "same_wiring ?w w1"
    "sent w1 = sent ?w @ (if m_motorsFaultDisabled l then [] else leg_frames dataframe_disable_motor l ?w)"
    by (rule faulted_cycle [OF assms(2) _ _ wr]) (use assms(4) ts in auto)
  have "leg_wired w1 ?l" using leg_wired_same [OF w1(2) wr] by (simp add: leg_wired_def)
  then obtain w' where "foldR leg_turn us (?l, w1) = Inr (?l, w')" "sent w' = sent w1"
    using fault_turns [of ?l w1 us] assms(2,4) ts by auto
  then show ?thesis using w1 by (simp add: ts leg_turn_def leg_frames_def)
qed

theorem leg_fault_disables_once_witness:
  "\<exists>l' w'. foldR leg_turn [(1, \<lambda>_. 1, 2, SharedMemoryLayout_zero), (3, \<lambda>_. 3, 4, live_shm\<lparr>version := 4\<rparr>)]
      (left_leg, left_world live_shm) = Inr (l', w') \<and> length (sent w') = 12"
  using leg_fault_disables_once [OF left_leg_ok(1,3), of "[(1, \<lambda>_. 1, 2, SharedMemoryLayout_zero),
      (3, \<lambda>_. 3, 4, live_shm\<lparr>version := 4\<rparr>)]" live_shm]
  by (auto simp: faulted_def left_leg_ok SharedMemoryLayout_zero_def SHM_MAGIC_def SHM_VERSION_def)



text \<open>Enabling or disabling a leg sends the corresponding frame to each of its motors exactly
  when the leg is not in that state yet, and repeating the request does nothing; a real enabling
  clears the fault latch and the responsiveness record.\<close>

lemma setEnable_once:
  assumes "leg_wired w l"
  shows "\<exists>l' w'. setEnable en l w = Inr (l', w') \<and> m_isEnabled l' = en \<and> setEnable en l' w' = Inr (l', w') \<and>
    sent w' = sent w @ (if m_isEnabled l = en then []
      else map (\<lambda>n. command_dg (maxCanDevice w) (motors w ! n) 0
                (if en then dataframe_enable_motor else dataframe_disable_motor)) (l_motors l)) \<and>
    (m_isEnabled l = en \<longrightarrow> l' = l) \<and>
    (en \<and> \<not> m_isEnabled l \<longrightarrow> \<not> m_motorsFaultDisabled l' \<and> True \<notin> set (m_motorResponsive l'))"
proof (cases "m_isEnabled l = en")
  case True
  then show ?thesis by (simp add: setEnable_def)
next
  case False
  show ?thesis
  proof (cases en)
    case True
    obtain w' where "foldR enableMotor (l_motors l) w = Inr w'"
      "sent w' = sent w @ leg_frames dataframe_enable_motor l w"
      by (rule enable_all [OF assms])
    then show ?thesis using True False by (simp add: setEnable_def leg_frames_def)
  next
    case dis: False
    obtain w' where "foldR disableMotor (l_motors l) w = Inr w'"
      "sent w' = sent w @ leg_frames dataframe_disable_motor l w"
      by (rule disable_all [OF assms])
    then show ?thesis using dis False by (simp add: setEnable_def leg_frames_def)
  qed
qed

text \<open>C20: constructing the left leg and then the right one in a process without motors gives twelve
  wired motors with the device ids 1 to 12, six per leg, and sends each the enable frame once.\<close>

theorem legs_constructed:
  assumes "motors_inv w" "motors w = []"
  shows "\<exists>l1 w1 l2 w2. Legged_ctor 1 6 cache w = Inr (l1, w1) \<and> Legged_ctor 7 6 cache w1 = Inr (l2, w2) \<and>
    map dev_of (motors w2) = [1..12] \<and> l_motors l1 = [0..<6] \<and> l_motors l2 = [6..<12] \<and>
    leg_wired w2 l1 \<and> leg_wired w2 l2 \<and> leg_ok l1 \<and> leg_ok l2 \<and> m_groupOffset l1 = 0 \<and> m_groupOffset l2 = 6 \<and>
    sent w2 = sent w @ map (\<lambda>m. command_dg (maxCanDevice w) m 0 dataframe_enable_motor) (motors w2)"
proof -
  obtain l1 w1 ms where a: "Legged_ctor 1 6 cache w = Inr (l1, w1)" "motors_inv w1" "leg_ok l1"
    "motors w1 = motors w @ ms" "map dev_of ms = [1..1 + 6 - 1]"
    "l_motors l1 = [length (motors w)..<length (motors w) + nat 6]"
    "sent w1 = sent w @ map (\<lambda>m. command_dg (maxCanDevice w) m 0 dataframe_enable_motor) ms"
    "m_groupOffset l1 = (if (1::int) = 1 then 0 else 6)" "maxCanDevice w1 = maxCanDevice w"
    by (rule Legged_ctor_ok [OF assms(1), of 1 6 cache]) (simp_all add: devices_def assms(2))
  have l: "length ms = 6" using arg_cong [OF a(5), of length] by simp
  have d: "set (devices w1) \<inter> {7..<7 + 6} = {}"
    using a(5) by (simp add: devices_def a(4) assms(2) del: set_map) auto
  obtain l2 w2 ns where b: "Legged_ctor 7 6 cache w1 = Inr (l2, w2)" "motors_inv w2" "leg_wired w2 l2" "leg_ok l2"
    "motors w2 = motors w1 @ ns" "map dev_of ns = [7..7 + 6 - 1]"
    "l_motors l2 = [length (motors w1)..<length (motors w1) + nat 6]"
    "sent w2 = sent w1 @ map (\<lambda>m. command_dg (maxCanDevice w1) m 0 dataframe_enable_motor) ns"
    "m_groupOffset l2 = (if (7::int) = 1 then 0 else 6)"
    by (rule Legged_ctor_ok [OF a(2), of 7 6 cache]) (use d in simp_all)
  have ids: "[1..1 + 6 - 1] @ [7..7 + 6 - 1] = [1..(12::int)]" by (simp add: upto_rec1)
  have "leg_wired w2 l1" using b(2,5) l by (simp add: leg_wired_def motors_inv_def a(4,6) assms(2))
  moreover have "map dev_of (motors w2) = [1..12]"
    unfolding b(5) a(4) assms(2) map_append a(5) b(6) ids [symmetric] by simp
  moreover have "l_motors l1 = [0..<6]" using a(6) by (simp add: assms(2))
  moreover have "l_motors l2 = [6..<12]" using b(7) l by (simp add: assms(2) a(4))
  moreover have "sent w2 = sent w @ map (\<lambda>m. command_dg (maxCanDevice w) m 0 dataframe_enable_motor) (motors w2)"
    unfolding b(5,8) a(4,7,9) assms(2) by simp
  moreover have "m_groupOffset l1 = 0" "m_groupOffset l2 = 6" using a(8) b(9) by simp_all
  ultimately show ?thesis using a(1,3) b(1,3,4) by blast
qed

theorem legs_constructed_witness:
  "\<exists>l1 w1 l2 w2. Legged_ctor 1 6 True idle_world = Inr (l1, w1) \<and> Legged_ctor 7 6 True w1 = Inr (l2, w2) \<and>
    map dev_of (motors w2) = [1..12] \<and> length (sent w2) = 12"
proof -
  have z: "motors idle_world = []" "sent idle_world = []" by (simp_all add: idle_world_def)
  obtain l1 w1 l2 w2 where c: "Legged_ctor 1 6 True idle_world = Inr (l1, w1)" "Legged_ctor 7 6 True w1 = Inr (l2, w2)"
    "map dev_of (motors w2) = [1..12]"
    "sent w2 = map (\<lambda>m. command_dg (maxCanDevice idle_world) m 0 dataframe_enable_motor) (motors w2)"
    using legs_constructed [OF idle_inv z(1), of True] unfolding z(2) append_Nil by blast
  have "length (sent w2) = 12" using arg_cong [OF c(3), of length] unfolding c(4) by simp
  then show ?thesis using c(1-3) by blast
qed

end
