(* ===== verification/Subsystem.thy ===== *)
theory Subsystem
  imports Legged
begin

text \<open>
  \<open>lib/common/FdEvent.h\<close>, \<open>FdEvent.cpp\<close>, \<open>lib/robot/SubsystemBase.cpp\<close> and
  \<open>ControlledSubsystemBase.h\<close>: the message queue of a subsystem, the registry, the real-time loop
  that serves the queue and runs the controller, and the pause handshake between that loop and
  the thread that unmaps the shared memory.
\<close>

section \<open>The message queue\<close>

text \<open>An eventfd in non-blocking mode: \<open>fe_fd\<close> says that the descriptor could be created.\<close>

record FdEvent =
  fe_fd :: bool
  fe_count :: u64

definition FdEvent_ctor :: "bool \<Rightarrow> FdEvent" where
  "FdEvent_ctor created = \<lparr>fe_fd = created, fe_count = 0\<rparr>"

definition fd_wait :: "FdEvent \<Rightarrow> bool \<times> FdEvent" where
  "fd_wait e = (if \<not> fe_fd e then (False, e)
     else if fe_count e = 0 then (False, e) else (True, e\<lparr>fe_count := 0\<rparr>))"

definition fd_notify :: "FdEvent \<Rightarrow> bool \<times> FdEvent" where
  "fd_notify e = (if \<not> fe_fd e then (False, e)
     else if fe_count e = - 2 then (False, e) else (True, e\<lparr>fe_count := fe_count e + 1\<rparr>))"

record 'a Fifo =
  fifo_queue :: "'a list"
  fifo_event :: FdEvent

definition Fifo_ctor :: "bool \<Rightarrow> 'a Fifo" where
  "Fifo_ctor created = \<lparr>fifo_queue = [], fifo_event = FdEvent_ctor created\<rparr>"

definition fifo_push :: "'a \<Rightarrow> 'a Fifo \<Rightarrow> 'a Fifo" where
  "fifo_push x q = (let q1 = q\<lparr>fifo_queue := fifo_queue q @ [x]\<rparr> in q1\<lparr>fifo_event := snd (fd_notify (fifo_event q1))\<rparr>)"

definition fifo_take :: "'a Fifo \<Rightarrow> 'a option \<times> 'a Fifo" where
  "fifo_take q = (case fifo_queue q of [] \<Rightarrow> (None, q) | x # xs \<Rightarrow> (Some x, q\<lparr>fifo_queue := xs\<rparr>))"

definition fifo_pop :: "'a Fifo \<Rightarrow> 'a option \<times> 'a Fifo" where
  "fifo_pop q = fifo_take (q\<lparr>fifo_event := snd (fd_wait (fifo_event q))\<rparr>)"

text \<open>What \<open>poll\<close> reports for the queue's descriptor.\<close>

definition readable :: "'a Fifo \<Rightarrow> bool" where
  "readable q = (fe_fd (fifo_event q) \<and> fe_count (fifo_event q) \<noteq> 0)"

text \<open>The loop that pops until the queue is empty.\<close>

function drain :: "('a \<Rightarrow> 's \<Rightarrow> fault + 's) \<Rightarrow> 'a Fifo \<times> 's \<Rightarrow> fault + 'a Fifo \<times> 's" where
  "drain f (q, s) = (case fifo_pop q of
      (None, q') \<Rightarrow> Inr (q', s)
    | (Some x, q') \<Rightarrow> bindR (f x s) (\<lambda>s'. drain f (q', s')))"
  by pat_completeness auto
termination
  by (relation "measure (\<lambda>(f, q, s). length (fifo_queue q))")
    (auto simp: fifo_pop_def fifo_take_def split: list.splits)

section \<open>The registry of subsystems\<close>

definition SubsystemBase_ctor :: "'p \<Rightarrow> 'p list \<Rightarrow> 'p list" where
  "SubsystemBase_ctor this m_subsystems = m_subsystems @ [this]"

text \<open>\<open>erase\<close> takes the one iterator \<open>std::remove\<close> returns: it deletes that one element, and is
  undefined at the end of the vector.  \<open>std::remove\<close> leaves the elements behind the new end in
  place.\<close>

definition std_remove :: "'p \<Rightarrow> 'p list \<Rightarrow> nat \<times> 'p list" where
  "std_remove x xs = (let ys = filter (\<lambda>y. y \<noteq> x) xs in (length ys, ys @ drop (length ys) xs))"

definition SubsystemBase_dtor :: "'p \<Rightarrow> 'p list \<Rightarrow> fault + 'p list" where
  "SubsystemBase_dtor this m_subsystems =
     (case std_remove this m_subsystems of (i, ys) \<Rightarrow>
        if i < length ys then Inr (take i ys @ drop (Suc i) ys) else Inl OutOfBounds)"

text \<open>\<open>runAllDisabledInit\<close>, \<open>runAllAutonomousInit\<close>, \<open>runAllTeleopInit\<close> and the periodic versions
  all are this loop over the registered subsystems; \<open>method\<close> is the virtual function called.\<close>

definition runAll :: "('p \<Rightarrow> 's \<Rightarrow> fault + 's) \<Rightarrow> 'p list \<Rightarrow> 's \<Rightarrow> fault + 's" where
  "runAll method m_subsystems s = foldR method m_subsystems s"

section \<open>The real-time loop\<close>

definition RT_PERIOD_NS :: u64 where "RT_PERIOD_NS = 2500000"

record ControlledSubsystemBase =
  cs_isEnabled :: bool
  cs_ready :: bool
  m_entryThreadRunning :: bool
  m_pauseRequested :: bool
  m_inControllerPeriodic :: bool

definition ControlledSubsystemBase_ctor :: "bool \<Rightarrow> ControlledSubsystemBase" where
  "ControlledSubsystemBase_ctor create_ok =
     \<lparr>cs_isEnabled = False, cs_ready = False, m_entryThreadRunning = create_ok,
      m_pauseRequested = False, m_inControllerPeriodic = False\<rparr>"

text \<open>The flag is the number of joins performed.\<close>

definition stopThread :: "ControlledSubsystemBase \<times> nat \<Rightarrow> ControlledSubsystemBase \<times> nat" where
  "stopThread = (\<lambda>(b, joins). (b\<lparr>m_entryThreadRunning := False\<rparr>,
     if m_entryThreadRunning b then Suc joins else joins))"

definition startThread :: "bool \<Rightarrow> ControlledSubsystemBase \<Rightarrow> ControlledSubsystemBase" where
  "startThread create_ok b =
     (if m_entryThreadRunning b then b
      else let b1 = b\<lparr>m_entryThreadRunning := True, m_pauseRequested := False\<rparr>
           in if create_ok then b1 else b1\<lparr>m_entryThreadRunning := False\<rparr>)"

definition poll_timeout :: "u64 \<Rightarrow> u64 \<Rightarrow> int" where
  "poll_timeout next_wake_ns now_ns =
     (if now_ns < next_wake_ns
      then signed_take_bit 31 (uint ((next_wake_ns - now_ns + 999999) div 1000000)) else 0)"

definition next_wake :: "u64 \<Rightarrow> u64 \<Rightarrow> u64" where
  "next_wake next_wake_ns now_ns =
     (let n = next_wake_ns + RT_PERIOD_NS in if n < now_ns then now_ns + RT_PERIOD_NS else n)"

text \<open>
  One turn of the loop.  \<open>poll_failed\<close> is \<open>rc < 0 && errno != EINTR\<close>, \<open>woken\<close> is
  \<open>rc > 0\<close>; \<open>now_ns\<close>, \<open>ready\<close> and \<open>paused\<close> are the values read from the clock and the two flags
  after the messages have been served.  \<open>onMessage\<close> and \<open>controller\<close> are the subclass.
\<close>

record loop_input =
  poll_failed :: bool
  woken :: bool
  in_now_ns :: u64
  in_ready :: bool
  in_paused :: bool

record ('m, 's) loop_state =
  lp_queue :: "'m Fifo"
  next_wake_ns :: u64
  lp_sub :: 's

definition run_turn ::
    "('m \<Rightarrow> 's \<Rightarrow> fault + 's) \<Rightarrow> (u64 \<Rightarrow> 's \<Rightarrow> fault + 's) \<Rightarrow> loop_input \<Rightarrow> ('m, 's) loop_state \<Rightarrow>
     fault + ('m, 's) loop_state" where
  "run_turn on_message controller i st =
     (if poll_failed i then Inr st
      else bindR (if woken i then drain on_message (lp_queue st, lp_sub st)
                  else Inr (lp_queue st, lp_sub st)) (\<lambda>(q, s).
        if next_wake_ns st \<le> in_now_ns i \<and> in_ready i \<and> \<not> in_paused i
        then bindR (controller (in_now_ns i) s) (\<lambda>s'.
               Inr (st\<lparr>lp_queue := q, next_wake_ns := next_wake (next_wake_ns st) (in_now_ns i),
                       lp_sub := s'\<rparr>))
        else Inr (st\<lparr>lp_queue := q, lp_sub := s\<rparr>)))"

definition Run ::
    "('m \<Rightarrow> 's \<Rightarrow> fault + 's) \<Rightarrow> (u64 \<Rightarrow> 's \<Rightarrow> fault + 's) \<Rightarrow> loop_input list \<Rightarrow> ('m, 's) loop_state \<Rightarrow>
     fault + ('m, 's) loop_state" where
  "Run on_message controller is st = foldR (run_turn on_message controller) is st"

section \<open>Draining the queue\<close>

declare drain.simps [simp del]

lemma drain_Nil: "fifo_queue q = [] \<Longrightarrow> \<exists>q'. drain f (q, s) = Inr (q', s) \<and> fifo_queue q' = []"
  by (subst drain.simps) (simp add: fifo_pop_def fifo_take_def)

lemma drain_Cons:
  "fifo_queue q = x # xs \<Longrightarrow> \<exists>q'. fifo_queue q' = xs \<and> drain f (q, s) = bindR (f x s) (\<lambda>s'. drain f (q', s'))"
  by (subst drain.simps) (simp add: fifo_pop_def fifo_take_def, metis Fifo.select_convs(1) Fifo.surjective Fifo.update_convs(1))

lemma drain_eq:
  "fifo_queue q = xs \<Longrightarrow>
   (case drain f (q, s) of Inl e \<Rightarrow> foldR f xs s = Inl e
    | Inr (q', s') \<Rightarrow> foldR f xs s = Inr s' \<and> fifo_queue q' = [])"
proof (induction xs arbitrary: q s)
  case Nil
  then show ?case using drain_Nil [of q f s] by auto
next
  case (Cons x xs)
  then obtain q' where q': "fifo_queue q' = xs" "drain f (q, s) = bindR (f x s) (\<lambda>s'. drain f (q', s'))"
    using drain_Cons [of q x xs f s] by blast
  show ?case
  proof (cases "f x s")
    case (Inr b)
    then have "drain f (q, s) = drain f (q', b)" "foldR f (x # xs) s = foldR f xs b" using q'(2) by simp_all
    then show ?thesis using Cons.IH [OF q'(1), of b] by (simp only:)
  qed (simp add: q'(2))
qed

lemma drain_ok: "foldR f (fifo_queue q) s = Inr s' \<Longrightarrow> \<exists>q'. drain f (q, s) = Inr (q', s') \<and> fifo_queue q' = []"
  using drain_eq [OF refl, of f q s] by (auto split: sum.splits)

section \<open>Concurrent use of the queue\<close>

text \<open>
  Any number of threads push while the loop pops: a push is the locked append and, later, the
  notification; a pop is the eventfd read and, later, the locked take.  \<open>c_pending\<close> counts the
  pushes between their two halves.
\<close>

datatype consumer_pc = Polling | Waiting | Taking

record 'a fifo_state =
  c_fifo :: "'a Fifo"
  c_pending :: nat
  c_pc :: consumer_pc
  c_pushed :: "'a list"
  c_popped :: "'a list"

inductive fifo_step :: "'a fifo_state \<Rightarrow> 'a fifo_state \<Rightarrow> bool" where
  push_append: "fifo_step s (s\<lparr>c_fifo := (c_fifo s)\<lparr>fifo_queue := fifo_queue (c_fifo s) @ [x]\<rparr>,
      c_pending := Suc (c_pending s), c_pushed := c_pushed s @ [x]\<rparr>)"
| push_notify: "c_pending s = Suc n \<Longrightarrow>
    fifo_step s (s\<lparr>c_fifo := (c_fifo s)\<lparr>fifo_event := snd (fd_notify (fifo_event (c_fifo s)))\<rparr>, c_pending := n\<rparr>)"
| poll_in: "c_pc s = Polling \<Longrightarrow> readable (c_fifo s) \<Longrightarrow> fifo_step s (s\<lparr>c_pc := Waiting\<rparr>)"
| pop_wait: "c_pc s = Waiting \<Longrightarrow>
    fifo_step s (s\<lparr>c_fifo := (c_fifo s)\<lparr>fifo_event := snd (fd_wait (fifo_event (c_fifo s)))\<rparr>, c_pc := Taking\<rparr>)"
| pop_some: "c_pc s = Taking \<Longrightarrow> fifo_take (c_fifo s) = (Some x, q) \<Longrightarrow>
    fifo_step s (s\<lparr>c_fifo := q, c_pc := Waiting, c_popped := c_popped s @ [x]\<rparr>)"
| pop_none: "c_pc s = Taking \<Longrightarrow> fifo_take (c_fifo s) = (None, q) \<Longrightarrow>
    fifo_step s (s\<lparr>c_fifo := q, c_pc := Polling\<rparr>)"

definition fifo_start :: "'a fifo_state" where
  "fifo_start = \<lparr>c_fifo = Fifo_ctor True, c_pending = 0, c_pc = Polling, c_pushed = [], c_popped = []\<rparr>"

definition fifo_inv :: "'a fifo_state \<Rightarrow> bool" where
  "fifo_inv s \<longleftrightarrow> fe_fd (fifo_event (c_fifo s)) \<and> c_pushed s = c_popped s @ fifo_queue (c_fifo s) \<and>
     (c_pc s = Polling \<and> fifo_queue (c_fifo s) \<noteq> [] \<and> c_pending s = 0 \<longrightarrow> readable (c_fifo s)) \<and>
     fe_count (fifo_event (c_fifo s)) \<noteq> - 1"

lemma notify_count:
  assumes "fe_fd e" "fe_count e \<noteq> - 1"
  shows "fe_fd (snd (fd_notify e))" "fe_count (snd (fd_notify e)) \<noteq> 0" "fe_count (snd (fd_notify e)) \<noteq> - 1"
proof -
  have "c + 1 \<noteq> 0" "c + 1 \<noteq> - 1" if "c \<noteq> - 1" "c \<noteq> - 2" for c :: u64
    using that eq_diff_eq [of c 0 1] eq_diff_eq [of c "- 1" 1] by simp_all
  then show "fe_fd (snd (fd_notify e))" "fe_count (snd (fd_notify e)) \<noteq> 0" "fe_count (snd (fd_notify e)) \<noteq> - 1"
    using assms by (auto simp: fd_notify_def)
qed

lemma fifo_step_inv: "fifo_step s s' \<Longrightarrow> fifo_inv s \<Longrightarrow> fifo_inv s'"
proof (induction rule: fifo_step.induct)
  case (push_notify s n)
  then show ?case using notify_count [of "fifo_event (c_fifo s)"] by (simp add: fifo_inv_def readable_def)
next
  case (pop_some s x q)
  then show ?case by (auto simp: fifo_inv_def fifo_take_def split: list.splits)
next
  case (pop_none s q)
  then show ?case by (auto simp: fifo_inv_def fifo_take_def split: list.splits)
qed (auto simp: fifo_inv_def fd_wait_def)

interpretation fifo: invariant_steps fifo_step fifo_start fifo_inv
  by unfold_locales
    (simp add: fifo_inv_def fifo_start_def Fifo_ctor_def FdEvent_ctor_def, rule fifo_step_inv)

section \<open>What the loop asks of a subsystem\<close>

text \<open>A subclass whose handlers return and keep its invariant never takes the loop down.\<close>

locale rt_subsystem =
  fixes on_message :: "'m \<Rightarrow> 's \<Rightarrow> fault + 's"
    and controller :: "u64 \<Rightarrow> 's \<Rightarrow> fault + 's"
    and inv :: "'s \<Rightarrow> bool"
  assumes message_total: "inv s \<Longrightarrow> \<exists>s'. on_message m s = Inr s' \<and> inv s'"
    and controller_total: "inv s \<Longrightarrow> \<exists>s'. controller t s = Inr s' \<and> inv s'"
begin

lemma turn_total:
  assumes "inv (lp_sub st)"
  shows "\<exists>st'. run_turn on_message controller i st = Inr st' \<and> inv (lp_sub st')"
proof (cases "poll_failed i")
  case False
  obtain s1 where s1: "foldR on_message (fifo_queue (lp_queue st)) (lp_sub st) = Inr s1" "inv s1"
    using foldR_total [of "fifo_queue (lp_queue st)" inv on_message, OF message_total assms] by blast
  then obtain q where "drain on_message (lp_queue st, lp_sub st) = Inr (q, s1)"
    using drain_ok [OF s1(1)] by blast
  then obtain q' s2 where 2: "(if woken i then drain on_message (lp_queue st, lp_sub st)
      else Inr (lp_queue st, lp_sub st)) = Inr (q', s2)" "inv s2" using s1(2) assms by (cases "woken i") auto
  obtain s3 where "controller (in_now_ns i) s2 = Inr s3" "inv s3" using controller_total [OF 2(2)] by blast
  then show ?thesis using False 2 by (auto simp: run_turn_def)
qed (use assms in \<open>simp add: run_turn_def\<close>)

lemma run_total: "inv (lp_sub st) \<Longrightarrow> \<exists>st'. Run on_message controller is st = Inr st' \<and> inv (lp_sub st')"
  unfolding Run_def by (rule foldR_total) (rule turn_total)

end

section \<open>The rate of the loop\<close>

text \<open>A controller that counts its runs; the clock of the inputs is the only thing that matters.\<close>

definition counted :: "(u64 \<Rightarrow> 's \<Rightarrow> fault + 's) \<Rightarrow> u64 \<Rightarrow> 's \<times> nat \<Rightarrow> fault + 's \<times> nat" where
  "counted c t = (\<lambda>(s, n). bindR (c t s) (\<lambda>s'. Inr (s', Suc n)))"

definition count_msg :: "('m \<Rightarrow> 's \<Rightarrow> fault + 's) \<Rightarrow> 'm \<Rightarrow> 's \<times> nat \<Rightarrow> fault + 's \<times> nat" where
  "count_msg f m = (\<lambda>(s, n). bindR (f m s) (\<lambda>s'. Inr (s', n)))"

lemma fold_count_msg: "foldR (count_msg f) ms (s, n) = Inr (s', n') \<Longrightarrow> n' = n"
  by (induction ms arbitrary: s) (auto simp: count_msg_def bindR_Inr_iff)

lemma drain_count: "drain (count_msg f) (q, s, n) = Inr (q', s', n') \<Longrightarrow> n' = n"
  using drain_eq [OF refl, of "count_msg f" q "(s, n)"] fold_count_msg by auto

lemma uint_period:
  assumes "uint (t :: u64) + 2500000 < 2 ^ 64"
  shows "uint (t + RT_PERIOD_NS) = uint t + 2500000"
  using assms by (subst uint_plus_simple_iff [THEN iffD1]) (auto simp: RT_PERIOD_NS_def word_le_def uint_word_ariths)

lemma next_wake_ge:
  assumes "wake \<le> now" "uint now + 2500000 < 2 ^ 64"
  shows "uint wake + 2500000 \<le> uint (next_wake wake now)" "uint now \<le> uint (next_wake wake now)"
    "uint (next_wake wake now) \<le> uint now + 2500000"
proof -
  have "uint wake \<le> uint now" using assms(1) by (simp add: word_le_def)
  then show "uint wake + 2500000 \<le> uint (next_wake wake now)" "uint now \<le> uint (next_wake wake now)"
    "uint (next_wake wake now) \<le> uint now + 2500000"
    using assms(2) by (auto simp: next_wake_def Let_def word_less_alt uint_period)
qed

lemma run_turn_count:
  assumes "run_turn (count_msg f) (counted c) i st = Inr st'" "lp_sub st = (s, n)"
  obtains s' n' where "lp_sub st' = (s', n')"
    "n' = n \<and> next_wake_ns st' = next_wake_ns st \<or>
     n' = Suc n \<and> next_wake_ns st \<le> in_now_ns i \<and> next_wake_ns st' = next_wake (next_wake_ns st) (in_now_ns i)"
proof (cases "poll_failed i")
  case True
  then show thesis using assms that by (simp add: run_turn_def)
next
  case False
  obtain q s1 n1 where d: "(if woken i then drain (count_msg f) (lp_queue st, lp_sub st)
      else Inr (lp_queue st, lp_sub st)) = Inr (q, s1, n1)"
    using assms(1) False by (auto simp: run_turn_def bindR_Inr_iff)
  then have n1: "n1 = n" using assms(2) drain_count by (auto split: if_splits)
  show thesis
    using assms(1) False d that
    by (auto simp: run_turn_def counted_def bindR_Inr_iff n1 split: if_splits)
qed

lemma Run_rate:
  assumes "Run (count_msg f) (counted c) is st = Inr st'" "lp_sub st = (s, n)"
    "\<forall>i \<in> set is. in_now_ns i \<le> now" "uint now + 2500000 < 2 ^ 64"
    "start + 2500000 * int n \<le> uint (next_wake_ns st)" "2500000 * int n \<le> uint now + 2500000 - start \<or> n = n0"
  shows "\<exists>s' n'. lp_sub st' = (s', n') \<and> start + 2500000 * int n' \<le> uint (next_wake_ns st') \<and>
    (2500000 * int n' \<le> uint now + 2500000 - start \<or> n' = n0)"
  using assms
proof (induction "is" arbitrary: st s n)
  case Nil
  then show ?case by (simp add: Run_def)
next
  case (Cons i "is")
  obtain st1 where st1: "run_turn (count_msg f) (counted c) i st = Inr st1"
    "Run (count_msg f) (counted c) is st1 = Inr st'"
    using Cons.prems(1) by (auto simp: Run_def bindR_Inr_iff)
  obtain s1 n1 where sub: "lp_sub st1 = (s1, n1)" and c: "n1 = n \<and> next_wake_ns st1 = next_wake_ns st \<or>
      n1 = Suc n \<and> next_wake_ns st \<le> in_now_ns i \<and> next_wake_ns st1 = next_wake (next_wake_ns st) (in_now_ns i)"
    by (rule run_turn_count [OF st1(1) Cons.prems(2)])
  have now: "uint (in_now_ns i) \<le> uint now" using Cons.prems(3) by (simp add: word_le_def)
  have "start + 2500000 * int n1 \<le> uint (next_wake_ns st1) \<and>
      (2500000 * int n1 \<le> uint now + 2500000 - start \<or> n1 = n0)"
    using c
  proof
    assume r: "n1 = Suc n \<and> next_wake_ns st \<le> in_now_ns i \<and>
      next_wake_ns st1 = next_wake (next_wake_ns st) (in_now_ns i)"
    then have le: "uint (next_wake_ns st) \<le> uint (in_now_ns i)" by (simp add: word_le_def)
    have "uint (next_wake_ns st) + 2500000 \<le> uint (next_wake_ns st1)"
      using next_wake_ge(1) [of "next_wake_ns st" "in_now_ns i"] r now Cons.prems(4) by simp
    then show ?thesis using r le now Cons.prems(5) by simp
  qed (use Cons.prems in simp)
  then show ?case using Cons.IH [OF st1(2) sub] Cons.prems(3,4) by simp
qed

section \<open>A leg in the loop\<close>

text \<open>Datagrams that only switch the motors of a leg on or off.\<close>

definition switch_frames :: "Legged \<Rightarrow> 'z motor_world_scheme \<Rightarrow> datagram set" where
  "switch_frames l w = (\<lambda>(n, d). command_dg (maxCanDevice w) (motors w ! n) 0 d) `
     (set (l_motors l) \<times> {dataframe_enable_motor, dataframe_disable_motor})"

definition same_leg :: "Legged \<times> 'z leg_world_scheme \<Rightarrow> Legged \<times> 'z leg_world_scheme \<Rightarrow> bool" where
  "same_leg s s' \<longleftrightarrow> same_wiring (snd s) (snd s') \<and> motors (snd s') = motors (snd s) \<and> w_shm (snd s') = w_shm (snd s) \<and>
     l_motors (fst s') = l_motors (fst s) \<and> l_shm (fst s') = l_shm (fst s) \<and> l_staging (fst s') = l_staging (fst s) \<and>
     m_groupOffset (fst s') = m_groupOffset (fst s) \<and>
     length (m_motorResponsive (fst s')) = length (m_motorResponsive (fst s)) \<and>
     (\<exists>ds. sent (snd s') = sent (snd s) @ ds \<and> set ds \<subseteq> switch_frames (fst s) (snd s))"

lemma leg_frames_switch:
  "set (leg_frames dataframe_disable_motor l w) \<subseteq> switch_frames l w"
  "set (leg_frames dataframe_enable_motor l w) \<subseteq> switch_frames l w"
  by (auto simp: leg_frames_def switch_frames_def)

lemma same_leg_refl: "same_leg s s"
  by (simp add: same_leg_def)

lemma same_leg_trans: "same_leg s t \<Longrightarrow> same_leg t u \<Longrightarrow> same_leg s u"
proof -
  assume a: "same_leg s t" "same_leg t u"
  then have "switch_frames (fst t) (snd t) = switch_frames (fst s) (snd s)"
    by (simp add: same_leg_def switch_frames_def same_wiring_def)
  with a show ?thesis
    by (auto simp: same_leg_def intro: same_wiring_trans)
qed

lemma enableMotor_shm: "enableMotor n w = Inr w' \<Longrightarrow> w_shm w' = w_shm w"
  by (simp add: enableMotor_def sendMessage_shm)

lemma setEnable_ok:
  assumes "leg_wired w l"
  obtains l' w' where "setEnable en l w = Inr (l', w')" "same_leg (l, w) (l', w')" "m_isEnabled l' = en"
proof -
  consider "m_isEnabled l = en" | "en" "\<not> m_isEnabled l" | "\<not> en" "m_isEnabled l" by blast
  then show thesis
  proof cases
    case 1
    then show ?thesis using that [of l w] by (simp add: setEnable_def same_leg_refl)
  next
    case 2
    obtain w' where w': "foldR enableMotor (l_motors l) w = Inr w'" "same_wiring w w'" "motors w' = motors w"
      "sent w' = sent w @ leg_frames dataframe_enable_motor l w" by (rule enable_all [OF assms])
    have "w_shm w' = w_shm w" by (rule foldR_shm [OF w'(1) enableMotor_shm])
    then show ?thesis
      using that w' 2 leg_frames_switch(2) [of l w] by (simp add: setEnable_def same_leg_def)
  next
    case 3
    obtain w' where w': "foldR disableMotor (l_motors l) w = Inr w'" "same_wiring w w'" "motors w' = motors w"
      "sent w' = sent w @ leg_frames dataframe_disable_motor l w" by (rule disable_all [OF assms])
    have "w_shm w' = w_shm w" by (rule foldR_shm [OF w'(1) disableMotor_shm])
    then show ?thesis
      using that w' 3 leg_frames_switch(1) [of l w] by (simp add: setEnable_def same_leg_def)
  qed
qed

lemma same_leg_wired: "same_leg (l, w) (l', w') \<Longrightarrow> leg_wired w l \<Longrightarrow> leg_wired w' l'"
  using leg_wired_same [of w w' l] by (simp add: same_leg_def leg_wired_def)

definition leg_message :: "u8 \<Rightarrow> Legged \<times> 'z leg_world_scheme \<Rightarrow> fault + Legged \<times> 'z leg_world_scheme" where
  "leg_message t = (\<lambda>(l, w). onMessage t l w)"

definition leg_controller ::
    "(nat \<Rightarrow> u64) \<Rightarrow> u64 \<Rightarrow> u64 \<Rightarrow> Legged \<times> 'z leg_world_scheme \<Rightarrow> fault + Legged \<times> 'z leg_world_scheme" where
  "leg_controller clk cp_end cp_start = (\<lambda>(l, w). controllerPeriodic rnd64 cp_start clk cp_end l w)"

lemma leg_message_ok:
  assumes "leg_wired w l"
  obtains l' w' where "leg_message t (l, w) = Inr (l', w')" "same_leg (l, w) (l', w')"
    "t \<in> {0x11, 0x12} \<longrightarrow> \<not> m_isEnabled l'"
proof (cases "t \<in> {0x10, 0x11, 0x12}")
  case True
  define en where "en = (t = 0x10)"
  have m: "leg_message t (l, w) = setEnable en l w"
    using True by (auto simp: leg_message_def onMessage_def decode_message_def en_def)
  show thesis
    by (rule setEnable_ok [OF assms, of en]) (rule that [unfolded m], auto simp: en_def)
next
  case False
  then show thesis
    using that [of l w] by (simp add: leg_message_def onMessage_def decode_message_def same_leg_refl)
qed

lemma leg_messages_ok:
  assumes "leg_wired w l"
  shows "\<exists>l' w'. foldR leg_message ts (l, w) = Inr (l', w') \<and> same_leg (l, w) (l', w') \<and>
    (ts \<noteq> [] \<and> last ts \<in> {0x11, 0x12} \<longrightarrow> \<not> m_isEnabled l')"
  using assms
proof (induction ts arbitrary: l w)
  case (Cons t ts)
  obtain l1 w1 where 1: "leg_message t (l, w) = Inr (l1, w1)" "same_leg (l, w) (l1, w1)"
    "t \<in> {0x11, 0x12} \<longrightarrow> \<not> m_isEnabled l1"
    by (rule leg_message_ok [OF Cons.prems, of t])
  obtain l' w' where "foldR leg_message ts (l1, w1) = Inr (l', w')" "same_leg (l1, w1) (l', w')"
    "ts \<noteq> [] \<and> last ts \<in> {0x11, 0x12} \<longrightarrow> \<not> m_isEnabled l'"
    using Cons.IH [OF same_leg_wired [OF 1(2) Cons.prems]] by blast
  then show ?case
    using 1 same_leg_trans [OF 1(2)] by (cases ts) auto
qed (simp add: same_leg_refl)

section \<open>Properties\<close>

text \<open>C19: whatever wakes the real-time loop and however often, the controller runs at most once
  per 2.5 ms on average: its runs up to time \<open>now\<close> number at most the periods elapsed since
  the loop started, plus one.\<close>

theorem control_rate_bounded:
  assumes "Run (count_msg f) (counted c) is \<lparr>lp_queue = q, next_wake_ns = start, lp_sub = (s, 0)\<rparr> = Inr st'"
    "\<forall>i \<in> set is. in_now_ns i \<le> now" "uint now + 2500000 < 2 ^ 64" "start \<le> now"
  shows "int (snd (lp_sub st')) \<le> (uint now - uint start) div 2500000 + 1"
proof -
  have "\<exists>s' n'. lp_sub st' = (s', n') \<and> uint start + 2500000 * int n' \<le> uint (next_wake_ns st') \<and>
    (2500000 * int n' \<le> uint now + 2500000 - uint start \<or> n' = 0)"
    by (rule Run_rate [OF assms(1) _ assms(2,3), where n = 0]) simp_all
  then show ?thesis using assms(4) by (auto simp: word_le_def)
qed

definition demo_inputs :: "loop_input list" where
  "demo_inputs = map (\<lambda>t. \<lparr>poll_failed = False, woken = True, in_now_ns = t, in_ready = True, in_paused = False\<rparr>)
     [100, 200, 3000000, 3000100]"

definition demo_run :: "fault + (unit, nat \<times> nat) loop_state" where
  "demo_run = Run (count_msg (\<lambda>m s. Inr s)) (counted (\<lambda>t s. Inr (s + 1))) demo_inputs
     \<lparr>lp_queue = fifo_push () (Fifo_ctor True), next_wake_ns = 100, lp_sub = (0, 0)\<rparr>"

theorem control_rate_bounded_witness:
  "snd (lp_sub (projr demo_run)) = 2 \<and> int (snd (lp_sub (projr demo_run))) \<le> (3000100 - 100) div 2500000 + 1"
proof -
  have r: "isl demo_run = False" "snd (lp_sub (projr demo_run)) = 2" by code_simp+
  then have "Run (count_msg (\<lambda>m s. Inr s)) (counted (\<lambda>t s. Inr (s + 1))) demo_inputs
     \<lparr>lp_queue = fifo_push () (Fifo_ctor True), next_wake_ns = 100, lp_sub = (0, 0)\<rparr> = Inr (projr demo_run)"
    unfolding demo_run_def by simp
  from control_rate_bounded [OF this, of 3000100] show ?thesis
    unfolding r(2) by (simp add: demo_inputs_def)
qed

lemma disabled_cycle:
  assumes "leg_wired w l" "leg_ok l" "\<not> m_isEnabled l"
    "l_shm l \<Longrightarrow> w_shm w = Some shm \<and> (\<not> faulted shm \<longrightarrow> (\<exists>stg. l_staging l = Some stg \<and>
       dbuf_wf group_wf (stage_of stg shm) \<and> length (cmd_buffers shm) = 2 \<and>
       (\<forall>c \<in> set (cmd_buffers shm). command_wf c)))"
  shows "\<exists>l' w' ds. controllerPeriodic rnd64 a clk b l w = Inr (l', w') \<and> \<not> m_isEnabled l' \<and>
    sent w' = sent w @ ds \<and> set ds \<subseteq> switch_frames l w"
proof -
  consider "\<not> l_shm l" | "l_shm l" "faulted shm" | "l_shm l" "\<not> faulted shm" by blast
  then show ?thesis
  proof cases
    case 1
    then show ?thesis using assms(3) by (intro exI [of _ l] exI [of _ w] exI [of _ "[]"]) (simp add: controllerPeriodic_def)
  next
    case 2
    obtain w' where "controllerPeriodic rnd64 a clk b l w = Inr (l\<lparr>m_motorsFaultDisabled := True\<rparr>, w')"
      "sent w' = sent w @ (if m_motorsFaultDisabled l then [] else leg_frames dataframe_disable_motor l w)"
      by (rule faulted_cycle [OF 2(1) _ 2(2) assms(1)]) (use assms(4) 2 in auto)
    then show ?thesis using assms(3) leg_frames_switch(1) [of l w] by fastforce
  next
    case 3
    obtain stg where s: "w_shm w = Some shm" "l_staging l = Some stg" "dbuf_wf group_wf (stage_of stg shm)"
      "length (cmd_buffers shm) = 2" "\<forall>c \<in> set (cmd_buffers shm). command_wf c" using assms(4) 3 by blast
    obtain l' w' where "controllerPeriodic rnd64 a clk b l w = Inr (l', w')" "sent w' = sent w @ actuation a shm l w"
      "m_isEnabled l' = m_isEnabled l"
      by (rule controllerPeriodic_ok [OF 3(1) s(2) assms(2,1) s(1) 3(2) s(3-5)]) blast
    then show ?thesis using assms(3) by (simp add: actuation_def)
  qed
qed

text \<open>C9: a stop or disable request that is the newest message when the loop wakes is obeyed before
  the controller runs in the same turn: the leg ends the turn disabled and everything it sent
  meanwhile switches motors on or off; no motion command leaves it.\<close>

theorem stop_message_precedes_control:
  assumes "\<not> poll_failed i" "woken i" "fifo_queue (lp_queue st) = ts @ [t]" "t \<in> {0x11, 0x12}"
    "lp_sub st = (l, w)" "leg_wired w l" "leg_ok l"
    "l_shm l \<Longrightarrow> w_shm w = Some shm \<and> (\<not> faulted shm \<longrightarrow> (\<exists>stg. l_staging l = Some stg \<and>
       dbuf_wf group_wf (stage_of stg shm) \<and> length (cmd_buffers shm) = 2 \<and>
       (\<forall>c \<in> set (cmd_buffers shm). command_wf c)))"
  shows "\<exists>st' l' w' ds. run_turn leg_message (leg_controller clk b) i st = Inr st' \<and> lp_sub st' = (l', w') \<and>
    \<not> m_isEnabled l' \<and> sent w' = sent w @ ds \<and> set ds \<subseteq> switch_frames l w"
proof -
  obtain l1 w1 where m: "foldR leg_message (ts @ [t]) (l, w) = Inr (l1, w1)" "same_leg (l, w) (l1, w1)"
    "\<not> m_isEnabled l1"
    using leg_messages_ok [OF assms(6), of "ts @ [t]"] assms(4) by auto
  obtain q where d: "drain leg_message (lp_queue st, l, w) = Inr (q, l1, w1)"
    using drain_ok [of leg_message "lp_queue st" "(l, w)"] m(1) assms(3) by auto
  obtain ds1 where ds1: "sent w1 = sent w @ ds1" "set ds1 \<subseteq> switch_frames l w"
    using m(2) by (auto simp: same_leg_def)
  have sw: "switch_frames l1 w1 = switch_frames l w"
    using m(2) by (simp add: same_leg_def switch_frames_def same_wiring_def)
  have sh: "l_shm l1 = l_shm l" "w_shm w1 = w_shm w" "l_staging l1 = l_staging l" and ok: "leg_ok l1"
    using m(2) assms(7) by (simp_all add: same_leg_def leg_ok_def)
  obtain l2 w2 ds2 where c: "controllerPeriodic rnd64 (in_now_ns i) clk b l1 w1 = Inr (l2, w2)" "\<not> m_isEnabled l2"
    "sent w2 = sent w1 @ ds2" "set ds2 \<subseteq> switch_frames l1 w1"
    using disabled_cycle [OF same_leg_wired [OF m(2) assms(6)] ok m(3), of shm "in_now_ns i" clk b] assms(8)
    unfolding sh by blast
  let ?run = "next_wake_ns st \<le> in_now_ns i \<and> in_ready i \<and> \<not> in_paused i"
  have r: "run_turn leg_message (leg_controller clk b) i st =
      Inr (if ?run then st\<lparr>lp_queue := q, next_wake_ns := next_wake (next_wake_ns st) (in_now_ns i), lp_sub := (l2, w2)\<rparr>
           else st\<lparr>lp_queue := q, lp_sub := (l1, w1)\<rparr>)"
    using assms(1,2,5) d c(1) by (simp add: run_turn_def leg_controller_def)
  show ?thesis
  proof (cases ?run)
    case True
    then show ?thesis using r c(2-4) ds1 sw by (auto simp: Un_subset_iff)
  next
    case False
    then show ?thesis using r m(3) ds1 by auto
  qed
qed

theorem stop_message_precedes_control_witness:
  "\<exists>st' l' w' ds. run_turn leg_message (leg_controller (\<lambda>_. 8) 9)
      \<lparr>poll_failed = False, woken = True, in_now_ns = 7, in_ready = True, in_paused = False\<rparr>
      \<lparr>lp_queue = fifo_push 0x12 (fifo_push 0x10 (Fifo_ctor True)), next_wake_ns = 7,
       lp_sub = (left_leg, left_world live_shm)\<rparr> = Inr st' \<and> lp_sub st' = (l', w') \<and> \<not> m_isEnabled l' \<and>
    sent w' = sent (left_world live_shm) @ ds \<and> set ds \<subseteq> switch_frames left_leg (left_world live_shm)"
  by (rule stop_message_precedes_control [where ts = "[0x10]" and t = "0x12" and shm = live_shm])
    (use left_leg_ok live_shm_ok in \<open>auto simp: fifo_push_def Fifo_ctor_def Let_def\<close>)

text \<open>C18: no message is lost or left unnoticed, whatever the interleaving of the pushing threads with
  the loop: the messages come out in the order of the pushes, and when the loop is back in
  \<open>poll\<close> with every push completed, the descriptor is readable if a message is waiting.\<close>

theorem fifo_no_lost_wakeup:
  assumes "fifo_step\<^sup>*\<^sup>* fifo_start s"
  shows "c_pushed s = c_popped s @ fifo_queue (c_fifo s) \<and>
    (c_pc s = Polling \<and> c_pending s = 0 \<and> fifo_queue (c_fifo s) \<noteq> [] \<longrightarrow> readable (c_fifo s))"
  using fifo.always [OF assms] by (simp add: fifo_inv_def)

definition pushed_state :: "nat fifo_state" where
  "pushed_state = fifo_start\<lparr>c_fifo := fifo_push 5 (Fifo_ctor True), c_pushed := [5]\<rparr>"

theorem fifo_no_lost_wakeup_witness:
  "readable (c_fifo pushed_state) \<and> c_pushed pushed_state = [5]"
proof -
  define s0 :: "nat fifo_state" where "s0 = fifo_start"
  define s1 where "s1 = s0\<lparr>c_fifo := (c_fifo s0)\<lparr>fifo_queue := fifo_queue (c_fifo s0) @ [5]\<rparr>,
      c_pending := Suc (c_pending s0), c_pushed := c_pushed s0 @ [5]\<rparr>"
  have "fifo_step s0 s1" unfolding s1_def by (rule push_append)
  moreover have "fifo_step s1 (s1\<lparr>c_fifo := (c_fifo s1)\<lparr>fifo_event := snd (fd_notify (fifo_event (c_fifo s1)))\<rparr>,
      c_pending := 0\<rparr>)"
    by (rule push_notify) (simp add: s1_def s0_def fifo_start_def)
  moreover have "s1\<lparr>c_fifo := (c_fifo s1)\<lparr>fifo_event := snd (fd_notify (fifo_event (c_fifo s1)))\<rparr>, c_pending := 0\<rparr> = pushed_state"
    by (simp add: s1_def s0_def pushed_state_def fifo_start_def fifo_push_def Fifo_ctor_def Let_def)
  ultimately have "fifo_step\<^sup>*\<^sup>* fifo_start pushed_state" by (simp add: s0_def)
  from fifo_no_lost_wakeup [OF this] show ?thesis
    by (simp add: pushed_state_def fifo_start_def fifo_push_def Fifo_ctor_def Let_def)
qed

end
