(* ===== verification/PauseHandshake.thy ===== *)
theory PauseHandshake
  imports Prelude
begin

text \<open>
  The handshake of \<open>lib/robot/ControlledSubsystemBase.h\<close> by which a thread that is about to
  unmap the shared memory keeps the real-time loop out of \<open>controllerPeriodic\<close>: \<open>pause()\<close> raises
  \<open>m_pauseRequested\<close> and spins on \<open>m_inControllerPeriodic\<close> with a timeout, the loop raises
  \<open>m_inControllerPeriodic\<close> and then tests \<open>m_pauseRequested\<close>.  One step relation, two memory
  models: with \<open>fenced\<close> every store reaches memory at once, without it a store waits in the
  thread's store buffer, as release stores on real processors do.
\<close>

section \<open>Threads and memory\<close>

datatype loop_pc = Outside | Entered | Inside | Refused
datatype pause_pc = Free | Spinning | Paused | TimedOut

record handshake =
  hs_pause :: bool
  hs_in :: bool
  buf_pause :: "bool list"
  buf_in :: "bool list"
  loop_at :: loop_pc
  pause_at :: pause_pc

text \<open>A store is appended to the buffer; in the fenced model the buffer is written out at once.\<close>

definition store_pause :: "bool \<Rightarrow> bool \<Rightarrow> handshake \<Rightarrow> handshake" where
  "store_pause fenced v s = (if fenced then s\<lparr>hs_pause := v\<rparr> else s\<lparr>buf_pause := buf_pause s @ [v]\<rparr>)"

definition store_in :: "bool \<Rightarrow> bool \<Rightarrow> handshake \<Rightarrow> handshake" where
  "store_in fenced v s = (if fenced then s\<lparr>hs_in := v\<rparr> else s\<lparr>buf_in := buf_in s @ [v]\<rparr>)"

inductive hs_step :: "bool \<Rightarrow> handshake \<Rightarrow> handshake \<Rightarrow> bool" for fenced where
  loop_enter: "loop_at s = Outside \<Longrightarrow> hs_step fenced s ((store_in fenced True s)\<lparr>loop_at := Entered\<rparr>)"
| loop_refused: "loop_at s = Entered \<Longrightarrow> hs_pause s \<Longrightarrow> hs_step fenced s (s\<lparr>loop_at := Refused\<rparr>)"
| loop_control: "loop_at s = Entered \<Longrightarrow> \<not> hs_pause s \<Longrightarrow> hs_step fenced s (s\<lparr>loop_at := Inside\<rparr>)"
| loop_leave: "loop_at s \<in> {Inside, Refused} \<Longrightarrow>
    hs_step fenced s ((store_in fenced False s)\<lparr>loop_at := Outside\<rparr>)"
| pause_request: "pause_at s = Free \<Longrightarrow>
    hs_step fenced s ((store_pause fenced True s)\<lparr>pause_at := Spinning\<rparr>)"
| pause_return: "pause_at s = Spinning \<Longrightarrow> \<not> hs_in s \<Longrightarrow> hs_step fenced s (s\<lparr>pause_at := Paused\<rparr>)"
| pause_timeout: "pause_at s = Spinning \<Longrightarrow> hs_in s \<Longrightarrow> hs_step fenced s (s\<lparr>pause_at := TimedOut\<rparr>)"
| resume: "pause_at s \<in> {Paused, TimedOut} \<Longrightarrow>
    hs_step fenced s ((store_pause fenced False s)\<lparr>pause_at := Free\<rparr>)"
| flush_pause: "buf_pause s = v # vs \<Longrightarrow> hs_step fenced s (s\<lparr>hs_pause := v, buf_pause := vs\<rparr>)"
| flush_in: "buf_in s = v # vs \<Longrightarrow> hs_step fenced s (s\<lparr>hs_in := v, buf_in := vs\<rparr>)"

inductive_cases hs_stepE: "hs_step fenced s s'"

definition hs_start :: handshake where
  "hs_start = \<lparr>hs_pause = False, hs_in = False, buf_pause = [], buf_in = [], loop_at = Outside, pause_at = Free\<rparr>"

section \<open>Invariant of the fenced handshake\<close>

definition hs_inv :: "handshake \<Rightarrow> bool" where
  "hs_inv s \<longleftrightarrow> buf_pause s = [] \<and> buf_in s = [] \<and> hs_in s = (loop_at s \<noteq> Outside) \<and>
     hs_pause s = (pause_at s \<noteq> Free) \<and> (pause_at s = Paused \<longrightarrow> loop_at s \<noteq> Inside)"

lemma hs_step_inv: "hs_step True s s' \<Longrightarrow> hs_inv s \<Longrightarrow> hs_inv s'"
  by (induction rule: hs_step.induct) (auto simp: hs_inv_def store_in_def store_pause_def)

interpretation handshake: invariant_steps "hs_step True" hs_start hs_inv
  by unfold_locales (simp add: hs_inv_def hs_start_def, rule hs_step_inv)

section \<open>Properties\<close>



text \<open>C17: with the release stores and acquire loads the code uses, whose stores may still be in the
  store buffers when the other flag is read, \<open>pause()\<close> can return normally while the loop is
  inside the controller.\<close>

theorem pause_release_acquire_broken:
  "\<exists>s. (hs_step False)\<^sup>*\<^sup>* hs_start s \<and> pause_at s = Paused \<and> loop_at s = Inside"
proof -
  define s1 where "s1 = (store_pause False True hs_start)\<lparr>pause_at := Spinning\<rparr>"
  define s2 where "s2 = (store_in False True s1)\<lparr>loop_at := Entered\<rparr>"
  define s3 where "s3 = s2\<lparr>loop_at := Inside\<rparr>"
  define s4 where "s4 = s3\<lparr>pause_at := Paused\<rparr>"
  note d = s1_def s2_def s3_def s4_def hs_start_def store_pause_def store_in_def
  have "hs_step False hs_start s1" unfolding s1_def by (rule pause_request) (simp add: hs_start_def)
  moreover have "hs_step False s1 s2" unfolding s2_def by (rule loop_enter) (simp add: d)
  moreover have "hs_step False s2 s3" unfolding s3_def by (rule loop_control) (simp_all add: d)
  moreover have "hs_step False s3 s4" unfolding s4_def by (rule pause_return) (simp_all add: d)
  ultimately have "(hs_step False)\<^sup>*\<^sup>* hs_start s4" by simp
  then show ?thesis by (intro exI [of _ s4]) (simp add: d)
qed

text \<open>A \<open>pause()\<close> that times out returns like one that succeeded, and the loop may be inside the
  controller then, in either memory model.\<close>

lemma pause_timeout_unsafe:
  "\<exists>s. (hs_step fenced)\<^sup>*\<^sup>* hs_start s \<and> pause_at s = TimedOut \<and> loop_at s = Inside"
proof -
  define s1 where "s1 = (store_in fenced True hs_start)\<lparr>loop_at := Entered\<rparr>"
  define s2 where "s2 = s1\<lparr>loop_at := Inside\<rparr>"
  define s3 where "s3 = s2\<lparr>hs_in := True, buf_in := []\<rparr>"
  define s4 where "s4 = (store_pause fenced True s3)\<lparr>pause_at := Spinning\<rparr>"
  define s5 where "s5 = s4\<lparr>pause_at := TimedOut\<rparr>"
  note d = s1_def s2_def s3_def s4_def s5_def hs_start_def store_pause_def store_in_def
  have "hs_step fenced hs_start s1" unfolding s1_def by (rule loop_enter) (simp add: hs_start_def)
  moreover have "hs_step fenced s1 s2" unfolding s2_def by (rule loop_control) (simp_all add: d)
  moreover have "(hs_step fenced)\<^sup>*\<^sup>* s2 s3"
  proof (cases fenced)
    case True
    then have "s3 = s2" by (simp add: d)
    then show ?thesis by simp
  next
    case False
    then have "hs_step fenced s2 s3" unfolding s3_def by (intro flush_in) (simp add: d)
    then show ?thesis by simp
  qed
  moreover have "hs_step fenced s3 s4" unfolding s4_def by (rule pause_request) (simp add: d)
  moreover have "hs_step fenced s4 s5" unfolding s5_def by (rule pause_timeout) (simp_all add: d)
  ultimately have "(hs_step fenced)\<^sup>*\<^sup>* hs_start s5"
    by (meson converse_rtranclp_into_rtranclp rtranclp.rtrancl_into_rtrancl)
  then show ?thesis by (intro exI [of _ s5]) (simp add: d)
qed

end
