(* ===== verification/DriverStation.thy ===== *)
theory DriverStation
  imports Binary64
begin

text \<open>
  \<open>lib/ds\<close>: the control word, the decoding of a driver-station packet, the three joystick
  caches shared by the network thread (\<open>newDataOccur\<close>) and the main loop
  (\<open>HAL_RefreshDSData\<close>), and the button edges of \<open>DriverStation\<close>.  A packet is the payload's
  bytes; reading past its end is a fault.  \<open>char\<close> is signed, as on the target.
\<close>

section \<open>Data\<close>

definition HAL_kMaxJoystickAxes :: nat where "HAL_kMaxJoystickAxes = 12"
definition HAL_kMaxJoystickPOVs :: nat where "HAL_kMaxJoystickPOVs = 12"
definition HAL_kMaxJoysticks :: nat where "HAL_kMaxJoysticks = 6"
definition kJoystickPorts :: nat where "kJoystickPorts = 6"
definition JOYSTICK_POS :: int where "JOYSTICK_POS = 19"

record HAL_ControlWord =
  cw_enabled :: bool
  cw_autonomous :: bool
  cw_test :: bool
  cw_eStop :: bool
  cw_fmsAttached :: bool
  cw_dsAttached :: bool
  cw_reserved :: u32

definition ControlWord_zero :: HAL_ControlWord where
  "ControlWord_zero = \<lparr>cw_enabled = False, cw_autonomous = False, cw_test = False, cw_eStop = False,
     cw_fmsAttached = False, cw_dsAttached = False, cw_reserved = 0\<rparr>"

record HAL_JoystickAxes =
  ax_count :: int
  ax_axes :: "real list"
  ax_raw :: "u8 list"

record HAL_JoystickPOVs =
  pov_count :: int
  povs :: "int list"

record HAL_JoystickButtons =
  buttons :: u32
  btn_count :: u8

record JoystickDataCache =
  jc_axes :: "HAL_JoystickAxes list"
  jc_povs :: "HAL_JoystickPOVs list"
  jc_buttons :: "HAL_JoystickButtons list"
  jc_controlWord :: HAL_ControlWord

definition JoystickDataCache_zero :: JoystickDataCache where
  "JoystickDataCache_zero =
     \<lparr>jc_axes = replicate HAL_kMaxJoysticks
        \<lparr>ax_count = 0, ax_axes = replicate HAL_kMaxJoystickAxes 0, ax_raw = replicate HAL_kMaxJoystickAxes 0\<rparr>,
      jc_povs = replicate HAL_kMaxJoysticks \<lparr>pov_count = 0, povs = replicate HAL_kMaxJoystickPOVs 0\<rparr>,
      jc_buttons = replicate HAL_kMaxJoysticks \<lparr>buttons = 0, btn_count = 0\<rparr>,
      jc_controlWord = ControlWord_zero\<rparr>"

section \<open>The control word\<close>

definition isEnabled :: "HAL_ControlWord \<Rightarrow> bool" where
  "isEnabled w = (cw_enabled w \<and> cw_dsAttached w)"

definition isDisabled :: "HAL_ControlWord \<Rightarrow> bool" where
  "isDisabled w = (\<not> (cw_enabled w \<and> cw_dsAttached w))"

definition isEStopped :: "HAL_ControlWord \<Rightarrow> bool" where
  "isEStopped w = cw_eStop w"

definition isAutonomous :: "HAL_ControlWord \<Rightarrow> bool" where
  "isAutonomous w = cw_autonomous w"

definition isAutonomousEnabled :: "HAL_ControlWord \<Rightarrow> bool" where
  "isAutonomousEnabled w = (cw_autonomous w \<and> cw_enabled w \<and> cw_dsAttached w)"

definition isTeleop :: "HAL_ControlWord \<Rightarrow> bool" where
  "isTeleop w = (\<not> (cw_autonomous w \<or> cw_test w))"

definition isTeleopEnabled :: "HAL_ControlWord \<Rightarrow> bool" where
  "isTeleopEnabled w = (\<not> cw_autonomous w \<and> \<not> cw_test w \<and> cw_enabled w \<and> cw_dsAttached w)"

definition isTest :: "HAL_ControlWord \<Rightarrow> bool" where
  "isTest w = cw_test w"

definition isDSAttached :: "HAL_ControlWord \<Rightarrow> bool" where
  "isDSAttached w = cw_dsAttached w"

text \<open>\<open>DriverStation\<close> has its own versions of the same questions; the two enabled ones leave the
  attachment out.\<close>

definition ds_isAutonomousEnabled :: "HAL_ControlWord \<Rightarrow> bool" where
  "ds_isAutonomousEnabled w = (cw_autonomous w \<and> cw_enabled w)"

definition ds_isTeleopEnabled :: "HAL_ControlWord \<Rightarrow> bool" where
  "ds_isTeleopEnabled w = (\<not> cw_autonomous w \<and> \<not> cw_test w \<and> cw_enabled w)"

section \<open>Decoding a packet\<close>

text \<open>\<open>payload[i]\<close> with a signed \<open>char\<close>; indices are \<open>int\<close>.\<close>

definition pay :: "bytes \<Rightarrow> int \<Rightarrow> fault + int" where
  "pay p i = (if 0 \<le> i \<and> nat i < length p then Inr (sint (p ! nat i)) else Inl OutOfBounds)"

fun read_axes :: "bytes \<Rightarrow> int \<Rightarrow> nat \<Rightarrow> nat \<Rightarrow> fault + int list" where
  "read_axes p offset i 0 = Inr []"
| "read_axes p offset i (Suc n) =
     (if HAL_kMaxJoystickAxes \<le> i then Inl OutOfBounds
      else bindR (pay p offset) (\<lambda>v. bindR (read_axes p (offset + 1) (Suc i) n) (\<lambda>vs. Inr (v # vs))))"

text \<open>\<open>fl\<close> is the rounding to \<open>float\<close> that storing the double quotient performs.\<close>

definition axis_value :: "(real \<Rightarrow> real) \<Rightarrow> (real \<Rightarrow> real) \<Rightarrow> int \<Rightarrow> real" where
  "axis_value rnd fl v = fl (if v < 0 then rnd (of_int v / 128) else rnd (of_int v / 127))"

definition put_prefix :: "'a list \<Rightarrow> 'a list \<Rightarrow> 'a list" where
  "put_prefix ys xs = ys @ drop (length ys) xs"

definition HAL_GetJoystickAxesInternal ::
    "(real \<Rightarrow> real) \<Rightarrow> (real \<Rightarrow> real) \<Rightarrow> bytes \<Rightarrow> int \<Rightarrow> HAL_JoystickAxes \<Rightarrow> fault + HAL_JoystickAxes" where
  "HAL_GetJoystickAxesInternal rnd fl p joystickNum a =
     bindR (pay p JOYSTICK_POS) (\<lambda>joystick_size.
     if joystick_size \<le> joystickNum then Inr a
     else bindR (pay p (JOYSTICK_POS + 2)) (\<lambda>count.
          bindR (read_axes p (JOYSTICK_POS + 3) 0 (nat count)) (\<lambda>vs.
            Inr \<lparr>ax_count = count, ax_axes = put_prefix (map (axis_value rnd fl) vs) (ax_axes a),
                 ax_raw = put_prefix (map word_of_int vs) (ax_raw a)\<rparr>)))"

fun read_povs :: "bytes \<Rightarrow> int \<Rightarrow> nat \<Rightarrow> nat \<Rightarrow> fault + int list" where
  "read_povs p offset i 0 = Inr []"
| "read_povs p offset i (Suc n) =
     bindR (pay p offset) (\<lambda>hi. bindR (pay p (offset + 1)) (\<lambda>lo.
       if HAL_kMaxJoystickPOVs \<le> i then Inl OutOfBounds
       else bindR (read_povs p (offset + 2) (Suc i) n) (\<lambda>vs.
         Inr (signed_take_bit 15 (hi * 256 + lo) # vs))))"

definition HAL_GetJoystickPOVsInternal :: "bytes \<Rightarrow> int \<Rightarrow> HAL_JoystickPOVs \<Rightarrow> fault + HAL_JoystickPOVs" where
  "HAL_GetJoystickPOVsInternal p joystickNum v =
     bindR (pay p JOYSTICK_POS) (\<lambda>joystick_size.
     if joystick_size \<le> joystickNum then Inr v
     else bindR (pay p (JOYSTICK_POS + 2)) (\<lambda>numAxes.
          let offset = 6 + JOYSTICK_POS + numAxes in
          bindR (pay p offset) (\<lambda>count.
          bindR (read_povs p (offset + 1) 0 (nat count)) (\<lambda>vs.
            Inr \<lparr>pov_count = count, povs = put_prefix vs (povs v)\<rparr>))))"

definition HAL_GetJoystickButtonsInternal ::
    "bytes \<Rightarrow> int \<Rightarrow> HAL_JoystickButtons \<Rightarrow> fault + HAL_JoystickButtons" where
  "HAL_GetJoystickButtonsInternal p joystickNum b =
     bindR (pay p JOYSTICK_POS) (\<lambda>joystick_size.
     if joystick_size \<le> joystickNum then Inr b
     else bindR (pay p (JOYSTICK_POS + 2)) (\<lambda>numAxes.
          let offset = JOYSTICK_POS + 3 + numAxes in
          bindR (pay p offset) (\<lambda>count.
          bindR (pay p (offset + 1)) (\<lambda>hi.
          bindR (pay p (offset + 2)) (\<lambda>lo.
            Inr \<lparr>buttons = word_of_int (hi * 256 + lo), btn_count = word_of_int count\<rparr>)))))"

text \<open>The first byte of the control word is overwritten; the bit fields are laid out from the
  least significant bit.\<close>

definition control_byte :: "u8 \<Rightarrow> HAL_ControlWord \<Rightarrow> HAL_ControlWord" where
  "control_byte b w =
     w\<lparr>cw_enabled := bit b 0, cw_autonomous := bit b 1, cw_test := bit b 2, cw_eStop := bit b 3,
       cw_fmsAttached := bit b 4, cw_dsAttached := bit b 5,
       cw_reserved := (cw_reserved w AND NOT 3) OR ucast (drop_bit 6 b)\<rparr>"

definition JoystickDataCache_Update ::
    "(real \<Rightarrow> real) \<Rightarrow> (real \<Rightarrow> real) \<Rightarrow> bytes \<Rightarrow> JoystickDataCache \<Rightarrow> fault + JoystickDataCache" where
  "JoystickDataCache_Update rnd fl p c =
     bindR (arr_get (jc_axes c) 0) (\<lambda>a0. bindR (HAL_GetJoystickAxesInternal rnd fl p 0 a0) (\<lambda>a.
     bindR (arr_get (jc_povs c) 0) (\<lambda>v0. bindR (HAL_GetJoystickPOVsInternal p 0 v0) (\<lambda>v.
     bindR (arr_get (jc_buttons c) 0) (\<lambda>b0. bindR (HAL_GetJoystickButtonsInternal p 0 b0) (\<lambda>b.
     if 3 < length p then
       Inr (c\<lparr>jc_axes := (jc_axes c)[0 := a], jc_povs := (jc_povs c)[0 := v],
              jc_buttons := (jc_buttons c)[0 := b], jc_controlWord := control_byte (p ! 3) (jc_controlWord c)\<rparr>)
     else Inl OutOfBounds))))))"

section \<open>The three caches\<close>

text \<open>The pointers are indices into \<open>caches\<close>; \<open>currentCache\<close> is the one the threads exchange.
  \<open>wakeups\<close> counts the notifications of waiting threads.\<close>

record FRCDriverStation =
  caches :: "JoystickDataCache list"
  newestControlWord :: HAL_ControlWord
  currentRead :: nat
  currentReadLocal :: nat
  currentCache :: "nat option"
  lastGiven :: nat
  cacheToUpdate :: nat
  ds_initialized :: bool
  newDataEvents :: "nat list"
  ds_signalled :: "nat list"

definition FRCDriverStation_init :: FRCDriverStation where
  "FRCDriverStation_init =
     \<lparr>caches = replicate 3 JoystickDataCache_zero, newestControlWord = ControlWord_zero,
      currentRead = 0, currentReadLocal = 0, currentCache = None, lastGiven = 1, cacheToUpdate = 2,
      ds_initialized = False, newDataEvents = [], ds_signalled = []\<rparr>"

definition InitializeFRCDriverStation :: "FRCDriverStation \<Rightarrow> FRCDriverStation" where
  "InitializeFRCDriverStation s = s\<lparr>newestControlWord := ControlWord_zero, ds_initialized := True\<rparr>"

definition newDataOccur ::
    "(real \<Rightarrow> real) \<Rightarrow> (real \<Rightarrow> real) \<Rightarrow> bytes \<Rightarrow> FRCDriverStation \<Rightarrow> fault + FRCDriverStation" where
  "newDataOccur rnd fl p s =
     bindR (arr_get (caches s) (cacheToUpdate s)) (\<lambda>c0.
     bindR (JoystickDataCache_Update rnd fl p c0) (\<lambda>c.
       let given = cacheToUpdate s;
           prev = currentCache s;
           s1 = s\<lparr>caches := (caches s)[given := c], currentCache := Some given\<rparr>;
           s2 = (case prev of
                   None \<Rightarrow> s1\<lparr>cacheToUpdate := currentReadLocal s1, currentReadLocal := lastGiven s1\<rparr>
                 | Some q \<Rightarrow> s1\<lparr>cacheToUpdate := q\<rparr>);
           s3 = s2\<lparr>lastGiven := given\<rparr>
       in Inr (if ds_initialized s3 then s3\<lparr>ds_signalled := ds_signalled s3 @ newDataEvents s3\<rparr> else s3)))"

definition HAL_RefreshDSData :: "FRCDriverStation \<Rightarrow> fault + bool \<times> FRCDriverStation" where
  "HAL_RefreshDSData s =
     bindR (arr_get (caches s) (lastGiven s)) (\<lambda>g.
       let prev = currentCache s;
           s1 = (case prev of None \<Rightarrow> s | Some q \<Rightarrow> s\<lparr>currentRead := q\<rparr>)\<lparr>currentCache := None\<rparr>
       in bindR (arr_get (caches s1) (currentRead s1)) (\<lambda>r.
          let r1 = (if \<not> cw_dsAttached (jc_controlWord g) then r\<lparr>jc_controlWord := ControlWord_zero\<rparr> else r)
          in Inr (prev \<noteq> None, s1\<lparr>caches := (caches s1)[currentRead s1 := r1],
                                   newestControlWord := jc_controlWord r1\<rparr>)))"

definition HAL_GetControlWord :: "FRCDriverStation \<Rightarrow> HAL_ControlWord" where
  "HAL_GetControlWord s = newestControlWord s"

text \<open>The getters return \<open>-1\<close> (here \<^const>\<open>None\<close>) for a stick number out of range and leave the
  caller's variable as it was.\<close>

definition cache_read :: "(JoystickDataCache \<Rightarrow> 'a list) \<Rightarrow> int \<Rightarrow> FRCDriverStation \<Rightarrow> fault + 'a option" where
  "cache_read f joystickNum s =
     (if joystickNum < 0 \<or> int HAL_kMaxJoysticks \<le> joystickNum then Inr None
      else bindR (arr_get (caches s) (currentRead s)) (\<lambda>c.
           bindR (arr_get (f c) (nat joystickNum)) (\<lambda>v. Inr (Some v))))"

definition HAL_GetJoystickAxes :: "int \<Rightarrow> FRCDriverStation \<Rightarrow> fault + HAL_JoystickAxes option" where
  "HAL_GetJoystickAxes = cache_read jc_axes"

definition HAL_GetJoystickPOVs :: "int \<Rightarrow> FRCDriverStation \<Rightarrow> fault + HAL_JoystickPOVs option" where
  "HAL_GetJoystickPOVs = cache_read jc_povs"

definition HAL_GetJoystickButtons :: "int \<Rightarrow> FRCDriverStation \<Rightarrow> fault + HAL_JoystickButtons option" where
  "HAL_GetJoystickButtons = cache_read jc_buttons"

definition HAL_ProvideNewDataEventHandle :: "nat \<Rightarrow> FRCDriverStation \<Rightarrow> FRCDriverStation" where
  "HAL_ProvideNewDataEventHandle h s =
     (if ds_initialized s then s\<lparr>newDataEvents := newDataEvents s @ [h]\<rparr> else s)"

definition HAL_RemoveNewDataEventHandle :: "nat \<Rightarrow> FRCDriverStation \<Rightarrow> FRCDriverStation" where
  "HAL_RemoveNewDataEventHandle h s =
     (if ds_initialized s then s\<lparr>newDataEvents := remove1 h (newDataEvents s)\<rparr> else s)"

section \<open>Buttons\<close>

record DS_Instance =
  previousButtonStates :: "HAL_JoystickButtons list"
  joystickButtonsPressed :: "u32 list"
  joystickButtonsReleased :: "u32 list"

definition DS_Instance_init :: DS_Instance where
  "DS_Instance_init =
     \<lparr>previousButtonStates = replicate kJoystickPorts \<lparr>buttons = 0, btn_count = 0\<rparr>,
      joystickButtonsPressed = replicate kJoystickPorts 0,
      joystickButtonsReleased = replicate kJoystickPorts 0\<rparr>"

definition refresh_port :: "nat \<Rightarrow> HAL_JoystickButtons \<Rightarrow> DS_Instance \<Rightarrow> fault + DS_Instance" where
  "refresh_port i cur d =
     bindR (arr_get (previousButtonStates d) i) (\<lambda>prev.
     bindR (arr_get (joystickButtonsPressed d) i) (\<lambda>pr.
     bindR (arr_get (joystickButtonsReleased d) i) (\<lambda>re.
       Inr (d\<lparr>joystickButtonsPressed := (joystickButtonsPressed d)[i := pr OR (NOT (buttons prev) AND buttons cur)],
              joystickButtonsReleased := (joystickButtonsReleased d)[i := re OR (buttons prev AND NOT (buttons cur))],
              previousButtonStates := (previousButtonStates d)[i := cur]\<rparr>))))"

definition refreshData :: "FRCDriverStation \<times> DS_Instance \<Rightarrow> fault + FRCDriverStation \<times> DS_Instance" where
  "refreshData = (\<lambda>(s, d).
     bindR (HAL_RefreshDSData s) (\<lambda>(_, s1).
     bindR (foldR (\<lambda>i d. bindR (HAL_GetJoystickButtons (int i) s1) (\<lambda>b.
              case b of Some cur \<Rightarrow> refresh_port i cur d | None \<Rightarrow> Inl NullDeref))
            [0..<kJoystickPorts] d) (\<lambda>d1. Inr (s1, d1))))"

text \<open>\<open>1 << (button - 1)\<close> on \<open>int\<close>: undefined for a shift of 32 or more and for button 0 and
  below; \<open>getStickButton\<close> excludes the latter.\<close>

definition getStickButton :: "int \<Rightarrow> int \<Rightarrow> FRCDriverStation \<Rightarrow> fault + bool" where
  "getStickButton stick button s =
     (if stick < 0 \<or> int kJoystickPorts \<le> stick \<or> button < 1 then Inr False
      else bindR (HAL_GetJoystickButtons stick s) (\<lambda>b.
        case b of None \<Rightarrow> Inl NullDeref
        | Some b \<Rightarrow> if 32 \<le> button - 1 then Inl InvalidArgument
                    else Inr (bit (buttons b) (nat (button - 1)))))"

definition take_edge :: "(DS_Instance \<Rightarrow> u32 list) \<Rightarrow> ((u32 list \<Rightarrow> u32 list) \<Rightarrow> DS_Instance \<Rightarrow> DS_Instance) \<Rightarrow>
    int \<Rightarrow> int \<Rightarrow> DS_Instance \<Rightarrow> fault + bool \<times> DS_Instance" where
  "take_edge flags upd stick button d =
     (if stick < 0 then Inl OutOfBounds
      else bindR (arr_get (flags d) (nat stick)) (\<lambda>fl.
        if button < 1 \<or> 32 \<le> button - 1 then Inl InvalidArgument
        else if bit fl (nat (button - 1))
        then Inr (True, upd (\<lambda>xs. xs[nat stick := fl AND NOT (push_bit (nat (button - 1)) 1)]) d)
        else Inr (False, d)))"

definition getStickButtonPressed :: "int \<Rightarrow> int \<Rightarrow> DS_Instance \<Rightarrow> fault + bool \<times> DS_Instance" where
  "getStickButtonPressed = take_edge joystickButtonsPressed joystickButtonsPressed_update"

definition getStickButtonReleased :: "int \<Rightarrow> int \<Rightarrow> DS_Instance \<Rightarrow> fault + bool \<times> DS_Instance" where
  "getStickButtonReleased = take_edge joystickButtonsReleased joystickButtonsReleased_update"

text \<open>The stick and the axis or POV index are used unchecked.\<close>

definition getStickAxis :: "int \<Rightarrow> int \<Rightarrow> FRCDriverStation \<Rightarrow> fault + real" where
  "getStickAxis stick axis s =
     bindR (HAL_GetJoystickAxes stick s) (\<lambda>a. case a of
       None \<Rightarrow> Inl NullDeref
     | Some a \<Rightarrow> if axis < 0 then Inl OutOfBounds else arr_get (ax_axes a) (nat axis))"

definition getStickPOV :: "int \<Rightarrow> int \<Rightarrow> FRCDriverStation \<Rightarrow> fault + int" where
  "getStickPOV stick pov s =
     bindR (HAL_GetJoystickPOVs stick s) (\<lambda>v. case v of
       None \<Rightarrow> Inl NullDeref
     | Some v \<Rightarrow> if pov < 0 then Inl OutOfBounds else arr_get (povs v) (nat pov))"

definition getStickButtons :: "int \<Rightarrow> FRCDriverStation \<Rightarrow> fault + int" where
  "getStickButtons stick s = bindR (HAL_GetJoystickButtons stick s) (\<lambda>b. case b of
     None \<Rightarrow> Inl NullDeref | Some b \<Rightarrow> Inr (sint (buttons b)))"

definition getStickAxisCount :: "int \<Rightarrow> FRCDriverStation \<Rightarrow> fault + int" where
  "getStickAxisCount stick s = bindR (HAL_GetJoystickAxes stick s) (\<lambda>a. case a of
     None \<Rightarrow> Inl NullDeref | Some a \<Rightarrow> Inr (ax_count a))"

definition getStickPOVCount :: "int \<Rightarrow> FRCDriverStation \<Rightarrow> fault + int" where
  "getStickPOVCount stick s = bindR (HAL_GetJoystickPOVs stick s) (\<lambda>a. case a of
     None \<Rightarrow> Inl NullDeref | Some a \<Rightarrow> Inr (pov_count a))"

definition getStickButtonCount :: "int \<Rightarrow> FRCDriverStation \<Rightarrow> fault + int" where
  "getStickButtonCount stick s = bindR (HAL_GetJoystickButtons stick s) (\<lambda>b. case b of
     None \<Rightarrow> Inl NullDeref | Some b \<Rightarrow> Inr (uint (btn_count b)))"

definition isJoystickConnected :: "int \<Rightarrow> FRCDriverStation \<Rightarrow> fault + bool" where
  "isJoystickConnected stick s =
     bindR (getStickAxisCount stick s) (\<lambda>a. if 0 < a then Inr True
     else bindR (getStickButtonCount stick s) (\<lambda>b. if 0 < b then Inr True
     else bindR (getStickPOVCount stick s) (\<lambda>p. Inr (0 < p))))"

text \<open>Above, \<^const>\<open>NullDeref\<close> for a stick out of range stands for reading the local variable that
  the getter left unset.\<close>

section \<open>The network thread and the main loop\<close>

datatype ds_event = Packet bytes | Refresh

definition ds_event_step :: "ds_event \<Rightarrow> FRCDriverStation \<Rightarrow> fault + FRCDriverStation" where
  "ds_event_step e s = (case e of
      Packet p \<Rightarrow> newDataOccur rnd64 rnd64 p s
    | Refresh \<Rightarrow> bindR (HAL_RefreshDSData s) (\<lambda>(_, s'). Inr s'))"

text \<open>The pointer discipline once the reader has taken a packet: the newest packet's cache, the
  cache held back for the reader and the cache being filled are different, and the reader is on
  one of the first two.\<close>

definition ds_inv :: "FRCDriverStation \<Rightarrow> bool" where
  "ds_inv s \<longleftrightarrow> length (caches s) = 3 \<and> lastGiven s < 3 \<and> currentReadLocal s < 3 \<and> cacheToUpdate s < 3 \<and>
     distinct [lastGiven s, currentReadLocal s, cacheToUpdate s] \<and>
     (case currentCache s of None \<Rightarrow> currentRead s = lastGiven s
      | Some q \<Rightarrow> q = lastGiven s \<and> currentRead s = currentReadLocal s)"

lemma newDataOccur_pointers:
  assumes "newDataOccur rnd fl p s = Inr s'"
  shows "length (caches s') = length (caches s)" "currentCache s' = Some (cacheToUpdate s)"
    "lastGiven s' = cacheToUpdate s" "currentRead s' = currentRead s"
    "cacheToUpdate s' = (case currentCache s of None \<Rightarrow> currentReadLocal s | Some q \<Rightarrow> q)"
    "currentReadLocal s' = (case currentCache s of None \<Rightarrow> lastGiven s | Some q \<Rightarrow> currentReadLocal s)"
proof -
  obtain c where "s' = (let s1 = s\<lparr>caches := (caches s)[cacheToUpdate s := c], currentCache := Some (cacheToUpdate s)\<rparr>;
      s3 = (case currentCache s of
              None \<Rightarrow> s1\<lparr>cacheToUpdate := currentReadLocal s1, currentReadLocal := lastGiven s1\<rparr>
            | Some q \<Rightarrow> s1\<lparr>cacheToUpdate := q\<rparr>)\<lparr>lastGiven := cacheToUpdate s\<rparr>
      in if ds_initialized s3 then s3\<lparr>ds_signalled := ds_signalled s3 @ newDataEvents s3\<rparr> else s3)"
    using assms by (auto simp: newDataOccur_def bindR_Inr_iff Let_def)
  then show "length (caches s') = length (caches s)" "currentCache s' = Some (cacheToUpdate s)"
    "lastGiven s' = cacheToUpdate s" "currentRead s' = currentRead s"
    "cacheToUpdate s' = (case currentCache s of None \<Rightarrow> currentReadLocal s | Some q \<Rightarrow> q)"
    "currentReadLocal s' = (case currentCache s of None \<Rightarrow> lastGiven s | Some q \<Rightarrow> currentReadLocal s)"
    by (cases "currentCache s"; simp add: Let_def)+
qed

lemma HAL_RefreshDSData_pointers:
  assumes "HAL_RefreshDSData s = Inr (b, s')"
  shows "length (caches s') = length (caches s)" "currentCache s' = None" "lastGiven s' = lastGiven s"
    "currentRead s' = (case currentCache s of None \<Rightarrow> currentRead s | Some q \<Rightarrow> q)"
    "cacheToUpdate s' = cacheToUpdate s" "currentReadLocal s' = currentReadLocal s" "b = (currentCache s \<noteq> None)"
  using assms by (auto simp: HAL_RefreshDSData_def bindR_Inr_iff Let_def split: option.splits if_splits)

lemma newDataOccur_inv: "newDataOccur rnd fl p s = Inr s' \<Longrightarrow> ds_inv s \<Longrightarrow> ds_inv s'"
  by (auto simp: ds_inv_def newDataOccur_pointers split: option.splits)

lemma HAL_RefreshDSData_inv: "HAL_RefreshDSData s = Inr (b, s') \<Longrightarrow> ds_inv s \<Longrightarrow> ds_inv s'"
  by (auto simp: ds_inv_def HAL_RefreshDSData_pointers split: option.splits)

lemma ds_event_inv: "ds_event_step e s = Inr s' \<Longrightarrow> ds_inv s \<Longrightarrow> ds_inv s'"
  by (auto simp: ds_event_step_def bindR_Inr_iff split: ds_event.splits
      dest: newDataOccur_inv HAL_RefreshDSData_inv)

lemma ds_run_inv: "foldR ds_event_step es s = Inr s' \<Longrightarrow> ds_inv s \<Longrightarrow> ds_inv s'"
  by (rule foldR_inv [where P = ds_inv]) (auto intro: ds_event_inv)

text \<open>Before that, as long as only packets have arrived.\<close>

definition ds_fresh :: "FRCDriverStation \<Rightarrow> bool" where
  "ds_fresh s \<longleftrightarrow> length (caches s) = 3 \<and> currentRead s = 0 \<and>
     (currentCache s = None \<and> currentReadLocal s = 0 \<and> lastGiven s = 1 \<and> cacheToUpdate s = 2 \<or>
      currentCache s = Some (lastGiven s) \<and> currentReadLocal s = 1 \<and>
      (lastGiven s, cacheToUpdate s) \<in> {(2, 0), (0, 2)})"

lemma fresh_event:
  assumes "ds_event_step e s = Inr s'" "ds_fresh s"
  shows "ds_fresh s' \<or> ds_inv s'"
proof (cases e)
  case (Packet p)
  then have "newDataOccur rnd64 rnd64 p s = Inr s'" using assms(1) by (simp add: ds_event_step_def)
  from newDataOccur_pointers [OF this] assms(2) have "ds_fresh s'" by (auto simp: ds_fresh_def)
  then show ?thesis ..
next
  case Refresh
  then obtain b where "HAL_RefreshDSData s = Inr (b, s')"
    using assms(1) by (auto simp: ds_event_step_def bindR_Inr_iff)
  from HAL_RefreshDSData_pointers [OF this] assms(2) show ?thesis by (auto simp: ds_fresh_def ds_inv_def)
qed

lemma init_fresh: "ds_fresh FRCDriverStation_init"
  by (simp add: ds_fresh_def FRCDriverStation_init_def)

lemma run_fresh_or_inv: "foldR ds_event_step es s = Inr s' \<Longrightarrow> ds_fresh s \<or> ds_inv s \<Longrightarrow> ds_fresh s' \<or> ds_inv s'"
  by (rule foldR_inv [where P = "\<lambda>s. ds_fresh s \<or> ds_inv s"]) (auto dest: fresh_event ds_event_inv)

lemma refresh_taken:
  assumes "HAL_RefreshDSData s = Inr (True, s')" "ds_fresh s \<or> ds_inv s"
  shows "ds_inv s'"
  using HAL_RefreshDSData_pointers [OF assms(1)] assms(2) by (auto simp: ds_fresh_def ds_inv_def)

section \<open>A packet used by the witnesses\<close>

definition demo_packet :: bytes where
  "demo_packet = [0, 0, 0, 0x20] @ replicate 15 0 @ [1, 0, 2, 127, 0x80, 8, 0, 5] @ replicate 8 0"

lemma Update_ok:
  assumes "length (jc_axes c) = 6" "length (jc_povs c) = 6" "length (jc_buttons c) = 6"
  shows "\<exists>c'. JoystickDataCache_Update rnd fl demo_packet c = Inr c' \<and> length (jc_axes c') = 6 \<and>
    length (jc_povs c') = 6 \<and> length (jc_buttons c') = 6 \<and> buttons (jc_buttons c' ! 0) = 5"
  using assms
  by (simp add: JoystickDataCache_Update_def arr_get_def HAL_GetJoystickAxesInternal_def pay_def JOYSTICK_POS_def
      demo_packet_def HAL_kMaxJoystickAxes_def HAL_GetJoystickPOVsInternal_def
      HAL_GetJoystickButtonsInternal_def numeral_eq_Suc)

definition cache_wf :: "JoystickDataCache \<Rightarrow> bool" where
  "cache_wf c \<longleftrightarrow> length (jc_axes c) = 6 \<and> length (jc_povs c) = 6 \<and> length (jc_buttons c) = 6"

lemma Update_wf: "JoystickDataCache_Update rnd fl p c = Inr c' \<Longrightarrow> cache_wf c \<Longrightarrow> cache_wf c'"
  by (auto simp: JoystickDataCache_Update_def bindR_Inr_iff cache_wf_def split: if_splits)

lemma demo_newData:
  assumes "\<forall>c \<in> set (caches s). cache_wf c" "cacheToUpdate s < length (caches s)"
  shows "\<exists>s'. newDataOccur rnd fl demo_packet s = Inr s' \<and> (\<forall>c \<in> set (caches s'). cache_wf c) \<and>
    buttons (jc_buttons (caches s' ! cacheToUpdate s) ! 0) = 5"
proof -
  let ?c = "caches s ! cacheToUpdate s"
  have "cache_wf ?c" using assms by simp
  then obtain c' where c': "JoystickDataCache_Update rnd fl demo_packet ?c = Inr c'" "cache_wf c'"
    "buttons (jc_buttons c' ! 0) = 5"
    using Update_ok [of ?c rnd fl] by (auto simp: cache_wf_def)
  have "set ((caches s)[cacheToUpdate s := c']) \<subseteq> insert c' (set (caches s))" by (rule set_update_subset_insert)
  then have "\<forall>c \<in> set ((caches s)[cacheToUpdate s := c']). cache_wf c" using assms(1) c'(2) by auto
  then show ?thesis
    using assms(2) c' by (cases "currentCache s") (simp_all add: newDataOccur_def arr_get_def Let_def)
qed

lemma init_wf: "\<forall>c \<in> set (caches FRCDriverStation_init). cache_wf c" "length (caches FRCDriverStation_init) = 3"
  by (simp_all add: FRCDriverStation_init_def cache_wf_def JoystickDataCache_zero_def HAL_kMaxJoysticks_def)

section \<open>Properties\<close>

text \<open>C24: once a refresh has taken a packet, whatever packets and refreshes follow, the cache the
  network thread fills next is never the cache the main loop reads.\<close>

theorem ds_caches_disjoint:
  assumes "foldR ds_event_step es FRCDriverStation_init = Inr s" "HAL_RefreshDSData s = Inr (True, s1)"
    "foldR ds_event_step es' s1 = Inr s'"
  shows "cacheToUpdate s' \<noteq> currentRead s'"
proof -
  have "ds_inv s1"
    using refresh_taken [OF assms(2)] run_fresh_or_inv [OF assms(1)] init_fresh by blast
  then have "ds_inv s'" by (rule ds_run_inv [OF assms(3)])
  then show ?thesis by (auto simp: ds_inv_def split: option.splits)
qed

theorem ds_caches_disjoint_witness:
  "\<exists>s s1 s'. foldR ds_event_step [Packet demo_packet] FRCDriverStation_init = Inr s \<and>
    HAL_RefreshDSData s = Inr (True, s1) \<and> foldR ds_event_step [Packet demo_packet] s1 = Inr s' \<and>
    cacheToUpdate s' \<noteq> currentRead s'"
proof -
  obtain s where s: "newDataOccur rnd64 rnd64 demo_packet FRCDriverStation_init = Inr s"
    "\<forall>c \<in> set (caches s). cache_wf c"
    using demo_newData [of FRCDriverStation_init rnd64 rnd64] init_wf by (auto simp: FRCDriverStation_init_def)
  note p = newDataOccur_pointers [OF s(1)]
  have l: "length (caches s) = 3" "currentCache s = Some 2" "lastGiven s = 2" "cacheToUpdate s = 0"
    using p by (simp_all add: FRCDriverStation_init_def)
  obtain s1 where s1: "HAL_RefreshDSData s = Inr (True, s1)"
    by (simp add: HAL_RefreshDSData_def l arr_get_def Let_def)
  note q = HAL_RefreshDSData_pointers [OF s1]
  have "\<forall>c \<in> set (caches s1). cache_wf c"
  proof -
    obtain r where r: "caches s1 = (caches s)[2 := r]" "cache_wf r"
      using s1 s(2) l by (auto simp: HAL_RefreshDSData_def arr_get_def Let_def cache_wf_def)
    then show ?thesis using s(2) set_update_subset_insert [of "caches s" 2 r] by auto
  qed
  moreover have "cacheToUpdate s1 < length (caches s1)" using q l by simp
  ultimately obtain s' where "newDataOccur rnd64 rnd64 demo_packet s1 = Inr s'"
    using demo_newData [of s1 rnd64 rnd64] by auto
  then have r: "foldR ds_event_step [Packet demo_packet] FRCDriverStation_init = Inr s"
    "foldR ds_event_step [Packet demo_packet] s1 = Inr s'"
    using s(1) by (simp_all add: ds_event_step_def)
  with ds_caches_disjoint [OF r(1) s1 r(2)] s1 show ?thesis by blast
qed

text \<open>Until the first refresh that takes a packet this fails: the second packet is decoded into
  the very cache the main loop is reading, without any refresh.\<close>

theorem ds_startup_overwrites_reader:
  "\<exists>s1 s2. newDataOccur rnd fl demo_packet FRCDriverStation_init = Inr s1 \<and>
    newDataOccur rnd fl demo_packet s1 = Inr s2 \<and> cacheToUpdate s1 = currentRead s1 \<and>
    currentRead s2 = currentRead FRCDriverStation_init \<and>
    buttons (jc_buttons (caches FRCDriverStation_init ! currentRead s2) ! 0) = 0 \<and>
    buttons (jc_buttons (caches s2 ! currentRead s2) ! 0) = 5"
proof -
  obtain s1 where s1: "newDataOccur rnd fl demo_packet FRCDriverStation_init = Inr s1"
    "\<forall>c \<in> set (caches s1). cache_wf c"
    using demo_newData [of FRCDriverStation_init rnd fl] init_wf by (auto simp: FRCDriverStation_init_def)
  note p = newDataOccur_pointers [OF s1(1)]
  have u: "cacheToUpdate s1 = 0" "currentRead s1 = 0" "length (caches s1) = 3"
    using p by (simp_all add: FRCDriverStation_init_def)
  obtain s2 where s2: "newDataOccur rnd fl demo_packet s1 = Inr s2"
    "buttons (jc_buttons (caches s2 ! cacheToUpdate s1) ! 0) = 5"
    using demo_newData [OF s1(2), of rnd fl] u by auto
  have "currentRead s2 = 0" using newDataOccur_pointers [OF s2(1)] u by simp
  then show ?thesis
    using s1(1) s2 u
    by (simp add: FRCDriverStation_init_def JoystickDataCache_zero_def HAL_kMaxJoysticks_def)
qed

lemma sint_byte: "sint (b :: u8) = uint b - (if bit b 7 then 256 else 0)"
proof -
  have u: "0 \<le> uint b" "uint b < 256" using uint_lt2p [of b] by simp_all
  have "sint b = signed_take_bit 7 (uint b)" by (simp add: sint_uint)
  also have "\<dots> = uint b - 256 * of_bool (bit (uint b) 7)"
    using u by (simp add: signed_take_bit_eq_take_bit_minus take_bit_int_eq_self)
  finally show ?thesis by (simp add: bit_uint_iff)
qed

lemma two_bytes_bit:
  "bit (word_of_int (sint hi * 256 + sint lo) :: u32) k \<longleftrightarrow> k < 32 \<and>
   (if k < 8 then bit (lo :: u8) k else bit (sint (hi :: u8) - (if bit lo 7 then 1 else 0)) (k - 8))"
proof -
  let ?h = "sint hi - (if bit lo 7 then 1 else 0)"
  have "take_bit 8 (uint lo) = uint lo" using uint_lt2p [of lo] by (simp add: take_bit_int_eq_self)
  then have "concat_bit 8 (uint lo) ?h = uint lo + ?h * 256"
    by (simp add: concat_bit_eq push_bit_eq_mult)
  also have "\<dots> = sint hi * 256 + sint lo" by (simp add: sint_byte algebra_simps)
  finally have "sint hi * 256 + sint lo = concat_bit 8 (uint lo) ?h" ..
  then show ?thesis by (simp add: bit_concat_bit_iff bit_uint_iff bit_word_of_int_iff)
qed

text \<open>The low eight buttons of a well-formed packet are decoded as sent; the others only if the
  low byte is below 0x80.  With signed \<open>char\<close>, pressing button 8 alone makes all the buttons 9 to
  32 read as pressed.\<close>

theorem buttons_decoded:
  assumes "0 < sint (p ! 19)" "na = sint (p ! 21)" "0 \<le> na" "24 + nat na < length p"
  shows "\<exists>b'. HAL_GetJoystickButtonsInternal p 0 b = Inr b' \<and>
    (\<forall>k < 8. bit (buttons b') k = bit (p ! (24 + nat na)) k) \<and>
    (p ! (23 + nat na) = 0 \<longrightarrow> (\<forall>k. 8 \<le> k \<and> k < 32 \<longrightarrow> bit (buttons b') k = bit (p ! (24 + nat na)) 7))"
proof -
  have na: "nat (JOYSTICK_POS + 3 + na) = 22 + nat na" "nat (JOYSTICK_POS + 3 + na + 1) = 23 + nat na"
    "nat (JOYSTICK_POS + 3 + na + 2) = 24 + nat na" "0 \<le> JOYSTICK_POS + 3 + na"
    using assms(3) by (simp_all add: JOYSTICK_POS_def)
  define v :: u32 where "v = word_of_int (sint (p ! (23 + nat na)) * 256 + sint (p ! (24 + nat na)))"
  note bits = two_bytes_bit [of "p ! (23 + nat na)" "p ! (24 + nat na)", folded v_def]
  have "HAL_GetJoystickButtonsInternal p 0 b =
      Inr \<lparr>buttons = v, btn_count = word_of_int (sint (p ! (22 + nat na)))\<rparr>"
    using assms na by (simp add: HAL_GetJoystickButtonsInternal_def pay_def Let_def JOYSTICK_POS_def v_def)
  then show ?thesis by (simp add: bits)
qed

theorem buttons_decoded_witness:
  "\<exists>b'. HAL_GetJoystickButtonsInternal (replicate 19 0 @ [1, 0, 0, 16, 0, 0x80]) 0 \<lparr>buttons = 0, btn_count = 0\<rparr> = Inr b' \<and>
    bit (buttons b') 7 \<and> bit (buttons b') 20"
  using buttons_decoded [of "replicate 19 0 @ [1, 0, 0, 16, 0, 0x80]" 0 "\<lparr>buttons = 0, btn_count = 0\<rparr>"]
  by (auto simp: numeral_eq_Suc)

section \<open>Button edges\<close>

definition inst_wf :: "DS_Instance \<Rightarrow> bool" where
  "inst_wf d \<longleftrightarrow> length (previousButtonStates d) = 6 \<and> length (joystickButtonsPressed d) = 6 \<and>
     length (joystickButtonsReleased d) = 6"

lemma inst_init_wf: "inst_wf DS_Instance_init"
  by (simp add: inst_wf_def DS_Instance_init_def kJoystickPorts_def)

definition rises :: "nat \<Rightarrow> HAL_JoystickButtons \<Rightarrow> HAL_JoystickButtons list \<Rightarrow> bool" where
  "rises k prev bs \<longleftrightarrow> (\<exists>j < length bs. \<not> bit (buttons ((prev # bs) ! j)) k \<and> bit (buttons (bs ! j)) k)"

lemma rises_Cons: "rises k prev (b # bs) \<longleftrightarrow> \<not> bit (buttons prev) k \<and> bit (buttons b) k \<or> rises k b bs"
  by (auto simp: rises_def less_Suc_eq_0_disj)

lemma refresh_ports:
  assumes "inst_wf d" "i < 6" "k < 32"
  shows "\<exists>d'. foldR (refresh_port i) bs d = Inr d' \<and> inst_wf d' \<and>
    (bit (joystickButtonsPressed d' ! i) k \<longleftrightarrow>
      bit (joystickButtonsPressed d ! i) k \<or> rises k (previousButtonStates d ! i) bs)"
  using assms(1)
proof (induction bs arbitrary: d)
  case Nil
  then show ?case by (simp add: rises_def)
next
  case (Cons b bs)
  let ?d = "d\<lparr>joystickButtonsPressed := (joystickButtonsPressed d)[i := joystickButtonsPressed d ! i OR
        (NOT (buttons (previousButtonStates d ! i)) AND buttons b)],
      joystickButtonsReleased := (joystickButtonsReleased d)[i := joystickButtonsReleased d ! i OR
        (buttons (previousButtonStates d ! i) AND NOT (buttons b))],
      previousButtonStates := (previousButtonStates d)[i := b]\<rparr>"
  have r: "refresh_port i b d = Inr ?d" "inst_wf ?d"
    using Cons.prems assms(2) by (simp_all add: refresh_port_def inst_wf_def arr_get_def)
  have "bit (joystickButtonsPressed ?d ! i) k \<longleftrightarrow> bit (joystickButtonsPressed d ! i) k \<or>
      \<not> bit (buttons (previousButtonStates d ! i)) k \<and> bit (buttons b) k" "previousButtonStates ?d ! i = b"
    using Cons.prems assms(2,3) by (auto simp: inst_wf_def bit_simps)
  then show ?case using Cons.IH [OF r(2)] r(1) by (auto simp: rises_Cons)
qed

text \<open>Asking whether a button was pressed is true exactly when the button went from up to down
  in some refresh since the flag was last read, and reading the flag clears it.\<close>

theorem pressed_iff_rising_edge:
  assumes "inst_wf d" "i < 6" "k < 32" "\<not> bit (joystickButtonsPressed d ! i) k"
  shows "\<exists>d' d''. foldR (refresh_port i) bs d = Inr d' \<and>
    getStickButtonPressed (int i) (int k + 1) d' = Inr (\<exists>j < length bs.
        \<not> bit (buttons ((previousButtonStates d ! i # bs) ! j)) k \<and> bit (buttons (bs ! j)) k, d'') \<and>
    getStickButtonPressed (int i) (int k + 1) d'' = Inr (False, d'')"
proof -
  obtain d' where d': "foldR (refresh_port i) bs d = Inr d'" "inst_wf d'"
    "bit (joystickButtonsPressed d' ! i) k \<longleftrightarrow> rises k (previousButtonStates d ! i) bs"
    using refresh_ports [OF assms(1-3), of bs] assms(4) by auto
  let ?f = "joystickButtonsPressed d' ! i"
  define d'' where "d'' = (if bit ?f k
    then d'\<lparr>joystickButtonsPressed := (joystickButtonsPressed d')[i := ?f AND NOT (push_bit k 1)]\<rparr> else d')"
  have w: "inst_wf d''" using d'(2) by (simp add: d''_def inst_wf_def)
  have get: "getStickButtonPressed (int i) (int k + 1) d' = Inr (bit ?f k, d'')"
    using d'(2) assms(2,3) by (simp add: getStickButtonPressed_def take_edge_def inst_wf_def arr_get_def d''_def)
  have cl: "\<not> bit (joystickButtonsPressed d'' ! i) k"
    using d'(2) assms(2,3) by (auto simp: d''_def inst_wf_def bit_simps)
  have "getStickButtonPressed (int i) (int k + 1) d'' = Inr (False, d'')"
    using w cl assms(2,3) by (simp add: getStickButtonPressed_def take_edge_def inst_wf_def arr_get_def)
  then show ?thesis using d'(1) get unfolding d'(3) rises_def by blast
qed

theorem pressed_iff_rising_edge_witness:
  "\<exists>d' d''. foldR (refresh_port 0) [\<lparr>buttons = 1, btn_count = 1\<rparr>, \<lparr>buttons = 0, btn_count = 1\<rparr>] DS_Instance_init = Inr d' \<and>
    getStickButtonPressed 0 1 d' = Inr (True, d'') \<and> getStickButtonPressed 0 1 d'' = Inr (False, d'')"
proof -
  have e: "\<exists>j < length [\<lparr>buttons = 1, btn_count = 1\<rparr>, \<lparr>buttons = 0, btn_count = 1\<rparr>].
      \<not> bit (buttons ((previousButtonStates DS_Instance_init ! 0 #
        [\<lparr>buttons = 1, btn_count = 1\<rparr>, \<lparr>buttons = 0, btn_count = 1\<rparr>]) ! j)) 0 \<and>
      bit (buttons ([\<lparr>buttons = 1, btn_count = 1\<rparr>, \<lparr>buttons = 0, btn_count = 1\<rparr>] ! j)) 0"
    by (intro exI [of _ 0]) (simp add: DS_Instance_init_def kJoystickPorts_def)
  have n: "\<not> bit (joystickButtonsPressed DS_Instance_init ! 0) 0"
    by (simp add: DS_Instance_init_def kJoystickPorts_def)
  show ?thesis
    using pressed_iff_rising_edge [OF inst_init_wf _ _ n,
        of "[\<lparr>buttons = 1, btn_count = 1\<rparr>, \<lparr>buttons = 0, btn_count = 1\<rparr>]"] e by simp
qed

end
