(* ===== verification/PackageGenerator.thy ===== *)
theory PackageGenerator
  imports DriverStation
begin

text \<open>
  \<open>tools/PackageGenerator.cpp\<close>: the driver-station side, which builds the packets that
  \<open>DriverStation\<close> decodes.  A \<open>float\<close> is a double value; \<open>fl\<close> is the rounding of its arithmetic.
  The broken-down local time is an argument.
\<close>

section \<open>State\<close>

datatype DS_ControlMode = DS_CONTROL_TELEOPERATED | DS_CONTROL_TEST | DS_CONTROL_AUTONOMOUS
datatype DS_Alliance = DS_ALLIANCE_RED | DS_ALLIANCE_BLUE
datatype DS_Position = DS_POSITION_1 | DS_POSITION_2 | DS_POSITION_3

record Joystick =
  num_axes :: int
  js_axes :: "double list"
  num_buttons :: int
  js_buttons :: "int list"
  num_hats :: int
  js_hats :: "int list"

record package_generator =
  g_control_mode :: DS_ControlMode
  g_alliance :: DS_Alliance
  g_position :: DS_Position
  g_robot_enabled :: int
  g_estop :: int
  g_fms_comms :: int
  g_robot_comms :: int
  send_time_data :: u32
  sent_robot_packets :: u32
  g_reboot :: int
  restart_code :: int
  g_joysticks :: "Joystick list"
  g_joystick_count :: int

record tm =
  tm_sec :: int
  tm_min :: int
  tm_hour :: int
  tm_yday :: int
  tm_mon :: int
  tm_year :: int
  tm_zone_size :: nat

definition cTest :: u8 where "cTest = 0x04"
definition cAutonomous :: u8 where "cAutonomous = 0x02"
definition cTeleoperated :: u8 where "cTeleoperated = 0x00"
definition cEnabled :: u8 where "cEnabled = 0x01"
definition cEmergencyStop :: u8 where "cEmergencyStop = 0x08"
definition cFMSConnected :: u8 where "cFMSConnected = 0x10"
definition cDSAttached :: u8 where "cDSAttached = 0x20"
definition cTagCommVersion :: u8 where "cTagCommVersion = 0x01"
definition cTagDate :: u8 where "cTagDate = 0x0f"
definition cTagTimezone :: u8 where "cTagTimezone = 0x10"
definition cTagJoystick :: u8 where "cTagJoystick = 0x0c"

section \<open>The parts of a packet\<close>

definition control_code :: "package_generator \<Rightarrow> u8" where
  "control_code g =
     (let c1 = cDSAttached OR (case g_control_mode g of DS_CONTROL_TEST \<Rightarrow> cTest
                | DS_CONTROL_AUTONOMOUS \<Rightarrow> cAutonomous | DS_CONTROL_TELEOPERATED \<Rightarrow> cTeleoperated);
          c2 = (if g_fms_comms g \<noteq> 0 then c1 OR cFMSConnected else c1);
          c3 = (if g_estop g \<noteq> 0 then c2 OR cEmergencyStop else c2)
      in if g_robot_enabled g \<noteq> 0 then c3 OR cEnabled else c3)"

definition request_code :: "package_generator \<Rightarrow> u8" where
  "request_code g =
     (if g_robot_comms g \<noteq> 0 then if g_reboot g \<noteq> 0 then 0x08 else if restart_code g \<noteq> 0 then 0x04 else 0x00
      else 0x00)"

definition team_station :: "package_generator \<Rightarrow> u8" where
  "team_station g =
     (case g_position g of
        DS_POSITION_1 \<Rightarrow> if g_alliance g = DS_ALLIANCE_RED then 0x00 else 0x03
      | DS_POSITION_2 \<Rightarrow> if g_alliance g = DS_ALLIANCE_RED then 0x01 else 0x04
      | DS_POSITION_3 \<Rightarrow> if g_alliance g = DS_ALLIANCE_RED then 0x02 else 0x05)"

definition timezone_data :: "tm \<Rightarrow> bytes" where
  "timezone_data t =
     [cTagDate, 0, 0, 0, 0, word_of_int (tm_sec t), word_of_int (tm_min t), word_of_int (tm_hour t),
      word_of_int (tm_yday t), word_of_int (tm_mon t), word_of_int (tm_year t), cTagTimezone, of_nat (tm_zone_size t)]"

definition dsFloatToByte :: "(real \<Rightarrow> real) \<Rightarrow> double \<Rightarrow> fault + u8" where
  "dsFloatToByte fl v =
     (case cast_int 0 255 (dmul fl (ddiv fl (dadd fl v (Fin 1)) (Fin 2)) (Fin 255)) of
        None \<Rightarrow> Inl BadCast | Some n \<Rightarrow> Inr (word_of_int n))"

fun axis_bytes :: "(real \<Rightarrow> real) \<Rightarrow> double list \<Rightarrow> nat list \<Rightarrow> fault + bytes" where
  "axis_bytes fl xs [] = Inr []"
| "axis_bytes fl xs (j # js) =
     bindR (arr_get xs j) (\<lambda>v. bindR (dsFloatToByte fl v) (\<lambda>b. bindR (axis_bytes fl xs js) (\<lambda>bs. Inr (b # bs))))"

definition add_button :: "int list \<Rightarrow> nat \<Rightarrow> u16 \<Rightarrow> fault + u16" where
  "add_button bs j flags = bindR (arr_get bs j) (\<lambda>b. Inr (flags + (if b \<noteq> 0 then push_bit j 1 else 0)))"

fun hat_bytes :: "int list \<Rightarrow> nat list \<Rightarrow> fault + bytes" where
  "hat_bytes hs [] = Inr []"
| "hat_bytes hs (j # js) =
     bindR (arr_get hs j) (\<lambda>h. bindR (hat_bytes hs js) (\<lambda>bs. Inr (word_of_int (drop_bit 8 h) # word_of_int h # bs)))"

definition joystick_data :: "(real \<Rightarrow> real) \<Rightarrow> Joystick \<Rightarrow> fault + bytes" where
  "joystick_data fl j =
     bindR (axis_bytes fl (js_axes j) [0..<nat (num_axes j)]) (\<lambda>ax.
     bindR (foldR (add_button (js_buttons j)) [0..<nat (num_buttons j)] 0) (\<lambda>flags.
     bindR (hat_bytes (js_hats j) [0..<nat (num_hats j)]) (\<lambda>hs.
       Inr ([word_of_int (2 + (num_buttons j + 1) + (num_axes j + 1) + (num_hats j * 2 + 1)), cTagJoystick,
             word_of_int (num_axes j)] @ ax @
            [word_of_int (num_buttons j), ucast (drop_bit 8 flags), ucast flags, word_of_int (num_hats j)] @ hs))))"

fun joysticks_data :: "(real \<Rightarrow> real) \<Rightarrow> Joystick list \<Rightarrow> nat list \<Rightarrow> fault + bytes" where
  "joysticks_data fl js [] = Inr []"
| "joysticks_data fl js (i # is) =
     bindR (arr_get js i) (\<lambda>j. bindR (joystick_data fl j) (\<lambda>d.
     bindR (joysticks_data fl js is) (\<lambda>ds. Inr (d @ ds))))"

definition create_robot_packet ::
    "(real \<Rightarrow> real) \<Rightarrow> tm \<Rightarrow> package_generator \<Rightarrow> fault + bytes \<times> package_generator" where
  "create_robot_packet fl t g =
     bindR (if 5 < sent_robot_packets g then joysticks_data fl (g_joysticks g) [0..<nat (g_joystick_count g)] else Inr [])
       (\<lambda>js_data.
     Inr ([ucast (drop_bit 8 (sent_robot_packets g)), ucast (sent_robot_packets g), cTagCommVersion,
           control_code g, request_code g, team_station g] @
          (if send_time_data g \<noteq> 0 then timezone_data t else []) @ js_data,
          g\<lparr>sent_robot_packets := sent_robot_packets g + 1\<rparr>))"

section \<open>What the robot makes of a packet\<close>

text \<open>The control byte has the layout of the robot's control word.\<close>

lemma control_code_word:
  "cw_enabled (control_byte (control_code g) w) \<longleftrightarrow> g_robot_enabled g \<noteq> 0"
  "cw_autonomous (control_byte (control_code g) w) \<longleftrightarrow> g_control_mode g = DS_CONTROL_AUTONOMOUS"
  "cw_test (control_byte (control_code g) w) \<longleftrightarrow> g_control_mode g = DS_CONTROL_TEST"
  "cw_eStop (control_byte (control_code g) w) \<longleftrightarrow> g_estop g \<noteq> 0"
  "cw_fmsAttached (control_byte (control_code g) w) \<longleftrightarrow> g_fms_comms g \<noteq> 0"
  "cw_dsAttached (control_byte (control_code g) w)"
  by (cases "g_control_mode g"; cases "g_fms_comms g = 0"; cases "g_estop g = 0"; cases "g_robot_enabled g = 0";
      simp add: control_byte_def control_code_def Let_def cDSAttached_def cTest_def cAutonomous_def cTeleoperated_def
        cFMSConnected_def cEmergencyStop_def cEnabled_def)+

text \<open>Reading inside a packet whose tail from an offset on is known.\<close>

lemma pay_drop: "drop n p = b # q \<Longrightarrow> pay p (int n) = Inr (sint b)"
  by (cases "n < length p") (auto simp: pay_def Cons_nth_drop_Suc [symmetric])

lemma pay_next: "drop n p = b # q \<Longrightarrow> drop (Suc n) p = q"
  by (metis drop_Suc list.sel(3) tl_drop)

lemma read_axes_ok:
  "drop n p = ax @ q \<Longrightarrow> i + length ax \<le> 12 \<Longrightarrow> read_axes p (int n) i (length ax) = Inr (map sint ax)"
proof (induction ax arbitrary: n i)
  case (Cons b ax)
  have d: "drop (Suc n) p = ax @ q" by (rule pay_next [of n p b]) (use Cons.prems in simp)
  have "int n + 1 = int (Suc n)" by simp
  then show ?case
    using Cons.IH [OF d, of "Suc i"] Cons.prems pay_drop [of n p b "ax @ q"] by (simp add: HAL_kMaxJoystickAxes_def add.commute)
qed simp

definition pair_bytes :: "(u8 \<times> u8) list \<Rightarrow> bytes" where
  "pair_bytes ps = concat (map (\<lambda>(h, l). [h, l]) ps)"

definition pov_value :: "u8 \<times> u8 \<Rightarrow> int" where
  "pov_value = (\<lambda>(h, l). signed_take_bit 15 (sint h * 256 + sint l))"

lemma read_povs_ok:
  "drop n p = pair_bytes ps @ q \<Longrightarrow> i + length ps \<le> 12 \<Longrightarrow> read_povs p (int n) i (length ps) = Inr (map pov_value ps)"
proof (induction ps arbitrary: n i)
  case (Cons x ps)
  obtain h l where x: "x = (h, l)" by (cases x)
  have d1: "drop n p = h # l # pair_bytes ps @ q" using Cons.prems(1) by (simp add: x pair_bytes_def)
  note d2 = pay_next [OF d1] and d3 = pay_next [OF pay_next [OF d1]]
  have e: "int n + 1 = int (Suc n)" "int n + 2 = int (Suc (Suc n))" by simp_all
  show ?case
    using Cons.IH [OF d3, of "Suc i"] Cons.prems(2)
    by (simp add: x pay_drop [OF d1] e pay_drop [OF d2] HAL_kMaxJoystickPOVs_def pov_value_def del: of_nat_Suc)
qed simp

text \<open>A packet with the joystick part where the robot expects it.\<close>

definition joystick_layout :: "bytes \<Rightarrow> u8 \<Rightarrow> bytes \<Rightarrow> u8 \<Rightarrow> u8 \<Rightarrow> u8 \<Rightarrow> (u8 \<times> u8) list \<Rightarrow> bytes \<Rightarrow> bytes" where
  "joystick_layout pre sz ax nb hi lo ps rest =
     pre @ [sz, cTagJoystick, of_nat (length ax)] @ ax @ [nb, hi, lo, of_nat (length ps)] @ pair_bytes ps @ rest"

lemma sint_of_nat_byte:
  assumes "n < 128"
  shows "sint (of_nat n :: u8) = int n"
proof -
  have "sint (word_of_int (int n) :: u8) = int n"
    unfolding sint_sbintrunc' by (rule signed_take_bit_int_eq_self) (use assms in simp_all)
  then show ?thesis by simp
qed

lemma decode_layout:
  fixes pre ax rest :: bytes and ps :: "(u8 \<times> u8) list" and sz nb hi lo :: u8
  assumes "length pre = 19" "0 < sint sz" "length ax \<le> 12" "length ps \<le> 12"
  defines "p \<equiv> joystick_layout pre sz ax nb hi lo ps rest"
  shows "HAL_GetJoystickAxesInternal rnd fl p 0 a =
      Inr \<lparr>ax_count = int (length ax), ax_axes = put_prefix (map (axis_value rnd fl) (map sint ax)) (ax_axes a),
           ax_raw = put_prefix ax (ax_raw a)\<rparr>" (is ?axes)
    and "HAL_GetJoystickPOVsInternal p 0 v =
      Inr \<lparr>pov_count = int (length ps), povs = put_prefix (map pov_value ps) (povs v)\<rparr>" (is ?povs)
    and "HAL_GetJoystickButtonsInternal p 0 b =
      Inr \<lparr>buttons = word_of_int (sint hi * 256 + sint lo), btn_count = nb\<rparr>" (is ?buttons)
proof -
  let ?n = "length ax"
  have d0: "drop 19 p = sz # cTagJoystick # of_nat ?n # ax @ nb # hi # lo # of_nat (length ps) # pair_bytes ps @ rest"
    using assms(1) by (simp add: p_def joystick_layout_def)
  note d1 = pay_next [OF d0] note d2 = pay_next [OF d1] note d3 = pay_next [OF d2]
  have d4: "drop (22 + ?n) p = nb # hi # lo # of_nat (length ps) # pair_bytes ps @ rest"
    using d3 by (simp add: drop_drop [symmetric] add.commute del: drop_drop)
  note d5 = pay_next [OF d4] note d6 = pay_next [OF d5] note d7 = pay_next [OF d6] note d8 = pay_next [OF d7]
  have s: "sint (of_nat ?n :: u8) = int ?n" "sint (of_nat (length ps) :: u8) = int (length ps)"
    using assms(3,4) by (simp_all add: sint_of_nat_byte)
  have r: "pay p JOYSTICK_POS = Inr (sint sz)" "pay p (JOYSTICK_POS + 2) = Inr (int ?n)"
    "read_axes p (JOYSTICK_POS + 3) 0 ?n = Inr (map sint ax)"
    using pay_drop [OF d0] pay_drop [OF d2] read_axes_ok [OF d3, of 0] assms(3) s by (simp_all add: JOYSTICK_POS_def)
  have k: "JOYSTICK_POS + 3 + int ?n = int (22 + ?n)" "int m + 1 = int (Suc m)" "int m + 2 = int (Suc (Suc m))"
    "6 + JOYSTICK_POS + int ?n = int (Suc (Suc (Suc (22 + ?n))))" for m by (simp_all add: JOYSTICK_POS_def)
  have w: "word_of_int (sint x) = (x :: u8)" for x by simp
  show ?axes using r assms(2) by (simp add: HAL_GetJoystickAxesInternal_def map_idI)
  show ?povs
    unfolding HAL_GetJoystickPOVsInternal_def Let_def r bindR_simps k pay_drop [OF d7] s
    using assms(2) read_povs_ok [OF d8, of 0] assms(4) by (simp add: bindR_def)
  show ?buttons
    unfolding HAL_GetJoystickButtonsInternal_def Let_def r bindR_simps k pay_drop [OF d4] pay_drop [OF d5] pay_drop [OF d6]
    using assms(2) by (simp del: of_nat_Suc)
qed

section \<open>What a packet consists of\<close>

lemma axis_bytes_ok:
  "axis_bytes fl xs js = Inr bs \<Longrightarrow> length bs = length js \<and> (\<forall>i < length js. dsFloatToByte fl (xs ! (js ! i)) = Inr (bs ! i))"
  by (induction js arbitrary: bs) (auto simp: bindR_Inr_iff arr_get_def nth_Cons' split: if_splits)

lemma hat_bytes_ok:
  "hat_bytes hs js = Inr bs \<Longrightarrow> bs = pair_bytes (map (\<lambda>j. (word_of_int (drop_bit 8 (hs ! j)), word_of_int (hs ! j))) js)"
  by (induction js arbitrary: bs) (auto simp: bindR_Inr_iff arr_get_def pair_bytes_def split: if_splits)

lemma add_button_bits:
  fixes f f' :: u16
  assumes "add_button bs n f = Inr f'" "\<not> bit f n" "n < 16"
  shows "bit f' k \<longleftrightarrow> bit f k \<or> k = n \<and> bs ! n \<noteq> 0"
proof -
  have "f + push_bit n 1 = f OR push_bit n 1"
    by (rule disjunctive_add_eq_or, rule bit_word_eqI) (use assms(2) in \<open>auto simp: bit_simps\<close>)
  moreover have "f' = f + (if bs ! n \<noteq> 0 then push_bit n 1 else 0)"
    using assms(1) by (simp add: add_button_def bindR_Inr_iff arr_get_def split: if_splits)
  moreover have "bit (f OR push_bit n 1) k \<longleftrightarrow> bit f k \<or> k = n" using assms(3) by (auto simp: bit_simps)
  ultimately show ?thesis by (cases "bs ! n = 0") (simp_all del: push_bit_of_1)
qed

lemma buttons_ok:
  "foldR (add_button bs) [0..<n] 0 = Inr flags \<Longrightarrow> n \<le> 16 \<Longrightarrow> bit flags k \<longleftrightarrow> k < n \<and> bs ! k \<noteq> 0"
proof (induction n arbitrary: flags k)
  case (Suc n)
  obtain f where f: "foldR (add_button bs) [0..<n] 0 = Inr f" "add_button bs n f = Inr flags"
    using Suc.prems(1) by (auto simp: foldR_append bindR_Inr_iff)
  show ?case
    using add_button_bits [OF f(2)] Suc.IH [OF f(1)] Suc.prems(2) by (auto simp: less_Suc_eq)
qed simp

lemma pov_value_hat:
  assumes "0 \<le> h" "h < 2 ^ 15"
  shows "pov_value (word_of_int (drop_bit 8 h), word_of_int h) = (if bit h 7 then h - 256 else h)"
proof -
  let ?hi = "drop_bit 8 h" and ?lo = "word_of_int h :: u8"
  have hi: "?hi = h div 256" "0 \<le> ?hi" "?hi < 128" using assms by (auto simp: drop_bit_eq_div)
  have s: "sint (word_of_int ?hi :: u8) = ?hi"
    unfolding sint_sbintrunc' by (rule signed_take_bit_int_eq_self) (use hi in simp_all)
  have l: "sint ?lo = h mod 256 - (if bit h 7 then 256 else 0)"
    unfolding sint_byte by (simp add: uint_word_of_int bit_word_of_int_iff)
  have e: "?hi * 256 + h mod 256 = h" using hi(1) by simp
  have "signed_take_bit 15 (h - 256) = h - 256" "signed_take_bit 15 h = h"
    by (rule signed_take_bit_int_eq_self; use assms in simp)+
  then show ?thesis using e by (auto simp: pov_value_def s l algebra_simps)
qed

lemma joystick_data_ok:
  assumes "joystick_data fl j = Inr d" "0 \<le> num_axes j" "0 \<le> num_buttons j" "num_buttons j \<le> 16" "0 \<le> num_hats j"
  obtains ax flags where "d = [word_of_int (2 + (num_buttons j + 1) + (num_axes j + 1) + (num_hats j * 2 + 1)), cTagJoystick,
      word_of_int (num_axes j)] @ ax @ [word_of_int (num_buttons j), ucast (drop_bit 8 flags), ucast flags,
      word_of_int (num_hats j)] @
      pair_bytes (map (\<lambda>i. (word_of_int (drop_bit 8 (js_hats j ! i)), word_of_int (js_hats j ! i))) [0..<nat (num_hats j)])"
    "length ax = nat (num_axes j)" "\<forall>i < nat (num_axes j). dsFloatToByte fl (js_axes j ! i) = Inr (ax ! i)"
    "\<forall>k. bit (flags :: u16) k \<longleftrightarrow> k < nat (num_buttons j) \<and> js_buttons j ! k \<noteq> 0"
proof -
  obtain ax flags hs where 1: "axis_bytes fl (js_axes j) [0..<nat (num_axes j)] = Inr ax"
    "foldR (add_button (js_buttons j)) [0..<nat (num_buttons j)] 0 = Inr flags"
    "hat_bytes (js_hats j) [0..<nat (num_hats j)] = Inr hs"
    "d = [word_of_int (2 + (num_buttons j + 1) + (num_axes j + 1) + (num_hats j * 2 + 1)), cTagJoystick,
      word_of_int (num_axes j)] @ ax @ [word_of_int (num_buttons j), ucast (drop_bit 8 flags), ucast flags,
      word_of_int (num_hats j)] @ hs"
    using assms(1) unfolding joystick_data_def bindR_Inr_iff by (elim exE conjE) (simp only: sum.inject)
  have "\<forall>k. bit flags k \<longleftrightarrow> k < nat (num_buttons j) \<and> js_buttons j ! k \<noteq> 0"
    using buttons_ok [OF 1(2)] assms(4) by simp
  moreover have "length ax = nat (num_axes j)" "\<forall>i < nat (num_axes j). dsFloatToByte fl (js_axes j ! i) = Inr (ax ! i)"
    using axis_bytes_ok [OF 1(1)] by simp_all
  ultimately show thesis using that [of ax flags] 1(4) hat_bytes_ok [OF 1(3)] by simp
qed

text \<open>The first joystick of a packet with a time part lies where the robot looks for it.\<close>

lemma packet_layout:
  assumes "create_robot_packet fl t g = Inr (p, g')" "5 < sent_robot_packets g" "send_time_data g \<noteq> 0"
    "0 < g_joystick_count g" "j = g_joysticks g ! 0"
    "0 \<le> num_axes j" "0 \<le> num_buttons j" "num_buttons j \<le> 16" "0 \<le> num_hats j"
  obtains pre ax flags rest where
    "p = joystick_layout pre (word_of_int (num_buttons j + num_axes j + num_hats j * 2 + 5)) ax (word_of_int (num_buttons j))
      (ucast (drop_bit 8 flags)) (ucast flags)
      (map (\<lambda>i. (word_of_int (drop_bit 8 (js_hats j ! i)), word_of_int (js_hats j ! i))) [0..<nat (num_hats j)]) rest"
    "length pre = 19" "p ! 3 = control_code g" "length ax = nat (num_axes j)"
    "\<forall>i < nat (num_axes j). dsFloatToByte fl (js_axes j ! i) = Inr (ax ! i)"
    "\<forall>k. bit (flags :: u16) k \<longleftrightarrow> k < nat (num_buttons j) \<and> js_buttons j ! k \<noteq> 0"
proof -
  obtain m where m: "nat (g_joystick_count g) = Suc m" using assms(4) by (metis gr0_implies_Suc zero_less_nat_eq)
  then have l: "[0..<nat (g_joystick_count g)] = 0 # [1..<Suc m]" by (simp add: upt_rec)
  obtain d ds where d: "joystick_data fl j = Inr d" "joysticks_data fl (g_joysticks g) [0..<nat (g_joystick_count g)] = Inr (d @ ds)"
    using assms(1,2,5) by (auto simp: create_robot_packet_def l bindR_Inr_iff arr_get_def split: if_splits)
  define pre where "pre = [ucast (drop_bit 8 (sent_robot_packets g)), ucast (sent_robot_packets g), cTagCommVersion,
           control_code g, request_code g, team_station g] @ timezone_data t"
  have p: "p = pre @ d @ ds" using assms(1-3) d(2) by (simp add: create_robot_packet_def pre_def)
  have pre: "length pre = 19" "pre ! 3 = control_code g" by (simp_all add: pre_def timezone_data_def)
  then have p3: "p ! 3 = control_code g" by (simp add: p nth_append)
  obtain ax and flags :: u16 where x: "d = [word_of_int (2 + (num_buttons j + 1) + (num_axes j + 1) + (num_hats j * 2 + 1)), cTagJoystick,
      word_of_int (num_axes j)] @ ax @ [word_of_int (num_buttons j), ucast (drop_bit 8 flags), ucast flags,
      word_of_int (num_hats j)] @
      pair_bytes (map (\<lambda>i. (word_of_int (drop_bit 8 (js_hats j ! i)), word_of_int (js_hats j ! i))) [0..<nat (num_hats j)])"
    "length ax = nat (num_axes j)" "\<forall>i < nat (num_axes j). dsFloatToByte fl (js_axes j ! i) = Inr (ax ! i)"
    "\<forall>k. bit flags k \<longleftrightarrow> k < nat (num_buttons j) \<and> js_buttons j ! k \<noteq> 0"
    by (rule joystick_data_ok [OF d(1) assms(6-9)])
  have s: "2 + (num_buttons j + 1) + (num_axes j + 1) + (num_hats j * 2 + 1) = num_buttons j + num_axes j + num_hats j * 2 + 5"
    by simp
  have n: "of_nat (nat k) = (word_of_int k :: u8)" if "0 \<le> k" for k
    using that by (metis int_nat_eq of_int_of_nat_eq)
  show thesis
    by (rule that [of pre ax flags ds])
      (use pre(1) p3 x(2-4) n [OF assms(6)] n [OF assms(9)] in \<open>simp_all add: p x(1) s joystick_layout_def\<close>)
qed

text \<open>The whole decoding of such a packet.\<close>

lemma generated_update:
  fixes c :: JoystickDataCache
  assumes "create_robot_packet fl t g = Inr (p, g')" "5 < sent_robot_packets g" "send_time_data g \<noteq> 0"
    "0 < g_joystick_count g" "j = g_joysticks g ! 0" "0 \<le> num_axes j" "num_axes j \<le> 6"
    "0 \<le> num_buttons j" "num_buttons j \<le> 16" "0 \<le> num_hats j" "num_hats j \<le> 4" "cache_wf c"
  obtains ax c' and flags :: u16 where "JoystickDataCache_Update rnd fl' p c = Inr c'"
    "length ax = nat (num_axes j)" "\<forall>i < nat (num_axes j). dsFloatToByte fl (js_axes j ! i) = Inr (ax ! i)"
    "\<forall>k. bit flags k \<longleftrightarrow> k < nat (num_buttons j) \<and> js_buttons j ! k \<noteq> 0"
    "ax_axes (jc_axes c' ! 0) = put_prefix (map (axis_value rnd fl') (map sint ax)) (ax_axes (jc_axes c ! 0))"
    "povs (jc_povs c' ! 0) = put_prefix (map (\<lambda>i. pov_value (word_of_int (drop_bit 8 (js_hats j ! i)), word_of_int (js_hats j ! i)))
      [0..<nat (num_hats j)]) (povs (jc_povs c ! 0))"
    "buttons (jc_buttons c' ! 0) = word_of_int (sint (ucast (drop_bit 8 flags) :: u8) * 256 + sint (ucast flags :: u8))"
    "jc_controlWord c' = control_byte (control_code g) (jc_controlWord c)"
proof -
  let ?ps = "map (\<lambda>i. (word_of_int (drop_bit 8 (js_hats j ! i)), word_of_int (js_hats j ! i))) [0..<nat (num_hats j)] :: (u8 \<times> u8) list"
  let ?sz = "word_of_int (num_buttons j + num_axes j + num_hats j * 2 + 5) :: u8"
  obtain pre ax rest and flags :: u16 where l: "p = joystick_layout pre ?sz ax (word_of_int (num_buttons j))
      (ucast (drop_bit 8 flags)) (ucast flags) ?ps rest"
    "length pre = 19" "p ! 3 = control_code g" "length ax = nat (num_axes j)"
    "\<forall>i < nat (num_axes j). dsFloatToByte fl (js_axes j ! i) = Inr (ax ! i)"
    "\<forall>k. bit flags k \<longleftrightarrow> k < nat (num_buttons j) \<and> js_buttons j ! k \<noteq> 0"
    by (rule packet_layout [OF assms(1-6,8-10)])
  have sz: "0 < sint ?sz"
    unfolding sint_sbintrunc' by (subst signed_take_bit_int_eq_self) (use assms in simp_all)
  have n: "length ax \<le> 12" "length ?ps \<le> 12" using l(4) assms(7,11) by simp_all
  have len: "3 < length p" using l(2) by (simp add: l(1) joystick_layout_def)
  define A where "A = \<lparr>ax_count = int (length ax), ax_axes = put_prefix (map (axis_value rnd fl') (map sint ax)) (ax_axes (jc_axes c ! 0)),
    ax_raw = put_prefix ax (ax_raw (jc_axes c ! 0))\<rparr>"
  define V where "V = \<lparr>pov_count = int (length ?ps), povs = put_prefix (map pov_value ?ps) (povs (jc_povs c ! 0))\<rparr>"
  define B where "B = \<lparr>buttons = word_of_int (sint (ucast (drop_bit 8 flags) :: u8) * 256 + sint (ucast flags :: u8)),
    btn_count = word_of_int (num_buttons j)\<rparr>"
  have d: "HAL_GetJoystickAxesInternal rnd fl' p 0 (jc_axes c ! 0) = Inr A"
    "HAL_GetJoystickPOVsInternal p 0 (jc_povs c ! 0) = Inr V"
    "HAL_GetJoystickButtonsInternal p 0 (jc_buttons c ! 0) = Inr B"
    unfolding l(1) A_def V_def B_def by (rule decode_layout [OF l(2) sz n])+
  define c' where "c' = c\<lparr>jc_axes := (jc_axes c)[0 := A], jc_povs := (jc_povs c)[0 := V], jc_buttons := (jc_buttons c)[0 := B],
      jc_controlWord := control_byte (control_code g) (jc_controlWord c)\<rparr>"
  have u: "JoystickDataCache_Update rnd fl' p c = Inr c'"
    using assms(12) len by (simp add: JoystickDataCache_Update_def cache_wf_def arr_get_def d l(3) c'_def)
  have c': "jc_axes c' ! 0 = A" "jc_povs c' ! 0 = V" "jc_buttons c' ! 0 = B"
    using assms(12) by (simp_all add: c'_def cache_wf_def)
  show thesis
    by (rule that [OF u l(4-6)]) (simp_all add: c' A_def V_def B_def comp_def, simp add: c'_def)
qed

lemma generated_pov:
  assumes "povs v = put_prefix (map (\<lambda>i. pov_value (word_of_int (drop_bit 8 (js_hats j ! i)), word_of_int (js_hats j ! i)))
      [0..<nat (num_hats j)]) q"
    "\<forall>h \<in> set (js_hats j). 0 \<le> h \<and> h \<le> 360" "length (js_hats j) = 4" "num_hats j \<le> 4" "i < nat (num_hats j)"
  shows "povs v ! i = (let h = js_hats j ! i in if bit h 7 then h - 256 else h)"
proof -
  have "js_hats j ! i \<in> set (js_hats j)" using assms(3-5) by simp
  then have "0 \<le> js_hats j ! i" "js_hats j ! i < 2 ^ 15" using assms(2) by fastforce+
  then show ?thesis using assms(5) pov_value_hat [of "js_hats j ! i"]
    by (simp add: assms(1) put_prefix_def nth_append Let_def)
qed

section \<open>Properties\<close>


text \<open>The generator of the test program's fifth packet.\<close>

definition test5_joystick :: Joystick where
  "test5_joystick = \<lparr>num_axes = 2, js_axes = [Fin (-1), Fin 0, Fin 0, Fin 0, Fin 0, Fin 0], num_buttons = 4,
     js_buttons = [1, 0, 1] @ replicate 13 0, num_hats = 1, js_hats = [90, 0, 0, 0]\<rparr>"

definition test5_generator :: package_generator where
  "test5_generator = \<lparr>g_control_mode = DS_CONTROL_TELEOPERATED, g_alliance = DS_ALLIANCE_BLUE, g_position = DS_POSITION_1,
     g_robot_enabled = 1, g_estop = 0, g_fms_comms = 0, g_robot_comms = 1, send_time_data = 1, sent_robot_packets = 6,
     g_reboot = 0, restart_code = 0, g_joysticks = [test5_joystick], g_joystick_count = 1\<rparr>"

lemma test5_packet:
  "\<exists>p g'. create_robot_packet (\<lambda>x. x) \<lparr>tm_sec = 0, tm_min = 0, tm_hour = 0, tm_yday = 0, tm_mon = 0, tm_year = 70, tm_zone_size = 3\<rparr>
    test5_generator = Inr (p, g')"
proof -
  have "dsFloatToByte (\<lambda>x. x) (Fin (-1)) = Inr 0" "dsFloatToByte (\<lambda>x. x) (Fin 0) = Inr 127"
    by (simp_all add: dsFloatToByte_def cast_int_def Let_def trunc_real_def)
  moreover have "[0..<2] = [0, 1]" "[0..<4] = [0, 1, 2, 3]" by (simp_all add: upt_rec)
  ultimately have "\<exists>d. joystick_data (\<lambda>x. x) test5_joystick = Inr d"
    by (simp add: joystick_data_def test5_joystick_def arr_get_def add_button_def)
  then show ?thesis by (auto simp: create_robot_packet_def test5_generator_def arr_get_def)
qed


text \<open>The generator and the robot disagree on axes.  The generator writes an axis from -1 to 1 as an
  unsigned byte from 0 to 255; the robot reads the byte as signed.  Full left is received as centre,
  centre as full right, and full right as nearly centre.\<close>

theorem generated_axes_misread:
  assumes "fl 0 = 0" "fl 1 = 1" "fl 2 = 2" "fl (1/2) = 1/2" "fl (255/2) = 255/2" "fl 255 = 255" "fl (-1/128) = -1/128"
    "rnd 0 = 0" "rnd 1 = 1" "rnd (-1/128) = -1/128"
  shows "map (\<lambda>v. case dsFloatToByte fl (Fin v) of Inl e \<Rightarrow> None | Inr b \<Rightarrow> Some (axis_value rnd fl (sint b))) [-1, 0, 1] =
    [Some 0, Some 1, Some (-1/128)]"
proof -
  have "\<lfloor>255/2 :: real\<rfloor> = 127" by (rule floor_unique) simp_all
  then have e: "fl (1/2) * 255 = 255/2" "\<lfloor>fl (255/2)\<rfloor> = 127" "0 \<le> fl (255/2)"
    unfolding assms(4,5) by simp_all
  have "dsFloatToByte fl (Fin (-1)) = Inr 0" "dsFloatToByte fl (Fin 0) = Inr 127" "dsFloatToByte fl (Fin 1) = Inr 255"
    using assms(1-6) by (simp_all add: dsFloatToByte_def cast_int_def Let_def trunc_real_def e)
  then show ?thesis using assms by (simp add: axis_value_def)
qed

theorem generated_axes_misread_witness:
  "map (\<lambda>v. case dsFloatToByte rnd64 (Fin v) of Inl e \<Rightarrow> None | Inr b \<Rightarrow> Some (axis_value rnd64 rnd64 (sint b))) [-1, 0, 1] =
    [Some 0, Some 1, Some (-1/128)]"
proof -
  have p: "2 powr of_int (- 1) = (1/2 :: real)" "2 powr of_int (- 7) = (1/128 :: real)" "2 powr of_int 7 = (128 :: real)"
    by (simp_all add: powr_minus_divide)
  have a: "rnd64 (1/2) = 1/2" "rnd64 (1/128) = 1/128" using rnd64_powr [of "- 1"] rnd64_powr [of "- 7"] by (simp_all only: p)
  have "expo64 (255/2) + 52 < 7" by (rule expo64_less) (simp only: p, simp_all)
  then have b: "rnd64 (255/2) = 255/2" by (intro rnd64_grid [where m = 255 and k = "- 1"]) (unfold p, simp_all)
  have "rnd64 (- (1/128)) = - (1/128)" by (simp only: rnd64_minus a)
  moreover have "rnd64 n = n" if "n \<in> {0, 1, 2, 255}" for n
    using that rnd64_int_small [of 1] rnd64_int_small [of 2] rnd64_int_small [of 255] by (auto simp: rnd64_def [of 0])
  ultimately show ?thesis using a b by (intro generated_axes_misread) simp_all
qed

text \<open>The robot reads the joystick size at offset 19 without looking at the length of the packet.
  Every packet of the generator without a time part is read past its end when it has no joystick part,
  as the first packets of a session are; with a time part the bytes end exactly there.\<close>

theorem early_packet_overread:
  assumes "create_robot_packet fl t g = Inr (p, g')" "sent_robot_packets g \<le> 5" "cache_wf c"
  shows "length p \<in> {6, 19} \<and> JoystickDataCache_Update rnd fl' p c = Inl OutOfBounds \<and> sent_robot_packets g' = sent_robot_packets g + 1"
proof -
  have l: "length p \<in> {6, 19}" "sent_robot_packets g' = sent_robot_packets g + 1"
    using assms(1,2) by (auto simp: create_robot_packet_def timezone_data_def linorder_not_less [symmetric] split: if_splits)
  then have "HAL_GetJoystickAxesInternal rnd fl' p 0 a = Inl OutOfBounds" for a
    by (auto simp: HAL_GetJoystickAxesInternal_def pay_def JOYSTICK_POS_def)
  then show ?thesis using l assms(3) by (simp add: JoystickDataCache_Update_def cache_wf_def arr_get_def)
qed

theorem early_packet_overread_witness:
  "JoystickDataCache_Update rnd64 rnd64 [0, 0, 1, 0x20, 0, 3] JoystickDataCache_zero = Inl OutOfBounds"
  using early_packet_overread [of "\<lambda>x. x" t "test5_generator\<lparr>sent_robot_packets := 0, g_robot_enabled := 0, send_time_data := 0\<rparr>" "[0, 0, 1, 0x20, 0, 3]" "test5_generator\<lparr>sent_robot_packets := 1, g_robot_enabled := 0, send_time_data := 0\<rparr>" JoystickDataCache_zero rnd64 rnd64 for t]
  by (simp add: create_robot_packet_def test5_generator_def control_code_def request_code_def team_station_def Let_def
      cDSAttached_def cTeleoperated_def cTagCommVersion_def cache_wf_def JoystickDataCache_zero_def HAL_kMaxJoysticks_def)

end
