(* ===== verification/Config.thy ===== *)
theory Config
  imports Prelude
begin

text \<open>
  \<open>lib/common/Config.cpp\<close>: the settings, read once from \<open>config.yaml\<close>.  The YAML library is a
  parameter: looking up a key of a node, which gives \<^const>\<open>None\<close> when the result converts to false,
  the conversions of a node, which give \<^const>\<open>None\<close> when they throw, and the children of maps and
  sequences.  An exception leaves what was read before it in place.
\<close>

section \<open>Settings\<close>

record Mqtt =
  q_mode :: string
  q_clientId :: string
  q_username :: string
  q_password :: string
  q_address :: string
  q_broker :: string
  q_host :: string
  q_port :: string
  q_mqttPort :: string
  q_inPort :: int
  q_outPort :: int
  q_qos :: int
  q_robotId :: int
  q_topics :: "string list"

record Udp =
  u_serverIp :: string
  u_baseLocalPort :: int
  u_baseRemotePort :: int
  u_clientIpLeft :: string
  u_clientIpRight :: string

datatype ImuType = IMU_INT | IMU_FLOAT

record Imu =
  x_serverIp :: string
  x_localPort :: int
  x_type :: ImuType
  x_baseId :: int

record MotorTypeConfig =
  t_name :: string
  t_id :: int
  t_positionMax :: double
  t_velocityMax :: double
  t_torqueMax :: double

record Leg =
  g_name :: string
  g_baseId :: int
  g_serverId :: int
  g_motorType :: string
  g_deviceIds :: "int list"

record MotorConfig =
  o_observerIp :: string
  o_maxCanDevice :: int
  o_motorsPerLeg :: int
  o_types :: "MotorTypeConfig list"
  o_legs :: "Leg list"

record LoggerConfig =
  lc_path :: string
  lc_level :: string
  lc_maxSize :: int
  lc_rotation :: int

record DataLogger =
  dl_enabled :: bool
  dl_downsampleEvery :: int
  dl_ringBufferCapacity :: int

record DriverStationConfig =
  dc_udpPort :: int
  dc_buttons :: "string \<rightharpoonup> string"

record Config =
  cf_mqtt :: Mqtt
  cf_udp :: Udp
  cf_imu :: Imu
  cf_motor :: MotorConfig
  cf_logger :: LoggerConfig
  cf_dataLogger :: DataLogger
  cf_driverStation :: DriverStationConfig

definition Config_defaults :: Config where
  "Config_defaults =
     \<lparr>cf_mqtt = \<lparr>q_mode = [], q_clientId = [], q_username = [], q_password = [], q_address = [], q_broker = [],
        q_host = [], q_port = [], q_mqttPort = [], q_inPort = 0, q_outPort = 0, q_qos = 0, q_robotId = 1, q_topics = []\<rparr>,
      cf_udp = \<lparr>u_serverIp = [], u_baseLocalPort = 0, u_baseRemotePort = 0, u_clientIpLeft = [], u_clientIpRight = []\<rparr>,
      cf_imu = \<lparr>x_serverIp = [], x_localPort = 0, x_type = IMU_FLOAT, x_baseId = 0x514\<rparr>,
      cf_motor = \<lparr>o_observerIp = [], o_maxCanDevice = 0, o_motorsPerLeg = 0, o_types = [], o_legs = []\<rparr>,
      cf_logger = \<lparr>lc_path = [], lc_level = [], lc_maxSize = 0, lc_rotation = 3\<rparr>,
      cf_dataLogger = \<lparr>dl_enabled = True, dl_downsampleEvery = 5, dl_ringBufferCapacity = 256\<rparr>,
      cf_driverStation = \<lparr>dc_udpPort = 61123, dc_buttons = Map.empty\<rparr>\<rparr>"

definition MotorTypeConfig_init :: MotorTypeConfig where
  "MotorTypeConfig_init = \<lparr>t_name = [], t_id = 0, t_positionMax = Fin 0, t_velocityMax = Fin 0, t_torqueMax = Fin 0\<rparr>"

definition Leg_init :: Leg where
  "Leg_init = \<lparr>g_name = [], g_baseId = 0, g_serverId = 0, g_motorType = [], g_deviceIds = []\<rparr>"

section \<open>Reading\<close>

record 'n yaml =
  y_get :: "'n \<Rightarrow> string \<Rightarrow> 'n option"
  y_string :: "'n \<Rightarrow> string option"
  y_int :: "'n \<Rightarrow> int option"
  y_double :: "'n \<Rightarrow> double option"
  y_bool :: "'n \<Rightarrow> bool option"
  y_pairs :: "'n \<Rightarrow> ('n \<times> 'n) list"
  y_elems :: "'n \<Rightarrow> 'n list"

text \<open>A reader changes a value and says whether it went through; readers run in order until one throws.\<close>

type_synonym 'c reader = "'c \<Rightarrow> bool \<times> 'c"

fun read_all :: "'c reader list \<Rightarrow> 'c reader" where
  "read_all [] c = (True, c)"
| "read_all (f # fs) c = (case f c of (False, c1) \<Rightarrow> (False, c1) | (True, c1) \<Rightarrow> read_all fs c1)"

definition when_key :: "'n yaml \<Rightarrow> 'n \<Rightarrow> string \<Rightarrow> ('n \<Rightarrow> 'c reader) \<Rightarrow> 'c reader" where
  "when_key y node key f c = (case y_get y node key of None \<Rightarrow> (True, c) | Some v \<Rightarrow> f v c)"

definition assign :: "('n \<Rightarrow> 'a option) \<Rightarrow> ('a \<Rightarrow> 'c \<Rightarrow> 'c) \<Rightarrow> 'n \<Rightarrow> 'c reader" where
  "assign conv put v c = (case conv v of None \<Rightarrow> (False, c) | Some x \<Rightarrow> (True, put x c))"

definition cfg_field :: "'n yaml \<Rightarrow> 'n \<Rightarrow> string \<Rightarrow> ('n \<Rightarrow> 'a option) \<Rightarrow> ('a \<Rightarrow> 'c \<Rightarrow> 'c) \<Rightarrow> 'c reader" where
  "cfg_field y node key conv put = when_key y node key (assign conv put)"

definition read_mqtt :: "'n yaml \<Rightarrow> 'n \<Rightarrow> Mqtt reader" where
  "read_mqtt y mq = read_all
     [cfg_field y mq ''mode'' (y_string y) (\<lambda>v c. c\<lparr>q_mode := v\<rparr>),
      cfg_field y mq ''client_id'' (y_string y) (\<lambda>v c. c\<lparr>q_clientId := v\<rparr>),
      cfg_field y mq ''username'' (y_string y) (\<lambda>v c. c\<lparr>q_username := v\<rparr>),
      cfg_field y mq ''password'' (y_string y) (\<lambda>v c. c\<lparr>q_password := v\<rparr>),
      cfg_field y mq ''address'' (y_string y) (\<lambda>v c. c\<lparr>q_address := v\<rparr>),
      cfg_field y mq ''mqtt_broker'' (y_string y) (\<lambda>v c. c\<lparr>q_broker := v\<rparr>),
      cfg_field y mq ''host'' (y_string y) (\<lambda>v c. c\<lparr>q_host := v\<rparr>),
      cfg_field y mq ''port'' (y_string y) (\<lambda>v c. c\<lparr>q_port := v\<rparr>),
      cfg_field y mq ''mqtt_port'' (y_string y) (\<lambda>v c. c\<lparr>q_mqttPort := v\<rparr>),
      cfg_field y mq ''in_port'' (y_int y) (\<lambda>v c. c\<lparr>q_inPort := v\<rparr>),
      cfg_field y mq ''out_port'' (y_int y) (\<lambda>v c. c\<lparr>q_outPort := v\<rparr>),
      cfg_field y mq ''qos'' (y_int y) (\<lambda>v c. c\<lparr>q_qos := v\<rparr>),
      cfg_field y mq ''robot_id'' (y_int y) (\<lambda>v c. c\<lparr>q_robotId := v\<rparr>),
      when_key y mq ''topics'' (\<lambda>ts. read_all (map (assign (y_string y) (\<lambda>v c. c\<lparr>q_topics := q_topics c @ [v]\<rparr>)) (y_elems y ts)))]"

definition read_udp :: "'n yaml \<Rightarrow> 'n \<Rightarrow> Udp reader" where
  "read_udp y ud = read_all
     [cfg_field y ud ''server_ip'' (y_string y) (\<lambda>v c. c\<lparr>u_serverIp := v\<rparr>),
      cfg_field y ud ''base_local_port'' (y_int y) (\<lambda>v c. c\<lparr>u_baseLocalPort := v\<rparr>),
      cfg_field y ud ''base_remote_port'' (y_int y) (\<lambda>v c. c\<lparr>u_baseRemotePort := v\<rparr>),
      when_key y ud ''client_ip'' (\<lambda>ci. read_all
        [cfg_field y ci ''left'' (y_string y) (\<lambda>v c. c\<lparr>u_clientIpLeft := v\<rparr>),
         cfg_field y ci ''right'' (y_string y) (\<lambda>v c. c\<lparr>u_clientIpRight := v\<rparr>)])]"

definition read_imu :: "'n yaml \<Rightarrow> 'n \<Rightarrow> Imu reader" where
  "read_imu y imu = read_all
     [cfg_field y imu ''server_ip'' (y_string y) (\<lambda>v c. c\<lparr>x_serverIp := v\<rparr>),
      cfg_field y imu ''local_port'' (y_int y) (\<lambda>v c. c\<lparr>x_localPort := v\<rparr>),
      cfg_field y imu ''value_mode'' (y_string y) (\<lambda>v c. c\<lparr>x_type := (if v = ''float'' then IMU_FLOAT else IMU_INT)\<rparr>),
      cfg_field y imu ''base_id'' (y_int y) (\<lambda>v c. c\<lparr>x_baseId := v\<rparr>)]"

text \<open>An element that throws while it is read is not appended.\<close>

definition append_read :: "('c \<Rightarrow> bool \<times> 'c) \<Rightarrow> 'c \<Rightarrow> ('c \<Rightarrow> 'm \<Rightarrow> 'm) \<Rightarrow> 'm reader" where
  "append_read f init put m = (case f init of (False, x) \<Rightarrow> (False, m) | (True, x) \<Rightarrow> (True, put x m))"

definition read_type :: "'n yaml \<Rightarrow> 'n \<times> 'n \<Rightarrow> MotorTypeConfig reader" where
  "read_type y kv = read_all
     [assign (y_string y) (\<lambda>v c. c\<lparr>t_name := v\<rparr>) (fst kv),
      cfg_field y (snd kv) ''id'' (y_int y) (\<lambda>v c. c\<lparr>t_id := v\<rparr>),
      cfg_field y (snd kv) ''position_max'' (y_double y) (\<lambda>v c. c\<lparr>t_positionMax := v\<rparr>),
      cfg_field y (snd kv) ''velocity_max'' (y_double y) (\<lambda>v c. c\<lparr>t_velocityMax := v\<rparr>),
      cfg_field y (snd kv) ''torque_max'' (y_double y) (\<lambda>v c. c\<lparr>t_torqueMax := v\<rparr>)]"

definition read_leg :: "'n yaml \<Rightarrow> 'n \<times> 'n \<Rightarrow> Leg reader" where
  "read_leg y kv = read_all
     [assign (y_string y) (\<lambda>v c. c\<lparr>g_name := v\<rparr>) (fst kv),
      cfg_field y (snd kv) ''base_id'' (y_int y) (\<lambda>v c. c\<lparr>g_baseId := v\<rparr>),
      cfg_field y (snd kv) ''server_id'' (y_int y) (\<lambda>v c. c\<lparr>g_serverId := v\<rparr>),
      cfg_field y (snd kv) ''motor_type'' (y_string y) (\<lambda>v c. c\<lparr>g_motorType := v\<rparr>),
      when_key y (snd kv) ''device_ids'' (\<lambda>ds. read_all
        (map (assign (y_int y) (\<lambda>v c. c\<lparr>g_deviceIds := g_deviceIds c @ [v]\<rparr>)) (y_elems y ds)))]"

definition read_motor :: "'n yaml \<Rightarrow> 'n \<Rightarrow> MotorConfig reader" where
  "read_motor y mo = read_all
     [cfg_field y mo ''observer_ip'' (y_string y) (\<lambda>v c. c\<lparr>o_observerIp := v\<rparr>),
      cfg_field y mo ''max_can_device'' (y_int y) (\<lambda>v c. c\<lparr>o_maxCanDevice := v\<rparr>),
      cfg_field y mo ''motors_per_leg'' (y_int y) (\<lambda>v c. c\<lparr>o_motorsPerLeg := v\<rparr>),
      when_key y mo ''types'' (\<lambda>ts. read_all (map (\<lambda>kv. append_read (read_type y kv) MotorTypeConfig_init
        (\<lambda>x m. m\<lparr>o_types := o_types m @ [x]\<rparr>)) (y_pairs y ts))),
      when_key y mo ''legs'' (\<lambda>ls. read_all (map (\<lambda>kv. append_read (read_leg y kv) Leg_init
        (\<lambda>x m. m\<lparr>o_legs := o_legs m @ [x]\<rparr>)) (y_pairs y ls)))]"

definition read_logger :: "'n yaml \<Rightarrow> 'n \<Rightarrow> LoggerConfig reader" where
  "read_logger y lg = read_all
     [cfg_field y lg ''path'' (y_string y) (\<lambda>v c. c\<lparr>lc_path := v\<rparr>),
      cfg_field y lg ''level'' (y_string y) (\<lambda>v c. c\<lparr>lc_level := v\<rparr>),
      cfg_field y lg ''maxSize'' (y_int y) (\<lambda>v c. c\<lparr>lc_maxSize := v\<rparr>),
      cfg_field y lg ''rotation'' (y_int y) (\<lambda>v c. c\<lparr>lc_rotation := v\<rparr>)]"

definition read_data_logger :: "'n yaml \<Rightarrow> 'n \<Rightarrow> DataLogger reader" where
  "read_data_logger y dl = read_all
     [cfg_field y dl ''enabled'' (y_bool y) (\<lambda>v c. c\<lparr>dl_enabled := v\<rparr>),
      cfg_field y dl ''downsample_every'' (y_int y) (\<lambda>v c. c\<lparr>dl_downsampleEvery := v\<rparr>),
      cfg_field y dl ''ring_buffer_capacity'' (y_int y) (\<lambda>v c. c\<lparr>dl_ringBufferCapacity := v\<rparr>)]"

text \<open>The value of an entry is converted before its key, as for an assignment since C++17.\<close>

definition read_button :: "'n yaml \<Rightarrow> 'n \<times> 'n \<Rightarrow> DriverStationConfig reader" where
  "read_button y kv c =
     (case y_string y (snd kv) of None \<Rightarrow> (False, c)
      | Some v \<Rightarrow> assign (y_string y) (\<lambda>k c. c\<lparr>dc_buttons := (dc_buttons c)(k \<mapsto> v)\<rparr>) (fst kv) c)"

definition read_driver_station :: "'n yaml \<Rightarrow> 'n \<Rightarrow> DriverStationConfig reader" where
  "read_driver_station y ds = read_all
     [cfg_field y ds ''udp_port'' (y_int y) (\<lambda>v c. c\<lparr>dc_udpPort := v\<rparr>),
      when_key y ds ''buttons'' (\<lambda>bs. read_all (map (read_button y) (y_pairs y bs)))]"

definition section_of :: "('c \<Rightarrow> 'm) \<Rightarrow> ('m \<Rightarrow> 'c \<Rightarrow> 'c) \<Rightarrow> ('n \<Rightarrow> 'm reader) \<Rightarrow> 'n \<Rightarrow> 'c reader" where
  "section_of get put f n c = (case f n (get c) of (ok, m) \<Rightarrow> (ok, put m c))"

definition load_root :: "'n yaml \<Rightarrow> 'n \<Rightarrow> Config reader" where
  "load_root y doc = read_all
     [when_key y doc ''mqtt'' (section_of cf_mqtt (\<lambda>m c. c\<lparr>cf_mqtt := m\<rparr>) (read_mqtt y)),
      when_key y doc ''udp'' (section_of cf_udp (\<lambda>m c. c\<lparr>cf_udp := m\<rparr>) (read_udp y)),
      when_key y doc ''imu'' (section_of cf_imu (\<lambda>m c. c\<lparr>cf_imu := m\<rparr>) (read_imu y)),
      when_key y doc ''motor'' (\<lambda>mo. read_all
        [section_of cf_motor (\<lambda>m c. c\<lparr>cf_motor := m\<rparr>) (read_motor y) mo,
         when_key y doc ''logger'' (section_of cf_logger (\<lambda>m c. c\<lparr>cf_logger := m\<rparr>) (read_logger y))]),
      when_key y doc ''data_logger'' (section_of cf_dataLogger (\<lambda>m c. c\<lparr>cf_dataLogger := m\<rparr>) (read_data_logger y)),
      when_key y doc ''driver_station'' (section_of cf_driverStation (\<lambda>m c. c\<lparr>cf_driverStation := m\<rparr>) (read_driver_station y))]"

text \<open>\<open>load\<close>, with the file parsed or not.\<close>

definition config_load :: "'n yaml \<Rightarrow> 'n option \<Rightarrow> Config reader" where
  "config_load y file c = (case file of None \<Rightarrow> (False, c) | Some doc \<Rightarrow> load_root y doc c)"

record config_statics =
  s_yamlPath :: string
  cfg_instance :: Config
  cfg_loaded :: bool

definition config_statics_init :: config_statics where
  "config_statics_init = \<lparr>s_yamlPath = [], cfg_instance = Config_defaults, cfg_loaded = False\<rparr>"

definition config_init :: "string \<Rightarrow> config_statics \<Rightarrow> config_statics" where
  "config_init yamlPath s = s\<lparr>s_yamlPath := yamlPath\<rparr>"

definition config_path :: "config_statics \<Rightarrow> string" where
  "config_path s = (if s_yamlPath s = [] then ''../config/config.yaml'' else s_yamlPath s)"

text \<open>\<open>instance\<close>: \<^const>\<open>None\<close> when the load throws; \<open>files\<close> is what the paths hold.\<close>

definition config_instance :: "'n yaml \<Rightarrow> (string \<Rightarrow> 'n option) \<Rightarrow> config_statics \<Rightarrow> Config option \<times> config_statics" where
  "config_instance y files s =
     (if cfg_loaded s then (Some (cfg_instance s), s)
      else case config_load y (files (config_path s)) (cfg_instance s) of
          (False, c) \<Rightarrow> (None, s\<lparr>cfg_instance := c\<rparr>)
        | (True, c) \<Rightarrow> (Some c, s\<lparr>cfg_instance := c, cfg_loaded := True\<rparr>))"

definition findMotorType :: "string \<Rightarrow> Config \<Rightarrow> MotorTypeConfig option" where
  "findMotorType name c = List.find (\<lambda>mt. t_name mt = name) (o_types (cf_motor c))"

definition findLeg :: "string \<Rightarrow> Config \<Rightarrow> Leg option" where
  "findLeg name c = List.find (\<lambda>l. g_name l = name) (o_legs (cf_motor c))"

section \<open>What a load that goes through has read\<close>

definition pick :: "'n yaml \<Rightarrow> 'n \<Rightarrow> string \<Rightarrow> ('n \<Rightarrow> 'a option) \<Rightarrow> 'a \<Rightarrow> 'a" where
  "pick y n key conv d = (case y_get y n key of None \<Rightarrow> d | Some v \<Rightarrow> the (conv v))"

lemma read_all_ok: "read_all (f # fs) c = (True, c') \<longleftrightarrow> (\<exists>c1. f c = (True, c1) \<and> read_all fs c1 = (True, c'))"
  by (auto split: prod.splits bool.splits)

lemma assign_ok: "assign conv put v c = (True, c') \<longleftrightarrow> (\<exists>x. conv v = Some x \<and> c' = put x c)"
  by (auto simp: assign_def split: option.splits)

lemma when_key_ok: "when_key y n key f c = (True, c') \<longleftrightarrow>
    (case y_get y n key of None \<Rightarrow> c' = c | Some v \<Rightarrow> f v c = (True, c'))"
  by (auto simp: when_key_def split: option.splits)

lemma section_ok: "section_of get put f n c = (True, c') \<longleftrightarrow> (\<exists>m. f n (get c) = (True, m) \<and> c' = put m c)"
  by (auto simp: section_of_def split: prod.splits)

lemma append_ok: "append_read f init put m = (True, m') \<longleftrightarrow> (\<exists>x. f init = (True, x) \<and> m' = put x m)"
  by (auto simp: append_read_def split: prod.splits bool.splits)

lemmas read_rules = read_all_ok when_key_ok section_ok append_ok assign_ok

lemma read_list:
  "read_all (map (assign conv put) ns) c = (True, c') \<Longrightarrow> c' = fold put (map (\<lambda>n. the (conv n)) ns) c"
  by (induction ns arbitrary: c) (auto simp: read_rules simp del: read_all.simps(2))

lemma read_children:
  "read_all (map (\<lambda>kv. append_read (f kv) init put) kvs) c = (True, c') \<Longrightarrow>
    \<exists>xs. list_all2 (\<lambda>kv x. f kv init = (True, x)) kvs xs \<and> c' = fold put xs c"
proof (induction kvs arbitrary: c)
  case (Cons kv kvs)
  then obtain x where x: "f kv init = (True, x)" "read_all (map (\<lambda>kv. append_read (f kv) init put) kvs) (put x c) = (True, c')"
    by (auto simp: read_rules simp del: read_all.simps(2))
  from Cons.IH [OF x(2)] obtain xs where "list_all2 (\<lambda>kv x. f kv init = (True, x)) kvs xs" "c' = fold put xs (put x c)" by blast
  then show ?case using x(1) by (intro exI [of _ "x # xs"]) simp
qed simp

lemma fold_lists:
  "fold (\<lambda>v c. c\<lparr>q_topics := q_topics c @ [v]\<rparr>) xs m = m\<lparr>q_topics := q_topics m @ xs\<rparr>"
  "fold (\<lambda>v c. c\<lparr>g_deviceIds := g_deviceIds c @ [v]\<rparr>) ids l = l\<lparr>g_deviceIds := g_deviceIds l @ ids\<rparr>"
  "fold (\<lambda>x m. m\<lparr>o_types := o_types m @ [x]\<rparr>) ts o1 = o1\<lparr>o_types := o_types o1 @ ts\<rparr>"
  "fold (\<lambda>x m. m\<lparr>o_legs := o_legs m @ [x]\<rparr>) ls o2 = o2\<lparr>o_legs := o_legs o2 @ ls\<rparr>"
  by (induction xs arbitrary: m, simp_all) (induction ids arbitrary: l, simp_all,
      induction ts arbitrary: o1, simp_all, induction ls arbitrary: o2, simp_all)

definition picks :: "'n yaml \<Rightarrow> 'n \<Rightarrow> string \<Rightarrow> ('n \<Rightarrow> 'a option) \<Rightarrow> 'a list" where
  "picks y n key conv = (case y_get y n key of None \<Rightarrow> [] | Some v \<Rightarrow> map (\<lambda>n. the (conv n)) (y_elems y v))"

text \<open>\<open>puts\<close>: storing the value a field holds changes nothing, so a field that may be absent is always stored.\<close>

definition puts :: "('a \<Rightarrow> 'c \<Rightarrow> 'c) \<Rightarrow> ('c \<Rightarrow> 'a) \<Rightarrow> bool" where
  "puts put get \<longleftrightarrow> (\<forall>c. put (get c) c = c)"

lemma puts_fields:
  "puts (\<lambda>v c. c\<lparr>q_mode := v\<rparr>) (q_mode :: Mqtt \<Rightarrow> _)"
  "puts (\<lambda>v c. c\<lparr>q_clientId := v\<rparr>) (q_clientId :: Mqtt \<Rightarrow> _)"
  "puts (\<lambda>v c. c\<lparr>q_username := v\<rparr>) (q_username :: Mqtt \<Rightarrow> _)"
  "puts (\<lambda>v c. c\<lparr>q_password := v\<rparr>) (q_password :: Mqtt \<Rightarrow> _)"
  "puts (\<lambda>v c. c\<lparr>q_address := v\<rparr>) (q_address :: Mqtt \<Rightarrow> _)"
  "puts (\<lambda>v c. c\<lparr>q_broker := v\<rparr>) (q_broker :: Mqtt \<Rightarrow> _)"
  "puts (\<lambda>v c. c\<lparr>q_host := v\<rparr>) (q_host :: Mqtt \<Rightarrow> _)"
  "puts (\<lambda>v c. c\<lparr>q_port := v\<rparr>) (q_port :: Mqtt \<Rightarrow> _)"
  "puts (\<lambda>v c. c\<lparr>q_mqttPort := v\<rparr>) (q_mqttPort :: Mqtt \<Rightarrow> _)"
  "puts (\<lambda>v c. c\<lparr>q_inPort := v\<rparr>) (q_inPort :: Mqtt \<Rightarrow> _)"
  "puts (\<lambda>v c. c\<lparr>q_outPort := v\<rparr>) (q_outPort :: Mqtt \<Rightarrow> _)"
  "puts (\<lambda>v c. c\<lparr>q_qos := v\<rparr>) (q_qos :: Mqtt \<Rightarrow> _)"
  "puts (\<lambda>v c. c\<lparr>q_robotId := v\<rparr>) (q_robotId :: Mqtt \<Rightarrow> _)"
  "puts (\<lambda>v c. c\<lparr>u_serverIp := v\<rparr>) (u_serverIp :: Udp \<Rightarrow> _)"
  "puts (\<lambda>v c. c\<lparr>u_baseLocalPort := v\<rparr>) (u_baseLocalPort :: Udp \<Rightarrow> _)"
  "puts (\<lambda>v c. c\<lparr>u_baseRemotePort := v\<rparr>) (u_baseRemotePort :: Udp \<Rightarrow> _)"
  "puts (\<lambda>v c. c\<lparr>u_clientIpLeft := v\<rparr>) (u_clientIpLeft :: Udp \<Rightarrow> _)"
  "puts (\<lambda>v c. c\<lparr>u_clientIpRight := v\<rparr>) (u_clientIpRight :: Udp \<Rightarrow> _)"
  "puts (\<lambda>v c. c\<lparr>x_serverIp := v\<rparr>) (x_serverIp :: Imu \<Rightarrow> _)"
  "puts (\<lambda>v c. c\<lparr>x_localPort := v\<rparr>) (x_localPort :: Imu \<Rightarrow> _)"
  "puts (\<lambda>v c. c\<lparr>x_baseId := v\<rparr>) (x_baseId :: Imu \<Rightarrow> _)"
  "puts (\<lambda>v c. c\<lparr>t_id := v\<rparr>) (t_id :: MotorTypeConfig \<Rightarrow> _)"
  "puts (\<lambda>v c. c\<lparr>t_positionMax := v\<rparr>) (t_positionMax :: MotorTypeConfig \<Rightarrow> _)"
  "puts (\<lambda>v c. c\<lparr>t_velocityMax := v\<rparr>) (t_velocityMax :: MotorTypeConfig \<Rightarrow> _)"
  "puts (\<lambda>v c. c\<lparr>t_torqueMax := v\<rparr>) (t_torqueMax :: MotorTypeConfig \<Rightarrow> _)"
  "puts (\<lambda>v c. c\<lparr>g_baseId := v\<rparr>) (g_baseId :: Leg \<Rightarrow> _)"
  "puts (\<lambda>v c. c\<lparr>g_serverId := v\<rparr>) (g_serverId :: Leg \<Rightarrow> _)"
  "puts (\<lambda>v c. c\<lparr>g_motorType := v\<rparr>) (g_motorType :: Leg \<Rightarrow> _)"
  "puts (\<lambda>v c. c\<lparr>o_observerIp := v\<rparr>) (o_observerIp :: MotorConfig \<Rightarrow> _)"
  "puts (\<lambda>v c. c\<lparr>o_maxCanDevice := v\<rparr>) (o_maxCanDevice :: MotorConfig \<Rightarrow> _)"
  "puts (\<lambda>v c. c\<lparr>o_motorsPerLeg := v\<rparr>) (o_motorsPerLeg :: MotorConfig \<Rightarrow> _)"
  "puts (\<lambda>v c. c\<lparr>lc_path := v\<rparr>) (lc_path :: LoggerConfig \<Rightarrow> _)"
  "puts (\<lambda>v c. c\<lparr>lc_level := v\<rparr>) (lc_level :: LoggerConfig \<Rightarrow> _)"
  "puts (\<lambda>v c. c\<lparr>lc_maxSize := v\<rparr>) (lc_maxSize :: LoggerConfig \<Rightarrow> _)"
  "puts (\<lambda>v c. c\<lparr>lc_rotation := v\<rparr>) (lc_rotation :: LoggerConfig \<Rightarrow> _)"
  "puts (\<lambda>v c. c\<lparr>dl_enabled := v\<rparr>) (dl_enabled :: DataLogger \<Rightarrow> _)"
  "puts (\<lambda>v c. c\<lparr>dl_downsampleEvery := v\<rparr>) (dl_downsampleEvery :: DataLogger \<Rightarrow> _)"
  "puts (\<lambda>v c. c\<lparr>dl_ringBufferCapacity := v\<rparr>) (dl_ringBufferCapacity :: DataLogger \<Rightarrow> _)"
  "puts (\<lambda>v c. c\<lparr>dc_udpPort := v\<rparr>) (dc_udpPort :: DriverStationConfig \<Rightarrow> _)"
  by (simp_all add: puts_def)

lemma puts_sections:
  "puts (\<lambda>v c. c\<lparr>cf_mqtt := v\<rparr>) (cf_mqtt :: Config \<Rightarrow> _)"
  "puts (\<lambda>v c. c\<lparr>cf_udp := v\<rparr>) (cf_udp :: Config \<Rightarrow> _)"
  "puts (\<lambda>v c. c\<lparr>cf_imu := v\<rparr>) (cf_imu :: Config \<Rightarrow> _)"
  "puts (\<lambda>v c. c\<lparr>cf_motor := v\<rparr>) (cf_motor :: Config \<Rightarrow> _)"
  "puts (\<lambda>v c. c\<lparr>cf_logger := v\<rparr>) (cf_logger :: Config \<Rightarrow> _)"
  "puts (\<lambda>v c. c\<lparr>cf_dataLogger := v\<rparr>) (cf_dataLogger :: Config \<Rightarrow> _)"
  "puts (\<lambda>v c. c\<lparr>cf_driverStation := v\<rparr>) (cf_driverStation :: Config \<Rightarrow> _)"
  by (simp_all add: puts_def)

lemma field_step:
  assumes "puts put get" "read_all (cfg_field y n key conv put # fs) c = (True, c')"
  shows "read_all fs (put (pick y n key conv (get c)) c) = (True, c')"
  using assms by (auto simp: puts_def cfg_field_def pick_def read_rules simp del: read_all.simps(2) split: option.splits)

lemma list_step:
  assumes "read_all (when_key y n key (\<lambda>v. read_all (map (assign conv put) (y_elems y v))) # fs) c = (True, c')"
  shows "read_all fs (fold put (picks y n key conv) c) = (True, c')"
proof -
  obtain c1 where 1: "when_key y n key (\<lambda>v. read_all (map (assign conv put) (y_elems y v))) c = (True, c1)"
    and 2: "read_all fs c1 = (True, c')" using assms unfolding read_all_ok by blast
  have "c1 = fold put (picks y n key conv) c"
    using 1 by (cases "y_get y n key") (simp_all add: when_key_ok picks_def read_list)
  then show ?thesis using 2 by simp
qed

lemmas field_steps = puts_fields [THEN field_step] list_step

definition mqtt_of :: "'n yaml \<Rightarrow> 'n \<Rightarrow> Mqtt \<Rightarrow> Mqtt" where
  "mqtt_of y n d =
     \<lparr>q_mode = pick y n ''mode'' (y_string y) (q_mode d), q_clientId = pick y n ''client_id'' (y_string y) (q_clientId d),
      q_username = pick y n ''username'' (y_string y) (q_username d), q_password = pick y n ''password'' (y_string y) (q_password d),
      q_address = pick y n ''address'' (y_string y) (q_address d), q_broker = pick y n ''mqtt_broker'' (y_string y) (q_broker d),
      q_host = pick y n ''host'' (y_string y) (q_host d), q_port = pick y n ''port'' (y_string y) (q_port d),
      q_mqttPort = pick y n ''mqtt_port'' (y_string y) (q_mqttPort d), q_inPort = pick y n ''in_port'' (y_int y) (q_inPort d),
      q_outPort = pick y n ''out_port'' (y_int y) (q_outPort d), q_qos = pick y n ''qos'' (y_int y) (q_qos d),
      q_robotId = pick y n ''robot_id'' (y_int y) (q_robotId d), q_topics = q_topics d @ picks y n ''topics'' (y_string y)\<rparr>"

lemma read_mqtt_result:
  assumes "read_mqtt y n c = (True, c')"
  shows "c' = mqtt_of y n c"
  using assms unfolding read_mqtt_def
  by (cases c, hypsubst)
     ((drule field_steps, simp only: Mqtt.select_convs Mqtt.update_convs fold_lists)+, simp add: mqtt_of_def)

definition udp_of :: "'n yaml \<Rightarrow> 'n \<Rightarrow> Udp \<Rightarrow> Udp" where
  "udp_of y n d =
     (let ip = \<lambda>side v. (case y_get y n ''client_ip'' of None \<Rightarrow> v | Some ci \<Rightarrow> pick y ci side (y_string y) v) in
      \<lparr>u_serverIp = pick y n ''server_ip'' (y_string y) (u_serverIp d),
       u_baseLocalPort = pick y n ''base_local_port'' (y_int y) (u_baseLocalPort d),
       u_baseRemotePort = pick y n ''base_remote_port'' (y_int y) (u_baseRemotePort d),
       u_clientIpLeft = ip ''left'' (u_clientIpLeft d), u_clientIpRight = ip ''right'' (u_clientIpRight d)\<rparr>)"

lemma read_client_ip:
  assumes "read_all
        [cfg_field y ci ''left'' (y_string y) (\<lambda>v c. c\<lparr>u_clientIpLeft := v\<rparr>),
         cfg_field y ci ''right'' (y_string y) (\<lambda>v c. c\<lparr>u_clientIpRight := v\<rparr>)] (c :: Udp) = (True, c')"
  shows "c' = c\<lparr>u_clientIpLeft := pick y ci ''left'' (y_string y) (u_clientIpLeft c),
               u_clientIpRight := pick y ci ''right'' (y_string y) (u_clientIpRight c)\<rparr>"
  using assms by - ((drule field_steps)+, simp)

lemma read_udp_result:
  assumes "read_udp y n c = (True, c')"
  shows "c' = udp_of y n c"
proof -
  have "when_key y n ''client_ip'' (\<lambda>ci. read_all
        [cfg_field y ci ''left'' (y_string y) (\<lambda>v c. c\<lparr>u_clientIpLeft := v\<rparr>),
         cfg_field y ci ''right'' (y_string y) (\<lambda>v c. c\<lparr>u_clientIpRight := v\<rparr>)])
      \<lparr>u_serverIp = pick y n ''server_ip'' (y_string y) (u_serverIp c),
       u_baseLocalPort = pick y n ''base_local_port'' (y_int y) (u_baseLocalPort c),
       u_baseRemotePort = pick y n ''base_remote_port'' (y_int y) (u_baseRemotePort c),
       u_clientIpLeft = u_clientIpLeft c, u_clientIpRight = u_clientIpRight c\<rparr> = (True, c')"
    using assms unfolding read_udp_def
    by (cases c, hypsubst)
       ((drule field_steps, simp only: Udp.select_convs Udp.update_convs)+, simp add: read_all_ok del: read_all.simps(2))
  then show ?thesis
    by (cases "y_get y n ''client_ip''") (auto simp: when_key_ok udp_of_def Let_def simp del: read_all.simps(2) dest: read_client_ip)
qed

definition imu_of :: "'n yaml \<Rightarrow> 'n \<Rightarrow> Imu \<Rightarrow> Imu" where
  "imu_of y n d =
     \<lparr>x_serverIp = pick y n ''server_ip'' (y_string y) (x_serverIp d),
      x_localPort = pick y n ''local_port'' (y_int y) (x_localPort d),
      x_type = (case y_get y n ''value_mode'' of None \<Rightarrow> x_type d
                | Some v \<Rightarrow> if y_string y v = Some ''float'' then IMU_FLOAT else IMU_INT),
      x_baseId = pick y n ''base_id'' (y_int y) (x_baseId d)\<rparr>"

lemma value_mode_step:
  assumes "read_all (cfg_field y n ''value_mode'' (y_string y)
      (\<lambda>v c. c\<lparr>x_type := (if v = ''float'' then IMU_FLOAT else IMU_INT)\<rparr>) # fs) (c :: Imu) = (True, c')"
  shows "read_all fs (c\<lparr>x_type := (case y_get y n ''value_mode'' of None \<Rightarrow> x_type c
      | Some v \<Rightarrow> if y_string y v = Some ''float'' then IMU_FLOAT else IMU_INT)\<rparr>) = (True, c')"
  using assms by (auto simp: cfg_field_def read_rules simp del: read_all.simps(2) split: option.splits)

lemma read_imu_result:
  assumes "read_imu y n c = (True, c')"
  shows "c' = imu_of y n c"
  using assms unfolding read_imu_def
  by (cases c, hypsubst)
     ((drule field_steps value_mode_step, simp only: Imu.select_convs Imu.update_convs)+,
      simp only: read_all.simps(1) prod.inject simp_thms imu_of_def Imu.select_convs)

definition type_of :: "'n yaml \<Rightarrow> 'n \<times> 'n \<Rightarrow> MotorTypeConfig" where
  "type_of y kv =
     \<lparr>t_name = the (y_string y (fst kv)), t_id = pick y (snd kv) ''id'' (y_int y) 0,
      t_positionMax = pick y (snd kv) ''position_max'' (y_double y) (Fin 0),
      t_velocityMax = pick y (snd kv) ''velocity_max'' (y_double y) (Fin 0),
      t_torqueMax = pick y (snd kv) ''torque_max'' (y_double y) (Fin 0)\<rparr>"

lemma assign_step:
  assumes "read_all (assign conv put v # fs) c = (True, c')"
  shows "read_all fs (put (the (conv v)) c) = (True, c')"
  using assms by (auto simp: read_rules simp del: read_all.simps(2))

lemma read_type_result:
  assumes "read_type y kv MotorTypeConfig_init = (True, c')"
  shows "c' = type_of y kv"
  using assms unfolding read_type_def MotorTypeConfig_init_def
  by - ((drule field_steps assign_step, simp only: MotorTypeConfig.select_convs MotorTypeConfig.update_convs)+, simp add: type_of_def)

definition leg_of :: "'n yaml \<Rightarrow> 'n \<times> 'n \<Rightarrow> Leg" where
  "leg_of y kv =
     \<lparr>g_name = the (y_string y (fst kv)), g_baseId = pick y (snd kv) ''base_id'' (y_int y) 0,
      g_serverId = pick y (snd kv) ''server_id'' (y_int y) 0,
      g_motorType = pick y (snd kv) ''motor_type'' (y_string y) [],
      g_deviceIds = picks y (snd kv) ''device_ids'' (y_int y)\<rparr>"

lemma read_leg_result:
  assumes "read_leg y kv Leg_init = (True, c')"
  shows "c' = leg_of y kv"
  using assms unfolding read_leg_def Leg_init_def
  by - ((drule field_steps assign_step, simp only: Leg.select_convs Leg.update_convs fold_lists append_Nil)+, simp add: leg_of_def)

definition children :: "'n yaml \<Rightarrow> 'n \<Rightarrow> string \<Rightarrow> ('n \<times> 'n \<Rightarrow> 'a) \<Rightarrow> 'a list" where
  "children y n key g = (case y_get y n key of None \<Rightarrow> [] | Some v \<Rightarrow> map g (y_pairs y v))"

lemma children_step:
  assumes "read_all (when_key y n key (\<lambda>v. read_all (map (\<lambda>kv. append_read (f kv) init put) (y_pairs y v))) # fs) c = (True, c')"
    and g: "\<And>kv x. f kv init = (True, x) \<Longrightarrow> x = g kv"
  shows "read_all fs (fold put (children y n key g) c) = (True, c')"
proof -
  obtain c1 where 1: "when_key y n key (\<lambda>v. read_all (map (\<lambda>kv. append_read (f kv) init put) (y_pairs y v))) c = (True, c1)"
    and 2: "read_all fs c1 = (True, c')" using assms(1) unfolding read_all_ok by blast
  have list: "list_all2 (\<lambda>kv x. f kv init = (True, x)) kvs xs \<Longrightarrow> xs = map g kvs" for kvs xs
    by (induction rule: list_all2_induct) (simp_all add: g)
  have "c1 = fold put (children y n key g) c"
    using 1 by (cases "y_get y n key") (auto simp: when_key_ok children_def dest!: read_children list)
  then show ?thesis using 2 by simp
qed

lemmas type_step = children_step [OF _ read_type_result]
lemmas leg_step = children_step [OF _ read_leg_result]

definition motor_of :: "'n yaml \<Rightarrow> 'n \<Rightarrow> MotorConfig \<Rightarrow> MotorConfig" where
  "motor_of y n d =
     \<lparr>o_observerIp = pick y n ''observer_ip'' (y_string y) (o_observerIp d),
      o_maxCanDevice = pick y n ''max_can_device'' (y_int y) (o_maxCanDevice d),
      o_motorsPerLeg = pick y n ''motors_per_leg'' (y_int y) (o_motorsPerLeg d),
      o_types = o_types d @ children y n ''types'' (type_of y),
      o_legs = o_legs d @ children y n ''legs'' (leg_of y)\<rparr>"

lemma read_motor_result:
  assumes "read_motor y n c = (True, c')"
  shows "c' = motor_of y n c"
  using assms unfolding read_motor_def
  by (cases c, hypsubst)
     ((drule field_steps type_step leg_step, assumption?, simp only: MotorConfig.select_convs MotorConfig.update_convs fold_lists)+,
      simp only: read_all.simps(1) prod.inject simp_thms motor_of_def MotorConfig.select_convs)

definition logger_of :: "'n yaml \<Rightarrow> 'n \<Rightarrow> LoggerConfig \<Rightarrow> LoggerConfig" where
  "logger_of y n d =
     \<lparr>lc_path = pick y n ''path'' (y_string y) (lc_path d), lc_level = pick y n ''level'' (y_string y) (lc_level d),
      lc_maxSize = pick y n ''maxSize'' (y_int y) (lc_maxSize d), lc_rotation = pick y n ''rotation'' (y_int y) (lc_rotation d)\<rparr>"

lemma read_logger_result:
  assumes "read_logger y n c = (True, c')"
  shows "c' = logger_of y n c"
  using assms unfolding read_logger_def
  by (cases c, hypsubst)
     ((drule field_steps, simp only: LoggerConfig.select_convs LoggerConfig.update_convs)+,
      simp only: read_all.simps(1) prod.inject simp_thms logger_of_def LoggerConfig.select_convs)

definition data_logger_of :: "'n yaml \<Rightarrow> 'n \<Rightarrow> DataLogger \<Rightarrow> DataLogger" where
  "data_logger_of y n d =
     \<lparr>dl_enabled = pick y n ''enabled'' (y_bool y) (dl_enabled d),
      dl_downsampleEvery = pick y n ''downsample_every'' (y_int y) (dl_downsampleEvery d),
      dl_ringBufferCapacity = pick y n ''ring_buffer_capacity'' (y_int y) (dl_ringBufferCapacity d)\<rparr>"

lemma read_data_logger_result:
  assumes "read_data_logger y n c = (True, c')"
  shows "c' = data_logger_of y n c"
  using assms unfolding read_data_logger_def
  by (cases c, hypsubst)
     ((drule field_steps, simp only: DataLogger.select_convs DataLogger.update_convs)+,
      simp only: read_all.simps(1) prod.inject simp_thms data_logger_of_def DataLogger.select_convs)

definition button_of :: "'n yaml \<Rightarrow> 'n \<times> 'n \<Rightarrow> string \<times> string" where
  "button_of y kv = (the (y_string y (fst kv)), the (y_string y (snd kv)))"

definition driver_station_of :: "'n yaml \<Rightarrow> 'n \<Rightarrow> DriverStationConfig \<Rightarrow> DriverStationConfig" where
  "driver_station_of y n d =
     \<lparr>dc_udpPort = pick y n ''udp_port'' (y_int y) (dc_udpPort d),
      dc_buttons = dc_buttons d ++ map_of (rev (children y n ''buttons'' (button_of y)))\<rparr>"

lemma map_add_upd_front: "b(k \<mapsto> v) ++ g = b ++ ([k \<mapsto> v] ++ g)"
  by (auto simp: map_add_def split: option.splits)

lemma read_buttons:
  assumes "read_all (map (read_button y) kvs) c = (True, c')"
  shows "c' = c\<lparr>dc_buttons := dc_buttons c ++ map_of (rev (map (button_of y) kvs))\<rparr>"
  using assms
proof (induction kvs arbitrary: c)
  case (Cons kv kvs)
  then obtain c1 where 1: "read_button y kv c = (True, c1)" and 2: "read_all (map (read_button y) kvs) c1 = (True, c')"
    unfolding list.map read_all_ok by blast
  have "c1 = c\<lparr>dc_buttons := (dc_buttons c)(fst (button_of y kv) \<mapsto> snd (button_of y kv))\<rparr>"
    using 1 by (auto simp: read_button_def assign_ok button_of_def split: option.splits)
  with Cons.IH [OF 2] show ?case
    by (simp add: map_add_upd_front [symmetric] case_prod_beta del: fun_upd_apply)
qed simp

lemma read_driver_station_result:
  assumes "read_driver_station y n c = (True, c')"
  shows "c' = driver_station_of y n c"
proof -
  have "when_key y n ''buttons'' (\<lambda>bs. read_all (map (read_button y) (y_pairs y bs)))
      \<lparr>dc_udpPort = pick y n ''udp_port'' (y_int y) (dc_udpPort c), dc_buttons = dc_buttons c\<rparr> = (True, c')"
    using assms unfolding read_driver_station_def
    by (cases c, hypsubst)
       (drule field_steps, simp only: DriverStationConfig.select_convs DriverStationConfig.update_convs,
        simp add: read_all_ok del: read_all.simps(2))
  then show ?thesis
    by (cases "y_get y n ''buttons''") (auto simp: when_key_ok driver_station_of_def children_def dest: read_buttons)
qed

definition in_section :: "'n yaml \<Rightarrow> 'n \<Rightarrow> string \<Rightarrow> ('n \<Rightarrow> 'm \<Rightarrow> 'm) \<Rightarrow> 'm \<Rightarrow> 'm" where
  "in_section y doc key g m = (case y_get y doc key of None \<Rightarrow> m | Some n \<Rightarrow> g n m)"

definition config_of :: "'n yaml \<Rightarrow> 'n \<Rightarrow> Config \<Rightarrow> Config" where
  "config_of y doc d =
     \<lparr>cf_mqtt = in_section y doc ''mqtt'' (mqtt_of y) (cf_mqtt d),
      cf_udp = in_section y doc ''udp'' (udp_of y) (cf_udp d),
      cf_imu = in_section y doc ''imu'' (imu_of y) (cf_imu d),
      cf_motor = in_section y doc ''motor'' (motor_of y) (cf_motor d),
      cf_logger = (if y_get y doc ''motor'' = None then cf_logger d
                   else in_section y doc ''logger'' (logger_of y) (cf_logger d)),
      cf_dataLogger = in_section y doc ''data_logger'' (data_logger_of y) (cf_dataLogger d),
      cf_driverStation = in_section y doc ''driver_station'' (driver_station_of y) (cf_driverStation d)\<rparr>"

lemma section_step:
  assumes "puts put get" "read_all (when_key y doc key (section_of get put f) # fs) c = (True, c')"
    and "\<And>n m m'. f n m = (True, m') \<Longrightarrow> m' = g n m"
  shows "read_all fs (put (in_section y doc key g (get c)) c) = (True, c')"
  using assms by (cases "y_get y doc key")
    (auto simp: puts_def in_section_def read_rules simp del: read_all.simps(2))

lemma motor_step:
  assumes "read_all (when_key y doc ''motor'' (\<lambda>mo. read_all
        [section_of cf_motor (\<lambda>m c. c\<lparr>cf_motor := m\<rparr>) (read_motor y) mo,
         when_key y doc ''logger'' (section_of cf_logger (\<lambda>m c. c\<lparr>cf_logger := m\<rparr>) (read_logger y))]) # fs) (c :: Config) = (True, c')"
  shows "read_all fs (c\<lparr>cf_motor := in_section y doc ''motor'' (motor_of y) (cf_motor c),
      cf_logger := (if y_get y doc ''motor'' = None then cf_logger c
                   else in_section y doc ''logger'' (logger_of y) (cf_logger c))\<rparr>) = (True, c')"
proof (cases "y_get y doc ''motor''")
  case (Some mo)
  then obtain c1 c2 m where m: "read_motor y mo (cf_motor c) = (True, m)" "c1 = c\<lparr>cf_motor := m\<rparr>"
    and l: "read_all [when_key y doc ''logger'' (section_of cf_logger (\<lambda>m c. c\<lparr>cf_logger := m\<rparr>) (read_logger y))] c1 = (True, c2)"
    and r: "read_all fs c2 = (True, c')"
    using assms unfolding read_all_ok when_key_ok section_ok by (auto simp del: read_all.simps(2))
  have "c2 = c1\<lparr>cf_logger := in_section y doc ''logger'' (logger_of y) (cf_logger c1)\<rparr>"
    using section_step [OF puts_sections(5) l read_logger_result [of y]] by simp
  then show ?thesis using Some r m(2) read_motor_result [OF m(1)] by (simp add: in_section_def)
qed (use assms in \<open>simp add: read_rules in_section_def del: read_all.simps(2)\<close>)

lemma load_result:
  assumes "load_root y doc c = (True, c')"
  shows "c' = config_of y doc c"
proof -
  note 1 = section_step [where f = "read_mqtt y" and g = "mqtt_of y",
      OF puts_sections(1) assms [unfolded load_root_def] read_mqtt_result]
  note 2 = section_step [where f = "read_udp y" and g = "udp_of y", OF puts_sections(2) 1 read_udp_result]
  note 3 = section_step [where f = "read_imu y" and g = "imu_of y", OF puts_sections(3) 2 read_imu_result]
  note 4 = motor_step [OF 3]
  note 5 = section_step [where f = "read_data_logger y" and g = "data_logger_of y",
      OF puts_sections(6) 4 read_data_logger_result]
  note 6 = section_step [where f = "read_driver_station y" and g = "driver_station_of y",
      OF puts_sections(7) 5 read_driver_station_result]
  show ?thesis using 6 by (cases c) (simp add: config_of_def cong: if_cong)
qed

section \<open>Loading once\<close>


text \<open>A document with the loader that reads it: scalars convert to what they are.\<close>

datatype doc_node = YStr string | YInt int | YMap "(string \<times> doc_node) list" | YSeq "doc_node list"

definition doc_yaml :: "doc_node yaml" where
  "doc_yaml =
     \<lparr>y_get = (\<lambda>n key. case n of YMap kvs \<Rightarrow> map_of kvs key | _ \<Rightarrow> None),
      y_string = (\<lambda>n. case n of YStr v \<Rightarrow> Some v | _ \<Rightarrow> None),
      y_int = (\<lambda>n. case n of YInt i \<Rightarrow> Some i | _ \<Rightarrow> None),
      y_double = (\<lambda>n. None), y_bool = (\<lambda>n. None),
      y_pairs = (\<lambda>n. case n of YMap kvs \<Rightarrow> map (\<lambda>(k, v). (YStr k, v)) kvs | _ \<Rightarrow> []),
      y_elems = (\<lambda>n. case n of YSeq ns \<Rightarrow> ns | _ \<Rightarrow> [])\<rparr>"

definition doc_sample :: doc_node where
  "doc_sample = YMap
     [(''mqtt'', YMap [(''qos'', YInt 1), (''topics'', YSeq [YStr ''a'', YStr ''b''])]),
      (''logger'', YMap [(''rotation'', YInt 9)]),
      (''driver_station'', YMap [(''buttons'', YMap [(''A'', YStr ''walk'')])])]"

definition sample_config :: Config where
  "sample_config = snd (load_root doc_yaml doc_sample Config_defaults)"

lemma sample_loads: "load_root doc_yaml doc_sample Config_defaults = (True, sample_config)"
  by (simp add: prod_eq_iff sample_config_def) code_simp


text \<open>A load that throws half-way leaves what it has read: here the file is corrected after the first call of
  \<open>instance\<close> threw, and the second call appends the topics again.\<close>

definition doc_broken :: doc_node where
  "doc_broken = YMap
     [(''mqtt'', YMap [(''topics'', YSeq [YStr ''a''])]), (''udp'', YMap [(''base_local_port'', YStr ''x'')])]"

definition doc_corrected :: doc_node where
  "doc_corrected = YMap
     [(''mqtt'', YMap [(''topics'', YSeq [YStr ''a''])]), (''udp'', YMap [(''base_local_port'', YInt 8887)])]"

definition after_retry :: "Config option \<times> config_statics" where
  "after_retry = config_instance doc_yaml (\<lambda>_. Some doc_corrected)
     (snd (config_instance doc_yaml (\<lambda>_. Some doc_broken) config_statics_init))"

lemma retry_appends_again: "map_option (\<lambda>c. q_topics (cf_mqtt c)) (fst after_retry) = Some [''a'', ''a'']"
  by code_simp

end
