(* ===== verification/MqttClient.thy ===== *)
theory MqttClient
  imports Prelude
begin

text \<open>
  \<open>lib/mqtt/MqttClient.cpp\<close>: the client that queues binary messages and sends them from the
  service thread of \<open>libwebsockets\<close>.  The library is outside the repository: its calls are recorded
  in \<open>lws_calls\<close> and its results and callbacks are inputs.  Times are nanoseconds of the steady clock.
\<close>

section \<open>State\<close>

definition time_point_max :: int where "time_point_max = 2 ^ 63 - 1"

definition TOPIC_STATUS :: string where "TOPIC_STATUS = ''robot/status''"

definition STATE_SUBSCRIBE :: int where "STATE_SUBSCRIBE = 0"
definition STATE_PUBLISH_QOS0 :: int where "STATE_PUBLISH_QOS0 = 1"

record BinaryMessage =
  bm_topic :: string
  bm_payload :: bytes
  bm_qos :: int
  bm_retain :: bool

record pss =
  pss_state :: int
  pss_pos :: nat
  pss_retries :: int

record mqtt_config =
  mc_clientId :: string
  mc_username :: string
  mc_password :: string
  mc_broker :: string
  mc_address :: string
  mc_host :: string
  mc_port :: string
  mc_mqttPort :: string
  mc_qos :: int
  mc_robotId :: int
  mc_topics :: "string list"

record MqttClient =
  mq_shutdown :: bool
  mq_thrCreated :: bool
  mq_isConnected :: bool
  m_reconnectAt :: int
  m_reconnectDelay :: int
  m_reconnectPending :: bool
  m_mqttTopics :: "string list"
  mq_topics :: "string list"
  m_clientId :: string
  m_username :: string
  m_password :: string
  m_address :: string
  m_port :: string
  m_host :: string
  m_qos :: int
  m_robotId :: int
  mq_context :: bool
  m_binaryMessages :: "BinaryMessage list"
  m_highWater :: nat
  m_lowWater :: nat
  m_highWaterWarning :: bool
  m_wsiMap :: "string \<rightharpoonup> nat"
  m_newDataOccurHandler :: bool

datatype lws_call = CancelService | OnWritable nat | SendSubscribe nat "string list"
  | SendPublish nat BinaryMessage | ConnectVia string string string string string | NewData bytes

record mqtt_world =
  mq :: MqttClient
  sessions :: "nat \<Rightarrow> pss"
  lws_calls :: "lws_call list"

definition MqttClient_ctor :: MqttClient where
  "MqttClient_ctor =
     \<lparr>mq_shutdown = False, mq_thrCreated = False, mq_isConnected = False, m_reconnectAt = time_point_max,
      m_reconnectDelay = 1000, m_reconnectPending = False, m_mqttTopics = [], mq_topics = [],
      m_clientId = ''MqttClient'', m_username = [], m_password = [], m_address = [], m_port = [],
      m_host = [], m_qos = 0, m_robotId = 1, mq_context = False, m_binaryMessages = [],
      m_highWater = 1000, m_lowWater = 500, m_highWaterWarning = False, m_wsiMap = Map.empty,
      m_newDataOccurHandler = False\<rparr>"

definition mqtt_init :: mqtt_world where
  "mqtt_init = \<lparr>mq = MqttClient_ctor, sessions = (\<lambda>_. \<lparr>pss_state = 0, pss_pos = 0, pss_retries = 0\<rparr>), lws_calls = []\<rparr>"

definition call_lws :: "lws_call \<Rightarrow> mqtt_world \<Rightarrow> mqtt_world" where
  "call_lws c w = w\<lparr>lws_calls := lws_calls w @ [c]\<rparr>"

definition on_mq :: "(MqttClient \<Rightarrow> MqttClient) \<Rightarrow> mqtt_world \<Rightarrow> mqtt_world" where
  "on_mq f w = w\<lparr>mq := f (mq w)\<rparr>"

section \<open>Configuration and the map of connections\<close>

definition mqtt_loadConfig :: "mqtt_config \<Rightarrow> MqttClient \<Rightarrow> MqttClient" where
  "mqtt_loadConfig cfg c =
     c\<lparr>m_clientId := mc_clientId cfg, m_username := mc_username cfg, m_password := mc_password cfg,
       m_address := (if mc_broker cfg = [] then mc_address cfg else mc_broker cfg),
       m_port := (if mc_mqttPort cfg = [] then mc_port cfg else mc_mqttPort cfg),
       m_host := mc_host cfg, m_qos := mc_qos cfg,
       m_robotId := mc_robotId cfg, mq_topics := mc_topics cfg\<rparr>"

definition setOccurFuncPointer :: "MqttClient \<Rightarrow> MqttClient" where
  "setOccurFuncPointer c = c\<lparr>m_newDataOccurHandler := True\<rparr>"

definition addWsiInstance :: "string \<Rightarrow> nat \<Rightarrow> MqttClient \<Rightarrow> MqttClient" where
  "addWsiInstance name wsi c =
     (case m_wsiMap c name of None \<Rightarrow> c\<lparr>m_wsiMap := (m_wsiMap c)(name \<mapsto> wsi)\<rparr> | Some _ \<Rightarrow> c)"

definition removeWsiInstance :: "string \<Rightarrow> MqttClient \<Rightarrow> MqttClient" where
  "removeWsiInstance name c =
     (case m_wsiMap c name of None \<Rightarrow> c | Some _ \<Rightarrow> c\<lparr>m_wsiMap := (m_wsiMap c)(name := None)\<rparr>)"

definition getWsiInstance :: "string \<Rightarrow> MqttClient \<Rightarrow> nat option" where
  "getWsiInstance name c = m_wsiMap c name"

section \<open>Publishing\<close>

definition publish_binary ::
    "string option \<Rightarrow> bytes option \<Rightarrow> int \<Rightarrow> bool \<Rightarrow> mqtt_world \<Rightarrow> bool \<times> mqtt_world" where
  "publish_binary topic data qos retain w =
     (case (topic, data) of
        (Some t, Some d) \<Rightarrow>
          let c = mq w in
          if m_highWater c \<le> length (m_binaryMessages c)
          then (False, if m_highWaterWarning c then w else on_mq (\<lambda>c. c\<lparr>m_highWaterWarning := True\<rparr>) w)
          else let c1 = (if length (m_binaryMessages c) \<le> m_lowWater c
                         then c\<lparr>m_highWaterWarning := False\<rparr> else c);
                   c2 = c1\<lparr>m_binaryMessages := m_binaryMessages c1 @
                          [\<lparr>bm_topic = t, bm_payload = d, bm_qos = qos, bm_retain = retain\<rparr>]\<rparr>;
                   w2 = w\<lparr>mq := c2\<rparr>
               in (True, if mq_context c2 then call_lws CancelService w2 else w2)
      | _ \<Rightarrow> (False, w))"

definition publishStatusOnline :: "mqtt_world \<Rightarrow> mqtt_world" where
  "publishStatusOnline w = snd (publish_binary (Some TOPIC_STATUS) (Some [1]) 1 True w)"

definition publishStatusOffline :: "mqtt_world \<Rightarrow> mqtt_world" where
  "publishStatusOffline w = snd (publish_binary (Some TOPIC_STATUS) (Some [0]) 1 True w)"

section \<open>Connecting\<close>

text \<open>\<open>ok\<close> is whether \<open>lws_client_connect_via_info\<close> accepts the request.\<close>

definition connect :: "bool \<Rightarrow> mqtt_world \<Rightarrow> int \<times> mqtt_world" where
  "connect ok w =
     (if ok then 0 else 1,
      call_lws (ConnectVia (m_clientId (mq w)) (m_username (mq w)) (m_address (mq w)) (m_host (mq w))
        (m_port (mq w))) w)"

text \<open>The delay doubles up to thirty seconds; \<open>now\<close> is the clock reading.\<close>

definition back_off :: "int \<Rightarrow> MqttClient \<Rightarrow> MqttClient" where
  "back_off now c =
     c\<lparr>m_reconnectPending := False, m_reconnectAt := now + m_reconnectDelay c * 1000000,
       m_reconnectDelay := (if m_reconnectDelay c < 30000 div 2 then m_reconnectDelay c * 2 else 30000)\<rparr>"

definition reconnect :: "int \<Rightarrow> bool \<Rightarrow> mqtt_world \<Rightarrow> int \<times> mqtt_world" where
  "reconnect now ok w =
     (if \<not> mq_context (mq w) \<or> m_reconnectPending (mq w) \<or> mq_shutdown (mq w) then (1, w)
      else let (ret, w1) = connect ok (on_mq (\<lambda>c. c\<lparr>m_reconnectPending := True\<rparr>) w)
           in (ret, if ret \<noteq> 0 then on_mq (back_off now) w1 else w1))"

definition scheduleReconnect :: "int \<Rightarrow> mqtt_world \<Rightarrow> mqtt_world" where
  "scheduleReconnect now w = (if mq_shutdown (mq w) then w else on_mq (back_off now) w)"

definition notifyCallback :: "bool \<Rightarrow> bool \<Rightarrow> mqtt_world \<Rightarrow> mqtt_world" where
  "notifyCallback operational ok w =
     (let w1 = on_mq (\<lambda>c. c\<lparr>mq_context := True\<rparr>) w
      in if \<not> operational then w1 else snd (connect ok w1))"

section \<open>Callbacks of the service thread\<close>

definition onClientWriteAble :: "nat \<Rightarrow> mqtt_world \<Rightarrow> fault + mqtt_world" where
  "onClientWriteAble wsi w =
     (let st = pss_state (sessions w wsi); c = mq w in
      if st = STATE_SUBSCRIBE then
        (let topics = m_mqttTopics c @ mq_topics c in
         if topics = [] then Inl OutOfBounds
         else Inr (call_lws (SendSubscribe wsi (take (length (mq_topics c)) topics))
                (w\<lparr>mq := c\<lparr>m_mqttTopics := topics\<rparr>,
                   sessions := (sessions w)(wsi := (sessions w wsi)\<lparr>pss_state := STATE_PUBLISH_QOS0\<rparr>)\<rparr>)))
      else if st = STATE_PUBLISH_QOS0 then
        (case m_binaryMessages c of
           [] \<Rightarrow> Inr w
         | m # ms \<Rightarrow> Inr (call_lws (SendPublish wsi m) (w\<lparr>mq := c\<lparr>m_binaryMessages := ms\<rparr>\<rparr>)))
      else Inr w)"

definition processMessage :: "bytes \<Rightarrow> mqtt_world \<Rightarrow> fault + mqtt_world" where
  "processMessage payload w =
     (if m_newDataOccurHandler (mq w) then Inr (call_lws (NewData payload) w) else Inl NullDeref)"

datatype reason = ConnectionError | Closed | Established | Subscribed | Writeable | Ack | Resend
  | Rx bytes | WaitCancelled

definition callback_mqtt :: "int \<Rightarrow> nat \<Rightarrow> reason \<Rightarrow> mqtt_world \<Rightarrow> fault + mqtt_world" where
  "callback_mqtt now wsi r w =
     (case r of
        ConnectionError \<Rightarrow> Inr (scheduleReconnect now (on_mq (\<lambda>c. c\<lparr>mq_isConnected := False\<rparr>) w))
      | Closed \<Rightarrow> Inr (scheduleReconnect now
                   (on_mq (\<lambda>c. removeWsiInstance ''app'' (c\<lparr>mq_isConnected := False\<rparr>)) w))
      | Established \<Rightarrow>
          Inr (call_lws (OnWritable wsi) (publishStatusOnline
            (on_mq (\<lambda>c. addWsiInstance ''app'' wsi
               (c\<lparr>mq_isConnected := True, m_reconnectPending := False, m_reconnectDelay := 1000,
                  m_reconnectAt := time_point_max\<rparr>)) w)))
      | Subscribed \<Rightarrow> Inr w
      | Writeable \<Rightarrow> onClientWriteAble wsi w
      | Ack \<Rightarrow> Inr (if pss_state (sessions w wsi) = STATE_PUBLISH_QOS0 \<and> m_binaryMessages (mq w) \<noteq> []
                   then call_lws (OnWritable wsi) w else w)
      | Resend \<Rightarrow>
          (let s = sessions w wsi; n = pss_retries s + 1; s1 = s\<lparr>pss_retries := n\<rparr>
           in Inr (w\<lparr>sessions := (sessions w)(wsi :=
                if n = 3 then s1 else s1\<lparr>pss_state := pss_state s - 1, pss_pos := 0\<rparr>)\<rparr>))
      | Rx payload \<Rightarrow> processMessage payload w
      | WaitCancelled \<Rightarrow>
          (case getWsiInstance ''app'' (mq w) of
             None \<Rightarrow> Inr w
           | Some x \<Rightarrow> Inr (if m_binaryMessages (mq w) \<noteq> [] then call_lws (OnWritable x) w else w)))"

text \<open>One turn of \<open>run\<close>: the callbacks made by \<open>lws_service\<close>, then the reconnection check.\<close>

datatype service_event = Notify bool bool | Callback int nat reason

fun service :: "service_event \<Rightarrow> mqtt_world \<Rightarrow> fault + mqtt_world" where
  "service (Notify operational ok) w = Inr (notifyCallback operational ok w)"
| "service (Callback now wsi r) w = callback_mqtt now wsi r w"

definition mqtt_turn :: "service_event list \<times> int \<times> bool \<Rightarrow> mqtt_world \<Rightarrow> fault + mqtt_world" where
  "mqtt_turn = (\<lambda>(evs, now, ok) w.
     bindR (foldR service evs w) (\<lambda>w1.
       Inr (if \<not> mq_shutdown (mq w1) \<and> \<not> mq_isConnected (mq w1) \<and> \<not> m_reconnectPending (mq w1) \<and>
               m_reconnectAt (mq w1) \<le> now
            then snd (reconnect now ok w1) else w1)))"

definition mqtt_start :: "bool \<Rightarrow> mqtt_world \<Rightarrow> mqtt_world" where
  "mqtt_start create_ok w = on_mq (\<lambda>c. c\<lparr>mq_thrCreated := create_ok\<rparr>) w"

definition mqtt_shutdown :: "mqtt_world \<Rightarrow> mqtt_world" where
  "mqtt_shutdown w =
     (let w1 = on_mq (\<lambda>c. c\<lparr>mq_shutdown := True\<rparr>) (publishStatusOffline w)
      in if \<not> mq_thrCreated (mq w1) then w1 else on_mq (\<lambda>c. c\<lparr>mq_thrCreated := False\<rparr>) w1)"

section \<open>What is sent\<close>

fun sent_messages :: "lws_call list \<Rightarrow> BinaryMessage list" where
  "sent_messages [] = []"
| "sent_messages (SendPublish wsi m # cs) = m # sent_messages cs"
| "sent_messages (_ # cs) = sent_messages cs"

lemma sent_messages_append [simp]: "sent_messages (xs @ ys) = sent_messages xs @ sent_messages ys"
  by (induction xs rule: sent_messages.induct) simp_all


definition data_message :: "BinaryMessage \<Rightarrow> bool" where
  "data_message m \<longleftrightarrow> bm_topic m \<noteq> TOPIC_STATUS"

text \<open>The messages accepted so far, status messages apart: those handed to the library, then
  those queued.\<close>

definition stream :: "mqtt_world \<Rightarrow> BinaryMessage list" where
  "stream w = filter data_message (sent_messages (lws_calls w) @ m_binaryMessages (mq w))"

definition mqtt_inv :: "mqtt_world \<Rightarrow> bool" where
  "mqtt_inv w \<longleftrightarrow> m_highWater (mq w) = 1000 \<and> length (m_binaryMessages (mq w)) \<le> 1000 \<and>
     1000 \<le> m_reconnectDelay (mq w) \<and> m_reconnectDelay (mq w) \<le> 30000"

definition keeps :: "mqtt_world \<Rightarrow> mqtt_world \<Rightarrow> bool" where
  "keeps w w' \<longleftrightarrow> stream w' = stream w \<and> (mqtt_inv w \<longrightarrow> mqtt_inv w')"

lemma keeps_refl [simp]: "keeps w w"
  by (simp add: keeps_def)

lemma keeps_trans: "keeps a b \<Longrightarrow> keeps b c \<Longrightarrow> keeps a c"
  by (simp add: keeps_def)

lemma keeps_call: "sent_messages [c] = [] \<Longrightarrow> keeps w (call_lws c w)"
  by (simp add: keeps_def stream_def mqtt_inv_def call_lws_def)

lemma keeps_mq:
  assumes "m_binaryMessages (f (mq w)) = m_binaryMessages (mq w)" "m_highWater (f (mq w)) = m_highWater (mq w)"
    "m_reconnectDelay (f (mq w)) = m_reconnectDelay (mq w) \<or> m_reconnectDelay (f (mq w)) = 1000"
  shows "keeps w (on_mq f w)"
  using assms by (auto simp: keeps_def stream_def mqtt_inv_def on_mq_def)

lemma keeps_back_off: "keeps w (on_mq (back_off now) w)"
  by (simp add: keeps_def stream_def mqtt_inv_def on_mq_def back_off_def)

lemma publish_stream:
  assumes "publish_binary (Some t) (Some d) q r w = (ok, w')"
  defines "m \<equiv> \<lparr>bm_topic = t, bm_payload = d, bm_qos = q, bm_retain = r\<rparr>"
  shows "stream w' = stream w @ (if ok then filter data_message [m] else [])" "mqtt_inv w \<Longrightarrow> mqtt_inv w'"
    "ok \<longleftrightarrow> length (m_binaryMessages (mq w)) < m_highWater (mq w)"
  using assms
  by (auto simp: publish_binary_def Let_def call_lws_def on_mq_def stream_def mqtt_inv_def split: if_splits)

lemma keeps_status: "keeps w (publishStatusOnline w)" "keeps w (publishStatusOffline w)"
  unfolding publishStatusOnline_def publishStatusOffline_def
  using publish_stream [of TOPIC_STATUS "[1]" 1 True w] publish_stream [of TOPIC_STATUS "[0]" 1 True w]
  by (cases "publish_binary (Some TOPIC_STATUS) (Some [1]) 1 True w",
      cases "publish_binary (Some TOPIC_STATUS) (Some [0]) 1 True w",
      simp add: keeps_def data_message_def)+

lemma keeps_connect: "keeps w (snd (connect ok w))"
  by (simp add: connect_def keeps_call)

lemma keeps_reconnect: "keeps w (snd (reconnect now ok w))"
proof -
  let ?w = "on_mq (\<lambda>c. c\<lparr>m_reconnectPending := True\<rparr>) w"
  have "keeps w ?w" by (rule keeps_mq) simp_all
  then have "keeps w (snd (connect ok ?w))" by (rule keeps_trans) (rule keeps_connect)
  then show ?thesis
    using keeps_trans [OF _ keeps_back_off] by (auto simp: reconnect_def Let_def split: prod.split)
qed

lemma keeps_writeable: "onClientWriteAble wsi w = Inr w' \<Longrightarrow> keeps w w'"
  by (auto simp: onClientWriteAble_def Let_def keeps_def stream_def mqtt_inv_def call_lws_def
      split: if_splits list.splits)

lemma keeps_callback:
  assumes "callback_mqtt now wsi r w = Inr w'"
  shows "keeps w w'"
proof (cases r)
  case ConnectionError
  have "keeps w (on_mq (\<lambda>c. c\<lparr>mq_isConnected := False\<rparr>) w)" by (rule keeps_mq) simp_all
  then show ?thesis
    using assms ConnectionError keeps_trans [OF _ keeps_back_off]
    by (auto simp: callback_mqtt_def scheduleReconnect_def)
next
  case Closed
  have "keeps w (on_mq (\<lambda>c. removeWsiInstance ''app'' (c\<lparr>mq_isConnected := False\<rparr>)) w)"
    by (rule keeps_mq) (simp_all add: removeWsiInstance_def split: option.split)
  then show ?thesis
    using assms Closed keeps_trans [OF _ keeps_back_off]
    by (auto simp: callback_mqtt_def scheduleReconnect_def)
next
  case Established
  let ?f = "\<lambda>c. addWsiInstance ''app'' wsi (c\<lparr>mq_isConnected := True, m_reconnectPending := False,
      m_reconnectDelay := 1000, m_reconnectAt := time_point_max\<rparr>)"
  have "keeps w (on_mq ?f w)" by (rule keeps_mq) (simp_all add: addWsiInstance_def split: option.split)
  then have "keeps w (call_lws (OnWritable wsi) (publishStatusOnline (on_mq ?f w)))"
    by (intro keeps_trans [OF keeps_trans [OF _ keeps_status(1)] keeps_call]) simp_all
  then show ?thesis using assms Established by (simp add: callback_mqtt_def)
next
  case Writeable
  then show ?thesis using assms keeps_writeable by (simp add: callback_mqtt_def)
next
  case (Rx p)
  then show ?thesis using assms by (auto simp: callback_mqtt_def processMessage_def keeps_call split: if_splits)
next
  case Resend
  then show ?thesis using assms by (auto simp: callback_mqtt_def Let_def keeps_def stream_def mqtt_inv_def)
qed (use assms in \<open>auto simp: callback_mqtt_def keeps_call split: option.splits if_splits\<close>)

lemma keeps_service: "service e w = Inr w' \<Longrightarrow> keeps w w'"
proof (induction e w rule: service.induct)
  case (1 op ok w)
  have "keeps w (on_mq (\<lambda>c. c\<lparr>mq_context := True\<rparr>) w)" by (rule keeps_mq) simp_all
  then show ?case
    using 1 keeps_trans [OF _ keeps_connect] by (auto simp: notifyCallback_def Let_def)
qed (auto intro: keeps_callback)

lemma keeps_turn:
  assumes "mqtt_turn t w = Inr w'"
  shows "keeps w w'"
proof -
  obtain evs now ok where t: "t = (evs, now, ok)" by (cases t) auto
  obtain w1 where w1: "foldR service evs w = Inr w1" using assms by (auto simp: mqtt_turn_def t bindR_Inr_iff)
  have "keeps w w1" by (rule foldR_inv [where P = "keeps w", OF _ _ w1]) (auto intro: keeps_trans keeps_service)
  then show ?thesis
    using assms w1 keeps_trans [OF _ keeps_reconnect] by (auto simp: mqtt_turn_def t split: if_splits)
qed

section \<open>Properties\<close>

text \<open>What the other threads and the service thread do to the client, in any order; the result
  also has the messages \<open>publish_binary\<close> returned true for.\<close>

datatype mqtt_op = OpPublish BinaryMessage | OpTurn "service_event list \<times> int \<times> bool"

fun run_ops :: "mqtt_op list \<Rightarrow> mqtt_world \<Rightarrow> fault + BinaryMessage list \<times> mqtt_world" where
  "run_ops [] w = Inr ([], w)"
| "run_ops (OpPublish m # ops) w =
     (case publish_binary (Some (bm_topic m)) (Some (bm_payload m)) (bm_qos m) (bm_retain m) w of
        (ok, w1) \<Rightarrow> bindR (run_ops ops w1) (\<lambda>(ms, w2). Inr (if ok then m # ms else ms, w2)))"
| "run_ops (OpTurn t # ops) w = bindR (mqtt_turn t w) (run_ops ops)"

lemma run_ops_stream:
  assumes "run_ops ops w = Inr (ms, w')"
  shows "stream w' = stream w @ filter data_message ms" "mqtt_inv w \<Longrightarrow> mqtt_inv w'"
proof -
  have "stream w' = stream w @ filter data_message ms \<and> (mqtt_inv w \<longrightarrow> mqtt_inv w')"
    using assms
  proof (induction ops w arbitrary: ms rule: run_ops.induct)
    case (2 m ops w)
    obtain ok w1 where 1: "publish_binary (Some (bm_topic m)) (Some (bm_payload m)) (bm_qos m) (bm_retain m) w = (ok, w1)"
      by fastforce
    obtain ms' where ms': "run_ops ops w1 = Inr (ms', w')" "ms = (if ok then m # ms' else ms')"
      using 2(2) 1 by (auto simp: bindR_Inr_iff)
    have m: "\<lparr>bm_topic = bm_topic m, bm_payload = bm_payload m, bm_qos = bm_qos m, bm_retain = bm_retain m\<rparr> = m" by simp
    show ?case
      using 2(1) [OF 1 [symmetric], of ms'] ms' publish_stream [OF 1] unfolding m by auto
  next
    case (3 t ops w)
    obtain w1 where "mqtt_turn t w = Inr w1" "run_ops ops w1 = Inr (ms, w')" using 3(2) by (auto simp: bindR_Inr_iff)
    then show ?case using 3(1) [of w1 ms] keeps_turn [of t w w1] by (auto simp: keeps_def)
  qed simp
  then show "stream w' = stream w @ filter data_message ms" "mqtt_inv w \<Longrightarrow> mqtt_inv w'" by auto
qed

text \<open>C32: whatever publishers and the service thread do, the messages accepted by \<open>publish_binary\<close>
  are handed to the network once each and in order, the rest still being queued; at most a
  thousand messages are queued, and the reconnection delay stays between one and thirty seconds.\<close>

theorem mqtt_queue_fifo:
  assumes "run_ops ops (on_mq (mqtt_loadConfig cfg) mqtt_init) = Inr (ms, w)"
  shows "filter data_message (sent_messages (lws_calls w)) @ filter data_message (m_binaryMessages (mq w)) =
      filter data_message ms \<and>
    length (m_binaryMessages (mq w)) \<le> 1000 \<and> m_reconnectDelay (mq w) \<in> {1000..30000}"
proof -
  have "stream (on_mq (mqtt_loadConfig cfg) mqtt_init) = []" "mqtt_inv (on_mq (mqtt_loadConfig cfg) mqtt_init)"
    by (simp_all add: stream_def mqtt_inv_def on_mq_def mqtt_loadConfig_def mqtt_init_def MqttClient_ctor_def)
  then show ?thesis
    using run_ops_stream [OF assms] by (simp_all add: stream_def mqtt_inv_def)
qed

definition demo_mqtt_config :: mqtt_config where
  "demo_mqtt_config = \<lparr>mc_clientId = ''kuavo'', mc_username = [], mc_password = [], mc_broker = ''127.0.0.1'',
     mc_address = [], mc_host = [], mc_port = ''1883'', mc_mqttPort = [], mc_qos = 0, mc_robotId = 1,
     mc_topics = [''FRC_ROBOT'']\<rparr>"

definition demo_message :: BinaryMessage where
  "demo_message = \<lparr>bm_topic = ''robot/sensor/bin'', bm_payload = [1, 2], bm_qos = 0, bm_retain = False\<rparr>"

definition demo_ops :: "mqtt_op list" where
  "demo_ops = [OpTurn ([Notify True True, Callback 10 0 Established, Callback 11 0 Writeable], 12, True),
     OpPublish demo_message, OpTurn ([Callback 20 0 Writeable, Callback 21 0 Writeable], 22, True)]"

theorem mqtt_queue_fifo_witness:
  "\<exists>w. run_ops demo_ops (on_mq (mqtt_loadConfig demo_mqtt_config) mqtt_init) = Inr ([demo_message], w) \<and>
    filter data_message (sent_messages (lws_calls w)) = [demo_message] \<and> m_binaryMessages (mq w) = []"
proof -
  obtain w where w: "run_ops demo_ops (on_mq (mqtt_loadConfig demo_mqtt_config) mqtt_init) = Inr ([demo_message], w)"
    "m_binaryMessages (mq w) = []"
    by (simp add: demo_ops_def mqtt_turn_def mqtt_init_def on_mq_def mqtt_loadConfig_def MqttClient_ctor_def
        demo_mqtt_config_def notifyCallback_def connect_def call_lws_def callback_mqtt_def addWsiInstance_def
        publishStatusOnline_def publish_binary_def onClientWriteAble_def STATE_SUBSCRIBE_def STATE_PUBLISH_QOS0_def
        demo_message_def Let_def)
  have "data_message demo_message" by (simp add: data_message_def demo_message_def TOPIC_STATUS_def)
  then show ?thesis using mqtt_queue_fifo [OF w(1)] w by simp
qed

text \<open>If the first connection request is refused at once, the client never tries again: however
  long the service loop runs, no further request is made.\<close>

theorem mqtt_first_failure_final:
  fixes cfg :: mqtt_config
  assumes "\<forall>t \<in> set ts. fst t < time_point_max"
  defines "w0 \<equiv> notifyCallback True False (on_mq (mqtt_loadConfig cfg) mqtt_init)"
  shows "foldR mqtt_turn (map (\<lambda>(now, ok). ([], now, ok)) ts) w0 = Inr w0 \<and> \<not> mq_isConnected (mq w0) \<and>
    length (lws_calls w0) = 1"
proof -
  have "foldR mqtt_turn (map (\<lambda>(now, ok). ([], now, ok)) ts) w0 = Inr w0"
    using assms(1)
  proof (induction ts)
    case (Cons t ts)
    have "m_reconnectAt (mq w0) = time_point_max"
      by (simp add: w0_def notifyCallback_def connect_def call_lws_def on_mq_def mqtt_loadConfig_def mqtt_init_def
          MqttClient_ctor_def Let_def)
    then have "mqtt_turn ([], fst t, snd t) w0 = Inr w0" using Cons.prems by (cases t) (simp add: mqtt_turn_def)
    then show ?case using Cons by (simp add: case_prod_beta)
  qed simp
  then show ?thesis
    by (simp add: w0_def notifyCallback_def connect_def call_lws_def on_mq_def mqtt_loadConfig_def mqtt_init_def
        MqttClient_ctor_def Let_def)
qed

theorem mqtt_first_failure_final_witness:
  "foldR mqtt_turn [([], 1000000000000, True), ([], 2000000000000, True)]
      (notifyCallback True False (on_mq (mqtt_loadConfig demo_mqtt_config) mqtt_init)) =
    Inr (notifyCallback True False (on_mq (mqtt_loadConfig demo_mqtt_config) mqtt_init))"
  using mqtt_first_failure_final [of "[(1000000000000, True), (2000000000000, True)]" demo_mqtt_config]
  by (simp add: time_point_max_def)

end
