(* ===== verification/Synchronization.thy ===== *)
theory Synchronization
  imports Prelude
begin

text \<open>
  \<open>lib/common/Synchronization.cpp\<close> and \<open>lib/ds/EventVector.h\<close>: events and semaphores as handles of
  a process-wide table, and waiting for them.  Every operation runs under the table's mutex.  A
  thread is a number, which also stands for the condition variable on its stack while it waits;
  notifying a condition variable is putting its thread into a set.
\<close>

section \<open>The table of handles\<close>

type_synonym handle = u32

definition kHandleTypeEvent :: u32 where "kHandleTypeEvent = 1"
definition kHandleTypeSemaphore :: u32 where "kHandleTypeSemaphore = 2"

record sync_state =
  signaled :: int
  autoReset :: bool
  sy_waiters :: "nat list"

definition sync_state_zero :: sync_state where
  "sync_state_zero = \<lparr>signaled = 0, autoReset = False, sy_waiters = []\<rparr>"

record HandleManager =
  eventIds :: "int list"
  semaphoreIds :: "int list"
  hm_states :: "handle \<rightharpoonup> sync_state"
  gShutdown :: bool

definition HandleManager_init :: HandleManager where
  "HandleManager_init = \<lparr>eventIds = [], semaphoreIds = [], hm_states = Map.empty, gShutdown = False\<rparr>"

text \<open>\<open>manager.states[handle]\<close> makes an entry when there is none.\<close>

definition state_at :: "HandleManager \<Rightarrow> handle \<Rightarrow> sync_state" where
  "state_at m h = (case hm_states m h of Some s \<Rightarrow> s | None \<Rightarrow> sync_state_zero)"

definition put_entry :: "handle \<Rightarrow> sync_state \<Rightarrow> HandleManager \<Rightarrow> HandleManager" where
  "put_entry h s m = m\<lparr>hm_states := (hm_states m)(h \<mapsto> s)\<rparr>"

definition make_handle :: "u32 \<Rightarrow> nat \<Rightarrow> handle" where
  "make_handle ty index = push_bit 24 ty OR (of_nat index AND 0xffffff)"

definition handle_type :: "handle \<Rightarrow> u32" where
  "handle_type h = drop_bit 24 h"

section \<open>Operations\<close>

definition createEvent :: "bool \<Rightarrow> bool \<Rightarrow> HandleManager \<Rightarrow> handle \<times> HandleManager" where
  "createEvent manualReset initialState m =
     (if gShutdown m then (0, m)
      else let h = make_handle kHandleTypeEvent (length (eventIds m)); m1 = m\<lparr>eventIds := eventIds m @ [0]\<rparr>
           in (h, put_entry h ((state_at m1 h)\<lparr>signaled := of_bool initialState, autoReset := \<not> manualReset\<rparr>) m1))"

text \<open>Operations that notify also return the threads notified.\<close>

definition destroySignalObject :: "handle \<Rightarrow> HandleManager \<Rightarrow> nat list \<times> HandleManager" where
  "destroySignalObject h m =
     (if gShutdown m then ([], m)
      else case hm_states m h of
          None \<Rightarrow> ([], m) | Some s \<Rightarrow> (sy_waiters s, m\<lparr>hm_states := (hm_states m)(h := None)\<rparr>))"

text \<open>The handle is then looked for among the identifiers of the events, which are all zero.\<close>

definition destroyEvent :: "handle \<Rightarrow> HandleManager \<Rightarrow> nat list \<times> HandleManager" where
  "destroyEvent h m =
     (if handle_type h \<noteq> kHandleTypeEvent then ([], m)
      else let (ws, m1) = destroySignalObject h m
           in if gShutdown m1 then (ws, m1) else (ws, m1\<lparr>eventIds := remove1 (uint h) (eventIds m1)\<rparr>))"

definition setSignalObject :: "handle \<Rightarrow> HandleManager \<Rightarrow> nat list \<times> HandleManager" where
  "setSignalObject h m =
     (if gShutdown m then ([], m)
      else case hm_states m h of
          None \<Rightarrow> ([], m)
        | Some s \<Rightarrow> (if autoReset s then take 1 (sy_waiters s) else sy_waiters s, put_entry h (s\<lparr>signaled := 1\<rparr>) m))"

definition setEvent :: "handle \<Rightarrow> HandleManager \<Rightarrow> nat list \<times> HandleManager" where
  "setEvent h m = (if handle_type h \<noteq> kHandleTypeEvent then ([], m) else setSignalObject h m)"

definition resetSignalObject :: "handle \<Rightarrow> HandleManager \<Rightarrow> HandleManager" where
  "resetSignalObject h m =
     (if gShutdown m then m
      else case hm_states m h of None \<Rightarrow> m | Some s \<Rightarrow> put_entry h (s\<lparr>signaled := 0\<rparr>) m)"

definition resetEvent :: "handle \<Rightarrow> HandleManager \<Rightarrow> HandleManager" where
  "resetEvent h m = (if handle_type h \<noteq> kHandleTypeEvent then m else resetSignalObject h m)"

definition createSignalObject :: "handle \<Rightarrow> bool \<Rightarrow> bool \<Rightarrow> HandleManager \<Rightarrow> HandleManager" where
  "createSignalObject h manualReset initialState m =
     (if gShutdown m then m
      else put_entry h ((state_at m h)\<lparr>signaled := of_bool initialState, autoReset := \<not> manualReset\<rparr>) m)"

definition createSemaphore :: "int \<Rightarrow> int \<Rightarrow> HandleManager \<Rightarrow> handle \<times> HandleManager" where
  "createSemaphore initialCount maximumCount m =
     (if gShutdown m then (0, m)
      else let h = make_handle kHandleTypeSemaphore (length (semaphoreIds m));
               m1 = m\<lparr>semaphoreIds := semaphoreIds m @ [maximumCount]\<rparr>
           in (h, put_entry h ((state_at m1 h)\<lparr>signaled := initialCount, autoReset := True\<rparr>) m1))"

definition destroySemaphore :: "handle \<Rightarrow> HandleManager \<Rightarrow> nat list \<times> HandleManager" where
  "destroySemaphore h m =
     (if handle_type h \<noteq> kHandleTypeSemaphore then ([], m)
      else let (ws, m1) = destroySignalObject h m
           in if gShutdown m1 then (ws, m1) else (ws, m1\<lparr>eventIds := remove1 (uint h) (eventIds m1)\<rparr>))"

text \<open>The result, the previous count when it was stored, the threads notified, and the table.\<close>

definition releaseSemaphore :: "handle \<Rightarrow> int \<Rightarrow> HandleManager \<Rightarrow> fault + bool \<times> int option \<times> nat list \<times> HandleManager" where
  "releaseSemaphore h releaseCount m =
     (if handle_type h \<noteq> kHandleTypeSemaphore then Inr (False, None, [], m)
      else if releaseCount \<le> 0 then Inr (False, None, [], m)
      else let index = unat (h AND 0xffffff)
           in if gShutdown m then Inr (True, None, [], m)
              else case hm_states m h of
                  None \<Rightarrow> Inr (False, None, [], m)
                | Some s \<Rightarrow> bindR (arr_get (eventIds m) index) (\<lambda>maxCount.
                    if maxCount - signaled s < releaseCount then Inr (False, Some (signaled s), [], m)
                    else Inr (True, Some (signaled s), sy_waiters s,
                              put_entry h (s\<lparr>signaled := signaled s + releaseCount\<rparr>) m)))"

section \<open>Waiting\<close>

text \<open>
  A call of \<open>waitForObjects\<close> that has to wait keeps its arguments: the handles, the size of the
  output array, the timeout and whether it has entered itself into the lists of waiters.
\<close>

record wait_frame =
  wf_handles :: "handle list"
  wf_size :: nat
  wf_timeout :: double
  wf_added :: bool

datatype wait_result = Blocked wait_frame | Finished "handle list" bool

definition scan_handle :: "nat \<Rightarrow> handle \<Rightarrow> handle list \<times> HandleManager \<Rightarrow> handle list \<times> HandleManager" where
  "scan_handle cap h = (\<lambda>(sig, m).
     case hm_states m h of
       None \<Rightarrow> (if length sig < cap then sig @ [h OR 0x80000000] else sig, m)
     | Some s \<Rightarrow>
         if 0 < signaled s
         then (if length sig < cap then sig @ [h] else sig,
               if autoReset s then put_entry h (s\<lparr>signaled := max 0 (signaled s - 1)\<rparr>) m else m)
         else (sig, m))"

definition add_waiter :: "nat \<Rightarrow> handle \<Rightarrow> HandleManager \<Rightarrow> HandleManager" where
  "add_waiter me h m = put_entry h ((state_at m h)\<lparr>sy_waiters := sy_waiters (state_at m h) @ [me]\<rparr>) m"

definition remove_waiter :: "nat \<Rightarrow> handle \<Rightarrow> HandleManager \<Rightarrow> HandleManager" where
  "remove_waiter me h m = put_entry h ((state_at m h)\<lparr>sy_waiters := remove1 me (sy_waiters (state_at m h))\<rparr>) m"

text \<open>One round of the loop, with whether the wait before it timed out.\<close>

definition wait_round :: "bool \<Rightarrow> nat \<Rightarrow> wait_frame \<Rightarrow> HandleManager \<Rightarrow> wait_result \<times> HandleManager" where
  "wait_round timedOutVal me f m =
     (let (sig, m1) = fold (scan_handle (wf_size f)) (wf_handles f) ([], m);
          leave = (\<lambda>b. (Finished sig b, if wf_added f then fold (remove_waiter me) (wf_handles f) m1 else m1))
      in if timedOutVal \<or> sig \<noteq> [] then leave timedOutVal
         else if deq (wf_timeout f) (Fin 0) then leave True
         else (Blocked (f\<lparr>wf_added := True\<rparr>), if wf_added f then m1 else fold (add_waiter me) (wf_handles f) m1))"

definition waitForObjects :: "nat \<Rightarrow> handle list \<Rightarrow> nat \<Rightarrow> double \<Rightarrow> HandleManager \<Rightarrow> wait_result \<times> HandleManager" where
  "waitForObjects me hs cap timeout m =
     (if gShutdown m then (Finished [] False, m)
      else wait_round False me \<lparr>wf_handles = hs, wf_size = cap, wf_timeout = timeout, wf_added = False\<rparr> m)"

definition wait_value :: "handle list \<Rightarrow> bool" where
  "wait_value sig = (case sig of [] \<Rightarrow> False | h # _ \<Rightarrow> h AND 0x80000000 = 0)"

definition waitForObject :: "nat \<Rightarrow> handle \<Rightarrow> double \<Rightarrow> HandleManager \<Rightarrow> wait_result \<times> HandleManager" where
  "waitForObject me h timeout m = waitForObjects me [h] 1 timeout m"

section \<open>Event vectors\<close>

definition ev_add :: "handle \<Rightarrow> handle list \<Rightarrow> handle list" where
  "ev_add h events = events @ [h]"

definition ev_remove :: "handle \<Rightarrow> handle list \<Rightarrow> handle list" where
  "ev_remove h events = remove1 h events"

fun ev_wakeup :: "handle list \<Rightarrow> HandleManager \<Rightarrow> nat list \<times> HandleManager" where
  "ev_wakeup [] m = ([], m)"
| "ev_wakeup (h # hs) m = (let (ws, m1) = setEvent h m; (ws', m2) = ev_wakeup hs m1 in (ws @ ws', m2))"

section \<open>Threads\<close>

text \<open>
  The table with the threads that are blocked in a wait, those of them whose condition variable was
  notified since, and the results of the waits that returned.  A notified thread, and by a spurious
  wake-up any blocked thread, runs another round; a thread with a timeout may time out.  Static
  destruction, which sets \<open>gShutdown\<close>, is not a step.  A wait comes with distinct handles and an
  output array at least their number, as the interface asks, and at most \<open>2 ^ 24\<close> events and
  semaphores each are made, the number of indices a handle has room for.
\<close>

record sync_sys =
  sy_mgr :: HandleManager
  sy_frames :: "nat \<rightharpoonup> wait_frame"
  sy_woken :: "nat set"
  sy_returned :: "(nat \<times> handle list \<times> bool) list"

definition sync_sys_init :: sync_sys where
  "sync_sys_init = \<lparr>sy_mgr = HandleManager_init, sy_frames = Map.empty, sy_woken = {}, sy_returned = []\<rparr>"

datatype sync_op =
  OpCreateEvent bool bool | OpDestroyEvent handle | OpSetEvent handle | OpResetEvent handle |
  OpCreateSemaphore int int | OpDestroySemaphore handle | OpReleaseSemaphore handle int |
  OpWait nat "handle list" nat double | OpWake nat | OpExpire nat

definition notified :: "nat list \<times> HandleManager \<Rightarrow> sync_sys \<Rightarrow> sync_sys" where
  "notified r s = s\<lparr>sy_mgr := snd r, sy_woken := sy_woken s \<union> set (fst r)\<rparr>"

definition settle :: "nat \<Rightarrow> wait_result \<times> HandleManager \<Rightarrow> sync_sys \<Rightarrow> sync_sys" where
  "settle t r s =
     (case fst r of
        Blocked f \<Rightarrow> s\<lparr>sy_mgr := snd r, sy_frames := (sy_frames s)(t \<mapsto> f), sy_woken := sy_woken s - {t}\<rparr>
      | Finished sig b \<Rightarrow> s\<lparr>sy_mgr := snd r, sy_frames := (sy_frames s)(t := None), sy_woken := sy_woken s - {t},
          sy_returned := sy_returned s @ [(t, sig, b)]\<rparr>)"

inductive sync_step :: "sync_sys \<Rightarrow> sync_op \<Rightarrow> sync_sys \<Rightarrow> bool" where
  "length (eventIds (sy_mgr s)) < 2 ^ 24 \<Longrightarrow>
     sync_step s (OpCreateEvent manual init) (s\<lparr>sy_mgr := snd (createEvent manual init (sy_mgr s))\<rparr>)"
| "sync_step s (OpDestroyEvent h) (notified (destroyEvent h (sy_mgr s)) s)"
| "sync_step s (OpSetEvent h) (notified (setEvent h (sy_mgr s)) s)"
| "sync_step s (OpResetEvent h) (s\<lparr>sy_mgr := resetEvent h (sy_mgr s)\<rparr>)"
| "length (semaphoreIds (sy_mgr s)) < 2 ^ 24 \<Longrightarrow>
     sync_step s (OpCreateSemaphore n mx) (s\<lparr>sy_mgr := snd (createSemaphore n mx (sy_mgr s))\<rparr>)"
| "sync_step s (OpDestroySemaphore h) (notified (destroySemaphore h (sy_mgr s)) s)"
| "releaseSemaphore h n (sy_mgr s) = Inr (b, prev, ws, m) \<Longrightarrow>
     sync_step s (OpReleaseSemaphore h n) (notified (ws, m) s)"
| "sy_frames s t = None \<Longrightarrow> distinct hs \<Longrightarrow> length hs \<le> cap \<Longrightarrow> 0 < cap \<Longrightarrow>
     sync_step s (OpWait t hs cap timeout) (settle t (waitForObjects t hs cap timeout (sy_mgr s)) s)"
| "sy_frames s t = Some f \<Longrightarrow> sync_step s (OpWake t) (settle t (wait_round False t f (sy_mgr s)) s)"
| "sy_frames s t = Some f \<Longrightarrow> dlt (Fin 0) (wf_timeout f) \<Longrightarrow>
     sync_step s (OpExpire t) (settle t (wait_round True t f (sy_mgr s)) s)"

inductive_cases sync_stepE: "sync_step s op s'"

inductive sync_run :: "sync_sys \<Rightarrow> sync_op list \<Rightarrow> sync_sys \<Rightarrow> bool" where
  "sync_run s [] s"
| "sync_run s ops s1 \<Longrightarrow> sync_step s1 op s2 \<Longrightarrow> sync_run s (ops @ [op]) s2"

section \<open>What a scan does\<close>

text \<open>What has become of an entry after a scan.\<close>

definition scanned :: "bool \<Rightarrow> sync_state \<Rightarrow> sync_state \<Rightarrow> bool" where
  "scanned seen s s' \<longleftrightarrow> sy_waiters s' = sy_waiters s \<and> autoReset s' = autoReset s \<and>
     signaled s' \<le> signaled s \<and> (\<not> seen \<longrightarrow> s' = s) \<and> (\<not> autoReset s \<longrightarrow> s' = s) \<and>
     (seen \<and> autoReset s \<and> signaled s \<le> 1 \<longrightarrow> signaled s' \<le> 0)"

lemma scanned_trans: "scanned b s s1 \<Longrightarrow> scanned c s1 s2 \<Longrightarrow> scanned (b \<or> c) s s2"
  unfolding scanned_def by auto

lemma scan_one:
  assumes "scan_handle cap a (sig, m) = (sig1, m1)"
  shows "dom (hm_states m1) = dom (hm_states m) \<and> eventIds m1 = eventIds m \<and> semaphoreIds m1 = semaphoreIds m \<and>
    gShutdown m1 = gShutdown m \<and> (\<forall>h s. hm_states m h = Some s \<longrightarrow> (\<exists>s1. hm_states m1 h = Some s1 \<and> scanned (h = a) s s1))"
  using assms
  by (cases "hm_states m a") (auto simp: scan_handle_def put_entry_def scanned_def split: if_splits)

lemma scan_lower:
  assumes "fold (scan_handle cap) hs (sig, m) = (sig', m')"
  shows "dom (hm_states m') = dom (hm_states m) \<and> eventIds m' = eventIds m \<and> semaphoreIds m' = semaphoreIds m \<and>
    gShutdown m' = gShutdown m \<and>
    (\<forall>h s. hm_states m h = Some s \<longrightarrow> (\<exists>s'. hm_states m' h = Some s' \<and> scanned (h \<in> set hs) s s'))"
  using assms
proof (induction hs arbitrary: sig m)
  case (Cons a hs)
  obtain sig1 m1 where 1: "scan_handle cap a (sig, m) = (sig1, m1)" by fastforce
  have 2: "fold (scan_handle cap) hs (sig1, m1) = (sig', m')" using Cons.prems 1 by simp
  note o = scan_one [OF 1] and IH = Cons.IH [OF 2]
  have "\<exists>s'. hm_states m' h = Some s' \<and> scanned (h \<in> set (a # hs)) s s'" if "hm_states m h = Some s" for h s
  proof -
    obtain s1 where s1: "hm_states m1 h = Some s1" "scanned (h = a) s s1" using o \<open>hm_states m h = Some s\<close> by blast
    obtain s' where "hm_states m' h = Some s'" "scanned (h \<in> set hs) s1 s'" using IH s1(1) by blast
    then show ?thesis using scanned_trans [OF s1(2)] by auto
  qed
  then show ?case using o IH by simp
qed (auto simp: scanned_def)

lemma scan_grows: "fold (scan_handle cap) hs (sig, m) = (sig', m') \<Longrightarrow> \<exists>new. sig' = sig @ new"
proof (induction hs arbitrary: sig m)
  case (Cons a hs)
  obtain sig1 m1 where 1: "scan_handle cap a (sig, m) = (sig1, m1)" by fastforce
  then have "\<exists>new. sig1 = sig @ new" by (auto simp: scan_handle_def split: option.splits if_splits)
  then show ?case using Cons.IH [of sig1 m1] Cons.prems 1 by auto
qed simp

lemma scan_nothing:
  assumes "fold (scan_handle cap) hs ([], m) = ([], m')" "0 < cap"
  shows "m' = m \<and> (\<forall>h \<in> set hs. \<exists>s. hm_states m h = Some s \<and> signaled s \<le> 0)"
  using assms(1)
proof (induction hs)
  case (Cons a hs)
  obtain sig1 m1 where 1: "scan_handle cap a ([], m) = (sig1, m1)" by fastforce
  then have 2: "fold (scan_handle cap) hs (sig1, m1) = ([], m')" using Cons.prems by simp
  then have "sig1 = []" using scan_grows by fastforce
  then have "m1 = m" "\<exists>s. hm_states m a = Some s \<and> signaled s \<le> 0"
    using 1 assms(2) by (auto simp: scan_handle_def split: option.splits if_splits)
  then show ?case using Cons.IH 2 \<open>sig1 = []\<close> by auto
qed simp

lemma add_waiters:
  assumes "distinct hs"
  shows "hm_states (fold (add_waiter t) hs m) =
      (\<lambda>h. if h \<in> set hs then Some ((state_at m h)\<lparr>sy_waiters := sy_waiters (state_at m h) @ [t]\<rparr>) else hm_states m h) \<and>
    eventIds (fold (add_waiter t) hs m) = eventIds m \<and> semaphoreIds (fold (add_waiter t) hs m) = semaphoreIds m \<and>
    gShutdown (fold (add_waiter t) hs m) = gShutdown m"
  using assms
  by (induction hs arbitrary: m) (auto simp: add_waiter_def put_entry_def state_at_def fun_eq_iff)

lemma remove_waiters:
  assumes "distinct hs"
  shows "hm_states (fold (remove_waiter t) hs m) =
      (\<lambda>h. if h \<in> set hs then Some ((state_at m h)\<lparr>sy_waiters := remove1 t (sy_waiters (state_at m h))\<rparr>) else hm_states m h) \<and>
    eventIds (fold (remove_waiter t) hs m) = eventIds m \<and> semaphoreIds (fold (remove_waiter t) hs m) = semaphoreIds m \<and>
    gShutdown (fold (remove_waiter t) hs m) = gShutdown m"
  using assms
  by (induction hs arbitrary: m) (auto simp: remove_waiter_def put_entry_def state_at_def fun_eq_iff)

section \<open>The invariant\<close>

text \<open>A handle that was given out: its index is below the number of handles of its type.\<close>

definition made :: "HandleManager \<Rightarrow> handle \<Rightarrow> bool" where
  "made m h \<longleftrightarrow> handle_type h = kHandleTypeEvent \<and> unat (h AND 0xffffff) < length (eventIds m) \<or>
     handle_type h = kHandleTypeSemaphore \<and> unat (h AND 0xffffff) < length (semaphoreIds m)"

text \<open>The waiters that must have been notified while an entry is signaled.\<close>

definition due :: "handle \<Rightarrow> sync_state \<Rightarrow> nat list" where
  "due h st = (if handle_type h = kHandleTypeEvent \<and> autoReset st then take 1 (sy_waiters st) else sy_waiters st)"

definition slot_ok :: "sync_sys \<Rightarrow> handle \<Rightarrow> sync_state \<Rightarrow> bool" where
  "slot_ok s h st \<longleftrightarrow> made (sy_mgr s) h \<and> distinct (sy_waiters st) \<and>
     (\<forall>t \<in> set (sy_waiters st). \<exists>f. sy_frames s t = Some f \<and> h \<in> set (wf_handles f)) \<and>
     (handle_type h = kHandleTypeEvent \<longrightarrow> signaled st \<le> 1) \<and>
     (0 < signaled st \<longrightarrow> set (due h st) \<subseteq> sy_woken s)"

definition frame_ok :: "HandleManager \<Rightarrow> wait_frame \<Rightarrow> bool" where
  "frame_ok m f \<longleftrightarrow> wf_added f \<and> 0 < wf_size f \<and> length (wf_handles f) \<le> wf_size f \<and> distinct (wf_handles f) \<and> (\<forall>h \<in> set (wf_handles f). made m h)"

definition sync_wf :: "sync_sys \<Rightarrow> bool" where
  "sync_wf s \<longleftrightarrow> \<not> gShutdown (sy_mgr s) \<and> set (eventIds (sy_mgr s)) \<subseteq> {0} \<and>
     (\<forall>h st. hm_states (sy_mgr s) h = Some st \<longrightarrow> slot_ok s h st) \<and>
     (\<forall>t f. sy_frames s t = Some f \<longrightarrow> frame_ok (sy_mgr s) f)"

lemma made_cong: "eventIds m' = eventIds m \<Longrightarrow> semaphoreIds m' = semaphoreIds m \<Longrightarrow> made m' = made m"
  by (simp add: made_def fun_eq_iff)

lemma due_subset: "set (due h st) \<subseteq> set (sy_waiters st)"
  by (auto simp: due_def dest: in_set_takeD)

lemma settle_blocked_wf:
  assumes wf: "sync_wf s"
    and fr: "sy_frames s t = (if wf_added f then Some f else None)" "0 < wf_size f" "distinct (wf_handles f)"
      "length (wf_handles f) \<le> wf_size f"
    and quiet: "\<forall>h \<in> set (wf_handles f). \<exists>st. hm_states (sy_mgr s) h = Some st \<and> signaled st \<le> 0"
  shows "sync_wf (settle t (Blocked (f\<lparr>wf_added := True\<rparr>),
    if wf_added f then sy_mgr s else fold (add_waiter t) (wf_handles f) (sy_mgr s)) s)" (is "sync_wf ?s")
proof -
  let ?m = "sy_mgr s"
  note a = add_waiters [OF fr(3), of t ?m]
  have mk: "made (sy_mgr ?s) = made ?m" using a by (intro made_cong) (auto simp: settle_def)
  have others: "t \<notin> set (sy_waiters st)" if "hm_states ?m h = Some st" "\<not> wf_added f \<or> h \<notin> set (wf_handles f)" for h st
    using wf fr(1) that by (fastforce simp: sync_wf_def slot_ok_def split: if_splits)
  have slots: "slot_ok ?s h st" if st: "hm_states (sy_mgr ?s) h = Some st" for h st
  proof (cases "\<not> wf_added f \<and> h \<in> set (wf_handles f)")
    case True
    then obtain st0 where st0: "hm_states ?m h = Some st0" "signaled st0 \<le> 0" using quiet by blast
    have e: "st = st0\<lparr>sy_waiters := sy_waiters st0 @ [t]\<rparr>"
      using st True a by (simp add: settle_def state_at_def st0(1))
    have ok: "slot_ok s h st0" using wf st0(1) by (simp add: sync_wf_def)
    have new: "t \<notin> set (sy_waiters st0)" using others [OF st0(1)] True by simp
    have "\<exists>f'. sy_frames ?s u = Some f' \<and> h \<in> set (wf_handles f')" if "u \<in> set (sy_waiters st)" for u
    proof (cases "u = t")
      case True
      then show ?thesis using \<open>\<not> wf_added f \<and> h \<in> set (wf_handles f)\<close> by (simp add: settle_def)
    next
      case False
      then have "u \<in> set (sy_waiters st0)" using \<open>u \<in> set (sy_waiters st)\<close> by (simp add: e)
      then show ?thesis using ok False by (simp add: slot_ok_def settle_def)
    qed
    moreover have "made ?m h" "distinct (sy_waiters st)" "\<not> 0 < signaled st"
      using ok new st0(2) by (simp_all add: slot_ok_def e)
    ultimately show ?thesis by (simp add: slot_ok_def mk)
  next
    case False
    then have st1: "hm_states ?m h = Some st" using st a by (cases "wf_added f") (auto simp: settle_def)
    then have ok: "slot_ok s h st" using wf by (simp add: sync_wf_def)
    have "t \<notin> set (due h st)" if "0 < signaled st"
    proof -
      have "h \<notin> set (wf_handles f)" using quiet st1 that by fastforce
      then show ?thesis using others [OF st1] due_subset [of h st] by auto
    qed
    moreover have "\<exists>f'. sy_frames ?s u = Some f' \<and> h \<in> set (wf_handles f')" if "u \<in> set (sy_waiters st)" for u
    proof -
      obtain f' where f': "sy_frames s u = Some f'" "h \<in> set (wf_handles f')" using ok \<open>u \<in> _\<close> by (auto simp: slot_ok_def)
      show ?thesis
        using f' fr(1) by (cases "u = t") (auto simp: settle_def split: if_splits)
    qed
    moreover have "sy_woken ?s = sy_woken s - {t}" by (simp add: settle_def)
    ultimately show ?thesis using ok by (auto simp: slot_ok_def mk)
  qed
  have "frame_ok (sy_mgr ?s) f'" if "sy_frames ?s u = Some f'" for u f'
  proof (cases "u = t")
    case True
    have "made ?m h" if "h \<in> set (wf_handles f)" for h
      using quiet that wf by (fastforce simp: sync_wf_def slot_ok_def)
    then show ?thesis using that True fr(2-4) by (auto simp: settle_def frame_ok_def mk [unfolded settle_def, simplified])
  next
    case False
    then show ?thesis using that wf by (simp add: sync_wf_def frame_ok_def mk) (simp add: settle_def)
  qed
  moreover have "\<not> gShutdown (sy_mgr ?s) \<and> set (eventIds (sy_mgr ?s)) \<subseteq> {0}"
    using wf a by (simp add: sync_wf_def settle_def)
  ultimately show ?thesis using slots by (simp add: sync_wf_def)
qed

lemma settle_finished_wf:
  assumes wf: "sync_wf s"
    and fr: "sy_frames s t = (if wf_added f then Some f else None)" "distinct (wf_handles f)"
    and scan: "fold (scan_handle cap) (wf_handles f) ([], sy_mgr s) = (sig, m1)"
  shows "sync_wf (settle t (Finished sig b,
    if wf_added f then fold (remove_waiter t) (wf_handles f) m1 else m1) s)" (is "sync_wf ?s")
proof -
  let ?m = "sy_mgr s" and ?hs = "wf_handles f"
  note a = remove_waiters [OF fr(2), of t m1] and l = scan_lower [OF scan]
  have mk: "made (sy_mgr ?s) = made ?m" using a l by (intro made_cong) (auto simp: settle_def)
  have slots: "slot_ok ?s h st" if st: "hm_states (sy_mgr ?s) h = Some st" for h st
  proof -
    have m2: "hm_states (sy_mgr ?s) h = (if wf_added f \<and> h \<in> set ?hs
        then Some ((state_at m1 h)\<lparr>sy_waiters := remove1 t (sy_waiters (state_at m1 h))\<rparr>) else hm_states m1 h)"
      using a by (simp add: settle_def)
    show ?thesis
    proof (cases "hm_states m1 h")
      case None
      then have "wf_added f" "h \<in> set ?hs" "st = sync_state_zero"
        using st m2 by (auto simp: state_at_def sync_state_zero_def split: if_splits)
      then have "made ?m h" using wf fr(1) by (simp add: sync_wf_def frame_ok_def)
      then show ?thesis
        by (simp add: slot_ok_def mk \<open>st = sync_state_zero\<close> sync_state_zero_def due_def)
    next
      case (Some st1)
      then obtain st0 where st0: "hm_states ?m h = Some st0" using l by (metis domIff option.distinct(1) option.exhaust)
      then have sc: "scanned (h \<in> set ?hs) st0 st1" using l Some by force
      have ok: "slot_ok s h st0" using wf st0 by (simp add: sync_wf_def)
      have ws: "sy_waiters st = (if wf_added f \<and> h \<in> set ?hs then remove1 t (sy_waiters st0) else sy_waiters st0)"
        "signaled st = signaled st1" "autoReset st = autoReset st0"
        using st m2 Some sc by (auto simp: state_at_def scanned_def split: if_splits)
      have gone: "t \<notin> set (sy_waiters st)"
      proof (cases "wf_added f \<and> h \<in> set ?hs")
        case True
        then show ?thesis using ok by (simp add: ws(1) slot_ok_def)
      next
        case False
        have "\<exists>f'. sy_frames s t = Some f' \<and> h \<in> set (wf_handles f')" if "t \<in> set (sy_waiters st0)"
          using ok that by (simp add: slot_ok_def)
        then show ?thesis using False fr(1) by (auto simp: ws(1) split: if_splits)
      qed
      have sub: "set (sy_waiters st) \<subseteq> set (sy_waiters st0)" using set_remove1_subset [of t "sy_waiters st0"] by (simp add: ws(1))
      have "\<exists>f'. sy_frames ?s u = Some f' \<and> h \<in> set (wf_handles f')" if "u \<in> set (sy_waiters st)" for u
      proof -
        have "u \<in> set (sy_waiters st0)" "u \<noteq> t" using that sub gone by auto
        then show ?thesis using ok by (simp add: slot_ok_def settle_def)
      qed
      moreover have "distinct (sy_waiters st)" using ok by (simp add: ws(1) slot_ok_def)
      moreover have "handle_type h = kHandleTypeEvent \<longrightarrow> signaled st \<le> 1"
        using ok sc by (auto simp: slot_ok_def scanned_def ws(2))
      moreover have "set (due h st) \<subseteq> sy_woken ?s" if pos: "0 < signaled st"
      proof -
        have pos0: "0 < signaled st0" using pos sc by (simp add: ws(2) scanned_def)
        have "set (due h st) \<subseteq> set (due h st0)"
        proof (cases "handle_type h = kHandleTypeEvent \<and> autoReset st0")
          case True
          then have "h \<notin> set ?hs" using ok pos sc by (auto simp: slot_ok_def scanned_def ws(2))
          then show ?thesis by (simp add: due_def ws)
        qed (use sub in \<open>auto simp: due_def ws\<close>)
        also have "\<dots> \<subseteq> sy_woken s" using ok pos0 by (simp add: slot_ok_def)
        finally show ?thesis using gone due_subset [of h st] by (auto simp: settle_def)
      qed
      ultimately show ?thesis using ok by (simp add: slot_ok_def mk)
    qed
  qed
  have "frame_ok (sy_mgr ?s) f'" if "sy_frames ?s u = Some f'" for u f'
    using that wf by (cases "u = t") (simp_all add: sync_wf_def frame_ok_def mk, simp_all add: settle_def)
  moreover have "\<not> gShutdown (sy_mgr ?s) \<and> set (eventIds (sy_mgr ?s)) \<subseteq> {0}"
    using wf a l by (simp add: sync_wf_def settle_def)
  ultimately show ?thesis using slots by (simp add: sync_wf_def)
qed

lemma wait_round_wf:
  assumes wf: "sync_wf s"
    and fr: "sy_frames s t = (if wf_added f then Some f else None)" "0 < wf_size f" "distinct (wf_handles f)"
      "length (wf_handles f) \<le> wf_size f"
  shows "sync_wf (settle t (wait_round b t f (sy_mgr s)) s)"
proof -
  obtain sig m1 where scan: "fold (scan_handle (wf_size f)) (wf_handles f) ([], sy_mgr s) = (sig, m1)" by fastforce
  note fin = settle_finished_wf [OF wf fr(1,3) scan]
  show ?thesis
  proof (cases "b \<or> sig \<noteq> [] \<or> deq (wf_timeout f) (Fin 0)")
    case True
    then show ?thesis using fin by (auto simp: wait_round_def scan)
  next
    case False
    then have q: "m1 = sy_mgr s" "\<forall>h \<in> set (wf_handles f). \<exists>st. hm_states (sy_mgr s) h = Some st \<and> signaled st \<le> 0"
      using scan_nothing [of "wf_size f" "wf_handles f" "sy_mgr s" m1] scan fr(2) by auto
    show ?thesis using settle_blocked_wf [OF wf fr q(2)] False by (simp add: wait_round_def scan q(1))
  qed
qed

lemma made_handle:
  assumes "n < 2 ^ 24" "ty = 1 \<or> ty = 2"
  shows "handle_type (make_handle ty n) = ty" "unat (make_handle ty n AND 0xffffff) = n"
proof -
  have m: "(0xffffff :: u32) = mask 24" by (simp add: mask_eq_exp_minus_1)
  have u: "unat (of_nat n :: u32) = n" unfolding unat_of_nat by (rule mod_less) (use assms(1) in simp)
  have t: "unat ((of_nat n :: u32) AND mask 24) = n"
    using assms(1) u by (simp add: take_bit_eq_mask [symmetric] unsigned_take_bit_eq take_bit_nat_eq_self)
  show "handle_type (make_handle ty n) = ty"
    unfolding make_handle_def handle_type_def m by (rule bit_word_eqI) (use assms(2) in \<open>auto simp: bit_simps\<close>)
  have "make_handle ty n AND 0xffffff = of_nat n AND 0xffffff"
    unfolding make_handle_def m by (rule bit_word_eqI) (auto simp: bit_simps)
  then show "unat (make_handle ty n AND 0xffffff) = n"
    using t by (simp add: m)
qed

text \<open>Operations that change one entry, or none, keep the invariant.\<close>

lemma update_wf:
  assumes wf: "sync_wf s" and mgr: "gShutdown m' = gShutdown (sy_mgr s)" "set (eventIds m') \<subseteq> {0}"
      "\<And>h'. made (sy_mgr s) h' \<Longrightarrow> made m' h'"
    and others: "\<And>h'. h' \<noteq> h \<Longrightarrow> hm_states m' h' = hm_states (sy_mgr s) h'"
    and slot: "\<And>st. hm_states m' h = Some st \<Longrightarrow> slot_ok (notified (ws, m') s) h st"
  shows "sync_wf (notified (ws, m') s)"
proof -
  have "slot_ok (notified (ws, m') s) h' st" if "hm_states m' h' = Some st" for h' st
  proof (cases "h' = h")
    case False
    then have "slot_ok s h' st" using that others wf by (simp add: sync_wf_def)
    then show ?thesis using mgr(3) by (auto simp: slot_ok_def notified_def)
  qed (use slot that in simp)
  then show ?thesis using wf mgr by (auto simp: sync_wf_def frame_ok_def notified_def)
qed

lemma same_wf: "sync_wf s \<Longrightarrow> sync_wf (notified ([], sy_mgr s) s)"
  by (simp add: notified_def)

lemma drop_handle_wf:
  assumes "sync_wf s" "destroySignalObject h (sy_mgr s) = (ws, m)" "x \<noteq> 0"
  shows "sync_wf (notified (ws, m\<lparr>eventIds := remove1 x (eventIds m)\<rparr>) s)"
proof -
  have m: "m = (sy_mgr s)\<lparr>hm_states := (hm_states (sy_mgr s))(h := None)\<rparr> \<or> m = sy_mgr s"
    using assms(2) by (auto simp: destroySignalObject_def split: if_splits option.splits)
  have z: "set (eventIds (sy_mgr s)) \<subseteq> {0}" using assms(1) by (simp add: sync_wf_def)
  then have e: "remove1 x (eventIds m) = eventIds m" using m assms(3) by (intro remove1_idem) auto
  have "m\<lparr>eventIds := eventIds m\<rparr> = m" by simp
  then have "sync_wf (notified (ws, m) s)"
  proof (intro update_wf [OF assms(1), where h = h])
    fix st assume st: "hm_states m h = Some st"
    then have "m = sy_mgr s" using m by auto
    then have "slot_ok s h st" using st assms(1) by (simp add: sync_wf_def)
    then show "slot_ok (notified (ws, m) s) h st" using \<open>m = sy_mgr s\<close> by (auto simp: slot_ok_def notified_def)
  qed (use m z in \<open>auto simp: made_def\<close>)
  then show ?thesis by (simp add: e)
qed

lemma destroy_wf:
  assumes "sync_wf s"
  shows "sync_wf (notified (destroyEvent h (sy_mgr s)) s)" "sync_wf (notified (destroySemaphore h (sy_mgr s)) s)"
proof -
  obtain ws m where d: "destroySignalObject h (sy_mgr s) = (ws, m)" by fastforce
  then have g: "\<not> gShutdown m"
    using assms by (auto simp: sync_wf_def destroySignalObject_def split: if_splits option.splits)
  have "uint h \<noteq> 0" if "handle_type h \<noteq> 0" using that by (auto simp: handle_type_def uint_0_iff)
  then show "sync_wf (notified (destroyEvent h (sy_mgr s)) s)" "sync_wf (notified (destroySemaphore h (sy_mgr s)) s)"
    using drop_handle_wf [OF assms d] same_wf [OF assms] g
    by (simp_all add: destroyEvent_def destroySemaphore_def d kHandleTypeEvent_def kHandleTypeSemaphore_def)
qed

lemma setEvent_wf:
  assumes "sync_wf s"
  shows "sync_wf (notified (setEvent h (sy_mgr s)) s)"
proof (cases "handle_type h = kHandleTypeEvent \<and> (\<exists>st. hm_states (sy_mgr s) h = Some st)")
  case True
  then obtain st where st: "hm_states (sy_mgr s) h = Some st" "handle_type h = kHandleTypeEvent" by blast
  have ok: "slot_ok s h st" "\<not> gShutdown (sy_mgr s)" "set (eventIds (sy_mgr s)) \<subseteq> {0}"
    using assms st(1) by (simp_all add: sync_wf_def)
  have e: "setEvent h (sy_mgr s) = (due h (st\<lparr>signaled := 1\<rparr>), put_entry h (st\<lparr>signaled := 1\<rparr>) (sy_mgr s))"
    using st ok(2) by (simp add: setEvent_def setSignalObject_def due_def)
  show ?thesis
    unfolding e
  proof (rule update_wf [OF assms, where h = h])
    fix st' assume "hm_states (put_entry h (st\<lparr>signaled := 1\<rparr>) (sy_mgr s)) h = Some st'"
    then have "st' = st\<lparr>signaled := 1\<rparr>" by (simp add: put_entry_def)
    then show "slot_ok (notified (due h (st\<lparr>signaled := 1\<rparr>), put_entry h (st\<lparr>signaled := 1\<rparr>) (sy_mgr s)) s) h st'"
      using ok(1) by (auto simp: slot_ok_def notified_def made_def put_entry_def)
  qed (use ok in \<open>simp_all add: put_entry_def made_def\<close>)
next
  case False
  then have "setEvent h (sy_mgr s) = ([], sy_mgr s)"
    by (auto simp: setEvent_def setSignalObject_def split: option.splits)
  then show ?thesis using same_wf [OF assms] by simp
qed

lemma resetEvent_wf:
  assumes "sync_wf s"
  shows "sync_wf (s\<lparr>sy_mgr := resetEvent h (sy_mgr s)\<rparr>)"
proof -
  have n: "s\<lparr>sy_mgr := m\<rparr> = notified ([], m) s" for m by (simp add: notified_def)
  show ?thesis
  proof (cases "hm_states (sy_mgr s) h")
    case None
    then show ?thesis using assms by (simp add: resetEvent_def resetSignalObject_def)
  next
    case (Some st)
    have ok: "slot_ok s h st" "\<not> gShutdown (sy_mgr s)" "set (eventIds (sy_mgr s)) \<subseteq> {0}"
      using assms Some by (simp_all add: sync_wf_def)
    have "sync_wf (notified ([], put_entry h (st\<lparr>signaled := 0\<rparr>) (sy_mgr s)) s)"
    proof (rule update_wf [OF assms, where h = h])
      fix st' assume "hm_states (put_entry h (st\<lparr>signaled := 0\<rparr>) (sy_mgr s)) h = Some st'"
      then have "st' = st\<lparr>signaled := 0\<rparr>" by (simp add: put_entry_def)
      then show "slot_ok (notified ([], put_entry h (st\<lparr>signaled := 0\<rparr>) (sy_mgr s)) s) h st'"
        using ok(1) by (auto simp: slot_ok_def notified_def made_def put_entry_def)
    qed (use ok in \<open>simp_all add: put_entry_def made_def\<close>)
    then show ?thesis using same_wf [OF assms] Some ok(2) by (simp add: resetEvent_def resetSignalObject_def n)
  qed
qed

lemma fresh_wf:
  assumes wf: "sync_wf s" and m: "hm_states m' = hm_states (sy_mgr s)" "gShutdown m' = gShutdown (sy_mgr s)"
      "set (eventIds m') \<subseteq> {0}" "\<And>h'. made (sy_mgr s) h' \<Longrightarrow> made m' h'"
    and h: "made m' h" "\<not> made (sy_mgr s) h" "handle_type h = kHandleTypeEvent \<longrightarrow> n \<le> 1"
  shows "sync_wf (s\<lparr>sy_mgr := put_entry h ((state_at m' h)\<lparr>signaled := n, autoReset := a\<rparr>) m'\<rparr>)"
proof -
  have "hm_states (sy_mgr s) h = None"
    using wf h(2) by (auto simp: sync_wf_def slot_ok_def) (metis not_None_eq)
  then have z: "state_at m' h = sync_state_zero" by (simp add: state_at_def m(1))
  have "sync_wf (notified ([], put_entry h ((state_at m' h)\<lparr>signaled := n, autoReset := a\<rparr>) m') s)"
  proof (rule update_wf [OF wf, where h = h])
    fix st assume "hm_states (put_entry h ((state_at m' h)\<lparr>signaled := n, autoReset := a\<rparr>) m') h = Some st"
    then have "st = sync_state_zero\<lparr>signaled := n, autoReset := a\<rparr>" by (simp add: put_entry_def z)
    then show "slot_ok (notified ([], put_entry h ((state_at m' h)\<lparr>signaled := n, autoReset := a\<rparr>) m') s) h st"
      using h(1,3) by (simp add: slot_ok_def notified_def put_entry_def due_def sync_state_zero_def made_def)
  qed (use m in \<open>simp_all add: put_entry_def made_def\<close>)
  then show ?thesis by (simp add: notified_def)
qed

lemma create_wf:
  assumes "sync_wf s"
  shows "length (eventIds (sy_mgr s)) < 2 ^ 24 \<Longrightarrow>
      sync_wf (s\<lparr>sy_mgr := snd (createEvent manual init (sy_mgr s))\<rparr>)"
    and "length (semaphoreIds (sy_mgr s)) < 2 ^ 24 \<Longrightarrow>
      sync_wf (s\<lparr>sy_mgr := snd (createSemaphore n mx (sy_mgr s))\<rparr>)"
proof -
  let ?m = "sy_mgr s"
  have g: "\<not> gShutdown ?m" "set (eventIds ?m) \<subseteq> {0}" using assms by (simp_all add: sync_wf_def)
  {
    assume l: "length (eventIds ?m) < 2 ^ 24"
    note mh = made_handle [OF l, of kHandleTypeEvent]
    show "sync_wf (s\<lparr>sy_mgr := snd (createEvent manual init ?m)\<rparr>)"
      unfolding createEvent_def Let_def if_not_P [OF g(1)] snd_conv
      by (rule fresh_wf [OF assms])
        (use g mh in \<open>auto simp: made_def kHandleTypeEvent_def kHandleTypeSemaphore_def\<close>)
  }
  assume l: "length (semaphoreIds ?m) < 2 ^ 24"
  note mh = made_handle [OF l, of kHandleTypeSemaphore]
  show "sync_wf (s\<lparr>sy_mgr := snd (createSemaphore n mx ?m)\<rparr>)"
    unfolding createSemaphore_def Let_def if_not_P [OF g(1)] snd_conv
    by (rule fresh_wf [OF assms])
      (use g mh in \<open>auto simp: made_def kHandleTypeEvent_def kHandleTypeSemaphore_def\<close>)
qed

text \<open>The maximum is read from the table of events, where it is zero.\<close>

lemma release_result:
  assumes "releaseSemaphore h n m = Inr (b, prev, ws, m')" "set (eventIds m) \<subseteq> {0}" "\<not> gShutdown m"
  shows "\<not> b \<and> ws = [] \<and> m' = m \<or> (\<exists>s. hm_states m h = Some s \<and> b \<and> ws = sy_waiters s \<and> signaled s + n \<le> 0 \<and>
    m' = put_entry h (s\<lparr>signaled := signaled s + n\<rparr>) m \<and> handle_type h = kHandleTypeSemaphore)"
proof -
  have "eventIds m ! k = 0" if "k < length (eventIds m)" for k
    using subsetD [OF assms(2) nth_mem [OF that]] by simp
  then have z: "arr_get (eventIds m) k = (if k < length (eventIds m) then Inr 0 else Inl OutOfBounds)" for k
    by (simp add: arr_get_def)
  show ?thesis
    using assms(1,3) unfolding releaseSemaphore_def Let_def z
    by (auto split: if_splits option.splits)
qed

lemma release_wf:
  assumes "sync_wf s" "releaseSemaphore h n (sy_mgr s) = Inr (b, prev, ws, m')"
  shows "sync_wf (notified (ws, m') s)"
proof -
  have g: "\<not> gShutdown (sy_mgr s)" "set (eventIds (sy_mgr s)) \<subseteq> {0}" using assms(1) by (simp_all add: sync_wf_def)
  from release_result [OF assms(2) g(2,1)] show ?thesis
  proof (elim disjE exE conjE)
    fix st assume st: "hm_states (sy_mgr s) h = Some st" "ws = sy_waiters st" "signaled st + n \<le> 0"
      "m' = put_entry h (st\<lparr>signaled := signaled st + n\<rparr>) (sy_mgr s)"
    have ok: "slot_ok s h st" using assms(1) st(1) by (simp add: sync_wf_def)
    show ?thesis
    proof (rule update_wf [OF assms(1), where h = h])
      fix st' assume "hm_states m' h = Some st'"
      then have "st' = st\<lparr>signaled := signaled st + n\<rparr>" by (simp add: st(4) put_entry_def)
      then show "slot_ok (notified (ws, m') s) h st'"
        using ok st(3) by (auto simp: slot_ok_def notified_def made_def put_entry_def st(4))
    qed (use g in \<open>simp_all add: st(4) put_entry_def made_def\<close>)
  qed (use same_wf [OF assms(1)] in simp)
qed

lemma waitForObjects_wf:
  assumes "sync_wf s" "sy_frames s t = None" "distinct hs" "0 < cap" "length hs \<le> cap"
  shows "sync_wf (settle t (waitForObjects t hs cap timeout (sy_mgr s)) s)"
proof -
  have "\<not> gShutdown (sy_mgr s)" using assms(1) by (simp add: sync_wf_def)
  then show ?thesis
    using wait_round_wf [OF assms(1), of t "\<lparr>wf_handles = hs, wf_size = cap, wf_timeout = timeout, wf_added = False\<rparr>" False]
      assms(2-5)
    by (simp add: waitForObjects_def)
qed

lemma step_wf:
  assumes "sync_step s op s'" "sync_wf s"
  shows "sync_wf s'"
  using assms
proof (induction rule: sync_step.induct)
  case (9 s t f)
  then show ?case using wait_round_wf [OF 9(2), of t f] by (simp add: sync_wf_def frame_ok_def)
next
  case (10 s t f)
  then show ?case using wait_round_wf [OF 10(3), of t f] by (simp add: sync_wf_def frame_ok_def)
qed (simp_all add: create_wf destroy_wf setEvent_wf resetEvent_wf release_wf waitForObjects_wf)

lemma mgr_init_wf: "sync_wf sync_sys_init"
  by (simp add: sync_wf_def sync_sys_init_def HandleManager_init_def)

lemma run_wf: "sync_run s ops s' \<Longrightarrow> sync_wf s \<Longrightarrow> sync_wf s'"
  by (induction rule: sync_run.induct) (auto intro: step_wf)

section \<open>Blocked threads stay in the lists of waiters\<close>

lemma scan_reports:
  assumes "fold (scan_handle cap) hs (sig, m) = (sig', m')" "h \<in> set hs" "distinct hs"
    "hm_states m h = Some st" "0 < signaled st" "length sig + length hs \<le> cap"
  shows "h \<in> set sig'"
  using assms
proof (induction hs arbitrary: sig m)
  case (Cons a hs)
  obtain sig1 m1 where 1: "scan_handle cap a (sig, m) = (sig1, m1)" by fastforce
  have 2: "fold (scan_handle cap) hs (sig1, m1) = (sig', m')" using Cons.prems(1) 1 by simp
  obtain new where new: "sig' = sig1 @ new" using scan_grows [OF 2] by blast
  show ?case
  proof (cases "h = a")
    case True
    then have "h \<in> set sig1"
      using 1 Cons.prems(4-6) by (auto simp: scan_handle_def split: if_splits)
    then show ?thesis using new by simp
  next
    case False
    have "length sig1 \<le> length sig + 1" using 1 by (auto simp: scan_handle_def split: option.splits if_splits)
    moreover have "hm_states m1 h = Some st"
      using scan_one [OF 1] Cons.prems(4) False by (auto simp: scanned_def)
    ultimately show ?thesis using Cons.IH [OF 2] Cons.prems False by auto
  qed
qed simp

definition keeps :: "handle \<Rightarrow> HandleManager \<Rightarrow> HandleManager \<Rightarrow> bool" where
  "keeps h m m' \<longleftrightarrow> (\<forall>st. hm_states m h = Some st \<longrightarrow> (\<exists>st'. hm_states m' h = Some st' \<and> sy_waiters st' = sy_waiters st))"

definition linked :: "handle \<Rightarrow> sync_sys \<Rightarrow> bool" where
  "linked h s \<longleftrightarrow> (\<forall>t f. sy_frames s t = Some f \<and> h \<in> set (wf_handles f) \<longrightarrow>
     (\<exists>st. hm_states (sy_mgr s) h = Some st \<and> t \<in> set (sy_waiters st)))"

lemma keeps_put: "keeps h m (put_entry h' ((state_at m h')\<lparr>signaled := n, autoReset := a\<rparr>) m)"
  "hm_states m h' = Some st \<Longrightarrow> keeps h m (put_entry h' (st\<lparr>signaled := n\<rparr>) m)"
  by (auto simp: keeps_def put_entry_def state_at_def)

lemma mgr_keeps_refl: "keeps h m m"
  by (simp add: keeps_def)

lemma keeps_ids: "hm_states m1 = hm_states m \<Longrightarrow> keeps h m1 m' \<Longrightarrow> keeps h m m'"
  by (simp add: keeps_def)

lemma keeps_ops:
  "keeps h m (snd (createEvent b i m))" "keeps h m (snd (createSemaphore n mx m))"
  "keeps h m (snd (setEvent h' m))" "keeps h m (resetEvent h' m)"
  "releaseSemaphore h' n m = Inr (b', prev, ws, m') \<Longrightarrow> keeps h m m'"
  "handle_type h = kHandleTypeEvent \<Longrightarrow> keeps h m (snd (destroySemaphore h' m))"
  "h' \<noteq> h \<Longrightarrow> keeps h m (snd (destroyEvent h' m))"
proof -
  show "keeps h m (snd (createEvent b i m))" "keeps h m (snd (createSemaphore n mx m))"
    by (auto simp: createEvent_def createSemaphore_def Let_def mgr_keeps_refl intro!: keeps_ids [OF _ keeps_put(1)])
  show "keeps h m (snd (setEvent h' m))" "keeps h m (resetEvent h' m)"
    by (auto simp: setEvent_def setSignalObject_def resetEvent_def resetSignalObject_def mgr_keeps_refl keeps_put(2)
        split: option.splits)
  show "keeps h m m'" if "releaseSemaphore h' n m = Inr (b', prev, ws, m')"
    using that by (auto simp: releaseSemaphore_def Let_def bindR_Inr_iff mgr_keeps_refl keeps_put(2) split: if_splits option.splits)
  show "keeps h m (snd (destroySemaphore h' m))" if "handle_type h = kHandleTypeEvent"
    using that by (auto simp: destroySemaphore_def destroySignalObject_def keeps_def kHandleTypeEvent_def
        kHandleTypeSemaphore_def split: option.splits prod.splits)
  show "keeps h m (snd (destroyEvent h' m))" if "h' \<noteq> h"
    using that by (auto simp: destroyEvent_def destroySignalObject_def keeps_def split: option.splits prod.splits)
qed

lemma linked_keeps:
  "linked h s \<Longrightarrow> keeps h (sy_mgr s) m \<Longrightarrow> linked h (s\<lparr>sy_mgr := m\<rparr>)"
  "linked h s \<Longrightarrow> keeps h (sy_mgr s) (snd r) \<Longrightarrow> linked h (notified r s)"
  unfolding linked_def keeps_def notified_def by fastforce+

lemma linked_wait:
  assumes "linked h s" "sy_frames s t = (if wf_added f then Some f else None)" "0 < wf_size f" "distinct (wf_handles f)"
  shows "linked h (settle t (wait_round b t f (sy_mgr s)) s)"
proof -
  obtain sig m1 where scan: "fold (scan_handle (wf_size f)) (wf_handles f) ([], sy_mgr s) = (sig, m1)" by fastforce
  have k: "\<exists>st'. hm_states m1 h = Some st' \<and> sy_waiters st' = sy_waiters st" if "hm_states (sy_mgr s) h = Some st" for st
    using scan_lower [OF scan] that by (fastforce simp: scanned_def)
  have old: "\<exists>st. hm_states m1 h = Some st \<and> u \<in> set (sy_waiters st)"
    if "sy_frames s u = Some g" "h \<in> set (wf_handles g)" for u g
    using assms(1) that k unfolding linked_def by metis
  show ?thesis
  proof (cases "b \<or> sig \<noteq> [] \<or> deq (wf_timeout f) (Fin 0)")
    case True
    define m2 where "m2 = (if wf_added f then fold (remove_waiter t) (wf_handles f) m1 else m1)"
    have r: "\<exists>c. settle t (wait_round b t f (sy_mgr s)) s = settle t (Finished sig c, m2) s"
      using True by (auto simp: wait_round_def scan m2_def)
    have "\<exists>st. hm_states m2 h = Some st \<and> u \<in> set (sy_waiters st)"
      if "sy_frames s u = Some g" "h \<in> set (wf_handles g)" "u \<noteq> t" for u g
      using old [OF that(1,2)] that(3) remove_waiters [OF assms(4), of t m1]
      by (auto simp: m2_def state_at_def in_set_remove1)
    then show ?thesis using r by (auto simp: linked_def settle_def split: if_splits)
  next
    case False
    then have q: "\<forall>h \<in> set (wf_handles f). \<exists>st. hm_states m1 h = Some st"
      using scan_nothing [of "wf_size f" "wf_handles f" "sy_mgr s" m1] scan assms(3) by auto
    define m2 where "m2 = (if wf_added f then m1 else fold (add_waiter t) (wf_handles f) m1)"
    have r: "settle t (wait_round b t f (sy_mgr s)) s = settle t (Blocked (f\<lparr>wf_added := True\<rparr>), m2) s"
      using False by (simp add: wait_round_def scan m2_def)
    note a = add_waiters [OF assms(4), of t m1]
    have 1: "\<exists>st. hm_states m2 h = Some st \<and> u \<in> set (sy_waiters st)"
      if "sy_frames s u = Some g" "h \<in> set (wf_handles g)" for u g
      using old [OF that] a by (auto simp: m2_def state_at_def)
    have 2: "\<exists>st. hm_states m2 h = Some st \<and> t \<in> set (sy_waiters st)" if "h \<in> set (wf_handles f)"
    proof (cases "wf_added f")
      case True
      then show ?thesis using 1 [of t f] assms(2) that by simp
    next
      case False
      then show ?thesis using a that by (simp add: m2_def)
    qed
    show ?thesis unfolding r using 1 2 by (auto simp: linked_def settle_def split: if_splits)
  qed
qed

lemma step_linked:
  assumes "sync_step s op s'" "sync_wf s" "linked h s" "handle_type h = kHandleTypeEvent" "op \<noteq> OpDestroyEvent h"
  shows "linked h s'"
  using assms
proof (induction rule: sync_step.induct)
  case (7 h' n s b prev ws m)
  then show ?case using linked_keeps(2) [OF 7(3), of "(ws, m)"] keeps_ops(5) [OF 7(1)] by simp
next
  case (8 s t hs cap timeout)
  then have "\<not> gShutdown (sy_mgr s)" by (simp add: sync_wf_def)
  then show ?case
    using linked_wait [OF 8(6), of t "\<lparr>wf_handles = hs, wf_size = cap, wf_timeout = timeout, wf_added = False\<rparr>" False] 8(1-4)
    by (simp add: waitForObjects_def)
next
  case (9 s t f)
  then show ?case using linked_wait [OF 9(3), of t f] by (simp add: sync_wf_def frame_ok_def)
next
  case (10 s t f)
  then show ?case using linked_wait [OF 10(4), of t f] by (simp add: sync_wf_def frame_ok_def)
qed (simp_all add: linked_keeps keeps_ops)

lemma run_linked:
  assumes "sync_run s ops s'" "sync_wf s" "linked h s" "handle_type h = kHandleTypeEvent" "OpDestroyEvent h \<notin> set ops"
  shows "linked h s'"
  using assms
proof (induction rule: sync_run.induct)
  case (2 s ops s1 op s2)
  then show ?case using step_linked [OF 2(2) run_wf [OF 2(1,4)]] by auto
qed

text \<open>A thread in no list of waiters whose condition variable was not notified.\<close>

definition stranded :: "nat \<Rightarrow> sync_sys \<Rightarrow> bool" where
  "stranded t s \<longleftrightarrow> sy_frames s t \<noteq> None \<and> t \<notin> sy_woken s \<and>
     (\<forall>h st. hm_states (sy_mgr s) h = Some st \<longrightarrow> t \<notin> set (sy_waiters st))"

definition unlisted :: "nat \<Rightarrow> HandleManager \<Rightarrow> bool" where
  "unlisted t m \<longleftrightarrow> (\<forall>h st. hm_states m h = Some st \<longrightarrow> t \<notin> set (sy_waiters st))"

lemma unlisted_put: "unlisted t m \<Longrightarrow> t \<notin> set (sy_waiters st) \<Longrightarrow> unlisted t (put_entry h st m)"
  by (simp add: unlisted_def put_entry_def)

lemma unlisted_at: "unlisted t m \<Longrightarrow> t \<notin> set (sy_waiters (state_at m h))"
  by (auto simp: unlisted_def state_at_def sync_state_zero_def split: option.splits)

lemma state_at_ids [simp]:
  "state_at (m\<lparr>eventIds := e\<rparr>) = state_at m" "state_at (m\<lparr>semaphoreIds := e\<rparr>) = state_at m"
  by (simp_all add: state_at_def fun_eq_iff)

lemma unlisted_ids [simp]:
  "unlisted t (m\<lparr>eventIds := e\<rparr>) = unlisted t m" "unlisted t (m\<lparr>semaphoreIds := e\<rparr>) = unlisted t m"
  by (simp_all add: unlisted_def)

lemma unlisted_ops:
  assumes "unlisted t m"
  shows "unlisted t (snd (createEvent b i m))" "unlisted t (snd (createSemaphore n mx m))" "unlisted t (resetEvent h m)"
    "unlisted t (snd (setEvent h m)) \<and> t \<notin> set (fst (setEvent h m))"
    "unlisted t (snd (destroyEvent h m)) \<and> t \<notin> set (fst (destroyEvent h m))"
    "unlisted t (snd (destroySemaphore h m)) \<and> t \<notin> set (fst (destroySemaphore h m))"
    "releaseSemaphore h n m = Inr (b', prev, ws, m') \<Longrightarrow> unlisted t m' \<and> t \<notin> set ws"
proof -
  note u = assms unlisted_put [OF assms] unlisted_at [OF assms]
  have s: "t \<notin> set (sy_waiters st)" if "hm_states m h' = Some st" for h' st
    using assms that by (simp add: unlisted_def)
  show "unlisted t (snd (createEvent b i m))" "unlisted t (snd (createSemaphore n mx m))"
    using u by (auto simp: createEvent_def createSemaphore_def Let_def intro!: unlisted_put unlisted_at)
  show "unlisted t (resetEvent h m)" "unlisted t (snd (setEvent h m)) \<and> t \<notin> set (fst (setEvent h m))"
    using u s by (auto simp: resetEvent_def resetSignalObject_def setEvent_def setSignalObject_def intro!: unlisted_put
        dest: in_set_takeD split: option.splits)
  have d: "unlisted t (snd (destroySignalObject h m)) \<and> t \<notin> set (fst (destroySignalObject h m))"
    using assms s by (auto simp: destroySignalObject_def unlisted_def split: option.splits)
  then show "unlisted t (snd (destroyEvent h m)) \<and> t \<notin> set (fst (destroyEvent h m))"
    "unlisted t (snd (destroySemaphore h m)) \<and> t \<notin> set (fst (destroySemaphore h m))"
    using assms by (auto simp: destroyEvent_def destroySemaphore_def split: prod.splits)
  show "unlisted t m' \<and> t \<notin> set ws" if "releaseSemaphore h n m = Inr (b', prev, ws, m')"
    using that u s by (auto simp: releaseSemaphore_def Let_def bindR_Inr_iff split: if_splits option.splits intro!: unlisted_put)
qed

lemma unlisted_waits:
  assumes "unlisted t m"
  shows "unlisted t (snd (fold (scan_handle cap) hs (sig, m)))"
    and "u \<noteq> t \<Longrightarrow> unlisted t (fold (add_waiter u) hs m)" "unlisted t (fold (remove_waiter u) hs m)"
proof -
  show "unlisted t (snd (fold (scan_handle cap) hs (sig, m)))"
  proof -
    obtain sig' m' where s: "fold (scan_handle cap) hs (sig, m) = (sig', m')" by fastforce
    have "t \<notin> set (sy_waiters st')" if "hm_states m' h = Some st'" for h st'
    proof -
      have "h \<in> dom (hm_states m')" using that by blast
      then obtain st where st: "hm_states m h = Some st" unfolding scan_lower [OF s, THEN conjunct1] by blast
      obtain st2 where "hm_states m' h = Some st2" "scanned (h \<in> set hs) st st2"
        using scan_lower [OF s, THEN conjunct2, THEN conjunct2, THEN conjunct2, THEN conjunct2, rule_format, OF st] by blast
      then show ?thesis using st assms that by (simp add: scanned_def unlisted_def)
    qed
    then show ?thesis by (simp add: s unlisted_def)
  qed
  show "unlisted t (fold (add_waiter u) hs m)" if "u \<noteq> t"
    using assms
  proof (induction hs arbitrary: m)
    case (Cons h hs)
    then show ?case using Cons.IH [of "add_waiter u h m"] unlisted_at [OF Cons.prems, of h] that
      by (simp add: add_waiter_def unlisted_put)
  qed simp
  show "unlisted t (fold (remove_waiter u) hs m)"
    using assms
  proof (induction hs arbitrary: m)
    case (Cons h hs)
    have "t \<notin> set (remove1 u (sy_waiters (state_at m h)))"
      using unlisted_at [OF Cons.prems, of h] by (meson notin_set_remove1)
    then show ?case using Cons.IH [of "remove_waiter u h m"] Cons.prems
      by (simp add: remove_waiter_def unlisted_put)
  qed simp
qed

lemma stranded_settle:
  assumes "stranded t s" "u \<noteq> t"
  shows "stranded t (settle u (wait_round b u f (sy_mgr s)) s)"
proof -
  have u: "unlisted t (sy_mgr s)" using assms(1) by (simp add: stranded_def unlisted_def)
  obtain sig m1 where s: "fold (scan_handle (wf_size f)) (wf_handles f) ([], sy_mgr s) = (sig, m1)" by fastforce
  have "unlisted t m1" using unlisted_waits(1) [OF u, of "wf_size f" "wf_handles f" "[]"] by (simp add: s)
  then have "unlisted t (snd (wait_round b u f (sy_mgr s)))"
    using unlisted_waits(2,3) [of t m1] assms(2) by (simp add: wait_round_def s)
  then show ?thesis
    using assms by (auto simp: stranded_def unlisted_def settle_def split: wait_result.splits)
qed

lemma step_stranded:
  assumes "sync_step s op s'" "stranded t s" "op \<noteq> OpWake t" "op \<noteq> OpExpire t"
  shows "stranded t s'"
proof -
  have u: "stranded t s1 \<longleftrightarrow> sy_frames s1 t \<noteq> None \<and> t \<notin> sy_woken s1 \<and> unlisted t (sy_mgr s1)" for s1
    by (simp add: stranded_def unlisted_def)
  show ?thesis
    using assms
  proof (induction rule: sync_step.induct)
    case (7 h n s b prev ws m)
    then show ?case using unlisted_ops(7) [OF _ 7(1), of t] by (simp add: u notified_def)
  next
    case (8 s t' hs cap timeout)
    then have "t' \<noteq> t" by (auto simp: stranded_def)
    then show ?case
      using stranded_settle [OF 8(5)] 8(5) by (auto simp: waitForObjects_def settle_def stranded_def)
  qed (auto simp: stranded_settle, auto simp: u unlisted_ops notified_def)
qed

lemma run_stranded:
  assumes "sync_run s ops s'" "stranded t s" "OpWake t \<notin> set ops" "OpExpire t \<notin> set ops"
  shows "stranded t s'"
  using assms by (induction rule: sync_run.induct) (auto intro: step_stranded)

text \<open>The steps as a function.\<close>

definition sync_exec :: "sync_op \<Rightarrow> sync_sys \<Rightarrow> sync_sys option" where
  "sync_exec op s =
     (case op of
        OpCreateEvent manual init \<Rightarrow>
          if length (eventIds (sy_mgr s)) < 2 ^ 24 then Some (s\<lparr>sy_mgr := snd (createEvent manual init (sy_mgr s))\<rparr>) else None
      | OpDestroyEvent h \<Rightarrow> Some (notified (destroyEvent h (sy_mgr s)) s)
      | OpSetEvent h \<Rightarrow> Some (notified (setEvent h (sy_mgr s)) s)
      | OpResetEvent h \<Rightarrow> Some (s\<lparr>sy_mgr := resetEvent h (sy_mgr s)\<rparr>)
      | OpCreateSemaphore n mx \<Rightarrow>
          if length (semaphoreIds (sy_mgr s)) < 2 ^ 24 then Some (s\<lparr>sy_mgr := snd (createSemaphore n mx (sy_mgr s))\<rparr>) else None
      | OpDestroySemaphore h \<Rightarrow> Some (notified (destroySemaphore h (sy_mgr s)) s)
      | OpReleaseSemaphore h n \<Rightarrow>
          (case releaseSemaphore h n (sy_mgr s) of Inl e \<Rightarrow> None | Inr (b, prev, ws, m) \<Rightarrow> Some (notified (ws, m) s))
      | OpWait t hs cap timeout \<Rightarrow>
          if sy_frames s t = None \<and> distinct hs \<and> length hs \<le> cap \<and> 0 < cap
          then Some (settle t (waitForObjects t hs cap timeout (sy_mgr s)) s) else None
      | OpWake t \<Rightarrow> (case sy_frames s t of None \<Rightarrow> None | Some f \<Rightarrow> Some (settle t (wait_round False t f (sy_mgr s)) s))
      | OpExpire t \<Rightarrow>
          (case sy_frames s t of None \<Rightarrow> None
           | Some f \<Rightarrow> if dlt (Fin 0) (wf_timeout f) then Some (settle t (wait_round True t f (sy_mgr s)) s) else None))"

fun sync_execs :: "sync_op list \<Rightarrow> sync_sys \<Rightarrow> sync_sys option" where
  "sync_execs [] s = Some s"
| "sync_execs (op # ops) s = (case sync_exec op s of None \<Rightarrow> None | Some s1 \<Rightarrow> sync_execs ops s1)"

lemma sync_exec_step: "sync_exec op s = Some s' \<longleftrightarrow> sync_step s op s'"
  by (cases op; rule iffI)
    (auto simp: sync_exec_def split: if_splits option.splits sum.splits intro: sync_step.intros elim!: sync_stepE)

lemma sync_run_prepend: "sync_run s1 ops s2 \<Longrightarrow> sync_step s op s1 \<Longrightarrow> sync_run s (op # ops) s2"
proof (induction rule: sync_run.induct)
  case (1 s1)
  then show ?case using sync_run.intros(2) [OF sync_run.intros(1)] by fastforce
next
  case (2 s1 ops s2 op' s3)
  then show ?case using sync_run.intros(2) [of s "op # ops" s2 op' s3] by simp
qed

lemma sync_execs_run: "sync_execs ops s = Some s' \<Longrightarrow> sync_run s ops s'"
  by (induction ops arbitrary: s) (auto simp: sync_exec_step intro: sync_run.intros sync_run_prepend split: option.splits)

lemmas exec_simps = sync_exec_def sync_sys_init_def HandleManager_init_def createEvent_def make_handle_def
  kHandleTypeEvent_def put_entry_def state_at_def sync_state_zero_def waitForObjects_def wait_round_def scan_handle_def
  settle_def notified_def destroyEvent_def destroySignalObject_def handle_type_def add_waiter_def remove_waiter_def
  setEvent_def setSignalObject_def

section \<open>Properties\<close>

text \<open>C30: no wake-up is lost: in every state reached by any threads' use of events and semaphores,
  a thread blocked on an event that is signaled and was not destroyed has been notified, if the
  event is reset manually, and else the first thread in its list has; and when the thread runs, its
  wait returns with the event.\<close>

theorem no_lost_wakeup:
  assumes "sync_run sync_sys_init ops s" "OpDestroyEvent h \<notin> set ops" "handle_type h = kHandleTypeEvent"
    "hm_states (sy_mgr s) h = Some st" "0 < signaled st" "sy_frames s t = Some f" "h \<in> set (wf_handles f)"
  shows "(if autoReset st then sy_waiters st \<noteq> [] \<and> hd (sy_waiters st) \<in> sy_woken s else t \<in> sy_woken s) \<and>
    (\<exists>sig m'. wait_round False t f (sy_mgr s) = (Finished sig False, m') \<and> h \<in> set sig)"
proof -
  have wf: "sync_wf s" by (rule run_wf [OF assms(1) mgr_init_wf])
  have "linked h sync_sys_init" by (simp add: linked_def sync_sys_init_def)
  then have "linked h s" by (rule run_linked [OF assms(1) mgr_init_wf _ assms(3,2)])
  then have t: "t \<in> set (sy_waiters st)" using assms(4,6,7) by (auto simp: linked_def)
  have ok: "slot_ok s h st" and fr: "frame_ok (sy_mgr s) f" using wf assms(4,6) by (simp_all add: sync_wf_def)
  then have due: "set (due h st) \<subseteq> sy_woken s" using assms(5) by (simp add: slot_ok_def)
  obtain sig m1 where scan: "fold (scan_handle (wf_size f)) (wf_handles f) ([], sy_mgr s) = (sig, m1)" by fastforce
  have h: "h \<in> set sig" using scan_reports [OF scan assms(7) _ assms(4,5)] fr by (simp add: frame_ok_def)
  then have "\<exists>m'. wait_round False t f (sy_mgr s) = (Finished sig False, m')"
    by (auto simp: wait_round_def scan)
  then show ?thesis
    using h t due assms(3) by (cases "sy_waiters st") (auto simp: due_def)
qed

text \<open>Destroying an event wakes its waiters, but the first of them to run makes the table's entry
  anew, and the next one goes back to waiting for it, in no list and with its notification spent.
  Whatever the other threads do then, it stays blocked until a spurious wake-up.\<close>

theorem destroyed_event_strands_waiter:
  assumes "sync_run s ops s'" "OpWake 2 \<notin> set ops" "OpExpire 2 \<notin> set ops"
    "sync_execs [OpCreateEvent True False, OpWait 1 [0x1000000] 1 (Fin (-1)), OpWait 2 [0x1000000] 1 (Fin (-1)),
      OpDestroyEvent 0x1000000, OpWake 1, OpWake 2] sync_sys_init = Some s"
  shows "sy_frames s' 2 \<noteq> None \<and> 2 \<notin> sy_woken s' \<and> sy_returned s = [(1, [0x81000000], False)]"
proof -
  have "stranded 2 s \<and> sy_returned s = [(1, [0x81000000], False)]"
    using assms(4)
    by (auto simp: exec_simps stranded_def split: if_splits)
  then show ?thesis using run_stranded [OF assms(1)] assms(2,3) by (auto simp: stranded_def)
qed

text \<open>A semaphore cannot be released: its maximum count is read from the table of events, which
  holds zeros, or beyond its end.  Whenever the count is not negative, a release fails and changes
  nothing, or reads out of bounds.\<close>

theorem release_never_succeeds:
  assumes "sync_run sync_sys_init ops s" "hm_states (sy_mgr s) h = Some st" "0 \<le> signaled st"
  shows "releaseSemaphore h n (sy_mgr s) \<in>
    {Inl OutOfBounds, Inr (False, None, [], sy_mgr s), Inr (False, Some (signaled st), [], sy_mgr s)}"
proof -
  have wf: "\<not> gShutdown (sy_mgr s)" "set (eventIds (sy_mgr s)) \<subseteq> {0}"
    using run_wf [OF assms(1) mgr_init_wf] by (simp_all add: sync_wf_def)
  have "eventIds (sy_mgr s) ! k = 0" if "k < length (eventIds (sy_mgr s))" for k
    using subsetD [OF wf(2) nth_mem [OF that]] by simp
  then show ?thesis
    using assms(2,3) wf(1) by (auto simp: releaseSemaphore_def Let_def arr_get_def)
qed

section \<open>Witnesses\<close>

theorem no_lost_wakeup_witness:
  "\<exists>s. sync_execs [OpCreateEvent True False, OpWait 1 [0x1000000] 1 (Fin (-1)), OpWait 2 [0x1000000] 1 (Fin (-1)),
      OpSetEvent 0x1000000, OpWake 1] sync_sys_init = Some s \<and> 2 \<in> sy_woken s \<and> sy_returned s = [(1, [0x1000000], False)]"
proof -
  obtain s where s: "sync_execs [OpCreateEvent True False, OpWait 1 [0x1000000] 1 (Fin (-1)), OpWait 2 [0x1000000] 1 (Fin (-1)),
      OpSetEvent 0x1000000, OpWake 1] sync_sys_init = Some s" "sy_returned s = [(1, [0x1000000], False)]"
    "hm_states (sy_mgr s) 0x1000000 = Some \<lparr>signaled = 1, autoReset = False, sy_waiters = [2]\<rparr>"
    "sy_frames s 2 = Some \<lparr>wf_handles = [0x1000000], wf_size = 1, wf_timeout = Fin (-1), wf_added = True\<rparr>"
    by (simp add: exec_simps)
  have "handle_type 0x1000000 = kHandleTypeEvent" by (simp add: handle_type_def kHandleTypeEvent_def)
  from no_lost_wakeup [OF sync_execs_run [OF s(1)] _ this s(3) _ s(4)] show ?thesis using s(1,2) by simp
qed

theorem destroyed_event_strands_waiter_witness:
  "\<exists>s s'. sync_execs [OpCreateEvent True False, OpWait 1 [0x1000000] 1 (Fin (-1)), OpWait 2 [0x1000000] 1 (Fin (-1)),
      OpDestroyEvent 0x1000000, OpWake 1, OpWake 2] sync_sys_init = Some s \<and>
    sync_execs [OpSetEvent 0x1000000] s = Some s' \<and> sy_frames s' 2 \<noteq> None \<and> 2 \<notin> sy_woken s'"
proof -
  obtain s where s: "sync_execs [OpCreateEvent True False, OpWait 1 [0x1000000] 1 (Fin (-1)), OpWait 2 [0x1000000] 1 (Fin (-1)),
      OpDestroyEvent 0x1000000, OpWake 1, OpWake 2] sync_sys_init = Some s"
    by (simp add: exec_simps)
  obtain s' where s': "sync_execs [OpSetEvent 0x1000000] s = Some s'" by (simp add: sync_exec_def)
  show ?thesis using destroyed_event_strands_waiter [OF sync_execs_run [OF s'] _ _ s] s s' by auto
qed

theorem release_never_succeeds_witness:
  "\<exists>s st. sync_execs [OpCreateSemaphore 0 5, OpCreateEvent True False] sync_sys_init = Some s \<and>
    hm_states (sy_mgr s) 0x2000000 = Some st \<and>
    releaseSemaphore 0x2000000 1 (sy_mgr s) = Inr (False, Some (signaled st), [], sy_mgr s)"
proof -
  obtain s where s: "sync_execs [OpCreateSemaphore 0 5, OpCreateEvent True False] sync_sys_init = Some s"
    "hm_states (sy_mgr s) 0x2000000 = Some \<lparr>signaled = 0, autoReset = True, sy_waiters = []\<rparr>"
    "eventIds (sy_mgr s) = [0]" "\<not> gShutdown (sy_mgr s)"
    by (simp add: exec_simps createSemaphore_def kHandleTypeSemaphore_def)
  have "releaseSemaphore 0x2000000 1 (sy_mgr s) \<noteq> Inl OutOfBounds"
    "releaseSemaphore 0x2000000 1 (sy_mgr s) \<noteq> Inr (False, None, [], sy_mgr s)"
    using s(2-4) by (simp_all add: releaseSemaphore_def handle_type_def kHandleTypeSemaphore_def arr_get_def)
  then show ?thesis
    using release_never_succeeds [OF sync_execs_run [OF s(1)] s(2), of 1] s(1,2) by auto
qed

end
