(* ===== verification/DsConnection.thy ===== *)
theory DsConnection
  imports DriverStation Synchronization
begin

text \<open>
  Waiting for the driver station: \<open>DriverStation::waitForDsConnection\<close> (\<open>lib/ds/DriverStation.cpp\<close>),
  which \<open>InitializeHAL\<close> (\<open>lib/robot/RobotBase.cpp\<close>) calls before the robot is made, against the
  network thread that delivers packets.  The main thread is thread 0.  The function-local static
  instance of \<open>DriverStation.cpp\<close> is made on first use, and its constructor initialises the
  driver-station layer again.
\<close>

section \<open>State\<close>

record ds_process =
  pr_ds :: FRCDriverStation
  pr_inst :: "DS_Instance option"
  refreshEvents :: "handle list"
  pr_mgr :: HandleManager

definition ds_getInstance :: "ds_process \<Rightarrow> DS_Instance \<times> ds_process" where
  "ds_getInstance p =
     (case pr_inst p of
        Some d \<Rightarrow> (d, p)
      | None \<Rightarrow> (DS_Instance_init, p\<lparr>pr_ds := InitializeFRCDriverStation (pr_ds p), pr_inst := Some DS_Instance_init\<rparr>))"

definition refresh_edges :: "FRCDriverStation \<Rightarrow> DS_Instance \<Rightarrow> fault + DS_Instance" where
  "refresh_edges s = foldR (\<lambda>i d. bindR (HAL_GetJoystickButtons (int i) s) (\<lambda>b.
     case b of Some cur \<Rightarrow> refresh_port i cur d | None \<Rightarrow> Inl NullDeref)) [0..<kJoystickPorts]"

text \<open>\<open>refreshData\<close> with the making of the instance and the waking of the threads that wait for it;
  the result also has the threads notified.\<close>

definition process_refreshData :: "ds_process \<Rightarrow> fault + nat list \<times> ds_process" where
  "process_refreshData p =
     bindR (HAL_RefreshDSData (pr_ds p)) (\<lambda>(_, s1).
       let (d, p1) = ds_getInstance (p\<lparr>pr_ds := s1\<rparr>) in
       bindR (refresh_edges (pr_ds p1) d) (\<lambda>d1.
         let (ws, m) = ev_wakeup (refreshEvents p1) (pr_mgr p1)
         in Inr (ws, p1\<lparr>pr_inst := Some d1, pr_mgr := m\<rparr>)))"

definition provideRefreshedDataEventHandle :: "handle \<Rightarrow> ds_process \<Rightarrow> ds_process" where
  "provideRefreshedDataEventHandle h p = (let p1 = snd (ds_getInstance p) in p1\<lparr>refreshEvents := ev_add h (refreshEvents p1)\<rparr>)"

definition removeRefreshedDataEventHandle :: "handle \<Rightarrow> ds_process \<Rightarrow> ds_process" where
  "removeRefreshedDataEventHandle h p = (let p1 = snd (ds_getInstance p) in p1\<lparr>refreshEvents := ev_remove h (refreshEvents p1)\<rparr>)"

text \<open>A packet sets the events registered for new data.\<close>

definition process_packet :: "(real \<Rightarrow> real) \<Rightarrow> (real \<Rightarrow> real) \<Rightarrow> bytes \<Rightarrow> ds_process \<Rightarrow> fault + nat list \<times> ds_process" where
  "process_packet rnd fl payload p =
     bindR (newDataOccur rnd fl payload (pr_ds p)) (\<lambda>s1.
       let (ws, m) = ev_wakeup (map of_nat (drop (length (ds_signalled (pr_ds p))) (ds_signalled s1))) (pr_mgr p)
       in Inr (ws, p\<lparr>pr_ds := s1, pr_mgr := m\<rparr>))"

section \<open>The wait\<close>

datatype ds_wait = DsWaiting handle wait_frame | DsReturned bool

record ds_conn =
  cn_process :: ds_process
  cn_phase :: ds_wait
  cn_woken :: bool

text \<open>What follows the wait: the event is taken out and destroyed, and the data refreshed.\<close>

definition ds_wait_done :: "handle \<Rightarrow> handle list \<Rightarrow> ds_process \<Rightarrow> fault + ds_process \<times> bool" where
  "ds_wait_done h sig p =
     bindR (process_refreshData (p\<lparr>pr_ds := HAL_RemoveNewDataEventHandle (unat h) (pr_ds p)\<rparr>)) (\<lambda>(_, p1).
       Inr (p1\<lparr>pr_mgr := snd (destroyEvent h (pr_mgr p1))\<rparr>, wait_value sig))"

definition ds_wait_settle :: "handle \<Rightarrow> wait_result \<times> HandleManager \<Rightarrow> ds_process \<Rightarrow> fault + ds_conn" where
  "ds_wait_settle h r p =
     (case fst r of
        Blocked f \<Rightarrow> Inr \<lparr>cn_process = p\<lparr>pr_mgr := snd r\<rparr>, cn_phase = DsWaiting h f, cn_woken = False\<rparr>
      | Finished sig b \<Rightarrow> bindR (ds_wait_done h sig (p\<lparr>pr_mgr := snd r\<rparr>)) (\<lambda>(p1, v).
          Inr \<lparr>cn_process = p1, cn_phase = DsReturned v, cn_woken = False\<rparr>))"

definition waitForDsConnection :: "int \<Rightarrow> ds_process \<Rightarrow> fault + ds_conn" where
  "waitForDsConnection timeout p =
     (let (h, m) = createEvent True False (pr_mgr p);
          p1 = p\<lparr>pr_mgr := m, pr_ds := HAL_ProvideNewDataEventHandle (unat h) (pr_ds p)\<rparr>
      in ds_wait_settle h (waitForObject 0 h (Fin (if timeout = 0 then -1 else of_int timeout)) m) p1)"

datatype conn_event = ConnPacket bytes | ConnWake | ConnExpire

definition conn_step :: "(real \<Rightarrow> real) \<Rightarrow> (real \<Rightarrow> real) \<Rightarrow> conn_event \<Rightarrow> ds_conn \<Rightarrow> fault + ds_conn" where
  "conn_step rnd fl e c =
     (case e of
        ConnPacket payload \<Rightarrow> bindR (process_packet rnd fl payload (cn_process c)) (\<lambda>(ws, p).
          Inr (c\<lparr>cn_process := p, cn_woken := cn_woken c \<or> 0 \<in> set ws\<rparr>))
      | ConnWake \<Rightarrow> (case cn_phase c of
          DsReturned b \<Rightarrow> Inr c
        | DsWaiting h f \<Rightarrow> ds_wait_settle h (wait_round False 0 f (pr_mgr (cn_process c))) (cn_process c))
      | ConnExpire \<Rightarrow> (case cn_phase c of
          DsReturned b \<Rightarrow> Inr c
        | DsWaiting h f \<Rightarrow> if dlt (Fin 0) (wf_timeout f)
            then ds_wait_settle h (wait_round True 0 f (pr_mgr (cn_process c))) (cn_process c) else Inr c))"

text \<open>\<open>InitializeHAL\<close> up to the wait: the layer is initialised and no handle has been made.\<close>

definition process_init :: ds_process where
  "process_init = \<lparr>pr_ds = InitializeFRCDriverStation FRCDriverStation_init, pr_inst = None, refreshEvents = [],
     pr_mgr = HandleManager_init\<rparr>"

section \<open>Refreshing succeeds\<close>

definition ds_ok :: "FRCDriverStation \<Rightarrow> bool" where
  "ds_ok s \<longleftrightarrow> length (caches s) = 3 \<and> (\<forall>c \<in> set (caches s). cache_wf c) \<and> lastGiven s < 3 \<and> currentRead s < 3 \<and>
     currentReadLocal s < 3 \<and> cacheToUpdate s < 3 \<and> (case currentCache s of None \<Rightarrow> True | Some q \<Rightarrow> q < 3)"

lemma set_list_update_wf: "\<forall>c \<in> set cs. P c \<Longrightarrow> P x \<Longrightarrow> \<forall>c \<in> set (cs[i := x]). P c"
  using set_update_subset_insert [of cs i x] by blast

lemma newDataOccur_ok:
  assumes "newDataOccur rnd fl p s = Inr s'" "ds_ok s"
  shows "ds_ok s'"
proof -
  obtain c where c: "JoystickDataCache_Update rnd fl p (caches s ! cacheToUpdate s) = Inr c"
    using assms by (auto simp: newDataOccur_def bindR_Inr_iff arr_get_def split: if_splits)
  have "cache_wf c" by (rule Update_wf [OF c]) (use assms(2) in \<open>simp add: ds_ok_def\<close>)
  then have wf: "\<forall>c' \<in> set ((caches s)[cacheToUpdate s := c]). cache_wf c'"
    using assms(2) by (intro set_list_update_wf) (simp_all add: ds_ok_def)
  show ?thesis
    using assms wf c by (cases "currentCache s") (auto simp: newDataOccur_def bindR_Inr_iff arr_get_def Let_def ds_ok_def split: if_splits)
qed

lemma refresh_ok:
  assumes "ds_ok s"
  shows "\<exists>b s'. HAL_RefreshDSData s = Inr (b, s') \<and> ds_ok s'"
proof -
  define r where "r = (case currentCache s of None \<Rightarrow> currentRead s | Some q \<Rightarrow> q)"
  have r: "r < 3" using assms by (auto simp: r_def ds_ok_def split: option.splits)
  define c where "c = (let c0 = caches s ! r in
    if \<not> cw_dsAttached (jc_controlWord (caches s ! lastGiven s)) then c0\<lparr>jc_controlWord := ControlWord_zero\<rparr> else c0)"
  have "cache_wf (caches s ! r)" using assms r by (simp add: ds_ok_def)
  then have "cache_wf c" by (simp add: c_def Let_def cache_wf_def)
  then have "\<forall>c' \<in> set ((caches s)[r := c]). cache_wf c'"
    using assms by (intro set_list_update_wf) (simp_all add: ds_ok_def)
  then show ?thesis
    using assms r by (cases "currentCache s") (auto simp: HAL_RefreshDSData_def arr_get_def Let_def ds_ok_def r_def c_def)
qed

definition inst_ok :: "DS_Instance \<Rightarrow> bool" where
  "inst_ok d \<longleftrightarrow> length (previousButtonStates d) = kJoystickPorts \<and> length (joystickButtonsPressed d) = kJoystickPorts \<and>
     length (joystickButtonsReleased d) = kJoystickPorts"

lemma refresh_edges_ok:
  assumes "ds_ok s" "inst_ok d"
  shows "\<exists>d'. refresh_edges s d = Inr d' \<and> inst_ok d'"
  unfolding refresh_edges_def
proof (rule foldR_total [where P = inst_ok])
  fix i d assume i: "i \<in> set [0..<kJoystickPorts]" and d: "inst_ok d"
  have "cache_wf (caches s ! currentRead s)" using assms(1) by (simp add: ds_ok_def)
  then have "\<exists>b. HAL_GetJoystickButtons (int i) s = Inr (Some b)"
    using assms(1) i by (auto simp: HAL_GetJoystickButtons_def cache_read_def arr_get_def ds_ok_def cache_wf_def
        kJoystickPorts_def HAL_kMaxJoysticks_def)
  then show "\<exists>d'. bindR (HAL_GetJoystickButtons (int i) s) (\<lambda>b. case b of None \<Rightarrow> Inl NullDeref | Some cur \<Rightarrow> refresh_port i cur d) = Inr d' \<and> inst_ok d'"
    using i d by (auto simp: refresh_port_def arr_get_def inst_ok_def)
qed (rule assms(2))

lemma process_refresh_ok:
  assumes "ds_ok (pr_ds p)" "case pr_inst p of None \<Rightarrow> True | Some d \<Rightarrow> inst_ok d"
  shows "\<exists>ws p'. process_refreshData p = Inr (ws, p')"
proof -
  obtain b s1 where s1: "HAL_RefreshDSData (pr_ds p) = Inr (b, s1)" "ds_ok s1" using refresh_ok [OF assms(1)] by blast
  obtain d p1 where g: "ds_getInstance (p\<lparr>pr_ds := s1\<rparr>) = (d, p1)" by fastforce
  then have "ds_ok (pr_ds p1)" "inst_ok d"
    using s1(2) assms(2) by (auto simp: ds_getInstance_def InitializeFRCDriverStation_def ds_ok_def inst_ok_def DS_Instance_init_def
        split: option.splits)
  then obtain d1 where "refresh_edges (pr_ds p1) d = Inr d1" using refresh_edges_ok by blast
  then show ?thesis by (simp add: process_refreshData_def s1(1) g split: prod.split)
qed

text \<open>The first refresh of a process loses the control word it has just taken.\<close>

lemma first_refresh_zero:
  assumes "process_refreshData p = Inr (ws, p')" "pr_inst p = None"
  shows "newestControlWord (pr_ds p') = ControlWord_zero"
  using assms
  by (cases "ev_wakeup (refreshEvents p) (pr_mgr p)")
    (auto simp: process_refreshData_def bindR_Inr_iff Let_def ds_getInstance_def InitializeFRCDriverStation_def)

section \<open>The state of the wait\<close>

abbreviation first_event :: handle where "first_event \<equiv> 0x1000000"

definition waiting :: "bool \<Rightarrow> ds_conn \<Rightarrow> bool" where
  "waiting got c \<longleftrightarrow> cn_phase c = DsWaiting first_event \<lparr>wf_handles = [first_event], wf_size = 1, wf_timeout = Fin (-1), wf_added = True\<rparr> \<and>
     newDataEvents (pr_ds (cn_process c)) = [unat first_event] \<and> ds_initialized (pr_ds (cn_process c)) \<and>
     \<not> gShutdown (pr_mgr (cn_process c)) \<and>
     hm_states (pr_mgr (cn_process c)) first_event = Some \<lparr>signaled = of_bool got, autoReset = False, sy_waiters = [0]\<rparr> \<and>
     (got \<longrightarrow> cn_woken c) \<and> ds_ok (pr_ds (cn_process c)) \<and> pr_inst (cn_process c) = None"

lemma start_waiting: "\<exists>c. waitForDsConnection 0 process_init = Inr c \<and> waiting False c"
  by (simp add: waitForDsConnection_def process_init_def createEvent_def HandleManager_init_def make_handle_def
      kHandleTypeEvent_def put_entry_def state_at_def sync_state_zero_def HAL_ProvideNewDataEventHandle_def
      InitializeFRCDriverStation_def FRCDriverStation_init_def waitForObject_def waitForObjects_def wait_round_def
      scan_handle_def add_waiter_def ds_wait_settle_def waiting_def ds_ok_def cache_wf_def
      JoystickDataCache_zero_def HAL_kMaxJoysticks_def)

lemma newDataOccur_events:
  assumes "newDataOccur rnd fl payload s = Inr s'"
  shows "newDataEvents s' = newDataEvents s" "ds_initialized s' = ds_initialized s"
    "ds_signalled s' = ds_signalled s @ (if ds_initialized s then newDataEvents s else [])"
  using assms by (auto simp: newDataOccur_def bindR_Inr_iff Let_def split: option.splits if_splits)

lemma packet_wakes:
  assumes "waiting got c" "conn_step rnd fl (ConnPacket payload) c = Inr c'"
  shows "waiting True c'"
proof -
  obtain s1 where s1: "newDataOccur rnd fl payload (pr_ds (cn_process c)) = Inr s1"
    using assms(2) by (auto simp: conn_step_def process_packet_def bindR_Inr_iff)
  note e = newDataOccur_events [OF s1]
  have "(of_nat (unat first_event) :: u32) = first_event" by simp
  moreover have "ds_ok s1" using newDataOccur_ok [OF s1] assms(1) by (simp add: waiting_def)
  ultimately show ?thesis
    using assms e by (auto simp: waiting_def conn_step_def process_packet_def s1 setEvent_def setSignalObject_def
        handle_type_def kHandleTypeEvent_def put_entry_def)
qed

lemma wake_waiting:
  assumes "waiting got c" "conn_step rnd fl ConnWake c = Inr c'"
  shows "if got then cn_phase c' = DsReturned True else waiting False c'"
  using assms
  by (auto simp: waiting_def conn_step_def wait_round_def scan_handle_def ds_wait_settle_def ds_wait_done_def
      bindR_Inr_iff wait_value_def)

lemma wake_returns:
  assumes "waiting True c"
  shows "\<exists>c'. conn_step rnd fl ConnWake c = Inr c' \<and> cn_phase c' = DsReturned True"
proof -
  let ?p = "cn_process c"
  obtain f m where r: "cn_phase c = DsWaiting first_event f" "wait_round False 0 f (pr_mgr ?p) = (Finished [first_event] False, m)"
    using assms by (auto simp: waiting_def wait_round_def scan_handle_def)
  have ok: "ds_ok (pr_ds ?p)" "pr_inst ?p = None" using assms by (simp_all add: waiting_def)
  have "ds_ok (HAL_RemoveNewDataEventHandle (unat first_event) (pr_ds ?p))"
    using ok(1) by (simp add: ds_ok_def HAL_RemoveNewDataEventHandle_def)
  then obtain ws p' where "process_refreshData (?p\<lparr>pr_mgr := m, pr_ds := HAL_RemoveNewDataEventHandle (unat first_event) (pr_ds ?p)\<rparr>) = Inr (ws, p')"
    using process_refresh_ok [of "?p\<lparr>pr_mgr := m, pr_ds := HAL_RemoveNewDataEventHandle (unat first_event) (pr_ds ?p)\<rparr>"] ok(2)
    by auto
  then show ?thesis by (simp add: conn_step_def r ds_wait_settle_def ds_wait_done_def wait_value_def)
qed

lemma expire_waiting: "waiting got c \<Longrightarrow> conn_step rnd fl ConnExpire c = Inr c"
  by (simp add: waiting_def conn_step_def)

lemma returned_stays:
  "cn_phase c = DsReturned b \<Longrightarrow> conn_step rnd fl e c = Inr c' \<Longrightarrow> cn_phase c' = DsReturned b"
  by (cases e) (auto simp: conn_step_def bindR_Inr_iff)

definition packets :: "conn_event list \<Rightarrow> bytes list" where
  "packets es = concat (map (\<lambda>e. case e of ConnPacket p \<Rightarrow> [p] | _ \<Rightarrow> []) es)"

lemma run_waiting:
  assumes "foldR (conn_step rnd fl) es c = Inr c'" "waiting got c"
  shows "waiting (got \<or> packets es \<noteq> []) c' \<or> (got \<or> packets es \<noteq> []) \<and> cn_phase c' = DsReturned True"
  using assms
proof (induction es arbitrary: c got)
  case (Cons e es)
  obtain c1 where c1: "conn_step rnd fl e c = Inr c1" "foldR (conn_step rnd fl) es c1 = Inr c'"
    using Cons.prems(1) by (auto simp: bindR_Inr_iff)
  have done_: "cn_phase c' = DsReturned True" if "cn_phase c1 = DsReturned True"
    using foldR_inv [where P = "\<lambda>c. cn_phase c = DsReturned True", OF _ that c1(2)] returned_stays by blast
  show ?case
  proof (cases e)
    case (ConnPacket payload)
    then show ?thesis
      using Cons.IH [OF c1(2) packet_wakes [OF Cons.prems(2)]] c1(1) by (auto simp: packets_def)
  next
    case ConnWake
    have w: "if got then cn_phase c1 = DsReturned True else waiting False c1"
      using wake_waiting [OF Cons.prems(2)] c1(1) ConnWake by blast
    show ?thesis
    proof (cases got)
      case True
      then show ?thesis using w done_ by simp
    next
      case False
      then show ?thesis using w Cons.IH [OF c1(2), of False] ConnWake by (simp add: packets_def)
    qed
  next
    case ConnExpire
    then have "c1 = c" using expire_waiting [OF Cons.prems(2)] c1(1) by simp
    then show ?thesis using Cons.IH [OF c1(2)] Cons.prems(2) ConnExpire by (simp add: packets_def)
  qed
qed (simp add: packets_def)

section \<open>Properties\<close>

text \<open>C29: before the robot is made, the main thread waits until a packet of the driver station has
  been decoded: whatever wakes it up, it stays in \<open>waitForDsConnection(0)\<close> while no packet has come;
  from the first packet on it is notified, its next round makes the call return, and the call only
  ever returns true.\<close>

theorem start_waits_for_packet:
  assumes "waitForDsConnection 0 process_init = Inr c0" "foldR (conn_step rnd fl) es c0 = Inr c"
  shows "case cn_phase c of
      DsReturned b \<Rightarrow> b \<and> packets es \<noteq> []
    | DsWaiting h f \<Rightarrow> packets es \<noteq> [] \<longrightarrow> cn_woken c \<and> (\<exists>c'. conn_step rnd fl ConnWake c = Inr c' \<and> cn_phase c' = DsReturned True)"
proof -
  have "waiting False c0" using start_waiting assms(1) by auto
  then have r: "waiting (packets es \<noteq> []) c \<or> packets es \<noteq> [] \<and> cn_phase c = DsReturned True"
    using run_waiting [OF assms(2), of False] by simp
  show ?thesis
  proof (cases "waiting (packets es \<noteq> []) c")
    case True
    then have "cn_woken c \<and> (\<exists>c'. conn_step rnd fl ConnWake c = Inr c' \<and> cn_phase c' = DsReturned True)" if "packets es \<noteq> []"
      using that wake_returns [of c rnd fl] by (simp add: waiting_def)
    moreover obtain h f where "cn_phase c = DsWaiting h f" using True by (simp add: waiting_def)
    ultimately show ?thesis by simp
  qed (use r in simp)
qed

theorem start_waits_for_packet_witness:
  "\<exists>c0 c c'. waitForDsConnection 0 process_init = Inr c0 \<and> foldR (conn_step rnd64 rnd64) [ConnPacket demo_packet] c0 = Inr c \<and>
    conn_step rnd64 rnd64 ConnWake c = Inr c' \<and> cn_phase c' = DsReturned True"
proof -
  obtain c0 where c0: "waitForDsConnection 0 process_init = Inr c0" "waiting False c0" using start_waiting by blast
  then have ok: "ds_ok (pr_ds (cn_process c0))" by (simp add: waiting_def)
  then obtain s' where "newDataOccur rnd64 rnd64 demo_packet (pr_ds (cn_process c0)) = Inr s'"
    using demo_newData [of "pr_ds (cn_process c0)" rnd64 rnd64] by (auto simp: ds_ok_def)
  then obtain c where c: "conn_step rnd64 rnd64 (ConnPacket demo_packet) c0 = Inr c"
    by (cases "ev_wakeup (map of_nat (drop (length (ds_signalled (pr_ds (cn_process c0)))) (ds_signalled s'))) (pr_mgr (cn_process c0))")
      (simp add: conn_step_def process_packet_def)
  then have r: "foldR (conn_step rnd64 rnd64) [ConnPacket demo_packet] c0 = Inr c" by simp
  obtain h f where "cn_phase c = DsWaiting h f" using packet_wakes [OF c0(2) c] by (simp add: waiting_def)
  then obtain c' where "conn_step rnd64 rnd64 ConnWake c = Inr c'" "cn_phase c' = DsReturned True"
    using start_waits_for_packet [OF c0(1) r] by (auto simp: packets_def)
  then show ?thesis using c0(1) r by blast
qed

end
