(* ===== verification/Startup.thy ===== *)
theory Startup
  imports Config MqttClient DsConnection CanBus
begin

text \<open>
  Start-up of the robot process: \<open>InitializeHAL\<close> of \<open>lib/robot/RobotBase.cpp\<close> up to its wait for the
  driver station, which \<open>DsConnection\<close> has, and the entry points of \<open>lib/mqtt/Wrapper.cpp\<close> through which
  the network library reaches the client.  Once the client's thread is started its turns come between
  any two actions of the main thread.  \<open>tool_actions\<close> is the order of \<open>tools/main.cpp\<close>.
\<close>

section \<open>State\<close>

text \<open>The client held by \<open>g_mqttInstance\<close>, whether \<open>g_mqttClient_ptr\<close> and the shared pointer \<open>mqClient\<close> point
  to it, the configuration, the driver station and the CAN layer.\<close>

record startup =
  g_mqttInstance :: "mqtt_world option"
  g_mqttClient_ptr :: bool
  mqClient :: bool
  st_config :: config_statics
  st_process :: ds_process
  st_can :: can_world

text \<open>The YAML library with the files, the results of the socket and thread calls of each CAN server, and whether the
  client's thread can be made.\<close>

record 'n start_env =
  se_yaml :: "'n yaml"
  se_files :: "string \<Rightarrow> 'n option"
  se_sys :: "int \<Rightarrow> sys_results"
  se_thread :: bool

section \<open>The wrapper\<close>

definition client_create :: "startup \<Rightarrow> startup" where
  "client_create s = s\<lparr>g_mqttInstance := Some mqtt_init, g_mqttClient_ptr := True\<rparr>"

definition client_destroy :: "startup \<Rightarrow> startup" where
  "client_destroy s =
     (case g_mqttInstance s of None \<Rightarrow> s | Some _ \<Rightarrow> s\<lparr>g_mqttClient_ptr := False, g_mqttInstance := None\<rparr>)"

definition callbackEx :: "int \<Rightarrow> nat \<Rightarrow> reason \<Rightarrow> startup \<Rightarrow> fault + startup" where
  "callbackEx now wsi r s =
     (case g_mqttInstance s of None \<Rightarrow> Inr s
      | Some w \<Rightarrow> bindR (callback_mqtt now wsi r w) (\<lambda>w'. Inr (s\<lparr>g_mqttInstance := Some w'\<rparr>)))"

definition system_notify_cb :: "bool \<Rightarrow> bool \<Rightarrow> startup \<Rightarrow> startup" where
  "system_notify_cb operational ok s =
     (case g_mqttInstance s of None \<Rightarrow> s | Some w \<Rightarrow> s\<lparr>g_mqttInstance := Some (notifyCallback operational ok w)\<rparr>)"

section \<open>Actions of the main thread\<close>

text \<open>What \<open>loadConfig\<close> and the CAN layer read of the configuration.\<close>

definition mqtt_settings :: "Config \<Rightarrow> mqtt_config" where
  "mqtt_settings c = (let m = cf_mqtt c in
     \<lparr>mc_clientId = q_clientId m, mc_username = q_username m, mc_password = q_password m, mc_broker = q_broker m,
      mc_address = q_address m, mc_host = q_host m, mc_port = q_port m, mc_mqttPort = q_mqttPort m,
      mc_qos = q_qos m, mc_robotId = q_robotId m, mc_topics = q_topics m\<rparr>)"

definition can_settings :: "Config \<Rightarrow> can_world \<Rightarrow> can_world" where
  "can_settings c w = w\<lparr>maxCanDevice := o_maxCanDevice (cf_motor c), observerIp := o_observerIp (cf_motor c),
     udp_config := \<lparr>baseLocalPort = u_baseLocalPort (cf_udp c), baseRemotePort = u_baseRemotePort (cf_udp c)\<rparr>\<rparr>"

definition with_config :: "'n start_env \<Rightarrow> (Config \<Rightarrow> startup \<Rightarrow> fault + startup) \<Rightarrow> startup \<Rightarrow> fault + startup" where
  "with_config env f s =
     (case config_instance (se_yaml env) (se_files env) (st_config s) of
        (None, _) \<Rightarrow> Inl RuntimeError
      | (Some c, sc) \<Rightarrow> f c (s\<lparr>st_config := sc\<rparr>))"

text \<open>A member function of the client called through \<open>mqClient\<close> or \<open>g_mqttClient_ptr\<close>.\<close>

definition on_client :: "(startup \<Rightarrow> bool) \<Rightarrow> (mqtt_world \<Rightarrow> mqtt_world) \<Rightarrow> startup \<Rightarrow> fault + startup" where
  "on_client ptr f s =
     (if ptr s then Inr (s\<lparr>g_mqttInstance := map_option f (g_mqttInstance s)\<rparr>) else Inl NullDeref)"

datatype start_action = ClientCreate | BindClient | ConfigInit string | LoadConfig | StartMqtt
  | InitFRC | InitDriverStation | InitCANAPI int

definition do_action :: "'n start_env \<Rightarrow> start_action \<Rightarrow> startup \<Rightarrow> fault + startup" where
  "do_action env a s =
     (case a of
        ClientCreate \<Rightarrow> Inr (client_create s)
      | BindClient \<Rightarrow> Inr (s\<lparr>mqClient := g_mqttClient_ptr s\<rparr>)
      | ConfigInit path \<Rightarrow> Inr (s\<lparr>st_config := config_init path (st_config s)\<rparr>)
      | LoadConfig \<Rightarrow>
          if mqClient s then with_config env (\<lambda>c. on_client mqClient (on_mq (mqtt_loadConfig (mqtt_settings c)))) s
          else Inl NullDeref
      | StartMqtt \<Rightarrow> on_client mqClient (mqtt_start (se_thread env)) s
      | InitFRC \<Rightarrow> Inr (s\<lparr>st_process := (st_process s)\<lparr>pr_ds := InitializeFRCDriverStation (pr_ds (st_process s))\<rparr>\<rparr>)
      | InitDriverStation \<Rightarrow>
          on_client g_mqttClient_ptr (on_mq setOccurFuncPointer)
            (s\<lparr>st_process := (st_process s)\<lparr>pr_ds := InitializeFRCDriverStation (pr_ds (st_process s))\<rparr>\<rparr>)
      | InitCANAPI i \<Rightarrow>
          with_config env (\<lambda>c s.
            bindR (InitializeCANAPI (udp_start (se_sys env i)) i (can_settings c (st_can s))) (\<lambda>w. Inr (s\<lparr>st_can := w\<rparr>))) s)"

definition hal_actions :: "start_action list" where
  "hal_actions = [ClientCreate, BindClient, ConfigInit ''../config/config.yaml'', LoadConfig, InitDriverStation, StartMqtt,
     InitCANAPI 0, InitCANAPI 1]"

definition tool_actions :: "start_action list" where
  "tool_actions = [ClientCreate, BindClient, ConfigInit ''../../config/config.yaml'', LoadConfig, StartMqtt, InitFRC,
     InitDriverStation]"

definition startup_init :: "can_world \<Rightarrow> startup" where
  "startup_init w =
     \<lparr>g_mqttInstance = None, g_mqttClient_ptr = False, mqClient = False, st_config = config_statics_init,
      st_process = \<lparr>pr_ds = FRCDriverStation_init, pr_inst = None, refreshEvents = [], pr_mgr = HandleManager_init\<rparr>,
      st_can = w\<rparr>"

text \<open>The steps of the two threads; the first component is what the main thread has left to do.\<close>

definition thread_runs :: "startup \<Rightarrow> bool" where
  "thread_runs s = (case g_mqttInstance s of None \<Rightarrow> False | Some w \<Rightarrow> mq_thrCreated (mq w))"

inductive startup_step :: "'n start_env \<Rightarrow> start_action list \<times> startup \<Rightarrow> start_action list \<times> startup \<Rightarrow> bool"
  for env where
  main: "do_action env a s = Inr s' \<Longrightarrow> startup_step env (a # as, s) (as, s')"
| network: "thread_runs s \<Longrightarrow> g_mqttInstance s = Some w \<Longrightarrow> mqtt_turn t w = Inr w' \<Longrightarrow>
    startup_step env (as, s) (as, s\<lparr>g_mqttInstance := Some w'\<rparr>)"

inductive_cases startup_stepE: "startup_step env (as, s) (as', s')"

section \<open>Turns of the client's thread\<close>

text \<open>What a turn leaves alone, and that it does not fault with a handler and a topic.\<close>

definition ready :: "mqtt_world \<Rightarrow> bool" where
  "ready w \<longleftrightarrow> m_newDataOccurHandler (mq w) \<and> mq_topics (mq w) \<noteq> []"

definition same_client :: "mqtt_world \<Rightarrow> mqtt_world \<Rightarrow> bool" where
  "same_client w w' \<longleftrightarrow> m_newDataOccurHandler (mq w') = m_newDataOccurHandler (mq w) \<and>
     mq_topics (mq w') = mq_topics (mq w) \<and> mq_thrCreated (mq w') = mq_thrCreated (mq w)"

lemma same_client_trans: "same_client a b \<Longrightarrow> same_client b c \<Longrightarrow> same_client a c"
  by (simp add: same_client_def)

lemma ready_same: "same_client w w' \<Longrightarrow> ready w \<Longrightarrow> ready w'"
  by (simp add: same_client_def ready_def)

lemmas client_defs = same_client_def call_lws_def on_mq_def connect_def back_off_def Let_def

lemma same_publish: "same_client w (snd (publish_binary t d q r w))"
  by (simp add: publish_binary_def client_defs split: option.split)

lemma same_notify: "same_client w (notifyCallback operational ok w)"
  by (simp add: notifyCallback_def client_defs)

lemma same_reconnect: "same_client w (snd (reconnect now ok w))"
  by (simp add: reconnect_def client_defs)

lemma callback_ready:
  assumes "ready w"
  shows "\<exists>w'. callback_mqtt now wsi r w = Inr w' \<and> same_client w w'"
proof (cases r)
  case Established
  then show ?thesis
    by (simp add: callback_mqtt_def publishStatusOnline_def publish_binary_def addWsiInstance_def client_defs split: option.split)
next
  case Writeable
  then show ?thesis using assms
    by (auto simp: callback_mqtt_def onClientWriteAble_def ready_def client_defs split: list.split)
qed (use assms in \<open>auto simp: callback_mqtt_def scheduleReconnect_def removeWsiInstance_def processMessage_def ready_def
    client_defs split: option.split\<close>)

lemma service_ready: "ready w \<Longrightarrow> \<exists>w'. service e w = Inr w' \<and> same_client w w'"
  by (cases e) (simp_all add: same_notify callback_ready)

lemma turn_ready:
  assumes "ready w"
  shows "\<exists>w'. mqtt_turn t w = Inr w' \<and> same_client w w'"
proof -
  obtain evs now ok where t: "t = (evs, now, ok)" by (cases t) auto
  have "\<exists>w1. foldR service evs w = Inr w1 \<and> (same_client w w1 \<and> ready w1)"
    by (rule foldR_total) (use assms service_ready in \<open>fastforce simp: same_client_def ready_def\<close>)+
  then obtain w1 where "foldR service evs w = Inr w1" "same_client w w1" by blast
  then show ?thesis using same_client_trans [OF _ same_reconnect] by (auto simp: mqtt_turn_def t)
qed

section \<open>The main thread is not disturbed\<close>

text \<open>Two states that differ at most in what turns of the client's thread change.\<close>

definition agree :: "startup \<Rightarrow> startup \<Rightarrow> bool" where
  "agree m s \<longleftrightarrow> m\<lparr>g_mqttInstance := None\<rparr> = s\<lparr>g_mqttInstance := None\<rparr> \<and>
     rel_option same_client (g_mqttInstance m) (g_mqttInstance s)"

lemma agree_refl: "agree m m"
  by (cases "g_mqttInstance m") (simp_all add: agree_def same_client_def)

lemma agree_fields:
  assumes "agree m s"
  shows "mqClient s = mqClient m" "g_mqttClient_ptr s = g_mqttClient_ptr m" "st_config s = st_config m"
    "st_process s = st_process m" "st_can s = st_can m"
  using assms by (cases m, cases s, simp add: agree_def)+

lemma agree_update:
  assumes "agree m s"
  shows "agree (m\<lparr>mqClient := b\<rparr>) (s\<lparr>mqClient := b\<rparr>)" "agree (m\<lparr>st_config := c\<rparr>) (s\<lparr>st_config := c\<rparr>)"
    "agree (m\<lparr>st_process := p\<rparr>) (s\<lparr>st_process := p\<rparr>)" "agree (m\<lparr>st_can := w\<rparr>) (s\<lparr>st_can := w\<rparr>)"
    "agree (client_create m) (client_create s)"
  using assms by (cases m, cases s, simp add: agree_def client_create_def same_client_def)+

definition client_hom :: "(mqtt_world \<Rightarrow> mqtt_world) \<Rightarrow> bool" where
  "client_hom f \<longleftrightarrow> (\<forall>w w'. same_client w w' \<longrightarrow> same_client (f w) (f w'))"

lemma hom_client:
  "client_hom (on_mq (mqtt_loadConfig cfg))" "client_hom (mqtt_start b)" "client_hom (on_mq setOccurFuncPointer)"
  by (simp_all add: client_hom_def same_client_def on_mq_def mqtt_loadConfig_def mqtt_start_def setOccurFuncPointer_def)

lemma agree_on_client:
  assumes "agree m s" "ptr m = ptr s" "client_hom f" "on_client ptr f m = Inr m'"
  shows "\<exists>s'. on_client ptr f s = Inr s' \<and> agree m' s'"
proof -
  have m: "ptr m" "m' = m\<lparr>g_mqttInstance := map_option f (g_mqttInstance m)\<rparr>"
    using assms(4) by (auto simp: on_client_def split: if_splits)
  have "rel_option same_client (g_mqttInstance m) (g_mqttInstance s)" using assms(1) by (simp add: agree_def)
  then have "rel_option same_client (map_option f (g_mqttInstance m)) (map_option f (g_mqttInstance s))"
    using assms(3) by (cases "g_mqttInstance m"; cases "g_mqttInstance s") (simp_all add: client_hom_def)
  then show ?thesis using m assms(1,2) by (cases m, cases s, simp add: on_client_def agree_def)
qed

lemma action_agrees:
  assumes "agree m s" "do_action env a m = Inr m'"
  shows "\<exists>s'. do_action env a s = Inr s' \<and> agree m' s'"
proof (cases a)
  case LoadConfig
  obtain r sc where c: "config_instance (se_yaml env) (se_files env) (st_config m) = (r, sc)" by fastforce
  then obtain cfg where r: "r = Some cfg" "mqClient m"
    and m: "on_client mqClient (on_mq (mqtt_loadConfig (mqtt_settings cfg))) (m\<lparr>st_config := sc\<rparr>) = Inr m'"
    using assms(2) LoadConfig by (auto simp: do_action_def with_config_def split: if_splits option.splits)
  have "mqClient (m\<lparr>st_config := sc\<rparr>) = mqClient (s\<lparr>st_config := sc\<rparr>)" using agree_fields(1) [OF assms(1)] by simp
  from agree_on_client [OF agree_update(2) [OF assms(1)] this hom_client(1) m]
  show ?thesis using LoadConfig c r agree_fields [OF assms(1)] by (simp add: do_action_def with_config_def)
next
  case (InitCANAPI i)
  obtain r sc where c: "config_instance (se_yaml env) (se_files env) (st_config m) = (r, sc)" by fastforce
  then obtain cfg w where r: "r = Some cfg"
    and w: "InitializeCANAPI (udp_start (se_sys env i)) i (can_settings cfg (st_can m)) = Inr w"
    and m: "m' = m\<lparr>st_config := sc, st_can := w\<rparr>"
    using assms(2) InitCANAPI by (auto simp: do_action_def with_config_def bindR_Inr_iff split: option.splits)
  show ?thesis using InitCANAPI c r w m agree_fields [OF assms(1)] agree_update(4) [OF agree_update(2) [OF assms(1)]]
    by (simp add: do_action_def with_config_def)
next
  case InitDriverStation
  let ?p = "(st_process m)\<lparr>pr_ds := InitializeFRCDriverStation (pr_ds (st_process m))\<rparr>"
  have "on_client g_mqttClient_ptr (on_mq setOccurFuncPointer) (m\<lparr>st_process := ?p\<rparr>) = Inr m'"
    using assms(2) InitDriverStation by (simp add: do_action_def)
  moreover have "g_mqttClient_ptr (m\<lparr>st_process := ?p\<rparr>) = g_mqttClient_ptr (s\<lparr>st_process := ?p\<rparr>)"
    using agree_fields(2) [OF assms(1)] by simp
  ultimately show ?thesis
    using agree_on_client [OF agree_update(3) [OF assms(1)] _ hom_client(3)] InitDriverStation agree_fields(4) [OF assms(1)]
    by (simp add: do_action_def)
next
  case StartMqtt
  then show ?thesis
    using assms(2) agree_on_client [OF assms(1) agree_fields(1) [OF assms(1), symmetric] hom_client(2)]
    by (simp add: do_action_def)
qed (use assms agree_fields [OF assms(1)] agree_update [OF assms(1)] in \<open>auto simp: do_action_def\<close>)

text \<open>A main thread that goes through on its own, and is ready whenever the client's thread runs.\<close>

definition safe :: "startup \<Rightarrow> bool" where
  "safe s \<longleftrightarrow> (\<forall>w. g_mqttInstance s = Some w \<longrightarrow> mq_thrCreated (mq w) \<longrightarrow> ready w)"

fun runs_to :: "'n start_env \<Rightarrow> (startup \<Rightarrow> bool) \<Rightarrow> start_action list \<Rightarrow> startup \<Rightarrow> bool" where
  "runs_to env P [] s = (safe s \<and> P s)"
| "runs_to env P (a # as) s = (safe s \<and> (\<exists>s'. do_action env a s = Inr s' \<and> runs_to env P as s'))"

definition shadowed :: "'n start_env \<Rightarrow> (startup \<Rightarrow> bool) \<Rightarrow> start_action list \<times> startup \<Rightarrow> bool" where
  "shadowed env P = (\<lambda>(as, s). \<exists>m. agree m s \<and> runs_to env P as m)"

lemma safe_agree:
  assumes "agree m s" "safe m"
  shows "safe s"
proof -
  have "rel_option same_client (g_mqttInstance m) (g_mqttInstance s)" using assms(1) by (simp add: agree_def)
  then show ?thesis using assms(2)
    by (cases "g_mqttInstance m"; cases "g_mqttInstance s") (auto simp: safe_def same_client_def ready_def)
qed

lemma runs_to_safe: "runs_to env P as m \<Longrightarrow> safe m"
  by (cases as) auto

lemma step_shadowed:
  assumes "startup_step env p p'" "shadowed env P p"
  shows "shadowed env P p'"
  using assms
proof (induction rule: startup_step.induct)
  case (main a s s' as)
  then obtain m m' where m: "agree m s" "do_action env a m = Inr m'" "runs_to env P as m'" by (auto simp: shadowed_def)
  from action_agrees [OF m(1,2)] main.hyps have "agree m' s'" by auto
  then show ?case using m(3) by (auto simp: shadowed_def)
next
  case (network s w t w' as)
  then obtain m where m: "agree m s" "runs_to env P as m" by (auto simp: shadowed_def)
  have "ready w"
    using safe_agree [OF m(1) runs_to_safe [OF m(2)]] network.hyps(1,2) by (simp add: safe_def thread_runs_def)
  then have "same_client w w'" using turn_ready [of w t] network.hyps(3) by auto
  then have "agree m (s\<lparr>g_mqttInstance := Some w'\<rparr>)"
    using m(1) network.hyps(2) same_client_trans by (cases "g_mqttInstance m") (auto simp: agree_def)
  then show ?case using m(2) by (auto simp: shadowed_def)
qed

lemma steps_shadowed: "(startup_step env)\<^sup>*\<^sup>* p p' \<Longrightarrow> shadowed env P p \<Longrightarrow> shadowed env P p'"
  by (induction rule: rtranclp_induct) (auto intro: step_shadowed)

section \<open>The order of \<open>InitializeHAL\<close>\<close>

text \<open>A CAN server as its start leaves it.\<close>

definition server_up :: "Config \<Rightarrow> sys_results \<Rightarrow> int \<Rightarrow> UdpServer \<Rightarrow> bool" where
  "server_up c r i s \<longleftrightarrow> m_canHandles s \<and> m_localPort s = word_of_int (u_baseLocalPort (cf_udp c) + i * 2) \<and>
     (r_bind r \<noteq> -1 \<longrightarrow> \<not> m_isClosed s \<and> m_remotePort s = word_of_int (u_baseRemotePort (cf_udp c) + i * 2)) \<and>
     (m_threadStarted s \<longleftrightarrow> r_bind r \<noteq> -1 \<and> r_pthread_create r = 0)"

lemma InitializeCANAPI_ok:
  assumes "r_inet_aton r" "getInstance i w = UdpServer_init i"
  shows "\<exists>w'. InitializeCANAPI (udp_start r) i (can_settings c w) = Inr w' \<and> server_up c r i (getInstance i w') \<and>
    canHandles w' \<noteq> None \<and> (\<forall>j. j \<noteq> i \<longrightarrow> getInstance j w' = getInstance j w)"
  using assms
  by (auto simp: InitializeCANAPI_def udp_start_def udp_init_def can_settings_def server_up_def Let_def UdpServer_init_def
      getInstance_def putInstance_def split: option.splits)

definition hal_done :: "'n start_env \<Rightarrow> Config \<Rightarrow> startup \<Rightarrow> bool" where
  "hal_done env c s \<longleftrightarrow> ds_initialized (pr_ds (st_process s)) \<and> canHandles (st_can s) \<noteq> None \<and>
     (\<forall>i\<in>{0, 1}. server_up c (se_sys env i) i (getInstance i (st_can s)))"

lemma first_instance:
  assumes "files path = Some doc" "load_root y doc Config_defaults = (True, c)" "path \<noteq> []"
  shows "config_instance y files (config_init path config_statics_init) =
      (Some c, \<lparr>s_yamlPath = path, cfg_instance = c, cfg_loaded = True\<rparr>)"
    and "config_instance y files \<lparr>s_yamlPath = path, cfg_instance = c, cfg_loaded = True\<rparr> =
      (Some c, \<lparr>s_yamlPath = path, cfg_instance = c, cfg_loaded = True\<rparr>)"
  using assms by (simp_all add: config_instance_def config_init_def config_statics_init_def config_path_def config_load_def)

lemma hal_runs:
  assumes conf: "se_files env ''../config/config.yaml'' = Some doc" "load_root (se_yaml env) doc Config_defaults = (True, c)"
    and topics: "q_topics (cf_mqtt c) \<noteq> []" and aton: "\<And>i. r_inet_aton (se_sys env i)" and fresh: "servers w0 = Map.empty"
  shows "runs_to env (hal_done env c) hal_actions (startup_init w0)"
proof -
  obtain w1 where w1: "InitializeCANAPI (udp_start (se_sys env 0)) 0 (can_settings c w0) = Inr w1"
    "server_up c (se_sys env 0) 0 (getInstance 0 w1)" "\<And>j. j \<noteq> 0 \<Longrightarrow> getInstance j w1 = getInstance j w0"
    using InitializeCANAPI_ok [OF aton, of 0 w0 0 c] fresh by (auto simp: getInstance_def)
  obtain w2 hs where w2: "InitializeCANAPI (udp_start (se_sys env 1)) 1 (can_settings c w1) = Inr w2"
    "server_up c (se_sys env 1) 1 (getInstance 1 w2)" "canHandles w2 = Some hs"
    "\<And>j. j \<noteq> 1 \<Longrightarrow> getInstance j w2 = getInstance j w1"
    using InitializeCANAPI_ok [OF aton, of 1 w1 1 c] w1(3) [of 1] fresh by (auto simp: getInstance_def)
  note cfg = first_instance [where files = "se_files env" and path = "''../config/config.yaml''", OF conf, simplified]
  show ?thesis
    unfolding hal_actions_def
    by (simp add: startup_init_def do_action_def client_create_def with_config_def cfg on_client_def w1(1) w2(1)
        safe_def ready_def on_mq_def mqtt_loadConfig_def mqtt_settings_def Let_def setOccurFuncPointer_def mqtt_start_def
        mqtt_init_def MqttClient_ctor_def topics hal_done_def w2 w1 InitializeFRCDriverStation_def)
qed


text \<open>A main thread that goes through can be run to its end.\<close>

lemma runs_to_reaches:
  "runs_to env P as m \<Longrightarrow> \<exists>m'. (startup_step env)\<^sup>*\<^sup>* (as, m) ([], m') \<and> P m'"
proof (induction "as" arbitrary: m)
  case (Cons a as)
  then obtain m1 where m1: "do_action env a m = Inr m1" "runs_to env P as m1" by auto
  from Cons.IH [OF m1(2)] main [OF m1(1), of as] show ?case by (blast intro: converse_rtranclp_into_rtranclp)
qed auto

definition sys_fine :: sys_results where
  "sys_fine = \<lparr>r_socket = 5, r_inet_aton = True, r_gethostbyname = True, r_bind = 0, r_pthread_create = 0, r_close = 0\<rparr>"

definition env_sample :: "doc_node start_env" where
  "env_sample = \<lparr>se_yaml = doc_yaml, se_files = (\<lambda>p. Some doc_sample), se_sys = (\<lambda>i. sys_fine), se_thread = True\<rparr>"

definition can_sample :: can_world where
  "can_sample = \<lparr>canHandles = None, servers = Map.empty, param_cache = MotorParamCache_init, maxCanDevice = 0,
     udp_config = \<lparr>baseLocalPort = 0, baseRemotePort = 0\<rparr>, observerIp = [], send_result = (\<lambda>_. 13), sent = []\<rparr>"

lemma sample_topics: "q_topics (cf_mqtt sample_config) \<noteq> []"
  by code_simp


text \<open>In the order of \<open>tools/main.cpp\<close> the thread is started before the handler is set: a message that arrives in
  between calls a handler that is not there.\<close>

lemma tool_start_faults:
  assumes "se_files env ''../../config/config.yaml'' = Some doc" "load_root (se_yaml env) doc Config_defaults = (True, c)"
    and "se_thread env"
  shows "\<exists>s w. (startup_step env)\<^sup>*\<^sup>* (tool_actions, startup_init w0) ([InitFRC, InitDriverStation], s) \<and>
    g_mqttInstance s = Some w \<and> mq_thrCreated (mq w) \<and> mqtt_turn ([Callback 0 0 (Rx [])], 0, True) w = Inl NullDeref"
proof -
  note cfg = first_instance [where files = "se_files env" and path = "''../../config/config.yaml''", OF assms(1,2), simplified]
  let ?s1 = "client_create (startup_init w0)"
  let ?s2 = "?s1\<lparr>mqClient := True\<rparr>"
  let ?s3 = "?s2\<lparr>st_config := config_init ''../../config/config.yaml'' config_statics_init\<rparr>"
  let ?w4 = "on_mq (mqtt_loadConfig (mqtt_settings c)) mqtt_init"
  let ?s4 = "?s3\<lparr>st_config := \<lparr>s_yamlPath = ''../../config/config.yaml'', cfg_instance = c, cfg_loaded = True\<rparr>,
      g_mqttInstance := Some ?w4\<rparr>"
  let ?w5 = "mqtt_start True ?w4"
  have "do_action env ClientCreate (startup_init w0) = Inr ?s1" "do_action env BindClient ?s1 = Inr ?s2"
    "do_action env (ConfigInit ''../../config/config.yaml'') ?s2 = Inr ?s3" "do_action env LoadConfig ?s3 = Inr ?s4"
    "do_action env StartMqtt ?s4 = Inr (?s4\<lparr>g_mqttInstance := Some ?w5\<rparr>)"
    by (simp_all add: do_action_def client_create_def startup_init_def with_config_def cfg on_client_def assms(3))
  then have "(startup_step env)\<^sup>*\<^sup>* (tool_actions, startup_init w0)
      ([InitFRC, InitDriverStation], ?s4\<lparr>g_mqttInstance := Some ?w5\<rparr>)"
    unfolding tool_actions_def by (blast intro: main converse_rtranclp_into_rtranclp)
  moreover have "mq_thrCreated (mq ?w5)" "mqtt_turn ([Callback 0 0 (Rx [])], 0, True) ?w5 = Inl NullDeref"
    by (simp_all add: mqtt_start_def on_mq_def mqtt_loadConfig_def mqtt_init_def MqttClient_ctor_def mqtt_turn_def
        callback_mqtt_def processMessage_def)
  ultimately show ?thesis by (intro exI [of _ "?s4\<lparr>g_mqttInstance := Some ?w5\<rparr>"] exI [of _ ?w5]) simp
qed

end
