(* ===== verification/Notifier.thy ===== *)
theory Notifier
  imports Prelude
begin

text \<open>
  \<open>lib/common/Notifier.cpp\<close>: notifiers behind handles, stopping them and waiting for their alarms.
  A shared pointer is an index into the notifiers made so far.  \<open>HAL_WaitForNotifierAlarm\<close> is split where
  it blocks: entering, and one turn of its loop after each wake-up, which may come at any time since
  the wait has a timeout.
\<close>

section \<open>Notifiers and handles\<close>

record Notifier =
  n_waitTime :: u64
  n_active :: bool
  n_waitTimeValid :: bool
  n_waitingForAlarm :: bool
  n_waitCount :: u64

definition Notifier_init :: Notifier where
  "Notifier_init = \<lparr>n_waitTime = -1, n_active = True, n_waitTimeValid = False, n_waitingForAlarm = False, n_waitCount = 0\<rparr>"

text \<open>The process: whether \<open>InitializeNotifier\<close> has run, the container's vector, the notifiers made.\<close>

record notifiers =
  notifierHandles :: bool
  m_structures :: "nat option list"
  made :: "Notifier list"

definition notifiers_start :: notifiers where
  "notifiers_start = \<lparr>notifierHandles = False, m_structures = [], made = []\<rparr>"

definition InitializeNotifier :: "notifiers \<Rightarrow> notifiers" where
  "InitializeNotifier s = s\<lparr>notifierHandles := True\<rparr>"

definition HAL_kInvalidHandle :: u32 where
  "HAL_kInvalidHandle = 0"

definition createHandle :: "int \<Rightarrow> int \<Rightarrow> int \<Rightarrow> u32" where
  "createHandle index handleType version =
     (if index < 0 then HAL_kInvalidHandle
      else let hType = word_of_int handleType :: u8 in
        if hType = 0 \<or> 127 < hType then HAL_kInvalidHandle
        else push_bit 16 (push_bit 8 (ucast hType) + ucast (word_of_int version :: u8)) + word_of_int index)"

definition GetIndex :: "u32 \<Rightarrow> int" where
  "GetIndex handle = sint (ucast (handle AND 0xffff) :: u16)"

definition int16_of :: "int \<Rightarrow> int" where
  "int16_of i = sint (word_of_int i :: u16)"

definition free_slot :: "nat option list \<Rightarrow> nat" where
  "free_slot v = length (takeWhile (\<lambda>p. p \<noteq> None) v)"

definition Allocate :: "nat \<Rightarrow> nat option list \<Rightarrow> u32 \<times> nat option list" where
  "Allocate p v =
     (let i = free_slot v in
      if i < length v then (createHandle (int16_of (int i)) 3 0, v[i := Some p])
      else if 32767 \<le> i then (HAL_kInvalidHandle, v)
      else (createHandle (int16_of (int i)) 3 0, v @ [Some p]))"

definition in_container :: "int \<Rightarrow> nat option list \<Rightarrow> bool" where
  "in_container index v \<longleftrightarrow> \<not> (index < 0 \<or> int16_of (int (length v)) \<le> index)"

definition Get :: "u32 \<Rightarrow> nat option list \<Rightarrow> nat option" where
  "Get handle v = (let index = GetIndex handle in if in_container index v then v ! nat index else None)"

definition Free :: "u32 \<Rightarrow> nat option list \<Rightarrow> nat option \<times> nat option list" where
  "Free handle v =
     (let index = GetIndex handle in
      if in_container index v then (v ! nat index, v[nat index := None]) else (None, v))"

section \<open>Starting, stopping, waiting\<close>

definition HAL_InitializeNotifier :: "notifiers \<Rightarrow> fault + u32 \<times> notifiers" where
  "HAL_InitializeNotifier s =
     (if notifierHandles s
      then case Allocate (length (made s)) (m_structures s) of
        (handle, v) \<Rightarrow> Inr (handle, s\<lparr>m_structures := v, made := made s @ [Notifier_init]\<rparr>)
      else Inl NullDeref)"

definition HAL_StopNotifier :: "u32 \<Rightarrow> notifiers \<Rightarrow> fault + notifiers" where
  "HAL_StopNotifier handle s =
     (if notifierHandles s
      then Inr (case Get handle (m_structures s) of
          None \<Rightarrow> s
        | Some p \<Rightarrow> s\<lparr>made := (made s)[p := (made s ! p)\<lparr>n_active := False, n_waitTimeValid := False\<rparr>]\<rparr>)
      else Inl NullDeref)"

text \<open>Entering the wait: the notifier waited for, or \<^const>\<open>None\<close> when the call returns 0 at once.\<close>

definition wait_enter :: "u32 \<Rightarrow> notifiers \<Rightarrow> fault + nat option \<times> notifiers" where
  "wait_enter handle s =
     (if notifierHandles s
      then Inr (case Get handle (m_structures s) of
          None \<Rightarrow> (None, s)
        | Some p \<Rightarrow> (Some p, s\<lparr>made := (made s)[p := (made s ! p)\<lparr>n_waitingForAlarm := True,
              n_waitCount := n_waitCount (made s ! p) + 1\<rparr>]\<rparr>))
      else Inl NullDeref)"

text \<open>One turn of the loop: the value returned, or \<^const>\<open>None\<close> to wait on.\<close>

definition wait_turn :: "Notifier \<Rightarrow> u64 option \<times> Notifier" where
  "wait_turn n =
     (if n_active n
      then let curTime = 0 in
        if n_waitTimeValid n \<and> n_waitTime n \<le> curTime
        then (Some curTime, n\<lparr>n_waitTimeValid := False, n_waitingForAlarm := False\<rparr>)
        else (None, n)
      else (Some 0, n\<lparr>n_waitingForAlarm := False\<rparr>))"

text \<open>Threads: those inside the wait, by their notifier, and the returns seen.\<close>

record waits =
  w_state :: notifiers
  w_inside :: "nat list"
  w_returns :: "(nat \<times> u64) list"

definition waits_start :: waits where
  "waits_start = \<lparr>w_state = InitializeNotifier notifiers_start, w_inside = [], w_returns = []\<rparr>"

inductive notifier_step :: "waits \<Rightarrow> waits \<Rightarrow> bool" where
  make: "HAL_InitializeNotifier (w_state w) = Inr (handle, s) \<Longrightarrow> notifier_step w (w\<lparr>w_state := s\<rparr>)"
| stop: "HAL_StopNotifier handle (w_state w) = Inr s \<Longrightarrow> notifier_step w (w\<lparr>w_state := s\<rparr>)"
| enter: "wait_enter handle (w_state w) = Inr (Some p, s) \<Longrightarrow>
    notifier_step w (w\<lparr>w_state := s, w_inside := p # w_inside w\<rparr>)"
| stay: "p \<in> set (w_inside w) \<Longrightarrow> wait_turn (made (w_state w) ! p) = (None, n) \<Longrightarrow>
    notifier_step w (w\<lparr>w_state := (w_state w)\<lparr>made := (made (w_state w))[p := n]\<rparr>\<rparr>)"
| leave: "p \<in> set (w_inside w) \<Longrightarrow> wait_turn (made (w_state w) ! p) = (Some r, n) \<Longrightarrow>
    notifier_step w (w\<lparr>w_state := (w_state w)\<lparr>made := (made (w_state w))[p := n]\<rparr>,
      w_inside := remove1 p (w_inside w), w_returns := (p, r) # w_returns w\<rparr>)"

section \<open>Handles\<close>

lemma int16_of_small: "0 \<le> i \<Longrightarrow> i < 2 ^ 15 \<Longrightarrow> int16_of i = i"
  unfolding int16_of_def sint_sbintrunc' by (rule signed_take_bit_int_eq_self) simp_all

lemma low_half: "ucast (x AND 0xffff) = (ucast (x :: u32) :: u16)"
proof -
  have m: "(0xffff :: u32) = mask 16" by (simp add: mask_eq_exp_minus_1)
  show ?thesis unfolding m by (intro bit_word_eqI) (simp add: bit_simps)
qed

lemma ucast_of_int: "ucast (word_of_int k :: u32) = (word_of_int k :: u16)"
  by (rule word_uint_eqI) (simp add: unsigned_ucast_eq unsigned_of_int min_def)

lemma GetIndex_createHandle:
  assumes "0 \<le> i" "i < 2 ^ 15"
  shows "GetIndex (createHandle i 3 0) = i" "createHandle i 3 0 \<noteq> HAL_kInvalidHandle"
proof -
  have h: "createHandle i 3 0 = 0x03000000 + word_of_int i"
    using assms by (simp add: createHandle_def push_bit_eq_mult)
  have w: "0x03000000 + word_of_int i = (word_of_int (0x03000000 + i) :: u32)" by simp
  have u: "uint (word_of_int (0x03000000 + i) :: u32) = 0x03000000 + i"
  proof -
    have "take_bit 32 (0x03000000 + i) = 0x03000000 + i" by (rule take_bit_int_eq_self) (use assms in simp_all)
    then show ?thesis using assms by (simp only: unsigned_of_int len_of_numeral_defs) simp
  qed
  have "(word_of_int (0x03000000 + i) :: u16) = 0x03000000 + word_of_int i" by (simp only: of_int_add of_int_numeral)
  also have "\<dots> = word_of_int i" by (simp add: word_eq_iff_unsigned)
  finally have "ucast (word_of_int (0x03000000 + i) AND 0xffff :: u32) = (word_of_int i :: u16)"
    unfolding low_half ucast_of_int .
  then show "GetIndex (createHandle i 3 0) = i"
    using int16_of_small [OF assms] by (simp only: GetIndex_def h w int16_of_def)
  show "createHandle i 3 0 \<noteq> HAL_kInvalidHandle"
    using u assms unfolding h w HAL_kInvalidHandle_def by auto
qed

section \<open>Invariant\<close>

definition container_ok :: "notifiers \<Rightarrow> bool" where
  "container_ok s \<longleftrightarrow> length (m_structures s) < 2 ^ 15 \<and> (\<forall>p. Some p \<in> set (m_structures s) \<longrightarrow> p < length (made s)) \<and>
     (\<forall>i j p. i < length (m_structures s) \<longrightarrow> j < length (m_structures s) \<longrightarrow> m_structures s ! i = Some p \<longrightarrow>
        m_structures s ! j = Some p \<longrightarrow> i = j)"

lemma in_container_ok:
  assumes "length v < 2 ^ 15"
  shows "in_container i v \<longleftrightarrow> 0 \<le> i \<and> i < int (length v)"
  using assms int16_of_small [of "int (length v)"] by (auto simp: in_container_def)

lemma Get_made: "container_ok s \<Longrightarrow> Get handle (m_structures s) = Some p \<Longrightarrow> p < length (made s)"
  by (auto simp: Get_def Let_def in_container_ok container_ok_def split: if_splits) (metis nat_less_iff nth_mem)

lemma free_slot_less: "free_slot v < length v \<Longrightarrow> v ! free_slot v = None"
  unfolding free_slot_def using nth_length_takeWhile by fastforce

lemma Allocate_invalid:
  assumes "length v < 2 ^ 15" "Allocate p v = (HAL_kInvalidHandle, v')"
  shows "v' = v"
proof (rule ccontr)
  let ?i = "int (free_slot v)"
  assume "v' \<noteq> v"
  then have "?i < 2 ^ 15" "createHandle (int16_of ?i) 3 0 = HAL_kInvalidHandle"
    using assms by (auto simp: Allocate_def Let_def split: if_splits)
  then show False using GetIndex_createHandle(2) [of ?i] int16_of_small [of ?i] by simp
qed

text \<open>What \<open>Allocate\<close> gives: an entry of its own, found again under the handle returned.\<close>

lemma Allocate_ok:
  assumes "container_ok s" "Allocate (length (made s)) (m_structures s) = (handle, v)" "handle \<noteq> HAL_kInvalidHandle"
  shows "Get handle v = Some (length (made s))" "container_ok (s\<lparr>m_structures := v, made := made s @ [n]\<rparr>)"
    "\<forall>h p. Get h (m_structures s) = Some p \<longrightarrow> Get h v = Some p"
proof -
  let ?v = "m_structures s" and ?p = "length (made s)"
  define i where "i = free_slot ?v"
  have le: "i \<le> length ?v" by (simp add: i_def free_slot_def length_takeWhile_le)
  have len: "length ?v < 2 ^ 15" using assms(1) by (simp add: container_ok_def)
  have v: "v = (if i < length ?v then ?v[i := Some ?p] else ?v @ [Some ?p])" "i < 32767 \<or> i < length ?v"
    "handle = createHandle (int16_of (int i)) 3 0"
    using assms(2,3) by (auto simp: Allocate_def Let_def i_def [symmetric] split: if_splits)
  have i: "int i < 2 ^ 15" "length v < 2 ^ 15" using v le len by (auto split: if_splits)
  then have g: "GetIndex handle = int i"
    using GetIndex_createHandle(1) [of "int i"] int16_of_small [of "int i"] by (simp add: v(3))
  have ent: "i < length v" "v ! i = Some ?p" "\<And>j. j \<noteq> i \<Longrightarrow> j < length v \<Longrightarrow> j < length ?v \<and> v ! j = ?v ! j"
    using v(1) le by (auto simp: nth_append split: if_splits)
  show "Get handle v = Some ?p" using g ent in_container_ok [OF i(2)] by (simp add: Get_def)
  have old: "?v ! j = Some q \<Longrightarrow> j < length ?v \<Longrightarrow> q < ?p" for j q
    using assms(1) unfolding container_ok_def by (metis nth_mem)
  have keep: "j < length ?v \<Longrightarrow> ?v ! j = Some q \<Longrightarrow> j < length v \<and> v ! j = Some q" for j q
    using v(1) free_slot_less [of ?v] by (auto simp: i_def nth_append nth_list_update)
  show "\<forall>h p. Get h ?v = Some p \<longrightarrow> Get h v = Some p"
  proof (intro allI impI)
    fix h p
    assume "Get h ?v = Some p"
    then have "0 \<le> GetIndex h" "nat (GetIndex h) < length ?v" "?v ! nat (GetIndex h) = Some p"
      by (auto simp: Get_def Let_def in_container_ok [OF len] split: if_splits)
    with keep [of "nat (GetIndex h)" p] show "Get h v = Some p"
      by (simp add: Get_def Let_def in_container_ok [OF i(2)] nat_less_iff)
  qed
  have "j = k" if "j < length v" "k < length v" "v ! j = Some q" "v ! k = Some q" for j k q
  proof (cases "j = i \<or> k = i")
    case True
    then show ?thesis using that ent old by (metis less_irrefl option.inject)
  next
    case False
    then show ?thesis using that ent(3) assms(1) unfolding container_ok_def by metis
  qed
  moreover have "q < Suc ?p" if "Some q \<in> set v" for q
    using that ent old by (metis in_set_conv_nth less_Suc_eq option.inject)
  ultimately show "container_ok (s\<lparr>m_structures := v, made := made s @ [n]\<rparr>)" using i(2) by (simp add: container_ok_def)
qed

definition waits_inv :: "waits \<Rightarrow> bool" where
  "waits_inv w \<longleftrightarrow> notifierHandles (w_state w) \<and> container_ok (w_state w) \<and>
     (\<forall>n\<in>set (made (w_state w)). \<not> n_waitTimeValid n) \<and>
     (\<forall>p\<in>set (w_inside w). p < length (made (w_state w))) \<and>
     (\<forall>(p, r)\<in>set (w_returns w). p < length (made (w_state w)) \<and> r = 0 \<and> \<not> n_active (made (w_state w) ! p))"

lemma container_made: "container_ok s \<Longrightarrow> length (made s) \<le> length m \<Longrightarrow> container_ok (s\<lparr>made := m\<rparr>)"
  by (auto simp: container_ok_def)

text \<open>Replacing a notifier by one whose alarm is not set and that is not active again.\<close>

lemma waits_inv_update:
  assumes "waits_inv w" "p < length (made (w_state w))" "\<not> n_waitTimeValid n"
    and "n_active n \<Longrightarrow> n_active (made (w_state w) ! p)"
  shows "waits_inv (w\<lparr>w_state := (w_state w)\<lparr>made := (made (w_state w))[p := n]\<rparr>\<rparr>)"
  using assms container_made [of "w_state w" "(made (w_state w))[p := n]"]
  by (auto simp: waits_inv_def nth_list_update split: if_splits dest!: set_update_subset_insert [THEN subsetD])

lemma wait_turn_unset:
  assumes "\<not> n_waitTimeValid n" "wait_turn n = (r, n')"
  shows "r = (if n_active n then None else Some 0)" "\<not> n_waitTimeValid n'" "n_active n' = n_active n"
  using assms by (auto simp: wait_turn_def Let_def split: if_splits)

lemma notifier_step_inv:
  assumes "notifier_step w w'" "waits_inv w"
  shows "waits_inv w'"
  using assms
proof (induction rule: notifier_step.induct)
  case (make w handle s)
  obtain h v where a: "Allocate (length (made (w_state w))) (m_structures (w_state w)) = (h, v)" by fastforce
  let ?s = "(w_state w)\<lparr>m_structures := v, made := made (w_state w) @ [Notifier_init]\<rparr>"
  have s: "s = ?s" using make a by (auto simp: HAL_InitializeNotifier_def split: if_splits)
  have "container_ok ?s"
  proof (cases "h = HAL_kInvalidHandle")
    case True
    have "v = m_structures (w_state w)"
      using Allocate_invalid [OF _ a [unfolded True]] make.prems by (simp add: waits_inv_def container_ok_def)
    then show ?thesis using container_made [of "w_state w" "made (w_state w) @ [Notifier_init]"] make.prems True
      by (auto simp: waits_inv_def)
  next
    case False
    then show ?thesis using Allocate_ok(2) [OF _ a] make.prems by (simp add: waits_inv_def)
  qed
  then show ?case using make.prems unfolding s
    by (auto simp: waits_inv_def Notifier_init_def nth_append)
next
  case (stop handle w s)
  show ?case
  proof (cases "Get handle (m_structures (w_state w))")
    case (Some p)
    have "p < length (made (w_state w))" using Get_made [OF _ Some] stop.prems by (simp add: waits_inv_def)
    note u = waits_inv_update [OF stop.prems this,
        of "(made (w_state w) ! p)\<lparr>n_active := False, n_waitTimeValid := False\<rparr>"]
    have s: "s = (w_state w)\<lparr>made := (made (w_state w))[p := (made (w_state w) ! p)\<lparr>n_active := False, n_waitTimeValid := False\<rparr>]\<rparr>"
      using stop Some by (auto simp: HAL_StopNotifier_def split: if_splits)
    show ?thesis unfolding s by (rule u) simp_all
  qed (use stop in \<open>auto simp: HAL_StopNotifier_def split: if_splits\<close>)
next
  case (enter handle w p s)
  then have g: "Get handle (m_structures (w_state w)) = Some p"
    by (auto simp: wait_enter_def split: if_splits option.splits)
  let ?n = "(made (w_state w) ! p)\<lparr>n_waitingForAlarm := True, n_waitCount := n_waitCount (made (w_state w) ! p) + 1\<rparr>"
  have p: "p < length (made (w_state w))" using Get_made [OF _ g] enter.prems by (simp add: waits_inv_def)
  have s: "s = (w_state w)\<lparr>made := (made (w_state w))[p := ?n]\<rparr>"
    using enter g by (auto simp: wait_enter_def split: if_splits)
  have "waits_inv (w\<lparr>w_state := s\<rparr>)"
    unfolding s by (rule waits_inv_update [OF enter.prems p]) (use enter.prems p in \<open>auto simp: waits_inv_def\<close>)
  then show ?case using p s by (simp add: waits_inv_def)
next
  case (stay p w n)
  then have p: "p < length (made (w_state w))" "\<not> n_waitTimeValid (made (w_state w) ! p)" by (auto simp: waits_inv_def)
  show ?case by (rule waits_inv_update [OF stay.prems p(1)]) (use wait_turn_unset [OF p(2) stay.hyps(2)] in auto)
next
  case (leave p w r n)
  then have p: "p < length (made (w_state w))" "\<not> n_waitTimeValid (made (w_state w) ! p)" by (auto simp: waits_inv_def)
  note t = wait_turn_unset [OF p(2) leave.hyps(2)]
  have "waits_inv (w\<lparr>w_state := (w_state w)\<lparr>made := (made (w_state w))[p := n]\<rparr>\<rparr>)"
    by (rule waits_inv_update [OF leave.prems p(1)]) (use t in auto)
  moreover have "set (remove1 p (w_inside w)) \<subseteq> set (w_inside w)" by (rule set_remove1_subset)
  moreover have "r = 0 \<and> \<not> n_active n" using t by (simp split: if_splits)
  ultimately show ?case using p(1) by (auto simp: waits_inv_def)
qed

interpretation waits: invariant_steps notifier_step waits_start waits_inv
proof unfold_locales
  show "waits_inv waits_start"
    by (simp add: waits_inv_def waits_start_def InitializeNotifier_def notifiers_start_def container_ok_def)
qed (rule notifier_step_inv)

text \<open>In every run of the notifiers: a wait returns only after its notifier was stopped, and then with 0, since no
  operation sets an alarm; a wake-up of a thread whose notifier was stopped ends its wait; and valid handles of
  different entries refer to different notifiers.\<close>

theorem wait_returns_after_stop:
  assumes "notifier_step\<^sup>*\<^sup>* waits_start w"
  shows "(\<forall>(p, r)\<in>set (w_returns w). r = 0 \<and> \<not> n_active (made (w_state w) ! p)) \<and>
         (\<forall>p\<in>set (w_inside w). fst (wait_turn (made (w_state w) ! p)) =
            (if n_active (made (w_state w) ! p) then None else Some 0)) \<and>
         (\<forall>h1 h2 p. Get h1 (m_structures (w_state w)) = Some p \<longrightarrow> Get h2 (m_structures (w_state w)) = Some p \<longrightarrow>
            GetIndex h1 = GetIndex h2)"
proof -
  have i: "waits_inv w" by (rule waits.always [OF assms])
  have t: "fst (wait_turn (made (w_state w) ! p)) = (if n_active (made (w_state w) ! p) then None else Some 0)"
    if "p \<in> set (w_inside w)" for p
  proof -
    have "\<not> n_waitTimeValid (made (w_state w) ! p)" using i that by (simp add: waits_inv_def)
    from wait_turn_unset(1) [OF this] show ?thesis by (cases "wait_turn (made (w_state w) ! p)") simp
  qed
  have len: "length (m_structures (w_state w)) < 2 ^ 15" using i by (simp add: waits_inv_def container_ok_def)
  have "GetIndex h1 = GetIndex h2"
    if "Get h1 (m_structures (w_state w)) = Some p" "Get h2 (m_structures (w_state w)) = Some p" for h1 h2 p
  proof -
    have "nat (GetIndex h1) = nat (GetIndex h2)"
      using that i unfolding waits_inv_def container_ok_def
      by (auto simp: Get_def Let_def in_container_ok [OF len] nat_less_iff split: if_splits)
    then show ?thesis using that by (auto simp: Get_def Let_def in_container_ok [OF len] split: if_splits)
  qed
  with t i show ?thesis unfolding waits_inv_def by blast
qed

text \<open>A handle that was freed is given out again, and then finds the new notifier.\<close>

lemma stale_handle_found:
  assumes "Allocate 0 [] = (h, v)"
  shows "Get h (snd (Free h v)) = None \<and> Get h (snd (Allocate 1 (snd (Free h v)))) = Some 1"
proof -
  have h: "v = [Some 0]" "GetIndex h = 0"
    using assms GetIndex_createHandle(1) [of 0] by (auto simp: Allocate_def free_slot_def int16_of_small)
  have c: "in_container 0 [x]" for x :: "nat option" by (simp add: in_container_ok)
  show ?thesis by (simp add: h c Get_def Free_def Allocate_def free_slot_def)
qed

end
