(* ===== verification/EventLoop.thy ===== *)
theory EventLoop
  imports Prelude
begin

text \<open>
  \<open>lib/ds/BooleanEvent.cpp\<close> and \<open>EventLoop.cpp\<close>.  A \<open>std::shared_ptr<bool>\<close> is an index into the
  loop's cells; the closures are data: the conditions that occur in the sources, with the mutable
  \<open>m_previous\<close> of the edge detectors inside them.  \<open>RefTo v\<close> is a lambda that captured the local
  variable \<open>v\<close> of type \<open>BooleanEvent\<close> by reference; \<open>ev_locals\<close> holds the state cells of the
  local variables that are alive, and using a dead one is a fault.  Raw signals (joystick buttons)
  are numbers, and \<open>env\<close> gives their values when they are read.
\<close>

section \<open>State\<close>

datatype condition = Raw int | NotC nat | AndC nat condition | OrC nat condition
  | RisingC nat bool | FallingC nat bool | RefTo nat

datatype 'a binding = SetState condition nat | IfHigh nat 'a

record 'a EventLoop =
  ev_cells :: "bool list"
  m_bindings :: "'a binding list"
  m_running :: bool
  ev_locals :: "nat \<rightharpoonup> nat"

record BooleanEvent =
  be_signal :: condition
  be_state :: nat

definition EventLoop_init :: "'a EventLoop" where
  "EventLoop_init = \<lparr>ev_cells = [], m_bindings = [], m_running = False, ev_locals = Map.empty\<rparr>"

section \<open>Operations\<close>

text \<open>Calling a condition also gives the condition it has become.\<close>

fun eval_condition ::
    "(int \<Rightarrow> bool) \<Rightarrow> (nat \<rightharpoonup> nat) \<Rightarrow> bool list \<Rightarrow> condition \<Rightarrow> fault + bool \<times> condition" where
  "eval_condition env lv cs (Raw n) = Inr (env n, Raw n)"
| "eval_condition env lv cs (NotC c) = bindR (arr_get cs c) (\<lambda>b. Inr (\<not> b, NotC c))"
| "eval_condition env lv cs (AndC c rhs) =
     bindR (arr_get cs c) (\<lambda>b. if b then bindR (eval_condition env lv cs rhs) (\<lambda>(r, rhs'). Inr (r, AndC c rhs'))
                               else Inr (False, AndC c rhs))"
| "eval_condition env lv cs (OrC c rhs) =
     bindR (arr_get cs c) (\<lambda>b. if b then Inr (True, OrC c rhs)
                               else bindR (eval_condition env lv cs rhs) (\<lambda>(r, rhs'). Inr (r, OrC c rhs')))"
| "eval_condition env lv cs (RisingC c past) =
     bindR (arr_get cs c) (\<lambda>present. Inr (\<not> past \<and> present, RisingC c present))"
| "eval_condition env lv cs (FallingC c past) =
     bindR (arr_get cs c) (\<lambda>present. Inr (past \<and> \<not> present, FallingC c present))"
| "eval_condition env lv cs (RefTo v) =
     (case lv v of None \<Rightarrow> Inl NullDeref | Some c \<Rightarrow> bindR (arr_get cs c) (\<lambda>b. Inr (b, RefTo v)))"

definition bind :: "'a binding \<Rightarrow> 'a EventLoop \<Rightarrow> 'a EventLoop" where
  "bind action l = l\<lparr>m_bindings := m_bindings l @ [action]\<rparr>"

definition clear :: "'a EventLoop \<Rightarrow> 'a EventLoop" where
  "clear l = l\<lparr>m_bindings := []\<rparr>"

definition BooleanEvent_ctor ::
    "(int \<Rightarrow> bool) \<Rightarrow> condition \<Rightarrow> 'a EventLoop \<Rightarrow> fault + BooleanEvent \<times> 'a EventLoop" where
  "BooleanEvent_ctor env cond l =
     bindR (eval_condition env (ev_locals l) (ev_cells l) cond) (\<lambda>(b, cond').
       let c = length (ev_cells l)
       in Inr (\<lparr>be_signal = cond', be_state = c\<rparr>, bind (SetState cond' c) (l\<lparr>ev_cells := ev_cells l @ [b]\<rparr>)))"

definition getAsBoolean :: "BooleanEvent \<Rightarrow> 'a EventLoop \<Rightarrow> fault + bool" where
  "getAsBoolean e l = arr_get (ev_cells l) (be_state e)"

definition ifHigh :: "BooleanEvent \<Rightarrow> 'a \<Rightarrow> 'a EventLoop \<Rightarrow> 'a EventLoop" where
  "ifHigh e action l = bind (IfHigh (be_state e) action) l"

definition op_not :: "(int \<Rightarrow> bool) \<Rightarrow> BooleanEvent \<Rightarrow> 'a EventLoop \<Rightarrow> fault + BooleanEvent \<times> 'a EventLoop" where
  "op_not env e l = BooleanEvent_ctor env (NotC (be_state e)) l"

definition op_and ::
    "(int \<Rightarrow> bool) \<Rightarrow> BooleanEvent \<Rightarrow> condition \<Rightarrow> 'a EventLoop \<Rightarrow> fault + BooleanEvent \<times> 'a EventLoop" where
  "op_and env e rhs l = BooleanEvent_ctor env (AndC (be_state e) rhs) l"

definition op_or ::
    "(int \<Rightarrow> bool) \<Rightarrow> BooleanEvent \<Rightarrow> condition \<Rightarrow> 'a EventLoop \<Rightarrow> fault + BooleanEvent \<times> 'a EventLoop" where
  "op_or env e rhs l = BooleanEvent_ctor env (OrC (be_state e) rhs) l"

definition rising :: "(int \<Rightarrow> bool) \<Rightarrow> BooleanEvent \<Rightarrow> 'a EventLoop \<Rightarrow> fault + BooleanEvent \<times> 'a EventLoop" where
  "rising env e l = bindR (getAsBoolean e l) (\<lambda>b. BooleanEvent_ctor env (RisingC (be_state e) b) l)"

definition falling :: "(int \<Rightarrow> bool) \<Rightarrow> BooleanEvent \<Rightarrow> 'a EventLoop \<Rightarrow> fault + BooleanEvent \<times> 'a EventLoop" where
  "falling env e l = bindR (getAsBoolean e l) (\<lambda>b. BooleanEvent_ctor env (FallingC (be_state e) b) l)"

text \<open>Running one binding: the binding afterwards, the cells, and the actions run.\<close>

definition run_binding ::
    "(int \<Rightarrow> bool) \<Rightarrow> (nat \<rightharpoonup> nat) \<Rightarrow> 'a binding \<Rightarrow> bool list \<Rightarrow> fault + 'a binding \<times> bool list \<times> 'a list" where
  "run_binding env lv b cs =
     (case b of
        SetState cond c \<Rightarrow> bindR (eval_condition env lv cs cond) (\<lambda>(v, cond').
          bindR (arr_set cs c v) (\<lambda>cs'. Inr (SetState cond' c, cs', [])))
      | IfHigh c a \<Rightarrow> bindR (arr_get cs c) (\<lambda>v. Inr (IfHigh c a, cs, if v then [a] else [])))"

fun run_bindings ::
    "(int \<Rightarrow> bool) \<Rightarrow> (nat \<rightharpoonup> nat) \<Rightarrow> 'a binding list \<Rightarrow> bool list \<Rightarrow> fault + 'a binding list \<times> bool list \<times> 'a list" where
  "run_bindings env lv [] cs = Inr ([], cs, [])"
| "run_bindings env lv (b # bs) cs =
     bindR (run_binding env lv b cs) (\<lambda>(b', cs1, as1).
     bindR (run_bindings env lv bs cs1) (\<lambda>(bs', cs2, as2). Inr (b' # bs', cs2, as1 @ as2)))"

definition poll :: "(int \<Rightarrow> bool) \<Rightarrow> 'a EventLoop \<Rightarrow> fault + 'a list \<times> 'a EventLoop" where
  "poll env l =
     bindR (run_bindings env (ev_locals l) (m_bindings l) (ev_cells l)) (\<lambda>(bs, cs, as).
       Inr (as, l\<lparr>m_bindings := bs, ev_cells := cs, m_running := False\<rparr>))"

section \<open>Lemmas\<close>

lemma run_bindings_append:
  "run_bindings env lv (xs @ ys) cs =
   bindR (run_bindings env lv xs cs) (\<lambda>(xs', cs1, as1).
   bindR (run_bindings env lv ys cs1) (\<lambda>(ys', cs2, as2). Inr (xs' @ ys', cs2, as1 @ as2)))"
  by (induction xs arbitrary: cs) (auto simp: bindR_def split: sum.split prod.split)

lemma run_bindings_appendE:
  assumes "run_bindings env lv (xs @ b # ys) cs = Inr (zs, cs', as)"
  obtains xs' cs1 as1 b' cs2 as2 ys' as3 where "run_bindings env lv xs cs = Inr (xs', cs1, as1)"
    "run_binding env lv b cs1 = Inr (b', cs2, as2)" "run_bindings env lv ys cs2 = Inr (ys', cs', as3)"
    "zs = xs' @ b' # ys'" "as = as1 @ as2 @ as3"
  using assms unfolding run_bindings_append bindR_Inr_iff by (auto simp: bindR_Inr_iff)

text \<open>The cell a binding writes and the action it may run are fixed.\<close>

fun writes :: "'a binding \<Rightarrow> nat set" where
  "writes (SetState cond c) = {c}"
| "writes (IfHigh c a) = {}"

fun acts :: "'a binding \<Rightarrow> 'a set" where
  "acts (SetState cond c) = {}"
| "acts (IfHigh c a) = {a}"

definition all_writes :: "'a binding list \<Rightarrow> nat set" where
  "all_writes bs = \<Union> (writes ` set bs)"

definition all_acts :: "'a binding list \<Rightarrow> 'a set" where
  "all_acts bs = \<Union> (acts ` set bs)"

lemma run_binding_frame:
  assumes "run_binding env lv b cs = Inr (b', cs', as)"
  shows "writes b' = writes b" "acts b' = acts b" "length cs' = length cs" "set as \<subseteq> acts b"
    "c \<notin> writes b \<Longrightarrow> cs' ! c = cs ! c"
  using assms by (auto simp: run_binding_def bindR_Inr_iff arr_set_def split: binding.splits if_splits)

lemma run_bindings_frame:
  assumes "run_bindings env lv bs cs = Inr (bs', cs', as)"
  shows "all_writes bs' = all_writes bs \<and> all_acts bs' = all_acts bs \<and> length cs' = length cs \<and>
    set as \<subseteq> all_acts bs \<and> (\<forall>c. c \<notin> all_writes bs \<longrightarrow> cs' ! c = cs ! c)"
  using assms
proof (induction bs arbitrary: bs' cs as)
  case Nil
  then show ?case by (simp add: all_writes_def all_acts_def)
next
  case (Cons b bs)
  obtain b' cs1 as1 bs1 as2 where r: "run_binding env lv b cs = Inr (b', cs1, as1)"
    "run_bindings env lv bs cs1 = Inr (bs1, cs', as2)" "bs' = b' # bs1" "as = as1 @ as2"
    using Cons.prems by (auto simp: bindR_Inr_iff)
  show ?case
    using run_binding_frame [OF r(1)] Cons.IH [OF r(2)] r(3,4) by (auto simp: all_writes_def all_acts_def)
qed

section \<open>Edge-triggered actions\<close>

text \<open>
  A loop in which an event on the raw signal \<open>n\<close> (cell \<open>c\<close>), the edge detector on it (cell \<open>d\<close>)
  and the action \<open>a\<close> bound to the detector stand in this order, among bindings that neither write
  the two cells nor run \<open>a\<close>.
\<close>

definition edge_loop :: "int \<Rightarrow> nat \<Rightarrow> nat \<Rightarrow> 'a \<Rightarrow> bool \<Rightarrow> 'a EventLoop \<Rightarrow> bool" where
  "edge_loop n c d a past l \<longleftrightarrow> (\<exists>us vs xs ys.
     m_bindings l = us @ [SetState (Raw n) c] @ vs @ [SetState (RisingC c past) d] @ xs @ [IfHigh d a] @ ys \<and>
     c \<noteq> d \<and> c < length (ev_cells l) \<and> d < length (ev_cells l) \<and>
     {c, d} \<inter> (all_writes us \<union> all_writes vs \<union> all_writes xs \<union> all_writes ys) = {} \<and>
     a \<notin> all_acts us \<union> all_acts vs \<union> all_acts xs \<union> all_acts ys)"

lemma edge_poll:
  assumes "edge_loop n c d a past l" "poll env l = Inr (as, l')"
  shows "edge_loop n c d a (env n) l'" "a \<in> set as \<longleftrightarrow> \<not> past \<and> env n"
proof -
  obtain us vs xs ys where bs: "m_bindings l = us @ [SetState (Raw n) c] @ vs @ [SetState (RisingC c past) d] @ xs @ [IfHigh d a] @ ys"
    and cd: "c \<noteq> d" "c < length (ev_cells l)" "d < length (ev_cells l)"
    and w: "{c, d} \<inter> (all_writes us \<union> all_writes vs \<union> all_writes xs \<union> all_writes ys) = {}"
    and ac: "a \<notin> all_acts us \<union> all_acts vs \<union> all_acts xs \<union> all_acts ys"
    using assms(1) by (auto simp: edge_loop_def)
  let ?lv = "ev_locals l" and ?R = "run_bindings env (ev_locals l)"
  let ?e = "env n"
  obtain zs cs7 where z: "?R (us @ SetState (Raw n) c # vs @ SetState (RisingC c past) d # xs @ IfHigh d a # ys) (ev_cells l) =
      Inr (zs, cs7, as)" and l': "l' = l\<lparr>m_bindings := zs, ev_cells := cs7, m_running := False\<rparr>"
    using assms(2) by (auto simp: poll_def bs bindR_Inr_iff)
  obtain us' cs1 as1 b1 cs2 as2 zs1 as3 where u: "?R us (ev_cells l) = Inr (us', cs1, as1)"
    and b1: "run_binding env ?lv (SetState (Raw n) c) cs1 = Inr (b1, cs2, as2)"
    and z1: "?R (vs @ SetState (RisingC c past) d # xs @ IfHigh d a # ys) cs2 = Inr (zs1, cs7, as3)"
    and zs: "zs = us' @ b1 # zs1" "as = as1 @ as2 @ as3"
    by (rule run_bindings_appendE [OF z])
  obtain vs' cs3 as4 b2 cs4 as5 zs2 as6 where v: "?R vs cs2 = Inr (vs', cs3, as4)"
    and b2: "run_binding env ?lv (SetState (RisingC c past) d) cs3 = Inr (b2, cs4, as5)"
    and z2: "?R (xs @ IfHigh d a # ys) cs4 = Inr (zs2, cs7, as6)"
    and zs1: "zs1 = vs' @ b2 # zs2" "as3 = as4 @ as5 @ as6"
    by (rule run_bindings_appendE [OF z1])
  obtain xs' cs5 as7 b3 cs6 as8 ys' as9 where x: "?R xs cs4 = Inr (xs', cs5, as7)"
    and b3: "run_binding env ?lv (IfHigh d a) cs5 = Inr (b3, cs6, as8)" and y: "?R ys cs6 = Inr (ys', cs7, as9)"
    and zs2: "zs2 = xs' @ b3 # ys'" "as6 = as7 @ as8 @ as9"
    by (rule run_bindings_appendE [OF z2])
  have s1: "b1 = SetState (Raw n) c" "cs2 = cs1[c := ?e]" "as2 = []" "c < length cs1"
    and s2: "b2 = SetState (RisingC c (cs3 ! c)) d" "cs4 = cs3[d := \<not> past \<and> cs3 ! c]" "as5 = []" "d < length cs3"
    and s3: "b3 = IfHigh d a" "cs6 = cs5" "as8 = (if cs5 ! d then [a] else [])"
    using b1 b2 b3 by (auto simp: run_binding_def bindR_Inr_iff arr_set_def arr_get_def split: if_splits)
  note fr = run_bindings_frame [OF u] run_bindings_frame [OF v] run_bindings_frame [OF x] run_bindings_frame [OF y]
  have c3: "cs3 ! c = ?e" using fr(2) w s1 by auto
  have d5: "cs5 ! d = (\<not> past \<and> ?e)" using fr(3) w c3 s2 by auto
  have len: "length cs7 = length (ev_cells l)" using fr s1 s2 s3 by simp
  show "edge_loop n c d a (env n) l'"
    unfolding edge_loop_def l'
    by (rule exI [of _ us'], rule exI [of _ vs'], rule exI [of _ xs'], rule exI [of _ ys'])
      (use fr w ac cd len zs zs1 zs2 s1 s2 s3 c3 in simp)
  have "set as = set as1 \<union> set as4 \<union> set as7 \<union> (if cs5 ! d then {a} else {}) \<union> set as9"
    using zs zs1 zs2 s1 s2 s3 by auto
  moreover have "a \<notin> set as1 \<union> set as4 \<union> set as7 \<union> set as9" using fr ac by blast
  ultimately show "a \<in> set as \<longleftrightarrow> \<not> past \<and> env n" using d5 by auto
qed

fun polls :: "(int \<Rightarrow> bool) list \<Rightarrow> 'a EventLoop \<Rightarrow> fault + 'a list list \<times> 'a EventLoop" where
  "polls [] l = Inr ([], l)"
| "polls (e # es) l = bindR (poll e l) (\<lambda>(as, l1). bindR (polls es l1) (\<lambda>(ass, l2). Inr (as # ass, l2)))"

lemma edge_polls:
  assumes "edge_loop n c d a past l" "polls es l = Inr (ass, l')"
  shows "map (\<lambda>as. a \<in> set as) ass = map2 (\<lambda>p q. \<not> p \<and> q) (past # map (\<lambda>e. e n) es) (map (\<lambda>e. e n) es)"
  using assms
proof (induction es arbitrary: past l ass)
  case (Cons e es)
  obtain as l1 ass' where r: "poll e l = Inr (as, l1)" "polls es l1 = Inr (ass', l')" "ass = as # ass'"
    using Cons.prems(2) by (auto simp: bindR_Inr_iff)
  show ?case
    using Cons.IH [OF edge_poll(1) [OF Cons.prems(1) r(1)] r(2)] edge_poll(2) [OF Cons.prems(1) r(1)] r(3) by simp
qed simp

section \<open>Properties\<close>

text \<open>An action bound with \<open>rising().ifHigh\<close> to an event on a raw signal runs, at each poll of the
  loop, exactly when the signal is high and was low at the poll before (at construction, for the
  first poll), whatever other events share the loop.\<close>

theorem rising_runs_on_edges:
  assumes "all_writes (m_bindings l) \<subseteq> {..<length (ev_cells l)}" "a \<notin> all_acts (m_bindings l)"
    "BooleanEvent_ctor env (Raw n) l = Inr (e, l1)" "rising env e l1 = Inr (r, l2)"
    "polls es (ifHigh r a l2) = Inr (ass, l')"
  shows "map (\<lambda>as. a \<in> set as) ass = map2 (\<lambda>p q. \<not> p \<and> q) (env n # map (\<lambda>e. e n) es) (map (\<lambda>e. e n) es)"
proof (rule edge_polls [OF _ assms(5)])
  let ?c = "length (ev_cells l)"
  have l1: "l1 = bind (SetState (Raw n) ?c) (l\<lparr>ev_cells := ev_cells l @ [env n]\<rparr>)" "be_state e = ?c"
    using assms(3) by (auto simp: BooleanEvent_ctor_def Let_def)
  have l2: "l2 = bind (SetState (RisingC ?c (env n)) (Suc ?c)) (l1\<lparr>ev_cells := ev_cells l1 @ [False]\<rparr>)"
    "be_state r = Suc ?c"
    using assms(4) by (auto simp: l1 rising_def getAsBoolean_def BooleanEvent_ctor_def arr_get_def bind_def Let_def)
  have w: "?c \<notin> all_writes (m_bindings l)" "Suc ?c \<notin> all_writes (m_bindings l)" using assms(1) by auto
  show "edge_loop n ?c (Suc ?c) a (env n) (ifHigh r a l2)"
    unfolding edge_loop_def
    by (rule exI [of _ "m_bindings l"], rule exI [of _ "[]"], rule exI [of _ "[]"], rule exI [of _ "[]"])
      (use w assms(2) in \<open>simp add: ifHigh_def l2 l1 bind_def; simp add: all_writes_def all_acts_def\<close>)
qed

definition demo_button :: "(BooleanEvent \<times> unit EventLoop)" where
  "demo_button = projr (BooleanEvent_ctor (\<lambda>_. False) (Raw 3) EventLoop_init)"

definition demo_edge :: "(BooleanEvent \<times> unit EventLoop)" where
  "demo_edge = projr (rising (\<lambda>_. False) (fst demo_button) (snd demo_button))"

definition demo_polls :: "unit list list \<times> unit EventLoop" where
  "demo_polls = projr (polls [\<lambda>n. n = 3, \<lambda>n. n = 3, \<lambda>n. False, \<lambda>n. n = 3] (ifHigh (fst demo_edge) () (snd demo_edge)))"

theorem rising_runs_on_edges_witness:
  "map (\<lambda>as. () \<in> set as) (fst demo_polls) = [True, False, False, True]"
proof -
  have s: "\<not> isl (BooleanEvent_ctor (\<lambda>_. False) (Raw 3) (EventLoop_init :: unit EventLoop))"
    "\<not> isl (rising (\<lambda>_. False) (fst demo_button) (snd demo_button))"
    "\<not> isl (polls [\<lambda>n. n = 3, \<lambda>n. n = 3, \<lambda>n. False, \<lambda>n. n = 3] (ifHigh (fst demo_edge) () (snd demo_edge)))"
    by code_simp+
  have "BooleanEvent_ctor (\<lambda>_. False) (Raw 3) EventLoop_init = Inr (fst demo_button, snd demo_button)"
    "rising (\<lambda>_. False) (fst demo_button) (snd demo_button) = Inr (fst demo_edge, snd demo_edge)"
    "polls [\<lambda>n. n = 3, \<lambda>n. n = 3, \<lambda>n. False, \<lambda>n. n = 3] (ifHigh (fst demo_edge) () (snd demo_edge)) =
       Inr (fst demo_polls, snd demo_polls)"
    using s by (simp_all add: demo_button_def demo_edge_def demo_polls_def)
  from rising_runs_on_edges [OF _ _ this] show ?thesis
    by (simp add: EventLoop_init_def all_writes_def all_acts_def)
qed

end
