(* ===== verification/TimedRobot.thy ===== *)
theory TimedRobot
  imports DriverStation "HOL-Library.Multiset"
begin

text \<open>
  \<open>lib/common/priority_queue.h\<close>, \<open>lib/robot/TimedRobot.cpp\<close> and \<open>IterativeRobotBase.cpp\<close>: the
  queue of periodic callbacks, the main loop that runs the due ones, and the mode dispatch of one
  loop.  The standard heap functions are represented by a sorted vector, which is a heap; they may
  arrange equal keys differently, and nothing below depends on the arrangement of equal keys.
  The virtual functions that \<open>loopFunc\<close> calls are recorded as a list of calls.
\<close>

section \<open>The priority queue\<close>

definition pq_push :: "('a \<Rightarrow> u64) \<Rightarrow> 'a \<Rightarrow> 'a list \<Rightarrow> 'a list" where
  "pq_push key x m_c = insort_key key x m_c"

definition pq_pop :: "'a list \<Rightarrow> fault + 'a \<times> 'a list" where
  "pq_pop m_c = (case m_c of [] \<Rightarrow> Inl OutOfBounds | x # xs \<Rightarrow> Inr (x, xs))"

definition pq_top :: "'a list \<Rightarrow> fault + 'a" where
  "pq_top m_c = (case m_c of [] \<Rightarrow> Inl OutOfBounds | x # xs \<Rightarrow> Inr x)"

definition pq_remove :: "'a \<Rightarrow> 'a list \<Rightarrow> bool \<times> 'a list" where
  "pq_remove x m_c = (if x \<in> set m_c then (True, remove1 x m_c) else (False, m_c))"

section \<open>Periodic callbacks\<close>

record 'f Callback =
  cb_func :: 'f
  cb_period :: u64
  cb_expirationTime :: u64

definition Callback_ctor :: "'f \<Rightarrow> u64 \<Rightarrow> u64 \<Rightarrow> u64 \<Rightarrow> 'f Callback" where
  "Callback_ctor func startTime period offset =
     \<lparr>cb_func = func, cb_period = period, cb_expirationTime = startTime + offset + period\<rparr>"

text \<open>\<open>period * 1000\<close> is an \<open>int\<close> product; a signed overflow is a fault.\<close>

definition ms_to_us :: "int \<Rightarrow> fault + u64" where
  "ms_to_us p = (if p * 1000 \<in> {- (2 ^ 31)..<2 ^ 31} then Inr (word_of_int (p * 1000)) else Inl BadCast)"

definition addPeriodic :: "'f \<Rightarrow> int \<Rightarrow> int \<Rightarrow> u64 \<Rightarrow> 'f Callback list \<Rightarrow> fault + 'f Callback list" where
  "addPeriodic callback period offset m_startTime m_callbacks =
     bindR (ms_to_us period) (\<lambda>p. bindR (ms_to_us offset) (\<lambda>off.
       Inr (pq_push cb_expirationTime (Callback_ctor callback m_startTime p off) m_callbacks)))"

definition advance :: "u64 \<Rightarrow> 'f Callback \<Rightarrow> fault + 'f Callback" where
  "advance currentTime c =
     (if cb_period c = 0 then Inl DivByZero
      else Inr (c\<lparr>cb_expirationTime := cb_expirationTime c +
             (cb_period c + (currentTime - cb_expirationTime c) div cb_period c * cb_period c)\<rparr>))"

text \<open>Running one callback and queueing it again.\<close>

definition run_callback ::
    "('f \<Rightarrow> 's \<Rightarrow> fault + 's) \<Rightarrow> u64 \<Rightarrow> 'f Callback \<Rightarrow> 'f Callback list \<Rightarrow> 's \<Rightarrow> fault + 'f Callback list \<times> 's" where
  "run_callback run currentTime c q s =
     bindR (run (cb_func c) s) (\<lambda>s'. bindR (advance currentTime c) (\<lambda>c'.
       Inr (pq_push cb_expirationTime c' q, s')))"

text \<open>The inner loop may in principle not end, so it is a partial function: \<^const>\<open>None\<close> is not
  returning.\<close>

partial_function (option) run_ready ::
    "('f \<Rightarrow> 's \<Rightarrow> fault + 's) \<Rightarrow> u64 \<Rightarrow> 'f Callback list \<Rightarrow> 's \<Rightarrow> (fault + 'f Callback list \<times> 's) option" where
  "run_ready run currentTime q s =
     (case q of
        [] \<Rightarrow> Some (Inl OutOfBounds)
      | c # q' \<Rightarrow>
          if cb_expirationTime c \<le> currentTime
          then (case run_callback run currentTime c q' s of
                  Inl e \<Rightarrow> Some (Inl e)
                | Inr r \<Rightarrow> run_ready run currentTime (fst r) (snd r))
          else Some (Inr (q, s)))"

text \<open>One turn of \<open>startCompetition\<close>'s loop: \<open>t1\<close> is the clock on entry, \<open>t2\<close> after the sleep.\<close>

definition competition_turn ::
    "('f \<Rightarrow> 's \<Rightarrow> fault + 's) \<Rightarrow> u64 \<Rightarrow> u64 \<Rightarrow> 'f Callback list \<Rightarrow> 's \<Rightarrow> (fault + 'f Callback list \<times> 's) option" where
  "competition_turn run t1 t2 q s =
     (case pq_pop q of
        Inl e \<Rightarrow> Some (Inl e)
      | Inr (c, q1) \<Rightarrow>
          let currentTime = (if t1 < cb_expirationTime c then t2 else t1) in
          case run_callback run currentTime c q1 s of
            Inl e \<Rightarrow> Some (Inl e)
          | Inr r \<Rightarrow> run_ready run currentTime (fst r) (snd r))"

section \<open>Modes\<close>

datatype Mode = kNone | kAutonomous | kTeleop

datatype call = DriverStationConnected | AutonomousExit | TeleopExit | AutonomousInit | TeleopInit
  | AutonomousPeriodic | TeleopPeriodic | RobotPeriodic

record IterativeRobotBase =
  m_lastMode :: Mode
  m_calledDsConnected :: bool

definition IterativeRobotBase_init :: IterativeRobotBase where
  "IterativeRobotBase_init = \<lparr>m_lastMode = kNone, m_calledDsConnected = False\<rparr>"

definition mode_of :: "HAL_ControlWord \<Rightarrow> Mode" where
  "mode_of word = (if isAutonomous word then kAutonomous else if isTeleop word then kTeleop else kNone)"

definition exit_calls :: "Mode \<Rightarrow> call list" where
  "exit_calls m = (case m of kAutonomous \<Rightarrow> [AutonomousExit] | kTeleop \<Rightarrow> [TeleopExit] | kNone \<Rightarrow> [])"

definition init_calls :: "Mode \<Rightarrow> call list" where
  "init_calls m = (case m of kAutonomous \<Rightarrow> [AutonomousInit] | kTeleop \<Rightarrow> [TeleopInit] | kNone \<Rightarrow> [])"

definition periodic_calls :: "Mode \<Rightarrow> call list" where
  "periodic_calls m = (case m of kAutonomous \<Rightarrow> [AutonomousPeriodic] | kTeleop \<Rightarrow> [TeleopPeriodic] | kNone \<Rightarrow> [])"

text \<open>\<open>loopFunc\<close> after \<open>refreshData\<close>, as a function of the control word read then.\<close>

definition loopFunc :: "HAL_ControlWord \<Rightarrow> IterativeRobotBase \<Rightarrow> call list \<times> IterativeRobotBase" where
  "loopFunc word st =
     (let mode = mode_of word;
          connected = \<not> m_calledDsConnected st \<and> isDSAttached word;
          st1 = (if connected then st\<lparr>m_calledDsConnected := True\<rparr> else st);
          changed = m_lastMode st1 \<noteq> mode
      in ((if connected then [DriverStationConnected] else []) @
          (if changed then exit_calls (m_lastMode st1) @ init_calls mode else []) @
          periodic_calls mode @ [RobotPeriodic],
          if changed then st1\<lparr>m_lastMode := mode\<rparr> else st1))"

fun loop_trace :: "HAL_ControlWord list \<Rightarrow> IterativeRobotBase \<Rightarrow> call list" where
  "loop_trace [] st = []"
| "loop_trace (w # ws) st = (case loopFunc w st of (cs, st') \<Rightarrow> cs @ loop_trace ws st')"

section \<open>The queue as an interface\<close>

text \<open>What the main loop relies on: a push adds one element, a pop takes an element with the least
  key.\<close>

locale min_queue =
  fixes key :: "'a \<Rightarrow> 'k::linorder"
    and push :: "'a \<Rightarrow> 'q \<Rightarrow> 'q"
    and pop :: "'q \<Rightarrow> fault + 'a \<times> 'q"
    and elems :: "'q \<Rightarrow> 'a multiset"
    and inv :: "'q \<Rightarrow> bool"
  assumes push_elems: "inv q \<Longrightarrow> elems (push x q) = add_mset x (elems q) \<and> inv (push x q)"
    and pop_some: "inv q \<Longrightarrow> elems q \<noteq> {#} \<Longrightarrow> \<exists>x q'. pop q = Inr (x, q')"
    and pop_elems: "inv q \<Longrightarrow> pop q = Inr (x, q') \<Longrightarrow> elems q = add_mset x (elems q') \<and> inv q'"
    and pop_least: "inv q \<Longrightarrow> pop q = Inr (x, q') \<Longrightarrow> y \<in># elems q' \<Longrightarrow> key x \<le> key y"
begin

definition due :: "'k \<Rightarrow> 'q \<Rightarrow> nat" where
  "due t q = size (filter_mset (\<lambda>x. key x \<le> t) (elems q))"

lemma none_due:
  assumes "inv q" "pop q = Inr (x, q')" "t < key x" "y \<in># elems q"
  shows "t < key y"
  using pop_elems [OF assms(1,2)] pop_least [OF assms(1,2), of y] assms(3,4) by auto

lemma due_again:
  assumes "inv q" "pop q = Inr (x, q')" "key x \<le> t" "t < key x'"
  shows "due t q = Suc (due t (push x' q'))"
  using pop_elems [OF assms(1,2)] push_elems [of q' x'] assms(3,4) by (simp add: due_def)

end

definition pq_inv :: "'f Callback list \<Rightarrow> bool" where
  "pq_inv q \<longleftrightarrow> sorted (map cb_expirationTime q)"

interpretation callbacks: min_queue cb_expirationTime "pq_push cb_expirationTime" pq_pop mset pq_inv
proof unfold_locales
  fix q :: "'f Callback list" and x
  assume "pq_inv q"
  then show "mset (pq_push cb_expirationTime x q) = add_mset x (mset q) \<and> pq_inv (pq_push cb_expirationTime x q)"
    by (simp add: pq_push_def pq_inv_def sorted_insort_key)
qed (auto simp: pq_pop_def pq_inv_def split: list.splits)

section \<open>Rescheduling\<close>

lemma advance_ok:
  assumes "cb_period c \<noteq> 0" "cb_expirationTime c \<le> t" "unat t + unat (cb_period c) < 2 ^ 64"
  obtains c' where "advance t c = Inr c'" "cb_func c' = cb_func c" "cb_period c' = cb_period c"
    "unat t < unat (cb_expirationTime c')" "unat (cb_expirationTime c') \<le> unat t + unat (cb_period c)"
    "(unat (cb_expirationTime c') - unat (cb_expirationTime c)) mod unat (cb_period c) = 0" "t < cb_expirationTime c'"
proof -
  let ?e = "cb_expirationTime c" and ?p = "cb_period c"
  let ?k = "(unat t - unat ?e) div unat ?p * unat ?p"
  have p: "0 < unat ?p" using assms(1) by (simp add: unat_gt_0)
  have le: "unat ?e \<le> unat t" using assms(2) by (simp add: word_le_nat_alt)
  have k: "?k \<le> unat t - unat ?e" "unat t - unat ?e < ?k + unat ?p"
    using p div_mult_mod_eq [of "unat t - unat ?e" "unat ?p"] mod_less_divisor [OF p, of "unat t - unat ?e"]
    by linarith+
  have "(unat t - unat ?e) div unat ?p = unat ((t - ?e) div ?p)"
    using assms(2) by (simp add: unat_div unat_sub)
  then have "?e + (?p + (t - ?e) div ?p * ?p) = of_nat (unat ?e + (unat ?p + ?k))" by simp
  moreover have "unat ?e + (unat ?p + ?k) < 2 ^ 64" using k le assms(3) by linarith
  ultimately have u: "unat (?e + (?p + (t - ?e) div ?p * ?p)) = unat ?e + (unat ?p + ?k)"
    by (simp only: unsigned_of_nat) (simp add: take_bit_nat_eq_self)
  have top: "unat ?e + ?k \<le> unat t" using k(1) le by linarith
  have mod: "(unat ?p + ?k) mod unat ?p = 0" by simp
  show thesis
    by (rule that [of "c\<lparr>cb_expirationTime := ?e + (?p + (t - ?e) div ?p * ?p)\<rparr>"])
      (use assms(1) u k(2) le mod top in \<open>simp_all add: advance_def word_less_nat_alt\<close>)
qed

text \<open>The callbacks as the loop keeps them: a positive period, and a next expiration that fits.\<close>

definition cb_ok :: "u64 \<Rightarrow> 'f Callback \<Rightarrow> bool" where
  "cb_ok t c \<longleftrightarrow> cb_period c \<noteq> 0 \<and> unat t + unat (cb_period c) < 2 ^ 64"

definition identity :: "'f Callback \<Rightarrow> 'f \<times> u64" where
  "identity c = (cb_func c, cb_period c)"

lemma run_ready_ok:
  assumes "pq_inv q" "q \<noteq> []" "\<forall>c \<in> set q. cb_ok t c" "\<And>f s. \<exists>s'. run f s = Inr s'"
  shows "\<exists>q' s'. run_ready run t q s = Some (Inr (q', s')) \<and> pq_inv q' \<and> (\<forall>c \<in> set q'. cb_ok t c) \<and>
    image_mset identity (mset q') = image_mset identity (mset q) \<and> (\<forall>c \<in> set q'. t < cb_expirationTime c)"
  using assms(1-3)
proof (induction "callbacks.due t q" arbitrary: q s rule: less_induct)
  case less
  obtain c q1 where q: "q = c # q1" using less.prems(2) by (cases q) auto
  have pop: "pq_pop q = Inr (c, q1)" by (simp add: q pq_pop_def)
  have inv1: "pq_inv q1" using less.prems(1) by (simp add: q pq_inv_def)
  show ?case
  proof (cases "cb_expirationTime c \<le> t")
    case False
    have late: "t < cb_expirationTime c" using False by (simp add: not_le)
    have "\<forall>x \<in> set q. t < cb_expirationTime x"
      using callbacks.none_due [OF less.prems(1) pop late] by simp
    then show ?thesis
      using less.prems False by (subst run_ready.simps) (simp add: q)
  next
    case True
    have ok: "cb_ok t c" using less.prems(3) by (simp add: q)
    obtain c' where c': "advance t c = Inr c'" "cb_func c' = cb_func c" "cb_period c' = cb_period c" "t < cb_expirationTime c'"
      using ok by (auto simp: cb_ok_def intro: advance_ok [OF _ True])
    obtain s1 where s1: "run (cb_func c) s = Inr s1" using assms(4) by blast
    let ?q = "pq_push cb_expirationTime c' q1"
    have r: "run_callback run t c q1 s = Inr (?q, s1)" by (simp add: run_callback_def s1 c')
    have m: "mset ?q = add_mset c' (mset q1)" "pq_inv ?q" using callbacks.push_elems [OF inv1] by simp_all
    then have set: "set ?q = insert c' (set q1)" by (metis set_mset_mset set_mset_add_mset_insert)
    have "callbacks.due t ?q < callbacks.due t q" using callbacks.due_again [OF less.prems(1) pop True c'(4)] by simp
    moreover have "?q \<noteq> []" using set by (metis empty_set insert_not_empty)
    moreover have "\<forall>x \<in> set ?q. cb_ok t x" using set less.prems(3) ok c' by (auto simp: q cb_ok_def)
    ultimately obtain q' s' where "run_ready run t ?q s1 = Some (Inr (q', s'))" "pq_inv q'"
      "\<forall>c \<in> set q'. cb_ok t c" "image_mset identity (mset q') = image_mset identity (mset ?q)"
      "\<forall>c \<in> set q'. t < cb_expirationTime c"
      using less.hyps [of ?q s1] m(2) by blast
    moreover have "identity c' = identity c" using c' by (simp add: identity_def)
    ultimately show ?thesis
      using True by (subst run_ready.simps) (simp add: q r m(1))
  qed
qed

section \<open>Properties\<close>

text \<open>After a callback has run it is due again within one period of the current time, strictly
  later than it, and a whole number of periods after its last due time: overruns are skipped and the
  phase does not drift.\<close>

lemma callback_keeps_phase:
  assumes "cb_period c \<noteq> 0" "cb_expirationTime c \<le> t" "uint t + uint (cb_period c) < 2 ^ 64"
  shows "\<exists>c'. advance t c = Inr c' \<and> cb_period c' = cb_period c \<and>
    uint t < uint (cb_expirationTime c') \<and> uint (cb_expirationTime c') \<le> uint t + uint (cb_period c) \<and>
    (uint (cb_expirationTime c') - uint (cb_expirationTime c)) mod uint (cb_period c) = 0"
proof -
  have "int (unat t + unat (cb_period c)) < int (2 ^ 64)" using assms(3) by simp
  then have "unat t + unat (cb_period c) < 2 ^ 64" by (simp only: of_nat_less_iff)
  then obtain c' where c': "advance t c = Inr c'" "cb_period c' = cb_period c"
    "unat t < unat (cb_expirationTime c')" "unat (cb_expirationTime c') \<le> unat t + unat (cb_period c)"
    "(unat (cb_expirationTime c') - unat (cb_expirationTime c)) mod unat (cb_period c) = 0"
    by (rule advance_ok [OF assms(1,2)])
  have le: "unat (cb_expirationTime c) \<le> unat (cb_expirationTime c')"
    using assms(2) c'(3) by (simp add: word_le_nat_alt)
  have "int ((unat (cb_expirationTime c') - unat (cb_expirationTime c)) mod unat (cb_period c)) = 0"
    by (simp only: c'(5))
  then have "(int (unat (cb_expirationTime c')) - int (unat (cb_expirationTime c))) mod int (unat (cb_period c)) = 0"
    by (simp only: of_nat_mod of_nat_diff [OF le])
  moreover have "int (unat t) < int (unat (cb_expirationTime c'))"
    "int (unat (cb_expirationTime c')) \<le> int (unat t) + int (unat (cb_period c))"
    using c'(3,4) by linarith+
  ultimately show ?thesis
    unfolding uint_nat by (intro exI [of _ c'] conjI c'(1,2)) assumption+
qed

lemma callback_keeps_phase_example:
  "\<exists>c'. advance 35000 (Callback_ctor () 1000 10000 0) = Inr c' \<and> 35000 < uint (cb_expirationTime c') \<and>
    uint (cb_expirationTime c') \<le> 45000 \<and> (uint (cb_expirationTime c') - 11000) mod 10000 = 0"
  using callback_keeps_phase [of "Callback_ctor () 1000 10000 0" 35000] by (auto simp: Callback_ctor_def)



text \<open>The life cycle of the modes: what may be called in which mode.\<close>

fun protocol :: "call \<Rightarrow> Mode \<Rightarrow> Mode option" where
  "protocol AutonomousInit kNone = Some kAutonomous"
| "protocol TeleopInit kNone = Some kTeleop"
| "protocol AutonomousExit kAutonomous = Some kNone"
| "protocol TeleopExit kTeleop = Some kNone"
| "protocol AutonomousPeriodic kAutonomous = Some kAutonomous"
| "protocol TeleopPeriodic kTeleop = Some kTeleop"
| "protocol RobotPeriodic m = Some m"
| "protocol DriverStationConnected m = Some m"
| "protocol _ _ = None"

fun accepts :: "call list \<Rightarrow> Mode \<Rightarrow> Mode option" where
  "accepts [] m = Some m"
| "accepts (c # cs) m = (case protocol c m of None \<Rightarrow> None | Some m' \<Rightarrow> accepts cs m')"

lemma accepts_append: "accepts (cs @ ds) m = (case accepts cs m of None \<Rightarrow> None | Some m' \<Rightarrow> accepts ds m')"
  by (induction cs arbitrary: m) (auto split: option.split)

lemma accepts_mode:
  "accepts (exit_calls m @ init_calls m') m = Some m'" "accepts (periodic_calls m) m = Some m"
  by (cases m; cases m'; simp add: exit_calls_def init_calls_def periodic_calls_def)+

lemma loopFunc_accepts:
  assumes "loopFunc w st = (cs, st')"
  shows "accepts cs (m_lastMode st) = Some (m_lastMode st')"
proof -
  define A where "A = (if \<not> m_calledDsConnected st \<and> isDSAttached w then [DriverStationConnected] else [])"
  define B where "B = (if m_lastMode st \<noteq> mode_of w then exit_calls (m_lastMode st) @ init_calls (mode_of w) else [])"
  have m: "m_lastMode st' = mode_of w"
    using assms by (auto simp: loopFunc_def Let_def split: if_splits)
  have A: "accepts A m = Some m" for m by (simp add: A_def)
  have B: "accepts B (m_lastMode st) = Some (mode_of w)"
    using accepts_mode(1) [of "m_lastMode st" "mode_of w"] unfolding B_def by (cases "m_lastMode st = mode_of w") simp_all
  have "cs = A @ B @ periodic_calls (mode_of w) @ [RobotPeriodic]"
    using assms unfolding A_def B_def by (auto simp: loopFunc_def Let_def split: if_splits)
  then show ?thesis by (simp add: accepts_append A B accepts_mode m)
qed

text \<open>C22: whatever control words the driver station sends, the mode callbacks follow their life
  cycle: a mode is entered only from no mode, left before the next is entered, and its periodic
  function runs only inside it.\<close>

theorem mode_calls_follow_protocol:
  "\<exists>m. accepts (loop_trace ws IterativeRobotBase_init) kNone = Some m"
proof -
  have "\<exists>m. accepts (loop_trace ws st) (m_lastMode st) = Some m" for st
  proof (induction ws arbitrary: st)
    case (Cons w ws)
    obtain cs st' where l: "loopFunc w st = (cs, st')" by fastforce
    show ?case using Cons.IH [of st'] loopFunc_accepts [OF l] by (simp add: l accepts_append)
  qed simp
  from this [of IterativeRobotBase_init] show ?thesis by (simp add: IterativeRobotBase_init_def)
qed

end
