(* ===== verification/Timers.thy ===== *)
theory Timers
  imports TimedRobot
begin

text \<open>
  \<open>lib/common/GenericTimerQueue.h\<close>, \<open>TimerManager.cpp\<close>, \<open>TimerManager.h\<close> and \<open>TimerEvent.h\<close>: timers
  kept in a queue by the tick at which they expire, a tick being a tenth of a second.  The standard
  priority queue is represented by a list sorted by expiry; which of two timers of one tick leaves
  first is not specified, and no theorem depends on it.  \<open>long\<close> values are integers, and an
  operation that leaves their range is a fault.
\<close>

section \<open>The timer queue\<close>

definition in_long :: "int \<Rightarrow> bool" where
  "in_long i \<longleftrightarrow> - (2 ^ 63) \<le> i \<and> i < 2 ^ 63"

definition long_of :: "int \<Rightarrow> fault + int" where
  "long_of i = (if in_long i then Inr i else Inl BadCast)"

record 'o queued =
  qt_expires :: int
  qt_object :: 'o

definition TimerCompare :: "'o queued \<Rightarrow> 'o queued \<Rightarrow> fault + bool" where
  "TimerCompare lhs rhs = bindR (long_of (qt_expires rhs - qt_expires lhs)) (\<lambda>d. Inr (d < 0))"

text \<open>Which comparisons a push makes is up to the library, so all of them have to be defined.\<close>

definition comparable :: "'o queued \<Rightarrow> 'o queued list \<Rightarrow> bool" where
  "comparable t q \<longleftrightarrow> list_all (\<lambda>u. TimerCompare t u \<noteq> Inl BadCast \<and> TimerCompare u t \<noteq> Inl BadCast) q"

definition tq_push :: "int \<Rightarrow> int \<Rightarrow> 'o \<Rightarrow> 'o queued list \<Rightarrow> fault + 'o queued list" where
  "tq_push now interval obj queue =
     (let interval = (if interval < 0 then 0 else interval) in
      bindR (long_of (now + interval)) (\<lambda>when.
        let t = \<lparr>qt_expires = when, qt_object = obj\<rparr> in
        if comparable t queue then Inr (insort_key qt_expires t queue) else Inl BadCast))"

definition tq_pop :: "int \<Rightarrow> 'o queued list \<Rightarrow> fault + 'o option \<times> 'o queued list" where
  "tq_pop now queue =
     (case queue of [] \<Rightarrow> Inr (None, queue)
      | timer # rest \<Rightarrow> bindR (long_of (now - qt_expires timer)) (\<lambda>d.
          Inr (if 0 \<le> d then (Some (qt_object timer), rest) else (None, queue))))"

definition tq_pop_any :: "'o queued list \<Rightarrow> 'o option \<times> 'o queued list" where
  "tq_pop_any queue = (case queue of [] \<Rightarrow> (None, queue) | timer # rest \<Rightarrow> (Some (qt_object timer), rest))"

definition tq_getTopExpires :: "'o queued list \<Rightarrow> int" where
  "tq_getTopExpires queue = (case queue of [] \<Rightarrow> -1 | timer # _ \<Rightarrow> qt_expires timer)"

section \<open>The timer manager\<close>

datatype TimerEventType = EXPORT_CDR | PURGE_CDR | GATHER_DB_STATS | RE_CONN_DB | HTTP | CURL | CS_STATUS

record TimerEvent =
  te_type :: TimerEventType
  te_id :: string

record managed =
  mt_timer_id :: u32
  mt_event :: TimerEvent

record TimerManager =
  timer_queue :: "managed queued list"
  next_timer_id :: u32
  curl_timer_queue :: "managed queued list"

definition TimerManager_ctor :: TimerManager where
  "TimerManager_ctor = \<lparr>timer_queue = [], next_timer_id = 1, curl_timer_queue = []\<rparr>"

definition INVALID_TIMER_ID :: u32 where
  "INVALID_TIMER_ID = 0"

definition TICK_MILLISECONDS :: int where
  "TICK_MILLISECONDS = 100"

definition getNextTimerId :: "TimerManager \<Rightarrow> u32 \<times> TimerManager" where
  "getNextTimerId m =
     (let n = (if next_timer_id m = INVALID_TIMER_ID then 1 else next_timer_id m) in (n, m\<lparr>next_timer_id := n + 1\<rparr>))"

text \<open>\<open>/\<close> on \<open>long\<close> truncates towards zero.  The clock is a pair of seconds and microseconds.\<close>

definition long_div :: "int \<Rightarrow> int \<Rightarrow> int" where
  "long_div a b = (if 0 \<le> a then a div b else - (- a div b))"

definition tick :: "int \<times> int \<Rightarrow> fault + int" where
  "tick now =
     bindR (long_of (fst now * long_div 1000 TICK_MILLISECONDS)) (\<lambda>s.
       long_of (s + long_div (snd now) (TICK_MILLISECONDS * 1000)))"

definition startTimer :: "TimerEvent \<Rightarrow> int \<Rightarrow> int \<times> int \<Rightarrow> TimerManager \<Rightarrow> fault + u32 \<times> TimerManager" where
  "startTimer event milliseconds now m =
     (case getNextTimerId m of (timer_id, m) \<Rightarrow>
        bindR (tick now) (\<lambda>t.
        bindR (tq_push t (long_div milliseconds TICK_MILLISECONDS) \<lparr>mt_timer_id = timer_id, mt_event = event\<rparr> (timer_queue m))
          (\<lambda>q. Inr (timer_id, m\<lparr>timer_queue := q\<rparr>))))"

definition getExpiredTimer :: "int \<times> int \<Rightarrow> TimerManager \<Rightarrow> fault + (TimerEvent \<times> u32) option \<times> TimerManager" where
  "getExpiredTimer now m =
     bindR (tick now) (\<lambda>t. bindR (tq_pop t (timer_queue m)) (\<lambda>(timer, q).
       Inr (map_option (\<lambda>x. (mt_event x, mt_timer_id x)) timer, m\<lparr>timer_queue := q\<rparr>)))"

definition stopTimer :: "TimerEventType \<Rightarrow> u32 \<Rightarrow> TimerManager \<Rightarrow> u32 \<times> TimerManager" where
  "stopTimer event_type i m = (i, m)"

text \<open>\<open>getTopExpires\<close>: the clock is a pair of seconds and nanoseconds.\<close>

definition remaining :: "int \<Rightarrow> 'o queued list \<Rightarrow> fault + int" where
  "remaining t q = bindR (long_of (tq_getTopExpires q - t)) (\<lambda>d. long_of (d * TICK_MILLISECONDS))"

definition getTopExpires :: "int \<times> int \<Rightarrow> TimerManager \<Rightarrow> fault + int" where
  "getTopExpires now m =
     (if curl_timer_queue m = [] \<and> timer_queue m = [] then Inr (-1)
      else bindR (tick (fst now, long_div (snd now) 1000)) (\<lambda>t.
        bindR (if curl_timer_queue m = [] then Inr (-1)
               else bindR (remaining t (curl_timer_queue m)) (\<lambda>interval. Inr (if 0 < interval then interval else 0)))
          (\<lambda>top_expires.
        if timer_queue m = [] then Inr top_expires
        else bindR (remaining t (timer_queue m)) (\<lambda>interval.
          Inr (if top_expires = -1 then (if 0 < interval then interval else 0)
               else if 0 < interval then (if top_expires < interval then top_expires else interval) else 0)))))"

text \<open>The destructor: the events deleted, in order.\<close>

function flush :: "managed queued list \<Rightarrow> TimerEvent list" where
  "flush q = (case tq_pop_any q of (None, _) \<Rightarrow> [] | (Some timer, q') \<Rightarrow> mt_event timer # flush q')"
  by auto
termination by (relation "measure length") (auto simp: tq_pop_any_def split: list.splits)

declare flush.simps [simp del]

definition TimerManager_dtor :: "TimerManager \<Rightarrow> TimerEvent list" where
  "TimerManager_dtor m = flush (timer_queue m) @ flush (curl_timer_queue m)"

section \<open>The queue as a queue of least keys\<close>

definition tq_inv :: "'o queued list \<Rightarrow> bool" where
  "tq_inv q \<longleftrightarrow> sorted (map qt_expires q) \<and> (\<forall>t\<in>set q. 0 \<le> qt_expires t \<and> qt_expires t < 2 ^ 62)"

definition front :: "'o queued list \<Rightarrow> fault + 'o queued \<times> 'o queued list" where
  "front q = (case q of [] \<Rightarrow> Inl OutOfBounds | t # ts \<Rightarrow> Inr (t, ts))"

definition tq_insert :: "'o queued \<Rightarrow> 'o queued list \<Rightarrow> 'o queued list" where
  "tq_insert t q = insort_key qt_expires t q"

interpretation timers: min_queue qt_expires tq_insert front mset "\<lambda>q. sorted (map qt_expires q)"
proof unfold_locales
  fix q :: "'o queued list" and x
  assume "sorted (map qt_expires q)"
  then show "mset (tq_insert x q) = add_mset x (mset q) \<and> sorted (map qt_expires (tq_insert x q))"
    by (simp add: tq_insert_def sorted_insort_key)
qed (auto simp: front_def split: list.splits)

lemma comparator_is_order:
  assumes "0 \<le> qt_expires t" "qt_expires t < 2 ^ 62" "0 \<le> qt_expires u" "qt_expires u < 2 ^ 62"
  shows "TimerCompare t u = Inr (qt_expires u < qt_expires t)"
  using assms by (simp add: TimerCompare_def long_of_def in_long_def)

lemma push_result:
  assumes "tq_inv q" "0 \<le> now" "now < 2 ^ 61" "interval < 2 ^ 61"
  shows "tq_push now interval obj q = Inr (tq_insert \<lparr>qt_expires = now + max 0 interval, qt_object = obj\<rparr> q)"
    and "tq_inv (tq_insert \<lparr>qt_expires = now + max 0 interval, qt_object = obj\<rparr> q)"
proof -
  let ?t = "\<lparr>qt_expires = now + max 0 interval, qt_object = obj\<rparr>"
  have r: "0 \<le> now + max 0 interval" "now + max 0 interval < 2 ^ 62" using assms by auto
  have "TimerCompare ?t u \<noteq> Inl BadCast \<and> TimerCompare u ?t \<noteq> Inl BadCast" if "u \<in> set q" for u
    using comparator_is_order [of ?t u] comparator_is_order [of u ?t] r assms(1) that by (simp add: tq_inv_def)
  then have "comparable ?t q" by (simp add: comparable_def list_all_iff)
  moreover have "long_of (now + max 0 interval) = Inr (now + max 0 interval)" using r by (simp add: long_of_def in_long_def)
  moreover have "(if interval < 0 then 0 else interval) = max 0 interval" by (simp add: max_def)
  ultimately show "tq_push now interval obj q = Inr (tq_insert ?t q)"
    by (simp add: tq_push_def tq_insert_def Let_def)
  show "tq_inv (tq_insert ?t q)"
    using assms(1) r by (auto simp: tq_inv_def tq_insert_def sorted_insort_key set_insort_key)
qed

text \<open>A pop takes a timer with the least expiry when one is due, and none otherwise.\<close>

lemma pop_due:
  assumes q: "tq_inv q" and now: "0 \<le> now" "now < 2 ^ 62"
  obtains (none) "tq_pop now q = Inr (None, q)" "\<forall>t\<in>#mset q. now < qt_expires t"
  | (some) t q' where "tq_pop now q = Inr (Some (qt_object t), q')" "mset q = add_mset t (mset q')" "tq_inv q'"
      "qt_expires t \<le> now" "\<forall>u\<in>#mset q'. qt_expires t \<le> qt_expires u"
proof (cases q)
  case Nil
  then show ?thesis by (intro none) (simp_all add: tq_pop_def)
next
  case (Cons t ts)
  then have f: "front q = Inr (t, ts)" and s: "sorted (map qt_expires q)"
    using q by (simp_all add: front_def tq_inv_def)
  have "long_of (now - qt_expires t) = Inr (now - qt_expires t)"
    using q now Cons by (simp add: long_of_def in_long_def tq_inv_def)
  then have pop: "tq_pop now q = Inr (if qt_expires t \<le> now then (Some (qt_object t), ts) else (None, q))"
    by (simp add: tq_pop_def Cons)
  show ?thesis
  proof (cases "qt_expires t \<le> now")
    case True
    show ?thesis
      by (rule some [of t ts]) (use True pop q Cons timers.pop_least [OF s f] in \<open>auto simp: tq_inv_def\<close>)
  next
    case False
    then show ?thesis using timers.none_due [OF s f, of now] pop by (intro none) auto
  qed
qed

section \<open>Starting and polling\<close>

definition clock_ok :: "int \<times> int \<Rightarrow> bool" where
  "clock_ok c \<longleftrightarrow> 0 \<le> fst c \<and> fst c < 2 ^ 40 \<and> 0 \<le> snd c \<and> snd c < 1000000"

definition clock_us :: "int \<times> int \<Rightarrow> int" where
  "clock_us c = fst c * 1000000 + snd c"

definition tm_inv :: "TimerManager \<Rightarrow> bool" where
  "tm_inv m \<longleftrightarrow> tq_inv (timer_queue m) \<and> curl_timer_queue m = []"

lemma tick_ok:
  assumes "clock_ok c"
  shows "tick c = Inr (clock_us c div 100000)" "0 \<le> clock_us c div 100000" "clock_us c div 100000 < 2 ^ 61"
proof -
  obtain s us where c: "c = (s, us)" by (cases c)
  have r: "0 \<le> s" "s < 2 ^ 40" "0 \<le> us" "us < 1000000" using assms by (simp_all add: clock_ok_def c)
  have e: "clock_us c div 100000 = s * 10 + us div 100000" by (simp add: clock_us_def c)
  have b: "0 \<le> us div 100000" "us div 100000 \<le> us" using r by linarith+
  show "tick c = Inr (clock_us c div 100000)"
    using r b unfolding e by (simp add: tick_def c long_of_def in_long_def long_div_def TICK_MILLISECONDS_def)
  show "0 \<le> clock_us c div 100000" "clock_us c div 100000 < 2 ^ 61" using r b unfolding e by auto
qed

definition started :: "TimerEvent \<Rightarrow> u32 \<Rightarrow> int \<Rightarrow> int \<times> int \<Rightarrow> managed queued" where
  "started ev i ms c = \<lparr>qt_expires = clock_us c div 100000 + max 0 (long_div ms 100),
     qt_object = \<lparr>mt_timer_id = i, mt_event = ev\<rparr>\<rparr>"

lemma startTimer_ok:
  assumes m: "tm_inv m" and c: "clock_ok c" and ms: "in_long ms"
  obtains i m' where "startTimer ev ms c m = Inr (i, m')" "i \<noteq> INVALID_TIMER_ID" "tm_inv m'"
    "mset (timer_queue m') = add_mset (started ev i ms c) (mset (timer_queue m))"
proof -
  define i where "i = (if next_timer_id m = INVALID_TIMER_ID then 1 else next_timer_id m)"
  let ?o = "\<lparr>mt_timer_id = i, mt_event = ev\<rparr>"
  let ?m' = "m\<lparr>next_timer_id := i + 1, timer_queue := tq_insert (started ev i ms c) (timer_queue m)\<rparr>"
  have "long_div ms 100 < 2 ^ 61"
    using ms by (auto simp: in_long_def long_div_def)
  note p = push_result [OF _ tick_ok(2,3) [OF c] this, of "timer_queue m" ?o]
  have q: "tq_inv (timer_queue m)" using m by (simp add: tm_inv_def)
  show thesis
  proof (rule that)
    show "startTimer ev ms c m = Inr (i, ?m')"
      using p(1) [OF q] by (simp add: startTimer_def getNextTimerId_def Let_def i_def [symmetric] tick_ok(1) [OF c]
          TICK_MILLISECONDS_def started_def)
    show "i \<noteq> INVALID_TIMER_ID" by (simp add: i_def INVALID_TIMER_ID_def)
    show "tm_inv ?m'" using p(2) [OF q] m by (simp add: tm_inv_def started_def)
    show "mset (timer_queue ?m') = add_mset (started ev i ms c) (mset (timer_queue m))" by (simp add: tq_insert_def)
  qed
qed

lemma getExpiredTimer_cases:
  assumes m: "tm_inv m" and c: "clock_ok c"
  obtains (none) "getExpiredTimer c m = Inr (None, m)" "\<forall>t\<in>#mset (timer_queue m). clock_us c div 100000 < qt_expires t"
  | (some) t m' where "getExpiredTimer c m = Inr (Some (mt_event (qt_object t), mt_timer_id (qt_object t)), m')"
      "mset (timer_queue m) = add_mset t (mset (timer_queue m'))" "tm_inv m'"
      "qt_expires t \<le> clock_us c div 100000" "\<forall>u\<in>#mset (timer_queue m'). qt_expires t \<le> qt_expires u"
proof -
  have q: "tq_inv (timer_queue m)" using m by (simp add: tm_inv_def)
  have now: "0 \<le> clock_us c div 100000" "clock_us c div 100000 < 2 ^ 62" using tick_ok(2,3) [OF c] by auto
  show thesis
  proof (cases rule: pop_due [OF q now])
    case 1
    then show ?thesis by (intro none) (simp_all add: getExpiredTimer_def tick_ok(1) [OF c])
  next
    case (2 t q')
    then show ?thesis using m
      by (intro some [of t "m\<lparr>timer_queue := q'\<rparr>"]) (simp_all add: getExpiredTimer_def tick_ok(1) [OF c] tm_inv_def)
  qed
qed

section \<open>Runs\<close>

datatype timer_op = StartTimer TimerEvent int "int \<times> int" | Poll "int \<times> int"

fun run_timers :: "timer_op list \<Rightarrow> TimerManager \<Rightarrow> fault + (TimerEvent \<times> u32) list \<times> (TimerEvent \<times> u32) list \<times> TimerManager" where
  "run_timers [] m = Inr ([], [], m)"
| "run_timers (StartTimer ev ms c # ops) m = bindR (startTimer ev ms c m) (\<lambda>(i, m').
     bindR (run_timers ops m') (\<lambda>(s, d, m''). Inr ((ev, i) # s, d, m'')))"
| "run_timers (Poll c # ops) m = bindR (getExpiredTimer c m) (\<lambda>(r, m').
     bindR (run_timers ops m') (\<lambda>(s, d, m''). Inr (s, (case r of None \<Rightarrow> d | Some x \<Rightarrow> x # d), m'')))"

fun op_ok :: "timer_op \<Rightarrow> bool" where
  "op_ok (StartTimer ev ms c) = (in_long ms \<and> clock_ok c)"
| "op_ok (Poll c) = clock_ok c"

definition entry :: "managed queued \<Rightarrow> TimerEvent \<times> u32" where
  "entry t = (mt_event (qt_object t), mt_timer_id (qt_object t))"

definition pending :: "TimerManager \<Rightarrow> (TimerEvent \<times> u32) multiset" where
  "pending m = image_mset entry (mset (timer_queue m))"

lemma run_balance:
  assumes "tm_inv m" "list_all op_ok ops"
  shows "\<exists>s d m'. run_timers ops m = Inr (s, d, m') \<and> tm_inv m' \<and> mset s + pending m = mset d + pending m' \<and>
           (\<forall>(ev, i)\<in>set s. i \<noteq> INVALID_TIMER_ID)"
  using assms
proof (induction ops arbitrary: m)
  case (Cons op ops)
  show ?case
  proof (cases op)
    case (StartTimer ev ms c)
    then have c: "clock_ok c" "in_long ms" using Cons.prems(2) by simp_all
    obtain i m1 where 1: "startTimer ev ms c m = Inr (i, m1)" "i \<noteq> INVALID_TIMER_ID" "tm_inv m1"
      "mset (timer_queue m1) = add_mset (started ev i ms c) (mset (timer_queue m))"
      by (rule startTimer_ok [OF Cons.prems(1) c])
    obtain s d m' where 2: "run_timers ops m1 = Inr (s, d, m')" "tm_inv m'" "mset s + pending m1 = mset d + pending m'"
      "\<forall>(ev, i)\<in>set s. i \<noteq> INVALID_TIMER_ID"
      using Cons.IH [OF 1(3)] Cons.prems(2) by auto
    have "pending m1 = add_mset (ev, i) (pending m)" by (simp add: pending_def 1(4) entry_def started_def)
    then show ?thesis using 1(1,2) 2 StartTimer by (intro exI [of _ "(ev, i) # s"] exI [of _ d] exI [of _ m']) simp
  next
    case (Poll c)
    then have c: "clock_ok c" using Cons.prems(2) by simp
    show ?thesis
    proof (cases rule: getExpiredTimer_cases [OF Cons.prems(1) c])
      case 1
      then show ?thesis using Cons.IH [OF Cons.prems(1)] Cons.prems(2) Poll by auto
    next
      case (2 t m1)
      obtain s d m' where 3: "run_timers ops m1 = Inr (s, d, m')" "tm_inv m'" "mset s + pending m1 = mset d + pending m'"
        "\<forall>(ev, i)\<in>set s. i \<noteq> INVALID_TIMER_ID"
        using Cons.IH [OF 2(3)] Cons.prems(2) by auto
      have "pending m = add_mset (entry t) (pending m1)" by (simp add: pending_def 2(2))
      then show ?thesis using 2(1) 3 Poll
        by (intro exI [of _ s] exI [of _ "entry t # d"] exI [of _ m']) (simp add: entry_def)
    qed
  qed
qed (simp add: pending_def)

lemma flush_all: "flush q = map (\<lambda>t. mt_event (qt_object t)) q"
  by (induction q) (subst flush.simps; simp add: tq_pop_any_def)+

text \<open>Whatever timers are started and polls made, with sane clock readings, nothing faults; every started timer
  has an identifier other than the invalid one and is delivered by a poll once or is still pending, and destroying the
  manager deletes exactly the events of the pending timers, once each.\<close>

theorem timers_delivered_once:
  assumes "list_all op_ok ops"
  shows "\<exists>s d m. run_timers ops TimerManager_ctor = Inr (s, d, m) \<and> mset s = mset d + pending m \<and>
           (\<forall>(ev, i)\<in>set s. i \<noteq> INVALID_TIMER_ID) \<and> mset (TimerManager_dtor m) = image_mset fst (pending m)"
proof -
  have i: "tm_inv TimerManager_ctor" "pending TimerManager_ctor = {#}"
    by (simp_all add: tm_inv_def tq_inv_def TimerManager_ctor_def pending_def)
  obtain s d m where 1: "run_timers ops TimerManager_ctor = Inr (s, d, m)" "tm_inv m" "mset s = mset d + pending m"
    "\<forall>(ev, i)\<in>set s. i \<noteq> INVALID_TIMER_ID"
    using run_balance [OF i(1) assms] by (auto simp: i(2))
  have "mset (TimerManager_dtor m) = image_mset fst (pending m)"
    using 1(2) by (simp add: TimerManager_dtor_def flush_all tm_inv_def pending_def entry_def image_mset.compositionality comp_def)
  with 1 show ?thesis by blast
qed

definition gather :: TimerEvent where
  "gather = \<lparr>te_type = GATHER_DB_STATS, te_id = ''a''\<rparr>"

lemma timers_delivered_once_witness:
  "\<exists>s d m. run_timers [StartTimer gather 500 (7, 0), Poll (7, 400000), Poll (7, 500000)] TimerManager_ctor = Inr (s, d, m) \<and>
     mset s = mset d + pending m \<and> (\<forall>(ev, i)\<in>set s. i \<noteq> INVALID_TIMER_ID) \<and>
     mset (TimerManager_dtor m) = image_mset fst (pending m)"
  by (rule timers_delivered_once) (simp add: in_long_def clock_ok_def)

text \<open>A timer is due by its deadline, and may be due almost two ticks before it.\<close>

lemma due_by_deadline:
  assumes "clock_ok c" "clock_us c + 1000 * max 0 ms \<le> clock_us c'"
  shows "qt_expires (started ev i ms c) \<le> clock_us c' div 100000"
proof (cases "0 \<le> ms")
  case True
  have "clock_us c div 100000 + ms div 100 \<le> (clock_us c + 1000 * ms) div 100000" by linarith
  also have "\<dots> \<le> clock_us c' div 100000" using assms(2) True by (intro zdiv_mono1) simp_all
  finally show ?thesis using True by (simp add: started_def long_div_def max_def pos_imp_zdiv_nonneg_iff)
next
  case False
  then have "clock_us c div 100000 \<le> clock_us c' div 100000" using assms(2) by (intro zdiv_mono1) simp_all
  moreover have "long_div ms 100 \<le> 0" using False by (simp add: long_div_def pos_imp_zdiv_nonneg_iff)
  ultimately show ?thesis by (simp add: started_def max_def)
qed

lemma due_not_before:
  assumes "qt_expires (started ev i ms c) \<le> clock_us c' div 100000"
  shows "clock_us c + 1000 * ms - 200000 < clock_us c'"
proof -
  have "ms div 100 \<le> max 0 (long_div ms 100)" by (simp add: long_div_def max_def) linarith
  with assms have "clock_us c div 100000 + ms div 100 \<le> clock_us c' div 100000" by (simp add: started_def)
  then show ?thesis by linarith
qed

lemma timer_delivery:
  assumes m: "tm_inv m" and c: "clock_ok c" "clock_ok c'" and ms: "in_long ms"
    and start: "startTimer ev ms c m = Inr (i, m')" and poll: "getExpiredTimer c' m' = Inr (r, m'')"
  shows "(clock_us c + 1000 * max 0 ms \<le> clock_us c' \<longrightarrow> r \<noteq> None) \<and>
         (timer_queue m = [] \<and> r \<noteq> None \<longrightarrow> r = Some (ev, i) \<and> clock_us c + 1000 * ms - 200000 < clock_us c')"
proof -
  obtain i1 m1 where st: "startTimer ev ms c m = Inr (i1, m1)" "tm_inv m1"
    "mset (timer_queue m1) = add_mset (started ev i1 ms c) (mset (timer_queue m))"
    by (rule startTimer_ok [OF m c(1) ms])
  then have e: "i1 = i" "m1 = m'" using start by simp_all
  show ?thesis
  proof (cases rule: getExpiredTimer_cases [OF st(2) c(2)])
    case 1
    then have "r = None" using poll e by simp
    moreover have "clock_us c' div 100000 < qt_expires (started ev i ms c)" using 1(2) [unfolded e(2) st(3) [unfolded e]] by simp
    ultimately show ?thesis using due_by_deadline [OF c(1), of ms c' ev i] by auto
  next
    case (2 t m2)
    then have r: "r = Some (entry t)" using poll e by (simp add: entry_def)
    show ?thesis
    proof (cases "timer_queue m = []")
      case True
      then have "t = started ev i ms c" using 2(2) st(3) e True by simp
      then show ?thesis using r 2(4) due_not_before [of ev i ms c c'] by (simp add: entry_def started_def)
    qed (simp add: r)
  qed
qed

text \<open>A timer of 199 ms that is delivered a millisecond after it was started.\<close>

lemma timer_early:
  "map_sum id (\<lambda>(s, d, m). d) (run_timers [StartTimer gather 199 (7, 99000), Poll (7, 100000)] TimerManager_ctor) = Inr [(gather, 1)]"
  by code_simp

text \<open>Sleeping for the time \<open>getTopExpires\<close> gives is enough: the next poll finds a timer.\<close>

lemma sleep_until_top:
  assumes m: "tm_inv m" "timer_queue m \<noteq> []" and c: "clock_ok (s, long_div ns 1000)" "clock_ok c'"
    and top: "getTopExpires (s, ns) m = Inr d" and later: "clock_us (s, long_div ns 1000) + 1000 * d \<le> clock_us c'"
    and poll: "getExpiredTimer c' m = Inr (r, m')"
  shows "0 \<le> d \<and> r \<noteq> None"
proof -
  let ?t = "clock_us (s, long_div ns 1000) div 100000"
  obtain t ts where q: "timer_queue m = t # ts" using m(2) by (cases "timer_queue m") simp_all
  have d: "d = (if 0 < (qt_expires t - ?t) * 100 then (qt_expires t - ?t) * 100 else 0)"
    using top m(1) q tick_ok(1) [OF c(1)]
    by (auto simp: getTopExpires_def tm_inv_def remaining_def tq_getTopExpires_def TICK_MILLISECONDS_def long_of_def
        split: if_splits)
  have "(?t + d div 100) \<le> clock_us c' div 100000"
  proof -
    have "?t + d div 100 \<le> (clock_us (s, long_div ns 1000) + 1000 * d) div 100000" by linarith
    also have "\<dots> \<le> clock_us c' div 100000" using later by (intro zdiv_mono1) simp_all
    finally show ?thesis .
  qed
  then have "qt_expires t \<le> clock_us c' div 100000" using d by (auto split: if_splits)
  then have "r \<noteq> None" using q poll by (cases rule: getExpiredTimer_cases [OF m(1) c(2)]) auto
  then show ?thesis using d by simp
qed

end
