(* ===== verification/CommandLine.thy ===== *)
theory CommandLine
  imports Prelude
begin

text \<open>
  The conversions of the C library that the command-line programs apply to their arguments.  \<open>atoi\<close>
  is undefined, here \<^const>\<open>None\<close>, when the value does not fit an \<open>int\<close>; \<open>strtoul\<close> with base 0
  accepts the prefixes \<open>0x\<close> and \<open>0\<close> and saturates at the largest 64-bit value.
\<close>

definition isspace :: "char \<Rightarrow> bool" where
  "isspace c \<longleftrightarrow> c = CHR '' '' \<or> (9 \<le> (of_char c :: int) \<and> (of_char c :: int) \<le> 13)"

definition digit_value :: "char \<Rightarrow> int option" where
  "digit_value c =
     (let k = of_char c :: int in
      if 48 \<le> k \<and> k \<le> 57 then Some (k - 48) else if 97 \<le> k \<and> k \<le> 122 then Some (k - 87)
      else if 65 \<le> k \<and> k \<le> 90 then Some (k - 55) else None)"

text \<open>The value of the longest prefix of digits below the base.\<close>

fun digits :: "int \<Rightarrow> int \<Rightarrow> string \<Rightarrow> int" where
  "digits base acc [] = acc"
| "digits base acc (c # cs) =
     (case digit_value c of Some d \<Rightarrow> if d < base then digits base (acc * base + d) cs else acc | None \<Rightarrow> acc)"

fun sign_of :: "string \<Rightarrow> bool \<times> string" where
  "sign_of (c # cs) = (if c = CHR ''-'' then (True, cs) else if c = CHR ''+'' then (False, cs) else (False, c # cs))"
| "sign_of [] = (False, [])"

definition atoi :: "string \<Rightarrow> int option" where
  "atoi s =
     (let (neg, ds) = sign_of (dropWhile isspace s); v = digits 10 0 ds; r = (if neg then - v else v)
      in if - 2147483648 \<le> r \<and> r \<le> 2147483647 then Some r else None)"

definition base_of :: "string \<Rightarrow> int \<times> string" where
  "base_of ds =
     (case ds of
        z # x # h # cs \<Rightarrow>
          if z = CHR ''0'' \<and> x \<in> {CHR ''x'', CHR ''X''} \<and> (case digit_value h of Some d \<Rightarrow> d < 16 | None \<Rightarrow> False) then (16, h # cs)
          else if z = CHR ''0'' then (8, ds) else (10, ds)
      | z # cs \<Rightarrow> if z = CHR ''0'' then (8, ds) else (10, ds)
      | [] \<Rightarrow> (10, []))"

definition strtoul0 :: "string \<Rightarrow> u64" where
  "strtoul0 s =
     (let (neg, ds) = sign_of (dropWhile isspace s); (base, hs) = base_of ds; v = digits base 0 hs
      in if 2 ^ 64 \<le> v then - 1 else word_of_int (if neg then - v else v))"

text \<open>What a program makes of its arguments: the exit status, undefined behaviour, or the options it runs with.\<close>

datatype 'a parsed = Exit int | Undefined | Options 'a

text \<open>An option followed by its value.\<close>

definition has_value :: "string \<Rightarrow> string \<Rightarrow> string list \<Rightarrow> bool" where
  "has_value key a as \<longleftrightarrow> a = key \<and> as \<noteq> []"

text \<open>What the two make of some arguments.\<close>

lemma atoi_range: "atoi s = Some n \<Longrightarrow> - 2147483648 \<le> n \<and> n \<le> 2147483647"
  by (auto simp: atoi_def Let_def split: prod.splits if_splits)

lemma conversions:
  "atoi ''8891'' = Some 8891" "atoi '' -12x'' = Some (- 12)" "atoi ''2147483648'' = None" "atoi ''abc'' = Some 0"
  "strtoul0 ''0x514'' = 0x514" "strtoul0 ''1300'' = 1300" "strtoul0 ''010'' = 8" "strtoul0 ''-1'' = - 1"
  by code_simp+

end
