(* ===== verification/SimulatorMain.thy ===== *)
theory SimulatorMain
  imports DamiaoSimulator CommandLine
begin

text \<open>
  \<open>tools/DamiaoSimulator.cpp\<close>, its entry: the list of motor ids, the command line with its first pass
  for the log file, the socket, and the run.  Whether an address is valid, the socket was created and
  bound are arguments; setting up the logger and printing are left out.
\<close>

section \<open>Motor ids\<close>

text \<open>The tokens that \<open>std::getline\<close> with a comma delivers: nothing follows a comma at the end.\<close>

fun getlines :: "string \<Rightarrow> string \<Rightarrow> string list" where
  "getlines token [] = (if token = [] then [] else [token])"
| "getlines token (c # cs) = (if c = CHR '','' then token # getlines [] cs else getlines (token @ [c]) cs)"

definition parse_id :: "string \<Rightarrow> u16 option" where
  "parse_id token =
     (let t = dropWhile (\<lambda>c. c = CHR '' '' \<or> c = CHR 0x09) token in
      if t = [] then None else let i = ucast (strtoul0 t) in if i = 0 then None else Some i)"

definition parseMotorIds :: "string \<Rightarrow> u16 list" where
  "parseMotorIds idStr = List.map_filter parse_id (getlines [] idStr)"

section \<open>The command line\<close>

record damiao_options =
  do_localPort :: int
  do_remotePort :: int
  do_remoteIp :: string
  do_idString :: string

definition damiao_defaults :: damiao_options where
  "damiao_defaults = \<lparr>do_localPort = 8886, do_remotePort = 8887, do_remoteIp = ''127.0.0.1'', do_idString = ''1''\<rparr>"

text \<open>The two spellings of the request for help.\<close>

definition is_help :: "string \<Rightarrow> bool" where
  "is_help a \<longleftrightarrow> a = ''-h'' \<or> a = ''--help''"

fun log_pass :: "string list \<Rightarrow> string \<Rightarrow> string parsed" where
  "log_pass [] logFile = Options logFile"
| "log_pass (a # as) logFile =
     (if has_value ''-log'' a as then log_pass (tl as) (hd as)
      else if is_help a then Exit 0 else log_pass as logFile)"

fun parse_damiao_args :: "string list \<Rightarrow> damiao_options \<Rightarrow> damiao_options parsed" where
  "parse_damiao_args [] opt = Options opt"
| "parse_damiao_args (a # as) opt =
     (if has_value ''-local'' a as then
        (case atoi (hd as) of None \<Rightarrow> Undefined
         | Some n \<Rightarrow> if n \<le> 0 \<or> 65535 < n then Exit 1 else parse_damiao_args (tl as) (opt\<lparr>do_localPort := n\<rparr>))
      else if has_value ''-remote'' a as then
        (case atoi (hd as) of None \<Rightarrow> Undefined
         | Some n \<Rightarrow> if n \<le> 0 \<or> 65535 < n then Exit 1 else parse_damiao_args (tl as) (opt\<lparr>do_remotePort := n\<rparr>))
      else if has_value ''-ip'' a as then parse_damiao_args (tl as) (opt\<lparr>do_remoteIp := hd as\<rparr>)
      else if has_value ''-ids'' a as then parse_damiao_args (tl as) (opt\<lparr>do_idString := hd as\<rparr>)
      else if has_value ''-log'' a as then parse_damiao_args (tl as) opt
      else if is_help a then Exit 0
      else Exit 1)"

record sim_net =
  sn_pton :: "string \<Rightarrow> bool"
  sn_socket :: bool
  sn_bind :: "int \<Rightarrow> bool"

definition sim_init :: "sim_net \<Rightarrow> damiao_options \<Rightarrow> bool" where
  "sim_init net opt \<longleftrightarrow> sn_pton net (do_remoteIp opt) \<and> sn_socket net \<and> sn_bind net (do_localPort opt)"

text \<open>\<open>main\<close>: the options, and the simulator before and after the events of its run.\<close>

definition damiao_start :: "string list \<Rightarrow> sim_net \<Rightarrow> fault + (damiao_options \<times> Sim) parsed" where
  "damiao_start args net =
     (case log_pass args ''../logs/damiao_simulator.log'' of
        Exit n \<Rightarrow> Inr (Exit n) | Undefined \<Rightarrow> Inr Undefined
      | Options logFile \<Rightarrow>
          (case parse_damiao_args args damiao_defaults of
             Exit n \<Rightarrow> Inr (Exit n) | Undefined \<Rightarrow> Inr Undefined
           | Options opt \<Rightarrow>
               let motorIds = parseMotorIds (do_idString opt) in
               if motorIds = [] then Inr (Exit 1)
               else if MAX_MOTORS < length motorIds then Inr (Exit 1)
               else bindR (DamiaoMultiSimulator motorIds) (\<lambda>sim.
                 if sim_init net opt then Inr (Options (opt, sim)) else Inr (Exit 1))))"

definition damiao_main :: "(real \<Rightarrow> real) \<Rightarrow> string list \<Rightarrow> sim_net \<Rightarrow> sim_event list \<Rightarrow> fault + Sim parsed" where
  "damiao_main rnd args net events =
     bindR (damiao_start args net) (\<lambda>p. case p of
        Exit n \<Rightarrow> Inr (Exit n) | Undefined \<Rightarrow> Inr Undefined
      | Options (opt, sim) \<Rightarrow> bindR (runMotorMode rnd events sim) (\<lambda>s. Inr (Options s)))"

section \<open>What a run starts with\<close>

definition ports_ok :: "damiao_options \<Rightarrow> bool" where
  "ports_ok opt \<longleftrightarrow> do_localPort opt \<in> {1..65535} \<and> do_remotePort opt \<in> {1..65535}"

lemma ports_ok_simps [simp]:
  "ports_ok opt \<Longrightarrow> \<not> (n \<le> 0 \<or> 65535 < n) \<Longrightarrow> ports_ok (opt\<lparr>do_localPort := n\<rparr>)"
  "ports_ok opt \<Longrightarrow> \<not> (n \<le> 0 \<or> 65535 < n) \<Longrightarrow> ports_ok (opt\<lparr>do_remotePort := n\<rparr>)"
  "ports_ok (opt\<lparr>do_remoteIp := x\<rparr>) = ports_ok opt" "ports_ok (opt\<lparr>do_idString := x\<rparr>) = ports_ok opt"
  "ports_ok damiao_defaults"
  by (auto simp: ports_ok_def damiao_defaults_def)

lemma damiao_options_valid: "parse_damiao_args args o1 = Options o2 \<Longrightarrow> ports_ok o1 \<Longrightarrow> ports_ok o2"
proof (induction args o1 rule: parse_damiao_args.induct)
  case (2 a as opt)
  consider "has_value ''-local'' a as" | "\<not> has_value ''-local'' a as" "has_value ''-remote'' a as"
    | "\<not> has_value ''-local'' a as" "\<not> has_value ''-remote'' a as" by blast
  then show ?case
  proof cases
    case 1
    then show ?thesis using "2.prems" "2.IH"(1) by (simp split: option.split_asm if_split_asm)
  next
    case 2
    then show ?thesis using "2.prems" "2.IH"(2) by (simp split: option.split_asm if_split_asm)
  next
    case 3
    then show ?thesis using "2.prems" "2.IH"(3,4,5) by (simp split: if_split_asm)
  qed
qed simp

lemma parse_id_not_zero: "parse_id token \<noteq> Some 0"
  by (simp add: parse_id_def Let_def)

lemma ids_not_zero: "0 \<notin> set (parseMotorIds s)"
proof
  assume "0 \<in> set (parseMotorIds s)"
  then obtain token where "parse_id token = Some 0"
    by (auto simp: parseMotorIds_def List.map_filter_def)
  then show False using parse_id_not_zero by blast
qed

lemma fold_sim_add:
  assumes "\<forall>(k, m)\<in>set (motors_ids s). s_status m = DISABLED"
  shows "fst ` set (motors_ids (fold sim_add ids s)) = fst ` set (motors_ids s) \<union> set ids \<and>
    (\<forall>(k, m)\<in>set (motors_ids (fold sim_add ids s)). s_status m = DISABLED) \<and>
    responses (fold sim_add ids s) = responses s"
  using assms
proof (induction ids arbitrary: s)
  case (Cons i ids)
  let ?m = "initDefaults (MotorState_init\<lparr>s_canId := i, s_masterId := i + 0x10\<rparr>)"
  have m: "motors_ids (sim_add i s) = map_put i ?m (motors_ids s)" by (simp add: sim_add_def)
  have "s_status ?m = DISABLED" by (simp add: initDefaults_def MotorState_init_def)
  then have d: "\<forall>(k, m)\<in>set (motors_ids (sim_add i s)). s_status m = DISABLED"
    using set_map_put [of i ?m "motors_ids s"] Cons.prems unfolding m by fastforce
  have "responses (sim_add i s) = responses s" by (simp add: sim_add_def)
  then show ?case using Cons.IH [OF d] keys_map_put [of i ?m "motors_ids s"] by (auto simp: m)
qed simp

text \<open>Whatever the arguments, starting the simulator does not fault, and if it runs its ports are valid and it has
  from one to twelve motors, one for each id given, all disabled and inside their limits, and nothing was sent.\<close>

theorem simulator_starts:
  shows "\<exists>p. damiao_start args net = Inr p \<and>
    (\<forall>opt s. p = Options (opt, s) \<longrightarrow>
       do_localPort opt \<in> {1..65535} \<and> do_remotePort opt \<in> {1..65535} \<and> sim_init net opt \<and> sim_inv s \<and>
       fst ` set (motors_ids s) = set (parseMotorIds (do_idString opt)) \<and> 0 \<notin> fst ` set (motors_ids s) \<and>
       motors_ids s \<noteq> [] \<and> length (motors_ids s) \<le> MAX_MOTORS \<and>
       (\<forall>(k, m)\<in>set (motors_ids s). s_status m = DISABLED) \<and> responses s = [])"
proof -
  let ?ids = "\<lambda>opt. parseMotorIds (do_idString opt)"
  have started: "do_localPort opt \<in> {1..65535} \<and> do_remotePort opt \<in> {1..65535} \<and> sim_inv s \<and>
      fst ` set (motors_ids s) = set (?ids opt) \<and> 0 \<notin> fst ` set (motors_ids s) \<and> motors_ids s \<noteq> [] \<and>
      length (motors_ids s) \<le> MAX_MOTORS \<and> (\<forall>(k, m)\<in>set (motors_ids s). s_status m = DISABLED) \<and> responses s = []"
    if o: "parse_damiao_args args damiao_defaults = Options opt" "?ids opt \<noteq> []" "\<not> MAX_MOTORS < length (?ids opt)"
      and s: "DamiaoMultiSimulator (?ids opt) = Inr s" for opt s
  proof -
    have e: "s = fold sim_add (?ids opt) \<lparr>motors_ids = [], responses = []\<rparr>"
      using s o(3) by (simp add: DamiaoMultiSimulator_def)
    have f: "fst ` set (motors_ids s) = set (?ids opt) \<and> (\<forall>(k, m)\<in>set (motors_ids s). s_status m = DISABLED) \<and> responses s = []"
      using fold_sim_add [of "\<lparr>motors_ids = [], responses = []\<rparr>" "?ids opt"] unfolding e by simp
    have inv: "sim_inv s" by (rule DamiaoMultiSimulator_inv [OF s])
    have "length (motors_ids s) = card (fst ` set (motors_ids s))"
      using inv distinct_card [of "map fst (motors_ids s)"] by (simp add: sim_inv_def)
    also have "\<dots> \<le> length (?ids opt)" using f card_length [of "?ids opt"] by simp
    finally have "length (motors_ids s) \<le> MAX_MOTORS" using o(3) by simp
    moreover have "motors_ids s \<noteq> []" using f o(2) by fastforce
    moreover have "do_localPort opt \<in> {1..65535} \<and> do_remotePort opt \<in> {1..65535}"
      using damiao_options_valid [OF o(1)] unfolding ports_ok_def [symmetric] by simp
    ultimately show ?thesis using f inv ids_not_zero [of "do_idString opt"] by simp
  qed
  have ctor: "\<exists>s. DamiaoMultiSimulator ids = Inr s" if "\<not> MAX_MOTORS < length ids" for ids
    using that by (simp add: DamiaoMultiSimulator_def)
  show ?thesis
  proof (cases "log_pass args ''../logs/damiao_simulator.log''")
    case (Options logFile)
    show ?thesis
    proof (cases "parse_damiao_args args damiao_defaults")
      case opt: (Options opt)
      show ?thesis
      proof (cases "?ids opt = [] \<or> MAX_MOTORS < length (?ids opt)")
        case True
        then show ?thesis using Options opt by (auto simp: damiao_start_def Let_def)
      next
        case False
        then obtain s where s: "DamiaoMultiSimulator (?ids opt) = Inr s" using ctor by blast
        then have "damiao_start args net = Inr (if sim_init net opt then Options (opt, s) else Exit 1)"
          using False Options opt by (simp add: damiao_start_def Let_def)
        then show ?thesis using started [OF opt _ _ s] ids_not_zero [of "do_idString opt"] False by (cases "sim_init net opt") simp_all
      qed
    qed (use Options in \<open>simp_all add: damiao_start_def\<close>)
  qed (simp_all add: damiao_start_def)
qed

text \<open>The command lines of the two services give a simulator for each leg's motors; the mode that the
  usage text offers is refused.\<close>

definition any_net :: sim_net where
  "any_net = \<lparr>sn_pton = (\<lambda>_. True), sn_socket = True, sn_bind = (\<lambda>_. True)\<rparr>"

definition started_ids :: "string list \<Rightarrow> (int \<times> int \<times> u16 list) parsed" where
  "started_ids args = (case damiao_start args any_net of
      Inr (Options (opt, s)) \<Rightarrow> Options (do_localPort opt, do_remotePort opt, map fst (motors_ids s))
    | Inr (Exit n) \<Rightarrow> Exit n | _ \<Rightarrow> Undefined)"

lemma service_ids:
  "parseMotorIds ''1,2,3,4,5,6'' = [1, 2, 3, 4, 5, 6]" "parseMotorIds ''7,8,9,10,11,12'' = [7, 8, 9, 10, 11, 12]"
  "parseMotorIds ''2, 0x1,,65538,0'' = [2, 1, 2]"
  by code_simp+

lemma service_ports:
  "atoi ''8886'' = Some 8886" "atoi ''8887'' = Some 8887" "atoi ''8888'' = Some 8888" "atoi ''8889'' = Some 8889"
  by code_simp+

lemmas start_simps = started_ids_def damiao_start_def damiao_defaults_def any_net_def sim_init_def DamiaoMultiSimulator_def
  sim_add_def MAX_MOTORS_def Let_def has_value_def is_help_def service_ids service_ports

lemma service_command_lines:
  "started_ids [''-ids'', ''1,2,3,4,5,6'', ''-local'', ''8886'', ''-remote'', ''8887'', ''-ip'', ''127.0.0.1'', ''-log'', ''l.log''] =
     Options (8886, 8887, [1, 2, 3, 4, 5, 6])"
  "started_ids [''-ids'', ''7,8,9,10,11,12'', ''-local'', ''8888'', ''-remote'', ''8889'', ''-ip'', ''127.0.0.1'', ''-log'', ''r.log''] =
     Options (8888, 8889, [7, 8, 9, 10, 11, 12])"
  "started_ids [''-mode'', ''imu'', ''-ids'', ''1,2,3''] = Exit 1"
  "started_ids [''-ids'', ''2, 0x1,,65538,0''] = Options (8886, 8887, [1, 2])"
  by (simp_all add: start_simps)

text \<open>Writing an integer parameter with a value that rounds to \<open>2 ^ 32\<close> as a float is undefined: the reply converts
  the float back to 32 bits.\<close>

lemma write_param_overflow:
  "handleWriteParam m [1, 0, 0x55, 7, 0xFF, 0xFF, 0xFF, 0xFF] = Inl BadCast"
proof -
  have raw: "le_word32 [0xFF, 0xFF, 0xFF, 0xFF] = 0xFFFFFFFF" by code_simp
  have "nlog2 4294967295 = 31" by simp
  then have f: "f32_of_nat 4294967295 = 0x4F800000" by (simp add: f32_of_nat_def)
  have "f32_val 0x4F800000 = Fin 4294967296" by (simp add: f32_val_def)
  then have "cast_int 0 4294967295 (f32_val (f32_of_nat 4294967295)) = None" unfolding f by (simp add: cast_int_def trunc_real_def)
  then show ?thesis by (simp add: handleWriteParam_def handleQueryParam_def Let_def is_int_rid_def raw)
qed

end
