(* ===== verification/ImuReader.thy ===== *)
theory ImuReader
  imports MercuryShm Utility Binary64
begin

text \<open>
  \<open>lib/imu/ImuReader.cpp\<close> and \<open>src/subsystems/Imu.h\<close>: the thread that receives the frames of the
  inertial sensor, collects the five frames of a measurement and publishes it.  \<open>im_stage\<close> says
  whether the staging pointer is set; the staging buffer itself is the second component of the
  state and is absent when the shared memory is unmapped.  A datagram comes with the clock reading
  made if it completes a measurement.
\<close>

section \<open>State\<close>

definition kMaxFrames :: int where "kMaxFrames = 5"
definition kRateHz :: double where "kRateHz = Fin 200"
definition sizeof_ImuCanFrame :: nat where "sizeof_ImuCanFrame = 13"

record imu_config =
  ic_serverIp :: string
  ic_localPort :: int
  ic_baseId :: int

record ImuReader =
  m_serverIp :: string
  m_localPort :: int
  m_numFrames :: int
  im_baseId :: int
  im_shutdown :: bool
  im_threadCreated :: bool
  im_stage :: bool
  m_frameCount :: int
  m_accumulator :: ImuStageData
  im_sequence :: u64

text \<open>\<open>m_baseId\<close> is not initialised: its value before \<open>start\<close> is an argument.\<close>

definition ImuReader_ctor :: "int \<Rightarrow> ImuReader" where
  "ImuReader_ctor junk = \<lparr>m_serverIp = [], m_localPort = 0, m_numFrames = kMaxFrames, im_baseId = junk,
     im_shutdown = False, im_threadCreated = False, im_stage = False, m_frameCount = 0,
     m_accumulator = ImuStageData_zero, im_sequence = 0\<rparr>"

section \<open>Operations\<close>

definition setStagingBuffer :: "bool \<Rightarrow> ImuReader \<Rightarrow> ImuReader" where
  "setStagingBuffer ptr r = r\<lparr>im_stage := ptr\<rparr>"

definition imu_start :: "imu_config \<Rightarrow> bool \<Rightarrow> ImuReader \<Rightarrow> ImuReader" where
  "imu_start cfg create_ok r =
     r\<lparr>m_serverIp := (if ic_serverIp cfg = [] then ''127.0.0.1'' else ic_serverIp cfg),
       m_localPort := ic_localPort cfg, im_baseId := ic_baseId cfg, im_shutdown := False,
       im_threadCreated := create_ok\<rparr>"

definition imu_shutdown :: "ImuReader \<Rightarrow> ImuReader" where
  "imu_shutdown r =
     (let r1 = r\<lparr>im_shutdown := True\<rparr>
      in if \<not> im_threadCreated r1 then r1 else r1\<lparr>im_threadCreated := False\<rparr>)"

text \<open>The fields of a packed 13-byte frame.\<close>

definition frame_canId :: "bytes \<Rightarrow> u32" where
  "frame_canId f = bswap32 (le_word32 (take 4 (drop 1 f)))"

definition frame_float :: "nat \<Rightarrow> bytes \<Rightarrow> double" where
  "frame_float i f = f32_val (le_word32 (take 4 (drop (5 + 4 * i) f)))"

definition out_of_window :: "u32 \<Rightarrow> ImuReader \<Rightarrow> bool" where
  "out_of_window canId r \<longleftrightarrow>
     canId < word_of_int (im_baseId r) \<or>
     word_of_int (im_baseId r) + word_of_int (m_numFrames r) \<le> canId"

definition accumulate :: "int \<Rightarrow> double \<Rightarrow> double \<Rightarrow> ImuStageData \<Rightarrow> ImuStageData" where
  "accumulate offset f0 f1 a =
     (if offset = 0 then a\<lparr>i_imu_acc := (i_imu_acc a)[0 := f0, 1 := f1]\<rparr>
      else if offset = 1 then
        a\<lparr>i_imu_acc := (i_imu_acc a)[2 := f0], i_imu_ang_vel := (i_imu_ang_vel a)[0 := f1]\<rparr>
      else if offset = 2 then a\<lparr>i_imu_ang_vel := (i_imu_ang_vel a)[1 := f0, 2 := f1]\<rparr>
      else a)"

definition complete_sample :: "(real \<Rightarrow> real) \<Rightarrow> u64 \<Rightarrow> u64 \<Rightarrow> ImuStageData \<Rightarrow> ImuStageData" where
  "complete_sample rnd now seq a =
     a\<lparr>i_timestamp_ns := now, i_sequence := seq,
       i_imu_inc := map (\<lambda>v. dmul rnd v (ddiv rnd (Fin 1) kRateHz)) (i_imu_ang_vel a)\<rparr>"

definition on_frame ::
    "(real \<Rightarrow> real) \<Rightarrow> u64 \<Rightarrow> bytes \<Rightarrow> ImuReader \<times> ImuStageData SourceDoubleBuffer option \<Rightarrow>
     fault + ImuReader \<times> ImuStageData SourceDoubleBuffer option" where
  "on_frame rnd now f = (\<lambda>(r, mem).
     let canId = frame_canId f in
     if out_of_window canId r then Inr (r, mem)
     else let offset = sint (canId - word_of_int (im_baseId r));
              r1 = (if offset = 0 then r\<lparr>m_frameCount := 0\<rparr> else r);
              r2 = r1\<lparr>m_accumulator := accumulate offset (frame_float 0 f) (frame_float 1 f) (m_accumulator r1),
                      m_frameCount := m_frameCount r1 + 1\<rparr>
          in if m_frameCount r2 \<noteq> m_numFrames r2 then Inr (r2, mem)
             else let r3 = r2\<lparr>im_sequence := im_sequence r2 + 1,
                              m_accumulator := complete_sample rnd now (im_sequence r2 + 1) (m_accumulator r2),
                              m_frameCount := 0\<rparr>
                  in if \<not> im_stage r3 then Inr (r3, mem)
                     else case mem of
                         None \<Rightarrow> Inl NullDeref
                       | Some b \<Rightarrow> bindR (publish i_timestamp_ns (m_accumulator r3) b)
                                     (\<lambda>b'. Inr (r3, Some b')))"

text \<open>
  The inner loop reads datagrams until the socket is empty or a short one was read; a datagram is
  truncated to the size of the frame.  The result also has the datagrams left.
\<close>

fun drain_socket ::
    "(real \<Rightarrow> real) \<Rightarrow> (bytes \<times> u64) list \<Rightarrow> ImuReader \<times> ImuStageData SourceDoubleBuffer option \<Rightarrow>
     fault + (bytes \<times> u64) list \<times> ImuReader \<times> ImuStageData SourceDoubleBuffer option" where
  "drain_socket rnd [] s = Inr ([], s)"
| "drain_socket rnd ((d, now) # q) s =
     (if length d < sizeof_ImuCanFrame then Inr (q, s)
      else bindR (on_frame rnd now (take sizeof_ImuCanFrame d) s) (drain_socket rnd q))"

text \<open>One turn of the outer loop: what \<open>m_shutdown\<close> was read as, what \<open>epoll_wait\<close> returned, and the
  datagrams that have arrived in the meantime.\<close>

datatype epoll_result = EpollError bool | EpollTimeout | EpollReady

fun imu_loop ::
    "(real \<Rightarrow> real) \<Rightarrow> (bool \<times> epoll_result \<times> (bytes \<times> u64) list) list \<Rightarrow>
     (bytes \<times> u64) list \<times> ImuReader \<times> ImuStageData SourceDoubleBuffer option \<Rightarrow>
     fault + (bytes \<times> u64) list \<times> ImuReader \<times> ImuStageData SourceDoubleBuffer option" where
  "imu_loop rnd [] s = Inr s"
| "imu_loop rnd ((shut, ev, arrived) # ts) (q, s) =
     (if shut then Inr (q @ arrived, s)
      else case ev of
          EpollError interrupted \<Rightarrow> if interrupted then imu_loop rnd ts (q @ arrived, s) else Inr (q @ arrived, s)
        | EpollTimeout \<Rightarrow> imu_loop rnd ts (q @ arrived, s)
        | EpollReady \<Rightarrow> bindR (drain_socket rnd (q @ arrived) s) (imu_loop rnd ts))"

definition imu_run ::
    "(real \<Rightarrow> real) \<Rightarrow> bool \<Rightarrow> bool \<Rightarrow> (bool \<times> epoll_result \<times> (bytes \<times> u64) list) list \<Rightarrow>
     ImuReader \<times> ImuStageData SourceDoubleBuffer option \<Rightarrow> fault + ImuReader \<times> ImuStageData SourceDoubleBuffer option" where
  "imu_run rnd socket_ok bind_ok ts s =
     (if \<not> socket_ok \<or> \<not> bind_ok then Inr s
      else bindR (imu_loop rnd ts ([], s)) (\<lambda>(q, s'). Inr s'))"

section \<open>Frames of a measurement\<close>

text \<open>The frame with identifier \<open>id\<close> that carries the two floats with the patterns \<open>a\<close> and \<open>b\<close>.\<close>

definition imu_frame :: "u32 \<Rightarrow> u32 \<times> u32 \<Rightarrow> bytes" where
  "imu_frame i p = 8 # le_bytes32 (bswap32 i) @ le_bytes32 (fst p) @ le_bytes32 (snd p)"

lemma imu_frame_fields [simp]:
  "frame_canId (imu_frame i p) = i" "frame_float 0 (imu_frame i p) = f32_val (fst p)"
  "frame_float 1 (imu_frame i p) = f32_val (snd p)" "frame_float (Suc 0) (imu_frame i p) = f32_val (snd p)"
  "length (imu_frame i p) = 13"
  by (simp_all add: imu_frame_def frame_canId_def frame_float_def)

text \<open>The measurement made of the payloads \<open>p\<close> of the five frames.\<close>

definition measured :: "(real \<Rightarrow> real) \<Rightarrow> u64 \<Rightarrow> u64 \<Rightarrow> (nat \<Rightarrow> u32 \<times> u32) \<Rightarrow> ImuStageData" where
  "measured rnd now seq p =
     (let g = map f32_val [snd (p 1), fst (p 2), snd (p 2)] in
      \<lparr>i_imu_inc = map (\<lambda>v. dmul rnd v (ddiv rnd (Fin 1) kRateHz)) g, i_imu_ang_vel = g,
       i_imu_acc = map f32_val [fst (p 0), snd (p 0), fst (p 1)], i_timestamp_ns = now, i_sequence = seq\<rparr>)"

definition reader_ok :: "ImuReader \<Rightarrow> bool" where
  "reader_ok r \<longleftrightarrow> m_numFrames r = 5 \<and> 0 \<le> im_baseId r \<and> im_baseId r < 2 ^ 31 - 5 \<and>
     length (i_imu_acc (m_accumulator r)) = 3 \<and> length (i_imu_ang_vel (m_accumulator r)) = 3 \<and> im_stage r"


lemma window:
  assumes "0 \<le> b" "b < 2 ^ 31 - 5" "i < 5"
  shows "\<not> (word_of_int b + word_of_int (int i) :: u32) < word_of_int b"
    "\<not> (word_of_int b + word_of_int 5 :: u32) \<le> word_of_int b + word_of_int (int i)"
    "sint (word_of_int b + word_of_int (int i) - word_of_int b :: u32) = int i"
proof -
  have e: "word_of_int b + word_of_int k = (word_of_int (b + k) :: u32)" for k by simp
  have u: "uint (word_of_int k :: u32) = k" if "0 \<le> k" "k < 2 ^ 32" for k
    using that by (simp add: uint_word_of_int)
  have ub: "uint (word_of_int b :: u32) = b" "uint (word_of_int (b + int i) :: u32) = b + int i"
    "uint (word_of_int (b + 5) :: u32) = b + 5" by (rule u; use assms in simp)+
  show "\<not> (word_of_int b + word_of_int (int i) :: u32) < word_of_int b"
    "\<not> (word_of_int b + word_of_int 5 :: u32) \<le> word_of_int b + word_of_int (int i)"
    using assms unfolding e word_less_def word_le_def by (simp_all only: ub)
  have "sint (word_of_int (int i) :: u32) = int i"
    unfolding sint_sbintrunc' by (rule signed_take_bit_int_eq_self) (use assms(3) in simp_all)
  then show "sint (word_of_int b + word_of_int (int i) - word_of_int b :: u32) = int i" by simp
qed

definition frame_at :: "ImuReader \<Rightarrow> nat \<Rightarrow> u32 \<times> u32 \<Rightarrow> bytes" where
  "frame_at r i p = imu_frame (word_of_int (im_baseId r) + word_of_int (int i)) p"

lemma on_frame_at:
  assumes "reader_ok r" "i < 5"
  shows "on_frame rnd now (frame_at r i p) (r, mem) =
    (let c = (if i = 0 then 0 else m_frameCount r) + 1;
         a = accumulate (int i) (f32_val (fst p)) (f32_val (snd p)) (m_accumulator r)
     in if c \<noteq> 5 then Inr (r\<lparr>m_accumulator := a, m_frameCount := c\<rparr>, mem)
        else let a' = complete_sample rnd now (im_sequence r + 1) a;
                 r' = r\<lparr>im_sequence := im_sequence r + 1, m_accumulator := a', m_frameCount := 0\<rparr>
             in case mem of None \<Rightarrow> Inl NullDeref
                | Some b \<Rightarrow> bindR (publish i_timestamp_ns a' b) (\<lambda>b'. Inr (r', Some b')))"
proof -
  note w = window [of "im_baseId r" i]
  show ?thesis
    using assms w unfolding on_frame_def frame_at_def out_of_window_def
    by (simp add: reader_ok_def Let_def split: option.split)
qed

lemma accumulate_lengths:
  "length (i_imu_acc (accumulate k x y a)) = length (i_imu_acc a)"
  "length (i_imu_ang_vel (accumulate k x y a)) = length (i_imu_ang_vel a)"
  by (simp_all add: accumulate_def)

lemma same_base: "im_baseId r' = im_baseId r \<Longrightarrow> frame_at r' = frame_at r"
  by (simp add: frame_at_def fun_eq_iff)

lemma length_frame_at [simp]: "length (frame_at r i p) = 13"
  by (simp add: frame_at_def)

text \<open>Frames that do not complete a measurement publish nothing.\<close>

lemma frames_pending:
  assumes "reader_ok r" "\<forall>i \<in> set offs. 0 < i \<and> i < 5" "0 \<le> m_frameCount r"
    "m_frameCount r + int (length offs) < 5"
  shows "\<exists>r'. drain_socket rnd (map (\<lambda>i. (frame_at r i (p i), t i)) offs @ q) (r, mem) =
      drain_socket rnd q (r', mem) \<and> reader_ok r' \<and> im_baseId r' = im_baseId r \<and>
      im_sequence r' = im_sequence r"
  using assms
proof (induction offs arbitrary: r)
  case (Cons i offs)
  let ?a = "accumulate (int i) (f32_val (fst (p i))) (f32_val (snd (p i))) (m_accumulator r)"
  let ?r = "r\<lparr>m_accumulator := ?a, m_frameCount := m_frameCount r + 1\<rparr>"
  have "on_frame rnd (t i) (frame_at r i (p i)) (r, mem) = Inr (?r, mem)"
    using Cons.prems on_frame_at [OF Cons.prems(1), of i rnd "t i" "p i" mem] by (simp add: Let_def)
  moreover have "reader_ok ?r" using Cons.prems(1) by (simp add: reader_ok_def accumulate_lengths)
  then obtain r' where "drain_socket rnd (map (\<lambda>i. (frame_at ?r i (p i), t i)) offs @ q) (?r, mem) =
      drain_socket rnd q (r', mem)" "reader_ok r'" "im_baseId r' = im_baseId ?r" "im_sequence r' = im_sequence ?r"
    using Cons.IH [of ?r] Cons.prems(2-4) by auto
  ultimately show ?case
    using same_base [of ?r r] by (intro exI [of _ r']) (simp add: sizeof_ImuCanFrame_def)
qed auto

lemma three: "length xs = 3 \<Longrightarrow> \<exists>a b c. xs = [a, b, c]"
  by (auto simp: numeral_3_eq_3 length_Suc_conv)

text \<open>After the first four frames of a measurement.\<close>

lemma frames_0123:
  assumes "reader_ok r"
  shows "\<exists>r'. drain_socket rnd (map (\<lambda>i. (frame_at r i (p i), t i)) [0, 1, 2, 3] @ q) (r, mem) =
      drain_socket rnd q (r', mem) \<and> reader_ok r' \<and> im_baseId r' = im_baseId r \<and>
      im_sequence r' = im_sequence r \<and> m_frameCount r' = 4 \<and>
      i_imu_acc (m_accumulator r') = map f32_val [fst (p 0), snd (p 0), fst (p 1)] \<and>
      i_imu_ang_vel (m_accumulator r') = map f32_val [snd (p 1), fst (p 2), snd (p 2)]"
proof -
  define acc where "acc i a = accumulate (int i) (f32_val (fst (p i))) (f32_val (snd (p i))) a" for i a
  define r1 where "r1 = r\<lparr>m_accumulator := acc 0 (m_accumulator r), m_frameCount := 1\<rparr>"
  define r2 where "r2 = r1\<lparr>m_accumulator := acc 1 (m_accumulator r1), m_frameCount := 2\<rparr>"
  define r3 where "r3 = r2\<lparr>m_accumulator := acc 2 (m_accumulator r2), m_frameCount := 3\<rparr>"
  define r4 where "r4 = r3\<lparr>m_accumulator := acc 3 (m_accumulator r3), m_frameCount := 4\<rparr>"
  note defs = r1_def r2_def r3_def r4_def
  have ok: "reader_ok r1" "reader_ok r2" "reader_ok r3" "reader_ok r4"
    using assms by (simp_all add: defs reader_ok_def acc_def accumulate_lengths)
  have fr: "frame_at r1 = frame_at r" "frame_at r2 = frame_at r" "frame_at r3 = frame_at r"
    by (simp_all add: defs frame_at_def fun_eq_iff)
  have s1: "on_frame rnd (t 0) (frame_at r 0 (p 0)) (r, mem) = Inr (r1, mem)"
    by (subst on_frame_at [OF assms]) (simp_all add: Let_def acc_def defs)
  have s2: "on_frame rnd (t 1) (frame_at r1 1 (p 1)) (r1, mem) = Inr (r2, mem)"
    by (subst on_frame_at [OF ok(1)]) (simp_all add: Let_def acc_def defs)
  have s3: "on_frame rnd (t 2) (frame_at r2 2 (p 2)) (r2, mem) = Inr (r3, mem)"
    by (subst on_frame_at [OF ok(2)]) (simp_all add: Let_def acc_def defs)
  have s4: "on_frame rnd (t 3) (frame_at r3 3 (p 3)) (r3, mem) = Inr (r4, mem)"
    by (subst on_frame_at [OF ok(3)]) (simp_all add: Let_def acc_def defs)
  note s = s1 s2 [unfolded fr] s3 [unfolded fr] s4 [unfolded fr]
  have "drain_socket rnd (map (\<lambda>i. (frame_at r i (p i), t i)) [0, 1, 2, 3] @ q) (r, mem) = drain_socket rnd q (r4, mem)"
    by (simp add: sizeof_ImuCanFrame_def s [unfolded One_nat_def])
  moreover have "i_imu_acc (m_accumulator r4) = map f32_val [fst (p 0), snd (p 0), fst (p 1)]"
    "i_imu_ang_vel (m_accumulator r4) = map f32_val [snd (p 1), fst (p 2), snd (p 2)]"
    using assms three [of "i_imu_acc (m_accumulator r)"] three [of "i_imu_ang_vel (m_accumulator r)"]
    by (auto simp: defs acc_def accumulate_def reader_ok_def)
  ultimately show ?thesis using ok(4) by (intro exI [of _ r4]) (simp add: defs)
qed

text \<open>The fifth frame since the count was reset, whichever it is, publishes.\<close>

lemma fifth_frame:
  fixes rnd :: "real \<Rightarrow> real" and now :: u64 and x :: "u32 \<times> u32"
  assumes "reader_ok r" "m_frameCount r = 4" "0 < i" "i < 5" "dbuf_inv b"
  defines "d \<equiv> complete_sample rnd now (im_sequence r + 1)
      (accumulate (int i) (f32_val (fst x)) (f32_val (snd x)) (m_accumulator r))"
  shows "\<exists>r' b'. on_frame rnd now (frame_at r i x) (r, Some b) = Inr (r', Some b') \<and> reader_ok r' \<and>
      im_baseId r' = im_baseId r \<and> im_sequence r' = im_sequence r + 1 \<and> dbuf_inv b' \<and>
      d_sequence b' = d_sequence b + 1 \<and> read_buf b' = Inr d"
proof -
  obtain b' where b': "publish i_timestamp_ns d b = Inr b'" "dbuf_inv b'" "read_buf b' = Inr d"
    "d_sequence b' = d_sequence b + 1"
    using publish_ok [OF assms(5)] by metis
  let ?r = "r\<lparr>im_sequence := im_sequence r + 1, m_accumulator := d, m_frameCount := 0\<rparr>"
  have "on_frame rnd now (frame_at r i x) (r, Some b) = Inr (?r, Some b')"
    by (subst on_frame_at [OF assms(1,4)]) (use assms(2,3) b'(1) in \<open>simp add: Let_def d_def\<close>)
  moreover have "reader_ok ?r"
    using assms(1) by (simp add: reader_ok_def d_def complete_sample_def accumulate_lengths)
  ultimately show ?thesis using b'(2-4) by (intro exI [of _ ?r] exI [of _ b']) simp
qed

text \<open>A complete measurement is published, whatever the state it meets.\<close>

lemma frames_complete:
  assumes "reader_ok r" "dbuf_inv b"
  shows "\<exists>r' b'. drain_socket rnd (map (\<lambda>i. (frame_at r i (p i), t i)) [0..<5] @ q) (r, Some b) =
      drain_socket rnd q (r', Some b') \<and> reader_ok r' \<and> im_baseId r' = im_baseId r \<and>
      im_sequence r' = im_sequence r + 1 \<and> dbuf_inv b' \<and> d_sequence b' = d_sequence b + 1 \<and>
      read_buf b' = Inr (measured rnd (t 4) (im_sequence r + 1) p)"
proof -
  let ?q = "(frame_at r 4 (p 4), t 4) # q"
  obtain r4 where r4: "drain_socket rnd (map (\<lambda>i. (frame_at r i (p i), t i)) [0, 1, 2, 3] @ ?q) (r, Some b) =
      drain_socket rnd ?q (r4, Some b)" "reader_ok r4" "im_baseId r4 = im_baseId r"
    "im_sequence r4 = im_sequence r" "m_frameCount r4 = 4"
    "i_imu_acc (m_accumulator r4) = map f32_val [fst (p 0), snd (p 0), fst (p 1)]"
    "i_imu_ang_vel (m_accumulator r4) = map f32_val [snd (p 1), fst (p 2), snd (p 2)]"
    using frames_0123 [OF assms(1)] by blast
  obtain r' b' where r': "on_frame rnd (t 4) (frame_at r 4 (p 4)) (r4, Some b) = Inr (r', Some b')" "reader_ok r'"
    "im_baseId r' = im_baseId r" "im_sequence r' = im_sequence r + 1" "dbuf_inv b'" "d_sequence b' = d_sequence b + 1"
    "read_buf b' = Inr (complete_sample rnd (t 4) (im_sequence r + 1)
      (accumulate (int 4) (f32_val (fst (p 4))) (f32_val (snd (p 4))) (m_accumulator r4)))"
    using fifth_frame [OF r4(2,5), of 4 b rnd "t 4" "p 4"] assms(2) r4(3,4) same_base [OF r4(3)] by auto
  have "read_buf b' = Inr (measured rnd (t 4) (im_sequence r + 1) p)"
    unfolding r'(7) by (simp add: accumulate_def complete_sample_def measured_def r4(6,7) Let_def)
  moreover have "[0..<5] = [0, 1, 2, 3, 4::nat]" by (simp add: upt_rec)
  then have "drain_socket rnd (map (\<lambda>i. (frame_at r i (p i), t i)) [0..<5] @ q) (r, Some b) =
      drain_socket rnd q (r', Some b')"
    using r4(1) r'(1) by (simp add: sizeof_ImuCanFrame_def)
  ultimately show ?thesis using r'(2-6) by (intro exI [of _ r'] exI [of _ b']) simp
qed

section \<open>Properties\<close>

type_synonym imu_cycle = "nat list \<times> (nat \<Rightarrow> u32 \<times> u32) \<times> (nat \<Rightarrow> u64)"

text \<open>The datagrams of a measurement of which the frames \<open>offs\<close> arrive.\<close>

definition arrived :: "ImuReader \<Rightarrow> imu_cycle \<Rightarrow> (bytes \<times> u64) list" where
  "arrived r = (\<lambda>(offs, p, t). map (\<lambda>i. (frame_at r i (p i), t i)) offs)"

definition full :: "imu_cycle \<Rightarrow> bool" where
  "full c \<longleftrightarrow> fst c = [0..<5]"

definition in_order :: "imu_cycle \<Rightarrow> bool" where
  "in_order c \<longleftrightarrow> sorted_wrt (<) (fst c) \<and> set (fst c) \<subseteq> {..<5} \<and> 0 \<in> set (fst c)"

definition sample_of :: "(real \<Rightarrow> real) \<Rightarrow> u64 \<Rightarrow> imu_cycle \<Rightarrow> ImuStageData" where
  "sample_of rnd seq = (\<lambda>(offs, p, t). measured rnd (t 4) seq p)"

lemma in_order_cases:
  assumes "in_order (offs, p, t)" "\<not> full (offs, p, t)"
  obtains rest where "offs = 0 # rest" "\<forall>i \<in> set rest. 0 < i \<and> i < 5" "length rest < 4"
proof -
  have s: "sorted_wrt (<) offs" "set offs \<subseteq> {..<5}" "0 \<in> set offs" "offs \<noteq> [0..<5]"
    using assms by (simp_all add: in_order_def full_def)
  then obtain rest where o: "offs = 0 # rest" by (cases offs) auto
  have r: "\<forall>i \<in> set rest. 0 < i \<and> i < 5" using s(1,2) by (auto simp: o)
  have d: "distinct rest" "sorted rest" using s(1) by (simp_all add: o strict_sorted_iff)
  have sub: "set rest \<subseteq> {1..<5}" using r by fastforce
  then have "length rest \<le> 4" using card_mono [OF _ sub] d(1) by (simp add: distinct_card)
  moreover have False if "length rest = 4"
  proof -
    have "set rest = {1..<5}" using card_subset_eq [OF _ sub] d(1) that by (simp add: distinct_card)
    then have "rest = [1..<5]" using d by (simp add: sorted_distinct_set_unique)
    then show False using s(4) by (simp add: o upt_rec)
  qed
  ultimately show thesis using that [OF o r] by (cases "length rest = 4") auto
qed

lemma cycle_step:
  assumes "reader_ok r" "dbuf_inv b" "in_order c"
  shows "\<exists>r' b'. drain_socket rnd (arrived r c @ q) (r, Some b) = drain_socket rnd q (r', Some b') \<and>
    reader_ok r' \<and> im_baseId r' = im_baseId r \<and> dbuf_inv b' \<and>
    im_sequence r' = im_sequence r + of_bool (full c) \<and> d_sequence b' = d_sequence b + of_bool (full c) \<and>
    read_buf b' = (if full c then Inr (sample_of rnd (im_sequence r + 1) c) else read_buf b)"
proof -
  obtain offs p t where c: "c = (offs, p, t)" by (cases c) auto
  show ?thesis
  proof (cases "full c")
    case True
    then have "offs = [0..<5]" by (simp add: full_def c)
    then show ?thesis
      using frames_complete [OF assms(1,2), of rnd p t q] True
      by (simp add: c arrived_def sample_of_def) (elim exE conjE, intro exI conjI, assumption+)
  next
    case False
    obtain rest where o: "offs = 0 # rest" "\<forall>i \<in> set rest. 0 < i \<and> i < 5" "length rest < 4"
      by (rule in_order_cases [of offs p t]) (use assms(3) False c in auto)
    let ?a = "accumulate 0 (f32_val (fst (p 0))) (f32_val (snd (p 0))) (m_accumulator r)"
    let ?r = "r\<lparr>m_accumulator := ?a, m_frameCount := 1\<rparr>"
    have r: "reader_ok ?r" using assms(1) by (simp add: reader_ok_def accumulate_lengths)
    have "on_frame rnd (t 0) (frame_at r 0 (p 0)) (r, Some b) = Inr (?r, Some b)"
      by (subst on_frame_at [OF assms(1)]) (simp_all add: Let_def)
    moreover obtain r' where "drain_socket rnd (map (\<lambda>i. (frame_at ?r i (p i), t i)) rest @ q) (?r, Some b) =
        drain_socket rnd q (r', Some b)" "reader_ok r'" "im_baseId r' = im_baseId ?r" "im_sequence r' = im_sequence ?r"
      using frames_pending [OF r o(2), of rnd p t q "Some b"] o(3) by auto
    ultimately show ?thesis
      using False assms(2) same_base [of ?r r]
      by (intro exI [of _ r'] exI [of _ b]) (simp add: c arrived_def o(1) sizeof_ImuCanFrame_def)
  qed
qed


text \<open>A reader as \<open>attachSharedMemory\<close> starts it, with the identifiers of \<open>config.yaml\<close>.\<close>

definition started_reader :: ImuReader where
  "started_reader = imu_start \<lparr>ic_serverIp = ''127.0.0.1'', ic_localPort = 8890, ic_baseId = 0x514\<rparr> True
     (setStagingBuffer True (ImuReader_ctor 0))"

lemma started_reader_ok: "reader_ok started_reader" "m_frameCount started_reader = 0"
  "im_sequence started_reader = 0"
  by (simp_all add: reader_ok_def started_reader_def imu_start_def setStagingBuffer_def ImuReader_ctor_def
      kMaxFrames_def ImuStageData_zero_def zeros_def)


text \<open>Frames are only counted, not matched: when the last frame of one measurement and the first
  of the next are lost, the second frame of the next completes the measurement and the
  published sample mixes the two, here the third acceleration and the first angular velocity of
  \<open>p'\<close> with the other components of \<open>p\<close>.\<close>

theorem imu_burst_loss_mixes:
  "\<exists>r' b'. drain_socket rnd (arrived started_reader ([0, 1, 2, 3], p, t) @ arrived started_reader ([1], p', t'))
      (started_reader, Some (dbuf_zero ImuStageData_zero)) = Inr ([], r', Some b') \<and>
    (\<exists>d. read_buf b' = Inr d \<and> i_sequence d = 1 \<and>
      i_imu_acc d = map f32_val [fst (p 0), snd (p 0), fst (p' 1)] \<and>
      i_imu_ang_vel d = map f32_val [snd (p' 1), fst (p 2), snd (p 2)])"
proof -
  let ?b = "dbuf_zero ImuStageData_zero" and ?q = "arrived started_reader ([1], p', t')"
  obtain r4 where r4: "drain_socket rnd (arrived started_reader ([0, 1, 2, 3], p, t) @ ?q) (started_reader, Some ?b) =
      drain_socket rnd ?q (r4, Some ?b)"
    "reader_ok r4" "im_baseId r4 = im_baseId started_reader" "im_sequence r4 = 0" "m_frameCount r4 = 4"
    "i_imu_acc (m_accumulator r4) = map f32_val [fst (p 0), snd (p 0), fst (p 1)]"
    "i_imu_ang_vel (m_accumulator r4) = map f32_val [snd (p 1), fst (p 2), snd (p 2)]"
    using frames_0123 [OF started_reader_ok(1), of rnd p t ?q] unfolding arrived_def started_reader_ok by auto
  obtain r' b' where r': "on_frame rnd (t' 1) (frame_at r4 1 (p' 1)) (r4, Some ?b) = Inr (r', Some b')"
    "read_buf b' = Inr (complete_sample rnd (t' 1) (im_sequence r4 + 1)
      (accumulate (int 1) (f32_val (fst (p' 1))) (f32_val (snd (p' 1))) (m_accumulator r4)))"
    using fifth_frame [OF r4(2,5) _ _ dbuf_zero_inv, of 1 rnd "t' 1" "p' 1" ImuStageData_zero] by auto
  have "drain_socket rnd ?q (r4, Some ?b) = Inr ([], r', Some b')"
    using r'(1) by (simp add: arrived_def sizeof_ImuCanFrame_def same_base [OF r4(3)])
  then show ?thesis
    unfolding r4(1) by (intro exI [of _ r'] exI [of _ b'])
      (simp add: r'(2) r4(4,6,7) complete_sample_def accumulate_def)
qed

end
