(* ===== verification/ImuSimulator.thy ===== *)
theory ImuSimulator
  imports ImuReader CommandLine "HOL-Library.Signed_Division"
begin

text \<open>
  \<open>tools/imuSimulator.cpp\<close>: the program that plays the inertial sensor.  A \<open>float\<close> is its 32-bit
  pattern; \<open>lm_to_f32\<close> is the correctly rounded conversion of a value, with which the arithmetic of
  floats is their exact arithmetic followed by the conversion.  The trigonometric functions and the
  square root of the C library are parameters.
\<close>

section \<open>The simulated sensor\<close>

definition IMU_DEFAULT_CAN_BASE_ID :: u32 where "IMU_DEFAULT_CAN_BASE_ID = 0x514"
definition NUM_CAN_FRAMES :: nat where "NUM_CAN_FRAMES = 5"
definition FLOATS_PER_FRAME :: nat where "FLOATS_PER_FRAME = 2"
definition TOTAL_FLOATS :: nat where "TOTAL_FLOATS = NUM_CAN_FRAMES * FLOATS_PER_FRAME"
definition IMU_CAN_FRAME_SIZE :: int where "IMU_CAN_FRAME_SIZE = 13"
definition DEFAULT_FREQ_HZ :: int where "DEFAULT_FREQ_HZ = 500"
definition INTER_FRAME_US :: int where "INTER_FRAME_US = 250"

record libm =
  lm_sin :: "double \<Rightarrow> double"
  lm_cos :: "double \<Rightarrow> double"
  lm_sinf :: "u32 \<Rightarrow> u32"
  lm_cosf :: "u32 \<Rightarrow> u32"
  lm_sqrtf :: "u32 \<Rightarrow> u32"
  lm_to_f32 :: "double \<Rightarrow> u32"

record ImuState =
  accX :: u32
  accY :: u32
  accZ :: u32
  gyroX :: u32
  gyroY :: u32
  gyroZ :: u32
  quatW :: u32
  quatX :: u32
  quatY :: u32
  quatZ :: u32

definition ImuState_init :: ImuState where
  "ImuState_init = \<lparr>accX = 0, accY = 0, accZ = 0x3F800000, gyroX = 0, gyroY = 0, gyroZ = 0,
     quatW = 0x3F800000, quatX = 0, quatY = 0, quatZ = 0\<rparr>"

definition fmul :: "libm \<Rightarrow> u32 \<Rightarrow> u32 \<Rightarrow> u32" where
  "fmul lm a b = lm_to_f32 lm (dmul (\<lambda>x. x) (f32_val a) (f32_val b))"

definition fadd :: "libm \<Rightarrow> u32 \<Rightarrow> u32 \<Rightarrow> u32" where
  "fadd lm a b = lm_to_f32 lm (dadd (\<lambda>x. x) (f32_val a) (f32_val b))"

definition fdiv :: "libm \<Rightarrow> u32 \<Rightarrow> u32 \<Rightarrow> u32" where
  "fdiv lm a b = lm_to_f32 lm (ddiv (\<lambda>x. x) (f32_val a) (f32_val b))"

definition fneg :: "u32 \<Rightarrow> u32" where
  "fneg a = a XOR 0x80000000"

definition M_PI :: "(real \<Rightarrow> real) \<Rightarrow> double" where
  "M_PI rnd = Fin (rnd (314159265358979323846 / 10 ^ 20))"

definition tenths :: "(real \<Rightarrow> real) \<Rightarrow> int \<Rightarrow> double" where
  "tenths rnd n = Fin (rnd (of_int n / 10))"

text \<open>The angles of a cycle in degrees, as \<open>amplitude * sin(2 * pi * f * t)\<close> with \<open>f\<close> in tenths.\<close>

definition swing :: "libm \<Rightarrow> (real \<Rightarrow> real) \<Rightarrow> int \<Rightarrow> int \<Rightarrow> double \<Rightarrow> double" where
  "swing lm rnd a f t =
     dmul rnd (Fin (of_int a)) (lm_sin lm (dmul rnd (dmul rnd (dmul rnd (Fin 2) (M_PI rnd)) (tenths rnd f)) t))"

definition swing_rate :: "libm \<Rightarrow> (real \<Rightarrow> real) \<Rightarrow> int \<Rightarrow> int \<Rightarrow> double \<Rightarrow> double" where
  "swing_rate lm rnd a f t =
     dmul rnd (dmul rnd (dmul rnd (dmul rnd (Fin (of_int a)) (Fin 2)) (M_PI rnd)) (tenths rnd f))
       (lm_cos lm (dmul rnd (dmul rnd (dmul rnd (Fin 2) (M_PI rnd)) (tenths rnd f)) t))"

definition radians :: "(real \<Rightarrow> real) \<Rightarrow> double \<Rightarrow> double" where
  "radians rnd a = ddiv rnd (dmul rnd a (M_PI rnd)) (Fin 180)"

definition normalize_quat :: "libm \<Rightarrow> ImuState \<Rightarrow> ImuState" where
  "normalize_quat lm s =
     (let sq = (\<lambda>q. fmul lm q q);
          norm = lm_sqrtf lm (fadd lm (fadd lm (fadd lm (sq (quatW s)) (sq (quatX s))) (sq (quatY s))) (sq (quatZ s)))
      in if dlt (Fin 0) (f32_val norm)
         then s\<lparr>quatW := fdiv lm (quatW s) norm, quatX := fdiv lm (quatX s) norm, quatY := fdiv lm (quatY s) norm,
                quatZ := fdiv lm (quatZ s) norm\<rparr>
         else s)"

definition imu_update :: "libm \<Rightarrow> (real \<Rightarrow> real) \<Rightarrow> u64 \<Rightarrow> double \<Rightarrow> ImuState \<Rightarrow> ImuState" where
  "imu_update lm rnd cycle freq_hz s =
     (let t = ddiv rnd (Fin (rnd (real (unat cycle)))) freq_hz;
          roll = swing lm rnd 5 3 t; pitch = swing lm rnd 3 5 t; yaw = swing lm rnd 2 1 t;
          half = (\<lambda>a. ddiv rnd (radians rnd a) (Fin 2));
          r = half roll; p = half pitch; y = half yaw;
          cr = lm_cos lm r; sr = lm_sin lm r; cp = lm_cos lm p; sp = lm_sin lm p; cy = lm_cos lm y; sy = lm_sin lm y;
          m3 = (\<lambda>a b c. dmul rnd (dmul rnd a b) c);
          s1 = s\<lparr>quatW := lm_to_f32 lm (dadd rnd (m3 cr cp cy) (m3 sr sp sy)),
                 quatX := lm_to_f32 lm (dsub rnd (m3 sr cp cy) (m3 cr sp sy)),
                 quatY := lm_to_f32 lm (dadd rnd (m3 cr sp cy) (m3 sr cp sy)),
                 quatZ := lm_to_f32 lm (dsub rnd (m3 cr cp sy) (m3 sr sp cy))\<rparr>;
          s2 = normalize_quat lm s1;
          s3 = s2\<lparr>gyroX := lm_to_f32 lm (swing_rate lm rnd 5 3 t), gyroY := lm_to_f32 lm (swing_rate lm rnd 3 5 t),
                  gyroZ := lm_to_f32 lm (swing_rate lm rnd 2 1 t)\<rparr>;
          roll_rad = lm_to_f32 lm (radians rnd roll); pitch_rad = lm_to_f32 lm (radians rnd pitch)
      in s3\<lparr>accX := fneg (lm_sinf lm pitch_rad), accY := fmul lm (lm_sinf lm roll_rad) (lm_cosf lm pitch_rad),
            accZ := fmul lm (lm_cosf lm roll_rad) (lm_cosf lm pitch_rad)\<rparr>)"

definition imu_pack :: "ImuState \<Rightarrow> u32 list" where
  "imu_pack s = [accX s, accY s, accZ s, gyroX s, gyroY s, gyroZ s, quatW s, quatX s, quatY s, quatZ s]"

definition build_can_frame :: "u32 \<Rightarrow> u32 \<Rightarrow> u32 \<Rightarrow> bytes" where
  "build_can_frame can_id value0 value1 =
     [0x08, ucast (drop_bit 24 can_id), ucast (drop_bit 16 can_id), ucast (drop_bit 8 can_id), ucast can_id] @
     le_bytes32 value0 @ le_bytes32 value1"

section \<open>The streaming loop\<close>

record ImuSimulator =
  is_localPort :: int
  is_remotePort :: int
  is_baseCanId :: u32
  is_freqHz :: int
  is_cyclePeriodUs :: int
  is_state :: ImuState

definition ImuSimulator_ctor :: "int \<Rightarrow> int \<Rightarrow> u32 \<Rightarrow> int \<Rightarrow> ImuSimulator" where
  "ImuSimulator_ctor localPort remotePort baseCanId freqHz =
     \<lparr>is_localPort = localPort, is_remotePort = remotePort, is_baseCanId = baseCanId, is_freqHz = freqHz,
      is_cyclePeriodUs = 1000000 sdiv freqHz, is_state = ImuState_init\<rparr>"

text \<open>
  What the loop does: datagrams sent, pauses between them in microseconds, the sleep at the end of a
  cycle in nanoseconds.  A cycle comes with what \<open>running_\<close> was read as, the results of the five
  calls of \<open>sendto\<close> and the time from its start to its end.
\<close>

datatype stream_event = SendTo bytes | PauseUs int | NanoSleep int

record sim_turn =
  st_running :: bool
  st_sent :: "int list"
  st_elapsedUs :: int

definition send_frame :: "u32 \<Rightarrow> u32 list \<Rightarrow> nat \<Rightarrow> fault + stream_event list" where
  "send_frame baseCanId vals f =
     bindR (arr_get vals (f * FLOATS_PER_FRAME)) (\<lambda>v0. bindR (arr_get vals (f * FLOATS_PER_FRAME + 1)) (\<lambda>v1.
       Inr (SendTo (build_can_frame (baseCanId + of_nat f) v0 v1) #
            (if f < NUM_CAN_FRAMES - 1 then [PauseUs INTER_FRAME_US] else []))))"

fun send_frames :: "u32 \<Rightarrow> u32 list \<Rightarrow> nat list \<Rightarrow> fault + stream_event list" where
  "send_frames b vals [] = Inr []"
| "send_frames b vals (f # fs) =
     bindR (send_frame b vals f) (\<lambda>e. bindR (send_frames b vals fs) (\<lambda>es. Inr (e @ es)))"

definition sim_cycle ::
    "libm \<Rightarrow> (real \<Rightarrow> real) \<Rightarrow> sim_turn \<Rightarrow> ImuSimulator \<times> u64 \<times> u64 \<Rightarrow> fault + stream_event list \<times> ImuSimulator \<times> u64 \<times> u64" where
  "sim_cycle lm rnd i = (\<lambda>(sim, cycle, totalFramesSent).
     let sim1 = sim\<lparr>is_state := imu_update lm rnd cycle (Fin (of_int (is_freqHz sim))) (is_state sim)\<rparr> in
     bindR (send_frames (is_baseCanId sim1) (imu_pack (is_state sim1)) [0..<NUM_CAN_FRAMES]) (\<lambda>es.
     let sleepUs = is_cyclePeriodUs sim1 - st_elapsedUs i in
     Inr (es @ (if 0 < sleepUs then [NanoSleep (sleepUs * 1000)] else []),
          sim1, cycle + 1, totalFramesSent + of_nat (length (filter (\<lambda>n. n = IMU_CAN_FRAME_SIZE) (st_sent i))))))"

fun sim_run ::
    "libm \<Rightarrow> (real \<Rightarrow> real) \<Rightarrow> sim_turn list \<Rightarrow> ImuSimulator \<times> u64 \<times> u64 \<Rightarrow> fault + stream_event list \<times> ImuSimulator \<times> u64 \<times> u64" where
  "sim_run lm rnd [] s = Inr ([], s)"
| "sim_run lm rnd (i # is) s =
     (if \<not> st_running i then Inr ([], s)
      else bindR (sim_cycle lm rnd i s) (\<lambda>(es, s1). bindR (sim_run lm rnd is s1) (\<lambda>(es', s'). Inr (es @ es', s'))))"

section \<open>The command line\<close>

record sim_options =
  so_localPort :: int
  so_remotePort :: int
  so_freqHz :: int
  so_baseCanId :: u32

definition sim_defaults :: sim_options where
  "sim_defaults = \<lparr>so_localPort = 8891, so_remotePort = 8890, so_freqHz = DEFAULT_FREQ_HZ, so_baseCanId = IMU_DEFAULT_CAN_BASE_ID\<rparr>"

fun parse_sim_args :: "string list \<Rightarrow> sim_options \<Rightarrow> sim_options parsed" where
  "parse_sim_args [] o' = Options o'"
| "parse_sim_args (a # as) o' =
     (if a = ''-local'' \<and> as \<noteq> [] then
        (case atoi (hd as) of None \<Rightarrow> Undefined
         | Some n \<Rightarrow> if n \<le> 0 \<or> 65535 < n then Exit 1 else parse_sim_args (tl as) (o'\<lparr>so_localPort := n\<rparr>))
      else if a = ''-remote'' \<and> as \<noteq> [] then
        (case atoi (hd as) of None \<Rightarrow> Undefined
         | Some n \<Rightarrow> if n \<le> 0 \<or> 65535 < n then Exit 1 else parse_sim_args (tl as) (o'\<lparr>so_remotePort := n\<rparr>))
      else if a = ''-freq'' \<and> as \<noteq> [] then
        (case atoi (hd as) of None \<Rightarrow> Undefined
         | Some n \<Rightarrow> if n \<le> 0 \<or> 1000 < n then Exit 1 else parse_sim_args (tl as) (o'\<lparr>so_freqHz := n\<rparr>))
      else if a = ''-base_id'' \<and> as \<noteq> [] then parse_sim_args (tl as) (o'\<lparr>so_baseCanId := ucast (strtoul0 (hd as))\<rparr>)
      else if a = ''-h'' \<or> a = ''--help'' then Exit 0
      else Exit 1)"

text \<open>\<open>main\<close>, with whether the socket could be created and bound.\<close>

definition sim_main ::
    "libm \<Rightarrow> (real \<Rightarrow> real) \<Rightarrow> string list \<Rightarrow> bool \<Rightarrow> sim_turn list \<Rightarrow> fault + stream_event list parsed" where
  "sim_main lm rnd args init_ok turns =
     (case parse_sim_args args sim_defaults of
        Exit n \<Rightarrow> Inr (Exit n) | Undefined \<Rightarrow> Inr Undefined
      | Options opt \<Rightarrow>
          if \<not> init_ok then Inr (Exit 1)
          else bindR (sim_run lm rnd turns
                 (ImuSimulator_ctor (so_localPort opt) (so_remotePort opt) (so_baseCanId opt) (so_freqHz opt), 0, 0))
                 (\<lambda>(es, s). Inr (Options es)))"

section \<open>Lemmas\<close>

lemma options_valid:
  assumes "parse_sim_args args o1 = Options o2" "0 < so_freqHz o1" "so_freqHz o1 \<le> 1000"
  shows "0 < so_freqHz o2 \<and> so_freqHz o2 \<le> 1000"
  using assms
  by (induction args o1 rule: parse_sim_args.induct) (auto split: if_splits option.splits)

text \<open>The frames of the simulator are those the reader expects.\<close>

lemma build_can_frame_eq: "build_can_frame i a b = imu_frame i (a, b)"
  by (simp add: build_can_frame_def imu_frame_def le_bytes32_def [of i])

definition datagrams :: "stream_event list \<Rightarrow> bytes list" where
  "datagrams es = concat (map (\<lambda>e. case e of SendTo d \<Rightarrow> [d] | _ \<Rightarrow> []) es)"

lemma datagrams_simps [simp]:
  "datagrams [] = []" "datagrams (SendTo d # es) = d # datagrams es" "datagrams (PauseUs u # es) = datagrams es"
  "datagrams (NanoSleep u # es) = datagrams es" "datagrams (es @ es') = datagrams es @ datagrams es'"
  by (simp_all add: datagrams_def)

definition slots :: "ImuState \<Rightarrow> nat \<Rightarrow> u32 \<times> u32" where
  "slots s i = (imu_pack s ! (2 * i), imu_pack s ! (2 * i + 1))"

lemma sim_cycle_sends:
  assumes "is_baseCanId sim = word_of_int (im_baseId r)"
  shows "\<exists>es sim' n'. sim_cycle lm rnd i (sim, c, n) = Inr (es, sim', c + 1, n') \<and>
    is_baseCanId sim' = is_baseCanId sim \<and> datagrams es = map (\<lambda>i. frame_at r i (slots (is_state sim') i)) [0..<5]"
proof -
  have u: "[0..<5] = [0, 1, 2, 3, 4::nat]" by (simp add: upt_rec)
  show ?thesis
    using assms
    by (simp add: sim_cycle_def Let_def NUM_CAN_FRAMES_def FLOATS_PER_FRAME_def u send_frame_def arr_get_def imu_pack_def
        slots_def frame_at_def build_can_frame_eq)
qed

lemma drain_append:
  "\<forall>x \<in> set xs. sizeof_ImuCanFrame \<le> length (fst x) \<Longrightarrow>
    drain_socket rnd (xs @ ys) s = bindR (drain_socket rnd xs s) (\<lambda>(q, s'). drain_socket rnd ys s')"
proof (induction xs arbitrary: s)
  case (Cons x xs)
  then show ?case by (cases x; cases "on_frame rnd (snd x) (take sizeof_ImuCanFrame (fst x)) s") auto
qed simp

text \<open>One cycle is published with the values of the simulated state.\<close>

definition simulated_sample :: "(real \<Rightarrow> real) \<Rightarrow> u64 \<Rightarrow> u64 \<Rightarrow> ImuState \<Rightarrow> ImuStageData" where
  "simulated_sample rnd now seq s =
     (let g = map f32_val [gyroX s, gyroY s, gyroZ s] in
      \<lparr>i_imu_inc = map (\<lambda>v. dmul rnd v (ddiv rnd (Fin 1) kRateHz)) g, i_imu_ang_vel = g,
       i_imu_acc = map f32_val [accX s, accY s, accZ s], i_timestamp_ns = now, i_sequence = seq\<rparr>)"

lemma measured_slots: "measured rnd now seq (slots s) = simulated_sample rnd now seq s"
  by (simp add: measured_def simulated_sample_def slots_def imu_pack_def numeral_eq_Suc)

lemma sim_cycle_published:
  assumes "reader_ok r" "dbuf_inv b" "is_baseCanId sim = word_of_int (im_baseId r)" "length ts = 5"
  shows "\<exists>es sim' n' r' b'. sim_cycle lm rnd i (sim, c, n) = Inr (es, sim', c + 1, n') \<and>
    is_baseCanId sim' = is_baseCanId sim \<and> length (datagrams es) = 5 \<and> (\<forall>d \<in> set (datagrams es). length d = 13) \<and>
    drain_socket rnd' (zip (datagrams es) ts) (r, Some b) = Inr ([], r', Some b') \<and> reader_ok r' \<and>
    im_baseId r' = im_baseId r \<and> im_sequence r' = im_sequence r + 1 \<and> dbuf_inv b' \<and> d_sequence b' = d_sequence b + 1 \<and>
    read_buf b' = Inr (simulated_sample rnd' (last ts) (im_sequence r + 1) (is_state sim'))"
proof -
  obtain es sim' n' where c: "sim_cycle lm rnd i (sim, c, n) = Inr (es, sim', c + 1, n')"
    "is_baseCanId sim' = is_baseCanId sim" "datagrams es = map (\<lambda>i. frame_at r i (slots (is_state sim') i)) [0..<5]"
    using sim_cycle_sends [OF assms(3)] by blast
  have z: "zip (datagrams es) ts = map (\<lambda>i. (frame_at r i (slots (is_state sim') i), ts ! i)) [0..<5]"
    by (rule nth_equalityI) (simp_all add: c(3) assms(4))
  have l: "last ts = ts ! 4" using assms(4) by (subst last_conv_nth) auto
  obtain r' b' where "drain_socket rnd' (zip (datagrams es) ts) (r, Some b) = Inr ([], r', Some b')"
    "reader_ok r'" "im_baseId r' = im_baseId r" "im_sequence r' = im_sequence r + 1" "dbuf_inv b'"
    "d_sequence b' = d_sequence b + 1" "read_buf b' = Inr (measured rnd' (ts ! 4) (im_sequence r + 1) (slots (is_state sim')))"
    using frames_complete [OF assms(1,2), of rnd' "slots (is_state sim')" "(!) ts" "[]"] by (auto simp: z)
  with c show ?thesis
    by (intro exI [of _ es] exI [of _ sim'] exI [of _ n'] exI [of _ r'] exI [of _ b']) (simp add: measured_slots l)
qed

section \<open>Properties\<close>

text \<open>C27: every cycle of the simulator is published by the reader: after any number of cycles whose
  datagrams arrive in order, the sequence numbers have advanced by that number and the staging
  buffer holds the accelerations and angular velocities of the last simulated state.\<close>

theorem simulated_cycles_published:
  assumes "reader_ok r" "dbuf_inv b" "is_baseCanId sim = word_of_int (im_baseId r)"
    "k = length (takeWhile st_running turns)" "0 < k" "length ts = 5 * k"
  shows "\<exists>es sim' c' n' r' b'. sim_run lm rnd turns (sim, c, n) = Inr (es, sim', c', n') \<and> c' = c + of_nat k \<and>
    drain_socket rnd' (zip (datagrams es) ts) (r, Some b) = Inr ([], r', Some b') \<and>
    im_sequence r' = im_sequence r + of_nat k \<and> d_sequence b' = d_sequence b + of_nat k \<and>
    read_buf b' = Inr (simulated_sample rnd' (last ts) (im_sequence r') (is_state sim'))"
  using assms
proof (induction turns arbitrary: r b sim ts c n k)
  case (Cons i turns)
  then have run: "st_running i" by (auto split: if_splits)
  define k0 where "k0 = length (takeWhile st_running turns)"
  have k: "k = Suc k0" using Cons.prems(4) run by (simp add: k0_def)
  obtain es sim1 n1 r1 b1 where 1: "sim_cycle lm rnd i (sim, c, n) = Inr (es, sim1, c + 1, n1)"
    "is_baseCanId sim1 = is_baseCanId sim" "length (datagrams es) = 5" "\<forall>d \<in> set (datagrams es). length d = 13"
    "drain_socket rnd' (zip (datagrams es) (take 5 ts)) (r, Some b) = Inr ([], r1, Some b1)"
    "reader_ok r1" "im_baseId r1 = im_baseId r" "im_sequence r1 = im_sequence r + 1" "dbuf_inv b1"
    "d_sequence b1 = d_sequence b + 1"
    "read_buf b1 = Inr (simulated_sample rnd' (last (take 5 ts)) (im_sequence r + 1) (is_state sim1))"
    using sim_cycle_published [OF Cons.prems(1-3), of "take 5 ts" lm rnd i c n rnd'] Cons.prems(6) k by auto
  have app: "drain_socket rnd' (zip (datagrams es @ ds) ts) (r, Some b) =
      drain_socket rnd' (zip ds (drop 5 ts)) (r1, Some b1)" for ds
  proof -
    have "zip (datagrams es @ ds) ts = zip (datagrams es) (take 5 ts) @ zip ds (drop 5 ts)"
      by (simp add: zip_append1 1(3))
    moreover have "\<forall>x \<in> set (zip (datagrams es) (take 5 ts)). sizeof_ImuCanFrame \<le> length (fst x)"
      using 1(4) by (auto simp: sizeof_ImuCanFrame_def dest: set_zip_leftD)
    ultimately show ?thesis using 1(5) by (simp add: drain_append)
  qed
  show ?case
  proof (cases k0)
    case 0
    then have "sim_run lm rnd turns (sim1, c + 1, n1) = Inr ([], sim1, c + 1, n1)"
      by (cases turns) (auto simp: k0_def split: if_splits)
    then show ?thesis
      using 1 run app [of "[]"] Cons.prems(6) by (simp add: k 0)
  next
    case (Suc m)
    have base: "is_baseCanId sim1 = word_of_int (im_baseId r1)" using 1(2,7) Cons.prems(3) by simp
    have l: "length (drop 5 ts) = 5 * k0" "last (drop 5 ts) = last ts" using Cons.prems(6) by (simp_all add: k Suc)
    obtain es' sim' c' n' r' b' where 2: "sim_run lm rnd turns (sim1, c + 1, n1) = Inr (es', sim', c', n')"
      "c' = c + 1 + of_nat k0"
      "drain_socket rnd' (zip (datagrams es') (drop 5 ts)) (r1, Some b1) = Inr ([], r', Some b')"
      "im_sequence r' = im_sequence r1 + of_nat k0" "d_sequence b' = d_sequence b1 + of_nat k0"
      "read_buf b' = Inr (simulated_sample rnd' (last (drop 5 ts)) (im_sequence r') (is_state sim'))"
      using Cons.IH [OF 1(6,9) base k0_def _ l(1), of "c + 1" n1] Suc by blast
    then show ?thesis
      using 1(1,8,10) run app [of "datagrams es'"] by (simp add: k l(2) add.assoc)
  qed
qed simp

theorem simulated_cycles_published_witness:
  "\<exists>es sim' c' n' r' b'. sim_run \<lparr>lm_sin = id, lm_cos = id, lm_sinf = id, lm_cosf = id, lm_sqrtf = id, lm_to_f32 = \<lambda>x. 0\<rparr> rnd64
      (replicate 2 \<lparr>st_running = True, st_sent = replicate 5 13, st_elapsedUs = 1100\<rparr> @
       [\<lparr>st_running = False, st_sent = [], st_elapsedUs = 0\<rparr>])
      (ImuSimulator_ctor 8891 8890 IMU_DEFAULT_CAN_BASE_ID DEFAULT_FREQ_HZ, 0, 0) = Inr (es, sim', c', n') \<and> c' = 2 \<and>
    drain_socket rnd64 (zip (datagrams es) [1, 2, 3, 4, 5, 6, 7, 8, 9, 10]) (started_reader, Some (dbuf_zero ImuStageData_zero)) = Inr ([], r', Some b') \<and>
    im_sequence r' = 2 \<and> read_buf b' = Inr (simulated_sample rnd64 10 2 (is_state sim'))"
proof -
  let ?ts = "[1, 2, 3, 4, 5, 6, 7, 8, 9, 10] :: u64 list"
  have base: "is_baseCanId (ImuSimulator_ctor 8891 8890 IMU_DEFAULT_CAN_BASE_ID DEFAULT_FREQ_HZ) = word_of_int (im_baseId started_reader)"
    by (simp add: ImuSimulator_ctor_def IMU_DEFAULT_CAN_BASE_ID_def started_reader_def imu_start_def setStagingBuffer_def)
  let ?turns = "replicate 2 \<lparr>st_running = True, st_sent = replicate 5 13, st_elapsedUs = 1100\<rparr> @
       [\<lparr>st_running = False, st_sent = [], st_elapsedUs = 0\<rparr>]"
  have k: "length (takeWhile st_running ?turns) = 2" by (simp add: numeral_eq_Suc)
  show ?thesis
    using simulated_cycles_published [OF started_reader_ok(1) dbuf_zero_inv base k [symmetric] _ , of ?ts _ _ 0 0 rnd64 ImuStageData_zero]
    by (fastforce simp: started_reader_ok)
qed

text \<open>With the options \<open>main\<close> accepts, the pauses between the frames keep the sleep below one second.\<close>

lemma sleep_valid:
  assumes "parse_sim_args args sim_defaults = Options opt" "4 * INTER_FRAME_US \<le> st_elapsedUs i"
    "is_cyclePeriodUs sim = is_cyclePeriodUs (ImuSimulator_ctor lp rp b (so_freqHz opt))"
    "sim_cycle lm rnd i (sim, c, n) = Inr (es, s)" "NanoSleep t \<in> set es"
  shows "0 < t \<and> t < 10 ^ 9 \<and> 1000 * st_elapsedUs i + t = 1000 * is_cyclePeriodUs sim"
proof -
  have f: "0 < so_freqHz opt" "so_freqHz opt \<le> 1000"
    using options_valid [OF assms(1)] by (simp_all add: sim_defaults_def DEFAULT_FREQ_HZ_def)
  then have "1000000 div so_freqHz opt \<le> 1000000"
    using pos_imp_zdiv_nonneg_iff [of "so_freqHz opt" 1000000] zdiv_mono2 [of 1000000 1 "so_freqHz opt"] by simp
  then have "is_cyclePeriodUs sim \<le> 1000000"
    using f unfolding assms(3) by (simp add: ImuSimulator_ctor_def signed_divide_int_def)
  moreover have "NanoSleep t \<notin> set e" if "send_frame b0 vs k = Inr e" for b0 vs k e
    using that by (auto simp: send_frame_def bindR_Inr_iff split: if_splits)
  then have "NanoSleep t \<notin> set e" if "send_frames b0 vs ks = Inr e" for b0 vs ks e
    using that by (induction ks arbitrary: e) (auto simp: bindR_Inr_iff)
  then have "t = (is_cyclePeriodUs sim - st_elapsedUs i) * 1000" "0 < is_cyclePeriodUs sim - st_elapsedUs i"
    using assms(4,5) by (auto simp: sim_cycle_def Let_def bindR_Inr_iff split: if_splits)
  ultimately show ?thesis using assms(2) by (simp add: INTER_FRAME_US_def)
qed

end
