(* ===== verification/Logger.thy ===== *)
theory Logger
  imports Composer MqttClient
begin

text \<open>
  \<open>lib/logger/Logger.cpp\<close>: the thread that drains the composer's ring into the MQTT client.  \<open>repr\<close>
  gives the object representation of a sample, whose size is \<open>sizeof(SensorCommandPair)\<close>.
\<close>

section \<open>State\<close>

definition DRAIN_BATCH_LIMIT :: nat where "DRAIN_BATCH_LIMIT = 10"
definition CONNECT_DELAY_NS :: u64 where "CONNECT_DELAY_NS = 20000000000"
definition MQTT_TOPIC_SENSOR :: string where "MQTT_TOPIC_SENSOR = ''robot/sensor/bin''"

record Logger =
  lg_robot_id :: u32
  lg_running :: bool
  lg_thread_created :: bool
  connect_seen :: bool
  connect_seen_ts_ns :: u64
  push_enabled :: bool
  downsample_every :: u64
  drain_skip_counter :: u64
  backpressure_warned :: bool

definition Logger_ctor :: "u32 \<Rightarrow> u64 \<Rightarrow> Logger" where
  "Logger_ctor rid every =
     \<lparr>lg_robot_id = rid, lg_running = False, lg_thread_created = False, connect_seen = False,
      connect_seen_ts_ns = 0, push_enabled = False,
      downsample_every = (if every = 0 then 1 else every), drain_skip_counter = 0,
      backpressure_warned = False\<rparr>"

definition logger_start :: "bool \<Rightarrow> Logger \<Rightarrow> Logger" where
  "logger_start create_ok lg =
     (if lg_running lg then lg
      else let lg1 = lg\<lparr>lg_running := True, lg_thread_created := create_ok\<rparr>
           in if \<not> create_ok then lg1\<lparr>lg_running := False\<rparr> else lg1)"

definition logger_shutdown :: "Logger \<Rightarrow> Logger" where
  "logger_shutdown lg =
     (if \<not> lg_running lg then lg
      else let lg1 = lg\<lparr>lg_running := False\<rparr>
           in if lg_thread_created lg1 then lg1\<lparr>lg_thread_created := False\<rparr> else lg1)"

section \<open>Serialisation\<close>

definition le_bytes16 :: "u16 \<Rightarrow> bytes" where
  "le_bytes16 w = [ucast w, ucast (drop_bit 8 w)]"

definition le_bytes64 :: "u64 \<Rightarrow> bytes" where
  "le_bytes64 w = le_bytes32 (ucast w) @ le_bytes32 (ucast (drop_bit 32 w))"

definition header_bytes :: "BinaryPayloadHeader \<Rightarrow> bytes" where
  "header_bytes h = le_bytes16 (h_magic h) @ [h_version h, h_record_type h] @ le_bytes32 (h_robot_id h) @
     le_bytes32 (h_payload_size h) @ le_bytes32 (h_reserved h) @ le_bytes64 (h_sequence h) @
     le_bytes64 (h_timestamp_ns h)"

definition serializeBatch :: "(SensorCommandPair \<Rightarrow> bytes) \<Rightarrow> BatchLogRecord \<Rightarrow> fault + bytes" where
  "serializeBatch repr batch =
     (let n = unat (sample_count batch) in
      if length (samples batch) < n then Inl OutOfBounds
      else Inr (header_bytes (b_header batch) @ le_bytes32 (sample_count batch) @ le_bytes32 0 @
             concat (map repr (take n (samples batch)))))"

section \<open>Draining the ring\<close>

definition relabel :: "u32 \<Rightarrow> BatchLogRecord \<Rightarrow> BatchLogRecord" where
  "relabel rid b = b\<lparr>b_header := (b_header b)
     \<lparr>h_magic := PAYLOAD_MAGIC, h_version := PAYLOAD_VERSION, h_record_type := record_code R_SENSOR_BATCH,
      h_robot_id := rid,
      h_payload_size := of_nat (sizeof_uint32 * 2 + unat (sample_count b) * sizeof_SensorCommandPair),
      h_reserved := 0\<rparr>\<rparr>"

fun drain_ring ::
    "(SensorCommandPair \<Rightarrow> bytes) \<Rightarrow> nat \<Rightarrow> Logger \<times> mqtt_world \<times> batch_ring \<Rightarrow>
     fault + Logger \<times> mqtt_world \<times> batch_ring" where
  "drain_ring repr 0 s = Inr s"
| "drain_ring repr (Suc n) (lg, w, ring) =
     (case ring_pop LOG_RING_CAPACITY ring of
        (None, ring1) \<Rightarrow> Inr (lg, w, ring1)
      | (Some b, ring1) \<Rightarrow>
          let should_publish = (drain_skip_counter lg mod downsample_every lg = 0);
              lg1 = lg\<lparr>drain_skip_counter := drain_skip_counter lg + 1\<rparr>
          in if \<not> should_publish then drain_ring repr n (lg1, w, ring1)
             else bindR (serializeBatch repr (relabel (lg_robot_id lg1) b)) (\<lambda>payload.
               case publish_binary (Some MQTT_TOPIC_SENSOR) (Some payload) 0 False w of
                 (ok, w1) \<Rightarrow> drain_ring repr n (lg1\<lparr>backpressure_warned := \<not> ok\<rparr>, w1, ring1)))"

definition drainOnce ::
    "(SensorCommandPair \<Rightarrow> bytes) \<Rightarrow> Logger \<times> mqtt_world \<times> batch_ring \<Rightarrow>
     fault + Logger \<times> mqtt_world \<times> batch_ring" where
  "drainOnce repr s = drain_ring repr DRAIN_BATCH_LIMIT s"

text \<open>One turn of the thread's loop; \<open>t1\<close> and \<open>t2\<close> are the two clock readings of the connect-delay
  guard.\<close>

definition connect_guard :: "bool \<Rightarrow> u64 \<Rightarrow> u64 \<Rightarrow> Logger \<Rightarrow> Logger" where
  "connect_guard isConn t1 t2 lg =
     (if push_enabled lg \<or> \<not> isConn then lg
      else let lg1 = (if connect_seen lg then lg else lg\<lparr>connect_seen_ts_ns := t1, connect_seen := True\<rparr>)
           in if CONNECT_DELAY_NS \<le> t2 - connect_seen_ts_ns lg1 then lg1\<lparr>push_enabled := True\<rparr> else lg1)"

definition logger_turn ::
    "(SensorCommandPair \<Rightarrow> bytes) \<Rightarrow> u64 \<Rightarrow> u64 \<Rightarrow> Logger \<times> mqtt_world \<times> batch_ring \<Rightarrow>
     fault + Logger \<times> mqtt_world \<times> batch_ring" where
  "logger_turn repr t1 t2 = (\<lambda>(lg, w, ring).
     let lg1 = connect_guard (mq_isConnected (mq w)) t1 t2 lg
     in if push_enabled lg1 then drainOnce repr (lg1, w, ring) else Inr (lg1, w, ring))"

section \<open>What is published\<close>

definition batch_ok :: "BatchLogRecord \<Rightarrow> bool" where
  "batch_ok b \<longleftrightarrow> unat (sample_count b) \<le> length (samples b)"

definition batch_payload :: "(SensorCommandPair \<Rightarrow> bytes) \<Rightarrow> u32 \<Rightarrow> BatchLogRecord \<Rightarrow> bytes" where
  "batch_payload repr rid b = header_bytes (b_header (relabel rid b)) @ le_bytes32 (sample_count b) @ le_bytes32 0 @
     concat (map repr (take (unat (sample_count b)) (samples b)))"

definition sensor_message :: "(SensorCommandPair \<Rightarrow> bytes) \<Rightarrow> u32 \<Rightarrow> BatchLogRecord \<Rightarrow> BinaryMessage" where
  "sensor_message repr rid b =
     \<lparr>bm_topic = MQTT_TOPIC_SENSOR, bm_payload = batch_payload repr rid b, bm_qos = 0, bm_retain = False\<rparr>"

lemma serialize_relabel:
  "batch_ok b \<Longrightarrow> serializeBatch repr (relabel rid b) = Inr (batch_payload repr rid b)"
  by (simp add: serializeBatch_def batch_payload_def relabel_def batch_ok_def Let_def)

lemma publish_queued:
  assumes "length (m_binaryMessages (mq w)) < m_highWater (mq w)"
  obtains w' where "publish_binary (Some t) (Some d) q r w = (True, w')" "m_highWater (mq w') = m_highWater (mq w)"
    "m_binaryMessages (mq w') = m_binaryMessages (mq w) @ [\<lparr>bm_topic = t, bm_payload = d, bm_qos = q, bm_retain = r\<rparr>]"
  using assms that by (auto simp: publish_binary_def Let_def call_lws_def split: if_splits)

text \<open>The batches that pass the downsampling, the counter being \<open>c\<close> at the first.\<close>

fun picked :: "nat \<Rightarrow> nat \<Rightarrow> 'a list \<Rightarrow> 'a list" where
  "picked n c [] = []"
| "picked n c (b # bs) = (if c mod n = 0 then [b] else []) @ picked n (Suc c) bs"

lemma ring_256: "LOG_RING_CAPACITY = 2 ^ 8"
  by (simp add: LOG_RING_CAPACITY_def)

lemma log_ring_init:
  "ring_inv 8 (ring_init LOG_RING_CAPACITY z)" "ring_list 8 (ring_init LOG_RING_CAPACITY z) = []"
  "ring_room (ring_init LOG_RING_CAPACITY z)" "r_tail (ring_init LOG_RING_CAPACITY z) = 0"
  "ring_dropped (ring_init LOG_RING_CAPACITY z) = 0"
proof -
  show "ring_inv 8 (ring_init LOG_RING_CAPACITY z)" unfolding ring_256 by (rule ring_init_inv) simp
qed (simp_all add: ring_list_def ring_room_def ring_init_def)

lemma mod_u64_0: "(c::u64) mod n = 0 \<longleftrightarrow> unat c mod unat n = 0"
  by (metis unat_mod unat_eq_zero)

lemma drain_ring_publishes:
  assumes "ring_inv 8 ring" "\<forall>b \<in> set (ring_list 8 ring). batch_ok b" "unat (drain_skip_counter lg) + n < 2 ^ 64"
    "length (m_binaryMessages (mq w)) + n \<le> m_highWater (mq w)"
  shows "\<exists>lg' w' ring'. drain_ring repr n (lg, w, ring) = Inr (lg', w', ring') \<and> ring_inv 8 ring' \<and>
    ring_list 8 ring' = drop n (ring_list 8 ring) \<and>
    m_binaryMessages (mq w') = m_binaryMessages (mq w) @ map (sensor_message repr (lg_robot_id lg))
      (picked (unat (downsample_every lg)) (unat (drain_skip_counter lg)) (take n (ring_list 8 ring))) \<and>
    unat (drain_skip_counter lg') = unat (drain_skip_counter lg) + min n (length (ring_list 8 ring))"
  using assms
proof (induction n arbitrary: lg w ring)
  case (Suc n)
  show ?case
  proof (cases "ring_list 8 ring")
    case Nil
    then show ?thesis using Suc.prems(1) spsc.pop_empty [OF Suc.prems(1)] by (simp add: ring_256)
  next
    case (Cons b bs)
    obtain ring1 where r1: "ring_pop LOG_RING_CAPACITY ring = (Some b, ring1)" "ring_inv 8 ring1" "ring_list 8 ring1 = bs"
      using spsc.pop_cons [OF Suc.prems(1) Cons] unfolding ring_256 by (metis prod.collapse)
    let ?lg = "lg\<lparr>drain_skip_counter := drain_skip_counter lg + 1\<rparr>"
    have cnt: "unat (drain_skip_counter lg + 1) = Suc (unat (drain_skip_counter lg))"
      using Suc.prems(3) by (simp add: unat_word_ariths(1))
    have b: "batch_ok b" "\<forall>b \<in> set bs. batch_ok b" using Suc.prems(2) Cons by auto
    show ?thesis
    proof (cases "drain_skip_counter lg mod downsample_every lg = 0")
      case False
      then have "drain_ring repr (Suc n) (lg, w, ring) = drain_ring repr n (?lg, w, ring1)" by (simp add: r1(1))
      then show ?thesis
        using Suc.IH [of ring1 ?lg w] Suc.prems(3,4) r1(2,3) b False cnt by (simp add: Cons mod_u64_0)
    next
      case True
      obtain w1 where w1: "publish_binary (Some MQTT_TOPIC_SENSOR) (Some (batch_payload repr (lg_robot_id lg) b)) 0 False w =
          (True, w1)" "m_highWater (mq w1) = m_highWater (mq w)"
        "m_binaryMessages (mq w1) = m_binaryMessages (mq w) @ [sensor_message repr (lg_robot_id lg) b]"
        by (rule publish_queued [of w]) (use Suc.prems(4) in \<open>auto simp: sensor_message_def\<close>)
      have "drain_ring repr (Suc n) (lg, w, ring) = drain_ring repr n (?lg\<lparr>backpressure_warned := False\<rparr>, w1, ring1)"
        using True by (simp add: r1(1) serialize_relabel [OF b(1)] w1(1))
      then show ?thesis
        using Suc.IH [of ring1 "?lg\<lparr>backpressure_warned := False\<rparr>" w1] Suc.prems(3,4) r1(2,3) b True cnt w1(2,3)
        by (simp add: Cons mod_u64_0)
    qed
  qed
qed simp

section \<open>Properties\<close>



definition demo_ring :: batch_ring where
  "demo_ring = snd (ring_push LOG_RING_CAPACITY (Batch_zero\<lparr>sample_count := 4\<rparr>) (ring_init LOG_RING_CAPACITY Batch_zero))"

lemma demo_ring_ok: "ring_inv 8 demo_ring" "ring_list 8 demo_ring = [Batch_zero\<lparr>sample_count := 4\<rparr>]"
proof -
  let ?r = "ring_init LOG_RING_CAPACITY Batch_zero"
  note r = log_ring_init(1-3) [of Batch_zero]
  show "ring_inv 8 demo_ring" "ring_list 8 demo_ring = [Batch_zero\<lparr>sample_count := 4\<rparr>]"
    using spsc.push_free [OF r(1,3), of "Batch_zero\<lparr>sample_count := 4\<rparr>"] r(2) by (simp_all add: demo_ring_def ring_256)
qed


text \<open>What other threads do while the logger waits: the composer pushes batches, the logger turns.\<close>

datatype log_event = Compose BatchLogRecord | LogTurn u64 u64

fun log_event_step ::
    "(SensorCommandPair \<Rightarrow> bytes) \<Rightarrow> log_event \<Rightarrow> Logger \<times> mqtt_world \<times> batch_ring \<Rightarrow>
     fault + Logger \<times> mqtt_world \<times> batch_ring" where
  "log_event_step repr (Compose b) (lg, w, ring) = Inr (lg, w, snd (ring_push LOG_RING_CAPACITY b ring))"
| "log_event_step repr (LogTurn t1 t2) s = logger_turn repr t1 t2 s"

fun composed :: "log_event list \<Rightarrow> BatchLogRecord list" where
  "composed [] = []"
| "composed (Compose b # es) = b # composed es"
| "composed (LogTurn t1 t2 # es) = composed es"

fun turn_times :: "log_event list \<Rightarrow> u64 list" where
  "turn_times [] = []"
| "turn_times (Compose b # es) = turn_times es"
| "turn_times (LogTurn t1 t2 # es) = t1 # t2 # turn_times es"

text \<open>The logger has not begun to drain, and saw the connection no earlier than \<open>T\<close> and before
  the times \<open>ts\<close>.\<close>

definition delaying :: "u64 \<Rightarrow> u64 list \<Rightarrow> Logger \<Rightarrow> bool" where
  "delaying T ts lg \<longleftrightarrow> \<not> push_enabled lg \<and>
     (connect_seen lg \<longrightarrow> T \<le> connect_seen_ts_ns lg \<and> (\<forall>t \<in> set ts. connect_seen_ts_ns lg \<le> t))"

lemma guard_delays:
  assumes "delaying T (t1 # t2 # ts) lg" "sorted (t1 # t2 # ts)" "T \<le> t1" "unat t2 < unat T + 20000000000"
  shows "delaying T ts (connect_guard c t1 t2 lg)"
proof -
  have "\<not> CONNECT_DELAY_NS \<le> t2 - s" if "T \<le> s" "s \<le> t2" for s
  proof -
    have "unat (t2 - s) < 20000000000"
      using that assms(4) by (simp add: unat_sub) (simp add: word_le_nat_alt)
    then show ?thesis by (simp add: word_le_nat_alt CONNECT_DELAY_NS_def)
  qed
  then show ?thesis
    using assms by (auto simp: connect_guard_def delaying_def Let_def)
qed

text \<open>Pushing batches into a ring nobody drains.\<close>

lemma ring_push_undrained:
  fixes b :: BatchLogRecord
  assumes "ring_inv 8 ring" "r_tail ring = 0" "ring_list 8 ring = take 256 bs"
    "ring_dropped ring = of_nat (length bs - 256)"
  defines "ring' \<equiv> snd (ring_push LOG_RING_CAPACITY b ring)"
  shows "ring_inv 8 ring'" "r_tail ring' = 0" "ring_list 8 ring' = take 256 (bs @ [b])"
    "ring_dropped ring' = of_nat (length (bs @ [b]) - 256)"
proof -
  have tail: "r_tail ring' = r_tail ring" by (simp add: ring'_def ring_push_def Let_def)
  have "unat (r_head ring) = length (take 256 bs)" using ring_length [OF assms(1)] assms(2,3) by simp
  then have room: "ring_room ring" by (auto simp: ring_room_def)
  show "r_tail ring' = 0" using tail assms(2) by simp
  show "ring_inv 8 ring'" using spsc.push_inv [OF assms(1) room] by (simp add: ring'_def ring_256)
  show "ring_list 8 ring' = take 256 (bs @ [b])"
    using spsc.push_free [OF assms(1) room, of b] spsc.push_full [OF assms(1), of b] assms(3)
    by (cases "length bs < 256") (simp_all add: ring'_def ring_256)
  have f: "LOG_RING_CAPACITY \<le> r_head ring - r_tail ring \<longleftrightarrow> 256 \<le> length bs"
    using ring_full_iff [OF assms(1)] assms(3) by (auto simp: ring_256 min_def)
  show "ring_dropped ring' = of_nat (length (bs @ [b]) - 256)"
    using f assms(4) by (auto simp: ring'_def ring_push_def Let_def Suc_diff_le)
qed

lemma log_events_delayed:
  assumes "delaying T (turn_times es) lg" "sorted (turn_times es)"
    "\<forall>t \<in> set (turn_times es). T \<le> t \<and> unat t < unat T + 20000000000"
    "ring_inv 8 ring" "r_tail ring = 0" "ring_list 8 ring = take 256 bs" "ring_dropped ring = of_nat (length bs - 256)"
  shows "\<exists>lg' ring'. foldR (log_event_step repr) es (lg, w, ring) = Inr (lg', w, ring') \<and>
    ring_list 8 ring' = take 256 (bs @ composed es) \<and> ring_dropped ring' = of_nat (length (bs @ composed es) - 256)"
  using assms
proof (induction es arbitrary: lg ring bs)
  case (Cons e es)
  show ?case
  proof (cases e)
    case (Compose b)
    let ?r = "snd (ring_push LOG_RING_CAPACITY b ring)"
    note r = ring_push_undrained [OF Cons.prems(4-7), of b]
    have "\<exists>lg' ring'. foldR (log_event_step repr) es (lg, w, ?r) = Inr (lg', w, ring') \<and>
      ring_list 8 ring' = take 256 ((bs @ [b]) @ composed es) \<and>
      ring_dropped ring' = of_nat (length ((bs @ [b]) @ composed es) - 256)"
      by (rule Cons.IH) (use Cons.prems(1-3) Compose r in simp_all)
    then show ?thesis by (simp add: Compose)
  next
    case (LogTurn t1 t2)
    let ?lg = "connect_guard (mq_isConnected (mq w)) t1 t2 lg"
    have d: "delaying T (turn_times es) ?lg"
      by (rule guard_delays) (use Cons.prems(1-3) LogTurn in simp_all)
    have "logger_turn repr t1 t2 (lg, w, ring) = Inr (?lg, w, ring)"
      using d by (simp add: logger_turn_def delaying_def)
    then show ?thesis
      using Cons.IH [OF d _ _ Cons.prems(4-7)] Cons.prems(2,3) LogTurn by simp
  qed
qed auto

text \<open>While the twenty seconds after the first connection last, nothing is drained: of the batches
  the composer pushes from the start until then the ring keeps the first 256 and drops all
  the later ones (at 100 batches per second the ring is full in less than three seconds).\<close>

theorem logger_delay_drops_batches:
  assumes "sorted (turn_times es)" "\<forall>t \<in> set (turn_times es). T \<le> t \<and> unat t < unat T + 20000000000"
  shows "\<exists>lg' ring'. foldR (log_event_step repr) es
      (logger_start True (Logger_ctor rid every), w, ring_init LOG_RING_CAPACITY Batch_zero) = Inr (lg', w, ring') \<and>
    ring_list 8 ring' = take 256 (composed es) \<and> ring_dropped ring' = of_nat (length (composed es) - 256)"
proof -
  have "\<exists>lg' ring'. foldR (log_event_step repr) es
      (logger_start True (Logger_ctor rid every), w, ring_init LOG_RING_CAPACITY Batch_zero) = Inr (lg', w, ring') \<and>
    ring_list 8 ring' = take 256 ([] @ composed es) \<and> ring_dropped ring' = of_nat (length ([] @ composed es) - 256)"
    by (rule log_events_delayed [OF _ assms])
      (simp_all add: delaying_def logger_start_def Logger_ctor_def log_ring_init)
  then show ?thesis by simp
qed

theorem logger_delay_drops_batches_witness:
  "\<exists>lg' ring'. foldR (log_event_step (\<lambda>_. replicate 1544 0)) ([LogTurn 100 101] @ map Compose (replicate 300 Batch_zero) @ [LogTurn 15000000000 15000000001])
      (logger_start True (Logger_ctor 1 5), on_mq (\<lambda>c. c\<lparr>mq_isConnected := True\<rparr>) mqtt_init,
       ring_init LOG_RING_CAPACITY Batch_zero) =
      Inr (lg', on_mq (\<lambda>c. c\<lparr>mq_isConnected := True\<rparr>) mqtt_init, ring') \<and>
    length (ring_list 8 ring') = 256 \<and> ring_dropped ring' = 44"
proof -
  let ?es = "[LogTurn 100 101] @ map Compose (replicate 300 Batch_zero) @ [LogTurn 15000000000 15000000001]"
  have t: "turn_times (map Compose bs @ es) = turn_times es" "composed (map Compose bs @ es) = bs @ composed es" for bs es
    by (induction bs) simp_all
  have "turn_times ?es = [100, 101, 15000000000, 15000000001]" "composed ?es = replicate 300 Batch_zero"
    by (simp_all only: append.simps turn_times.simps composed.simps t append_Nil2)
  then show ?thesis
    using logger_delay_drops_batches [of ?es 100 "\<lambda>_. replicate 1544 0" 1 5 "on_mq (\<lambda>c. c\<lparr>mq_isConnected := True\<rparr>) mqtt_init"]
    by auto
qed

end
