(* ===== verification/Subscriber.thy ===== *)
theory Subscriber
  imports Logger CommandLine
begin

text \<open>
  \<open>tools/test_subscriber_influxdb.cpp\<close>: the subscriber that validates the binary payloads and
  writes points to a database.  A point is kept as its measurement, its tags, its time and the bytes of
  its record; \<open>point_line\<close> is its text, with the printing of doubles an argument.  \<open>curl_results n\<close> is the
  outcome of the HTTP library at the \<open>n\<close>-th flush.  The callbacks of libwebsockets and the turns of the
  flush thread come as one sequence of events, since a mutex guards the writer.
\<close>

section \<open>State\<close>

definition sizeof_BinaryPayloadHeader :: nat where "sizeof_BinaryPayloadHeader = 32"
definition sizeof_SensorData :: nat where "sizeof_SensorData = 1016"
definition sizeof_Command :: nat where "sizeof_Command = 528"

datatype point = RobotSensor u32 nat u64 bytes | RobotImu u32 bytes | RobotContact u32 u64 bytes
  | RobotCommand u32 nat u64 bytes

datatype curl_outcome = InitFailed | PerformFailed | HttpCode int

record InfluxWriter =
  batch_size :: int
  iw_buffer :: "point list"
  point_count :: nat
  total_written :: u64
  flush_count :: u64
  error_count :: u64
  curl_results :: "nat \<Rightarrow> curl_outcome"
  curl_calls :: nat

record subscriber =
  g_influx :: InfluxWriter
  g_msg_count :: u64
  g_sensor_count :: u64
  g_cmd_count :: u64
  g_invalid_count :: u64

section \<open>Writing points\<close>

definition next_outcome :: "InfluxWriter \<Rightarrow> curl_outcome \<times> InfluxWriter" where
  "next_outcome iw = (curl_results iw (curl_calls iw), iw\<lparr>curl_calls := Suc (curl_calls iw)\<rparr>)"

definition flush_locked :: "InfluxWriter \<Rightarrow> InfluxWriter" where
  "flush_locked iw =
     (if iw_buffer iw = [] then iw
      else case next_outcome iw of (out, iw1) \<Rightarrow>
        (case out of
           InitFailed \<Rightarrow> iw1\<lparr>error_count := error_count iw1 + 1, iw_buffer := [], point_count := 0\<rparr>
         | PerformFailed \<Rightarrow> iw1\<lparr>error_count := error_count iw1 + 1, iw_buffer := [], point_count := 0,
                              flush_count := flush_count iw1 + 1\<rparr>
         | HttpCode code \<Rightarrow>
             (let iw2 = (if code \<noteq> 204 then iw1\<lparr>error_count := error_count iw1 + 1\<rparr>
                         else iw1\<lparr>total_written := total_written iw1 + of_nat (point_count iw1)\<rparr>)
              in iw2\<lparr>iw_buffer := [], point_count := 0, flush_count := flush_count iw2 + 1\<rparr>)))"

definition add_points :: "point list \<Rightarrow> InfluxWriter \<Rightarrow> InfluxWriter" where
  "add_points ps iw =
     (let iw1 = iw\<lparr>iw_buffer := iw_buffer iw @ ps, point_count := point_count iw + length ps\<rparr>
      in if word_of_int (batch_size iw1) \<le> (of_nat (point_count iw1) :: u64) then flush_locked iw1 else iw1)"

definition add_sensor_point :: "BinaryPayloadHeader \<Rightarrow> bytes \<Rightarrow> InfluxWriter \<Rightarrow> InfluxWriter" where
  "add_sensor_point hdr s iw =
     add_points (map (\<lambda>j. RobotSensor (h_robot_id hdr) j (h_timestamp_ns hdr) s) [0..<NUM_ACT_JOINT] @
       [RobotImu (h_robot_id hdr) s, RobotContact (h_robot_id hdr) (h_timestamp_ns hdr) s]) iw"

definition add_command_point :: "BinaryPayloadHeader \<Rightarrow> bytes \<Rightarrow> InfluxWriter \<Rightarrow> InfluxWriter" where
  "add_command_point hdr c iw =
     add_points (map (\<lambda>j. RobotCommand (h_robot_id hdr) j (h_timestamp_ns hdr) c) [0..<NUM_ACT_JOINT]) iw"

definition flush_points :: "InfluxWriter \<Rightarrow> InfluxWriter" where
  "flush_points iw = flush_locked iw"

definition InfluxWriter_ctor :: "int \<Rightarrow> (nat \<Rightarrow> curl_outcome) \<Rightarrow> InfluxWriter" where
  "InfluxWriter_ctor batch results =
     \<lparr>batch_size = batch, iw_buffer = [], point_count = 0, total_written = 0, flush_count = 0, error_count = 0,
      curl_results = results, curl_calls = 0\<rparr>"

section \<open>Payloads\<close>

definition le_word16 :: "bytes \<Rightarrow> u16" where
  "le_word16 b = ucast (b ! 0) OR push_bit 8 (ucast (b ! 1))"

definition le_word64 :: "bytes \<Rightarrow> u64" where
  "le_word64 b = ucast (le_word32 (take 4 b)) OR push_bit 32 (ucast (le_word32 (take 4 (drop 4 b))))"

definition parse_header :: "bytes \<Rightarrow> BinaryPayloadHeader" where
  "parse_header b =
     \<lparr>h_magic = le_word16 (take 2 b), h_version = b ! 2, h_record_type = b ! 3,
      h_robot_id = le_word32 (take 4 (drop 4 b)), h_payload_size = le_word32 (take 4 (drop 8 b)),
      h_reserved = le_word32 (take 4 (drop 12 b)), h_sequence = le_word64 (take 8 (drop 16 b)),
      h_timestamp_ns = le_word64 (take 8 (drop 24 b))\<rparr>"

definition process_binary_payload :: "bytes \<Rightarrow> subscriber \<Rightarrow> subscriber" where
  "process_binary_payload payload s =
     (let invalid = s\<lparr>g_invalid_count := g_invalid_count s + 1\<rparr> in
      if length payload < sizeof_BinaryPayloadHeader then invalid
      else let hdr = parse_header payload; data = drop sizeof_BinaryPayloadHeader payload in
        if h_magic hdr \<noteq> PAYLOAD_MAGIC then invalid
        else if h_version hdr \<noteq> PAYLOAD_VERSION then invalid
        else if h_record_type hdr = record_code R_SENSOR then
          (if unat (h_payload_size hdr) \<noteq> sizeof_SensorData \<or> length data < sizeof_SensorData then invalid
           else s\<lparr>g_influx := add_sensor_point hdr (take sizeof_SensorData data) (g_influx s),
                  g_sensor_count := g_sensor_count s + 1, g_msg_count := g_msg_count s + 1\<rparr>)
        else if h_record_type hdr = record_code R_COMMAND then
          (if unat (h_payload_size hdr) \<noteq> sizeof_Command \<or> length data < sizeof_Command then invalid
           else s\<lparr>g_influx := add_command_point hdr (take sizeof_Command data) (g_influx s),
                  g_cmd_count := g_cmd_count s + 1, g_msg_count := g_msg_count s + 1\<rparr>)
        else s\<lparr>g_msg_count := g_msg_count s + 1\<rparr>)"

section \<open>The text of a point\<close>

text \<open>The values of the packed records are read at their offsets in \<open>SensorData\<close> and \<open>Command\<close>; \<open>fmt\<close> is how a
  stream prints the double with a given pattern.\<close>

fun dec :: "nat \<Rightarrow> string" where
  "dec n = (if n < 10 then [char_of (48 + n)] else dec (n div 10) @ [char_of (48 + n mod 10)])"

declare dec.simps [simp del]

definition f64_at :: "nat \<Rightarrow> nat \<Rightarrow> bytes \<Rightarrow> u64" where
  "f64_at off j b = le_word64 (take 8 (drop (off + 8 * j) b))"

definition new_line :: string where
  "new_line = [CHR 0x0A]"

fun point_line :: "(u64 \<Rightarrow> string) \<Rightarrow> point \<Rightarrow> string" where
  "point_line fmt (RobotSensor rid j ts s) =
     ''robot_sensor'' @ '',robot_id='' @ dec (unat rid) @ '',joint='' @ dec j @
     '' jpos='' @ fmt (f64_at 72 j s) @ '',jvel='' @ fmt (f64_at 168 j s) @ '',jtorque='' @ fmt (f64_at 648 j s) @
     '',motor_jpos='' @ fmt (f64_at 264 j s) @ '',motor_jvel='' @ fmt (f64_at 360 j s) @
     '',bus_current='' @ fmt (f64_at 456 j s) @ '',bus_voltage='' @ fmt (f64_at 552 j s) @
     '' '' @ dec (unat ts) @ new_line"
| "point_line fmt (RobotImu rid s) =
     ''robot_imu'' @ '',robot_id='' @ dec (unat rid) @
     '' gx='' @ fmt (f64_at 24 0 s) @ '',gy='' @ fmt (f64_at 24 1 s) @ '',gz='' @ fmt (f64_at 24 2 s) @
     '',ax='' @ fmt (f64_at 48 0 s) @ '',ay='' @ fmt (f64_at 48 1 s) @ '',az='' @ fmt (f64_at 48 2 s) @
     '' '' @ dec (unat (f64_at 944 0 s)) @ new_line"
| "point_line fmt (RobotContact rid ts s) =
     ''robot_contact'' @ '',robot_id='' @ dec (unat rid) @
     '' rfoot='' @ dec (unat (s ! 936)) @ '',lfoot='' @ dec (unat (s ! 937)) @ '' '' @ dec (unat ts) @ new_line"
| "point_line fmt (RobotCommand rid j ts c) =
     ''robot_command'' @ '',robot_id='' @ dec (unat rid) @ '',joint='' @ dec j @
     '' jpos_cmd='' @ fmt (f64_at 96 j c) @ '',jvel_cmd='' @ fmt (f64_at 192 j c) @
     '',jtorque_cmd='' @ fmt (f64_at 0 j c) @ '',kp='' @ fmt (f64_at 288 j c) @ '',kd='' @ fmt (f64_at 384 j c) @
     '' '' @ dec (unat ts) @ new_line"

text \<open>What a flush posts.\<close>

definition post_body :: "(u64 \<Rightarrow> string) \<Rightarrow> InfluxWriter \<Rightarrow> string" where
  "post_body fmt iw = concat (map (point_line fmt) (iw_buffer iw))"

section \<open>The program\<close>

definition MQTT_TOPIC_CMD :: string where "MQTT_TOPIC_CMD = ''robot/command/bin''"

datatype lws_reason = SubEstablished | SubRx "bytes option" | SubClosed | SubOther

text \<open>The callback: the topics subscribed to by it, and the new state.\<close>

definition lws_mqtt_sub_callback :: "lws_reason \<Rightarrow> subscriber \<Rightarrow> string list \<times> subscriber" where
  "lws_mqtt_sub_callback reason s =
     (case reason of
        SubEstablished \<Rightarrow> ([MQTT_TOPIC_SENSOR, MQTT_TOPIC_CMD], s)
      | SubRx (Some payload) \<Rightarrow> ([], if payload \<noteq> [] then process_binary_payload payload s else s)
      | _ \<Rightarrow> ([], s))"

datatype sub_event = Callback lws_reason | FlushTurn

definition sub_step :: "sub_event \<Rightarrow> subscriber \<Rightarrow> subscriber" where
  "sub_step e s =
     (case e of Callback r \<Rightarrow> snd (lws_mqtt_sub_callback r s)
      | FlushTurn \<Rightarrow> s\<lparr>g_influx := flush_points (g_influx s)\<rparr>)"

record sub_options =
  sb_broker :: string
  sb_port :: int
  sb_url :: string
  sb_bucket :: string
  sb_org :: string
  sb_token :: string
  sb_batch :: int
  sb_dur :: double

definition sub_defaults :: sub_options where
  "sub_defaults = \<lparr>sb_broker = ''localhost'', sb_port = 1883, sb_url = ''http://localhost:8086'',
     sb_bucket = ''mercury_robot'', sb_org = ''myorg'', sb_token = [], sb_batch = 500, sb_dur = Fin 0\<rparr>"

definition write_url :: "sub_options \<Rightarrow> string" where
  "write_url cfg = sb_url cfg @ ''/api/v2/write?org='' @ sb_org cfg @ ''&bucket='' @ sb_bucket cfg @ ''&precision=ns''"

text \<open>An argument that is no option is skipped.  \<open>atof\<close> is the conversion of the C library.\<close>

fun parse_sub_args :: "(string \<Rightarrow> double) \<Rightarrow> string list \<Rightarrow> sub_options \<Rightarrow> sub_options parsed" where
  "parse_sub_args atof [] opt = Options opt"
| "parse_sub_args atof (a # as) opt =
     (if has_value ''-mqtt_broker'' a as then parse_sub_args atof (tl as) (opt\<lparr>sb_broker := hd as\<rparr>)
      else if has_value ''-mqtt_port'' a as then
        (case atoi (hd as) of None \<Rightarrow> Undefined | Some n \<Rightarrow> parse_sub_args atof (tl as) (opt\<lparr>sb_port := n\<rparr>))
      else if has_value ''-influx_url'' a as then parse_sub_args atof (tl as) (opt\<lparr>sb_url := hd as\<rparr>)
      else if has_value ''-influx_bucket'' a as then parse_sub_args atof (tl as) (opt\<lparr>sb_bucket := hd as\<rparr>)
      else if has_value ''-influx_org'' a as then parse_sub_args atof (tl as) (opt\<lparr>sb_org := hd as\<rparr>)
      else if has_value ''-influx_token'' a as then parse_sub_args atof (tl as) (opt\<lparr>sb_token := hd as\<rparr>)
      else if has_value ''-batch'' a as then
        (case atoi (hd as) of None \<Rightarrow> Undefined | Some n \<Rightarrow> parse_sub_args atof (tl as) (opt\<lparr>sb_batch := n\<rparr>))
      else if has_value ''-dur'' a as then parse_sub_args atof (tl as) (opt\<lparr>sb_dur := atof (hd as)\<rparr>)
      else if a = ''-h'' then Exit 0
      else parse_sub_args atof as opt)"

text \<open>\<open>main\<close>: without a context or a connection it returns while the flush thread is still joinable, which ends the
  program with \<open>std::terminate\<close>.  Otherwise the events run, then the flush thread flushes once more and so does
  \<open>main\<close>.\<close>

datatype sub_result = SubExit int | SubUndefined | SubTerminate | SubDone subscriber

definition sub_main ::
    "(string \<Rightarrow> double) \<Rightarrow> string list \<Rightarrow> bool \<Rightarrow> bool \<Rightarrow> (nat \<Rightarrow> curl_outcome) \<Rightarrow> sub_event list \<Rightarrow> sub_result" where
  "sub_main atof args context is_linked results events =
     (case parse_sub_args atof args sub_defaults of
        Exit n \<Rightarrow> SubExit n | Undefined \<Rightarrow> SubUndefined
      | Options opt \<Rightarrow>
          if \<not> context \<or> \<not> is_linked then SubTerminate
          else SubDone (fold sub_step (events @ [FlushTurn, FlushTurn])
            \<lparr>g_influx = InfluxWriter_ctor (sb_batch opt) results, g_msg_count = 0, g_sensor_count = 0,
             g_cmd_count = 0, g_invalid_count = 0\<rparr>))"

section \<open>The header round trip\<close>

lemma le_word16_bytes [simp]: "le_word16 (le_bytes16 w) = w"
  by (rule bit_word_eqI) (auto simp: le_word16_def le_bytes16_def bit_simps)

lemma le_word64_bytes [simp]: "le_word64 (le_bytes64 w) = w"
  by (rule bit_word_eqI) (auto simp: le_word64_def le_bytes64_def bit_simps)

lemma length_le_bytes [simp]: "length (le_bytes16 w) = 2" "length (le_bytes64 v) = 8"
  by (simp_all add: le_bytes16_def le_bytes64_def)

lemma length_header_bytes [simp]: "length (header_bytes h) = 32"
  by (simp add: header_bytes_def)

lemma parse_header_bytes [simp]: "parse_header (header_bytes h @ xs) = h"
  by (simp add: parse_header_def header_bytes_def nth_append)


section \<open>Properties\<close>

text \<open>The subscriber decodes the header of every message of the logger as it was written and
  counts the message as valid, but stores nothing of it: there is no branch for batches, so no
  point reaches the database.\<close>

theorem subscriber_ignores_batches:
  "parse_header (batch_payload repr rid b) = b_header (relabel rid b) \<and>
   process_binary_payload (batch_payload repr rid b) s = s\<lparr>g_msg_count := g_msg_count s + 1\<rparr>"
proof -
  have h: "parse_header (batch_payload repr rid b) = b_header (relabel rid b)"
    by (simp add: batch_payload_def)
  have l: "\<not> length (batch_payload repr rid b) < 32" by (simp add: batch_payload_def)
  show ?thesis
    using l by (simp add: process_binary_payload_def h sizeof_BinaryPayloadHeader_def Let_def)
      (simp add: relabel_def record_code_def)
qed

section \<open>Every point is written\<close>

lemma no_new_line_dec: "CHR 0x0A \<notin> set (dec n)"
proof (induction n rule: dec.induct)
  case (1 n)
  have d: "char_of (48 + k) \<noteq> CHR 0x0A" if "k < 10" for k :: nat
  proof
    assume "char_of (48 + k) = CHR 0x0A"
    then have "(of_char (char_of (48 + k)) :: nat) = of_char (CHR 0x0A)" by simp
    then have "(48 + k) mod 256 = 10" by simp
    then show False using that by simp
  qed
  show ?case
  proof (cases "n < 10")
    case True
    then show ?thesis using d [of n] by (subst dec.simps) auto
  next
    case False
    then show ?thesis using 1 [OF False] d [of "n mod 10"] by (subst dec.simps) auto
  qed
qed

text \<open>The text of a point is one line, if the doubles are printed without line breaks.\<close>

lemma count_point_line:
  assumes "\<And>w. CHR 0x0A \<notin> set (fmt w)"
  shows "count_list (point_line fmt p) (CHR 0x0A) = 1"
  using assms no_new_line_dec by (cases p) (simp_all add: new_line_def count_notin)

definition iw_ok :: "InfluxWriter \<Rightarrow> bool" where
  "iw_ok iw \<longleftrightarrow> point_count iw = length (iw_buffer iw) \<and> error_count iw = 0 \<and> (\<forall>n. curl_results iw n = HttpCode 204)"

text \<open>Points written and points waiting.\<close>

definition points :: "InfluxWriter \<Rightarrow> u64" where
  "points iw = total_written iw + of_nat (point_count iw)"

lemma flush_ok:
  assumes "iw_ok iw"
  shows "iw_ok (flush_locked iw)" "points (flush_locked iw) = points iw" "point_count (flush_locked iw) = 0"
  using assms by (auto simp: iw_ok_def points_def flush_locked_def next_outcome_def Let_def)

lemma add_points_ok:
  assumes "iw_ok iw"
  shows "iw_ok (add_points ps iw)" "points (add_points ps iw) = points iw + of_nat (length ps)"
proof -
  let ?iw = "iw\<lparr>iw_buffer := iw_buffer iw @ ps, point_count := point_count iw + length ps\<rparr>"
  have "iw_ok ?iw" "points ?iw = points iw + of_nat (length ps)"
    using assms by (simp_all add: iw_ok_def points_def)
  then show "iw_ok (add_points ps iw)" "points (add_points ps iw) = points iw + of_nat (length ps)"
    using flush_ok [of ?iw] unfolding add_points_def Let_def by simp_all
qed

definition sub_ok :: "subscriber \<Rightarrow> bool" where
  "sub_ok s \<longleftrightarrow> iw_ok (g_influx s) \<and> points (g_influx s) = 14 * g_sensor_count s + 12 * g_cmd_count s"

lemma process_ok: "sub_ok s \<Longrightarrow> sub_ok (process_binary_payload payload s)"
  using add_points_ok [of "g_influx s"]
  by (simp add: sub_ok_def process_binary_payload_def Let_def add_sensor_point_def add_command_point_def NUM_ACT_JOINT_def
      algebra_simps)

lemma sub_step_ok: "sub_ok s \<Longrightarrow> sub_ok (sub_step e s)"
  using flush_ok [of "g_influx s"] process_ok [of s]
  by (auto simp: sub_step_def lws_mqtt_sub_callback_def flush_points_def sub_ok_def split: sub_event.split lws_reason.split option.split)

text \<open>If every transfer to the database succeeds, then whatever messages arrive and whenever the points are flushed, a
  run ends with fourteen points written for each sensor record accepted and twelve for each command, none waiting and no
  error counted.\<close>

theorem subscriber_writes_all:
  assumes "sub_main atof args context is_linked (\<lambda>_. HttpCode 204) events = SubDone s"
  shows "total_written (g_influx s) = 14 * g_sensor_count s + 12 * g_cmd_count s \<and> iw_buffer (g_influx s) = [] \<and>
    error_count (g_influx s) = 0"
proof -
  obtain opt where "parse_sub_args atof args sub_defaults = Options opt" "context" "is_linked"
    using assms by (auto simp: sub_main_def split: parsed.splits if_splits)
  then have s: "s = fold sub_step (events @ [FlushTurn, FlushTurn])
      \<lparr>g_influx = InfluxWriter_ctor (sb_batch opt) (\<lambda>_. HttpCode 204), g_msg_count = 0, g_sensor_count = 0,
       g_cmd_count = 0, g_invalid_count = 0\<rparr>" (is "s = fold _ _ ?s0")
    using assms by (simp add: sub_main_def)
  have "sub_ok ?s0" by (simp add: sub_ok_def iw_ok_def points_def InfluxWriter_ctor_def)
  then have ok: "sub_ok (fold sub_step es ?s0)" for es
    by (rule fold_invariant [of es "\<lambda>_. True", rotated]) (simp_all add: sub_step_ok)
  let ?t = "sub_step FlushTurn (fold sub_step events ?s0)"
  have t: "sub_ok ?t" using ok [of events] by (rule sub_step_ok)
  have s: "s = sub_step FlushTurn ?t" unfolding s by simp
  have "point_count (g_influx s) = 0" using flush_ok(3) [of "g_influx ?t"] t
    unfolding s by (simp add: sub_step_def [of FlushTurn ?t] flush_points_def sub_ok_def)
  moreover have "sub_ok s" unfolding s by (rule sub_step_ok [OF t])
  ultimately show ?thesis by (simp add: sub_ok_def iw_ok_def points_def)
qed

text \<open>The program ends abnormally when it cannot connect.\<close>

lemma connection_failure_terminates:
  "sub_main atof [] True False results events = SubTerminate"
  by (simp add: sub_main_def)

end
