(* ===== verification/Gamepad.thy ===== *)
theory Gamepad
  imports PackageGenerator EventLoop
begin

text \<open>
  \<open>lib/ds/GenericHID.cpp\<close> and \<open>lib/ds/XboxController.cpp\<close>: a game controller reads one stick of the
  driver station and makes boolean events of its buttons, hats and axes.  A signal is the lambda an
  event is made with; the raw signals of an event loop are indices into the list of the signals made
  so far, and all of them are read when the loop is polled.
\<close>

section \<open>Generic controllers\<close>

definition getRawButtonPressed :: "int \<Rightarrow> int \<Rightarrow> DS_Instance \<Rightarrow> fault + bool \<times> DS_Instance" where
  "getRawButtonPressed port b = getStickButtonPressed port b"

definition getRawButtonReleased :: "int \<Rightarrow> int \<Rightarrow> DS_Instance \<Rightarrow> fault + bool \<times> DS_Instance" where
  "getRawButtonReleased port b = getStickButtonReleased port b"

definition getRawButton :: "int \<Rightarrow> int \<Rightarrow> FRCDriverStation \<Rightarrow> fault + bool" where
  "getRawButton port b ds = getStickButton port b ds"

definition getRawAxis :: "int \<Rightarrow> int \<Rightarrow> FRCDriverStation \<Rightarrow> fault + real" where
  "getRawAxis port axis ds = getStickAxis port axis ds"

definition getPOV :: "int \<Rightarrow> int \<Rightarrow> FRCDriverStation \<Rightarrow> fault + int" where
  "getPOV port pov ds = getStickPOV port pov ds"

definition getAxisCount :: "int \<Rightarrow> FRCDriverStation \<Rightarrow> fault + int" where
  "getAxisCount port ds = getStickAxisCount port ds"

definition getPOVCount :: "int \<Rightarrow> FRCDriverStation \<Rightarrow> fault + int" where
  "getPOVCount port ds = getStickPOVCount port ds"

definition getButtonCount :: "int \<Rightarrow> FRCDriverStation \<Rightarrow> fault + int" where
  "getButtonCount port ds = getStickButtonCount port ds"

definition hid_isConnected :: "int \<Rightarrow> FRCDriverStation \<Rightarrow> fault + bool" where
  "hid_isConnected port ds = isJoystickConnected port ds"

datatype hid_signal = ButtonSignal int | PovSignal int int | AxisLess int double | AxisGreater int double

definition hid_value :: "FRCDriverStation \<Rightarrow> int \<Rightarrow> hid_signal \<Rightarrow> fault + bool" where
  "hid_value ds port sig =
     (case sig of
        ButtonSignal b \<Rightarrow> getRawButton port b ds
      | PovSignal pov angle \<Rightarrow> bindR (getPOV port pov ds) (\<lambda>v. Inr (v = angle))
      | AxisLess axis threshold \<Rightarrow> bindR (getRawAxis port axis ds) (\<lambda>v. Inr (dlt (Fin v) threshold))
      | AxisGreater axis threshold \<Rightarrow> bindR (getRawAxis port axis ds) (\<lambda>v. Inr (dlt threshold (Fin v))))"

section \<open>Events\<close>

record 'a hid_loop =
  hl_loop :: "'a EventLoop"
  hl_signals :: "hid_signal list"

definition signal_env :: "FRCDriverStation \<Rightarrow> int \<Rightarrow> hid_signal list \<Rightarrow> int \<Rightarrow> bool" where
  "signal_env ds port sigs n = (case hid_value ds port (sigs ! nat n) of Inl e \<Rightarrow> False | Inr b \<Rightarrow> b)"

definition hid_event :: "FRCDriverStation \<Rightarrow> int \<Rightarrow> hid_signal \<Rightarrow> 'a hid_loop \<Rightarrow> fault + BooleanEvent \<times> 'a hid_loop" where
  "hid_event ds port sig h =
     bindR (hid_value ds port sig) (\<lambda>_.
       let sigs = hl_signals h @ [sig]
       in bindR (BooleanEvent_ctor (signal_env ds port sigs) (Raw (int (length (hl_signals h)))) (hl_loop h)) (\<lambda>(e, l).
          Inr (e, \<lparr>hl_loop = l, hl_signals = sigs\<rparr>)))"

definition hid_poll :: "FRCDriverStation \<Rightarrow> int \<Rightarrow> 'a hid_loop \<Rightarrow> fault + 'a list \<times> 'a hid_loop" where
  "hid_poll ds port h =
     bindR (foldR (\<lambda>sig u. bindR (hid_value ds port sig) (\<lambda>_. Inr u)) (hl_signals h) ()) (\<lambda>_.
     bindR (poll (signal_env ds port (hl_signals h)) (hl_loop h)) (\<lambda>(as, l). Inr (as, h\<lparr>hl_loop := l\<rparr>)))"

definition hid_button :: "int \<Rightarrow> FRCDriverStation \<Rightarrow> int \<Rightarrow> 'a hid_loop \<Rightarrow> fault + BooleanEvent \<times> 'a hid_loop" where
  "hid_button b ds port = hid_event ds port (ButtonSignal b)"

definition hid_pov_of :: "int \<Rightarrow> int \<Rightarrow> FRCDriverStation \<Rightarrow> int \<Rightarrow> 'a hid_loop \<Rightarrow> fault + BooleanEvent \<times> 'a hid_loop" where
  "hid_pov_of pov angle ds port = hid_event ds port (PovSignal pov angle)"

definition hid_pov :: "int \<Rightarrow> FRCDriverStation \<Rightarrow> int \<Rightarrow> 'a hid_loop \<Rightarrow> fault + BooleanEvent \<times> 'a hid_loop" where
  "hid_pov angle = hid_pov_of 0 angle"

datatype pov_direction = PovUp | PovUpRight | PovRight | PovDownRight | PovDown | PovDownLeft | PovLeft | PovUpLeft | PovCenter

definition direction_angle :: "pov_direction \<Rightarrow> int" where
  "direction_angle d = (case d of PovUp \<Rightarrow> 0 | PovUpRight \<Rightarrow> 45 | PovRight \<Rightarrow> 90 | PovDownRight \<Rightarrow> 135 | PovDown \<Rightarrow> 180
     | PovDownLeft \<Rightarrow> 225 | PovLeft \<Rightarrow> 270 | PovUpLeft \<Rightarrow> 315 | PovCenter \<Rightarrow> 360)"

definition hid_pov_direction :: "pov_direction \<Rightarrow> FRCDriverStation \<Rightarrow> int \<Rightarrow> 'a hid_loop \<Rightarrow> fault + BooleanEvent \<times> 'a hid_loop" where
  "hid_pov_direction d = hid_pov (direction_angle d)"

definition hid_axisLessThan :: "int \<Rightarrow> double \<Rightarrow> FRCDriverStation \<Rightarrow> int \<Rightarrow> 'a hid_loop \<Rightarrow> fault + BooleanEvent \<times> 'a hid_loop" where
  "hid_axisLessThan axis threshold ds port = hid_event ds port (AxisLess axis threshold)"

definition hid_axisGreaterThan :: "int \<Rightarrow> double \<Rightarrow> FRCDriverStation \<Rightarrow> int \<Rightarrow> 'a hid_loop \<Rightarrow> fault + BooleanEvent \<times> 'a hid_loop" where
  "hid_axisGreaterThan axis threshold ds port = hid_event ds port (AxisGreater axis threshold)"

section \<open>The Xbox controller\<close>

datatype XboxButton = kA | kB | kX | kY | kLeftBumper | kRightBumper | kBack | kStart | kLeftStick | kRightStick
datatype XboxAxis = kLeftX | kLeftY | kLeftTrigger | kRightTrigger | kRightX | kRightY

definition xbox_button_number :: "XboxButton \<Rightarrow> int" where
  "xbox_button_number b = (case b of kA \<Rightarrow> 1 | kB \<Rightarrow> 2 | kX \<Rightarrow> 3 | kY \<Rightarrow> 4 | kLeftBumper \<Rightarrow> 5 | kRightBumper \<Rightarrow> 6
     | kBack \<Rightarrow> 7 | kStart \<Rightarrow> 8 | kLeftStick \<Rightarrow> 9 | kRightStick \<Rightarrow> 10)"

definition xbox_axis_number :: "XboxAxis \<Rightarrow> int" where
  "xbox_axis_number a = (case a of kLeftX \<Rightarrow> 0 | kLeftY \<Rightarrow> 1 | kLeftTrigger \<Rightarrow> 2 | kRightTrigger \<Rightarrow> 3 | kRightX \<Rightarrow> 4
     | kRightY \<Rightarrow> 5)"

text \<open>The getters of the ten buttons and the six axes are families over the button and the axis.\<close>

definition xbox_getAxis :: "XboxAxis \<Rightarrow> int \<Rightarrow> FRCDriverStation \<Rightarrow> fault + real" where
  "xbox_getAxis a port ds = getRawAxis port (xbox_axis_number a) ds"

definition xbox_getButton :: "XboxButton \<Rightarrow> int \<Rightarrow> FRCDriverStation \<Rightarrow> fault + bool" where
  "xbox_getButton b port ds = getRawButton port (xbox_button_number b) ds"

definition xbox_getButtonPressed :: "XboxButton \<Rightarrow> int \<Rightarrow> DS_Instance \<Rightarrow> fault + bool \<times> DS_Instance" where
  "xbox_getButtonPressed b port = getRawButtonPressed port (xbox_button_number b)"

definition xbox_getButtonReleased :: "XboxButton \<Rightarrow> int \<Rightarrow> DS_Instance \<Rightarrow> fault + bool \<times> DS_Instance" where
  "xbox_getButtonReleased b port = getRawButtonReleased port (xbox_button_number b)"

definition xbox_event :: "XboxButton \<Rightarrow> FRCDriverStation \<Rightarrow> int \<Rightarrow> 'a hid_loop \<Rightarrow> fault + BooleanEvent \<times> 'a hid_loop" where
  "xbox_event b ds port = hid_event ds port (ButtonSignal (xbox_button_number b))"

definition xbox_leftTrigger_at :: "double \<Rightarrow> FRCDriverStation \<Rightarrow> int \<Rightarrow> 'a hid_loop \<Rightarrow> fault + BooleanEvent \<times> 'a hid_loop" where
  "xbox_leftTrigger_at threshold ds port = hid_event ds port (AxisGreater (xbox_axis_number kLeftTrigger) threshold)"

definition xbox_leftTrigger :: "FRCDriverStation \<Rightarrow> int \<Rightarrow> 'a hid_loop \<Rightarrow> fault + BooleanEvent \<times> 'a hid_loop" where
  "xbox_leftTrigger = xbox_leftTrigger_at (Fin (1 / 2))"

definition xbox_rightTrigger_at :: "double \<Rightarrow> FRCDriverStation \<Rightarrow> int \<Rightarrow> 'a hid_loop \<Rightarrow> fault + BooleanEvent \<times> 'a hid_loop" where
  "xbox_rightTrigger_at threshold ds port = hid_event ds port (AxisGreater (xbox_axis_number kRightTrigger) threshold)"

definition xbox_rightTrigger :: "FRCDriverStation \<Rightarrow> int \<Rightarrow> 'a hid_loop \<Rightarrow> fault + BooleanEvent \<times> 'a hid_loop" where
  "xbox_rightTrigger = xbox_rightTrigger_at (Fin (1 / 2))"

section \<open>Properties\<close>

text \<open>An event made last on a loop has, after a poll, the value of its signal.\<close>

lemma new_event_polled:
  assumes "hid_event ds0 port sig h = Inr (e, h')" "hid_poll ds port h' = Inr (as, h'')"
  shows "\<exists>b. hid_value ds port sig = Inr b \<and> getAsBoolean e (hl_loop h'') = Inr b"
proof -
  let ?n = "length (hl_signals h)" and ?env = "signal_env ds port (hl_signals h @ [sig])"
  let ?c = "length (ev_cells (hl_loop h))"
  have e: "be_state e = ?c" "hl_signals h' = hl_signals h @ [sig]"
    "m_bindings (hl_loop h') = m_bindings (hl_loop h) @ [SetState (Raw (int ?n)) ?c]"
    using assms(1) by (auto simp: hid_event_def bindR_Inr_iff BooleanEvent_ctor_def Let_def bind_def)
  obtain u l where p: "foldR (\<lambda>sig u. bindR (hid_value ds port sig) (\<lambda>_. Inr u)) (hl_signals h @ [sig]) () = Inr u"
    "poll ?env (hl_loop h') = Inr (as, l)" "hl_loop h'' = l"
    using assms(2) by (auto simp: hid_poll_def e(2) bindR_Inr_iff)
  obtain b where b: "hid_value ds port sig = Inr b" using p(1) by (auto simp: foldR_append bindR_Inr_iff)
  obtain bs cs where r: "run_bindings ?env (ev_locals (hl_loop h')) (m_bindings (hl_loop h) @ [SetState (Raw (int ?n)) ?c])
      (ev_cells (hl_loop h')) = Inr (bs, cs, as)" "ev_cells l = cs"
    using p(2) by (auto simp: poll_def e(3) bindR_Inr_iff)
  obtain cs1 where "arr_set cs1 ?c (?env (int ?n)) = Inr cs"
    using r(1) by (auto simp: run_bindings_append run_binding_def bindR_Inr_iff)
  moreover have "?env (int ?n) = b" by (simp add: signal_env_def b)
  ultimately have "cs ! ?c = b" "?c < length cs" by (auto simp: arr_set_def split: if_splits)
  then show ?thesis using b by (simp add: getAsBoolean_def arr_get_def e(1) p(3) r(2))
qed

text \<open>The downward directions of a hat never reach the robot's events.  When the robot reads a
  packet of the driver-station generator, the event of a direction is high exactly if the hat points
  that way and the direction is none of down, down-right and down-left.\<close>

theorem pov_events_of_packet:
  assumes "create_robot_packet fl t g = Inr (p, g')" "5 < sent_robot_packets g" "send_time_data g \<noteq> 0"
    "0 < g_joystick_count g" "j = g_joysticks g ! 0" "0 \<le> num_axes j" "num_axes j \<le> 6"
    "0 \<le> num_buttons j" "num_buttons j \<le> 16" "0 \<le> num_hats j" "num_hats j \<le> 4" "cache_wf c"
    "\<forall>a \<in> set (js_hats j). 0 \<le> a \<and> a \<le> 360" "length (js_hats j) = 4" "0 < num_hats j"
    "JoystickDataCache_Update rnd fl' p c = Inr c'" "currentRead ds < length (caches ds)" "caches ds ! currentRead ds = c'"
    "hid_pov_direction d ds0 0 h = Inr (e, h')" "hid_poll ds 0 h' = Inr (as, h'')"
  shows "getAsBoolean e (hl_loop h'') = Inr (js_hats j ! 0 = direction_angle d \<and> d \<notin> {PovDown, PovDownRight, PovDownLeft})"
proof -
  let ?a = "js_hats j ! 0"
  have u: "povs (jc_povs c' ! 0) = put_prefix (map (\<lambda>i. pov_value (word_of_int (drop_bit 8 (js_hats j ! i)), word_of_int (js_hats j ! i)))
      [0..<nat (num_hats j)]) (povs (jc_povs c ! 0))"
    by (rule generated_update [OF assms(1-12), of rnd fl']) (use assms(16) in simp)
  have v: "povs (jc_povs c' ! 0) ! 0 = (if bit ?a 7 then ?a - 256 else ?a)"
    using generated_pov [OF u assms(13,14,11), of 0] assms(15) by (simp add: Let_def)
  have len: "0 < length (povs (jc_povs c' ! 0))" using u assms(15) by (simp add: put_prefix_def)
  obtain b where b: "hid_value ds 0 (PovSignal 0 (direction_angle d)) = Inr b" "getAsBoolean e (hl_loop h'') = Inr b"
    using new_event_polled [OF assms(19) [unfolded hid_pov_direction_def hid_pov_def hid_pov_of_def] assms(20)] by blast
  have "b = (povs (jc_povs c' ! 0) ! 0 = direction_angle d)"
    using b(1) assms(17,18)
    by (auto simp: hid_value_def getPOV_def getStickPOV_def HAL_GetJoystickPOVs_def cache_read_def bindR_Inr_iff arr_get_def
        split: if_splits)
  moreover have "?a - 256 \<noteq> direction_angle d" if "bit ?a 7"
  proof -
    have "?a \<in> set (js_hats j)" using assms(14) by simp
    then have r: "0 \<le> ?a" "?a \<le> 360" using assms(13) by auto
    have "odd (?a div 128)" using that by (simp add: bit_iff_odd)
    then have "?a < 256" using r by presburger
    then show ?thesis by (cases d) (simp_all add: direction_angle_def)
  qed
  moreover have "bit (direction_angle d) 7 \<longleftrightarrow> d \<in> {PovDown, PovDownRight, PovDownLeft}"
    by (cases d) (simp_all add: direction_angle_def)
  ultimately have "b \<longleftrightarrow> ?a = direction_angle d \<and> d \<notin> {PovDown, PovDownRight, PovDownLeft}" unfolding v by auto
  then show ?thesis using b(2) by simp
qed

theorem pov_events_of_packet_witness:
  "\<exists>ds c' e h' as h'' :: unit hid_loop. caches ds ! currentRead ds = c' \<and> povs (jc_povs c' ! 0) ! 0 = 90 \<and>
    hid_pov_direction PovRight ds 0 \<lparr>hl_loop = EventLoop_init, hl_signals = []\<rparr> = Inr (e, h') \<and>
    hid_poll ds 0 h' = Inr (as, h'') \<and> getAsBoolean e (hl_loop h'') = Inr True"
proof -
  let ?t = "\<lparr>tm_sec = 0, tm_min = 0, tm_hour = 0, tm_yday = 0, tm_mon = 0, tm_year = 70, tm_zone_size = 3\<rparr>"
  obtain p g' where p: "create_robot_packet (\<lambda>x. x) ?t test5_generator = Inr (p, g')" using test5_packet by blast
  have g: "5 < sent_robot_packets test5_generator" "send_time_data test5_generator \<noteq> 0" "0 < g_joystick_count test5_generator"
    "test5_joystick = g_joysticks test5_generator ! 0" by (simp_all add: test5_generator_def)
  have j: "0 \<le> num_axes test5_joystick" "num_axes test5_joystick \<le> 6" "0 \<le> num_buttons test5_joystick"
    "num_buttons test5_joystick \<le> 16" "0 \<le> num_hats test5_joystick" "num_hats test5_joystick \<le> 4" "0 < num_hats test5_joystick"
    "\<forall>a \<in> set (js_hats test5_joystick). 0 \<le> a \<and> a \<le> 360" "length (js_hats test5_joystick) = 4" "js_hats test5_joystick ! 0 = 90"
    by (simp_all add: test5_joystick_def)
  have wf: "cache_wf JoystickDataCache_zero" by (simp add: cache_wf_def JoystickDataCache_zero_def HAL_kMaxJoysticks_def)
  obtain c' where u: "JoystickDataCache_Update rnd64 rnd64 p JoystickDataCache_zero = Inr c'"
    "povs (jc_povs c' ! 0) = put_prefix (map (\<lambda>i. pov_value (word_of_int (drop_bit 8 (js_hats test5_joystick ! i)),
      word_of_int (js_hats test5_joystick ! i))) [0..<nat (num_hats test5_joystick)]) (povs (jc_povs JoystickDataCache_zero ! 0))"
    by (rule generated_update [OF p g j(1-6) wf, of rnd64 rnd64])
  have v: "povs (jc_povs c' ! 0) ! 0 = 90"
    using generated_pov [OF u(2) j(8,9,6), of 0] j(7,10) by (simp add: Let_def)
  have "0 < length (jc_povs c')" using Update_wf [OF u(1) wf] by (simp add: cache_wf_def)
  moreover have "0 < length (povs (jc_povs c' ! 0))" using u(2) j(7) by (simp add: put_prefix_def)
  moreover define ds where "ds = FRCDriverStation_init\<lparr>caches := [c', c', c']\<rparr>"
  ultimately have r: "hid_value ds 0 (PovSignal 0 90) = Inr True"
    by (simp add: hid_value_def getPOV_def getStickPOV_def HAL_GetJoystickPOVs_def cache_read_def arr_get_def
        FRCDriverStation_init_def HAL_kMaxJoysticks_def v)
  let ?h = "\<lparr>hl_loop = EventLoop_init, hl_signals = []\<rparr> :: unit hid_loop"
  obtain e h' as h'' where e: "hid_pov_direction PovRight ds 0 ?h = Inr (e, h')" "hid_poll ds 0 h' = Inr (as, h'')"
    using r by (simp add: hid_pov_direction_def hid_pov_def hid_pov_of_def direction_angle_def hid_event_def hid_poll_def
        BooleanEvent_ctor_def EventLoop_init_def bind_def poll_def run_binding_def arr_set_def Let_def)
  have d: "currentRead ds < length (caches ds)" "caches ds ! currentRead ds = c'"
    by (simp_all add: ds_def FRCDriverStation_init_def)
  show ?thesis
    using pov_events_of_packet [OF p g j(1-6) wf j(8,9,7) u(1) d e] d(2) v e j(10) by (auto simp: direction_angle_def)
qed

end
