(* ===== verification/Robot.thy ===== *)
theory Robot
  imports Subsystem Gamepad TimedRobot ImuReader Logger
begin

text \<open>
  \<open>src/Robot.cpp\<close>: the supervisor that owns the shared memory, the legs, the inertial sensor, the
  composer and the logger.  The motors, the network and the mapped shared memory are the
  \<^typ>\<open>leg_world\<close>; a leg's thread state and its message queue stand beside the leg.  Results of
  system calls, clock readings and button readings are arguments.
\<close>

section \<open>State\<close>

datatype robot_action = EnableLeft | DisableLeft | EnableRight | DisableRight | EnableAll | EmergencyStop

record Robot =
  rb_loop :: "robot_action EventLoop"
  rb_left :: Legged
  rb_right :: Legged
  rb_leftBase :: ControlledSubsystemBase
  rb_rightBase :: ControlledSubsystemBase
  rb_leftQueue :: "u8 Fifo"
  rb_rightQueue :: "u8 Fifo"
  rb_imu :: ImuReader
  rb_shm :: bool
  rb_composer :: "Composer option"
  rb_logger :: "Logger option"
  rb_mqtt :: bool
  rb_cycle :: u64
  rb_imu_stale_counter :: u32
  rb_lastRobotStartNs :: u64

section \<open>Buttons\<close>

definition makeSubsystemMessage :: "message_type \<Rightarrow> u8" where
  "makeSubsystemMessage t = (case t of MSG_ENABLE_SUBSYSTEM \<Rightarrow> 0x10 | MSG_DISABLE_SUBSYSTEM \<Rightarrow> 0x11
     | MSG_EMERGENCY_STOP \<Rightarrow> 0x12 | MSG_other x \<Rightarrow> x)"

definition message_left :: "message_type \<Rightarrow> Robot \<Rightarrow> Robot" where
  "message_left t rb = rb\<lparr>rb_leftQueue := fifo_push (makeSubsystemMessage t) (rb_leftQueue rb)\<rparr>"

definition message_right :: "message_type \<Rightarrow> Robot \<Rightarrow> Robot" where
  "message_right t rb = rb\<lparr>rb_rightQueue := fifo_push (makeSubsystemMessage t) (rb_rightQueue rb)\<rparr>"

definition on_shm ::
    "(SharedMemoryLayout \<Rightarrow> fault + SharedMemoryLayout) \<Rightarrow> 'z leg_world_scheme \<Rightarrow> fault + 'z leg_world_scheme" where
  "on_shm f w = (case w_shm w of None \<Rightarrow> Inl NullDeref
     | Some shm \<Rightarrow> bindR (f shm) (\<lambda>shm'. Inr (w\<lparr>w_shm := Some shm'\<rparr>)))"

definition raise_stop :: "'z leg_world_scheme \<Rightarrow> fault + 'z leg_world_scheme" where
  "raise_stop w = on_shm (\<lambda>shm. Inr (shm\<lparr>emergency_stop := True\<rparr>)) w"

fun run_action :: "robot_action \<Rightarrow> Robot \<times> 'z leg_world_scheme \<Rightarrow> fault + Robot \<times> 'z leg_world_scheme" where
  "run_action EnableLeft (rb, w) = Inr (message_left MSG_ENABLE_SUBSYSTEM rb, w)"
| "run_action DisableLeft (rb, w) = Inr (message_left MSG_DISABLE_SUBSYSTEM rb, w)"
| "run_action EnableRight (rb, w) = Inr (message_right MSG_ENABLE_SUBSYSTEM rb, w)"
| "run_action DisableRight (rb, w) = Inr (message_right MSG_DISABLE_SUBSYSTEM rb, w)"
| "run_action EnableAll (rb, w) = Inr (message_right MSG_ENABLE_SUBSYSTEM (message_left MSG_ENABLE_SUBSYSTEM rb), w)"
| "run_action EmergencyStop (rb, w) =
     bindR (if rb_shm rb then raise_stop w else Inr w) (\<lambda>w'.
       Inr (message_right MSG_EMERGENCY_STOP (message_left MSG_EMERGENCY_STOP rb), w'))"

text \<open>\<open>std::stoi\<close>: leading white space, a sign, then at least one digit; an \<open>int\<close> result or an exception.\<close>

definition is_space :: "char \<Rightarrow> bool" where
  "is_space c \<longleftrightarrow> (of_char c :: nat) \<in> {9, 10, 11, 12, 13, 32}"

definition is_digit :: "char \<Rightarrow> bool" where
  "is_digit c \<longleftrightarrow> 48 \<le> (of_char c :: nat) \<and> (of_char c :: nat) \<le> 57"

definition stoi :: "string \<Rightarrow> int option" where
  "stoi s =
     (let s1 = dropWhile is_space s;
          neg = (s1 \<noteq> [] \<and> hd s1 = CHR ''-'');
          s2 = (if s1 \<noteq> [] \<and> (hd s1 = CHR ''-'' \<or> hd s1 = CHR ''+'') then tl s1 else s1);
          ds = takeWhile is_digit s2;
          v = foldl (\<lambda>a c. 10 * a + (int (of_char c) - 48)) 0 ds;
          r = (if neg then - v else v)
      in if ds = [] \<or> r < - (2 ^ 31) \<or> 2 ^ 31 \<le> r then None else Some r)"

text \<open>The map of buttons, in the order of its keys.\<close>

definition buttonNumber :: "(string \<times> string) list \<Rightarrow> string \<Rightarrow> int" where
  "buttonNumber dsButtons action =
     (case find (\<lambda>kv. snd kv = action) dsButtons of
        None \<Rightarrow> -1
      | Some kv \<Rightarrow> (case stoi (fst kv) of None \<Rightarrow> -1 | Some n \<Rightarrow> n))"

definition button_or :: "int \<Rightarrow> (string \<times> string) list \<Rightarrow> string \<Rightarrow> int" where
  "button_or dflt dsButtons action = (let n = buttonNumber dsButtons action in if n \<le> 0 then dflt else n)"

definition rising_action ::
    "(int \<Rightarrow> bool) \<Rightarrow> BooleanEvent \<Rightarrow> 'a \<Rightarrow> 'a EventLoop \<Rightarrow> fault + 'a EventLoop" where
  "rising_action env e a l = bindR (rising env e l) (\<lambda>(r, l1). Inr (ifHigh r a l1))"

text \<open>A chord: the second button is a local variable that the lambda captures by reference.\<close>

definition chord ::
    "(int \<Rightarrow> bool) \<Rightarrow> int \<Rightarrow> int \<Rightarrow> nat \<Rightarrow> 'a \<Rightarrow> 'a EventLoop \<Rightarrow> fault + 'a EventLoop" where
  "chord env b1 b2 v a l =
     bindR (BooleanEvent_ctor env (Raw b1) l) (\<lambda>(e1, l1).
     bindR (BooleanEvent_ctor env (Raw b2) l1) (\<lambda>(e2, l2).
     bindR (op_and env e1 (RefTo v) (l2\<lparr>ev_locals := (ev_locals l2)(v \<mapsto> be_state e2)\<rparr>)) (\<lambda>(both, l3).
       rising_action env both a l3)))"

text \<open>The event part of \<open>robotInit\<close>; when it returns, its local variables are gone.\<close>

definition wire_buttons ::
    "(int \<Rightarrow> bool) \<Rightarrow> (string \<times> string) list \<Rightarrow> robot_action EventLoop \<Rightarrow> fault + robot_action EventLoop" where
  "wire_buttons env dsButtons l =
     bindR (BooleanEvent_ctor env (Raw (button_or 1 dsButtons ''enable_left_leg'')) l) (\<lambda>(enableLeft, l1).
     bindR (BooleanEvent_ctor env (Raw (button_or 2 dsButtons ''disable_left_leg'')) l1) (\<lambda>(disableLeft, l2).
     bindR (BooleanEvent_ctor env (Raw (button_or 3 dsButtons ''enable_right_leg'')) l2) (\<lambda>(enableRight, l3).
     bindR (BooleanEvent_ctor env (Raw (button_or 4 dsButtons ''disable_right_leg'')) l3) (\<lambda>(disableRight, l4).
     bindR (rising_action env enableLeft EnableLeft l4) (\<lambda>l5.
     bindR (rising_action env disableLeft DisableLeft l5) (\<lambda>l6.
     bindR (rising_action env enableRight EnableRight l6) (\<lambda>l7.
     bindR (rising_action env disableRight DisableRight l7) (\<lambda>l8.
     bindR (chord env 5 6 0 EnableAll l8) (\<lambda>l9.
     bindR (chord env 7 8 1 EmergencyStop l9) (\<lambda>l10.
       Inr (l10\<lparr>ev_locals := Map.empty\<rparr>)))))))))))"

section \<open>Life cycle of the shared memory\<close>

definition created_shm :: SharedMemoryLayout where
  "created_shm = SharedMemoryLayout_zero
     \<lparr>version := SHM_VERSION, num_joints := of_nat NUM_ACT_JOINT, control_freq_hz := 200, robot_id := 1,
      emergency_stop := False, controller_emergency_stop := False,
      motor_can_ids := map (\<lambda>i. of_nat (i + 1)) [0..<NUM_ACT_JOINT],
      lifecycle_state := lifecycle_code RUNNING, magic := SHM_MAGIC\<rparr>"

record attach_sys =
  at_imu :: imu_config
  at_imu_ok :: bool
  at_left_ok :: bool
  at_right_ok :: bool
  at_now :: u64
  at_composer_rc :: int
  at_mqtt :: bool
  at_robotId :: u32
  at_downsample :: u64
  at_logger_ok :: bool

definition attachSharedMemory :: "attach_sys \<Rightarrow> Robot \<Rightarrow> Robot" where
  "attachSharedMemory a rb =
     (if \<not> rb_shm rb then rb
      else let rb1 = rb\<lparr>rb_imu := imu_start (at_imu a) (at_imu_ok a) (setStagingBuffer True (rb_imu rb)),
                        rb_left := setShmPointers True (Some StageA) (rb_left rb),
                        rb_right := setShmPointers True (Some StageB) (rb_right rb),
                        rb_leftBase := startThread (at_left_ok a) (rb_leftBase rb),
                        rb_rightBase := startThread (at_right_ok a) (rb_rightBase rb),
                        rb_composer := Some (composer_start (at_now a) (at_composer_rc a) Composer_init),
                        rb_mqtt := at_mqtt a\<rparr>
           in if at_mqtt a
              then rb1\<lparr>rb_logger := Some (logger_start (at_logger_ok a) (Logger_ctor (at_robotId a) (at_downsample a)))\<rparr>
              else rb1)"

definition leg_enable_left ::
    "bool \<Rightarrow> Robot \<times> 'z leg_world_scheme \<Rightarrow> fault + Robot \<times> 'z leg_world_scheme" where
  "leg_enable_left en = (\<lambda>(rb, w). bindR (setEnable en (rb_left rb) w) (\<lambda>(l, w'). Inr (rb\<lparr>rb_left := l\<rparr>, w')))"

definition leg_enable_right ::
    "bool \<Rightarrow> Robot \<times> 'z leg_world_scheme \<Rightarrow> fault + Robot \<times> 'z leg_world_scheme" where
  "leg_enable_right en = (\<lambda>(rb, w). bindR (setEnable en (rb_right rb) w) (\<lambda>(l, w'). Inr (rb\<lparr>rb_right := l\<rparr>, w')))"

text \<open>Steps 1 to 4 of \<open>detachSharedMemory\<close>, up to the unmapping.\<close>

definition stop_all :: "Robot \<times> 'z leg_world_scheme \<Rightarrow> fault + Robot \<times> 'z leg_world_scheme" where
  "stop_all = (\<lambda>(rb, w).
     bindR (leg_enable_left False (rb\<lparr>rb_shm := False, rb_imu := imu_shutdown (rb_imu rb)\<rparr>, w)) (\<lambda>s1.
     bindR (leg_enable_right False s1) (\<lambda>(rb2, w2).
       let rb3 = rb2\<lparr>rb_leftBase := fst (stopThread (rb_leftBase rb2, 0)),
                     rb_rightBase := fst (stopThread (rb_rightBase rb2, 0))\<rparr>;
           rb4 = rb3\<lparr>rb_left := setShmPointers False None (rb_left rb3),
                     rb_right := setShmPointers False None (rb_right rb3),
                     rb_imu := setStagingBuffer False (rb_imu rb3)\<rparr>
       in Inr (rb4\<lparr>rb_logger := None, rb_composer := None\<rparr>, w2))))"

definition detachSharedMemory :: "Robot \<times> 'z leg_world_scheme \<Rightarrow> fault + Robot \<times> 'z leg_world_scheme" where
  "detachSharedMemory = (\<lambda>(rb, w).
     if \<not> rb_shm rb then Inr (rb, w)
     else bindR (stop_all (rb, w)) (\<lambda>(rb1, w1). Inr (rb1\<lparr>rb_imu_stale_counter := 0\<rparr>, w1\<lparr>w_shm := None\<rparr>)))"

record init_sys =
  is_shm_open :: bool
  is_fchmod :: bool
  is_ftruncate :: bool
  is_mmap :: bool
  is_attach :: attach_sys

definition robotInit ::
    "init_sys \<Rightarrow> (int \<Rightarrow> bool) \<Rightarrow> (string \<times> string) list \<Rightarrow> Robot \<times> 'z leg_world_scheme \<Rightarrow>
     fault + Robot \<times> 'z leg_world_scheme" where
  "robotInit sys env dsButtons = (\<lambda>(rb, w).
     let w1 = setParamCache 1 (setParamCache 0 w) in
     if \<not> is_shm_open sys \<or> \<not> is_fchmod sys \<or> \<not> is_ftruncate sys \<or> \<not> is_mmap sys then Inl ExitFailure
     else let rb1 = attachSharedMemory (is_attach sys) (rb\<lparr>rb_shm := True\<rparr>) in
       bindR (wire_buttons env dsButtons (rb_loop rb1)) (\<lambda>l.
         Inr (rb1\<lparr>rb_loop := l\<rparr>, w1\<lparr>w_shm := Some created_shm\<rparr>)))"

definition store_lifecycle :: "ShmLifecycle \<Rightarrow> Robot \<times> 'z leg_world_scheme \<Rightarrow> fault + Robot \<times> 'z leg_world_scheme" where
  "store_lifecycle st = (\<lambda>(rb, w).
     if rb_shm rb then bindR (on_shm (\<lambda>shm. Inr (shm\<lparr>lifecycle_state := lifecycle_code st\<rparr>)) w) (\<lambda>w'. Inr (rb, w'))
     else Inr (rb, w))"

definition Robot_dtor ::
    "sys_results \<Rightarrow> Robot \<times> 'z leg_world_scheme \<Rightarrow> fault + Robot \<times> 'z leg_world_scheme" where
  "Robot_dtor r s =
     bindR (store_lifecycle SHUTTING_DOWN s) (\<lambda>s1.
     bindR (store_lifecycle TERMINATED s1) (\<lambda>s2.
     bindR (detachSharedMemory s2) (\<lambda>(rb, w).
       Inr (rb, snd (udp_close r 1 (snd (udp_close r 0 w)))))))"

section \<open>Modes and the supervisory cycle\<close>

datatype subsystem = LeftLeg | RightLeg | ImuSub

definition m_subsystems :: "subsystem list" where
  "m_subsystems = SubsystemBase_ctor ImuSub (SubsystemBase_ctor RightLeg (SubsystemBase_ctor LeftLeg []))"

definition sub_enable :: "subsystem \<Rightarrow> Robot \<times> 'z leg_world_scheme \<Rightarrow> fault + Robot \<times> 'z leg_world_scheme" where
  "sub_enable p s = (case p of LeftLeg \<Rightarrow> leg_enable_left True s | RightLeg \<Rightarrow> leg_enable_right True s
     | ImuSub \<Rightarrow> Inr s)"

definition sub_robotPeriodic ::
    "bytes \<Rightarrow> subsystem \<Rightarrow> Robot \<times> 'z leg_world_scheme \<Rightarrow> fault + Robot \<times> 'z leg_world_scheme" where
  "sub_robotPeriodic junk p = (\<lambda>(rb, w). case p of
       LeftLeg \<Rightarrow> bindR (leg_robotPeriodic junk (rb_left rb) w) (\<lambda>(l, w'). Inr (rb\<lparr>rb_left := l\<rparr>, w'))
     | RightLeg \<Rightarrow> bindR (leg_robotPeriodic junk (rb_right rb) w) (\<lambda>(l, w'). Inr (rb\<lparr>rb_right := l\<rparr>, w'))
     | ImuSub \<Rightarrow> Inr (rb, w))"

text \<open>\<open>autonomousInit\<close> and \<open>teleopInit\<close> do the same.\<close>

definition Robot_modeInit :: "Robot \<times> 'z leg_world_scheme \<Rightarrow> fault + Robot \<times> 'z leg_world_scheme" where
  "Robot_modeInit = (\<lambda>(rb, w).
     runAll sub_enable m_subsystems
       (message_right MSG_ENABLE_SUBSYSTEM (message_left MSG_ENABLE_SUBSYSTEM rb), w))"

definition check_imu :: "u8 \<Rightarrow> Robot \<times> 'z leg_world_scheme \<Rightarrow> fault + Robot \<times> 'z leg_world_scheme" where
  "check_imu stale = (\<lambda>(rb, w).
     if stale AND STALE_IMU \<noteq> 0 then
       (let rb1 = rb\<lparr>rb_imu_stale_counter := rb_imu_stale_counter rb + 1\<rparr>
        in if 20 < rb_imu_stale_counter rb1 then bindR (raise_stop w) (\<lambda>w'. Inr (rb1, w')) else Inr (rb1, w))
     else Inr (rb\<lparr>rb_imu_stale_counter := 0\<rparr>, w))"

definition check_legs :: "u8 \<Rightarrow> Robot \<times> 'z leg_world_scheme \<Rightarrow> fault + Robot \<times> 'z leg_world_scheme" where
  "check_legs stale s =
     bindR (if stale AND STALE_MOTOR_GROUP_A \<noteq> 0 then leg_enable_left False s else Inr s) (\<lambda>s1.
       if stale AND STALE_MOTOR_GROUP_B \<noteq> 0 then leg_enable_right False s1 else Inr s1)"

definition check_commands :: "u64 \<Rightarrow> 'z leg_world_scheme \<Rightarrow> fault + 'z leg_world_scheme" where
  "check_commands now_ns w =
     (case w_shm w of None \<Rightarrow> Inl NullDeref
      | Some shm \<Rightarrow>
          if cmd_write_idx shm \<le> 1 then
            bindR (arr_get (cmd_buffers shm) (unat (cmd_write_idx shm))) (\<lambda>cmd.
              let cmd_ts = c_timestamp_ns cmd in
              if 0 < cmd_ts \<and> (now_ns < cmd_ts \<or> HEARTBEAT_STALE_NS < now_ns - cmd_ts) then raise_stop w else Inr w)
          else Inr w)"

definition check_controller :: "'z leg_world_scheme \<Rightarrow> fault + 'z leg_world_scheme" where
  "check_controller w =
     (case w_shm w of None \<Rightarrow> Inl NullDeref
      | Some shm \<Rightarrow> if controller_emergency_stop shm then raise_stop w else Inr w)"

definition health_check ::
    "u64 \<Rightarrow> u64 \<Rightarrow> Robot \<times> 'z leg_world_scheme \<Rightarrow> fault + Robot \<times> 'z leg_world_scheme" where
  "health_check now now_ns = (\<lambda>(rb, w).
     case rb_composer rb of
       None \<Rightarrow> Inr (rb, w)
     | Some c \<Rightarrow>
         if \<not> rb_shm rb then Inr (rb, w)
         else let stale = check_staleness now c in
           bindR (check_imu stale (rb, w)) (\<lambda>s1.
           bindR (check_legs stale s1) (\<lambda>(rb2, w2).
           bindR (check_commands now_ns w2) (\<lambda>w3.
           bindR (check_controller w3) (\<lambda>w4. Inr (rb2, w4))))))"

definition query_parameter :: "bytes \<Rightarrow> Robot \<times> 'z leg_world_scheme \<Rightarrow> fault + Robot \<times> 'z leg_world_scheme" where
  "query_parameter junk = (\<lambda>(rb, w).
     if rb_cycle rb mod 10 \<noteq> 0 then Inr (rb, w)
     else let motor_idx = unat ((rb_cycle rb div 10) mod of_nat NUM_ACT_JOINT);
              ms = (if motor_idx < MOTORS_PER_GROUP then l_motors (rb_left rb) else l_motors (rb_right rb));
              i = (if motor_idx < MOTORS_PER_GROUP then motor_idx else motor_idx - MOTORS_PER_GROUP)
          in if i < length ms then bindR (getRegParam junk (ms ! i) 21 w) (\<lambda>w'. Inr (rb, w')) else Inr (rb, w))"

definition robotPeriodic ::
    "u64 \<Rightarrow> (int \<Rightarrow> bool) \<Rightarrow> u64 \<Rightarrow> u64 \<Rightarrow> bytes \<Rightarrow> Robot \<times> 'z leg_world_scheme \<Rightarrow> fault + Robot \<times> 'z leg_world_scheme" where
  "robotPeriodic rp_start env now now_ns junk = (\<lambda>(rb, w).
     bindR (poll env (rb_loop rb)) (\<lambda>(actions, l).
     bindR (foldR run_action actions (rb\<lparr>rb_loop := l\<rparr>, w)) (\<lambda>s1.
     bindR (health_check now now_ns s1) (\<lambda>s2.
     bindR (query_parameter junk s2) (\<lambda>s3.
     bindR (runAll (sub_robotPeriodic junk) m_subsystems s3) (\<lambda>(rb4, w4).
       Inr (rb4\<lparr>rb_lastRobotStartNs := rp_start, rb_cycle := rb_cycle rb4 + 1\<rparr>, w4)))))))"


section \<open>Lemmas\<close>

definition robot_wired :: "Robot \<Rightarrow> 'z motor_world_scheme \<Rightarrow> bool" where
  "robot_wired rb w \<longleftrightarrow> leg_wired w (rb_left rb) \<and> leg_wired w (rb_right rb)"

lemma raise_stop_eq: "w_shm w = Some shm \<Longrightarrow> raise_stop w = Inr (w\<lparr>w_shm := Some (shm\<lparr>emergency_stop := True\<rparr>)\<rparr>)"
  by (simp add: raise_stop_def on_shm_def)

lemma same_leg_robot:
  assumes "same_leg (l, w) (l', w')" "leg_wired w k"
  shows "leg_wired w' k" "w_shm w' = w_shm w"
  using assms leg_wired_same [of w w' k] by (simp_all add: same_leg_def)

lemma enable_left_ok:
  assumes "robot_wired rb w"
  obtains l w' where "leg_enable_left en (rb, w) = Inr (rb\<lparr>rb_left := l\<rparr>, w')" "m_isEnabled l = en"
    "robot_wired (rb\<lparr>rb_left := l\<rparr>) w'" "w_shm w' = w_shm w"
proof -
  have wl: "leg_wired w (rb_left rb)" "leg_wired w (rb_right rb)" using assms by (simp_all add: robot_wired_def)
  obtain l w' where l: "setEnable en (rb_left rb) w = Inr (l, w')" "same_leg (rb_left rb, w) (l, w')" "m_isEnabled l = en"
    by (rule setEnable_ok [OF wl(1), of en])
  show thesis
    by (rule that [of l w']) (use l same_leg_robot [OF l(2) wl(2)] same_leg_wired [OF l(2) wl(1)] in
        \<open>simp_all add: leg_enable_left_def robot_wired_def\<close>)
qed

lemma enable_right_ok:
  assumes "robot_wired rb w"
  obtains l w' where "leg_enable_right en (rb, w) = Inr (rb\<lparr>rb_right := l\<rparr>, w')" "m_isEnabled l = en"
    "robot_wired (rb\<lparr>rb_right := l\<rparr>) w'" "w_shm w' = w_shm w"
proof -
  have wl: "leg_wired w (rb_left rb)" "leg_wired w (rb_right rb)" using assms by (simp_all add: robot_wired_def)
  obtain l w' where l: "setEnable en (rb_right rb) w = Inr (l, w')" "same_leg (rb_right rb, w) (l, w')" "m_isEnabled l = en"
    by (rule setEnable_ok [OF wl(2), of en])
  show thesis
    by (rule that [of l w']) (use l same_leg_robot [OF l(2) wl(1)] same_leg_wired [OF l(2) wl(2)] in
        \<open>simp_all add: leg_enable_right_def robot_wired_def\<close>)
qed

lemma w_shm_wired [simp]: "robot_wired rb (w\<lparr>w_shm := x\<rparr>) = robot_wired rb w"
  by (simp add: robot_wired_def leg_wired_def wired_def find_handle_def getInstance_def)

text \<open>The two checks that may stop a leg.\<close>

lemma check_legs_ok:
  assumes "robot_wired rb w"
  obtains rb' w' where "check_legs stale (rb, w) = Inr (rb', w')" "robot_wired rb' w'" "w_shm w' = w_shm w"
    "rb_imu_stale_counter rb' = rb_imu_stale_counter rb"
    "m_isEnabled (rb_left rb') \<longleftrightarrow> m_isEnabled (rb_left rb) \<and> stale AND STALE_MOTOR_GROUP_A = 0"
    "m_isEnabled (rb_right rb') \<longleftrightarrow> m_isEnabled (rb_right rb) \<and> stale AND STALE_MOTOR_GROUP_B = 0"
proof -
  obtain rb1 w1 where 1: "(if stale AND STALE_MOTOR_GROUP_A \<noteq> 0 then leg_enable_left False (rb, w) else Inr (rb, w)) = Inr (rb1, w1)"
    "robot_wired rb1 w1" "w_shm w1 = w_shm w" "rb_imu_stale_counter rb1 = rb_imu_stale_counter rb" "rb_right rb1 = rb_right rb"
    "m_isEnabled (rb_left rb1) \<longleftrightarrow> m_isEnabled (rb_left rb) \<and> stale AND STALE_MOTOR_GROUP_A = 0"
  proof (cases "stale AND STALE_MOTOR_GROUP_A = 0")
    case True
    then show ?thesis using that [of rb w] assms by simp
  next
    case False
    obtain l w' where "leg_enable_left False (rb, w) = Inr (rb\<lparr>rb_left := l\<rparr>, w')" "m_isEnabled l = False"
      "robot_wired (rb\<lparr>rb_left := l\<rparr>) w'" "w_shm w' = w_shm w" by (rule enable_left_ok [OF assms])
    then show ?thesis using that [of "rb\<lparr>rb_left := l\<rparr>" w'] False by simp
  qed
  show thesis
  proof (cases "stale AND STALE_MOTOR_GROUP_B = 0")
    case True
    then show ?thesis using that [of rb1 w1] 1 unfolding check_legs_def by simp
  next
    case False
    obtain l w' where r: "leg_enable_right False (rb1, w1) = Inr (rb1\<lparr>rb_right := l\<rparr>, w')" "m_isEnabled l = False"
      "robot_wired (rb1\<lparr>rb_right := l\<rparr>) w'" "w_shm w' = w_shm w1" by (rule enable_right_ok [OF 1(2)])
    show ?thesis
      by (rule that [of "rb1\<lparr>rb_right := l\<rparr>" w']) (use r 1 False in \<open>simp_all add: check_legs_def\<close>)
  qed
qed

text \<open>When the supervisor counts the command stream as dead.\<close>

definition commands_dead :: "u64 \<Rightarrow> SharedMemoryLayout \<Rightarrow> bool" where
  "commands_dead now_ns shm \<longleftrightarrow> cmd_write_idx shm \<le> 1 \<and>
     (let t = uint (c_timestamp_ns (cmd_buffers shm ! unat (cmd_write_idx shm))) in
      t \<noteq> 0 \<and> (uint now_ns < t \<or> t + 100000000 < uint now_ns))"

lemma idx_lt: "(i::u32) \<le> 1 \<Longrightarrow> unat i < 2"
  by (simp add: word_le_nat_alt)

lemma dead_word:
  "0 < t \<and> (now < t \<or> HEARTBEAT_STALE_NS < now - t) \<longleftrightarrow>
   uint t \<noteq> 0 \<and> (uint now < uint t \<or> uint t + 100000000 < uint now)"
proof -
  have "0 < t \<longleftrightarrow> uint t \<noteq> 0" by (metis uint_0_iff word_neq_0_conv)
  moreover have "HEARTBEAT_STALE_NS < now - t \<longleftrightarrow> uint t + 100000000 < uint now" if "t \<le> now"
    using age_word [OF that] by (auto simp: word_less_def HEARTBEAT_STALE_NS_def)
  ultimately show ?thesis by (cases "now < t") (auto simp: word_less_def word_le_def not_less)
qed

lemma check_commands_eq:
  assumes "w_shm w = Some shm" "length (cmd_buffers shm) = 2"
  shows "check_commands now_ns w =
    Inr (if commands_dead now_ns shm then w\<lparr>w_shm := Some (shm\<lparr>emergency_stop := True\<rparr>)\<rparr> else w)"
proof (cases "cmd_write_idx shm \<le> 1")
  case True
  let ?t = "c_timestamp_ns (cmd_buffers shm ! unat (cmd_write_idx shm))"
  have "0 < ?t \<and> (now_ns < ?t \<or> HEARTBEAT_STALE_NS < now_ns - ?t) \<longleftrightarrow> commands_dead now_ns shm"
    using True dead_word [of ?t now_ns] by (simp add: commands_dead_def Let_def)
  then show ?thesis
    using True assms idx_lt [OF True] by (simp add: check_commands_def arr_get_def Let_def raise_stop_eq)
qed (use assms in \<open>simp add: check_commands_def commands_dead_def\<close>)

section \<open>Properties\<close>

text \<open>C33: the supervisory check raises the emergency stop exactly when it was raised already, when the
  inertial data have been stale for more than twenty consecutive checks, when the command in
  use is older than 100 ms or from the future, or when the controller asked for it; it disables
  exactly the legs whose feedback is stale, and changes nothing else in the shared memory.\<close>

theorem robot_health_check:
  fixes now :: u64
  assumes "rb_shm rb" "rb_composer rb = Some c" "w_shm w = Some shm" "length (cmd_buffers shm) = 2" "robot_wired rb w"
  defines "stale \<equiv> check_staleness now c"
  defines "n_stale \<equiv> (if stale AND STALE_IMU \<noteq> 0 then rb_imu_stale_counter rb + 1 else 0)"
  shows "\<exists>rb' w'. health_check now now_ns (rb, w) = Inr (rb', w') \<and>
    w_shm w' = Some (shm\<lparr>emergency_stop :=
      emergency_stop shm \<or> 20 < n_stale \<or> commands_dead now_ns shm \<or> controller_emergency_stop shm\<rparr>) \<and>
    rb_imu_stale_counter rb' = n_stale \<and>
    (m_isEnabled (rb_left rb') \<longleftrightarrow> m_isEnabled (rb_left rb) \<and> stale AND STALE_MOTOR_GROUP_A = 0) \<and>
    (m_isEnabled (rb_right rb') \<longleftrightarrow> m_isEnabled (rb_right rb) \<and> stale AND STALE_MOTOR_GROUP_B = 0)"
proof -
  define shm1 where "shm1 = shm\<lparr>emergency_stop := emergency_stop shm \<or> 20 < n_stale\<rparr>"
  define rb1 where "rb1 = rb\<lparr>rb_imu_stale_counter := n_stale\<rparr>"
  define w1 where "w1 = w\<lparr>w_shm := Some shm1\<rparr>"
  have imu: "check_imu stale (rb, w) = Inr (rb1, w1)"
    using assms(3) raise_stop_eq [OF assms(3)]
    by (auto simp: check_imu_def n_stale_def rb1_def w1_def shm1_def Let_def)
  have "robot_wired rb1 w1" using assms(5) by (simp add: w1_def) (simp add: rb1_def robot_wired_def)
  then obtain rb2 w2 where 2: "check_legs stale (rb1, w1) = Inr (rb2, w2)" "w_shm w2 = w_shm w1"
    "rb_imu_stale_counter rb2 = rb_imu_stale_counter rb1"
    "m_isEnabled (rb_left rb2) \<longleftrightarrow> m_isEnabled (rb_left rb1) \<and> stale AND STALE_MOTOR_GROUP_A = 0"
    "m_isEnabled (rb_right rb2) \<longleftrightarrow> m_isEnabled (rb_right rb1) \<and> stale AND STALE_MOTOR_GROUP_B = 0"
    by (rule check_legs_ok [of rb1 w1 stale])
  define shm2 where "shm2 = shm1\<lparr>emergency_stop := emergency_stop shm1 \<or> commands_dead now_ns shm1\<rparr>"
  have w2: "w_shm w2 = Some shm1" using 2(2) by (simp add: w1_def)
  have c2: "check_commands now_ns w2 = Inr (w2\<lparr>w_shm := Some shm2\<rparr>)"
    using check_commands_eq [OF w2, of now_ns] assms(4) w2 by (auto simp: shm1_def shm2_def)
  let ?s = "shm2\<lparr>emergency_stop := emergency_stop shm2 \<or> controller_emergency_stop shm2\<rparr>"
  have "check_controller (w2\<lparr>w_shm := Some shm2\<rparr>) = Inr (w2\<lparr>w_shm := Some ?s\<rparr>)"
    by (auto simp: check_controller_def raise_stop_eq)
  then have "health_check now now_ns (rb, w) = Inr (rb2, w2\<lparr>w_shm := Some ?s\<rparr>)"
    using imu 2(1) c2 by (simp add: health_check_def assms(1,2) stale_def [symmetric] Let_def)
  moreover have "commands_dead now_ns shm1 = commands_dead now_ns shm" by (simp add: commands_dead_def shm1_def)
  then have "?s = shm\<lparr>emergency_stop :=
      emergency_stop shm \<or> 20 < n_stale \<or> commands_dead now_ns shm \<or> controller_emergency_stop shm\<rparr>"
    by (simp add: shm1_def shm2_def disj_assoc)
  ultimately show ?thesis using 2(3-5) by (simp add: rb1_def)
qed


definition demo_robot :: Robot where
  "demo_robot = \<lparr>rb_loop = EventLoop_init, rb_left = left_leg, rb_right = left_leg\<lparr>l_motors := [], m_motorResponsive := []\<rparr>,
     rb_leftBase = ControlledSubsystemBase_ctor True, rb_rightBase = ControlledSubsystemBase_ctor True,
     rb_leftQueue = Fifo_ctor True, rb_rightQueue = Fifo_ctor True, rb_imu = started_reader, rb_shm = True,
     rb_composer = Some Composer_init, rb_logger = None, rb_mqtt = False, rb_cycle = 0,
     rb_imu_stale_counter = 20, rb_lastRobotStartNs = 0\<rparr>"

lemma demo_robot_wired: "robot_wired demo_robot (left_world shm)"
  by (simp add: robot_wired_def demo_robot_def left_leg_ok) (simp add: leg_wired_def)

theorem robot_health_check_witness:
  "\<exists>rb' w'. health_check 7 8 (demo_robot, left_world live_shm) = Inr (rb', w') \<and>
    (\<exists>shm'. w_shm w' = Some shm' \<and> emergency_stop shm') \<and> \<not> m_isEnabled (rb_left rb')"
proof -
  have s: "check_staleness 7 Composer_init = 7"
    by (simp add: check_staleness_def Composer_init_def elapsed_ms_def IMU_STALE_TIMEOUT_MS_def
        MOTOR_GROUP_STALE_TIMEOUT_MS_def STALE_IMU_def STALE_MOTOR_GROUP_A_def STALE_MOTOR_GROUP_B_def)
  have r: "rb_shm demo_robot" "rb_composer demo_robot = Some Composer_init" "rb_imu_stale_counter demo_robot = 20"
    by (simp_all add: demo_robot_def)
  show ?thesis
    using robot_health_check [OF r(1,2) left_leg_ok(9) live_shm_ok(3) demo_robot_wired, of 7 8]
    unfolding s r(3) by (auto simp: STALE_IMU_def STALE_MOTOR_GROUP_A_def)
qed

text \<open>The emergency stop the supervisor raises does not reach the motors: with the flag set, an
  enabled leg whose shared memory is otherwise healthy and whose command is fresh still sends a
  control frame to every motor the command enables.\<close>

theorem emergency_flag_not_obeyed:
  assumes "l_shm l" "l_staging l = Some stg" "leg_ok l" "leg_wired w l" "w_shm w = Some shm"
    "\<not> faulted shm" "dbuf_wf group_wf (stage_of stg shm)" "length (cmd_buffers shm) = 2"
    "\<forall>c \<in> set (cmd_buffers shm). command_wf c"
    "emergency_stop shm" "m_isEnabled l" "cmd_write_idx shm \<le> 1" "\<not> commands_dead cp_start shm"
  shows "\<exists>l' w' ds. controllerPeriodic rnd64 cp_start clk cp_end l w = Inr (l', w') \<and> m_isEnabled l' \<and>
    sent w' = sent w @ ds \<and>
    length ds = length (filter (\<lambda>i. c_enabled (cmd_buffers shm ! unat (cmd_write_idx shm)) ! (nat (m_groupOffset l) + i) \<noteq> 0)
      [0..<length (l_motors l)])"
proof -
  obtain l' w' where r: "controllerPeriodic rnd64 cp_start clk cp_end l w = Inr (l', w')"
    "sent w' = sent w @ actuation cp_start shm l w" "m_isEnabled l' = m_isEnabled l"
    by (rule controllerPeriodic_ok [OF assms(1-9)]) blast
  have "\<not> 1 < cmd_write_idx shm" using assms(12) by simp
  then have "length (actuation cp_start shm l w) = length (filter
      (\<lambda>i. c_enabled (cmd_buffers shm ! unat (cmd_write_idx shm)) ! (nat (m_groupOffset l) + i) \<noteq> 0) [0..<length (l_motors l)])"
    using assms(11-13) by (auto simp: actuation_def commands_dead_def Let_def dispatched_def)
  then show ?thesis using r assms(11) by blast
qed

theorem emergency_flag_not_obeyed_witness:
  "\<exists>l' w'. controllerPeriodic rnd64 7 (\<lambda>_. 8) 9 left_leg (left_world (live_shm\<lparr>emergency_stop := True\<rparr>)) = Inr (l', w') \<and>
    length (sent w') = 12"
proof -
  let ?s = "live_shm\<lparr>emergency_stop := True\<rparr>"
  have en: "c_enabled (cmd_buffers live_shm ! 0) = replicate 12 1" "c_timestamp_ns (cmd_buffers live_shm ! 0) = 0"
    by (simp_all add: live_shm_def Command_zero_def)
  have f: "filter (\<lambda>i. replicate 12 (1 :: u8) ! i \<noteq> 0) [0..<6] = [0..<6]" by (rule filter_True) auto
  have s: "\<not> faulted ?s" "dbuf_wf group_wf (stage_of StageA ?s)" "length (cmd_buffers ?s) = 2"
    "\<forall>c \<in> set (cmd_buffers ?s). command_wf c" "emergency_stop ?s" "cmd_write_idx ?s \<le> 1" "\<not> commands_dead 7 ?s"
    using live_shm_ok en by (simp_all add: faulted_def stage_of_def commands_dead_def)
  show ?thesis
    using emergency_flag_not_obeyed [OF left_leg_ok(3,4,2,1,9) s(1-5) left_leg_ok(5) s(6,7), of "\<lambda>_. 8" 9]
    by (auto simp: left_leg_ok live_shm_ok(5) en f)
qed



text \<open>The bindings of \<open>robotInit\<close>: \<open>a\<close> to \<open>d\<close> are the four buttons, \<open>p\<close> the past values of the edge
  detectors.\<close>

definition wired_bindings :: "int \<Rightarrow> int \<Rightarrow> int \<Rightarrow> int \<Rightarrow> (nat \<Rightarrow> bool) \<Rightarrow> robot_action binding list" where
  "wired_bindings a b c d p =
     [SetState (Raw a) 0, SetState (Raw b) 1, SetState (Raw c) 2, SetState (Raw d) 3,
      SetState (RisingC 0 (p 0)) 4, IfHigh 4 EnableLeft, SetState (RisingC 1 (p 1)) 5, IfHigh 5 DisableLeft,
      SetState (RisingC 2 (p 2)) 6, IfHigh 6 EnableRight, SetState (RisingC 3 (p 3)) 7, IfHigh 7 DisableRight,
      SetState (Raw 5) 8, SetState (Raw 6) 9, SetState (AndC 8 (RefTo 0)) 10,
      SetState (RisingC 10 (p 10)) 11, IfHigh 11 EnableAll,
      SetState (Raw 7) 12, SetState (Raw 8) 13, SetState (AndC 12 (RefTo 1)) 14,
      SetState (RisingC 14 (p 14)) 15, IfHigh 15 EmergencyStop]"

lemma wire_buttons_bindings:
  "\<exists>cs p. wire_buttons env dsButtons EventLoop_init =
     Inr \<lparr>ev_cells = cs, m_bindings = wired_bindings (button_or 1 dsButtons ''enable_left_leg'')
       (button_or 2 dsButtons ''disable_left_leg'') (button_or 3 dsButtons ''enable_right_leg'')
       (button_or 4 dsButtons ''disable_right_leg'') p, m_running = False, ev_locals = Map.empty\<rparr> \<and> length cs = 16"
proof -
  define cs where "cs = [env (button_or 1 dsButtons ''enable_left_leg''), env (button_or 2 dsButtons ''disable_left_leg''),
    env (button_or 3 dsButtons ''enable_right_leg''), env (button_or 4 dsButtons ''disable_right_leg''),
    False, False, False, False, env 5, env 6, env 5 \<and> env 6, False, env 7, env 8, env 7 \<and> env 8, False]"
  have "wire_buttons env dsButtons EventLoop_init =
     Inr \<lparr>ev_cells = cs, m_bindings = wired_bindings (button_or 1 dsButtons ''enable_left_leg'')
       (button_or 2 dsButtons ''disable_left_leg'') (button_or 3 dsButtons ''enable_right_leg'')
       (button_or 4 dsButtons ''disable_right_leg'') (\<lambda>i. cs ! i), m_running = False, ev_locals = Map.empty\<rparr>"
    by (cases "env 5"; cases "env 7")
      (simp_all add: wire_buttons_def chord_def rising_action_def BooleanEvent_ctor_def EventLoop_init_def op_and_def
        rising_def getAsBoolean_def ifHigh_def bind_def arr_get_def Let_def cs_def wired_bindings_def)
  then show ?thesis by (intro exI [of _ cs] exI [of _ "\<lambda>i. cs ! i"]) (simp add: cs_def)
qed


text \<open>The face buttons never fault; the chords fault on a dead variable exactly when their first
  button is pressed.\<close>

lemma run_binding_face:
  assumes "length cs = 16" "c < 16"
  shows "run_binding env lv (SetState (Raw n) c) cs = Inr (SetState (Raw n) c, cs[c := env n], [])"
    "run_binding env lv (IfHigh c act) cs = Inr (IfHigh c act, cs, if cs ! c then [act] else [])"
    "c' < 16 \<Longrightarrow> run_binding env lv (SetState (RisingC c' x) c) cs =
      Inr (SetState (RisingC c' (cs ! c')) c, cs[c := \<not> x \<and> cs ! c'], [])"
    "c' < 16 \<Longrightarrow> run_binding env Map.empty (SetState (AndC c' (RefTo v)) c) cs =
      (if cs ! c' then Inl NullDeref else Inr (SetState (AndC c' (RefTo v)) c, cs[c := False], []))"
  using assms by (simp_all add: run_binding_def arr_get_def arr_set_def)

lemma poll_wired:
  assumes "length cs = 16"
  shows "(poll env \<lparr>ev_cells = cs, m_bindings = wired_bindings a b c d p, m_running = r, ev_locals = Map.empty\<rparr> =
      Inl NullDeref) = (env 5 \<or> env 7) \<and>
    ((\<exists>x. poll env \<lparr>ev_cells = cs, m_bindings = wired_bindings a b c d p, m_running = r, ev_locals = Map.empty\<rparr> = Inr x) =
      (\<not> env 5 \<and> \<not> env 7))"
  using assms by (cases "env 5"; cases "env 7") (simp_all add: poll_def wired_bindings_def run_binding_face)


text \<open>C35: \<open>robotInit\<close> succeeds in binding the button events, but the two chords refer to local
  variables that are gone when it returns: the first poll afterwards uses a dead variable
  exactly when LB or Back is pressed, so pressing Back and Start together never gets to
  send the emergency stop.\<close>

theorem chords_dangle:
  "\<exists>l. wire_buttons env0 dsButtons EventLoop_init = Inr l \<and>
    (poll env l = Inl NullDeref) = (env 5 \<or> env 7) \<and> ((\<exists>r. poll env l = Inr r) = (\<not> env 5 \<and> \<not> env 7))"
  using wire_buttons_bindings [of env0 dsButtons] poll_wired by blast

end
