(* ===== verification/MercuryController.thy ===== *)
theory MercuryController
  imports Legged
begin

text \<open>
  \<open>tools/mercury_controller.cpp\<close>: the external controller.  It waits for the robot's segment,
  checks it, and then in every period writes a command, reads the composed sensor data, keeps
  statistics on them and sleeps; when the composed data are more than 100 ms old it lets the
  segment go and waits for a new one.  The operating system's answers to an attempt to map the
  segment, the clock readings and what the robot does to the segment in the meantime are inputs;
  \<open>sin\<close> and \<open>cos\<close> of the C library are arguments.
\<close>

section \<open>State\<close>

record ControllerTestBench =
  ct_num_joints :: u32
  ct_control_freq :: u32
  ct_loop_period_ns :: u64
  ct_write_stats :: TimingStats
  ct_read_stats :: TimingStats
  ct_cycle_stats :: TimingStats
  ct_imu_age_stats :: TimingStats
  ct_grpA_age_stats :: TimingStats
  ct_grpB_age_stats :: TimingStats
  ct_compose_age_stats :: TimingStats

definition ControllerTestBench_init :: ControllerTestBench where
  "ControllerTestBench_init =
     \<lparr>ct_num_joints = 12, ct_control_freq = 1000, ct_loop_period_ns = 1000000,
      ct_write_stats = TimingStats_init, ct_read_stats = TimingStats_init, ct_cycle_stats = TimingStats_init,
      ct_imu_age_stats = TimingStats_init, ct_grpA_age_stats = TimingStats_init,
      ct_grpB_age_stats = TimingStats_init, ct_compose_age_stats = TimingStats_init\<rparr>"

text \<open>The local variables of \<open>run\<close>.\<close>

record run_locals =
  total_iterations :: u64
  iteration :: u64
  missed_deadlines :: u64
  last_imu_seq :: u64
  last_grpA_seq :: u64
  last_grpB_seq :: u64
  imu_stale_count :: u64
  grpA_stale_count :: u64
  grpB_stale_count :: u64
  run_cmd :: Command
  run_sensor :: SensorData
  run_next_wakeup :: u64

section \<open>Attaching to the segment\<close>

text \<open>What the operating system answers to one attempt: whether the segment could be opened,
  whether \<open>fstat\<close> succeeded and the size it gave, and the memory mapped, if any.\<close>

record attach_try =
  fd_ok :: bool
  fstat_ok :: bool
  st_size :: u64
  mapped :: "SharedMemoryLayout option"

definition candidate_ok :: "SharedMemoryLayout \<Rightarrow> bool" where
  "candidate_ok shm \<longleftrightarrow> \<not> (magic shm \<noteq> SHM_MAGIC \<or> version shm \<noteq> SHM_VERSION \<or>
     lifecycle_state shm \<noteq> lifecycle_code RUNNING)"

definition attach_attempt :: "u64 \<Rightarrow> attach_try \<Rightarrow> SharedMemoryLayout option" where
  "attach_attempt layout_size a =
     (if \<not> fd_ok a then None
      else if \<not> fstat_ok a \<or> st_size a < layout_size then None
      else case mapped a of
        None \<Rightarrow> None
      | Some candidate \<Rightarrow> if candidate_ok candidate then Some candidate else None)"

text \<open>The retry loop; the list ends when \<open>g_running\<close> is cleared.\<close>

fun reattach :: "u64 \<Rightarrow> attach_try list \<Rightarrow> SharedMemoryLayout option" where
  "reattach layout_size [] = None"
| "reattach layout_size (a # as) =
     (case attach_attempt layout_size a of None \<Rightarrow> reattach layout_size as | Some shm \<Rightarrow> Some shm)"

definition bench_init ::
    "u64 \<Rightarrow> u32 \<Rightarrow> u32 \<Rightarrow> attach_try list \<Rightarrow> ControllerTestBench \<Rightarrow>
     fault + ControllerTestBench \<times> SharedMemoryLayout option" where
  "bench_init layout_size joints freq as b =
     (if freq = 0 then Inl DivByZero
      else Inr (b\<lparr>ct_num_joints := joints, ct_control_freq := freq, ct_loop_period_ns := 1000000000 div ucast freq\<rparr>,
                reattach layout_size as))"

section \<open>The command\<close>

text \<open>\<open>M_PI\<close> is the binary64 number next to \<open>pi\<close>.\<close>

definition M_PI :: real where
  "M_PI = 884279719003555 / 2 ^ 48"

definition default_joint :: "nat \<Rightarrow> Command \<Rightarrow> fault + Command" where
  "default_joint j cmd =
     bindR (arr_set (c_enabled cmd) j 1) (\<lambda>en.
     bindR (arr_set (control_mode cmd) j 0) (\<lambda>cm.
     bindR (arr_set (c_kp cmd) j (Fin 50)) (\<lambda>p.
     bindR (arr_set (c_kd cmd) j (Fin 1)) (\<lambda>d.
       Inr (cmd\<lparr>c_enabled := en, control_mode := cm, c_kp := p, c_kd := d\<rparr>)))))"

definition phase_of :: "(real \<Rightarrow> real) \<Rightarrow> double \<Rightarrow> nat \<Rightarrow> double" where
  "phase_of rnd t j =
     dadd rnd (dmul rnd (dmul rnd (dmul rnd (Fin 2) (Fin M_PI)) (Fin (1 / 2))) t)
       (ddiv rnd (dmul rnd (Fin (real j)) (Fin M_PI)) (Fin 6))"

definition trajectory_joint ::
    "(real \<Rightarrow> real) \<Rightarrow> (double \<Rightarrow> double) \<Rightarrow> (double \<Rightarrow> double) \<Rightarrow> double \<Rightarrow> nat \<Rightarrow> Command \<Rightarrow> fault + Command" where
  "trajectory_joint rnd sn cs t j cmd =
     (let phase = phase_of rnd t j in
      bindR (arr_set (jpos_cmd cmd) j (dmul rnd (Fin 1) (sn phase))) (\<lambda>x.
      bindR (arr_set (jvel_cmd cmd) j (dmul rnd (dmul rnd (Fin 1) (Fin M_PI)) (cs phase))) (\<lambda>v.
      bindR (arr_set (jtorque_cmd cmd) j (Fin 0)) (\<lambda>u.
        Inr (cmd\<lparr>jpos_cmd := x, jvel_cmd := v, jtorque_cmd := u\<rparr>)))))"

definition run_time :: "(real \<Rightarrow> real) \<Rightarrow> u64 \<Rightarrow> u32 \<Rightarrow> double" where
  "run_time rnd i freq = ddiv rnd (Fin (rnd (real (unat i)))) (Fin (real (unat freq)))"

text \<open>Lines 107 to 134: \<open>duration_seconds\<close> is finite if positive; the conversion to an integer is
  undefined outside the range of \<open>uint64_t\<close>.\<close>

definition run_start :: "(real \<Rightarrow> real) \<Rightarrow> double \<Rightarrow> u64 \<Rightarrow> ControllerTestBench \<Rightarrow> fault + run_locals" where
  "run_start rnd duration now b =
     bindR (if dlt (Fin 0) duration
            then (case cast_int 0 (2 ^ 64 - 1) (dmul rnd duration (Fin (real (unat (ct_control_freq b))))) of
                    None \<Rightarrow> Inl BadCast | Some n \<Rightarrow> Inr (word_of_int n))
            else Inr 0xFFFFFFFFFFFFFFFF) (\<lambda>total.
     bindR (foldR default_joint [0..<unat (ct_num_joints b)] Command_zero) (\<lambda>cmd.
       Inr \<lparr>total_iterations = total, iteration = 0, missed_deadlines = 0, last_imu_seq = 0,
            last_grpA_seq = 0, last_grpB_seq = 0, imu_stale_count = 0, grpA_stale_count = 0,
            grpB_stale_count = 0, run_cmd = cmd, run_sensor = SensorData_zero, run_next_wakeup = now\<rparr>))"

text \<open>The external controller writes the buffer not in use and switches to it.\<close>

definition put_command :: "Command \<Rightarrow> SharedMemoryLayout \<Rightarrow> fault + SharedMemoryLayout" where
  "put_command cmd shm =
     bindR (arr_set (cmd_buffers shm) (unat (1 - cmd_write_idx shm)) cmd) (\<lambda>bs.
       Inr (shm\<lparr>cmd_buffers := bs, cmd_write_idx := 1 - cmd_write_idx shm, cmd_sequence := cmd_sequence shm + 1\<rparr>))"

definition write_phase ::
    "(real \<Rightarrow> real) \<Rightarrow> (double \<Rightarrow> double) \<Rightarrow> (double \<Rightarrow> double) \<Rightarrow> u64 \<Rightarrow>
     ControllerTestBench \<times> run_locals \<times> SharedMemoryLayout \<Rightarrow> fault + run_locals \<times> SharedMemoryLayout" where
  "write_phase rnd sn cs write_start = (\<lambda>(b, r, shm).
     bindR (foldR (trajectory_joint rnd sn cs (run_time rnd (iteration r) (ct_control_freq b)))
              [0..<unat (ct_num_joints b)] (run_cmd r)) (\<lambda>cmd0.
     let cmd = cmd0\<lparr>c_sequence := iteration r, c_timestamp_ns := write_start\<rparr> in
     bindR (put_command cmd shm) (\<lambda>shm'. Inr (r\<lparr>run_cmd := cmd\<rparr>, shm'))))"

section \<open>A cycle of the controller\<close>

record cycle_clock =
  t_cycle_start :: u64
  t_write_start :: u64
  t_write_end :: u64
  t_read_start :: u64
  t_read_end :: u64
  t_now :: u64
  t_cycle_end :: u64
  t_now2 :: u64

definition count_stale :: "SensorData \<Rightarrow> run_locals \<Rightarrow> run_locals" where
  "count_stale sensor r =
     r\<lparr>imu_stale_count := imu_stale_count r +
         (if imu_sequence sensor = last_imu_seq r \<and> 10 < iteration r then 1 else 0),
       grpA_stale_count := grpA_stale_count r +
         (if motor_group_a_sequence sensor = last_grpA_seq r \<and> 10 < iteration r then 1 else 0),
       grpB_stale_count := grpB_stale_count r +
         (if motor_group_b_sequence sensor = last_grpB_seq r \<and> 10 < iteration r then 1 else 0),
       last_imu_seq := imu_sequence sensor, last_grpA_seq := motor_group_a_sequence sensor,
       last_grpB_seq := motor_group_b_sequence sensor\<rparr>"

definition record_age :: "u64 \<Rightarrow> u64 \<Rightarrow> TimingStats \<Rightarrow> TimingStats" where
  "record_age now ts s = (if 0 < ts then ts_record (now - ts) s else s)"

definition record_times :: "cycle_clock \<Rightarrow> SensorData \<Rightarrow> ControllerTestBench \<Rightarrow> ControllerTestBench" where
  "record_times c sensor b =
     b\<lparr>ct_write_stats := ts_record (t_write_end c - t_write_start c) (ct_write_stats b),
       ct_read_stats := ts_record (t_read_end c - t_read_start c) (ct_read_stats b),
       ct_imu_age_stats := record_age (t_now c) (imu_timestamp_ns sensor) (ct_imu_age_stats b),
       ct_grpA_age_stats := record_age (t_now c) (motor_group_a_timestamp_ns sensor) (ct_grpA_age_stats b),
       ct_grpB_age_stats := record_age (t_now c) (motor_group_b_timestamp_ns sensor) (ct_grpB_age_stats b),
       ct_cycle_stats := ts_record (t_cycle_end c - t_cycle_start c) (ct_cycle_stats b),
       ct_compose_age_stats := record_age (t_now c) (compose_timestamp_ns sensor) (ct_compose_age_stats b)\<rparr>"

definition robot_gone :: "u64 \<Rightarrow> SensorData \<Rightarrow> bool" where
  "robot_gone now sensor \<longleftrightarrow> 0 < compose_timestamp_ns sensor \<and> HEARTBEAT_STALE_NS < now - compose_timestamp_ns sensor"

definition bench_wakeup :: "u64 \<Rightarrow> u64 \<Rightarrow> u64 \<Rightarrow> u64" where
  "bench_wakeup period now2 next =
     (if now2 < next + period then next + period else now2 + period)"

definition after_read :: "cycle_clock \<Rightarrow> SensorData \<Rightarrow> ControllerTestBench \<Rightarrow> run_locals \<Rightarrow> run_locals" where
  "after_read c sensor b r =
     (let r1 = count_stale sensor (r\<lparr>run_sensor := sensor\<rparr>) in
      r1\<lparr>missed_deadlines := missed_deadlines r1 +
           (if ct_loop_period_ns b < t_cycle_end c - t_cycle_start c then 1 else 0)\<rparr>)"

definition end_cycle :: "cycle_clock \<Rightarrow> ControllerTestBench \<Rightarrow> run_locals \<Rightarrow> run_locals" where
  "end_cycle c b r =
     r\<lparr>run_next_wakeup := bench_wakeup (ct_loop_period_ns b) (t_now2 c) (run_next_wakeup r),
       iteration := iteration r + 1\<rparr>"

text \<open>One pass through the loop; \<open>others\<close> is what the robot does to the segment between the write
  and the read.  Without a segment at the end \<open>run\<close> has returned.  The remainder that selects
  the cycles to report divides by twice the frequency in 32 bits.\<close>

record bench_input =
  b_clock :: cycle_clock
  b_others :: "SharedMemoryLayout \<Rightarrow> SharedMemoryLayout"
  b_tries :: "attach_try list"

type_synonym bench_state = "ControllerTestBench \<times> run_locals \<times> SharedMemoryLayout option"

definition bench_cycle ::
    "u64 \<Rightarrow> (real \<Rightarrow> real) \<Rightarrow> (double \<Rightarrow> double) \<Rightarrow> (double \<Rightarrow> double) \<Rightarrow> bench_input \<Rightarrow>
     ControllerTestBench \<times> run_locals \<times> SharedMemoryLayout \<Rightarrow> fault + bench_state" where
  "bench_cycle layout_size rnd sn cs i = (\<lambda>(b, r, shm).
     let c = b_clock i in
     bindR (write_phase rnd sn cs (t_write_start c) (b, r, shm)) (\<lambda>(r1, shm1).
     let shm2 = b_others i shm1 in
     bindR (arr_get (composed_buffers shm2) (unat (composed_write_idx shm2))) (\<lambda>sensor.
     let b2 = record_times c sensor b;
         r2 = after_read c sensor b r1;
         seg = (if robot_gone (t_now c) sensor then reattach layout_size (b_tries i) else Some shm2)
     in case seg of
          None \<Rightarrow> Inr (b2, r2, None)
        | Some shm3 \<Rightarrow>
            if ct_control_freq b2 * 2 = 0 then Inl DivByZero
            else Inr (b2, end_cycle c b2 r2, Some shm3))))"

fun bench_run ::
    "u64 \<Rightarrow> (real \<Rightarrow> real) \<Rightarrow> (double \<Rightarrow> double) \<Rightarrow> (double \<Rightarrow> double) \<Rightarrow> double \<Rightarrow> bench_input list \<Rightarrow>
     bench_state \<Rightarrow> fault + bench_state" where
  "bench_run layout_size rnd sn cs duration [] s = Inr s"
| "bench_run layout_size rnd sn cs duration (i # is) (b, r, None) = Inr (b, r, None)"
| "bench_run layout_size rnd sn cs duration (i # is) (b, r, Some shm) =
     (if \<not> (dlt duration (Fin 0) \<or> deq duration (Fin 0) \<or> iteration r < total_iterations r) then Inr (b, r, Some shm)
      else bindR (bench_cycle layout_size rnd sn cs i (b, r, shm))
             (bench_run layout_size rnd sn cs duration is))"

section \<open>Attaching\<close>

lemma reattach_None: "reattach sz as = None \<longleftrightarrow> (\<forall>a \<in> set as. attach_attempt sz a = None)"
  by (induction as) (auto split: option.split)

lemma attach_attempt_ok:
  "attach_attempt sz a = Some shm \<Longrightarrow> candidate_ok shm \<and> mapped a = Some shm \<and> fd_ok a \<and> fstat_ok a \<and> sz \<le> st_size a"
  by (auto simp: attach_attempt_def split: if_splits option.splits)

lemma reattach_ok: "reattach sz as = Some shm \<Longrightarrow> candidate_ok shm \<and> (\<exists>a \<in> set as. mapped a = Some shm)"
  by (induction as) (auto split: option.splits dest: attach_attempt_ok)

section \<open>The command of a cycle\<close>

definition shm_inv :: "SharedMemoryLayout \<Rightarrow> bool" where
  "shm_inv shm \<longleftrightarrow> shm_wf shm \<and> (\<forall>c \<in> set (cmd_buffers shm). command_wf c)"

lemma shm_inv_cmds: "shm_inv shm \<Longrightarrow> length (cmd_buffers shm) = 2"
  by (simp add: shm_inv_def shm_wf_def)

text \<open>The joints \<open>run\<close> has set up before the loop.\<close>

definition joints_on :: "nat \<Rightarrow> Command \<Rightarrow> bool" where
  "joints_on n cmd \<longleftrightarrow> command_wf cmd \<and> length (control_mode cmd) = 12 \<and>
     (\<forall>j < n. c_enabled cmd ! j = 1 \<and> c_kp cmd ! j = Fin 50 \<and> c_kd cmd ! j = Fin 1)"

definition trajectory_set ::
    "(real \<Rightarrow> real) \<Rightarrow> (double \<Rightarrow> double) \<Rightarrow> (double \<Rightarrow> double) \<Rightarrow> double \<Rightarrow> nat \<Rightarrow> Command \<Rightarrow> bool" where
  "trajectory_set rnd sn cs t n cmd \<longleftrightarrow>
     (\<forall>j < n. jpos_cmd cmd ! j = dmul rnd (Fin 1) (sn (phase_of rnd t j)) \<and>
        jvel_cmd cmd ! j = dmul rnd (dmul rnd (Fin 1) (Fin M_PI)) (cs (phase_of rnd t j)) \<and> jtorque_cmd cmd ! j = Fin 0)"

lemma default_joints:
  "n \<le> 12 \<Longrightarrow> \<exists>cmd. foldR default_joint [0..<n] Command_zero = Inr cmd \<and> joints_on n cmd"
proof (induction n)
  case 0
  then show ?case by (simp add: joints_on_def command_wf_def Command_zero_def zeros_def)
next
  case (Suc n)
  then obtain cmd where c: "foldR default_joint [0..<n] Command_zero = Inr cmd" "joints_on n cmd" by auto
  then have "\<exists>cmd'. default_joint n cmd = Inr cmd' \<and> joints_on (Suc n) cmd'"
    using Suc.prems by (auto simp: default_joint_def arr_set_def joints_on_def command_wf_def nth_list_update less_Suc_eq)
  then show ?case using c by (auto simp: foldR_append)
qed

lemma trajectory_joints:
  assumes "joints_on m cmd"
  shows "n \<le> 12 \<Longrightarrow> \<exists>cmd'. foldR (trajectory_joint rnd sn cs t) [0..<n] cmd = Inr cmd' \<and> joints_on m cmd' \<and>
    trajectory_set rnd sn cs t n cmd'"
proof (induction n)
  case 0
  then show ?case using assms by (simp add: trajectory_set_def)
next
  case (Suc n)
  then obtain cmd1 where c: "foldR (trajectory_joint rnd sn cs t) [0..<n] cmd = Inr cmd1" "joints_on m cmd1"
    "trajectory_set rnd sn cs t n cmd1" by auto
  then have "\<exists>cmd'. trajectory_joint rnd sn cs t n cmd1 = Inr cmd' \<and> joints_on m cmd' \<and> trajectory_set rnd sn cs t (Suc n) cmd'"
    using Suc.prems by (simp add: trajectory_joint_def arr_set_def joints_on_def command_wf_def trajectory_set_def
        nth_list_update less_Suc_eq Let_def)
  then show ?case using c(1) by (auto simp: foldR_append)
qed

lemma put_command_ok:
  assumes "shm_inv shm" "command_wf cmd"
  obtains shm' where "put_command cmd shm = Inr shm'" "shm_inv shm'" "cmd_write_idx shm' \<le> 1"
    "cmd_buffers shm' ! unat (cmd_write_idx shm') = cmd" "magic shm' = magic shm" "version shm' = version shm"
    "controller_emergency_stop shm' = controller_emergency_stop shm" "\<And>stg. stage_of stg shm' = stage_of stg shm"
    "cmd_sequence shm' = cmd_sequence shm + 1"
proof -
  have i: "cmd_write_idx shm = 0 \<or> cmd_write_idx shm = 1" "length (cmd_buffers shm) = 2"
    using assms(1) by (auto simp: shm_inv_def shm_wf_def)
  have e: "put_command cmd shm = Inr (shm\<lparr>cmd_buffers := (cmd_buffers shm)[unat (1 - cmd_write_idx shm) := cmd],
      cmd_write_idx := 1 - cmd_write_idx shm, cmd_sequence := cmd_sequence shm + 1\<rparr>)" (is "_ = Inr ?shm'")
    using i by (auto simp: put_command_def arr_set_def)
  have "set ((cmd_buffers shm)[k := cmd]) \<subseteq> insert cmd (set (cmd_buffers shm))" for k
    by (rule set_update_subset_insert)
  then have "shm_inv ?shm'" using assms i by (fastforce simp: shm_inv_def shm_wf_def)
  then show thesis
    by (rule that [OF e]) (use i in \<open>auto simp: stage_of_def split: staging.split\<close>)
qed

definition bench_ok :: "ControllerTestBench \<Rightarrow> run_locals \<Rightarrow> bool" where
  "bench_ok b r \<longleftrightarrow> ct_num_joints b \<le> 12 \<and> ct_control_freq b * 2 \<noteq> 0 \<and> joints_on (unat (ct_num_joints b)) (run_cmd r)"

text \<open>The start of \<open>run\<close> establishes what its cycles keep.\<close>

lemma run_start_ok:
  assumes "run_start rnd d now b = Inr r" "ct_num_joints b \<le> 12" "ct_control_freq b * 2 \<noteq> 0"
  shows "bench_ok b r" and "iteration r = 0"
proof -
  have "unat (ct_num_joints b) \<le> 12" using assms(2) by (simp add: word_le_nat_alt)
  then obtain cmd where "foldR default_joint [0..<unat (ct_num_joints b)] Command_zero = Inr cmd"
    "joints_on (unat (ct_num_joints b)) cmd" using default_joints by blast
  then show "bench_ok b r" "iteration r = 0"
    using assms by (auto simp: run_start_def bench_ok_def bindR_Inr_iff split: if_splits option.splits)
qed

lemma write_phase_ok:
  fixes cs sn rnd
  assumes "bench_ok b r" "shm_inv shm"
  obtains cmd shm' where "write_phase rnd sn cs ts (b, r, shm) = Inr (r\<lparr>run_cmd := cmd\<rparr>, shm')"
    "put_command cmd shm = Inr shm'" "joints_on (unat (ct_num_joints b)) cmd" "command_wf cmd"
    "trajectory_set rnd sn cs (run_time rnd (iteration r) (ct_control_freq b)) (unat (ct_num_joints b)) cmd"
    "c_timestamp_ns cmd = ts" "c_sequence cmd = iteration r" "shm_inv shm'"
proof -
  let ?t = "run_time rnd (iteration r) (ct_control_freq b)" and ?n = "unat (ct_num_joints b)"
  have n: "?n \<le> 12" "joints_on ?n (run_cmd r)" using assms(1) by (simp_all add: bench_ok_def word_le_nat_alt)
  obtain cmd0 where c: "foldR (trajectory_joint rnd sn cs ?t) [0..<?n] (run_cmd r) = Inr cmd0" "joints_on ?n cmd0"
    "trajectory_set rnd sn cs ?t ?n cmd0" using trajectory_joints [OF n(2,1)] by blast
  define cmd where "cmd = cmd0\<lparr>c_sequence := iteration r, c_timestamp_ns := ts\<rparr>"
  have p: "joints_on ?n cmd" "command_wf cmd" "trajectory_set rnd sn cs ?t ?n cmd"
    using c(2,3) by (simp_all add: cmd_def joints_on_def command_wf_def trajectory_set_def)
  obtain shm' where s: "put_command cmd shm = Inr shm'" "shm_inv shm'" by (rule put_command_ok [OF assms(2) p(2)])
  show thesis
    by (rule that [of cmd shm']) (use c(1) s p in \<open>simp_all add: write_phase_def cmd_def Let_def\<close>)
qed

section \<open>Cycles\<close>

text \<open>An input the robot may give: it keeps the segment well formed, and the segments it offers are
  well formed.\<close>

definition input_ok :: "bench_input \<Rightarrow> bool" where
  "input_ok i \<longleftrightarrow> (\<forall>shm. shm_inv shm \<longrightarrow> shm_inv (b_others i shm)) \<and>
     (\<forall>a \<in> set (b_tries i). \<forall>shm. mapped a = Some shm \<longrightarrow> shm_inv shm)"

lemma bench_cycle_ok:
  assumes ok: "bench_ok b r" "shm_inv shm" "input_ok i"
  obtains b' r' seg cmd shm1 sensor where "bench_cycle sz rnd sn cs i (b, r, shm) = Inr (b', r', seg)"
    "bench_ok b' r'" "\<And>s. seg = Some s \<Longrightarrow> shm_inv s" "put_command cmd shm = Inr shm1"
    "c_sequence cmd = iteration r" "c_timestamp_ns cmd = t_write_start (b_clock i)" "run_cmd r' = cmd"
    "arr_get (composed_buffers (b_others i shm1)) (unat (composed_write_idx (b_others i shm1))) = Inr sensor"
    "seg = (if robot_gone (t_now (b_clock i)) sensor then reattach sz (b_tries i) else Some (b_others i shm1))"
    "iteration r' = (if seg = None then iteration r else iteration r + 1)" "total_iterations r' = total_iterations r"
proof -
  obtain cmd shm1 where w: "write_phase rnd sn cs (t_write_start (b_clock i)) (b, r, shm) = Inr (r\<lparr>run_cmd := cmd\<rparr>, shm1)"
    "put_command cmd shm = Inr shm1" "joints_on (unat (ct_num_joints b)) cmd" "c_timestamp_ns cmd = t_write_start (b_clock i)"
    "c_sequence cmd = iteration r" "shm_inv shm1"
    by (rule write_phase_ok [OF ok(1,2), of rnd sn cs "t_write_start (b_clock i)"]) blast
  define shm2 where "shm2 = b_others i shm1"
  have inv: "shm_inv shm2" using ok(3) w(6) by (simp add: input_ok_def shm2_def)
  define sensor where "sensor = composed_buffers shm2 ! unat (composed_write_idx shm2)"
  have sensor: "arr_get (composed_buffers shm2) (unat (composed_write_idx shm2)) = Inr sensor"
    using inv by (auto simp: arr_get_def sensor_def shm_inv_def shm_wf_def)
  define seg where "seg = (if robot_gone (t_now (b_clock i)) sensor then reattach sz (b_tries i) else Some shm2)"
  have seg: "shm_inv s" if "seg = Some s" for s
    using that inv ok(3) reattach_ok [of sz "b_tries i" s] by (fastforce simp: seg_def input_ok_def split: if_splits)
  have f: "ct_control_freq b * 2 \<noteq> 0" using ok(1) by (simp add: bench_ok_def)
  define b' where "b' = record_times (b_clock i) sensor b"
  define r2 where "r2 = after_read (b_clock i) sensor b (r\<lparr>run_cmd := cmd\<rparr>)"
  define r' where "r' = (if seg = None then r2 else end_cycle (b_clock i) b' r2)"
  have b': "ct_num_joints b' = ct_num_joints b" "ct_control_freq b' = ct_control_freq b" by (simp_all add: b'_def record_times_def)
  have r2: "iteration r2 = iteration r" "total_iterations r2 = total_iterations r" "run_cmd r2 = cmd"
    by (simp_all add: r2_def after_read_def count_stale_def)
  have e: "bench_cycle sz rnd sn cs i (b, r, shm) = Inr (b', r', seg)"
    using f b'(2) by (cases seg) (simp_all add: bench_cycle_def w(1) shm2_def [symmetric] sensor seg_def [symmetric]
        b'_def [symmetric] r2_def [symmetric] r'_def)
  have "run_cmd r' = cmd" "iteration r' = (if seg = None then iteration r else iteration r + 1)"
    "total_iterations r' = total_iterations r" using r2 by (simp_all add: r'_def end_cycle_def)
  moreover from this have "bench_ok b' r'" using ok(1) w(3) by (simp add: bench_ok_def b')
  ultimately show thesis
    using that [OF e _ seg w(2,5,4)] sensor seg_def by (simp add: shm2_def)
qed

lemma bench_run_total:
  assumes "bench_ok b r" "\<And>shm. s = Some shm \<Longrightarrow> shm_inv shm" "\<forall>i \<in> set is. input_ok i"
  shows "\<exists>b' r' s'. bench_run sz rnd sn cs d is (b, r, s) = Inr (b', r', s') \<and> bench_ok b' r' \<and>
    (\<forall>shm. s' = Some shm \<longrightarrow> shm_inv shm)"
  using assms
proof (induction "is" arbitrary: b r s)
  case (Cons i "is")
  show ?case
  proof (cases s)
    case (Some shm)
    obtain b' r' seg where c: "bench_cycle sz rnd sn cs i (b, r, shm) = Inr (b', r', seg)" "bench_ok b' r'"
      "\<And>s. seg = Some s \<Longrightarrow> shm_inv s"
      by (rule bench_cycle_ok [of b r shm i sz rnd sn cs]) (use Cons.prems Some in auto)
    show ?thesis
      using Cons.IH [OF c(2,3)] Cons.prems Some c(1)
      by (cases "dlt d (Fin 0) \<or> deq d (Fin 0) \<or> iteration r < total_iterations r") auto
  qed (use Cons.prems in auto)
qed auto

section \<open>From the controller to the motors\<close>

lemma actuation_trajectory:
  assumes "cmd_write_idx shm \<le> 1" "cmd_buffers shm ! unat (cmd_write_idx shm) = cmd" "joints_on 12 cmd"
    "trajectory_set rnd sn cs t 12 cmd" "leg_ok l" "m_isEnabled l"
  shows "actuation now shm l w =
    (if c_timestamp_ns cmd \<noteq> 0 \<and> 100000000 < uint now - uint (c_timestamp_ns cmd) then []
     else map (\<lambda>i. let m = motors w ! (l_motors l ! i); phase = phase_of rnd t (nat (m_groupOffset l) + i) in
            command_dg (maxCanDevice w) m 0 (projr (mit_frame rnd64 (m_motorType m)
              \<lparr>mit_kp = Fin 50, mit_kd = Fin 1, mit_q = dmul rnd (Fin 1) (sn phase),
               mit_dq = dmul rnd (dmul rnd (Fin 1) (Fin M_PI)) (cs phase), mit_tau = Fin 0\<rparr>))) [0..<length (l_motors l)])"
proof -
  have j: "nat (m_groupOffset l) + i < 12" if "i < length (l_motors l)" for i
    using that assms(5) by (auto simp: leg_ok_def)
  have on: "dispatched cmd l = [0..<length (l_motors l)]"
    unfolding dispatched_def using assms(3) j by (intro filter_True) (auto simp: joints_on_def)
  have p: "joint_param cmd k = \<lparr>mit_kp = Fin 50, mit_kd = Fin 1, mit_q = dmul rnd (Fin 1) (sn (phase_of rnd t k)),
      mit_dq = dmul rnd (dmul rnd (Fin 1) (Fin M_PI)) (cs (phase_of rnd t k)), mit_tau = Fin 0\<rparr>" if "k < 12" for k
    using assms(3,4) that by (simp add: joint_param_def joints_on_def trajectory_set_def)
  have "\<not> 1 < cmd_write_idx shm" "uint ts \<noteq> 0 \<longleftrightarrow> ts \<noteq> 0" for ts :: u64 using assms(1) by (auto simp: not_less uint_0_iff)
  then show ?thesis
    using assms(2,6) on by (auto simp: actuation_def Let_def mit_dg_def p j)
qed

text \<open>C5: a command the external controller writes is executed by the legs: a control cycle of an
  enabled leg sends every one of its motors that joint's point of the sinusoidal trajectory, with
  the gains 50 and 1, as long as it starts within 100 ms of the write; a later cycle sends nothing.\<close>

theorem commands_reach_legs:
  assumes "bench_ok b r" "ct_num_joints b = 12" "shm_inv shm" "\<not> faulted shm"
    "l_shm l" "l_staging l = Some stg" "leg_ok l" "leg_wired w l" "m_isEnabled l"
  shows "\<exists>r' shm' l' w'. write_phase rnd sn cs ts (b, r, shm) = Inr (r', shm') \<and>
    controllerPeriodic rnd64 cp_start clk cp_end l (w\<lparr>w_shm := Some shm'\<rparr>) = Inr (l', w') \<and>
    sent w' = sent w @
      (if ts \<noteq> 0 \<and> 100000000 < uint cp_start - uint ts then []
       else map (\<lambda>i. let m = motors w ! (l_motors l ! i);
                       phase = phase_of rnd (run_time rnd (iteration r) (ct_control_freq b)) (nat (m_groupOffset l) + i) in
              command_dg (maxCanDevice w) m 0 (projr (mit_frame rnd64 (m_motorType m)
                \<lparr>mit_kp = Fin 50, mit_kd = Fin 1, mit_q = dmul rnd (Fin 1) (sn phase),
                 mit_dq = dmul rnd (dmul rnd (Fin 1) (Fin M_PI)) (cs phase), mit_tau = Fin 0\<rparr>))) [0..<length (l_motors l)])"
proof -
  let ?t = "run_time rnd (iteration r) (ct_control_freq b)"
  obtain cmd shm' where c: "write_phase rnd sn cs ts (b, r, shm) = Inr (r\<lparr>run_cmd := cmd\<rparr>, shm')"
    "put_command cmd shm = Inr shm'" "joints_on 12 cmd" "command_wf cmd" "trajectory_set rnd sn cs ?t 12 cmd"
    "c_timestamp_ns cmd = ts"
    by (rule write_phase_ok [OF assms(1,3), of rnd sn cs ts]) (simp add: assms(2))
  have s: "cmd_write_idx shm' \<le> 1 \<and> cmd_buffers shm' ! unat (cmd_write_idx shm') = cmd \<and> magic shm' = magic shm \<and>
    version shm' = version shm \<and> controller_emergency_stop shm' = controller_emergency_stop shm \<and> shm_inv shm'"
    by (rule put_command_ok [OF assms(3) c(4)]) (simp add: c(2))
  let ?w = "w\<lparr>w_shm := Some shm'\<rparr>"
  have d: "dbuf_wf group_wf (stage_of stg shm')" using s by (cases stg) (simp_all add: shm_inv_def shm_wf_def stage_of_def)
  have lw: "leg_wired ?w l" by (rule leg_wired_same [OF _ assms(8)]) simp
  have h: "w_shm ?w = Some shm'" "\<not> faulted shm'" "length (cmd_buffers shm') = 2" "\<forall>c \<in> set (cmd_buffers shm'). command_wf c"
    using s assms(4) by (simp_all add: faulted_def shm_inv_def shm_wf_def)
  obtain l' w' where "controllerPeriodic rnd64 cp_start clk cp_end l ?w = Inr (l', w')"
    "sent w' = sent ?w @ actuation cp_start shm' l ?w"
    by (rule controllerPeriodic_ok [OF assms(5,6,7) lw h(1,2) d h(3,4), of cp_start clk cp_end])
  then show ?thesis
    using c(1) actuation_trajectory [of shm' cmd rnd sn cs ?t l cp_start "w\<lparr>w_shm := Some shm'\<rparr>"] s c(3,5,6) assms(7,9)
    by (intro exI [of _ "r\<lparr>run_cmd := cmd\<rparr>"] exI [of _ shm'] exI [of _ l'] exI [of _ w']) simp
qed

definition demo_bench :: ControllerTestBench where
  "demo_bench = ControllerTestBench_init\<lparr>ct_control_freq := 200, ct_loop_period_ns := 5000000\<rparr>"

lemma demo_bench_ok:
  obtains r where "run_start rnd64 (Fin 0) 5 demo_bench = Inr r" "bench_ok demo_bench r"
proof -
  have n: "ct_num_joints demo_bench = 12" "ct_control_freq demo_bench = 200"
    by (simp_all add: demo_bench_def ControllerTestBench_init_def)
  obtain cmd where "foldR default_joint [0..<12] Command_zero = Inr cmd" using default_joints [of 12] by auto
  then obtain r where "run_start rnd64 (Fin 0) 5 demo_bench = Inr r" by (simp add: run_start_def n)
  then show thesis using that run_start_ok(1) [of rnd64 "Fin 0" 5 demo_bench r] n by simp
qed

lemma live_shm_inv: "shm_inv live_shm"
  using shm_zero_wf live_shm_ok(4) by (simp add: shm_inv_def shm_wf_def live_shm_def)

theorem commands_reach_legs_witness:
  "\<exists>r r' shm' l' w'. run_start rnd64 (Fin 0) 5 demo_bench = Inr r \<and>
    write_phase rnd64 (\<lambda>x. x) (\<lambda>x. x) 5 (demo_bench, r, live_shm) = Inr (r', shm') \<and>
    controllerPeriodic rnd64 7 (\<lambda>_. 8) 9 left_leg ((left_world live_shm)\<lparr>w_shm := Some shm'\<rparr>) = Inr (l', w') \<and>
    length (sent w') = 12"
proof (rule demo_bench_ok)
  fix r
  assume r: "run_start rnd64 (Fin 0) 5 demo_bench = Inr r" "bench_ok demo_bench r"
  have n: "ct_num_joints demo_bench = 12" by (simp add: demo_bench_def ControllerTestBench_init_def)
  show ?thesis
    using commands_reach_legs [OF r(2) n live_shm_inv live_shm_ok(1) left_leg_ok(3,4,2) left_leg_ok(1) [of live_shm] left_leg_ok(5), of rnd64 "\<lambda>x. x" "\<lambda>x. x" 5 7 "\<lambda>_. 8" 9] r(1)
    by (auto simp: left_leg_ok)
qed

section \<open>The length of a run\<close>

lemma bench_run_bounded:
  assumes "bench_ok b r" "\<And>shm. s = Some shm \<Longrightarrow> shm_inv shm" "\<forall>i \<in> set is. input_ok i"
    "dlt (Fin 0) d" "iteration r \<le> total_iterations r" "bench_run sz rnd sn cs d is (b, r, s) = Inr (b', r', s')"
  shows "iteration r' \<le> total_iterations r \<and>
    (s' \<noteq> None \<and> unat (total_iterations r - iteration r) \<le> length is \<longrightarrow> iteration r' = total_iterations r)"
  using assms
proof (induction "is" arbitrary: b r s)
  case (Cons i "is")
  have d: "\<not> dlt d (Fin 0)" "\<not> deq d (Fin 0)" using Cons.prems(4) by (cases d; simp)+
  show ?case
  proof (cases "s = None \<or> iteration r = total_iterations r")
    case True
    then show ?thesis using Cons.prems(5,6) d by (cases s) auto
  next
    case False
    then obtain shm where s: "s = Some shm" and lt: "iteration r < total_iterations r" using Cons.prems(5) by auto
    obtain b1 r1 seg where c: "bench_cycle sz rnd sn cs i (b, r, shm) = Inr (b1, r1, seg)" "bench_ok b1 r1"
      "\<And>s. seg = Some s \<Longrightarrow> shm_inv s" "iteration r1 = (if seg = None then iteration r else iteration r + 1)"
      "total_iterations r1 = total_iterations r"
      by (rule bench_cycle_ok [of b r shm i sz rnd sn cs]) (use Cons.prems s in auto)
    have run: "bench_run sz rnd sn cs d is (b1, r1, seg) = Inr (b', r', s')" using Cons.prems(6) s lt c(1) d by simp
    show ?thesis
    proof (cases seg)
      case None
      then show ?thesis using run c(4) lt by (cases "is") auto
    next
      case (Some shm1)
      have i: "iteration r1 = iteration r + 1" using c(4) Some by simp
      have le: "iteration r1 \<le> total_iterations r1" unfolding i c(5) using lt by (rule inc_le)
      have m: "unat (total_iterations r - iteration r) = Suc (unat (total_iterations r1 - iteration r1))"
      proof -
        have "iteration r \<noteq> 0xFFFFFFFFFFFFFFFF" using lt unat_u64_less [of "total_iterations r"] by (auto simp: word_less_nat_alt)
        then show ?thesis
          using lt le unat_succ_u64 [of "iteration r"] unfolding i c(5) by (simp add: unat_sub word_less_nat_alt word_le_nat_alt)
      qed
      show ?thesis using Cons.IH [OF c(2,3) _ Cons.prems(4) le run] Cons.prems(3) c(5) m by simp
    qed
  qed
qed (auto simp: le_less unat_eq_zero)

end
