(* ===== verification/System.thy ===== *)
theory System
  imports Robot MercuryController
begin

text \<open>
  The robot process as a whole: the legs' real-time cycles, the composer's cycles, the frames of
  the inertial sensor, the supervisor's checks and the commands of the external controller, in
  any order on one shared memory.
\<close>

section \<open>Components that never fault\<close>

text \<open>What a scheduler may rely on: a step with a legal input returns and keeps the invariant.\<close>

locale total_component =
  fixes step :: "'e \<Rightarrow> 's \<Rightarrow> fault + 's"
    and legal :: "'e \<Rightarrow> bool"
    and inv :: "'s \<Rightarrow> bool"
  assumes step_total: "inv s \<Longrightarrow> legal e \<Longrightarrow> \<exists>s'. step e s = Inr s' \<and> inv s'"
begin

lemma schedule_total: "inv s \<Longrightarrow> \<forall>e \<in> set es. legal e \<Longrightarrow> \<exists>s'. foldR step es s = Inr s' \<and> inv s'"
proof (induction es arbitrary: s)
  case (Cons e es)
  obtain s1 where "step e s = Inr s1" "inv s1" using step_total [OF Cons.prems(1)] Cons.prems(2) by auto
  then show ?case using Cons.IH [of s1] Cons.prems(2) by simp
qed simp

end

section \<open>The steps\<close>

record sys =
  sy_robot :: Robot
  sy_world :: leg_world
  sy_ring :: batch_ring

datatype sys_event = LeftCycle u64 "nat \<Rightarrow> u64" u64 | RightCycle u64 "nat \<Rightarrow> u64" u64
  | LeftMessage u8 | RightMessage u8
  | ComposeCycle u64 u64 MotorParamCache | ImuFrame u64 bytes | Supervise u64 u64 | NewCommand Command

definition imu_step :: "u64 \<Rightarrow> bytes \<Rightarrow> Robot \<times> 'z leg_world_scheme \<Rightarrow> fault + Robot \<times> 'z leg_world_scheme" where
  "imu_step now f = (\<lambda>(rb, w).
     bindR (on_frame rnd64 now f (rb_imu rb, map_option imu_stage (w_shm w))) (\<lambda>(r, mem).
       Inr (rb\<lparr>rb_imu := r\<rparr>, case (w_shm w, mem) of
              (Some shm, Some b) \<Rightarrow> w\<lparr>w_shm := Some (shm\<lparr>imu_stage := b\<rparr>)\<rparr> | _ \<Rightarrow> w)))"

fun sys_step :: "sys_event \<Rightarrow> sys \<Rightarrow> fault + sys" where
  "sys_step (LeftCycle a clk b) s =
     bindR (controllerPeriodic rnd64 a clk b (rb_left (sy_robot s)) (sy_world s)) (\<lambda>(l, w).
       Inr (s\<lparr>sy_robot := (sy_robot s)\<lparr>rb_left := l\<rparr>, sy_world := w\<rparr>))"
| "sys_step (RightCycle a clk b) s =
     bindR (controllerPeriodic rnd64 a clk b (rb_right (sy_robot s)) (sy_world s)) (\<lambda>(l, w).
       Inr (s\<lparr>sy_robot := (sy_robot s)\<lparr>rb_right := l\<rparr>, sy_world := w\<rparr>))"
| "sys_step (LeftMessage m) s =
     bindR (leg_message m (rb_left (sy_robot s), sy_world s)) (\<lambda>(l, w).
       Inr (s\<lparr>sy_robot := (sy_robot s)\<lparr>rb_left := l\<rparr>, sy_world := w\<rparr>))"
| "sys_step (RightMessage m) s =
     bindR (leg_message m (rb_right (sy_robot s), sy_world s)) (\<lambda>(l, w).
       Inr (s\<lparr>sy_robot := (sy_robot s)\<lparr>rb_right := l\<rparr>, sy_world := w\<rparr>))"
| "sys_step (ComposeCycle now now' pc) s =
     (case (rb_composer (sy_robot s), w_shm (sy_world s)) of
        (Some c, Some shm) \<Rightarrow>
          bindR (compose_cycle now now' pc (c, shm, sy_ring s)) (\<lambda>(c', shm', ring').
            Inr (s\<lparr>sy_robot := (sy_robot s)\<lparr>rb_composer := Some c'\<rparr>,
                   sy_world := (sy_world s)\<lparr>w_shm := Some shm'\<rparr>, sy_ring := ring'\<rparr>))
      | (Some c, None) \<Rightarrow> Inl NullDeref
      | (None, _) \<Rightarrow> Inr s)"
| "sys_step (ImuFrame now f) s =
     bindR (imu_step now f (sy_robot s, sy_world s)) (\<lambda>(rb, w). Inr (s\<lparr>sy_robot := rb, sy_world := w\<rparr>))"
| "sys_step (Supervise now now_ns) s =
     bindR (health_check now now_ns (sy_robot s, sy_world s)) (\<lambda>(rb, w). Inr (s\<lparr>sy_robot := rb, sy_world := w\<rparr>))"
| "sys_step (NewCommand cmd) s =
     bindR (on_shm (put_command cmd) (sy_world s)) (\<lambda>w. Inr (s\<lparr>sy_world := w\<rparr>))"

fun event_ok :: "sys_event \<Rightarrow> bool" where
  "event_ok (ComposeCycle now now' pc) = Composer.cache_wf pc"
| "event_ok (NewCommand cmd) = command_wf cmd"
| "event_ok _ = True"

section \<open>The invariant\<close>

definition leg_attached :: "staging \<Rightarrow> Legged \<Rightarrow> bool" where
  "leg_attached stg l \<longleftrightarrow> leg_ok l \<and> l_shm l \<and> l_staging l = Some stg"

definition robot_inv :: "Robot \<Rightarrow> 'z leg_world_scheme \<Rightarrow> bool" where
  "robot_inv rb w \<longleftrightarrow> (\<exists>shm. w_shm w = Some shm \<and> shm_inv shm) \<and> robot_wired rb w \<and>
     leg_attached StageA (rb_left rb) \<and> leg_attached StageB (rb_right rb) \<and> rb_shm rb \<and>
     (\<exists>c. rb_composer rb = Some c \<and> composer_ok c) \<and> imu_wf (m_accumulator (rb_imu rb))"

definition sys_inv :: "sys \<Rightarrow> bool" where
  "sys_inv s \<longleftrightarrow> robot_inv (sy_robot s) (sy_world s)"

section \<open>A leg's cycle\<close>

lemma stage_feedback_cmds:
  "stage_feedback a b shm l w = Inr (l', w') \<Longrightarrow> l_staging l = Some stg \<Longrightarrow> w_shm w' = Some shm' \<Longrightarrow>
   cmd_buffers shm' = cmd_buffers shm"
  by (cases stg) (auto simp: stage_feedback_def publish_stage_def bindR_Inr_iff Let_def)

lemma leg_cycle_total:
  fixes w :: "'z leg_world_scheme"
  assumes "leg_attached stg l" "leg_wired w l" "w_shm w = Some shm" "shm_inv shm"
  obtains l' w' shm' where "controllerPeriodic rnd64 a clk b l w = Inr (l', w')" "same_wiring w w'"
    "w_shm w' = Some shm'" "shm_inv shm'" "leg_attached stg l'" "l_motors l' = l_motors l"
proof (cases "faulted shm")
  case True
  have sh: "l_shm l" using assms(1) by (simp add: leg_attached_def)
  obtain w' where "controllerPeriodic rnd64 a clk b l w = Inr (l\<lparr>m_motorsFaultDisabled := True\<rparr>, w')"
    "same_wiring w w'" "w_shm w' = w_shm w"
    by (rule faulted_cycle [OF sh assms(3) True assms(2)]) blast
  then show thesis using that assms by (simp add: leg_attached_def leg_ok_def)
next
  case False
  have l: "l_shm l" "l_staging l = Some stg" "leg_ok l" using assms(1) by (simp_all add: leg_attached_def)
  have wf: "shm_wf shm" "\<forall>c \<in> set (cmd_buffers shm). command_wf c" using assms(4) by (simp_all add: shm_inv_def)
  have st: "dbuf_wf group_wf (stage_of stg shm)" using wf(1) by (cases stg) (simp_all add: shm_wf_def stage_of_def)
  obtain l1 w1 where act: "actuate rnd64 a clk shm l w = Inr (l1, w1)" "same_wiring w w1"
    "l1 = l\<lparr>m_motorsFaultDisabled := m_motorsFaultDisabled l \<or> m_isEnabled l \<and> 1 < cmd_write_idx shm\<rparr>"
    by (rule actuate_ok [OF assms(2) l(3) shm_inv_cmds [OF assms(4)] wf(2)])
  have l1: "l_staging l1 = Some stg" "leg_ok l1" "l_motors l1 = l_motors l" "l_shm l1"
    using l by (simp_all add: act(3) leg_ok_def)
  have "leg_wired w1 l" using leg_wired_same [OF act(2) assms(2)] .
  then have ns: "\<forall>n \<in> set (l_motors l1). n < length (motors w1)" by (auto simp: leg_wired_def wired_def l1)
  obtain shm' where fb: "stage_feedback a b shm l1 w1 =
      Inr (l1\<lparr>m_motorResponsive := map (\<lambda>n. responsive a (motors w1 ! n)) (l_motors l1), m_lastControllerStartNs := a\<rparr>,
           w1\<lparr>w_shm := Some shm'\<rparr>)" "shm_wf shm \<Longrightarrow> shm_wf shm'"
    by (rule stage_feedback_ok [OF l1(1) ns l1(2) st]) blast
  have "cmd_buffers shm' = cmd_buffers shm" by (rule stage_feedback_cmds [OF fb(1) l1(1)]) simp
  moreover have "controllerPeriodic rnd64 a clk b l w = stage_feedback a b shm l1 w1"
    using False act(1) l(1) assms(3) by (auto simp: controllerPeriodic_def faulted_def)
  moreover have "same_wiring w (w1\<lparr>w_shm := Some shm'\<rparr>)" using act(2) same_wiring_trans by fastforce
  ultimately show thesis
    by (intro that [of "l1\<lparr>m_motorResponsive := map (\<lambda>n. responsive a (motors w1 ! n)) (l_motors l1), m_lastControllerStartNs := a\<rparr>"
          "w1\<lparr>w_shm := Some shm'\<rparr>" shm'])
      (use fb wf l1 in \<open>simp_all add: shm_inv_def leg_attached_def leg_ok_def\<close>)
qed

section \<open>The other components\<close>

lemma on_frame_total:
  assumes "imu_wf (m_accumulator r)" "dbuf_wf imu_wf b"
  obtains r' b' where "on_frame rnd64 now f (r, Some b) = Inr (r', Some b')" "imu_wf (m_accumulator r')" "dbuf_wf imu_wf b'"
proof -
  define k where "k = sint (frame_canId f - word_of_int (im_baseId r))"
  define acc where "acc = accumulate k (frame_float 0 f) (frame_float 1 f) (m_accumulator r)"
  define d where "d = complete_sample rnd64 now (im_sequence r + 1) acc"
  have acc: "imu_wf acc" using assms(1) by (simp add: acc_def imu_wf_def accumulate_def)
  have d: "imu_wf d" using acc by (simp add: d_def complete_sample_def imu_wf_def)
  obtain b' where b': "publish i_timestamp_ns d b = Inr b'" "dbuf_wf imu_wf b'" by (rule publish_wf [OF assms(2) d])
  define r1 where "r1 = (if k = 0 then r\<lparr>m_frameCount := 0\<rparr> else r)"
  define r2 where "r2 = r1\<lparr>m_accumulator := acc, m_frameCount := m_frameCount r1 + 1\<rparr>"
  define r3 where "r3 = r2\<lparr>im_sequence := im_sequence r2 + 1, m_accumulator := d, m_frameCount := 0\<rparr>"
  have e: "on_frame rnd64 now f (r, Some b) =
    (if out_of_window (frame_canId f) r then Inr (r, Some b)
     else if m_frameCount r2 \<noteq> m_numFrames r2 then Inr (r2, Some b)
     else if \<not> im_stage r3 then Inr (r3, Some b) else Inr (r3, Some b'))"
    using b'(1) unfolding d_def acc_def
    by (cases "k = 0") (simp_all add: on_frame_def Let_def k_def [symmetric] r1_def r2_def r3_def d_def acc_def)
  have wf: "imu_wf (m_accumulator r2)" "imu_wf (m_accumulator r3)" using acc d by (simp_all add: r2_def r3_def)
  note t = that [unfolded e]
  show thesis
    by (cases "out_of_window (frame_canId f) r"; cases "m_frameCount r2 = m_numFrames r2"; cases "im_stage r3")
      (use t [of r b] t [of r2 b] t [of r3 b] t [of r3 b'] assms b'(2) wf in simp_all)
qed

lemma compose_cycle_cmds:
  "compose_cycle now now' pc (c, shm, ring) = Inr (c', shm', ring') \<Longrightarrow> cmd_buffers shm' = cmd_buffers shm"
  by (auto simp: compose_cycle_def bindR_Inr_iff Let_def publish_composed_def split: if_splits prod.splits)

lemma compose_total:
  assumes "shm_inv shm" "Composer.cache_wf pc" "composer_ok c"
  obtains c' shm' ring' where "compose_cycle now now' pc (c, shm, ring) = Inr (c', shm', ring')" "shm_inv shm'" "composer_ok c'"
proof -
  have wf: "shm_wf shm" using assms(1) by (simp add: shm_inv_def)
  obtain c' shm' ring' c2 where 1: "compose_cycle now now' pc (c, shm, ring) = Inr (c', shm', ring')" "shm_wf shm'"
    "unat (batch_idx c2) = Suc (unat (batch_idx c))" "length (samples (co_batch c2)) = BATCH_SIZE"
    "if unat (batch_idx c) = 3 then flush_batch now' (robot_id shm) c2 ring = (c', ring') else c' = c2 \<and> ring' = ring"
    by (rule compose_cycle_ok [OF wf assms(2,3), of now now' ring]) blast
  have "unat (batch_idx c) < 4" using assms(3) by (simp add: composer_ok_def BATCH_SIZE_def)
  then have "composer_ok c'"
    using 1(3-5) by (auto simp: composer_ok_def BATCH_SIZE_def flush_batch_def sealed_batch_def Let_def
        split: if_splits prod.splits)
  then show thesis
    using that [OF 1(1)] 1(2) assms(1) compose_cycle_cmds [OF 1(1)] by (simp add: shm_inv_def)
qed

text \<open>Switching a leg, raising the stop and the supervisor's other checks keep the invariant.\<close>

lemma attached_same:
  "same_leg (l, w) (l', w') \<Longrightarrow> leg_attached stg l \<Longrightarrow> leg_attached stg l'"
  by (simp add: same_leg_def leg_attached_def leg_ok_def)

lemma left_same:
  assumes "robot_inv rb w" "same_leg (rb_left rb, w) (l, w')"
  shows "robot_inv (rb\<lparr>rb_left := l\<rparr>) w'"
proof -
  have wl: "leg_wired w (rb_left rb)" "leg_wired w (rb_right rb)" using assms(1) by (simp_all add: robot_inv_def robot_wired_def)
  show ?thesis
    using assms(1) same_leg_robot [OF assms(2) wl(2)] same_leg_wired [OF assms(2) wl(1)] attached_same [OF assms(2)]
    by (simp add: robot_inv_def robot_wired_def)
qed

lemma right_same:
  assumes "robot_inv rb w" "same_leg (rb_right rb, w) (l, w')"
  shows "robot_inv (rb\<lparr>rb_right := l\<rparr>) w'"
proof -
  have wl: "leg_wired w (rb_left rb)" "leg_wired w (rb_right rb)" using assms(1) by (simp_all add: robot_inv_def robot_wired_def)
  show ?thesis
    using assms(1) same_leg_robot [OF assms(2) wl(1)] same_leg_wired [OF assms(2) wl(2)] attached_same [OF assms(2)]
    by (simp add: robot_inv_def robot_wired_def)
qed

lemma enable_left_total:
  assumes "robot_inv rb w"
  shows "\<exists>rb' w'. leg_enable_left en (rb, w) = Inr (rb', w') \<and> robot_inv rb' w'"
proof -
  have wl: "leg_wired w (rb_left rb)" using assms by (simp add: robot_inv_def robot_wired_def)
  obtain l w' where l: "setEnable en (rb_left rb) w = Inr (l, w')" "same_leg (rb_left rb, w) (l, w')"
    by (rule setEnable_ok [OF wl, of en])
  show ?thesis using left_same [OF assms l(2)] l(1) by (simp add: leg_enable_left_def)
qed

lemma enable_right_total:
  assumes "robot_inv rb w"
  shows "\<exists>rb' w'. leg_enable_right en (rb, w) = Inr (rb', w') \<and> robot_inv rb' w'"
proof -
  have wl: "leg_wired w (rb_right rb)" using assms by (simp add: robot_inv_def robot_wired_def)
  obtain l w' where l: "setEnable en (rb_right rb) w = Inr (l, w')" "same_leg (rb_right rb, w) (l, w')"
    by (rule setEnable_ok [OF wl, of en])
  show ?thesis using right_same [OF assms l(2)] l(1) by (simp add: leg_enable_right_def)
qed

lemma raise_stop_total:
  assumes "robot_inv rb w"
  shows "\<exists>w'. raise_stop w = Inr w' \<and> robot_inv rb w'"
  using assms raise_stop_eq [of w] by (auto simp: robot_inv_def shm_inv_def shm_wf_def)

lemma health_total:
  assumes "robot_inv rb w"
  shows "\<exists>rb' w'. health_check now now_ns (rb, w) = Inr (rb', w') \<and> robot_inv rb' w'"
proof -
  obtain c where c: "rb_composer rb = Some c" "rb_shm rb" using assms by (auto simp: robot_inv_def)
  let ?st = "check_staleness now c"
  have cnt: "robot_inv (rb\<lparr>rb_imu_stale_counter := n\<rparr>) w" for n using assms by (simp add: robot_inv_def robot_wired_def)
  let ?rb = "rb\<lparr>rb_imu_stale_counter := rb_imu_stale_counter rb + 1\<rparr>"
  obtain ws where ws: "raise_stop w = Inr ws" "robot_inv ?rb ws" using raise_stop_total [OF cnt] by blast
  obtain rb1 w1 where 1: "check_imu ?st (rb, w) = Inr (rb1, w1)" "robot_inv rb1 w1"
    using ws cnt [of 0] cnt [of "rb_imu_stale_counter rb + 1"]
    by (cases "?st AND STALE_IMU \<noteq> 0"; cases "20 < rb_imu_stale_counter rb + 1") (auto simp: check_imu_def Let_def)
  obtain rb2 w2 where 2: "(if ?st AND STALE_MOTOR_GROUP_A \<noteq> 0 then leg_enable_left False (rb1, w1) else Inr (rb1, w1)) = Inr (rb2, w2)"
    "robot_inv rb2 w2"
    using 1(2) enable_left_total [OF 1(2), of False] by (cases "?st AND STALE_MOTOR_GROUP_A \<noteq> 0") auto
  obtain rb3 w3 where 3: "(if ?st AND STALE_MOTOR_GROUP_B \<noteq> 0 then leg_enable_right False (rb2, w2) else Inr (rb2, w2)) = Inr (rb3, w3)"
    "robot_inv rb3 w3"
    using 2(2) enable_right_total [OF 2(2), of False] by (cases "?st AND STALE_MOTOR_GROUP_B \<noteq> 0") auto
  have l: "check_legs ?st (rb1, w1) = Inr (rb3, w3)" using 2(1) 3(1) by (simp only: check_legs_def bindR_simps)
  obtain shm where shm: "w_shm w3 = Some shm" "shm_inv shm" using 3(2) by (auto simp: robot_inv_def)
  obtain w4 where 4: "check_commands now_ns w3 = Inr w4" "robot_inv rb3 w4"
    using check_commands_eq [OF shm(1) shm_inv_cmds [OF shm(2)], of now_ns] 3(2) raise_stop_total [OF 3(2)]
      raise_stop_eq [OF shm(1)] by auto
  obtain shm4 where s4: "w_shm w4 = Some shm4" using 4(2) by (auto simp: robot_inv_def)
  obtain w5 where 5: "check_controller w4 = Inr w5" "robot_inv rb3 w5"
    using 4(2) raise_stop_total [OF 4(2)] s4
    by (cases "controller_emergency_stop shm4") (auto simp: check_controller_def)
  show ?thesis using c 1(1) l 4(1) 5 by (auto simp: health_check_def Let_def)
qed

text \<open>The real-time thread of a leg on its own: what the loop asks of its subsystem holds.\<close>

definition leg_inv :: "staging \<Rightarrow> Legged \<times> 'z leg_world_scheme \<Rightarrow> bool" where
  "leg_inv stg = (\<lambda>(l, w). leg_attached stg l \<and> leg_wired w l \<and> (\<exists>shm. w_shm w = Some shm \<and> shm_inv shm))"

interpretation leg_thread: rt_subsystem leg_message "leg_controller clk e" "leg_inv stg"
  for clk e stg
proof
  fix s :: "Legged \<times> 'z leg_world_scheme" and m t
  assume inv: "leg_inv stg s"
  obtain l w shm where s: "s = (l, w)" "leg_attached stg l" "leg_wired w l" "w_shm w = Some shm" "shm_inv shm"
    using inv by (auto simp: leg_inv_def)
  obtain l1 w1 where m1: "leg_message m (l, w) = Inr (l1, w1)" "same_leg (l, w) (l1, w1)"
    by (rule leg_message_ok [OF s(3), of m])
  show "\<exists>s'. leg_message m s = Inr s' \<and> leg_inv stg s'"
    using m1 s attached_same [OF m1(2) s(2)] same_leg_wired [OF m1(2) s(3)] by (simp add: leg_inv_def same_leg_def)
  obtain l2 w2 shm2 where c: "controllerPeriodic rnd64 t clk e l w = Inr (l2, w2)" "same_wiring w w2"
    "w_shm w2 = Some shm2" "shm_inv shm2" "leg_attached stg l2" "l_motors l2 = l_motors l"
    by (rule leg_cycle_total [OF s(2-5)])
  have "leg_wired w2 l2" using leg_wired_same [OF c(2) s(3)] c(6) by (simp add: leg_wired_def)
  then show "\<exists>s'. leg_controller clk e t s = Inr s' \<and> leg_inv stg s'"
    using c s(1) by (simp add: leg_inv_def leg_controller_def)
qed

text \<open>Whatever messages and wake-ups arrive, the loop of an attached leg runs on.\<close>

lemma leg_loop_runs:
  assumes "leg_inv stg (lp_sub st)"
  shows "\<exists>st'. Run leg_message (leg_controller clk e) is st = Inr st' \<and> leg_inv stg (lp_sub st')"
  by (rule leg_thread.run_total [OF assms])

section \<open>The whole system\<close>

interpretation whole: total_component sys_step event_ok sys_inv
proof
  fix s e
  assume inv: "sys_inv s" and ok: "event_ok e"
  let ?rb = "sy_robot s" and ?w = "sy_world s"
  have r: "robot_inv ?rb ?w" using inv by (simp add: sys_inv_def)
  obtain shm where shm: "w_shm ?w = Some shm" "shm_inv shm" using r by (auto simp: robot_inv_def)
  have legs: "leg_attached StageA (rb_left ?rb)" "leg_attached StageB (rb_right ?rb)" "leg_wired ?w (rb_left ?rb)"
    "leg_wired ?w (rb_right ?rb)" using r by (simp_all add: robot_inv_def robot_wired_def)
  show "\<exists>s'. sys_step e s = Inr s' \<and> sys_inv s'"
  proof (cases e)
    case (LeftCycle a clk b)
    obtain l' w' shm' where l: "controllerPeriodic rnd64 a clk b (rb_left ?rb) ?w = Inr (l', w')" "same_wiring ?w w'"
      "w_shm w' = Some shm'" "shm_inv shm'" "leg_attached StageA l'" "l_motors l' = l_motors (rb_left ?rb)"
      by (rule leg_cycle_total [OF legs(1,3) shm])
    have "leg_wired w' l'" using leg_wired_same [OF l(2) legs(3)] l(6) by (simp add: leg_wired_def)
    then show ?thesis
      using l r leg_wired_same [OF l(2) legs(4)] by (simp add: LeftCycle sys_inv_def robot_inv_def robot_wired_def)
  next
    case (RightCycle a clk b)
    obtain l' w' shm' where l: "controllerPeriodic rnd64 a clk b (rb_right ?rb) ?w = Inr (l', w')" "same_wiring ?w w'"
      "w_shm w' = Some shm'" "shm_inv shm'" "leg_attached StageB l'" "l_motors l' = l_motors (rb_right ?rb)"
      by (rule leg_cycle_total [OF legs(2,4) shm])
    have "leg_wired w' l'" using leg_wired_same [OF l(2) legs(4)] l(6) by (simp add: leg_wired_def)
    then show ?thesis
      using l r leg_wired_same [OF l(2) legs(3)] by (simp add: RightCycle sys_inv_def robot_inv_def robot_wired_def)
  next
    case (LeftMessage m)
    obtain l' w' where "leg_message m (rb_left ?rb, ?w) = Inr (l', w')" "same_leg (rb_left ?rb, ?w) (l', w')"
      by (rule leg_message_ok [OF legs(3), of m])
    then show ?thesis using left_same [OF r, of l' w'] by (simp add: LeftMessage sys_inv_def)
  next
    case (RightMessage m)
    obtain l' w' where "leg_message m (rb_right ?rb, ?w) = Inr (l', w')" "same_leg (rb_right ?rb, ?w) (l', w')"
      by (rule leg_message_ok [OF legs(4), of m])
    then show ?thesis using right_same [OF r, of l' w'] by (simp add: RightMessage sys_inv_def)
  next
    case (ComposeCycle now now' pc)
    obtain c where c: "rb_composer ?rb = Some c" "composer_ok c" using r by (auto simp: robot_inv_def)
    have pc: "Composer.cache_wf pc" using ok ComposeCycle by simp
    obtain c' shm' ring' where "compose_cycle now now' pc (c, shm, sy_ring s) = Inr (c', shm', ring')" "shm_inv shm'"
      "composer_ok c'" by (rule compose_total [OF shm(2) pc c(2)])
    then show ?thesis using r c shm by (simp add: ComposeCycle sys_inv_def robot_inv_def) (simp add: robot_wired_def)
  next
    case (ImuFrame now f)
    have b: "dbuf_wf imu_wf (imu_stage shm)" "imu_wf (m_accumulator (rb_imu ?rb))"
      using shm(2) r by (simp_all add: shm_inv_def shm_wf_def robot_inv_def)
    obtain r' b' where "on_frame rnd64 now f (rb_imu ?rb, Some (imu_stage shm)) = Inr (r', Some b')"
      "imu_wf (m_accumulator r')" "dbuf_wf imu_wf b'" by (rule on_frame_total [OF b(2,1)])
    then show ?thesis
      using r shm by (simp add: ImuFrame imu_step_def sys_inv_def robot_inv_def)
        (simp add: shm_inv_def shm_wf_def robot_wired_def)
  next
    case (Supervise now now_ns)
    then show ?thesis using health_total [OF r, of now now_ns] by (auto simp: sys_inv_def)
  next
    case (NewCommand cmd)
    obtain shm' where "put_command cmd shm = Inr shm'" "shm_inv shm'"
      using put_command_ok [OF shm(2), of cmd] ok NewCommand by auto
    then show ?thesis using r shm by (simp add: NewCommand on_shm_def sys_inv_def robot_inv_def)
  qed
qed

lemma created_shm_inv: "shm_inv created_shm"
  using shm_zero_wf
  by (simp add: shm_inv_def shm_wf_def created_shm_def SharedMemoryLayout_zero_def)
    (simp add: command_wf_def Command_zero_def zeros_def)

lemma attach_inv:
  assumes "robot_wired rb w" "leg_ok (rb_left rb)" "leg_ok (rb_right rb)" "imu_wf (m_accumulator (rb_imu rb))"
  shows "robot_inv (attachSharedMemory a (rb\<lparr>rb_shm := True\<rparr>)) (w\<lparr>w_shm := Some created_shm\<rparr>)"
proof -
  have "composer_ok (composer_start n rc Composer_init)" for n rc
    using composer_init_ok by (simp add: composer_start_def composer_ok_def Let_def)
  then show ?thesis
    using assms created_shm_inv
    by (simp add: robot_inv_def attachSharedMemory_def Let_def)
      (simp add: robot_wired_def leg_wired_def leg_attached_def leg_ok_def setShmPointers_def imu_start_def
        setStagingBuffer_def)
qed

text \<open>C1: from the state in which \<open>robotInit\<close> attaches two wired legs to the fresh shared memory, no
  interleaving of leg cycles, messages to the legs (of any content), composer cycles, sensor frames (of any content), supervisory checks and
  new commands ever faults: no null or stale pointer is used, no array is overrun, and the
  shared memory stays well formed.\<close>

theorem system_never_faults:
  assumes "robot_wired rb w" "leg_ok (rb_left rb)" "leg_ok (rb_right rb)" "imu_wf (m_accumulator (rb_imu rb))"
    "\<forall>e \<in> set es. event_ok e"
  shows "\<exists>s' shm. foldR sys_step es \<lparr>sy_robot = attachSharedMemory a (rb\<lparr>rb_shm := True\<rparr>),
      sy_world = w\<lparr>w_shm := Some created_shm\<rparr>, sy_ring = ring\<rparr> = Inr s' \<and> w_shm (sy_world s') = Some shm \<and> shm_wf shm"
proof -
  let ?s = "\<lparr>sy_robot = attachSharedMemory a (rb\<lparr>rb_shm := True\<rparr>), sy_world = w\<lparr>w_shm := Some created_shm\<rparr>, sy_ring = ring\<rparr>"
  have "sys_inv ?s" using attach_inv [OF assms(1-4)] by (simp add: sys_inv_def)
  then obtain s' where "foldR sys_step es ?s = Inr s'" "sys_inv s'" using whole.schedule_total assms(5) by blast
  then show ?thesis by (auto simp: sys_inv_def robot_inv_def shm_inv_def)
qed

theorem system_never_faults_witness:
  "\<exists>s' shm. foldR sys_step [LeftCycle 7 (\<lambda>_. 8) 9, ComposeCycle 10 11 MotorParamCache_init, ImuFrame 12 [1, 2],
      LeftMessage 0x11, NewCommand Command_zero, Supervise 13 14, RightCycle 15 (\<lambda>_. 16) 17]
     \<lparr>sy_robot = attachSharedMemory \<lparr>at_imu = \<lparr>ic_serverIp = [], ic_localPort = 8890, ic_baseId = 0x514\<rparr>, at_imu_ok = True,
        at_left_ok = True, at_right_ok = True, at_now = 1, at_composer_rc = 0, at_mqtt = False, at_robotId = 1,
        at_downsample = 5, at_logger_ok = True\<rparr> (demo_robot\<lparr>rb_shm := True\<rparr>),
      sy_world = (left_world live_shm)\<lparr>w_shm := Some created_shm\<rparr>, sy_ring = ring_init 256 Batch_zero\<rparr> = Inr s' \<and>
    w_shm (sy_world s') = Some shm \<and> shm_wf shm"
proof (rule system_never_faults [OF demo_robot_wired])
  show "leg_ok (rb_left demo_robot)" "leg_ok (rb_right demo_robot)"
    using left_leg_ok(2) by (simp_all add: demo_robot_def leg_ok_def)
  show "imu_wf (m_accumulator (rb_imu demo_robot))"
    by (simp add: demo_robot_def started_reader_def imu_start_def setStagingBuffer_def ImuReader_ctor_def imu_wf_def
        ImuStageData_zero_def zeros_def)
  show "\<forall>e \<in> set [LeftCycle 7 (\<lambda>_. 8) 9, ComposeCycle 10 11 MotorParamCache_init, ImuFrame 12 [1, 2],
      LeftMessage 0x11, NewCommand Command_zero, Supervise 13 14, RightCycle 15 (\<lambda>_. 16) 17]. event_ok e"
    by (simp add: cache_init_wf command_wf_def Command_zero_def zeros_def)
qed

end
