(* ===== verification/ActuatorLogger.thy ===== *)
theory ActuatorLogger
  imports MercuryController Logger CommandLine DamiaoSimulator
begin

text \<open>
  \<open>tools/test_actuator_logger.cpp\<close>: a stand-in for the robot process that attaches to an existing
  segment.  An IMU thread and two motor threads write the staging buffers, a composer merges them
  and collects batches, and a logger thread hands the batches to an MQTT broker.  An event of
  \<open>al_step\<close> is one turn of one thread's loop, in any order; \<open>Command\<close>s and the emergency stop come from
  outside.  Clock readings and the callbacks that \<open>lws_service\<close> makes are inputs.
\<close>

section \<open>Simulated motors\<close>

definition P_MAX :: real where "P_MAX = 25 / 2"
definition V_MAX :: real where "V_MAX = 45"
definition T_MAX :: real where "T_MAX = 18"

record SimMotor =
  sm_position :: double
  sm_velocity :: double
  sm_torque :: double
  sm_mos_temp :: int
  sm_rotor_temp :: int
  sm_status :: u8

definition SimMotor_init :: SimMotor where
  "SimMotor_init = \<lparr>sm_position = Fin 0, sm_velocity = Fin 0, sm_torque = Fin 0, sm_mos_temp = 35,
     sm_rotor_temp = 40, sm_status = 0\<rparr>"

definition sm_enable :: "SimMotor \<Rightarrow> SimMotor" where
  "sm_enable m = m\<lparr>sm_status := 1\<rparr>"

definition sm_disable :: "SimMotor \<Rightarrow> SimMotor" where
  "sm_disable m = m\<lparr>sm_status := 0, sm_position := Fin 0, sm_velocity := Fin 0, sm_torque := Fin 0\<rparr>"

definition sm_simulate ::
    "(real \<Rightarrow> real) \<Rightarrow> double \<Rightarrow> double \<Rightarrow> double \<Rightarrow> double \<Rightarrow> double \<Rightarrow> SimMotor \<Rightarrow> fault + SimMotor" where
  "sm_simulate rnd tp tv tt kp kd m =
     (if sm_status m \<noteq> 1 then Inr m
      else
        let ct = dadd rnd (dadd rnd (dmul rnd kp (dsub rnd tp (sm_position m)))
                   (dmul rnd kd (dsub rnd tv (sm_velocity m)))) tt;
            velocity = dadd rnd (sm_velocity m)
              (dmul rnd (ddiv rnd (dsub rnd ct (dmul rnd (Fin (rnd (1 / 20))) (sm_velocity m)))
                 (Fin (rnd (1 / 10)))) (Fin (rnd (1 / 1000))));
            position = dadd rnd (sm_position m) (dmul rnd velocity (Fin (rnd (1 / 1000))));
            t = clamp T_MAX ct
        in bindR (to_int (dmul rnd (dabs t) (Fin 2))) (\<lambda>mos.
           bindR (to_int (dmul rnd (dabs t) (Fin 1.5))) (\<lambda>rotor.
             Inr (m\<lparr>sm_position := clamp P_MAX position, sm_velocity := clamp V_MAX velocity,
                    sm_torque := t, sm_mos_temp := 35 + mos, sm_rotor_temp := 40 + rotor\<rparr>))))"

section \<open>State\<close>

record imu_thread =
  it_on :: bool
  it_seq :: u64
  it_next :: u64

record motor_thread =
  mt_on :: bool
  mt_period :: u64
  mt_seq :: u64
  mt_next :: u64
  mt_motors :: "SimMotor list"

record compose_thread =
  cp_on :: bool
  cp_period :: u64
  cp_seq :: u64
  cp_next :: u64
  cp_batch :: BatchLogRecord
  cp_idx :: u32
  cp_batch_seq :: u64
  cp_connect_seen_ts :: u64
  cp_push_enabled :: bool
  cp_last_cmd_seq :: u64

record MqttMessage =
  mm_topic :: string
  mm_payload :: bytes

text \<open>\<open>al_wsi\<close> and \<open>al_connected\<close> are the members of \<open>g_mqtt_state\<close>; \<open>al_asked\<close> is whether
  \<open>lws_callback_on_writable\<close> was called and the callback is outstanding, \<open>al_sends\<close> the calls of
  \<open>lws_mqtt_client_send_publish\<close> with their success.\<close>

record ActLog =
  al_shm :: SharedMemoryLayout
  al_running :: bool
  al_robot_id :: u32
  al_ring :: batch_ring
  al_queue :: "MqttMessage list"
  al_published :: u64
  al_dropped :: u64
  al_samples :: u64
  al_connected :: bool
  al_wsi :: "nat option"
  al_asked :: bool
  al_sends :: "(MqttMessage \<times> bool) list"
  al_imu :: imu_thread
  al_group :: "staging \<Rightarrow> motor_thread"
  al_comp :: compose_thread
  al_logger_on :: bool
  al_drain_cycles :: u64

section \<open>Common parts of the loops\<close>

definition al_loop :: "ActLog \<Rightarrow> bool" where
  "al_loop s \<longleftrightarrow> al_running s \<and> \<not> emergency_stop (al_shm s)"

text \<open>The thread sleeps until the time returned, unless it has passed.\<close>

definition al_pace :: "u64 \<Rightarrow> u64 \<Rightarrow> u64 \<Rightarrow> u64" where
  "al_pace period now next = (let n = next + period in if now < n then n else now + period)"

definition al_period :: "SharedMemoryLayout \<Rightarrow> u64" where
  "al_period shm = (let freq = control_freq_hz shm; f = (if freq = 0 then 1000 else freq) in 1000000000 div ucast f)"

section \<open>The IMU thread\<close>

definition IMU_PERIOD_NS :: u64 where "IMU_PERIOD_NS = 2000000"

definition imu_wave ::
    "(real \<Rightarrow> real) \<Rightarrow> (double \<Rightarrow> double) \<Rightarrow> (double \<Rightarrow> double) \<Rightarrow> u64 \<Rightarrow> u64 \<Rightarrow> ImuStageData" where
  "imu_wave rnd sn cs seq now =
     (let t = ddiv rnd (Fin (rnd (real (unat seq)))) (Fin 500);
          two_pi = dmul rnd (Fin 2) (Fin M_PI);
          z = ImuStageData_zero
      in z\<lparr>i_imu_ang_vel := (i_imu_ang_vel z)
             [0 := dmul rnd (Fin (rnd (1 / 10))) (sn (dmul rnd two_pi t)),
              1 := dmul rnd (Fin (rnd (1 / 20))) (cs (dmul rnd (dmul rnd two_pi (Fin (1 / 2))) t)),
              2 := dmul rnd (Fin (rnd (1 / 50))) (sn (dmul rnd (dmul rnd two_pi (Fin 2)) t))],
           i_imu_acc := (i_imu_acc z)[2 := Fin (rnd (981 / 100))],
           i_sequence := seq, i_timestamp_ns := now\<rparr>)"

definition imu_turn ::
    "(real \<Rightarrow> real) \<Rightarrow> (double \<Rightarrow> double) \<Rightarrow> (double \<Rightarrow> double) \<Rightarrow> u64 \<Rightarrow> u64 \<Rightarrow> ActLog \<Rightarrow> fault + ActLog" where
  "imu_turn rnd sn cs now now2 s =
     (let i = al_imu s in
      if \<not> it_on i then Inr s
      else if \<not> al_loop s then Inr (s\<lparr>al_imu := i\<lparr>it_on := False\<rparr>\<rparr>)
      else bindR (publish i_timestamp_ns (imu_wave rnd sn cs (it_seq i) now) (imu_stage (al_shm s))) (\<lambda>b.
        Inr (s\<lparr>al_shm := (al_shm s)\<lparr>imu_stage := b\<rparr>,
               al_imu := i\<lparr>it_seq := it_seq i + 1, it_next := al_pace IMU_PERIOD_NS now2 (it_next i)\<rparr>\<rparr>)))"

section \<open>The motor threads\<close>

definition group_offset :: "staging \<Rightarrow> nat" where
  "group_offset stg = (case stg of StageA \<Rightarrow> 0 | StageB \<Rightarrow> 6)"

definition switch_motor :: "u8 \<Rightarrow> SimMotor \<Rightarrow> SimMotor" where
  "switch_motor en m =
     (if en \<noteq> 0 \<and> sm_status m \<noteq> 1 then sm_enable m
      else if en = 0 \<and> sm_status m = 1 then sm_disable m else m)"

text \<open>The record written for motor \<open>j\<close>; \<open>j\<close> stays below the six elements of its arrays.\<close>

definition report_motor :: "(real \<Rightarrow> real) \<Rightarrow> nat \<Rightarrow> SimMotor \<Rightarrow> MotorGroupStageData \<Rightarrow> MotorGroupStageData" where
  "report_motor rnd j m g =
     g\<lparr>g_joint_jpos := (g_joint_jpos g)[j := sm_position m],
       g_joint_jvel := (g_joint_jvel g)[j := sm_velocity m],
       g_motor_jpos := (g_motor_jpos g)[j := sm_position m],
       g_motor_jvel := (g_motor_jvel g)[j := sm_velocity m],
       g_jtorque := (g_jtorque g)[j := sm_torque m],
       g_motor_status := (g_motor_status g)[j := sm_status m],
       g_mos_temperature := (g_mos_temperature g)[j := sm_mos_temp m],
       g_rotor_temperature := (g_rotor_temperature g)[j := sm_rotor_temp m],
       g_bus_voltage := (g_bus_voltage g)[j := Fin 48],
       g_bus_current := (g_bus_current g)[j := dmul rnd (dabs (sm_torque m)) (Fin (rnd (1 / 10)))]\<rparr>"

definition motor_joint ::
    "(real \<Rightarrow> real) \<Rightarrow> Command \<Rightarrow> nat \<Rightarrow> nat \<Rightarrow> SimMotor list \<times> MotorGroupStageData \<Rightarrow>
     fault + SimMotor list \<times> MotorGroupStageData" where
  "motor_joint rnd cmd off j = (\<lambda>(ms, g).
     let gj = off + j in
     bindR (arr_get (c_enabled cmd) gj) (\<lambda>en.
     bindR (arr_get ms j) (\<lambda>m.
     bindR (arr_get (jpos_cmd cmd) gj) (\<lambda>tp.
     bindR (arr_get (jvel_cmd cmd) gj) (\<lambda>tv.
     bindR (arr_get (jtorque_cmd cmd) gj) (\<lambda>tt.
     bindR (arr_get (c_kp cmd) gj) (\<lambda>kp.
     bindR (arr_get (c_kd cmd) gj) (\<lambda>kd.
     bindR (sm_simulate rnd tp tv tt kp kd (switch_motor en m)) (\<lambda>m'.
       Inr (ms[j := m'], report_motor rnd j m' g))))))))))"

definition group_turn :: "(real \<Rightarrow> real) \<Rightarrow> staging \<Rightarrow> u64 \<Rightarrow> u64 \<Rightarrow> ActLog \<Rightarrow> fault + ActLog" where
  "group_turn rnd stg now now2 s =
     (let t = al_group s stg; shm = al_shm s in
      if \<not> mt_on t then Inr s
      else if \<not> al_loop s then Inr (s\<lparr>al_group := (al_group s)(stg := t\<lparr>mt_on := False\<rparr>)\<rparr>)
      else bindR (arr_get (cmd_buffers shm) (unat (cmd_write_idx shm))) (\<lambda>cmd.
        bindR (foldR (motor_joint rnd cmd (group_offset stg)) [0..<MOTORS_PER_GROUP]
                 (mt_motors t, MotorGroupStageData_zero)) (\<lambda>(ms, g).
        bindR (publish_stage stg (g\<lparr>g_sequence := mt_seq t, g_timestamp_ns := now\<rparr>) shm) (\<lambda>shm1.
          Inr (s\<lparr>al_shm := shm1,
                 al_group := (al_group s)(stg := t\<lparr>mt_motors := ms, mt_seq := mt_seq t + 1,
                   mt_next := al_pace (mt_period t) now2 (mt_next t)\<rparr>)\<rparr>)))))"

section \<open>The composer thread\<close>

definition al_snapshot ::
    "u64 \<Rightarrow> ImuStageData \<Rightarrow> MotorGroupStageData \<Rightarrow> MotorGroupStageData \<Rightarrow> SensorData" where
  "al_snapshot now imu a b =
     (let z = SensorData_zero in
      z\<lparr>imu_inc := i_imu_inc imu, imu_ang_vel := i_imu_ang_vel imu, imu_acc := i_imu_acc imu,
        imu_timestamp_ns := i_timestamp_ns imu, imu_sequence := i_sequence imu,
        joint_jpos := copy_groups (g_joint_jpos a) (g_joint_jpos b) (joint_jpos z),
        joint_jvel := copy_groups (g_joint_jvel a) (g_joint_jvel b) (joint_jvel z),
        motor_jpos := copy_groups (g_motor_jpos a) (g_motor_jpos b) (motor_jpos z),
        motor_jvel := copy_groups (g_motor_jvel a) (g_motor_jvel b) (motor_jvel z),
        bus_current := copy_groups (g_bus_current a) (g_bus_current b) (bus_current z),
        bus_voltage := copy_groups (g_bus_voltage a) (g_bus_voltage b) (bus_voltage z),
        jtorque := copy_groups (g_jtorque a) (g_jtorque b) (jtorque z),
        motor_group_a_timestamp_ns := g_timestamp_ns a, motor_group_a_sequence := g_sequence a,
        motor_group_b_timestamp_ns := g_timestamp_ns b, motor_group_b_sequence := g_sequence b,
        compose_timestamp_ns := now\<rparr>)"

text \<open>\<open>t1\<close> and \<open>t2\<close> are the clock readings of the connect-delay guard.\<close>

definition al_guard :: "bool \<Rightarrow> u64 \<Rightarrow> u64 \<Rightarrow> compose_thread \<Rightarrow> compose_thread" where
  "al_guard conn t1 t2 c =
     (if cp_push_enabled c \<or> \<not> conn then c
      else let c1 = (if cp_connect_seen_ts c = 0 then c\<lparr>cp_connect_seen_ts := t1\<rparr> else c)
           in if 20000000000 \<le> t2 - cp_connect_seen_ts c1 then c1\<lparr>cp_push_enabled := True\<rparr> else c1)"

definition al_store :: "SensorData \<Rightarrow> Command \<Rightarrow> compose_thread \<Rightarrow> fault + compose_thread" where
  "al_store sd cmd c =
     bindR (arr_set (samples (cp_batch c)) (unat (cp_idx c)) \<lparr>p_sensor = sd, p_cmd = cmd\<rparr>) (\<lambda>ss.
       Inr (c\<lparr>cp_batch := (cp_batch c)\<lparr>samples := ss\<rparr>, cp_idx := cp_idx c + 1\<rparr>))"

definition al_seal :: "u32 \<Rightarrow> u64 \<Rightarrow> compose_thread \<Rightarrow> BatchLogRecord" where
  "al_seal rid ts c =
     (cp_batch c)
       \<lparr>b_header := (b_header (cp_batch c))
          \<lparr>h_magic := PAYLOAD_MAGIC, h_version := PAYLOAD_VERSION,
           h_record_type := record_code R_SENSOR_BATCH, h_robot_id := rid,
           h_payload_size := of_nat (sizeof_uint32 * 2 + unat (cp_idx c) * sizeof_SensorCommandPair),
           h_sequence := cp_batch_seq c, h_timestamp_ns := ts\<rparr>,
        sample_count := cp_idx c\<rparr>"

text \<open>Pushing a full batch: a refused one is counted.\<close>

definition al_push :: "u64 \<Rightarrow> ActLog \<Rightarrow> compose_thread \<Rightarrow> ActLog" where
  "al_push ts s c =
     (let b = al_seal (al_robot_id s) ts c; (ok, r) = ring_push LOG_RING_CAPACITY b (al_ring s) in
      s\<lparr>al_ring := r, al_dropped := (if ok then al_dropped s else al_dropped s + 1),
        al_comp := c\<lparr>cp_batch := b, cp_batch_seq := cp_batch_seq c + 1, cp_idx := 0\<rparr>\<rparr>)"

text \<open>After the loop: the rest of a batch is pushed; a refusal is not counted.\<close>

definition al_compose_exit :: "u64 \<Rightarrow> ActLog \<Rightarrow> ActLog" where
  "al_compose_exit now s =
     (let c = (al_comp s)\<lparr>cp_on := False\<rparr> in
      if 0 < cp_idx c \<and> cp_push_enabled c
      then let b = al_seal (al_robot_id s) now c in
        s\<lparr>al_ring := snd (ring_push LOG_RING_CAPACITY b (al_ring s)),
          al_comp := c\<lparr>cp_batch := b, cp_batch_seq := cp_batch_seq c + 1\<rparr>\<rparr>
      else s\<lparr>al_comp := c\<rparr>)"

definition al_compose ::
    "u64 \<Rightarrow> u64 \<Rightarrow> u64 \<Rightarrow> u64 \<Rightarrow> ActLog \<Rightarrow> fault + ActLog" where
  "al_compose now t1 t2 now2 s =
     (let shm = al_shm s in
      bindR (read_buf (imu_stage shm)) (\<lambda>imu.
      bindR (read_buf (motor_group_a_stage shm)) (\<lambda>a.
      bindR (read_buf (motor_group_b_stage shm)) (\<lambda>b.
      let sd = al_snapshot now imu a b in
      bindR (publish_composed sd shm) (\<lambda>shm1.
      bindR (arr_get (cmd_buffers shm1) (unat (cmd_write_idx shm1))) (\<lambda>cmd.
      let s1 = s\<lparr>al_shm := shm1\<rparr>;
          c = al_guard (al_connected s1) t1 t2 ((al_comp s1)\<lparr>cp_last_cmd_seq := c_sequence cmd\<rparr>)
      in bindR (if \<not> cp_push_enabled c then Inr (s1\<lparr>al_comp := c\<rparr>)
                else bindR (al_store sd cmd c) (\<lambda>c1.
                  Inr (if of_nat BATCH_SIZE \<le> cp_idx c1 then al_push now s1 c1 else s1\<lparr>al_comp := c1\<rparr>))) (\<lambda>s2.
         let c2 = al_comp s2 in
         Inr (s2\<lparr>al_comp := c2\<lparr>cp_seq := cp_seq c2 + 1,
                    cp_next := al_pace (cp_period c2) now2 (cp_next c2)\<rparr>\<rparr>))))))))"

definition al_compose_turn :: "u64 \<Rightarrow> u64 \<Rightarrow> u64 \<Rightarrow> u64 \<Rightarrow> ActLog \<Rightarrow> fault + ActLog" where
  "al_compose_turn now t1 t2 now2 s =
     (if \<not> cp_on (al_comp s) then Inr s
      else if \<not> al_loop s then Inr (al_compose_exit now s)
      else al_compose now t1 t2 now2 s)"

section \<open>The logger thread\<close>

fun al_drain :: "(SensorCommandPair \<Rightarrow> bytes) \<Rightarrow> nat \<Rightarrow> ActLog \<Rightarrow> fault + nat \<times> ActLog" where
  "al_drain repr 0 s = Inr (0, s)"
| "al_drain repr (Suc n) s =
     (case ring_pop LOG_RING_CAPACITY (al_ring s) of
        (None, r) \<Rightarrow> Inr (0, s\<lparr>al_ring := r\<rparr>)
      | (Some b, r) \<Rightarrow>
          bindR (serializeBatch repr b) (\<lambda>payload.
          bindR (al_drain repr n
                   (s\<lparr>al_ring := r,
                      al_queue := al_queue s @ [\<lparr>mm_topic = MQTT_TOPIC_SENSOR, mm_payload = payload\<rparr>],
                      al_samples := al_samples s + ucast (sample_count b)\<rparr>)) (\<lambda>(k, s').
            Inr (Suc k, s'))))"

text \<open>\<open>lws_mqtt_callback\<close>; the boolean is the success of \<open>lws_mqtt_client_send_publish\<close>, should it be
  called.\<close>

datatype al_reason = MqttEstablished nat | MqttWriteable nat bool | MqttRx | MqttClosed | OtherReason

definition al_callback :: "al_reason \<Rightarrow> ActLog \<Rightarrow> ActLog" where
  "al_callback r s =
     (case r of
        MqttEstablished w \<Rightarrow> s\<lparr>al_connected := True, al_wsi := Some w, al_asked := True\<rparr>
      | MqttWriteable w ok \<Rightarrow>
          (case al_queue s of
             [] \<Rightarrow> s\<lparr>al_asked := False\<rparr>
           | m # ms \<Rightarrow> s\<lparr>al_queue := ms, al_sends := al_sends s @ [(m, ok)],
               al_published := (if ok then al_published s + 1 else al_published s), al_asked := True\<rparr>)
      | MqttRx \<Rightarrow> s
      | MqttClosed \<Rightarrow> s\<lparr>al_connected := False, al_wsi := None\<rparr>
      | OtherReason \<Rightarrow> s)"

definition al_service_turn ::
    "(SensorCommandPair \<Rightarrow> bytes) \<Rightarrow> al_reason list \<Rightarrow> ActLog \<Rightarrow> fault + ActLog" where
  "al_service_turn repr rs s =
     (if \<not> al_logger_on s then Inr s
      else if \<not> al_running s then Inr (s\<lparr>al_logger_on := False\<rparr>)
      else bindR (al_drain repr 10 s) (\<lambda>(drained, s1).
        let s2 = (if 0 < drained
                  then s1\<lparr>al_drain_cycles := al_drain_cycles s1 + 1,
                          al_asked := (al_wsi s1 \<noteq> None \<or> al_asked s1)\<rparr> else s1)
        in Inr (fold al_callback rs s2)))"

section \<open>The process\<close>

datatype al_event =
    ImuTurn u64 u64
  | GroupTurn staging u64 u64
  | ComposeTurn u64 u64 u64 u64
  | ServiceTurn "al_reason list"
  | NewCommand Command
  | EmergencyStop
  | StopRunning

definition al_step ::
    "(real \<Rightarrow> real) \<Rightarrow> (double \<Rightarrow> double) \<Rightarrow> (double \<Rightarrow> double) \<Rightarrow> (SensorCommandPair \<Rightarrow> bytes) \<Rightarrow> al_event \<Rightarrow>
     ActLog \<Rightarrow> fault + ActLog" where
  "al_step rnd sn cs repr e s =
     (case e of
        ImuTurn now now2 \<Rightarrow> imu_turn rnd sn cs now now2 s
      | GroupTurn stg now now2 \<Rightarrow> group_turn rnd stg now now2 s
      | ComposeTurn now t1 t2 now2 \<Rightarrow> al_compose_turn now t1 t2 now2 s
      | ServiceTurn rs \<Rightarrow> al_service_turn repr rs s
      | NewCommand cmd \<Rightarrow> bindR (put_command cmd (al_shm s)) (\<lambda>shm. Inr (s\<lparr>al_shm := shm\<rparr>))
      | EmergencyStop \<Rightarrow> Inr (s\<lparr>al_shm := (al_shm s)\<lparr>emergency_stop := True\<rparr>\<rparr>)
      | StopRunning \<Rightarrow> Inr (s\<lparr>al_running := False\<rparr>))"

text \<open>\<open>main\<close>: the options, the checks of the segment, and the threads.  The argument of \<open>-dur\<close> goes to
  \<open>atof\<close>.\<close>

record al_options =
  ao_broker :: string
  ao_port :: int
  ao_duration :: string
  ao_rid :: u32

definition al_defaults :: al_options where
  "al_defaults = \<lparr>ao_broker = ''localhost'', ao_port = 1883, ao_duration = ''10'', ao_rid = 1\<rparr>"

fun al_parse :: "string list \<Rightarrow> al_options \<Rightarrow> al_options parsed" where
  "al_parse [] ps = Options ps"
| "al_parse (a # as) ps =
     (if has_value ''-broker'' a as then al_parse (tl as) (ps\<lparr>ao_broker := hd as\<rparr>)
      else if has_value ''-port'' a as
      then (case atoi (hd as) of None \<Rightarrow> Undefined | Some n \<Rightarrow> al_parse (tl as) (ps\<lparr>ao_port := n\<rparr>))
      else if has_value ''-dur'' a as then al_parse (tl as) (ps\<lparr>ao_duration := hd as\<rparr>)
      else if has_value ''-rid'' a as
      then (case atoi (hd as) of None \<Rightarrow> Undefined | Some n \<Rightarrow> al_parse (tl as) (ps\<lparr>ao_rid := word_of_int n\<rparr>))
      else if a = ''-h'' then Exit 0 else al_parse as ps)"

text \<open>\<open>mem\<close> is the mapped segment, if opening and mapping it succeed; \<open>Inl\<close> is the exit status.\<close>

definition al_attach :: "u32 \<Rightarrow> SharedMemoryLayout option \<Rightarrow> int + SharedMemoryLayout" where
  "al_attach rid mem =
     (case mem of
        None \<Rightarrow> Inl 1
      | Some shm \<Rightarrow>
          if magic shm \<noteq> SHM_MAGIC then Inl 1
          else if version shm \<noteq> SHM_VERSION then Inl 1
          else if lifecycle_state shm \<noteq> lifecycle_code RUNNING then Inl 1
          else Inr (shm\<lparr>robot_id := rid\<rparr>))"

text \<open>The threads at their first test of \<open>g_running\<close>; \<open>starts\<close> are their clock readings, \<open>net_ok\<close> whether
  the context and the connection request were accepted.\<close>

definition motor_thread_start :: "SharedMemoryLayout \<Rightarrow> u64 \<Rightarrow> motor_thread" where
  "motor_thread_start shm now = \<lparr>mt_on = True, mt_period = al_period shm, mt_seq = 0, mt_next = now,
     mt_motors = replicate MOTORS_PER_GROUP SimMotor_init\<rparr>"

definition compose_thread_start :: "SharedMemoryLayout \<Rightarrow> u64 \<Rightarrow> compose_thread" where
  "compose_thread_start shm now = \<lparr>cp_on = True, cp_period = al_period shm, cp_seq = 0, cp_next = now,
     cp_batch = Batch_zero, cp_idx = 0, cp_batch_seq = 0, cp_connect_seen_ts = 0,
     cp_push_enabled = False, cp_last_cmd_seq = 0xFFFFFFFFFFFFFFFF\<rparr>"

definition al_launch :: "u32 \<Rightarrow> u64 \<Rightarrow> bool \<Rightarrow> SharedMemoryLayout \<Rightarrow> ActLog" where
  "al_launch rid now net_ok shm =
     \<lparr>al_shm = shm, al_running = True, al_robot_id = rid, al_ring = ring_init LOG_RING_CAPACITY Batch_zero,
      al_queue = [], al_published = 0, al_dropped = 0, al_samples = 0, al_connected = False, al_wsi = None,
      al_asked = False, al_sends = [], al_imu = \<lparr>it_on = True, it_seq = 0, it_next = now\<rparr>,
      al_group = (\<lambda>_. motor_thread_start shm now), al_comp = compose_thread_start shm now,
      al_logger_on = net_ok, al_drain_cycles = 0\<rparr>"

section \<open>The simulated motors stay in their limits\<close>

definition sim_motor_ok :: "SimMotor \<Rightarrow> bool" where
  "sim_motor_ok m \<longleftrightarrow> inside (sm_position m) P_MAX \<and> inside (sm_velocity m) V_MAX \<and> inside (sm_torque m) T_MAX \<and>
     35 \<le> sm_mos_temp m \<and> sm_mos_temp m \<le> 71 \<and> 40 \<le> sm_rotor_temp m \<and> sm_rotor_temp m \<le> 67 \<and> sm_status m \<in> {0, 1}"

lemma limits_nonneg: "0 \<le> P_MAX" "0 \<le> V_MAX" "0 \<le> T_MAX"
  by (simp_all add: P_MAX_def V_MAX_def T_MAX_def)

lemma inside_0: "0 \<le> b \<Longrightarrow> inside (Fin 0) b"
  by (simp add: inside_def)

lemma sim_motor_init_ok: "sim_motor_ok SimMotor_init"
  by (simp add: sim_motor_ok_def SimMotor_init_def inside_0 limits_nonneg)

lemma switch_motor_ok: "sim_motor_ok m \<Longrightarrow> sim_motor_ok (switch_motor en m)"
  by (auto simp: switch_motor_def sm_enable_def sm_disable_def sim_motor_ok_def inside_0 limits_nonneg)

lemma sm_simulate_ok:
  assumes "sim_motor_ok m"
  shows "\<exists>m'. sm_simulate rnd64 tp tv tt kp kd m = Inr m' \<and> sim_motor_ok m' \<and> sm_status m' = sm_status m"
proof (cases "sm_status m = 1")
  case True
  define t where "t = clamp T_MAX (dadd rnd64 (dadd rnd64 (dmul rnd64 kp (dsub rnd64 tp (sm_position m)))
                   (dmul rnd64 kd (dsub rnd64 tv (sm_velocity m)))) tt)"
  have "inside t T_MAX" unfolding t_def by (rule inside_clamp) (rule limits_nonneg)
  then have t: "inside t 18" by (simp add: T_MAX_def)
  obtain a b where "to_int (dmul rnd64 (dabs t) (Fin 2)) = Inr a" "0 \<le> a" "a \<le> 36"
    "to_int (dmul rnd64 (dabs t) (Fin 1.5)) = Inr b" "0 \<le> b" "b \<le> 27"
    using temp_range [OF t, of 2] temp_range [OF t, of "1.5"] by auto
  then show ?thesis
    using True t assms limits_nonneg
    by (simp add: sm_simulate_def Let_def t_def [symmetric] sim_motor_ok_def inside_clamp) (simp add: T_MAX_def)
qed (use assms in \<open>simp add: sm_simulate_def\<close>)

text \<open>What a motor thread writes.\<close>

definition group_in_limits :: "MotorGroupStageData \<Rightarrow> bool" where
  "group_in_limits g \<longleftrightarrow> (\<forall>x \<in> set (g_joint_jpos g). inside x P_MAX) \<and> (\<forall>x \<in> set (g_joint_jvel g). inside x V_MAX) \<and>
     (\<forall>x \<in> set (g_jtorque g). inside x T_MAX)"

definition bank_ok :: "SimMotor list \<Rightarrow> bool" where
  "bank_ok ms \<longleftrightarrow> length ms = 6 \<and> (\<forall>m \<in> set ms. sim_motor_ok m)"

lemma all_update: "\<forall>x \<in> set xs. P x \<Longrightarrow> P v \<Longrightarrow> \<forall>x \<in> set (xs[i := v]). P x"
  using set_update_subset_insert [of xs i v] by auto

lemma report_motor_ok:
  assumes "group_wf g" "group_in_limits g" "sim_motor_ok m"
  shows "group_wf (report_motor rnd j m g)" "group_in_limits (report_motor rnd j m g)"
proof -
  show "group_wf (report_motor rnd j m g)" using assms(1) by (simp add: group_wf_def report_motor_def)
  have "group_in_limits g" "inside (sm_position m) P_MAX" "inside (sm_velocity m) V_MAX" "inside (sm_torque m) T_MAX"
    using assms(2,3) by (simp_all add: sim_motor_ok_def)
  then show "group_in_limits (report_motor rnd j m g)"
    unfolding group_in_limits_def report_motor_def by simp (intro conjI all_update; simp)
qed

lemma motor_joint_ok:
  assumes "command_wf cmd" "off + j < 12" "j < 6" "bank_ok ms" "group_wf g" "group_in_limits g"
  shows "\<exists>ms' g'. motor_joint rnd64 cmd off j (ms, g) = Inr (ms', g') \<and> bank_ok ms' \<and> group_wf g' \<and> group_in_limits g'"
proof -
  have m: "sim_motor_ok (ms ! j)" "length ms = 6" using assms(3,4) by (auto simp: bank_ok_def)
  obtain m' where m': "sm_simulate rnd64 (jpos_cmd cmd ! (off + j)) (jvel_cmd cmd ! (off + j)) (jtorque_cmd cmd ! (off + j))
      (c_kp cmd ! (off + j)) (c_kd cmd ! (off + j)) (switch_motor (c_enabled cmd ! (off + j)) (ms ! j)) = Inr m'" "sim_motor_ok m'"
    using sm_simulate_ok [OF switch_motor_ok [OF m(1)]] by blast
  have "bank_ok (ms[j := m'])" using assms(4) all_update [where P = sim_motor_ok and xs = ms and i = j, OF _ m'(2)] by (simp add: bank_ok_def)
  then show ?thesis
    using assms m' m(2) report_motor_ok [OF assms(5,6) m'(2)]
    by (simp add: motor_joint_def Let_def arr_get_def command_wf_def)
qed

lemma motor_joints_ok:
  assumes "command_wf cmd" "off \<le> 6" "bank_ok ms"
  obtains ms' g where "foldR (motor_joint rnd64 cmd off) [0..<MOTORS_PER_GROUP] (ms, MotorGroupStageData_zero) = Inr (ms', g)"
    "bank_ok ms'" "group_wf g" "group_in_limits g"
proof -
  let ?P = "\<lambda>(ms, g). bank_ok ms \<and> group_wf g \<and> group_in_limits g"
  have z: "?P (ms, MotorGroupStageData_zero)"
    using assms(3) by (simp add: stage_zero_wf) (simp add: group_in_limits_def MotorGroupStageData_zero_def zeros_def inside_0 limits_nonneg)
  have "\<exists>x. foldR (motor_joint rnd64 cmd off) [0..<MOTORS_PER_GROUP] (ms, MotorGroupStageData_zero) = Inr x \<and> ?P x"
  proof (rule foldR_total [where P = ?P])
    fix j and s :: "SimMotor list \<times> MotorGroupStageData"
    assume "j \<in> set [0..<MOTORS_PER_GROUP]" "?P s"
    then show "\<exists>s'. motor_joint rnd64 cmd off j s = Inr s' \<and> ?P s'"
      using motor_joint_ok [OF assms(1), of off j "fst s" "snd s"] assms(2)
      by (cases s) (auto simp: MOTORS_PER_GROUP_def)
  qed (rule z)
  then show thesis using that by auto
qed

section \<open>The invariant of the process\<close>

definition al_comp_ok :: "compose_thread \<Rightarrow> bool" where
  "al_comp_ok c \<longleftrightarrow> unat (cp_idx c) < BATCH_SIZE \<and> length (samples (cp_batch c)) = BATCH_SIZE"

definition al_inv :: "ActLog \<Rightarrow> bool" where
  "al_inv s \<longleftrightarrow> shm_inv (al_shm s) \<and> (\<forall>stg. dbuf_wf group_in_limits (stage_of stg (al_shm s))) \<and>
     (\<forall>stg. bank_ok (mt_motors (al_group s stg))) \<and> al_comp_ok (al_comp s) \<and> ring_inv 8 (al_ring s) \<and>
     (\<forall>b \<in> set (ring_list 8 (al_ring s)). batch_ok b) \<and>
     (al_wsi s \<noteq> None \<and> al_queue s \<noteq> [] \<longrightarrow> al_asked s)"

definition al_pending :: "compose_thread \<Rightarrow> SensorCommandPair list" where
  "al_pending c = take (unat (cp_idx c)) (samples (cp_batch c))"

definition al_message :: "(SensorCommandPair \<Rightarrow> bytes) \<Rightarrow> BatchLogRecord \<Rightarrow> MqttMessage" where
  "al_message repr b = \<lparr>mm_topic = MQTT_TOPIC_SENSOR,
     mm_payload = header_bytes (b_header b) @ le_bytes32 (sample_count b) @ le_bytes32 0 @ concat (map repr (batch_pairs b))\<rparr>"

text \<open>The messages from the first handed to the network to the last batch in the ring.\<close>

definition al_pipeline :: "(SensorCommandPair \<Rightarrow> bytes) \<Rightarrow> ActLog \<Rightarrow> MqttMessage list" where
  "al_pipeline repr s = map fst (al_sends s) @ al_queue s @ map (al_message repr) (ring_list 8 (al_ring s))"

text \<open>What a turn does to the batches: the full ones it made, each with whether the ring took it.\<close>

definition al_accounts ::
    "(SensorCommandPair \<Rightarrow> bytes) \<Rightarrow> (BatchLogRecord \<times> bool) list \<Rightarrow> SensorCommandPair list \<Rightarrow> ActLog \<Rightarrow> ActLog \<Rightarrow> bool" where
  "al_accounts repr bs ps s s' \<longleftrightarrow>
     al_pipeline repr s' = al_pipeline repr s @ map (al_message repr \<circ> fst) (filter snd bs) \<and>
     al_dropped s' = al_dropped s + of_nat (length (filter (Not \<circ> snd) bs)) \<and>
     concat (map (batch_pairs \<circ> fst) bs) @ al_pending (al_comp s') = al_pending (al_comp s) @ ps"

lemma al_accounts_same:
  "al_pipeline repr s' = al_pipeline repr s \<Longrightarrow> al_dropped s' = al_dropped s \<Longrightarrow>
   al_pending (al_comp s') = al_pending (al_comp s) \<Longrightarrow> al_accounts repr [] [] s s'"
  by (simp add: al_accounts_def)

lemma al_accounts_trans:
  assumes "al_accounts repr bs ps s t" "al_accounts repr bs' ps' t u"
  shows "al_accounts repr (bs @ bs') (ps @ ps') s u"
proof -
  have "concat (map (batch_pairs \<circ> fst) (bs @ bs')) @ al_pending (al_comp u) = al_pending (al_comp s) @ ps @ ps'"
    using assms by (simp add: al_accounts_def)
  then show ?thesis using assms by (simp add: al_accounts_def add.assoc)
qed

section \<open>Draining\<close>

lemma serialize_message: "batch_ok b \<Longrightarrow> serializeBatch repr b = Inr (mm_payload (al_message repr b))"
  by (simp add: serializeBatch_def al_message_def batch_ok_def batch_pairs_def Let_def)

lemma message_eq: "\<lparr>mm_topic = MQTT_TOPIC_SENSOR, mm_payload = mm_payload (al_message repr b)\<rparr> = al_message repr b"
  by (simp add: al_message_def)

lemma al_drain_ok:
  assumes "ring_inv 8 (al_ring s)" "\<forall>b \<in> set (ring_list 8 (al_ring s)). batch_ok b"
  shows "\<exists>r x. al_drain repr n s = Inr (min n (length (ring_list 8 (al_ring s))),
      s\<lparr>al_ring := r, al_queue := al_queue s @ map (al_message repr) (take n (ring_list 8 (al_ring s))), al_samples := x\<rparr>) \<and>
    ring_inv 8 r \<and> ring_list 8 r = drop n (ring_list 8 (al_ring s)) \<and> r_head r = r_head (al_ring s)"
  using assms
proof (induction n arbitrary: s)
  case 0
  then show ?case by (intro exI [of _ "al_ring s"] exI [of _ "al_samples s"]) simp
next
  case (Suc n)
  show ?case
  proof (cases "ring_list 8 (al_ring s)")
    case Nil
    then have "ring_pop LOG_RING_CAPACITY (al_ring s) = (None, al_ring s)"
      using spsc.pop_empty [OF Suc.prems(1)] by (simp add: ring_256)
    then show ?thesis
      using Suc.prems Nil by (intro exI [of _ "al_ring s"] exI [of _ "al_samples s"]) simp
  next
    case (Cons b bs)
    obtain r1 where r1: "ring_pop LOG_RING_CAPACITY (al_ring s) = (Some b, r1)" "ring_inv 8 r1" "ring_list 8 r1 = bs"
      using spsc.pop_cons [OF Suc.prems(1) Cons] unfolding ring_256 by (metis prod.collapse)
    have h: "r_head r1 = r_head (al_ring s)" using r1(1) by (auto simp: ring_pop_def Let_def split: if_splits)
    have b: "batch_ok b" "\<forall>b \<in> set bs. batch_ok b" using Suc.prems(2) Cons by auto
    let ?s = "s\<lparr>al_ring := r1, al_queue := al_queue s @ [al_message repr b], al_samples := al_samples s + ucast (sample_count b)\<rparr>"
    obtain r x where "al_drain repr n ?s = Inr (min n (length bs), ?s\<lparr>al_ring := r,
        al_queue := (al_queue s @ [al_message repr b]) @ map (al_message repr) (take n bs), al_samples := x\<rparr>)"
      "ring_inv 8 r" "ring_list 8 r = drop n bs" "r_head r = r_head r1"
      using Suc.IH [of ?s] r1(2,3) b(2) by auto
    then show ?thesis
      by (intro exI [of _ r] exI [of _ x]) (simp add: r1(1) serialize_message [OF b(1)] message_eq Cons h)
  qed
qed

section \<open>Each turn keeps the invariant\<close>

lemma al_inv_simps:
  "al_inv s \<Longrightarrow> shm_wf (al_shm s)" "al_inv s \<Longrightarrow> cmd_write_idx (al_shm s) \<in> {0, 1}"
  "al_inv s \<Longrightarrow> length (cmd_buffers (al_shm s)) = 2"
  "al_inv s \<Longrightarrow> \<forall>c \<in> set (cmd_buffers (al_shm s)). command_wf c"
  by (simp_all add: al_inv_def shm_inv_def shm_wf_def)

text \<open>A turn succeeds, keeps the invariant and accounts for its batches; it moves the head of the ring by
  at most one, and while the threads run they go on running.\<close>

definition al_going :: "ActLog \<Rightarrow> bool" where
  "al_going s \<longleftrightarrow> al_loop s \<and> cp_on (al_comp s) \<and> cp_push_enabled (al_comp s)"

definition al_good ::
    "(SensorCommandPair \<Rightarrow> bytes) \<Rightarrow> (BatchLogRecord \<times> bool) list \<Rightarrow> SensorCommandPair list \<Rightarrow> ActLog \<Rightarrow> fault + ActLog \<Rightarrow> bool" where
  "al_good repr bs ps s m \<longleftrightarrow> (\<exists>s'. m = Inr s' \<and> al_inv s' \<and> al_accounts repr bs ps s s' \<and>
     unat (r_head (al_ring s')) \<le> Suc (unat (r_head (al_ring s))) \<and>
     (al_going s \<longrightarrow> cp_on (al_comp s') \<and> cp_push_enabled (al_comp s')) \<and> al_running s' = al_running s \<and>
     emergency_stop (al_shm s') = emergency_stop (al_shm s))"

lemma al_good_quiet:
  assumes "al_inv s'" "al_ring s' = al_ring s" "al_queue s' = al_queue s" "al_sends s' = al_sends s"
    "al_comp s' = al_comp s" "al_dropped s' = al_dropped s" "al_running s' = al_running s"
    "emergency_stop (al_shm s') = emergency_stop (al_shm s)"
  shows "al_good repr [] [] s (Inr s')"
  unfolding al_good_def
  using assms by (auto simp: al_pipeline_def al_going_def intro!: al_accounts_same)

lemma imu_wave_wf: "imu_wf (imu_wave rnd sn cs q now)"
  by (simp add: imu_wf_def imu_wave_def Let_def ImuStageData_zero_def zeros_def)

lemma imu_turn_good:
  assumes "al_inv s"
  shows "al_good repr [] [] s (imu_turn rnd sn cs now now2 s)"
proof -
  let ?d = "imu_wave rnd sn cs (it_seq (al_imu s)) now"
  have "dbuf_wf imu_wf (imu_stage (al_shm s))" using al_inv_simps(1) [OF assms] by (simp add: shm_wf_def)
  then obtain b where b: "publish i_timestamp_ns ?d (imu_stage (al_shm s)) = Inr b" "dbuf_wf imu_wf b"
    using imu_wave_wf by (rule publish_wf [where ts = i_timestamp_ns])
  let ?s = "s\<lparr>al_shm := (al_shm s)\<lparr>imu_stage := b\<rparr>, al_imu := x\<rparr>"
  have "al_inv (s\<lparr>al_shm := (al_shm s)\<lparr>imu_stage := b\<rparr>, al_imu := x\<rparr>)" for x
    using assms b(2) by (auto simp: al_inv_def shm_inv_def shm_wf_def stage_of_def split: staging.splits)
  moreover have "al_inv (s\<lparr>al_imu := x\<rparr>)" for x using assms by (simp add: al_inv_def)
  ultimately show ?thesis
    unfolding imu_turn_def Let_def b(1) using assms by (auto intro!: al_good_quiet)
qed

lemma group_turn_good:
  assumes "al_inv s"
  shows "al_good repr [] [] s (group_turn rnd64 stg now now2 s)"
proof -
  let ?shm = "al_shm s" and ?t = "al_group s stg"
  let ?cmd = "cmd_buffers ?shm ! unat (cmd_write_idx ?shm)"
  note i = al_inv_simps [OF assms]
  have cmd: "arr_get (cmd_buffers ?shm) (unat (cmd_write_idx ?shm)) = Inr ?cmd" "command_wf ?cmd"
    using i(2-4) by (auto simp: arr_get_def)
  have bank: "bank_ok (mt_motors ?t)" using assms by (simp add: al_inv_def)
  obtain ms g where g: "foldR (motor_joint rnd64 ?cmd (group_offset stg)) [0..<MOTORS_PER_GROUP]
      (mt_motors ?t, MotorGroupStageData_zero) = Inr (ms, g)" "bank_ok ms" "group_wf g" "group_in_limits g"
    by (rule motor_joints_ok [OF cmd(2) _ bank, of "group_offset stg"]) (simp add: group_offset_def split: staging.splits)
  let ?g = "g\<lparr>g_sequence := mt_seq ?t, g_timestamp_ns := now\<rparr>"
  have gw: "group_wf ?g" "group_in_limits ?g" using g(3,4) by (simp_all add: group_wf_def group_in_limits_def)
  have wf: "dbuf_wf group_wf (stage_of stg ?shm)" "dbuf_wf group_in_limits (stage_of stg ?shm)"
    using i(1) assms by (auto simp: shm_wf_def stage_of_def al_inv_def split: staging.splits)
  obtain b where b: "publish g_timestamp_ns ?g (stage_of stg ?shm) = Inr b" "dbuf_wf group_wf b"
    by (rule publish_wf [OF wf(1) gw(1), where ts = g_timestamp_ns])
  obtain b' where b': "publish g_timestamp_ns ?g (stage_of stg ?shm) = Inr b'" "dbuf_wf group_in_limits b'"
    by (rule publish_wf [OF wf(2) gw(2), where ts = g_timestamp_ns])
  have lim: "dbuf_wf group_in_limits b" using b b' by simp
  define shm1 where "shm1 = (case stg of StageA \<Rightarrow> ?shm\<lparr>motor_group_a_stage := b\<rparr> | StageB \<Rightarrow> ?shm\<lparr>motor_group_b_stage := b\<rparr>)"
  have p: "publish_stage stg ?g ?shm = Inr shm1"
    using b(1) by (cases stg) (simp_all add: publish_stage_def shm1_def stage_of_def)
  have s1: "shm_inv shm1" "emergency_stop shm1 = emergency_stop ?shm" "\<forall>st. dbuf_wf group_in_limits (stage_of st shm1)"
    using assms b(2) lim
    by (cases stg; auto simp: shm1_def al_inv_def shm_inv_def shm_wf_def stage_of_def split: staging.splits)+
  have "al_inv (s\<lparr>al_shm := shm1, al_group := (al_group s)(stg := ?t\<lparr>mt_motors := ms, mt_seq := x, mt_next := y\<rparr>)\<rparr>)" for x y
    using assms s1 g(2) by (simp add: al_inv_def)
  moreover have "al_inv (s\<lparr>al_group := (al_group s)(stg := ?t\<lparr>mt_on := False\<rparr>)\<rparr>)"
    using assms by (simp add: al_inv_def)
  ultimately show ?thesis
    unfolding group_turn_def Let_def using assms by (auto simp: cmd(1) g(1) p s1(2) intro!: al_good_quiet)
qed

lemma command_good:
  assumes "al_inv s" "command_wf cmd"
  shows "al_good repr [] [] s (bindR (put_command cmd (al_shm s)) (\<lambda>shm. Inr (s\<lparr>al_shm := shm\<rparr>)))"
proof -
  have si: "shm_inv (al_shm s)" using assms(1) by (simp add: al_inv_def)
  obtain shm' where p: "put_command cmd (al_shm s) = Inr shm'" "shm_inv shm'" "\<And>stg. stage_of stg shm' = stage_of stg (al_shm s)"
    using put_command_ok [OF si assms(2)] by metis
  have "emergency_stop shm' = emergency_stop (al_shm s)" using p(1) by (auto simp: put_command_def bindR_Inr_iff)
  moreover have "al_inv (s\<lparr>al_shm := shm'\<rparr>)" using assms(1) p(2,3) by (simp add: al_inv_def)
  ultimately show ?thesis by (auto simp: p(1) intro!: al_good_quiet)
qed

text \<open>Callbacks of the network library.\<close>

definition al_not_stuck :: "ActLog \<Rightarrow> bool" where
  "al_not_stuck s \<longleftrightarrow> (al_wsi s \<noteq> None \<and> al_queue s \<noteq> [] \<longrightarrow> al_asked s)"

definition al_same_side :: "ActLog \<Rightarrow> ActLog \<Rightarrow> bool" where
  "al_same_side s s' \<longleftrightarrow> al_shm s' = al_shm s \<and> al_group s' = al_group s \<and> al_comp s' = al_comp s \<and>
     al_dropped s' = al_dropped s \<and> al_running s' = al_running s"

lemma al_callback_ok:
  "al_not_stuck s \<Longrightarrow> al_not_stuck (al_callback r s)"
  "al_same_side s (al_callback r s)" "al_ring (al_callback r s) = al_ring s"
  "map fst (al_sends (al_callback r s)) @ al_queue (al_callback r s) = map fst (al_sends s) @ al_queue s"
  by (cases r; auto simp: al_callback_def al_not_stuck_def al_same_side_def split: list.split)+

lemma al_callbacks_ok:
  "(al_not_stuck s \<longrightarrow> al_not_stuck (fold al_callback rs s)) \<and> al_same_side s (fold al_callback rs s) \<and>
   al_ring (fold al_callback rs s) = al_ring s \<and>
   map fst (al_sends (fold al_callback rs s)) @ al_queue (fold al_callback rs s) = map fst (al_sends s) @ al_queue s"
proof (induction rs arbitrary: s)
  case Nil
  then show ?case by (simp add: al_same_side_def)
next
  case (Cons r rs)
  then show ?case using al_callback_ok [where s = s and r = r] Cons.IH [of "al_callback r s"] by (auto simp: al_same_side_def)
qed

lemma service_good:
  assumes "al_inv s"
  shows "al_good repr [] [] s (al_service_turn repr rs s)"
proof -
  have ring: "ring_inv 8 (al_ring s)" "\<forall>b \<in> set (ring_list 8 (al_ring s)). batch_ok b"
    using assms by (simp_all add: al_inv_def)
  let ?bs = "ring_list 8 (al_ring s)"
  obtain r x where d: "al_drain repr 10 s = Inr (min 10 (length ?bs),
      s\<lparr>al_ring := r, al_queue := al_queue s @ map (al_message repr) (take 10 ?bs), al_samples := x\<rparr>)"
    and r: "ring_inv 8 r" "ring_list 8 r = drop 10 ?bs" "r_head r = r_head (al_ring s)"
    using al_drain_ok [OF ring, of repr 10] by blast
  let ?s1 = "s\<lparr>al_ring := r, al_queue := al_queue s @ map (al_message repr) (take 10 ?bs), al_samples := x\<rparr>"
  define s2 where "s2 = (if 0 < min 10 (length ?bs)
    then ?s1\<lparr>al_drain_cycles := al_drain_cycles ?s1 + 1, al_asked := (al_wsi ?s1 \<noteq> None \<or> al_asked ?s1)\<rparr> else ?s1)"
  define s3 where "s3 = fold al_callback rs s2"
  have s2: "al_not_stuck s2" "al_same_side s s2" "al_ring s2 = r" "al_sends s2 = al_sends s"
    "al_queue s2 = al_queue s @ map (al_message repr) (take 10 ?bs)"
    using assms by (auto simp: s2_def al_not_stuck_def al_inv_def al_same_side_def)
  have s3: "al_not_stuck s3" "al_same_side s s3" "al_ring s3 = r"
    "map fst (al_sends s3) @ al_queue s3 = map fst (al_sends s) @ al_queue s @ map (al_message repr) (take 10 ?bs)"
    using al_callbacks_ok [where s = s2 and rs = rs] s2 by (simp_all add: s3_def al_same_side_def)
  have "al_pipeline repr s3 = (map fst (al_sends s3) @ al_queue s3) @ map (al_message repr) (drop 10 ?bs)"
    by (simp add: al_pipeline_def s3(3) r(2))
  also have "\<dots> = map fst (al_sends s) @ al_queue s @ map (al_message repr) (take 10 ?bs @ drop 10 ?bs)"
    unfolding s3(4) by (simp only: map_append append_assoc)
  also have "\<dots> = al_pipeline repr s" by (simp only: al_pipeline_def append_take_drop_id)
  finally have pipe: "al_pipeline repr s3 = al_pipeline repr s" .
  have inv: "al_inv s3"
    using assms s3 r(1,2) ring(2) by (auto simp: al_inv_def al_same_side_def al_not_stuck_def dest: in_set_dropD)
  have "al_good repr [] [] s (Inr s3)"
    unfolding al_good_def
    using inv pipe s3(2) r(3) by (auto simp: al_same_side_def al_going_def s3(3) intro!: al_accounts_same)
  moreover have "al_good repr [] [] s (Inr (s\<lparr>al_logger_on := False\<rparr>))"
    using assms by (auto simp: al_inv_def intro!: al_good_quiet)
  moreover have "al_good repr [] [] s (Inr s)" using assms by (rule al_good_quiet) simp_all
  ultimately show ?thesis
    by (simp add: al_service_turn_def d s3_def s2_def Let_def)
qed

section \<open>The composer's turn\<close>

lemma al_guard_frame:
  "cp_batch (al_guard k t1 t2 c) = cp_batch c" "cp_idx (al_guard k t1 t2 c) = cp_idx c"
  "cp_on (al_guard k t1 t2 c) = cp_on c" "cp_push_enabled c \<Longrightarrow> cp_push_enabled (al_guard k t1 t2 c)"
  by (simp_all add: al_guard_def Let_def)

lemma al_store_ok:
  assumes "al_comp_ok c"
  obtains c' where "al_store sd cmd c = Inr c'" "unat (cp_idx c') = Suc (unat (cp_idx c))"
    "length (samples (cp_batch c')) = BATCH_SIZE" "al_pending c' = al_pending c @ [\<lparr>p_sensor = sd, p_cmd = cmd\<rparr>]"
    "cp_on c' = cp_on c" "cp_push_enabled c' = cp_push_enabled c"
proof -
  let ?i = "unat (cp_idx c)" and ?p = "\<lparr>p_sensor = sd, p_cmd = cmd\<rparr>"
  have i: "?i < BATCH_SIZE" "length (samples (cp_batch c)) = BATCH_SIZE" using assms by (simp_all add: al_comp_ok_def)
  have s: "unat (cp_idx c + 1) = Suc ?i" using i(1) by (simp add: BATCH_SIZE_def unat_word_ariths)
  have "take (Suc ?i) ((samples (cp_batch c))[?i := ?p]) = take ?i (samples (cp_batch c)) @ [?p]"
    using i by (simp add: take_Suc_conv_app_nth)
  then show thesis
    by (intro that [of "c\<lparr>cp_batch := (cp_batch c)\<lparr>samples := (samples (cp_batch c))[?i := ?p]\<rparr>, cp_idx := cp_idx c + 1\<rparr>"])
      (use i s in \<open>simp_all add: al_store_def arr_set_def al_pending_def\<close>)
qed

lemma al_seal_simps:
  "batch_pairs (al_seal rid ts c) = al_pending c" "samples (al_seal rid ts c) = samples (cp_batch c)"
  "unat (cp_idx c) \<le> length (samples (cp_batch c)) \<Longrightarrow> batch_ok (al_seal rid ts c)"
  by (simp_all add: al_seal_def batch_pairs_def al_pending_def batch_ok_def)

lemma al_push_ring:
  assumes "ring_inv 8 r" "ring_room r" "ring_push LOG_RING_CAPACITY b r = (ok, r')"
  shows "ring_inv 8 r'" "ring_list 8 r' = ring_list 8 r @ (if ok then [b] else [])"
    "unat (r_head r') \<le> Suc (unat (r_head r))"
proof -
  have e: "ok = fst (ring_push (2 ^ 8) b r)" "r' = snd (ring_push (2 ^ 8) b r)"
    using assms(3) by (simp_all add: ring_256)
  show "ring_inv 8 r'" unfolding e using spsc.push_inv [OF assms(1,2)] by simp
  have l: "length (ring_list 8 r) < 2 ^ 8 \<or> length (ring_list 8 r) = 2 ^ 8"
    using spsc.contents_le [OF assms(1)] by linarith
  show "ring_list 8 r' = ring_list 8 r @ (if ok then [b] else [])"
    unfolding e using l spsc.push_free [OF assms(1,2), of b] spsc.push_full [OF assms(1), of b] by auto
  have "r_head r' = r_head r \<or> r_head r' = r_head r + 1"
    using assms(3) by (auto simp: ring_push_def Let_def split: if_splits)
  then show "unat (r_head r') \<le> Suc (unat (r_head r))"
    using assms(2) by (auto simp: ring_room_def unat_succ_u64)
qed

lemma al_compose_good:
  assumes "al_inv s" "ring_room (al_ring s)" "al_loop s" "cp_on (al_comp s)"
  shows "\<exists>bs ps. al_good repr bs ps s (al_compose now t1 t2 now2 s) \<and>
    (cp_push_enabled (al_comp s) \<longrightarrow> map (\<lambda>p. compose_timestamp_ns (p_sensor p)) ps = [now])"
proof -
  let ?shm = "al_shm s"
  note i = al_inv_simps [OF assms(1)]
  obtain imu a b where r: "read_buf (imu_stage ?shm) = Inr imu" "read_buf (motor_group_a_stage ?shm) = Inr a"
    "read_buf (motor_group_b_stage ?shm) = Inr b"
    using i(1) read_wf [of imu_wf "imu_stage ?shm"] read_wf [of group_wf "motor_group_a_stage ?shm"]
      read_wf [of group_wf "motor_group_b_stage ?shm"] unfolding shm_wf_def by metis
  define sd where "sd = al_snapshot now imu a b"
  have ts: "compose_timestamp_ns sd = now" by (simp add: sd_def al_snapshot_def Let_def)
  obtain shm1 where p: "publish_composed sd ?shm = Inr shm1" "shm_wf shm1" "cmd_buffers shm1 = cmd_buffers ?shm"
    "cmd_write_idx shm1 = cmd_write_idx ?shm"
    by (rule publish_composed_ok [OF i(1)])
  have pe: "emergency_stop shm1 = emergency_stop ?shm" "stage_of stg shm1 = stage_of stg ?shm" for stg
    using p(1) by (auto simp: publish_composed_def bindR_Inr_iff Let_def stage_of_def split: staging.splits)
  define cmd where "cmd = cmd_buffers ?shm ! unat (cmd_write_idx ?shm)"
  have cmd: "arr_get (cmd_buffers shm1) (unat (cmd_write_idx shm1)) = Inr cmd"
    using i(2,3) by (auto simp: arr_get_def p(3,4) cmd_def)
  have shm1: "shm_inv shm1" using p(2,3) i(4) by (simp add: shm_inv_def)
  define s1 where "s1 = s\<lparr>al_shm := shm1\<rparr>"
  define c where "c = al_guard (al_connected s1) t1 t2 ((al_comp s1)\<lparr>cp_last_cmd_seq := c_sequence cmd\<rparr>)"
  have c: "cp_batch c = cp_batch (al_comp s)" "cp_idx c = cp_idx (al_comp s)" "cp_on c = cp_on (al_comp s)"
    "cp_push_enabled (al_comp s) \<Longrightarrow> cp_push_enabled c" "al_pending c = al_pending (al_comp s)"
    by (simp_all add: c_def s1_def al_guard_frame al_pending_def)
  have cok: "al_comp_ok c" using assms(1) c(1,2) by (simp add: al_comp_ok_def al_inv_def)
  let ?fin = "\<lambda>s2. s2\<lparr>al_comp := (al_comp s2)\<lparr>cp_seq := cp_seq (al_comp s2) + 1,
      cp_next := al_pace (cp_period (al_comp s2)) now2 (cp_next (al_comp s2))\<rparr>\<rparr>"
  have fin: "al_pending (d\<lparr>cp_seq := x, cp_next := y\<rparr>) = al_pending d" "al_comp_ok (d\<lparr>cp_seq := x, cp_next := y\<rparr>) = al_comp_ok d" for d x y
    by (simp_all add: al_pending_def al_comp_ok_def)
  have base: "al_inv (?fin (s1\<lparr>al_ring := r, al_dropped := x, al_comp := c'\<rparr>))"
    if "ring_inv 8 r" "\<forall>b \<in> set (ring_list 8 r). batch_ok b" "al_comp_ok c'" for r x c'
    using assms(1) shm1 pe(2) that by (simp add: al_inv_def s1_def) (simp add: al_comp_ok_def)
  have ring: "ring_inv 8 (al_ring s)" "\<forall>b \<in> set (ring_list 8 (al_ring s)). batch_ok b"
    using assms(1) by (simp_all add: al_inv_def)
  have step: "al_compose now t1 t2 now2 s = bindR (if \<not> cp_push_enabled c then Inr (s1\<lparr>al_comp := c\<rparr>)
      else bindR (al_store sd cmd c) (\<lambda>c1.
        Inr (if of_nat BATCH_SIZE \<le> cp_idx c1 then al_push now s1 c1 else s1\<lparr>al_comp := c1\<rparr>))) (\<lambda>s2. Inr (?fin s2))"
    by (simp only: al_compose_def Let_def r p(1) cmd bindR_simps sd_def [symmetric] s1_def [symmetric] c_def [symmetric])
  show ?thesis
  proof (cases "cp_push_enabled c")
    case False
    let ?t = "?fin (s1\<lparr>al_comp := c\<rparr>)"
    have e: "al_compose now t1 t2 now2 s = Inr ?t" using False by (simp add: step)
    have q: "s1\<lparr>al_comp := c\<rparr> = s1\<lparr>al_ring := al_ring s, al_dropped := al_dropped s, al_comp := c\<rparr>" by (simp add: s1_def)
    have "al_inv ?t" unfolding q by (rule base [OF ring cok])
    moreover have "al_accounts repr [] [] s ?t"
      by (rule al_accounts_same) (simp_all add: al_pipeline_def s1_def fin c(5))
    ultimately have "al_good repr [] [] s (al_compose now t1 t2 now2 s)"
      unfolding e al_good_def using c(3,4) pe(1) False by (simp add: s1_def al_going_def) auto
    then show ?thesis using c(4) False by blast
  next
    case True
    obtain c1 where c1: "al_store sd cmd c = Inr c1" "unat (cp_idx c1) = Suc (unat (cp_idx c))"
      "length (samples (cp_batch c1)) = BATCH_SIZE" "al_pending c1 = al_pending c @ [\<lparr>p_sensor = sd, p_cmd = cmd\<rparr>]"
      "cp_on c1 = cp_on c" "cp_push_enabled c1 = cp_push_enabled c"
      by (rule al_store_ok [OF cok])
    let ?ps = "[\<lparr>p_sensor = sd, p_cmd = cmd\<rparr>]"
    show ?thesis
    proof (cases "of_nat BATCH_SIZE \<le> cp_idx c1")
      case False
      then have i1: "unat (cp_idx c1) < BATCH_SIZE" by (simp add: BATCH_SIZE_def word_le_nat_alt)
      let ?t = "?fin (s1\<lparr>al_comp := c1\<rparr>)"
      have e: "al_compose now t1 t2 now2 s = Inr ?t" using False True by (simp add: step c1(1))
      have q: "s1\<lparr>al_comp := c1\<rparr> = s1\<lparr>al_ring := al_ring s, al_dropped := al_dropped s, al_comp := c1\<rparr>" by (simp add: s1_def)
      have "al_inv ?t" unfolding q by (rule base [OF ring]) (simp add: al_comp_ok_def i1 c1(3))
      moreover have "al_accounts repr [] ?ps s ?t"
        by (simp add: al_accounts_def al_pipeline_def s1_def fin c1(4) c(5))
      ultimately have "al_good repr [] ?ps s (al_compose now t1 t2 now2 s)"
        unfolding e al_good_def using c(3) c1(5,6) pe(1) True by (simp add: s1_def al_going_def)
      then show ?thesis using ts by (intro exI [of _ "[]"] exI [of _ ?ps]) simp
    next
      case full: True
      have i1: "unat (cp_idx c1) = BATCH_SIZE"
        using full c1(2) cok by (simp add: BATCH_SIZE_def word_le_nat_alt al_comp_ok_def)
      let ?b = "al_seal (al_robot_id s1) now c1"
      obtain ok r' where pu: "ring_push LOG_RING_CAPACITY ?b (al_ring s) = (ok, r')" by fastforce
      note pr = al_push_ring [OF ring(1) assms(2) pu]
      let ?c2 = "c1\<lparr>cp_batch := ?b, cp_batch_seq := cp_batch_seq c1 + 1, cp_idx := 0\<rparr>"
      let ?t = "?fin (s1\<lparr>al_ring := r', al_dropped := (if ok then al_dropped s else al_dropped s + 1), al_comp := ?c2\<rparr>)"
      have r1: "al_ring s1 = al_ring s" "al_dropped s1 = al_dropped s" by (simp_all add: s1_def)
      have e: "al_compose now t1 t2 now2 s = Inr ?t"
        using full True by (simp add: step c1(1) al_push_def Let_def r1 pu)
      have bok: "batch_ok ?b" using i1 c1(3) by (intro al_seal_simps(3)) simp
      have "al_inv ?t"
        by (rule base [OF pr(1)]) (use bok ring(2) pr(2) c1(3) in \<open>auto simp: al_comp_ok_def BATCH_SIZE_def al_seal_simps\<close>)
      moreover have "al_accounts repr [(?b, ok)] ?ps s ?t"
        using pr(2) by (simp add: al_accounts_def al_pipeline_def s1_def al_seal_simps c1(4) c(5)) (simp add: al_pending_def)
      ultimately have "al_good repr [(?b, ok)] ?ps s (al_compose now t1 t2 now2 s)"
        unfolding e al_good_def using c(3) c1(5,6) pe(1) True pr(3) by (simp add: s1_def al_going_def)
      then show ?thesis using ts by (intro exI [of _ "[(?b, ok)]"] exI [of _ ?ps]) simp
    qed
  qed
qed

section \<open>Runs\<close>

definition al_safe :: "ActLog \<Rightarrow> fault + ActLog \<Rightarrow> bool" where
  "al_safe s m \<longleftrightarrow> (\<exists>s'. m = Inr s' \<and> al_inv s' \<and> unat (r_head (al_ring s')) \<le> Suc (unat (r_head (al_ring s))))"

lemma al_good_safe: "al_good repr bs ps s m \<Longrightarrow> al_safe s m"
  by (auto simp: al_good_def al_safe_def)

lemma compose_exit_safe:
  assumes "al_inv s" "ring_room (al_ring s)"
  shows "al_safe s (Inr (al_compose_exit now s))"
proof -
  let ?c = "(al_comp s)\<lparr>cp_on := False\<rparr>"
  let ?b = "al_seal (al_robot_id s) now ?c"
  obtain ok r where pu: "ring_push LOG_RING_CAPACITY ?b (al_ring s) = (ok, r)" by fastforce
  have ring: "ring_inv 8 (al_ring s)" "al_comp_ok (al_comp s)" using assms(1) by (simp_all add: al_inv_def)
  note pr = al_push_ring [OF ring(1) assms(2) pu]
  have bok: "batch_ok ?b" using ring(2) by (intro al_seal_simps(3)) (simp add: al_comp_ok_def)
  have "al_inv (s\<lparr>al_ring := r, al_comp := ?c\<lparr>cp_batch := ?b, cp_batch_seq := cp_batch_seq ?c + 1\<rparr>\<rparr>)"
    using assms(1) pr(1,2) bok by (auto simp: al_inv_def al_comp_ok_def al_seal_simps)
  moreover have "al_inv (s\<lparr>al_comp := ?c\<rparr>)" using assms(1) by (simp add: al_inv_def al_comp_ok_def)
  ultimately show ?thesis
    using pr(3) by (simp add: al_safe_def al_compose_exit_def Let_def pu)
qed

fun al_event_ok :: "al_event \<Rightarrow> bool" where
  "al_event_ok (NewCommand cmd) = command_wf cmd"
| "al_event_ok e = True"

fun al_keeps_running :: "al_event \<Rightarrow> bool" where
  "al_keeps_running EmergencyStop = False"
| "al_keeps_running StopRunning = False"
| "al_keeps_running e = True"

fun al_compose_time :: "al_event \<Rightarrow> u64 list" where
  "al_compose_time (ComposeTurn now t1 t2 now2) = [now]"
| "al_compose_time e = []"

lemma al_step_safe:
  assumes "al_inv s" "ring_room (al_ring s)" "al_event_ok e"
  shows "al_safe s (al_step rnd64 sn cs repr e s)"
proof (cases e)
  case (ImuTurn now now2)
  then show ?thesis by (simp add: al_step_def al_good_safe [OF imu_turn_good [OF assms(1)]])
next
  case (GroupTurn stg now now2)
  then show ?thesis by (simp add: al_step_def al_good_safe [OF group_turn_good [OF assms(1)]])
next
  case (ComposeTurn now t1 t2 now2)
  have "al_safe s (Inr s)" using assms(1) by (simp add: al_safe_def)
  moreover have "al_safe s (al_compose now t1 t2 now2 s)" if "al_loop s" "cp_on (al_comp s)"
    using al_compose_good [OF assms(1,2) that] al_good_safe by blast
  ultimately show ?thesis
    using compose_exit_safe [OF assms(1,2)] by (simp add: ComposeTurn al_step_def al_compose_turn_def)
next
  case (ServiceTurn rs)
  then show ?thesis by (simp add: al_step_def al_good_safe [OF service_good [OF assms(1)]])
next
  case (NewCommand cmd)
  then show ?thesis using assms(3) by (simp add: al_step_def al_good_safe [OF command_good [OF assms(1)]])
next
  case EmergencyStop
  have "shm_inv (shm\<lparr>emergency_stop := True\<rparr>) = shm_inv shm" "stage_of stg (shm\<lparr>emergency_stop := True\<rparr>) = stage_of stg shm" for shm stg
    by (simp_all add: shm_inv_def shm_wf_def stage_of_def split: staging.split)
  then show ?thesis using EmergencyStop assms(1) by (simp add: al_step_def al_safe_def al_inv_def)
next
  case StopRunning
  then show ?thesis using assms(1) by (simp add: al_step_def al_safe_def al_inv_def)
qed

lemma al_run_safe:
  assumes "al_inv s" "list_all al_event_ok es" "unat (r_head (al_ring s)) + length es < 2 ^ 64"
  shows "\<exists>s'. foldR (al_step rnd64 sn cs repr) es s = Inr s' \<and> al_inv s'"
  using assms
proof (induction es arbitrary: s)
  case (Cons e es)
  have "ring_room (al_ring s)" using Cons.prems(3) by (auto simp: ring_room_def)
  then obtain t where t: "al_step rnd64 sn cs repr e s = Inr t" "al_inv t" "unat (r_head (al_ring t)) \<le> Suc (unat (r_head (al_ring s)))"
    using al_step_safe [OF Cons.prems(1), of e sn cs repr] Cons.prems(2) by (auto simp: al_safe_def)
  then show ?case using Cons.IH [of t] Cons.prems by simp
qed simp

lemma al_step_accounts:
  assumes "al_inv s" "al_going s" "ring_room (al_ring s)" "al_event_ok e" "al_keeps_running e"
  shows "\<exists>bs ps. al_good repr bs ps s (al_step rnd64 sn cs repr e s) \<and>
    map (\<lambda>p. compose_timestamp_ns (p_sensor p)) ps = al_compose_time e"
proof (cases e)
  case (ComposeTurn now t1 t2 now2)
  then show ?thesis
    using al_compose_good [OF assms(1,3), where now = now and ?t1.0 = t1 and ?t2.0 = t2 and ?now2.0 = now2 and repr = repr] assms(2)
    by (simp add: al_step_def al_compose_turn_def al_going_def)
next
  case (ImuTurn now now2)
  then show ?thesis using imu_turn_good [OF assms(1)] by (intro exI [of _ "[]"]) (simp add: al_step_def)
next
  case (GroupTurn stg now now2)
  then show ?thesis using group_turn_good [OF assms(1)] by (intro exI [of _ "[]"]) (simp add: al_step_def)
next
  case (ServiceTurn rs)
  then show ?thesis using service_good [OF assms(1)] by (intro exI [of _ "[]"]) (simp add: al_step_def)
next
  case (NewCommand cmd)
  then show ?thesis using command_good [OF assms(1)] assms(4) by (intro exI [of _ "[]"]) (simp add: al_step_def)
qed (use assms(5) in simp_all)

lemma al_run_accounts:
  assumes "al_inv s" "al_going s" "list_all al_event_ok es" "list_all al_keeps_running es"
    "unat (r_head (al_ring s)) + length es < 2 ^ 64"
  shows "\<exists>s' bs ps. foldR (al_step rnd64 sn cs repr) es s = Inr s' \<and> al_inv s' \<and> al_going s' \<and> al_accounts repr bs ps s s' \<and>
    map (\<lambda>p. compose_timestamp_ns (p_sensor p)) ps = concat (map al_compose_time es)"
  using assms
proof (induction es arbitrary: s)
  case Nil
  then show ?case
    by (intro exI [of _ s] exI [of _ "[]"]) (simp add: al_accounts_same)
next
  case (Cons e es)
  have "ring_room (al_ring s)" using Cons.prems(5) by (auto simp: ring_room_def)
  then obtain bs ps t where t: "al_step rnd64 sn cs repr e s = Inr t" "al_inv t" "al_accounts repr bs ps s t"
    "unat (r_head (al_ring t)) \<le> Suc (unat (r_head (al_ring s)))" "al_going t"
    "map (\<lambda>p. compose_timestamp_ns (p_sensor p)) ps = al_compose_time e"
    using al_step_accounts [OF Cons.prems(1,2), of e repr sn cs] Cons.prems(2,3,4)
    by (auto simp: al_good_def al_going_def al_loop_def)
  obtain u bs' ps' where u: "foldR (al_step rnd64 sn cs repr) es t = Inr u" "al_inv u" "al_going u"
    "al_accounts repr bs' ps' t u" "map (\<lambda>p. compose_timestamp_ns (p_sensor p)) ps' = concat (map al_compose_time es)"
    using Cons.IH [OF t(2,5)] Cons.prems(3-5) t(4) by auto
  show ?case
    using t(1,6) u(1,2,3,5) al_accounts_trans [OF t(3) u(4)] by (intro exI [of _ u] exI [of _ "bs @ bs'"] exI [of _ "ps @ ps'"]) simp
qed

section \<open>Properties\<close>

text \<open>The state \<open>main\<close> starts the threads in.\<close>

lemma al_launch_inv:
  assumes "al_attach rid (Some shm) = Inr shm'" "shm_inv shm" "\<And>stg. dbuf_wf group_in_limits (stage_of stg shm)"
  shows "al_inv (al_launch rid now net_ok shm')"
proof -
  have e: "shm' = shm\<lparr>robot_id := rid\<rparr>" using assms(1) by (simp add: al_attach_def split: if_splits)
  have "shm_inv shm'" "stage_of stg shm' = stage_of stg shm" for stg
    using assms(2) by (auto simp: e shm_inv_def shm_wf_def stage_of_def split: staging.split)
  then show ?thesis
    using assms(3) log_ring_init [of Batch_zero] sim_motor_init_ok
    by (simp add: al_inv_def al_launch_def motor_thread_start_def compose_thread_start_def bank_ok_def MOTORS_PER_GROUP_def
        al_comp_ok_def Batch_zero_def BATCH_SIZE_def)
qed

text \<open>From the start, no sequence of turns of the five threads, callbacks, commands and stops faults, whatever
  numbers (NaN and infinities included) the commands hold: every simulated motor and every published
  position, velocity and torque stays in its limits, and while there is a connection a queued
  message has a writeable callback outstanding.\<close>

theorem actuator_logger_safe:
  assumes "al_attach rid (Some shm) = Inr shm'" "shm_inv shm" "\<And>stg. dbuf_wf group_in_limits (stage_of stg shm)"
    "list_all al_event_ok es" "length es < 2 ^ 64"
  shows "\<exists>s. foldR (al_step rnd64 sn cs repr) es (al_launch rid now net_ok shm') = Inr s \<and>
    (\<forall>stg. \<forall>m \<in> set (mt_motors (al_group s stg)). sim_motor_ok m) \<and>
    (\<forall>stg. \<exists>g. read_buf (stage_of stg (al_shm s)) = Inr g \<and> group_in_limits g) \<and> al_not_stuck s"
proof -
  have h: "unat (r_head (al_ring (al_launch rid now net_ok shm'))) + length es < 2 ^ 64"
    using assms(5) by (simp add: al_launch_def ring_init_def)
  obtain s where "foldR (al_step rnd64 sn cs repr) es (al_launch rid now net_ok shm') = Inr s" "al_inv s"
    using al_run_safe [OF al_launch_inv [OF assms(1-3)] assms(4) h] by blast
  then show ?thesis by (auto simp: al_inv_def bank_ok_def al_not_stuck_def read_wf)
qed

text \<open>While the composer pushes, every sample is in exactly one batch, in order; each batch is on its
  way to the network, in order and once, or counted as dropped.\<close>

theorem actuator_logger_accounts:
  assumes "al_inv s" "al_going s" "list_all al_event_ok es" "list_all al_keeps_running es"
    "unat (r_head (al_ring s)) + length es < 2 ^ 64"
  shows "\<exists>s' bs ps. foldR (al_step rnd64 sn cs repr) es s = Inr s' \<and>
    map (\<lambda>p. compose_timestamp_ns (p_sensor p)) ps = concat (map al_compose_time es) \<and>
    concat (map (batch_pairs \<circ> fst) bs) @ al_pending (al_comp s') = al_pending (al_comp s) @ ps \<and>
    al_pipeline repr s' = al_pipeline repr s @ map (al_message repr \<circ> fst) (filter snd bs) \<and>
    al_dropped s' = al_dropped s + of_nat (length (filter (Not \<circ> snd) bs))"
  using al_run_accounts [OF assms, of sn cs repr] unfolding al_accounts_def by blast

text \<open>Once \<open>g_running\<close> is cleared nothing more is sent or queued: the batches in the ring, the queue and the
  rest of the last batch, which the composer still pushes, stay in memory.\<close>

lemma stopped_step:
  assumes "\<not> al_running s" "al_step rnd sn cs repr e s = Inr s'"
  shows "\<not> al_running s' \<and> al_sends s' = al_sends s \<and> al_queue s' = al_queue s"
proof -
  have "\<not> al_loop s" using assms(1) by (simp add: al_loop_def)
  then show ?thesis
    using assms
    by (cases e) (auto simp: al_step_def imu_turn_def group_turn_def al_compose_turn_def al_service_turn_def
        al_compose_exit_def Let_def bindR_Inr_iff split: if_splits)
qed

theorem nothing_sent_after_stop:
  assumes "foldR (al_step rnd sn cs repr) (StopRunning # es) s = Inr s'"
  shows "al_sends s' = al_sends s \<and> al_queue s' = al_queue s"
proof -
  let ?P = "\<lambda>t. \<not> al_running t \<and> al_sends t = al_sends s \<and> al_queue t = al_queue s"
  have r: "foldR (al_step rnd sn cs repr) es (s\<lparr>al_running := False\<rparr>) = Inr s'" using assms by (simp add: al_step_def)
  have "?P s'"
    by (rule foldR_inv [where P = ?P, OF _ _ r]) (auto dest: stopped_step)
  then show ?thesis by simp
qed

text \<open>The connection is requested once.  After it has closed no callback of it comes, and the drained batches
  collect in the queue without a bound.\<close>

fun al_no_network :: "al_event \<Rightarrow> bool" where
  "al_no_network (ServiceTurn rs) = list_all (\<lambda>r. r \<in> {MqttRx, MqttClosed, OtherReason}) rs"
| "al_no_network e = True"

lemma quiet_callbacks:
  "list_all (\<lambda>r. r \<in> {MqttRx, MqttClosed, OtherReason}) rs \<Longrightarrow>
   al_sends (fold al_callback rs s) = al_sends s \<and> al_queue (fold al_callback rs s) = al_queue s"
  by (induction rs arbitrary: s) (auto simp: al_callback_def)

lemma al_drain_queue:
  "al_drain repr n s = Inr (k, s') \<Longrightarrow> al_sends s' = al_sends s \<and> (\<exists>xs. al_queue s' = al_queue s @ xs)"
proof (induction n arbitrary: s k)
  case (Suc n)
  obtain x r where p: "ring_pop LOG_RING_CAPACITY (al_ring s) = (x, r)" by fastforce
  show ?case
  proof (cases x)
    case None
    then show ?thesis using Suc.prems p by auto
  next
    case (Some b)
    then show ?thesis using Suc.prems p Suc.IH by (fastforce simp: bindR_Inr_iff)
  qed
qed simp

lemma al_compose_frame:
  assumes "al_compose now t1 t2 now2 s = Inr s'"
  shows "al_sends s' = al_sends s \<and> al_queue s' = al_queue s"
proof -
  have push: "al_sends (al_push now u c) = al_sends u" "al_queue (al_push now u c) = al_queue u" for u c
    by (simp_all add: al_push_def Let_def split: prod.split)
  show ?thesis
    using assms unfolding al_compose_def Let_def bindR_Inr_iff
    by (elim exE conjE) (clarsimp simp: push bindR_Inr_iff split: if_split_asm; auto simp: push)
qed

lemma silent_step:
  assumes "al_no_network e" "al_step rnd sn cs repr e s = Inr s'"
  shows "al_sends s' = al_sends s \<and> (\<exists>xs. al_queue s' = al_queue s @ xs)"
proof (cases e)
  case (ServiceTurn rs)
  show ?thesis
  proof (cases "al_logger_on s \<and> al_running s")
    case True
    obtain k s1 where d: "al_drain repr 10 s = Inr (k, s1)"
      "s' = fold al_callback rs (if 0 < k then s1\<lparr>al_drain_cycles := al_drain_cycles s1 + 1,
         al_asked := (al_wsi s1 \<noteq> None \<or> al_asked s1)\<rparr> else s1)"
      using assms(2) True by (auto simp: ServiceTurn al_step_def al_service_turn_def bindR_Inr_iff Let_def)
    then show ?thesis
      using al_drain_queue [OF d(1)] quiet_callbacks [of rs] assms(1) by (simp add: ServiceTurn)
  next
    case False
    then show ?thesis using assms(2) by (auto simp: ServiceTurn al_step_def al_service_turn_def split: if_splits)
  qed
next
  case (ComposeTurn now t1 t2 now2)
  then show ?thesis
    using assms(2) al_compose_frame [of now t1 t2 now2 s s']
    by (auto simp: al_step_def al_compose_turn_def al_compose_exit_def Let_def split: if_splits)
qed (use assms(2) in \<open>auto simp: al_step_def imu_turn_def group_turn_def Let_def bindR_Inr_iff split: if_splits prod.splits\<close>)

theorem closed_connection_backlog:
  assumes "foldR (al_step rnd sn cs repr) (ServiceTurn [MqttClosed] # es) s = Inr s'" "list_all al_no_network es"
  shows "al_sends s' = al_sends s \<and> (\<exists>xs. al_queue s' = al_queue s @ xs)"
proof -
  let ?P = "\<lambda>t. al_sends t = al_sends s \<and> (\<exists>xs. al_queue t = al_queue s @ xs)"
  show ?thesis
  proof (rule foldR_inv [where P = ?P, OF _ _ assms(1)])
    fix e t t'
    assume "e \<in> set (ServiceTurn [MqttClosed] # es)" "?P t" "al_step rnd sn cs repr e t = Inr t'"
    moreover have "al_no_network e" using \<open>e \<in> _\<close> assms(2) by (auto simp: list_all_iff)
    ultimately show "?P t'" using silent_step by fastforce
  qed simp
qed

end
