(* ===== verification/ModeThread.thy ===== *)
theory ModeThread
  imports DsConnection
begin

text \<open>
  \<open>tools/DriverStationModeThread.cpp\<close>: a thread that waits on an event of its own for new
  driver-station data, refreshes the data and prints which mode the user code claims to be in.  The
  destructor clears \<open>m_keepAlive\<close> and joins the thread.  The thread is number 1; a step is one packet of
  the network thread, one piece of the thread's loop, or a call from outside.
\<close>

section \<open>State\<close>

datatype mode_phase = ModeTest handle | ModeWaiting handle wait_frame | ModeDone

datatype user_mode = UserDisabled | UserAutonomous | UserTeleop | UserTest

record mode_thread =
  md_process :: ds_process
  m_keepAlive :: bool
  m_userIn :: "user_mode \<Rightarrow> bool"
  md_phase :: mode_phase
  md_woken :: bool
  md_out :: "user_mode list"

section \<open>The thread\<close>

text \<open>\<open>Run\<close> up to its loop; \<open>Event{false, false}\<close> resets itself.\<close>

definition mode_start :: "ds_process \<Rightarrow> mode_thread" where
  "mode_start p =
     (let (h, m) = createEvent False False (pr_mgr p)
      in \<lparr>md_process = p\<lparr>pr_mgr := m, pr_ds := HAL_ProvideNewDataEventHandle (unat h) (pr_ds p)\<rparr>,
          m_keepAlive = True, m_userIn = (\<lambda>_. False), md_phase = ModeTest h, md_woken = False, md_out = []\<rparr>)"

definition mode_prints :: "mode_thread \<Rightarrow> user_mode list" where
  "mode_prints s = filter (m_userIn s) [UserDisabled, UserAutonomous, UserTeleop]"

text \<open>What follows a wait that returned.\<close>

definition mode_body :: "handle \<Rightarrow> mode_thread \<Rightarrow> fault + mode_thread" where
  "mode_body h s =
     bindR (process_refreshData (md_process s)) (\<lambda>(ws, p).
       Inr (s\<lparr>md_process := p, md_phase := ModeTest h, md_woken := False, md_out := md_out s @ mode_prints s\<rparr>))"

definition mode_settle :: "handle \<Rightarrow> wait_result \<times> HandleManager \<Rightarrow> mode_thread \<Rightarrow> fault + mode_thread" where
  "mode_settle h r s =
     (let s1 = s\<lparr>md_process := (md_process s)\<lparr>pr_mgr := snd r\<rparr>\<rparr> in
      case fst r of
        Blocked f \<Rightarrow> Inr (s1\<lparr>md_phase := ModeWaiting h f, md_woken := False\<rparr>)
      | Finished sig b \<Rightarrow> mode_body h s1)"

text \<open>After the loop the event is taken out and, as \<open>event\<close> goes out of scope, destroyed.\<close>

definition mode_exit :: "handle \<Rightarrow> mode_thread \<Rightarrow> mode_thread" where
  "mode_exit h s =
     (let p = md_process s; p1 = p\<lparr>pr_ds := HAL_RemoveNewDataEventHandle (unat h) (pr_ds p)\<rparr>
      in s\<lparr>md_process := p1\<lparr>pr_mgr := snd (destroyEvent h (pr_mgr p1))\<rparr>, md_phase := ModeDone\<rparr>)"

definition mode_run :: "mode_thread \<Rightarrow> fault + mode_thread" where
  "mode_run s =
     (case md_phase s of
        ModeDone \<Rightarrow> Inr s
      | ModeTest h \<Rightarrow>
          if \<not> m_keepAlive s then Inr (mode_exit h s)
          else mode_settle h (waitForObject 1 h (Fin (- 1)) (pr_mgr (md_process s))) s
      | ModeWaiting h f \<Rightarrow> mode_settle h (wait_round False 1 f (pr_mgr (md_process s))) s)"

section \<open>The thread and what happens around it\<close>

datatype mode_event = ModePacket bytes | ModeRun | ModeSet user_mode bool | ModeStop

definition mode_step :: "(real \<Rightarrow> real) \<Rightarrow> (real \<Rightarrow> real) \<Rightarrow> mode_event \<Rightarrow> mode_thread \<Rightarrow> fault + mode_thread" where
  "mode_step rnd fl e s =
     (case e of
        ModePacket payload \<Rightarrow> bindR (process_packet rnd fl payload (md_process s)) (\<lambda>(ws, p).
          Inr (s\<lparr>md_process := p, md_woken := md_woken s \<or> 1 \<in> set ws\<rparr>))
      | ModeRun \<Rightarrow> mode_run s
      | ModeSet u b \<Rightarrow> Inr (s\<lparr>m_userIn := (m_userIn s)(u := b)\<rparr>)
      | ModeStop \<Rightarrow> Inr (s\<lparr>m_keepAlive := False\<rparr>))"

text \<open>The destructor returns when the thread has ended.\<close>

definition mode_joined :: "mode_thread \<Rightarrow> bool" where
  "mode_joined s \<longleftrightarrow> md_phase s = ModeDone"

section \<open>What the thread keeps\<close>

abbreviation mode_frame :: "handle \<Rightarrow> wait_frame" where
  "mode_frame h \<equiv> \<lparr>wf_handles = [h], wf_size = 1, wf_timeout = Fin (- 1), wf_added = True\<rparr>"

definition process_ok :: "ds_process \<Rightarrow> bool" where
  "process_ok p \<longleftrightarrow> ds_ok (pr_ds p) \<and> ds_initialized (pr_ds p) \<and> (case pr_inst p of None \<Rightarrow> True | Some d \<Rightarrow> inst_ok d) \<and>
     refreshEvents p = [] \<and> \<not> gShutdown (pr_mgr p)"

definition event_entry :: "handle \<Rightarrow> nat list \<Rightarrow> mode_thread \<Rightarrow> int \<Rightarrow> bool" where
  "event_entry h ws s n \<longleftrightarrow> (n = 0 \<or> n = 1) \<and>
     hm_states (pr_mgr (md_process s)) h = Some \<lparr>signaled = n, autoReset = True, sy_waiters = ws\<rparr>"

text \<open>\<open>got\<close>: a packet has come that the thread has not yet seen.\<close>

definition mode_ready :: "handle \<Rightarrow> bool \<Rightarrow> mode_thread \<Rightarrow> bool" where
  "mode_ready h got s \<longleftrightarrow> process_ok (md_process s) \<and> handle_type h = kHandleTypeEvent \<and>
     newDataEvents (pr_ds (md_process s)) = [unat h] \<and>
     (md_phase s = ModeTest h \<and> event_entry h [] s (of_bool got) \<or>
      md_phase s = ModeWaiting h (mode_frame h) \<and> event_entry h [1] s (of_bool got) \<and> (got \<longrightarrow> md_woken s))"

lemma mode_start_ready:
  assumes "process_ok p" "newDataEvents (pr_ds p) = []" "length (eventIds (pr_mgr p)) < 2 ^ 24"
    "hm_states (pr_mgr p) (make_handle kHandleTypeEvent (length (eventIds (pr_mgr p)))) = None"
  shows "mode_ready (make_handle kHandleTypeEvent (length (eventIds (pr_mgr p)))) False (mode_start p)"
proof -
  have "handle_type (make_handle kHandleTypeEvent n) = kHandleTypeEvent" for n
  proof -
    have "drop_bit 24 (of_nat n AND 0xffffff :: u32) = 0"
      by (rule bit_word_eqI) (auto simp: bit_simps)
    then show ?thesis by (simp add: handle_type_def make_handle_def kHandleTypeEvent_def drop_bit_or)
  qed
  then show ?thesis
    using assms by (simp add: mode_start_def createEvent_def process_ok_def mode_ready_def event_entry_def put_entry_def
        state_at_def sync_state_zero_def HAL_ProvideNewDataEventHandle_def ds_ok_def Let_def)
qed

lemma refresh_process:
  assumes "process_ok p"
  shows "\<exists>ws p'. process_refreshData p = Inr (ws, p') \<and> process_ok p' \<and> pr_mgr p' = pr_mgr p \<and>
    newDataEvents (pr_ds p') = newDataEvents (pr_ds p)"
proof -
  have "ds_ok (pr_ds p)" using assms by (simp add: process_ok_def)
  then obtain b s1 where s1: "HAL_RefreshDSData (pr_ds p) = Inr (b, s1)" "ds_ok s1" using refresh_ok by blast
  have f: "newDataEvents s1 = newDataEvents (pr_ds p)" "ds_initialized s1 = ds_initialized (pr_ds p)"
    using s1(1) by (auto simp: HAL_RefreshDSData_def bindR_Inr_iff Let_def split: option.splits if_splits)
  obtain d p1 where g: "ds_getInstance (p\<lparr>pr_ds := s1\<rparr>) = (d, p1)" by fastforce
  have p1: "ds_ok (pr_ds p1)" "inst_ok d" "pr_mgr p1 = pr_mgr p" "refreshEvents p1 = []" "ds_initialized (pr_ds p1)"
    "newDataEvents (pr_ds p1) = newDataEvents (pr_ds p)"
    using g s1(2) assms f
    by (auto simp: process_ok_def ds_getInstance_def InitializeFRCDriverStation_def ds_ok_def inst_ok_def
        DS_Instance_init_def split: option.splits)
  then obtain d1 where "refresh_edges (pr_ds p1) d = Inr d1" "inst_ok d1" using refresh_edges_ok by blast
  then show ?thesis
    using p1 assms by (simp add: process_refreshData_def s1(1) g process_ok_def)
qed

lemma packet_ready:
  assumes "mode_ready h got s" "mode_step rnd fl (ModePacket payload) s = Inr s'"
  shows "mode_ready h True s' \<and> m_keepAlive s' = m_keepAlive s \<and> md_phase s' = md_phase s"
proof -
  obtain s1 where s1: "newDataOccur rnd fl payload (pr_ds (md_process s)) = Inr s1"
    using assms(2) by (auto simp: mode_step_def process_packet_def bindR_Inr_iff)
  note e = newDataOccur_events [OF s1]
  have "ds_ok s1" using newDataOccur_ok [OF s1] assms(1) by (simp add: mode_ready_def process_ok_def)
  moreover have "(of_nat (unat h) :: u32) = h" by simp
  ultimately show ?thesis
    using assms e
    by (auto simp: mode_ready_def process_ok_def event_entry_def mode_step_def process_packet_def s1 setEvent_def
        setSignalObject_def put_entry_def)
qed

lemma body_ready:
  assumes "process_ok (md_process s)" "handle_type h = kHandleTypeEvent" "newDataEvents (pr_ds (md_process s)) = [unat h]"
    "event_entry h [] s 0"
  shows "\<exists>s'. mode_body h s = Inr s' \<and> mode_ready h False s' \<and> m_keepAlive s' = m_keepAlive s \<and> md_phase s' = ModeTest h \<and>
    md_out s' = md_out s @ mode_prints s"
proof -
  obtain ws p where p: "process_refreshData (md_process s) = Inr (ws, p)" "process_ok p" "pr_mgr p = pr_mgr (md_process s)"
    "newDataEvents (pr_ds p) = newDataEvents (pr_ds (md_process s))"
    using refresh_process [OF assms(1)] by blast
  then show ?thesis using assms by (simp add: mode_body_def mode_ready_def event_entry_def)
qed

text \<open>One piece of the loop: without news it blocks, with news it refreshes; it ends at the test.\<close>

lemma run_ready:
  assumes "mode_ready h got s"
  shows "\<exists>s'. mode_run s = Inr s' \<and> m_keepAlive s' = m_keepAlive s \<and>
    (if md_phase s = ModeTest h \<and> \<not> m_keepAlive s then mode_joined s'
     else mode_ready h False s' \<and> (if got then md_phase s' = ModeTest h \<and> md_out s' = md_out s @ mode_prints s
       else md_phase s' = ModeWaiting h (mode_frame h) \<and> md_out s' = md_out s))"
proof -
  let ?m = "pr_mgr (md_process s)"
  have c: "process_ok (md_process s)" "handle_type h = kHandleTypeEvent" "newDataEvents (pr_ds (md_process s)) = [unat h]"
    "\<not> gShutdown ?m"
    using assms by (simp_all add: mode_ready_def process_ok_def)
  let ?put = "\<lambda>n ws. ?m\<lparr>hm_states := (hm_states ?m)(h \<mapsto> \<lparr>signaled = n, autoReset = True, sy_waiters = ws\<rparr>)\<rparr>"
  have seen: "\<exists>s'. mode_body h (s\<lparr>md_process := (md_process s)\<lparr>pr_mgr := ?put 0 []\<rparr>\<rparr>) = Inr s' \<and> mode_ready h False s' \<and>
      m_keepAlive s' = m_keepAlive s \<and> md_phase s' = ModeTest h \<and> md_out s' = md_out s @ mode_prints s"
    using body_ready [of "s\<lparr>md_process := (md_process s)\<lparr>pr_mgr := ?put 0 []\<rparr>\<rparr>" h] c
    by (simp add: process_ok_def event_entry_def mode_prints_def)
  consider (test) "md_phase s = ModeTest h" "event_entry h [] s (of_bool got)"
    | (wait) "md_phase s = ModeWaiting h (mode_frame h)" "event_entry h [1] s (of_bool got)"
    using assms by (auto simp: mode_ready_def)
  then show ?thesis
  proof cases
    case test
    show ?thesis
    proof (cases "m_keepAlive s")
      case False
      then show ?thesis using test by (simp add: mode_run_def mode_exit_def mode_joined_def Let_def)
    next
      case keep: True
      show ?thesis
      proof (cases got)
        case True
        then have "mode_run s = mode_body h (s\<lparr>md_process := (md_process s)\<lparr>pr_mgr := ?put 0 []\<rparr>\<rparr>)"
          using test c(4) keep
          by (simp add: mode_run_def waitForObject_def waitForObjects_def wait_round_def scan_handle_def event_entry_def
              put_entry_def mode_settle_def)
        then show ?thesis using seen keep True by auto
      next
        case False
        then have "mode_run s = Inr (s\<lparr>md_process := (md_process s)\<lparr>pr_mgr := ?put 0 [1]\<rparr>,
            md_phase := ModeWaiting h (mode_frame h), md_woken := False\<rparr>)"
          using test c(4) keep
          by (simp add: mode_run_def waitForObject_def waitForObjects_def wait_round_def scan_handle_def event_entry_def
              put_entry_def mode_settle_def add_waiter_def state_at_def)
        then show ?thesis using keep False c by (simp add: mode_ready_def process_ok_def event_entry_def)
      qed
    qed
  next
    case wait
    show ?thesis
    proof (cases got)
      case True
      then have "mode_run s = mode_body h (s\<lparr>md_process := (md_process s)\<lparr>pr_mgr := ?put 0 []\<rparr>\<rparr>)"
        using wait by (simp add: mode_run_def wait_round_def scan_handle_def event_entry_def
            put_entry_def mode_settle_def remove_waiter_def state_at_def)
      then show ?thesis using seen wait(1) True by auto
    next
      case False
      then have "mode_run s = Inr (s\<lparr>md_woken := False\<rparr>)"
        using wait by (simp add: mode_run_def wait_round_def scan_handle_def event_entry_def mode_settle_def)
      then show ?thesis using wait False c by (simp add: mode_ready_def process_ok_def event_entry_def)
    qed
  qed
qed

section \<open>Stopping the thread\<close>

definition mode_packets :: "mode_event list \<Rightarrow> bytes list" where
  "mode_packets es = concat (map (\<lambda>e. case e of ModePacket p \<Rightarrow> [p] | _ \<Rightarrow> []) es)"

lemma blocked_stays:
  assumes "mode_ready h False s" "md_phase s = ModeWaiting h (mode_frame h)" "mode_packets es = []"
    "foldR (mode_step rnd fl) es s = Inr s'"
  shows "mode_ready h False s' \<and> md_phase s' = ModeWaiting h (mode_frame h) \<and> md_out s' = md_out s \<and>
    (\<not> m_keepAlive s \<longrightarrow> \<not> m_keepAlive s')"
  using assms
proof (induction es arbitrary: s)
  case (Cons e es)
  obtain t where t: "mode_step rnd fl e s = Inr t" "foldR (mode_step rnd fl) es t = Inr s'"
    using Cons.prems(4) by (auto simp: bindR_Inr_iff)
  have p: "mode_packets es = []" "\<And>q. e \<noteq> ModePacket q" using Cons.prems(3) by (auto simp: mode_packets_def)
  have "mode_ready h False t \<and> md_phase t = ModeWaiting h (mode_frame h) \<and> md_out t = md_out s \<and>
      (\<not> m_keepAlive s \<longrightarrow> \<not> m_keepAlive t)"
  proof (cases e)
    case ModeRun
    then show ?thesis using run_ready [OF Cons.prems(1)] t(1) Cons.prems(2) by (auto simp: mode_step_def)
  qed (use t(1) Cons.prems(1,2) p(2) in \<open>auto simp: mode_step_def mode_ready_def event_entry_def\<close>)
  then show ?case using Cons.IH [OF _ _ p(1) t(2)] by auto
qed simp

text \<open>The destructor called while the thread waits: however the thread is woken and whatever is set,
  the join does not return before the next packet.  After one, two pieces of the loop end the thread,
  which has refreshed the data and printed the modes once more.\<close>

theorem stop_waits_for_packet:
  assumes "mode_ready h False s" "md_phase s = ModeWaiting h (mode_frame h)"
    "foldR (mode_step rnd fl) (ModeStop # es) s = Inr s1" "mode_packets es = []"
  shows "\<not> mode_joined s1 \<and>
    (\<forall>payload s2. mode_step rnd fl (ModePacket payload) s1 = Inr s2 \<longrightarrow> md_woken s2 \<and>
      (\<exists>s3. foldR (mode_step rnd fl) [ModeRun, ModeRun] s2 = Inr s3 \<and> mode_joined s3))"
proof -
  let ?s = "s\<lparr>m_keepAlive := False\<rparr>"
  have r: "mode_ready h False ?s" "md_phase ?s = ModeWaiting h (mode_frame h)"
    using assms(1,2) by (simp_all add: mode_ready_def event_entry_def)
  have "foldR (mode_step rnd fl) es ?s = Inr s1" using assms(3) by (simp add: mode_step_def)
  note b = blocked_stays [OF r assms(4) this]
  have "md_woken s2 \<and> (\<exists>s3. foldR (mode_step rnd fl) [ModeRun, ModeRun] s2 = Inr s3 \<and> mode_joined s3)"
    if "mode_step rnd fl (ModePacket payload) s1 = Inr s2" for payload s2
  proof -
    have p: "mode_ready h True s2" "\<not> m_keepAlive s2" "md_phase s2 = ModeWaiting h (mode_frame h)"
      using packet_ready [OF conjunct1 [OF b] that] b by auto
    have w: "md_woken s2" using p(1,3) by (simp add: mode_ready_def)
    obtain s3 where s3: "mode_run s2 = Inr s3" "mode_ready h False s3" "md_phase s3 = ModeTest h" "\<not> m_keepAlive s3"
      using run_ready [OF p(1)] p(2,3) by auto
    then obtain s4 where "mode_run s3 = Inr s4" "mode_joined s4" using run_ready [OF s3(2)] by auto
    then show ?thesis using s3(1) w by (simp add: mode_step_def)
  qed
  then show ?thesis using b by (auto simp: mode_joined_def)
qed

end
