(* ===== verification/ArmController.thy ===== *)
theory ArmController
  imports Prelude
begin

text \<open>
  \<open>src/controllers/ArmController.cpp\<close>: the controller's stubs and \<open>DOF6Kinematic\<close>, the forward and
  inverse kinematics of a six-joint arm (\<open>src/controllers/Controller.cpp\<close> repeats the matrix helpers).
  The value type is \<^typ>\<open>double\<close> with rounding to binary32; the functions of the C library, the
  roundings and the constants \<open>(float) M_PI\<close> and \<open>(float) M_PI_2\<close> form the environment \<open>float_env\<close>,
  so that the algorithm can also be read over exact reals.  Matrices are lists in row order; all
  indices that occur are constants below the lengths of the arrays.
\<close>

section \<open>Floating-point environment\<close>

text \<open>\<open>fe_round\<close> rounds to \<open>float\<close>, \<open>fe_round64\<close> to \<open>double\<close> (for literals without \<open>f\<close>).\<close>

record float_env =
  fe_round :: "real \<Rightarrow> real"
  fe_round64 :: "real \<Rightarrow> real"
  fe_pi :: double
  fe_pi_2 :: double
  fe_sin :: "double \<Rightarrow> double"
  fe_cos :: "double \<Rightarrow> double"
  fe_atan :: "double \<Rightarrow> double"
  fe_acos :: "double \<Rightarrow> double"
  fe_sqrt :: "double \<Rightarrow> double"
  fe_atan2 :: "double \<Rightarrow> double \<Rightarrow> double"

definition f_add :: "float_env \<Rightarrow> double \<Rightarrow> double \<Rightarrow> double" where "f_add e = dadd (fe_round e)"
definition f_sub :: "float_env \<Rightarrow> double \<Rightarrow> double \<Rightarrow> double" where "f_sub e = dsub (fe_round e)"
definition f_mul :: "float_env \<Rightarrow> double \<Rightarrow> double \<Rightarrow> double" where "f_mul e = dmul (fe_round e)"
definition f_div :: "float_env \<Rightarrow> double \<Rightarrow> double \<Rightarrow> double" where "f_div e = ddiv (fe_round e)"

definition f_abs :: "double \<Rightarrow> double" where
  "f_abs x = (case x of DNaN \<Rightarrow> DNaN | DInf s \<Rightarrow> DInf False | Fin r \<Rightarrow> Fin \<bar>r\<bar>)"

definition dle :: "double \<Rightarrow> double \<Rightarrow> bool" where
  "dle x y \<longleftrightarrow> dlt x y \<or> deq x y"

section \<open>Controller stubs\<close>

text \<open>The control output and the state derivative are zero vectors.\<close>

definition arm_calculate :: "double list \<Rightarrow> double list" where
  "arm_calculate x = replicate 2 (Fin 0)"

definition arm_dynamics :: "double list \<Rightarrow> double list \<Rightarrow> double list" where
  "arm_dynamics x u = replicate 7 (Fin 0)"

section \<open>Matrices and Euler angles\<close>

definition mat_entry :: "float_env \<Rightarrow> double list \<Rightarrow> double list \<Rightarrow> nat \<Rightarrow> nat \<Rightarrow> nat \<Rightarrow> nat \<Rightarrow> double" where
  "mat_entry e m1 m2 l n i j =
     fold (\<lambda>k tmp. f_add e tmp (f_mul e (m1 ! (l * i + k)) (m2 ! (n * k + j)))) [0..<l] (Fin 0)"

definition matMultiply :: "float_env \<Rightarrow> double list \<Rightarrow> double list \<Rightarrow> nat \<Rightarrow> nat \<Rightarrow> nat \<Rightarrow> double list" where
  "matMultiply e m1 m2 m l n = concat (map (\<lambda>i. map (\<lambda>j. mat_entry e m1 m2 l n i j) [0..<n]) [0..<m])"

definition rotMatToEulerAngle :: "float_env \<Rightarrow> double list \<Rightarrow> double list" where
  "rotMatToEulerAngle e m =
     (let (A, B, C) =
        (if dle (Fin (fe_round64 e (1 - fe_round64 e (1 / 10000)))) (f_abs (m ! 6))
         then if dlt (m ! 6) (Fin 0)
              then (Fin 0, fe_pi_2 e, fe_atan2 e (m ! 1) (m ! 4))
              else (Fin 0, dneg (fe_pi_2 e), dneg (fe_atan2 e (m ! 1) (m ! 4)))
         else let B = fe_atan2 e (dneg (m ! 6)) (fe_sqrt e (f_add e (f_mul e (m ! 0) (m ! 0)) (f_mul e (m ! 3) (m ! 3))));
                  cb = fe_cos e B
              in if dlt (f_abs cb) (Fin (fe_round e (1 / 1000000))) then (Fin 0, B, Fin 0)
                 else (fe_atan2 e (f_div e (m ! 3) cb) (f_div e (m ! 0) cb), B,
                       fe_atan2 e (f_div e (m ! 7) cb) (f_div e (m ! 8) cb)))
      in [C, B, A])"

definition eulerAngleToRotMat :: "float_env \<Rightarrow> double list \<Rightarrow> double list" where
  "eulerAngleToRotMat e v =
     (let cc = fe_cos e (v ! 0); cb = fe_cos e (v ! 1); ca = fe_cos e (v ! 2);
          sc = fe_sin e (v ! 0); sb = fe_sin e (v ! 1); sa = fe_sin e (v ! 2)
      in [f_mul e ca cb, f_sub e (f_mul e (f_mul e ca sb) sc) (f_mul e sa cc), f_add e (f_mul e (f_mul e ca sb) cc) (f_mul e sa sc),
          f_mul e sa cb, f_add e (f_mul e (f_mul e sa sb) sc) (f_mul e ca cc), f_sub e (f_mul e (f_mul e sa sb) cc) (f_mul e ca sc),
          dneg sb, f_mul e cb sc, f_mul e cb cc])"

section \<open>The arm\<close>

record ArmConfig =
  L_BASE :: double
  D_BASE :: double
  L_ARM :: double
  L_FOREARM :: double
  D_ELBOW :: double
  L_WRIST :: double

record DOF6Kinematic =
  armConfig :: ArmConfig
  DH_matrix :: "double list list"
  L1_base :: "double list"
  L2_arm :: "double list"
  L3_elbow :: "double list"
  L6_wrist :: "double list"
  l_se_2 :: double
  l_se :: double
  l_ew_2 :: double
  l_ew :: double
  atan_e :: double

definition RAD_TO_DEG :: "float_env \<Rightarrow> double" where
  "RAD_TO_DEG e = Fin (fe_round e (57295777754771045 / 10 ^ 15))"

definition DOF6Kinematic_ctor :: "float_env \<Rightarrow> ArmConfig \<Rightarrow> DOF6Kinematic" where
  "DOF6Kinematic_ctor e c =
     (let z = Fin 0; ew2 = f_add e (f_mul e (L_FOREARM c) (L_FOREARM c)) (f_mul e (D_ELBOW c) (D_ELBOW c)) in
      \<lparr>armConfig = c,
       DH_matrix =
         [[z, L_BASE c, D_BASE c, dneg (fe_pi_2 e)],
          [dneg (fe_pi_2 e), z, L_ARM c, z],
          [fe_pi_2 e, D_ELBOW c, z, fe_pi_2 e],
          [z, L_FOREARM c, z, dneg (fe_pi_2 e)],
          [z, z, z, fe_pi_2 e],
          [z, L_WRIST c, z, z]],
       L1_base = [D_BASE c, dneg (L_BASE c), z],
       L2_arm = [L_ARM c, z, z],
       L3_elbow = [dneg (D_ELBOW c), z, L_FOREARM c],
       L6_wrist = [z, z, L_WRIST c],
       l_se_2 = f_mul e (L_ARM c) (L_ARM c),
       l_se = L_ARM c,
       l_ew_2 = ew2,
       l_ew = fe_sqrt e ew2,
       atan_e = fe_atan e (f_div e (D_ELBOW c) (L_FOREARM c))\<rparr>)"

record Pose6D =
  po_X :: double
  po_Y :: double
  po_Z :: double
  po_A :: double
  po_B :: double
  po_C :: double
  po_R :: "double list"
  hasR :: bool

section \<open>Forward kinematics\<close>

definition dh_rotation :: "float_env \<Rightarrow> double \<Rightarrow> double \<Rightarrow> double list" where
  "dh_rotation e q alpha =
     (let cosq = fe_cos e q; sinq = fe_sin e q; cosa = fe_cos e alpha; sina = fe_sin e alpha
      in [cosq, f_mul e (dneg cosa) sinq, f_mul e sina sinq,
          sinq, f_mul e cosa cosq, f_mul e (dneg sina) cosq,
          Fin 0, sina, cosa])"

definition joint_rotation :: "float_env \<Rightarrow> DOF6Kinematic \<Rightarrow> double list \<Rightarrow> nat \<Rightarrow> double list" where
  "joint_rotation e k a i =
     dh_rotation e (f_add e (f_div e (a ! i) (RAD_TO_DEG e)) (DH_matrix k ! i ! 0)) (DH_matrix k ! i ! 3)"

text \<open>The output keeps the \<open>hasR\<close> it had.\<close>

definition solveFK :: "float_env \<Rightarrow> DOF6Kinematic \<Rightarrow> double list \<Rightarrow> Pose6D \<Rightarrow> Pose6D" where
  "solveFK e k a out =
     (let Ri = joint_rotation e k a;
          R02 = matMultiply e (Ri 0) (Ri 1) 3 3 3;
          R03 = matMultiply e R02 (Ri 2) 3 3 3;
          R04 = matMultiply e R03 (Ri 3) 3 3 3;
          R05 = matMultiply e R04 (Ri 4) 3 3 3;
          R06 = matMultiply e R05 (Ri 5) 3 3 3;
          L0_bs = matMultiply e (Ri 0) (L1_base k) 3 3 1;
          L0_se = matMultiply e R02 (L2_arm k) 3 3 1;
          L0_ew = matMultiply e R03 (L3_elbow k) 3 3 1;
          L0_wt = matMultiply e R06 (L6_wrist k) 3 3 1;
          P06 = map (\<lambda>i. f_add e (f_add e (f_add e (L0_bs ! i) (L0_se ! i)) (L0_ew ! i)) (L0_wt ! i)) [0..<3];
          an = rotMatToEulerAngle e R06
      in out\<lparr>po_X := P06 ! 0, po_Y := P06 ! 1, po_Z := P06 ! 2,
             po_A := f_mul e (an ! 0) (RAD_TO_DEG e), po_B := f_mul e (an ! 1) (RAD_TO_DEG e),
             po_C := f_mul e (an ! 2) (RAD_TO_DEG e), po_R := R06\<rparr>)"

section \<open>Inverse kinematics\<close>

text \<open>Each part returns the angles and the solution flag.\<close>

definition ik_shoulder :: "float_env \<Rightarrow> double list \<Rightarrow> double list \<Rightarrow> double list \<times> int" where
  "ik_shoulder e p lst =
     (if dle (fe_sqrt e (f_add e (f_mul e (p ! 0) (p ! 0)) (f_mul e (p ! 1) (p ! 1)))) (Fin (fe_round64 e (1 / 1000000)))
      then ([lst ! 0, lst ! 0], -1)
      else ([fe_atan2 e (p ! 1) (p ! 0), fe_atan2 e (dneg (p ! 1)) (dneg (p ! 0))], 1))"

definition ik_R10 :: "float_env \<Rightarrow> DOF6Kinematic \<Rightarrow> double \<Rightarrow> double list" where
  "ik_R10 e k q =
     (let cosqs = fe_cos e (f_add e q (DH_matrix k ! 0 ! 0)); sinqs = fe_sin e (f_add e q (DH_matrix k ! 0 ! 0))
      in [cosqs, sinqs, Fin 0, Fin 0, Fin 0, Fin (-1), dneg sinqs, cosqs, Fin 0])"

text \<open>\<open>acosf\<close> of a quotient that is cut off at its ends; \<open>pos\<close> guards the division.\<close>

definition cut_acos :: "float_env \<Rightarrow> bool \<Rightarrow> double \<Rightarrow> double \<Rightarrow> double" where
  "cut_acos e pos num den =
     (let c = (if pos then f_div e (f_mul e (Fin (1 / 2)) num) den else Fin 0)
      in if dle (Fin 1) c then Fin 0 else if dle c (Fin (-1)) then fe_pi e else fe_acos e c)"

definition ik_elbow :: "float_env \<Rightarrow> DOF6Kinematic \<Rightarrow> nat \<Rightarrow> double list \<Rightarrow> double list list \<times> int" where
  "ik_elbow e k ind_arm sw =
     (let sw2 = f_add e (f_mul e (sw ! 0) (sw ! 0)) (f_mul e (sw ! 1) (sw ! 1));
          l_sw = fe_sqrt e sw2;
          eps = Fin (fe_round64 e (1 / 1000000));
          pp = fe_pi e;
          reach = f_abs (f_sub e (l_se k) (l_ew k))
      in if dle (f_abs (f_sub e (f_add e (l_se k) (l_ew k)) l_sw)) eps
         then let q = fe_atan2 e (sw ! 1) (sw ! 0)
              in ([[q, Fin 0], [q, Fin 0]], if dlt (f_add e (l_se k) (l_ew k)) l_sw then 0 else 1)
         else if dle (f_abs (f_sub e l_sw reach)) eps
         then let q = fe_atan2 e (sw ! 1) (sw ! 0)
              in (if ind_arm = 0 then [[q, pp], [q, dneg pp]] else [[q, dneg pp], [q, pp]],
                  if dlt l_sw reach then 0 else 1)
         else let atan_a = fe_atan2 e (sw ! 1) (sw ! 0);
                  acos_a = cut_acos e (dlt (Fin 0) (l_se k) \<and> dlt (Fin 0) l_sw)
                    (f_sub e (f_add e (l_se_2 k) sw2) (l_ew_2 k)) (f_mul e (l_se k) l_sw);
                  acos_e = cut_acos e (dlt (Fin 0) (l_se k) \<and> dlt (Fin 0) (l_ew k))
                    (f_sub e (f_add e (l_se_2 k) (l_ew_2 k)) sw2) (f_mul e (l_se k) (l_ew k));
                  minus = [f_add e (f_sub e atan_a acos_a) (fe_pi_2 e), f_add e (f_sub e (atan_e k) acos_e) pp];
                  plus = [f_add e (f_add e atan_a acos_a) (fe_pi_2 e), f_sub e (f_add e (atan_e k) acos_e) pp]
              in (if ind_arm = 0 then [minus, plus] else [plus, minus], 1))"

definition ik_R31 :: "float_env \<Rightarrow> DOF6Kinematic \<Rightarrow> double list \<Rightarrow> double list" where
  "ik_R31 e k qa =
     (let c0 = fe_cos e (f_add e (qa ! 0) (DH_matrix k ! 1 ! 0)); s0 = fe_sin e (f_add e (qa ! 0) (DH_matrix k ! 1 ! 0));
          c1 = fe_cos e (f_add e (qa ! 1) (DH_matrix k ! 2 ! 0)); s1 = fe_sin e (f_add e (qa ! 1) (DH_matrix k ! 2 ! 0));
          cs = f_add e (f_mul e c0 s1) (f_mul e s0 c1)
      in [f_sub e (f_mul e c0 c1) (f_mul e s0 s1), cs, Fin 0,
          Fin 0, Fin 0, Fin 1,
          cs, f_add e (f_mul e (dneg c0) c1) (f_mul e s0 s1), Fin 0])"

text \<open>The angle that is left when one of the outer wrist joints keeps its last value.\<close>

definition ik_rest :: "float_env \<Rightarrow> double \<Rightarrow> double \<Rightarrow> double list \<Rightarrow> double" where
  "ik_rest e q home m =
     (let c = fe_cos e (f_add e q home); s = fe_sin e (f_add e q home)
      in fe_atan2 e (f_sub e (f_mul e c (m ! 3)) (f_mul e s (m ! 0))) (f_add e (f_mul e c (m ! 0)) (f_mul e s (m ! 3))))"

definition ik_wrist :: "float_env \<Rightarrow> DOF6Kinematic \<Rightarrow> nat \<Rightarrow> double list \<Rightarrow> double list \<Rightarrow> double list list \<times> int" where
  "ik_wrist e k ind_arm m lst =
     (let eps = fe_round64 e (1 / 1000000);
          (cosqw, q0, q1) =
            (if dle (Fin (fe_round64 e (1 - eps))) (m ! 8) then (Fin 1, Fin 0, Fin 0)
             else if dle (m ! 8) (Fin (fe_round64 e (-1 + eps)))
             then (Fin (-1), if ind_arm = 0 then fe_pi e else dneg (fe_pi e), if ind_arm = 0 then dneg (fe_pi e) else fe_pi e)
             else (m ! 8, if ind_arm = 0 then fe_acos e (m ! 8) else dneg (fe_acos e (m ! 8)),
                   if ind_arm = 0 then dneg (fe_acos e (m ! 8)) else fe_acos e (m ! 8)))
      in if deq (Fin 1) cosqw \<or> deq (Fin (-1)) cosqw
         then let first = ik_rest e (lst ! 3) (DH_matrix k ! 3 ! 0) m; lastq = ik_rest e (lst ! 5) (DH_matrix k ! 5 ! 0) m
              in (if ind_arm = 0 then [[lst ! 3, q0, first], [lastq, q1, lst ! 5]]
                  else [[lastq, q0, lst ! 5], [lst ! 3, q1, first]], -1)
         else let up = [fe_atan2 e (m ! 5) (m ! 2), fe_atan2 e (m ! 7) (dneg (m ! 6))];
                  down = [fe_atan2 e (dneg (m ! 5)) (dneg (m ! 2)), fe_atan2 e (dneg (m ! 7)) (m ! 6)]
              in (if ind_arm = 0 then [[up ! 0, q0, up ! 1], [down ! 0, q1, down ! 1]]
                  else [[down ! 0, q0, down ! 1], [up ! 0, q1, up ! 1]], 1))"

definition ik_wrap :: "float_env \<Rightarrow> double \<Rightarrow> double" where
  "ik_wrap e q = (if dlt (fe_pi e) q then f_sub e q (fe_pi e)
     else if dlt q (dneg (fe_pi e)) then f_add e q (fe_pi e) else q)"

record IKSolves =
  ik_config :: "double list list"
  solFlag :: "int list list"

definition ik_pose :: "float_env \<Rightarrow> Pose6D \<Rightarrow> double list \<times> double list" where
  "ik_pose e p =
     (map (\<lambda>x. f_div e x (Fin 1000)) [po_X p, po_Y p, po_Z p],
      if \<not> hasR p then eulerAngleToRotMat e (map (\<lambda>x. f_div e x (RAD_TO_DEG e)) [po_A p, po_B p, po_C p]) else po_R p)"

text \<open>The two wrist solutions for one shoulder and elbow solution, with their flags.\<close>

definition ik_branch ::
    "float_env \<Rightarrow> DOF6Kinematic \<Rightarrow> double list \<Rightarrow> double list \<Rightarrow> nat \<Rightarrow> double \<Rightarrow> int \<Rightarrow> double list \<Rightarrow> int \<Rightarrow>
     (double list \<times> int list) list" where
  "ik_branch e k R06 lst ind_arm qs fs qa fa =
     (let R30 = matMultiply e (ik_R31 e k qa) (ik_R10 e k qs) 3 3 3;
          R36 = matMultiply e R30 R06 3 3 3;
          (qw, fw) = ik_wrist e k ind_arm R36 lst
      in map (\<lambda>w. (map (\<lambda>q. f_mul e (ik_wrap e q) (RAD_TO_DEG e)) ([qs] @ qa @ w), [fs, fa, fw])) qw)"

text \<open>From the shoulder to the wrist centre, in the plane of the upper arm.\<close>

definition ik_planar :: "float_env \<Rightarrow> DOF6Kinematic \<Rightarrow> double list \<Rightarrow> double \<Rightarrow> double list" where
  "ik_planar e k P0_w qs =
     (let P1_w = matMultiply e (ik_R10 e k qs) P0_w 3 3 1 in map (\<lambda>i. f_sub e (P1_w ! i) (L1_base k ! i)) [0..<3])"

definition ik_arm ::
    "float_env \<Rightarrow> DOF6Kinematic \<Rightarrow> double list \<Rightarrow> double list \<Rightarrow> double list \<Rightarrow> nat \<Rightarrow> double \<Rightarrow> int \<Rightarrow>
     (double list \<times> int list) list" where
  "ik_arm e k P0_w R06 lst ind_arm qs fs =
     (let (qa, fa) = ik_elbow e k ind_arm (ik_planar e k P0_w qs)
      in concat (map (\<lambda>a. ik_branch e k R06 lst ind_arm qs fs a fa) qa))"

definition ik_centre :: "float_env \<Rightarrow> DOF6Kinematic \<Rightarrow> double list \<Rightarrow> double list \<Rightarrow> double list" where
  "ik_centre e k P06 R06 =
     (let L0_wt = matMultiply e R06 (L6_wrist k) 3 3 1 in map (\<lambda>i. f_sub e (P06 ! i) (L0_wt ! i)) [0..<3])"

definition solveIK ::
    "float_env \<Rightarrow> DOF6Kinematic \<Rightarrow> Pose6D \<Rightarrow> double list \<Rightarrow> DOF6Kinematic \<times> IKSolves" where
  "solveIK e k0 pose lst =
     (let k = (if deq (Fin 0) (l_ew k0)
               then k0\<lparr>l_ew := fe_sqrt e (l_ew_2 k0),
                       atan_e := fe_atan e (f_div e (D_ELBOW (armConfig k0)) (L_FOREARM (armConfig k0)))\<rparr> else k0);
          (P06, R06) = ik_pose e pose;
          P0_w = ik_centre e k P06 R06;
          (qs, fs) = ik_shoulder e P0_w lst;
          sols = ik_arm e k P0_w R06 lst 0 (qs ! 0) fs @ ik_arm e k P0_w R06 lst 1 (qs ! 1) fs
      in (k, \<lparr>ik_config = map fst sols, solFlag = map snd sols\<rparr>))"

definition joint_minus :: "float_env \<Rightarrow> double list \<Rightarrow> double list \<Rightarrow> double list" where
  "joint_minus e a b = map (\<lambda>i. f_sub e (a ! i) (b ! i)) [0..<6]"

end
