(* ===== verification/ArmKinematics.thy ===== *)
theory ArmKinematics
  imports ArmController
begin

text \<open>
  The kinematics of theory \<open>ArmController\<close> read over the real numbers: the environment \<open>exact\<close> does
  not round and its constants and functions are the mathematical ones.  The theorems compare the
  forward and the inverse solution.
\<close>

section \<open>Exact arithmetic\<close>

definition at2 :: "real \<Rightarrow> real \<Rightarrow> real" where
  "at2 y x = (if 0 < x then arctan (y / x)
     else if x < 0 then (if 0 \<le> y then arctan (y / x) + pi else arctan (y / x) - pi)
     else if 0 < y then pi / 2 else if y < 0 then - (pi / 2) else 0)"

definition lift_real :: "(real \<Rightarrow> real) \<Rightarrow> double \<Rightarrow> double" where
  "lift_real f x = (case x of Fin r \<Rightarrow> Fin (f r) | _ \<Rightarrow> DNaN)"

definition exact :: float_env where
  "exact = \<lparr>fe_round = (\<lambda>x. x), fe_round64 = (\<lambda>x. x), fe_pi = Fin pi, fe_pi_2 = Fin (pi / 2),
     fe_sin = lift_real sin, fe_cos = lift_real cos, fe_atan = lift_real arctan, fe_acos = lift_real arccos,
     fe_sqrt = lift_real sqrt,
     fe_atan2 = (\<lambda>y x. case y of Fin b \<Rightarrow> lift_real (at2 b) x | _ \<Rightarrow> DNaN)\<rparr>"

lemma exact_ops [simp]:
  "f_add exact (Fin a) (Fin b) = Fin (a + b)" "f_sub exact (Fin a) (Fin b) = Fin (a - b)"
  "f_mul exact (Fin a) (Fin b) = Fin (a * b)" "b \<noteq> 0 \<Longrightarrow> f_div exact (Fin a) (Fin b) = Fin (a / b)"
  "fe_round exact r = r" "fe_round64 exact r = r" "fe_pi exact = Fin pi" "fe_pi_2 exact = Fin (pi / 2)"
  "fe_sin exact (Fin a) = Fin (sin a)" "fe_cos exact (Fin a) = Fin (cos a)" "fe_atan exact (Fin a) = Fin (arctan a)"
  "fe_acos exact (Fin a) = Fin (arccos a)" "fe_sqrt exact (Fin a) = Fin (sqrt a)"
  "fe_atan2 exact (Fin b) (Fin a) = Fin (at2 b a)" "f_abs (Fin a) = Fin \<bar>a\<bar>"
  "dle (Fin a) (Fin b) \<longleftrightarrow> a \<le> b"
  by (auto simp: f_add_def f_sub_def f_mul_def f_div_def exact_def lift_real_def f_abs_def dle_def)

lemma at2_polar:
  assumes "x \<noteq> 0 \<or> y \<noteq> 0"
  shows "sqrt (x\<^sup>2 + y\<^sup>2) * cos (at2 y x) = x" and "sqrt (x\<^sup>2 + y\<^sup>2) * sin (at2 y x) = y"
    and "- pi < at2 y x" and "at2 y x \<le> pi"
proof -
  have r: "sqrt (x\<^sup>2 + y\<^sup>2) = \<bar>x\<bar> * sqrt (1 + (y / x)\<^sup>2)" if "x \<noteq> 0"
  proof -
    have "x\<^sup>2 + y\<^sup>2 = x\<^sup>2 * (1 + (y / x)\<^sup>2)" using that by (simp add: field_simps)
    then show ?thesis by (simp add: real_sqrt_mult)
  qed
  have p: "0 < sqrt (1 + t\<^sup>2)" for t :: real by (simp add: add_pos_nonneg)
  have n: "sqrt (1 + t\<^sup>2) \<noteq> 0" for t :: real using p [of t] by simp
  have b: "- (pi / 2) < arctan t" "arctan t < pi / 2" for t using arctan_lbound arctan_ubound by auto
  have s: "sgn (arctan t) = sgn t" for t by (simp add: sgn_if)
  show "sqrt (x\<^sup>2 + y\<^sup>2) * cos (at2 y x) = x"
    using assms r n by (auto simp: at2_def cos_arctan cos_diff cos_add)
  show "sqrt (x\<^sup>2 + y\<^sup>2) * sin (at2 y x) = y"
    using assms r n by (auto simp: at2_def sin_arctan sin_diff sin_add)
  have "0 \<le> y \<Longrightarrow> x < 0 \<Longrightarrow> arctan (y / x) \<le> 0" "y < 0 \<Longrightarrow> x < 0 \<Longrightarrow> 0 < arctan (y / x)"
    by (simp_all add: divide_nonneg_neg divide_neg_neg)
  then show "- pi < at2 y x" "at2 y x \<le> pi"
    using b [of "y / x"] pi_gt_zero by (auto simp: at2_def simp del: zero_less_arctan_iff arctan_le_zero_iff)
qed

text \<open>The angle of a point given by its angle.\<close>

lemma at2_unique:
  assumes "0 < r" "- pi < t" "t \<le> pi"
  shows "at2 (r * sin t) (r * cos t) = t"
proof -
  have nz: "r * cos t \<noteq> 0 \<or> r * sin t \<noteq> 0" using assms(1) sin_zero_abs_cos_one [of t] by auto
  have q: "sqrt ((r * cos t)\<^sup>2 + (r * sin t)\<^sup>2) = r"
    using assms(1) by (simp add: power_mult_distrib distrib_left [symmetric])
  let ?u = "at2 (r * sin t) (r * cos t)"
  note u = at2_polar [OF nz, unfolded q]
  have "cos ?u = cos t" "sin ?u = sin t" using u(1,2) assms(1) by simp_all
  then obtain n :: int where n: "?u = t + 2 * pi * n" using sin_cos_eq_iff [of ?u t] by auto
  have "\<bar>2 * pi * real_of_int n\<bar> < 2 * pi" using u(3,4) assms(2,3) n by linarith
  then have "\<bar>real_of_int n\<bar> < 1" by (simp add: abs_mult)
  then have "n = 0" by linarith
  then show ?thesis using n by simp
qed

section \<open>Matrices of reals\<close>

definition rmul :: "real list \<Rightarrow> real list \<Rightarrow> real list" where
  "rmul a b =
     [a ! 0 * b ! 0 + a ! 1 * b ! 3 + a ! 2 * b ! 6, a ! 0 * b ! 1 + a ! 1 * b ! 4 + a ! 2 * b ! 7, a ! 0 * b ! 2 + a ! 1 * b ! 5 + a ! 2 * b ! 8,
      a ! 3 * b ! 0 + a ! 4 * b ! 3 + a ! 5 * b ! 6, a ! 3 * b ! 1 + a ! 4 * b ! 4 + a ! 5 * b ! 7, a ! 3 * b ! 2 + a ! 4 * b ! 5 + a ! 5 * b ! 8,
      a ! 6 * b ! 0 + a ! 7 * b ! 3 + a ! 8 * b ! 6, a ! 6 * b ! 1 + a ! 7 * b ! 4 + a ! 8 * b ! 7, a ! 6 * b ! 2 + a ! 7 * b ! 5 + a ! 8 * b ! 8]"

definition rvec :: "real list \<Rightarrow> real list \<Rightarrow> real list" where
  "rvec a v = [a ! 0 * v ! 0 + a ! 1 * v ! 1 + a ! 2 * v ! 2, a ! 3 * v ! 0 + a ! 4 * v ! 1 + a ! 5 * v ! 2,
     a ! 6 * v ! 0 + a ! 7 * v ! 1 + a ! 8 * v ! 2]"

definition rtr :: "real list \<Rightarrow> real list" where
  "rtr a = [a ! 0, a ! 3, a ! 6, a ! 1, a ! 4, a ! 7, a ! 2, a ! 5, a ! 8]"

definition rid :: "real list" where
  "rid = [1, 0, 0, 0, 1, 0, 0, 0, 1]"

definition rdet :: "real list \<Rightarrow> real" where
  "rdet a = a ! 0 * (a ! 4 * a ! 8 - a ! 5 * a ! 7) - a ! 1 * (a ! 3 * a ! 8 - a ! 5 * a ! 6) + a ! 2 * (a ! 3 * a ! 7 - a ! 4 * a ! 6)"

definition radj :: "real list \<Rightarrow> real list" where
  "radj a =
     [a ! 4 * a ! 8 - a ! 5 * a ! 7, a ! 2 * a ! 7 - a ! 1 * a ! 8, a ! 1 * a ! 5 - a ! 2 * a ! 4,
      a ! 5 * a ! 6 - a ! 3 * a ! 8, a ! 0 * a ! 8 - a ! 2 * a ! 6, a ! 2 * a ! 3 - a ! 0 * a ! 5,
      a ! 3 * a ! 7 - a ! 4 * a ! 6, a ! 1 * a ! 6 - a ! 0 * a ! 7, a ! 0 * a ! 4 - a ! 1 * a ! 3]"

text \<open>Rotations.\<close>

definition is_rot :: "real list \<Rightarrow> bool" where
  "is_rot a \<longleftrightarrow> length a = 9 \<and> rmul (rtr a) a = rid \<and> rdet a = 1"

lemma rmul_assoc: "rmul (rmul a b) c = rmul a (rmul b c)"
  by (simp add: rmul_def algebra_simps)

lemma rmul_rvec: "rvec (rmul a b) v = rvec a (rvec b v)"
  by (simp add: rmul_def rvec_def algebra_simps)

lemma length_9: "length a = 9 \<Longrightarrow> [a ! 0, a ! 1, a ! 2, a ! 3, a ! 4, a ! 5, a ! 6, a ! 7, a ! 8] = a"
  by (rule nth_equalityI) (auto simp: less_Suc_eq numeral_eq_Suc)

lemma rmul_id: "length a = 9 \<Longrightarrow> rmul a rid = a" "length a = 9 \<Longrightarrow> rmul rid a = a"
  by (simp_all add: rmul_def rid_def length_9 [simplified])

lemma rmul_radj: "rdet a = 1 \<Longrightarrow> rmul a (radj a) = rid"
  by (simp add: rmul_def radj_def rid_def rdet_def algebra_simps)

lemma rot_adj:
  assumes "is_rot a"
  shows "radj a = rtr a" and "rmul a (rtr a) = rid"
proof -
  have l: "length (radj a) = 9" "length (rtr a) = 9" by (simp_all add: radj_def rtr_def)
  have r: "rmul (rtr a) a = rid" "rdet a = 1" using assms by (simp_all add: is_rot_def)
  have "radj a = rmul (rtr a) (rmul a (radj a))" by (simp only: rmul_assoc [symmetric] r rmul_id(2) [OF l(1)])
  then show e: "radj a = rtr a" by (simp only: rmul_radj [OF r(2)] rmul_id(1) [OF l(2)])
  show "rmul a (rtr a) = rid" using rmul_radj [of a] assms by (simp add: e is_rot_def)
qed

lemma rot_cofactors:
  assumes "is_rot a"
  shows "a ! 4 * a ! 8 - a ! 5 * a ! 7 = a ! 0" "a ! 0 * a ! 8 - a ! 2 * a ! 6 = a ! 4"
    "a ! 5 * a ! 6 - a ! 3 * a ! 8 = a ! 1" "a ! 2 * a ! 7 - a ! 1 * a ! 8 = a ! 3"
  using rot_adj(1) [OF assms] by (simp_all add: radj_def rtr_def)

lemma rot_norms:
  assumes "is_rot a"
  shows "(a ! 2)\<^sup>2 + (a ! 5)\<^sup>2 + (a ! 8)\<^sup>2 = 1" "(a ! 6)\<^sup>2 + (a ! 7)\<^sup>2 + (a ! 8)\<^sup>2 = 1"
proof -
  have "rmul (rtr a) a = rid" using assms by (simp add: is_rot_def)
  then show "(a ! 2)\<^sup>2 + (a ! 5)\<^sup>2 + (a ! 8)\<^sup>2 = 1" by (simp add: rmul_def rtr_def rid_def power2_eq_square)
  show "(a ! 6)\<^sup>2 + (a ! 7)\<^sup>2 + (a ! 8)\<^sup>2 = 1"
    using rot_adj(2) [OF assms] by (simp add: rmul_def rtr_def rid_def power2_eq_square)
qed

lemma rdet_rmul: "rdet (rmul a b) = rdet a * rdet b"
  by (simp add: rdet_def rmul_def algebra_simps)

lemma rtr_rmul: "rtr (rmul a b) = rmul (rtr b) (rtr a)"
  by (simp add: rmul_def rtr_def algebra_simps)

lemma rot_rmul:
  assumes "is_rot a" "is_rot b"
  shows "is_rot (rmul a b)"
proof -
  have l: "length b = 9" using assms(2) by (simp add: is_rot_def)
  have r: "rmul (rtr a) a = rid" "rmul (rtr b) b = rid" "rdet a = 1" "rdet b = 1" using assms by (simp_all add: is_rot_def)
  have "rmul (rtr (rmul a b)) (rmul a b) = rmul (rtr b) (rmul (rmul (rtr a) a) b)"
    by (simp only: rtr_rmul rmul_assoc)
  also have "\<dots> = rid" by (simp only: r(1) rmul_id(2) [OF l] r(2))
  finally show ?thesis using r(3,4) by (simp add: is_rot_def rdet_rmul) (simp add: rmul_def)
qed

lemma rot_rtr: "is_rot a \<Longrightarrow> is_rot (rtr a)"
proof -
  assume a: "is_rot a"
  have l: "length a = 9" using a by (simp add: is_rot_def)
  have "rtr (rtr a) = a" using length_9 [OF l] by (simp add: rtr_def)
  moreover have "rdet (rtr a) = rdet a" by (simp add: rdet_def rtr_def algebra_simps)
  ultimately show ?thesis using rot_adj(2) [OF a] a by (simp add: is_rot_def) (simp add: rtr_def)
qed

definition rdh :: "real \<Rightarrow> real \<Rightarrow> real list" where
  "rdh q al = [cos q, - cos al * sin q, sin al * sin q, sin q, cos al * cos q, - sin al * cos q, 0, sin al, cos al]"

lemma rot_rdh: "is_rot (rdh q al)"
proof -
  have q: "sin q * sin q = 1 - cos q * cos q" and a: "sin al * sin al = 1 - cos al * cos al"
    using sin_cos_squared_add [of q] sin_cos_squared_add [of al] by (simp_all add: power2_eq_square algebra_simps)
  have 1: "sin q * (sin q * x) = x - cos q * (cos q * x)" "sin al * (sin al * x) = x - cos al * (cos al * x)" for x
    using q a by (metis left_diff_distrib mult.assoc mult_1)+
  show ?thesis
    by (simp add: is_rot_def rmul_def rtr_def rid_def rdet_def rdh_def) (simp add: algebra_simps q a 1)
qed

text \<open>The code's matrices.\<close>

lemma upt_3: "[0..<3] = [0, 1, 2]" "[0..<Suc 0] = [0]" "[0..<2] = [0, 1 :: nat]"
  by (simp_all add: upt_rec numeral_eq_Suc)

lemma matMultiply_rmul:
  assumes "length a = 9" "length b = 9"
  shows "matMultiply exact (map Fin a) (map Fin b) 3 3 3 = map Fin (rmul a b)"
  using assms by (simp add: matMultiply_def mat_entry_def upt_3 rmul_def) (simp add: numeral_2_eq_2)

lemma matMultiply_rvec:
  assumes "length a = 9" "length v = 3"
  shows "matMultiply exact (map Fin a) (map Fin v) 3 3 1 = map Fin (rvec a v)"
  using assms by (simp add: matMultiply_def mat_entry_def upt_3 rvec_def) (simp add: numeral_2_eq_2)

lemma dh_rdh: "dh_rotation exact (Fin q) (Fin al) = map Fin (rdh q al)"
  by (simp add: dh_rotation_def rdh_def Let_def)

section \<open>Forward kinematics\<close>

text \<open>An arm with real lengths, and joint angles in radians as the degrees of the interface.\<close>

definition real_arm :: "real \<Rightarrow> real \<Rightarrow> real \<Rightarrow> real \<Rightarrow> real \<Rightarrow> real \<Rightarrow> DOF6Kinematic" where
  "real_arm lb db la lf de lw = DOF6Kinematic_ctor exact
     \<lparr>L_BASE = Fin lb, D_BASE = Fin db, L_ARM = Fin la, L_FOREARM = Fin lf, D_ELBOW = Fin de, L_WRIST = Fin lw\<rparr>"

definition rad :: real where "rad = 57295777754771045 / 10 ^ 15"

lemma rad_pos: "0 < rad" "rad \<noteq> 0"
  by (simp_all add: rad_def)

lemma RAD_TO_DEG_exact: "RAD_TO_DEG exact = Fin rad"
  by (simp add: RAD_TO_DEG_def rad_def)

definition degrees :: "real list \<Rightarrow> double list" where
  "degrees qs = map (\<lambda>q. Fin (q * rad)) qs"

definition dh_offset :: "nat \<Rightarrow> real" where
  "dh_offset i = (if i = 1 then - (pi / 2) else if i = 2 then pi / 2 else 0)"

definition dh_alpha :: "nat \<Rightarrow> real" where
  "dh_alpha i = (if i = 0 \<or> i = 3 then - (pi / 2) else if i = 2 \<or> i = 4 then pi / 2 else 0)"

text \<open>The rotation of joint \<open>i\<close>, and those from the base to the upper arm, the forearm and the hand.\<close>

definition jrot :: "real list \<Rightarrow> nat \<Rightarrow> real list" where
  "jrot qs i = rdh (qs ! i + dh_offset i) (dh_alpha i)"

definition rot12 :: "real list \<Rightarrow> real list" where
  "rot12 qs = rmul (jrot qs 1) (jrot qs 2)"

definition rot345 :: "real list \<Rightarrow> real list" where
  "rot345 qs = rmul (rmul (jrot qs 3) (jrot qs 4)) (jrot qs 5)"

definition fk_rot :: "real list \<Rightarrow> real list" where
  "fk_rot qs = rmul (jrot qs 0) (rmul (rot12 qs) (rot345 qs))"

text \<open>From the shoulder to the wrist centre, seen from the first joint.\<close>

definition fk_planar :: "real \<Rightarrow> real \<Rightarrow> real \<Rightarrow> real list \<Rightarrow> real list" where
  "fk_planar la lf de qs = map2 (+) (rvec (jrot qs 1) [la, 0, 0]) (rvec (rot12 qs) [- de, 0, lf])"

definition fk_point :: "real \<Rightarrow> real \<Rightarrow> real \<Rightarrow> real \<Rightarrow> real \<Rightarrow> real \<Rightarrow> real list \<Rightarrow> real list" where
  "fk_point lb db la lf de lw qs =
     map2 (+) (rvec (jrot qs 0) (map2 (+) [db, - lb, 0] (fk_planar la lf de qs))) (rvec (fk_rot qs) [0, 0, lw])"

lemma length_rmul [simp]: "length (rmul a b) = 9" "length (rvec a v) = 3" "length (rdh q al) = 9" "length (jrot qs i) = 9"
  by (simp_all add: rmul_def rvec_def rdh_def jrot_def)

lemma rot_jrot: "is_rot (jrot qs i)"
  by (simp add: jrot_def rot_rdh)

lemma rot_fk: "is_rot (rot12 qs)" "is_rot (rot345 qs)" "is_rot (fk_rot qs)"
  by (simp_all add: rot12_def rot345_def fk_rot_def rot_rmul rot_jrot)

lemma joint_rotation_exact:
  assumes "length qs = 6" "i < 6"
  shows "joint_rotation exact (real_arm lb db la lf de lw) (degrees qs) i = map Fin (jrot qs i)"
proof -
  have "i \<in> {0, 1, 2, 3, 4, 5}" using assms(2) by auto
  moreover have "f_div exact (Fin (qs ! i * rad)) (Fin rad) = Fin (qs ! i)" using rad_pos by simp
  ultimately show ?thesis
    using assms by (auto simp: joint_rotation_def degrees_def real_arm_def DOF6Kinematic_ctor_def Let_def RAD_TO_DEG_exact
        jrot_def dh_offset_def dh_alpha_def dh_rdh simp flip: numeral_2_eq_2)
qed

lemma solveFK_exact:
  fixes lb db la lf de lw :: real and out :: Pose6D
  assumes "length qs = 6"
  defines "out' \<equiv> solveFK exact (real_arm lb db la lf de lw) (degrees qs) out"
  shows "po_R out' = map Fin (fk_rot qs)"
    and "[po_X out', po_Y out', po_Z out'] = map Fin (fk_point lb db la lf de lw qs)"
    and "hasR out' = hasR out"
proof -
  let ?k = "real_arm lb db la lf de lw"
  note j = joint_rotation_exact [OF assms(1), of _ lb db la lf de lw]
  have v: "L1_base ?k = map Fin [db, - lb, 0]" "L2_arm ?k = map Fin [la, 0, 0]" "L3_elbow ?k = map Fin [- de, 0, lf]"
    "L6_wrist ?k = map Fin [0, 0, lw]"
    by (simp_all add: real_arm_def DOF6Kinematic_ctor_def Let_def)
  have r: "rmul (rmul (rmul (rmul (rmul (jrot qs 0) (jrot qs 1)) (jrot qs 2)) (jrot qs 3)) (jrot qs 4)) (jrot qs 5) = fk_rot qs"
    by (simp add: fk_rot_def rot12_def rot345_def rmul_assoc)
  have r2: "rmul (rmul (jrot qs 0) (jrot qs 1)) (jrot qs 2) = rmul (jrot qs 0) (rot12 qs)"
    by (simp add: rot12_def rmul_assoc)
  have js: "joint_rotation exact ?k (degrees qs) 0 = map Fin (jrot qs 0)" "joint_rotation exact ?k (degrees qs) 1 = map Fin (jrot qs 1)"
    "joint_rotation exact ?k (degrees qs) 2 = map Fin (jrot qs 2)" "joint_rotation exact ?k (degrees qs) 3 = map Fin (jrot qs 3)"
    "joint_rotation exact ?k (degrees qs) 4 = map Fin (jrot qs 4)" "joint_rotation exact ?k (degrees qs) 5 = map Fin (jrot qs 5)"
    by (rule j; simp)+
  note mm = matMultiply_rmul [OF length_rmul(4) length_rmul(4)] matMultiply_rmul [OF length_rmul(1) length_rmul(4)]
  have mv: "matMultiply exact (map Fin m) (L1_base ?k) 3 3 1 = map Fin (rvec m [db, - lb, 0])"
    "matMultiply exact (map Fin m) (L2_arm ?k) 3 3 1 = map Fin (rvec m [la, 0, 0])"
    "matMultiply exact (map Fin m) (L3_elbow ?k) 3 3 1 = map Fin (rvec m [- de, 0, lf])"
    "matMultiply exact (map Fin m) (L6_wrist ?k) 3 3 1 = map Fin (rvec m [0, 0, lw])" if "length m = 9" for m
    unfolding v by (rule matMultiply_rvec; simp add: that)+
  have l: "length (fk_rot qs) = 9" by (simp add: fk_rot_def)
  note mv = mv [OF length_rmul(4)] mv [OF length_rmul(1)] mv [OF l]
  show "po_R out' = map Fin (fk_rot qs)"
    unfolding out'_def solveFK_def Let_def js mm r by simp
  show "hasR out' = hasR out" unfolding out'_def solveFK_def Let_def by simp
  have add: "map (\<lambda>i. f_add exact (f_add exact (f_add exact (map Fin a ! i) (map Fin b ! i)) (map Fin c ! i)) (map Fin d ! i)) [0..<3] =
      map Fin [a ! 0 + b ! 0 + c ! 0 + d ! 0, a ! 1 + b ! 1 + c ! 1 + d ! 1, a ! 2 + b ! 2 + c ! 2 + d ! 2]"
    if "length a = 3" "length b = 3" "length c = 3" "length d = 3" for a b c d
    using that by (simp add: upt_3)
  have "[po_X out', po_Y out', po_Z out'] =
      map (\<lambda>i. f_add exact (f_add exact (f_add exact (map Fin (rvec (jrot qs 0) [db, - lb, 0]) ! i)
        (map Fin (rvec (rmul (jrot qs 0) (jrot qs 1)) [la, 0, 0]) ! i)) (map Fin (rvec (rmul (jrot qs 0) (rot12 qs)) [- de, 0, lf]) ! i))
        (map Fin (rvec (fk_rot qs) [0, 0, lw]) ! i)) [0..<3]"
    unfolding out'_def solveFK_def Let_def js mm mv r unfolding r2 by (simp add: upt_3)
  also have "\<dots> = map Fin (fk_point lb db la lf de lw qs)"
    by (subst add) (simp_all add: fk_point_def fk_planar_def rmul_rvec, simp add: rvec_def algebra_simps)
  finally show "[po_X out', po_Y out', po_Z out'] = map Fin (fk_point lb db la lf de lw qs)" .
qed

section \<open>Two links and a triangle\<close>

lemma cos_arccos_law:
  fixes a b r :: real
  assumes "0 < a" "0 < r" "\<bar>a - b\<bar> < r" "r < a + b"
  shows "\<bar>(a\<^sup>2 + r\<^sup>2 - b\<^sup>2) / (2 * (a * r))\<bar> < 1"
proof -
  have u: "a\<^sup>2 + r\<^sup>2 - b\<^sup>2 - 2 * (a * r) = (a - r - b) * (a - r + b)" by (simp add: power2_eq_square algebra_simps)
  have l: "a\<^sup>2 + r\<^sup>2 - b\<^sup>2 + 2 * (a * r) = (a + r - b) * (a + r + b)" by (simp add: power2_eq_square algebra_simps)
  have h: "S - D < 0 \<Longrightarrow> 0 < S + D \<Longrightarrow> S < D \<and> - S < D" for S D :: real by linarith
  have "a\<^sup>2 + r\<^sup>2 - b\<^sup>2 - 2 * (a * r) < 0" unfolding u by (intro mult_neg_pos) (use assms in auto)
  moreover have "0 < a\<^sup>2 + r\<^sup>2 - b\<^sup>2 + 2 * (a * r)" unfolding l by (intro mult_pos_pos) (use assms in auto)
  ultimately have x: "a\<^sup>2 + r\<^sup>2 - b\<^sup>2 < 2 * (a * r)" "- (a\<^sup>2 + r\<^sup>2 - b\<^sup>2) < 2 * (a * r)"
    using h by blast+
  have d: "0 < 2 * (a * r)" using assms(1,2) by simp
  have "(a\<^sup>2 + r\<^sup>2 - b\<^sup>2) / (2 * (a * r)) < 1" "- 1 < (a\<^sup>2 + r\<^sup>2 - b\<^sup>2) / (2 * (a * r))"
    using x unfolding pos_divide_less_eq [OF d] pos_less_divide_eq [OF d] by simp_all
  then show ?thesis by (simp only: abs_less_iff) simp
qed

text \<open>The triangle with sides \<open>a\<close>, \<open>b\<close> and \<open>r\<close>: \<open>al\<close> is the angle between \<open>a\<close> and \<open>r\<close>, \<open>ep\<close> that between
  \<open>a\<close> and \<open>b\<close>.\<close>

lemma triangle:
  fixes a b r :: real
  assumes "0 < a" "0 < b" "\<bar>a - b\<bar> < r" "r < a + b"
  defines "al \<equiv> arccos ((a\<^sup>2 + r\<^sup>2 - b\<^sup>2) / (2 * (a * r)))" and "ep \<equiv> arccos ((a\<^sup>2 + b\<^sup>2 - r\<^sup>2) / (2 * (a * b)))"
  shows "a - b * cos ep = r * cos al" and "b * sin ep = r * sin al"
proof -
  have r: "0 < r" using assms(3) by linarith
  have 1: "\<bar>(a\<^sup>2 + r\<^sup>2 - b\<^sup>2) / (2 * (a * r))\<bar> < 1" by (rule cos_arccos_law) (use assms r in auto)
  have 2: "\<bar>(a\<^sup>2 + b\<^sup>2 - r\<^sup>2) / (2 * (a * b))\<bar> < 1" by (rule cos_arccos_law) (use assms r in auto)
  have c: "cos al = (a\<^sup>2 + r\<^sup>2 - b\<^sup>2) / (2 * (a * r))" "cos ep = (a\<^sup>2 + b\<^sup>2 - r\<^sup>2) / (2 * (a * b))"
    by (simp_all only: al_def ep_def cos_arccos_abs less_imp_le [OF 1] less_imp_le [OF 2])
  have nn: "0 \<le> sin al" "0 \<le> sin ep"
    unfolding al_def ep_def using 1 2 by (auto simp only: abs_less_iff intro!: sin_ge_zero arccos_lbound arccos_ubound)
  have ac: "2 * a * b * cos ep = a\<^sup>2 + b\<^sup>2 - r\<^sup>2" "2 * a * r * cos al = a\<^sup>2 + r\<^sup>2 - b\<^sup>2"
    using c assms(1,2) r by simp_all
  then have "(2 * a) * (b * cos ep + r * cos al) = (2 * a) * a" by (simp add: power2_eq_square algebra_simps)
  then show e: "a - b * cos ep = r * cos al" using assms(1) by simp
  have "(b * sin ep)\<^sup>2 = b\<^sup>2 - (b * cos ep)\<^sup>2"
    by (simp add: power_mult_distrib sin_squared_eq algebra_simps)
  also have "\<dots> = r\<^sup>2 - (r * cos al)\<^sup>2" unfolding e [symmetric] using ac by (simp add: power2_eq_square algebra_simps)
  also have "\<dots> = (r * sin al)\<^sup>2" by (simp add: power_mult_distrib sin_squared_eq algebra_simps)
  finally show "b * sin ep = r * sin al" using nn assms(2) r by (simp add: power2_eq_iff_nonneg)
qed

text \<open>Both elbow solutions reach the point at distance \<open>r\<close> in direction \<open>th\<close>.\<close>

lemma two_links:
  fixes a b r al ep th :: real
  assumes "a - b * cos ep = r * cos al" "b * sin ep = r * sin al"
  shows "a * cos (th - al) + b * cos (th - al + (pi - ep)) = r * cos th"
    and "a * sin (th - al) + b * sin (th - al + (pi - ep)) = r * sin th"
    and "a * cos (th + al) + b * cos (th + al + (ep - pi)) = r * cos th"
    and "a * sin (th + al) + b * sin (th + al + (ep - pi)) = r * sin th"
proof -
  have c: "b * cos ep = a - r * cos al" using assms(1) by simp
  have u: "b * cos (u + (pi - ep)) = - (b * cos ep) * cos u - (b * sin ep) * sin u"
    "b * sin (u + (pi - ep)) = (b * sin ep) * cos u - (b * cos ep) * sin u"
    "b * cos (u + (ep - pi)) = - (b * cos ep) * cos u + (b * sin ep) * sin u"
    "b * sin (u + (ep - pi)) = - (b * cos ep) * sin u - (b * sin ep) * cos u" for u
    by (simp_all add: cos_add sin_add cos_diff sin_diff algebra_simps)
  have t: "cos th = cos (th - al + al)" "sin th = sin (th - al + al)" "cos th = cos (th + al - al)" "sin th = sin (th + al - al)"
    by simp_all
  show "a * cos (th - al) + b * cos (th - al + (pi - ep)) = r * cos th"
    unfolding u t(1) c assms(2) by (simp only: cos_add) (simp add: algebra_simps)
  show "a * sin (th - al) + b * sin (th - al + (pi - ep)) = r * sin th"
    unfolding u t(2) c assms(2) by (simp only: sin_add) (simp add: algebra_simps)
  show "a * cos (th + al) + b * cos (th + al + (ep - pi)) = r * cos th"
    unfolding u t(3) c assms(2) by (simp only: cos_diff) (simp add: algebra_simps)
  show "a * sin (th + al) + b * sin (th + al + (ep - pi)) = r * sin th"
    unfolding u t(4) c assms(2) by (simp only: sin_diff) (simp add: algebra_simps)
qed

section \<open>The wrist\<close>

text \<open>Every rotation whose last axis is not the first one is reached by two triples of wrist angles.\<close>

lemma rot345_eq:
  "rot345 qs = (let c3 = cos (qs ! 3); s3 = sin (qs ! 3); c4 = cos (qs ! 4); s4 = sin (qs ! 4); c5 = cos (qs ! 5); s5 = sin (qs ! 5)
    in [c3 * c4 * c5 - s3 * s5, - (c3 * c4 * s5) - s3 * c5, c3 * s4,
        s3 * c4 * c5 + c3 * s5, - (s3 * c4 * s5) + c3 * c5, s3 * s4,
        - (s4 * c5), s4 * s5, c4])"
  by (simp add: rot345_def jrot_def dh_offset_def dh_alpha_def rdh_def rmul_def Let_def algebra_simps)

lemma wrist_angles:
  assumes m: "is_rot m" and q: "cos q4 = m ! 8"
    "sin q4 * cos q3 = m ! 2" "sin q4 * sin q3 = m ! 5" "sin q4 * cos q5 = - (m ! 6)" "sin q4 * sin q5 = m ! 7"
    and nz: "sin q4 \<noteq> 0"
  shows "rot345 [q0, q1, q2, q3, q4, q5] = m"
proof -
  have l: "length m = 9" using m by (simp add: is_rot_def)
  note f = rot_cofactors [OF m]
  have ss: "(sin q4)\<^sup>2 = 1 - (m ! 8)\<^sup>2" using q(1) by (simp add: sin_squared_eq)
  have p: "(sin q4)\<^sup>2 * (cos q3 * cos q5) = - (m ! 2 * m ! 6)" "(sin q4)\<^sup>2 * (sin q3 * sin q5) = m ! 5 * m ! 7"
    "(sin q4)\<^sup>2 * (cos q3 * sin q5) = m ! 2 * m ! 7" "(sin q4)\<^sup>2 * (sin q3 * cos q5) = - (m ! 5 * m ! 6)"
    using q(2-5) by (simp_all add: power2_eq_square) (metis mult.assoc mult.left_commute mult_minus_right)+
  have g: "m ! 0 * m ! 8 = m ! 4 + m ! 2 * m ! 6" "m ! 4 * m ! 8 = m ! 0 + m ! 5 * m ! 7"
    "m ! 3 * m ! 8 = m ! 5 * m ! 6 - m ! 1" "m ! 1 * m ! 8 = m ! 2 * m ! 7 - m ! 3"
    using f by simp_all
  have e: "(sin q4)\<^sup>2 * m ! 0 = - (m ! 2 * m ! 6) * m ! 8 - m ! 5 * m ! 7"
    "(sin q4)\<^sup>2 * m ! 1 = - (m ! 2 * m ! 7) * m ! 8 + m ! 5 * m ! 6"
    "(sin q4)\<^sup>2 * m ! 3 = - (m ! 5 * m ! 6) * m ! 8 + m ! 2 * m ! 7"
    "(sin q4)\<^sup>2 * m ! 4 = - (m ! 5 * m ! 7) * m ! 8 - m ! 2 * m ! 6"
  proof -
    have x: "(1 - (m ! 8)\<^sup>2) * y = y - y * m ! 8 * m ! 8" for y by (simp add: power2_eq_square algebra_simps)
    show "(sin q4)\<^sup>2 * m ! 0 = - (m ! 2 * m ! 6) * m ! 8 - m ! 5 * m ! 7"
      unfolding ss x g(1) using g(2) by (simp add: algebra_simps)
    show "(sin q4)\<^sup>2 * m ! 1 = - (m ! 2 * m ! 7) * m ! 8 + m ! 5 * m ! 6"
      unfolding ss x g(4) using g(3) by (simp add: algebra_simps)
    show "(sin q4)\<^sup>2 * m ! 3 = - (m ! 5 * m ! 6) * m ! 8 + m ! 2 * m ! 7"
      unfolding ss x g(3) using g(4) by (simp add: algebra_simps)
    show "(sin q4)\<^sup>2 * m ! 4 = - (m ! 5 * m ! 7) * m ! 8 - m ! 2 * m ! 6"
      unfolding ss x g(2) using g(1) by (simp add: algebra_simps)
  qed
  have s2: "(sin q4)\<^sup>2 \<noteq> 0" using nz by simp
  have t: "y = z" if "(sin q4)\<^sup>2 * y = (sin q4)\<^sup>2 * z" for y z using that s2 by simp
  have k: "(sin q4)\<^sup>2 * (x * m ! 8 * y) = m ! 8 * ((sin q4)\<^sup>2 * (x * y))" for x y by simp
  have "cos q3 * cos q4 * cos q5 - sin q3 * sin q5 = m ! 0"
    by (rule t, unfold e q(1) right_diff_distrib distrib_left mult_minus_right k p) simp
  moreover have "- (cos q3 * cos q4 * sin q5) - sin q3 * cos q5 = m ! 1"
    by (rule t, unfold e q(1) right_diff_distrib distrib_left mult_minus_right k p) simp
  moreover have "sin q3 * cos q4 * cos q5 + cos q3 * sin q5 = m ! 3"
    by (rule t, unfold e q(1) right_diff_distrib distrib_left mult_minus_right k p) simp
  moreover have "- (sin q3 * cos q4 * sin q5) + cos q3 * cos q5 = m ! 4"
    by (rule t, unfold e q(1) right_diff_distrib distrib_left mult_minus_right k p) simp
  ultimately have "rot345 [q0, q1, q2, q3, q4, q5] = [m ! 0, m ! 1, m ! 2, m ! 3, m ! 4, m ! 5, m ! 6, m ! 7, m ! 8]"
    using q by (simp add: rot345_eq Let_def mult.commute)
  then show ?thesis using length_9 [OF l] by simp
qed

section \<open>Inverse kinematics\<close>

lemma forearm_polar:
  fixes lf de :: real
  assumes "0 < lf"
  defines "le \<equiv> sqrt (lf\<^sup>2 + de\<^sup>2)"
  shows "le * cos (arctan (de / lf)) = lf" "le * sin (arctan (de / lf)) = de" "0 < le"
proof -
  have "at2 de lf = arctan (de / lf)" using assms(1) by (simp add: at2_def)
  then show "le * cos (arctan (de / lf)) = lf" "le * sin (arctan (de / lf)) = de"
    using at2_polar [of lf de] assms(1) by (simp_all add: le_def)
  show "0 < le" using assms(1) by (simp add: le_def add_pos_nonneg)
qed

text \<open>The wrist centre in the plane of the arm.\<close>

lemma fk_planar_eq:
  assumes "0 < lf"
  shows "fk_planar la lf de qs =
    (let u = qs ! 1 - pi / 2; v = qs ! 2 - arctan (de / lf); le = sqrt (lf\<^sup>2 + de\<^sup>2)
     in [la * cos u + le * cos (u + v), la * sin u + le * sin (u + v), 0])"
proof -
  let ?le = "sqrt (lf\<^sup>2 + de\<^sup>2)" and ?ae = "arctan (de / lf)"
  note f = forearm_polar [OF assms, of de]
  have w: "?le * cos (x - ?ae) = (?le * cos ?ae) * cos x + (?le * sin ?ae) * sin x"
    "?le * sin (x - ?ae) = (?le * cos ?ae) * sin x - (?le * sin ?ae) * cos x" for x
    by (simp_all add: cos_diff sin_diff algebra_simps)
  have vec: "rvec (jrot qs 2) [- de, 0, lf] = [?le * cos (qs ! 2 - ?ae), ?le * sin (qs ! 2 - ?ae), 0]"
    unfolding w f(1,2) by (simp add: jrot_def dh_offset_def dh_alpha_def rdh_def rvec_def cos_add sin_add)
  define u where "u = qs ! 1 - pi / 2"
  define v where "v = qs ! 2 - ?ae"
  have j: "jrot qs 1 = rdh u 0" by (simp add: jrot_def dh_offset_def dh_alpha_def u_def)
  show ?thesis
    unfolding fk_planar_def rot12_def rmul_rvec vec Let_def j u_def [symmetric] v_def [symmetric]
    by (simp add: rdh_def rvec_def cos_add sin_add algebra_simps)
qed

text \<open>The two elbow solutions for a point of the plane.\<close>

definition elbow_angles :: "real \<Rightarrow> real \<Rightarrow> real \<Rightarrow> real \<Rightarrow> real \<Rightarrow> real list list" where
  "elbow_angles la lf de s0 s1 =
     (let le = sqrt (lf\<^sup>2 + de\<^sup>2); r = sqrt (s0\<^sup>2 + s1\<^sup>2); th = at2 s1 s0; ae = arctan (de / lf);
          al = arccos ((la\<^sup>2 + r\<^sup>2 - le\<^sup>2) / (2 * (la * r))); ep = arccos ((la\<^sup>2 + le\<^sup>2 - r\<^sup>2) / (2 * (la * le)))
      in [[th - al + pi / 2, ae - ep + pi], [th + al + pi / 2, ae + ep - pi]])"

definition in_reach :: "real \<Rightarrow> real \<Rightarrow> real \<Rightarrow> real \<Rightarrow> real \<Rightarrow> bool" where
  "in_reach la lf de s0 s1 \<longleftrightarrow> (let le = sqrt (lf\<^sup>2 + de\<^sup>2); r = sqrt (s0\<^sup>2 + s1\<^sup>2)
     in \<bar>la - le\<bar> + 1 / 1000000 < r \<and> r < la + le - 1 / 1000000)"

lemma elbow_reaches:
  assumes "0 < la" "0 < lf" "in_reach la lf de s0 s1" "a \<in> set (elbow_angles la lf de s0 s1)"
  shows "fk_planar la lf de (q # a @ w) = [s0, s1, 0]"
proof -
  define le where "le = sqrt (lf\<^sup>2 + de\<^sup>2)"
  define r where "r = sqrt (s0\<^sup>2 + s1\<^sup>2)"
  define al where "al = arccos ((la\<^sup>2 + r\<^sup>2 - le\<^sup>2) / (2 * (la * r)))"
  define ep where "ep = arccos ((la\<^sup>2 + le\<^sup>2 - r\<^sup>2) / (2 * (la * le)))"
  have le: "0 < le" using forearm_polar(3) [OF assms(2)] by (simp add: le_def)
  have r: "\<bar>la - le\<bar> < r" "r < la + le"
    using assms(3) by (simp_all add: in_reach_def Let_def le_def [symmetric] r_def [symmetric])
  have "0 < r" using r(1) by linarith
  then have nz: "s0 \<noteq> 0 \<or> s1 \<noteq> 0" by (auto simp: r_def)
  note p = at2_polar(1,2) [OF nz, folded r_def]
  note t = two_links [OF triangle [OF assms(1) le r, folded al_def ep_def], of "at2 s1 s0"]
  have a: "a = [at2 s1 s0 - al + pi / 2, arctan (de / lf) - ep + pi] \<or> a = [at2 s1 s0 + al + pi / 2, arctan (de / lf) + ep - pi]"
    using assms(4) by (simp add: elbow_angles_def Let_def le_def al_def ep_def r_def)
  have e: "la * cos (x + pi / 2 - pi / 2) + le * cos (x + pi / 2 - pi / 2 + (arctan (de / lf) + y - arctan (de / lf))) = la * cos x + le * cos (x + y)"
    "la * sin (x + pi / 2 - pi / 2) + le * sin (x + pi / 2 - pi / 2 + (arctan (de / lf) + y - arctan (de / lf))) = la * sin x + le * sin (x + y)" for x y
    by simp_all
  show ?thesis
    using a
  proof
    assume a: "a = [at2 s1 s0 - al + pi / 2, arctan (de / lf) - ep + pi]"
    show ?thesis
      unfolding fk_planar_eq [OF assms(2)] Let_def le_def [symmetric]
      using t(1,2) p by (simp add: a algebra_simps)
  next
    assume a: "a = [at2 s1 s0 + al + pi / 2, arctan (de / lf) + ep - pi]"
    show ?thesis
      unfolding fk_planar_eq [OF assms(2)] Let_def le_def [symmetric]
      using t(3,4) p by (simp add: a algebra_simps)
  qed
qed

lemma ik_elbow_exact:
  assumes "0 < la" "0 < lf" "in_reach la lf de s0 s1"
  shows "ik_elbow exact (real_arm lb db la lf de lw) i (map Fin [s0, s1, s2]) =
    (map (map Fin) (if i = 0 then elbow_angles la lf de s0 s1 else rev (elbow_angles la lf de s0 s1)), 1)"
proof -
  define le where "le = sqrt (lf\<^sup>2 + de\<^sup>2)"
  define r where "r = sqrt (s0\<^sup>2 + s1\<^sup>2)"
  have le: "0 < le" using forearm_polar(3) [OF assms(2)] by (simp add: le_def)
  have q: "le\<^sup>2 = lf\<^sup>2 + de\<^sup>2" "r\<^sup>2 = s0\<^sup>2 + s1\<^sup>2" by (simp_all add: le_def r_def)
  have r: "\<bar>la - le\<bar> + 1 / 1000000 < r" "r < la + le - 1 / 1000000"
    using assms(3) by (simp_all add: in_reach_def Let_def le_def [symmetric] r_def [symmetric])
  then have rp: "0 < r" "\<bar>la - le\<bar> < r" "r < la + le" by linarith+
  have k: "l_se (real_arm lb db la lf de lw) = Fin la" "l_ew (real_arm lb db la lf de lw) = Fin le"
    "l_se_2 (real_arm lb db la lf de lw) = Fin (la * la)" "l_ew_2 (real_arm lb db la lf de lw) = Fin (lf * lf + de * de)"
    "atan_e (real_arm lb db la lf de lw) = Fin (arctan (de / lf))"
    using assms(2) by (simp_all add: real_arm_def DOF6Kinematic_ctor_def Let_def le_def power2_eq_square)
  have far: "\<not> \<bar>la + le - r\<bar> \<le> 1 / 1000000" "\<not> \<bar>r - \<bar>la - le\<bar>\<bar> \<le> 1 / 1000000" using r by linarith+
  have c1: "\<bar>(la\<^sup>2 + r\<^sup>2 - le\<^sup>2) / (2 * (la * r))\<bar> < 1" by (rule cos_arccos_law) (use assms(1) rp in auto)
  have c2: "\<bar>(la\<^sup>2 + le\<^sup>2 - r\<^sup>2) / (2 * (la * le))\<bar> < 1" by (rule cos_arccos_law) (use assms(1) le rp in auto)
  have cut: "cut_acos exact True (Fin n) (Fin d) = Fin (arccos (n / (2 * d)))" if "d \<noteq> 0" "\<bar>n / (2 * d)\<bar> < 1" for n d
  proof -
    have "n / (2 * d) < 1 \<and> - (n / (2 * d)) < 1" using that(2) by (simp only: abs_less_iff)
    then have "\<not> 1 \<le> n / (2 * d)" "\<not> n / (2 * d) \<le> - 1" by auto
    then show ?thesis using that(1) by (simp add: cut_acos_def Let_def)
  qed
  have sq: "la * la + (s0 * s0 + s1 * s1) - (lf * lf + de * de) = la\<^sup>2 + r\<^sup>2 - le\<^sup>2"
    "la * la + (lf * lf + de * de) - (s0 * s0 + s1 * s1) = la\<^sup>2 + le\<^sup>2 - r\<^sup>2"
    unfolding q by (simp_all add: power2_eq_square)
  have m: "cut_acos exact True (Fin (la * la + (s0 * s0 + s1 * s1) - (lf * lf + de * de))) (Fin (la * r)) =
      Fin (arccos ((la\<^sup>2 + r\<^sup>2 - le\<^sup>2) / (2 * (la * r))))"
    "cut_acos exact True (Fin (la * la + (lf * lf + de * de) - (s0 * s0 + s1 * s1))) (Fin (la * le)) =
      Fin (arccos ((la\<^sup>2 + le\<^sup>2 - r\<^sup>2) / (2 * (la * le))))"
    unfolding sq using assms(1) le rp(1) by (auto intro!: cut c1 c2)
  have rs: "sqrt (s0 * s0 + s1 * s1) = r" by (simp add: r_def power2_eq_square)
  show ?thesis
    using assms(1) le rp(1) far m
    by (simp add: ik_elbow_def Let_def k rs elbow_angles_def q(1) [symmetric] le_def [symmetric] r_def [symmetric])
qed

text \<open>The inverse rotations of the first three joints, and the plane of the arm.\<close>

lemma ik_R10_exact: "ik_R10 exact (real_arm lb db la lf de lw) (Fin q) = map Fin (rtr (jrot (q # qs) 0))"
  by (simp add: ik_R10_def real_arm_def DOF6Kinematic_ctor_def Let_def jrot_def dh_offset_def dh_alpha_def rdh_def rtr_def)

lemma ik_R31_exact: "ik_R31 exact (real_arm lb db la lf de lw) (map Fin [a, b]) = map Fin (rtr (rot12 (q # [a, b] @ w)))"
  by (simp add: ik_R31_def real_arm_def DOF6Kinematic_ctor_def Let_def rot12_def rmul_def jrot_def dh_offset_def dh_alpha_def
      rdh_def rtr_def)

lemma ik_planar_exact:
  assumes "length w = 3"
  shows "ik_planar exact (real_arm lb db la lf de lw) (map Fin w) (Fin q) =
    map Fin [cos q * w ! 0 + sin q * w ! 1 - db, lb - w ! 2, cos q * w ! 1 - sin q * w ! 0]"
proof -
  have m: "matMultiply exact (map Fin (rtr (jrot [q] 0))) (map Fin w) 3 3 1 = map Fin (rvec (rtr (jrot [q] 0)) w)"
    by (rule matMultiply_rvec) (simp_all add: assms rtr_def)
  have l: "L1_base (real_arm lb db la lf de lw) = map Fin [db, - lb, 0]"
    by (simp add: real_arm_def DOF6Kinematic_ctor_def Let_def)
  show ?thesis
    unfolding ik_planar_def Let_def ik_R10_exact [of lb db la lf de lw q "[]"] m l
    by (simp add: upt_3 rvec_def rtr_def jrot_def dh_offset_def dh_alpha_def rdh_def)
qed

text \<open>The shoulder turns the plane to the wrist centre.\<close>

lemma shoulder_plane:
  assumes "w0 \<noteq> 0 \<or> w1 \<noteq> 0" "q = at2 w1 w0 \<or> q = at2 (- w1) (- w0)"
  shows "cos q * w1 - sin q * w0 = 0"
proof -
  let ?r = "sqrt (w0\<^sup>2 + w1\<^sup>2)"
  have r: "?r \<noteq> 0" using assms(1) by (simp add: add_nonneg_eq_0_iff)
  have n: "- w0 \<noteq> 0 \<or> - w1 \<noteq> 0" using assms(1) by simp
  obtain g where g: "g = 1 \<or> g = - 1" "?r * cos q = g * w0" "?r * sin q = g * w1"
  proof -
    have "?r * cos q = 1 * w0 \<and> ?r * sin q = 1 * w1 \<or> ?r * cos q = - 1 * w0 \<and> ?r * sin q = - 1 * w1"
      using assms(2) at2_polar(1,2) [OF assms(1)] at2_polar(1,2) [OF n] by (elim disjE) simp_all
    then show thesis using that [of 1] that [of "- 1"] by blast
  qed
  have "?r * (cos q * w1 - sin q * w0) = (?r * cos q) * w1 - (?r * sin q) * w0" by (simp add: algebra_simps)
  also have "\<dots> = 0" by (simp add: g)
  finally show ?thesis using assms(1) by auto
qed

text \<open>The two wrist solutions, with the flag of the regular case.\<close>

lemma ik_wrist_exact:
  assumes m: "is_rot m" and s: "(v, fw) = ik_wrist exact (real_arm lb db la lf de lw) i (map Fin m) lst" "fw = 1" "x \<in> set v"
  shows "\<exists>q3 q4 q5. x = map Fin [q3, q4, q5] \<and> \<bar>q3\<bar> \<le> pi \<and> \<bar>q4\<bar> \<le> pi \<and> \<bar>q5\<bar> \<le> pi \<and>
    (\<forall>q0 q1 q2. rot345 [q0, q1, q2, q3, q4, q5] = m)"
proof -
  have l: "length m = 9" using m by (simp add: is_rot_def)
  let ?c = "m ! 8" and ?q = "arccos (m ! 8)"
  have reg: "\<not> 1 - 1 / 1000000 \<le> ?c" "\<not> ?c \<le> - 1 + 1 / 1000000"
    using s(1,2) l by (auto simp: ik_wrist_def Let_def split: if_splits)
  then have b: "\<bar>?c\<bar> < 1" by linarith
  note n = rot_norms [OF m]
  have cq: "cos ?q = ?c" using b by (intro cos_arccos_abs) simp
  have qr: "0 \<le> ?q" "?q \<le> pi" using b by (auto intro: arccos_lbound arccos_ubound)
  have sq: "sin ?q = sqrt (1 - ?c\<^sup>2)" using b by (intro sin_arccos_abs) simp
  have sn: "sin ?q = sqrt ((m ! 2)\<^sup>2 + (m ! 5)\<^sup>2)" "sin ?q = sqrt ((m ! 6)\<^sup>2 + (m ! 7)\<^sup>2)"
    unfolding sq using n by (simp_all add: algebra_simps)
  have pos: "sin ?q \<noteq> 0" using b unfolding sq by (simp add: abs_square_less_1 [symmetric] power2_eq_square)
  have nz: "m ! 2 \<noteq> 0 \<or> m ! 5 \<noteq> 0" "- (m ! 6) \<noteq> 0 \<or> m ! 7 \<noteq> 0" "- (m ! 2) \<noteq> 0 \<or> - (m ! 5) \<noteq> 0" "m ! 6 \<noteq> 0 \<or> - (m ! 7) \<noteq> 0"
    using pos sn by auto
  have rg: "\<bar>at2 y z\<bar> \<le> pi" if "z \<noteq> 0 \<or> y \<noteq> 0" for y z using at2_polar(3,4) [OF that] by linarith
  have up: "rot345 [q0, q1, q2, at2 (m ! 5) (m ! 2), ?q, at2 (m ! 7) (- (m ! 6))] = m" for q0 q1 q2
    by (rule wrist_angles [OF m cq])
      (use at2_polar(1,2) [OF nz(1)] at2_polar(1,2) [OF nz(2)] sn pos in \<open>simp_all add: power2_minus\<close>)
  have down: "rot345 [q0, q1, q2, at2 (- (m ! 5)) (- (m ! 2)), - ?q, at2 (- (m ! 7)) (m ! 6)] = m" for q0 q1 q2
    by (rule wrist_angles [OF m])
      (use at2_polar(1,2) [OF nz(3)] at2_polar(1,2) [OF nz(4)] sn pos cq in \<open>simp_all add: power2_minus\<close>)
  have ne: "?c \<noteq> 1" "?c \<noteq> - 1" using b by auto
  have v: "v = (let u = map Fin [at2 (m ! 5) (m ! 2), ?q, at2 (m ! 7) (- (m ! 6))];
      d = map Fin [at2 (- (m ! 5)) (- (m ! 2)), - ?q, at2 (- (m ! 7)) (m ! 6)];
      ud = [at2 (m ! 5) (m ! 2), ?q, at2 (m ! 7) (- (m ! 6))] in if i = 0 then [u, d] else [d, u])"
    using s(1) l reg ne by (simp add: ik_wrist_def Let_def split: if_splits)
  have "x = map Fin [at2 (m ! 5) (m ! 2), ?q, at2 (m ! 7) (- (m ! 6))] \<or>
      x = map Fin [at2 (- (m ! 5)) (- (m ! 2)), - ?q, at2 (- (m ! 7)) (m ! 6)]"
    using s(3) v by (auto simp: Let_def split: if_splits)
  then show ?thesis
  proof
    assume "x = map Fin [at2 (m ! 5) (m ! 2), ?q, at2 (m ! 7) (- (m ! 6))]"
    then show ?thesis using up rg [OF nz(1)] rg [OF nz(2)] qr by (intro exI conjI) (assumption | simp)+
  next
    assume "x = map Fin [at2 (- (m ! 5)) (- (m ! 2)), - ?q, at2 (- (m ! 7)) (m ! 6)]"
    then show ?thesis using down rg [OF nz(3)] rg [OF nz(4)] qr by (intro exI conjI) (assumption | simp)+
  qed
qed

lemma ik_wrap_id: "\<bar>q\<bar> \<le> pi \<Longrightarrow> ik_wrap exact (Fin q) = Fin q"
  by (auto simp: ik_wrap_def)

lemma fk_rot_parts: "fk_rot (q0 # [a, b] @ w) = rmul (jrot (q0 # [a, b] @ w) 0) (rmul (rot12 (q0 # [a, b] @ w)) (rot345 (q0 # [a, b] @ w)))"
  by (simp add: fk_rot_def)

text \<open>The rotation that is left to the wrist.\<close>

definition wrist_rot :: "real \<Rightarrow> real list \<Rightarrow> real list \<Rightarrow> real list" where
  "wrist_rot q a m = rmul (rmul (rtr (rot12 (q # a))) (rtr (jrot [q] 0))) m"

lemma list_of_two: "length xs = 2 \<Longrightarrow> \<exists>x y. xs = [x, y]"
  by (auto simp: length_Suc_conv numeral_2_eq_2)

lemma ik_wrist_matrix:
  assumes "length m = 9"
  shows "matMultiply exact (matMultiply exact (ik_R31 exact (real_arm lb db la lf de lw) (map Fin [a1, a2]))
      (ik_R10 exact (real_arm lb db la lf de lw) (Fin q)) 3 3 3) (map Fin m) 3 3 3 = map Fin (wrist_rot q [a1, a2] m)"
proof -
  have lr: "length (rtr x) = 9" for x by (simp add: rtr_def)
  show ?thesis
    unfolding ik_R31_exact [of lb db la lf de lw a1 a2 q "[]"] ik_R10_exact [of lb db la lf de lw q "[]"]
    by (simp only: append_Cons append_Nil matMultiply_rmul lr assms(1) length_rmul wrist_rot_def)
qed

text \<open>Joints depend on their own angle only.\<close>

lemma jrot_pre: "jrot (q # v) 0 = jrot [q] 0" "rot12 (q # a1 # a2 # v) = rot12 [q, a1, a2]"
  by (simp_all add: jrot_def rot12_def dh_offset_def)

lemma fk_rot_wrist:
  assumes "is_rot m" "rot345 [q, b1, b2, q3, q4, q5] = wrist_rot q [a1, a2] m"
  shows "fk_rot [q, b1, b2, q3, q4, q5] =
    rmul (jrot [q] 0) (rmul (rmul (rot12 [q, b1, b2]) (rtr (rot12 [q, a1, a2]))) (rmul (rtr (jrot [q] 0)) m))"
  using assms(2) by (simp add: fk_rot_def wrist_rot_def jrot_pre(1) [of q "[b1, b2, q3, q4, q5]"]
      jrot_pre(2) [of q b1 b2 "[q3, q4, q5]"] rmul_assoc)

text \<open>The angles of a solution before they are wrapped.\<close>

lemma branch_angles:
  assumes "is_rot m" "(sol, fl) \<in> set (ik_branch exact (real_arm lb db la lf de lw) (map Fin m) lst i (Fin q) fs (map Fin [a1, a2]) fa)"
    "fl ! 2 = 1"
  obtains q3 q4 q5 where "\<bar>q3\<bar> \<le> pi" "\<bar>q4\<bar> \<le> pi" "\<bar>q5\<bar> \<le> pi"
    "sol = map (\<lambda>q. f_mul exact (ik_wrap exact (Fin q)) (RAD_TO_DEG exact)) [q, a1, a2, q3, q4, q5]"
    "\<And>q0 q1 q2. rot345 [q0, q1, q2, q3, q4, q5] = wrist_rot q [a1, a2] m"
proof -
  let ?k = "real_arm lb db la lf de lw"
  have lm: "length m = 9" using assms(1) by (simp add: is_rot_def)
  have Mr: "is_rot (wrist_rot q [a1, a2] m)"
    unfolding wrist_rot_def by (intro rot_rmul rot_rtr rot_jrot rot_fk assms(1))
  obtain v fw where v: "ik_wrist exact ?k i (map Fin (wrist_rot q [a1, a2] m)) lst = (v, fw)" by fastforce
  obtain x where x: "x \<in> set v" "fl = [fs, fa, fw]"
    "sol = map (\<lambda>q. f_mul exact (ik_wrap exact q) (RAD_TO_DEG exact)) ([Fin q] @ map Fin [a1, a2] @ x)"
    using assms(2) by (auto simp: ik_branch_def Let_def ik_wrist_matrix [OF lm, simplified] v)
  have "fw = 1" using assms(3) x(2) by simp
  then obtain q3 q4 q5 where x3: "x = map Fin [q3, q4, q5]" "\<bar>q3\<bar> \<le> pi" "\<bar>q4\<bar> \<le> pi" "\<bar>q5\<bar> \<le> pi"
    "\<forall>q0 q1 q2. rot345 [q0, q1, q2, q3, q4, q5] = wrist_rot q [a1, a2] m"
    using ik_wrist_exact [OF Mr v [symmetric] _ x(1)] by blast
  show thesis by (rule that [OF x3(2-4)]) (use x3(1,5) x(3) in simp_all)
qed

lemma shoulder_range:
  assumes "w0 \<noteq> 0 \<or> w1 \<noteq> 0" "q = at2 w1 w0 \<or> q = at2 (- w1) (- w0)"
  shows "\<bar>q\<bar> \<le> pi"
proof -
  have "- w0 \<noteq> 0 \<or> - w1 \<noteq> 0" using assms(1) by simp
  then show ?thesis using assms(2) at2_polar(3,4) [OF assms(1)] at2_polar(3,4) [of "- w0" "- w1"] by auto
qed

lemma branch_reaches:
  assumes lens: "0 < la" "0 < lf" and m: "is_rot m" and w: "length w = 3" "w ! 0 \<noteq> 0 \<or> w ! 1 \<noteq> 0"
    and q: "q = at2 (w ! 1) (w ! 0) \<or> q = at2 (- (w ! 1)) (- (w ! 0))"
    and reach: "in_reach la lf de (cos q * w ! 0 + sin q * w ! 1 - db) (lb - w ! 2)"
    and a: "a \<in> set (elbow_angles la lf de (cos q * w ! 0 + sin q * w ! 1 - db) (lb - w ! 2))" "\<forall>x \<in> set a. \<bar>x\<bar> \<le> pi"
    and b: "(sol, fl) \<in> set (ik_branch exact (real_arm lb db la lf de lw) (map Fin m) lst i (Fin q) fs (map Fin a) fa)" "fl ! 2 = 1"
  shows "\<exists>qs. length qs = 6 \<and> sol = degrees qs \<and> fk_rot qs = m \<and>
    fk_point lb db la lf de lw qs = map2 (+) w (rvec m [0, 0, lw])"
proof -
  obtain a1 a2 where a12: "a = [a1, a2]" using a(1) by (auto simp: elbow_angles_def Let_def)
  have lm: "length m = 9" using m by (simp add: is_rot_def)
  obtain q3 q4 q5 where x: "\<bar>q3\<bar> \<le> pi" "\<bar>q4\<bar> \<le> pi" "\<bar>q5\<bar> \<le> pi"
    "sol = map (\<lambda>q. f_mul exact (ik_wrap exact (Fin q)) (RAD_TO_DEG exact)) [q, a1, a2, q3, q4, q5]"
    "\<And>q0 q1 q2. rot345 [q0, q1, q2, q3, q4, q5] = wrist_rot q [a1, a2] m"
    using branch_angles [OF m b(1) [unfolded a12] b(2)] by metis
  let ?qs = "[q, a1, a2, q3, q4, q5]" and ?R = "jrot [q] 0"
  have sol: "sol = degrees ?qs"
    using a(2) shoulder_range [OF w(2) q] x(1-3) by (simp add: x(4) a12 degrees_def ik_wrap_id RAD_TO_DEG_exact)
  have fk: "fk_rot ?qs = m"
    unfolding fk_rot_wrist [OF m x(5)]
    by (simp add: rot_adj(2) [OF rot_fk(1)] rmul_id rmul_assoc [symmetric] rot_adj(2) [OF rot_jrot] lm)
  have pl: "fk_planar la lf de ?qs = [cos q * w ! 0 + sin q * w ! 1 - db, lb - w ! 2, 0]"
    using elbow_reaches [OF lens reach a(1), of q "[q3, q4, q5]"] by (simp add: a12)
  have z: "cos q * w ! 1 - sin q * w ! 0 = 0" by (rule shoulder_plane [OF w(2) q])
  have up: "map2 (+) [db, - lb, 0] (fk_planar la lf de ?qs) = rvec (rtr ?R) w"
    using z by (simp add: pl rvec_def rtr_def jrot_def dh_offset_def dh_alpha_def rdh_def)
  have "rvec ?R (rvec (rtr ?R) w) = rvec rid w" by (simp only: rmul_rvec [symmetric] rot_adj(2) [OF rot_jrot])
  also have "\<dots> = w"
    by (rule nth_equalityI) (use w(1) in \<open>auto simp: rvec_def rid_def less_Suc_eq numeral_eq_Suc\<close>)
  finally have "fk_point lb db la lf de lw ?qs = map2 (+) w (rvec m [0, 0, lw])"
    by (simp only: fk_point_def up fk jrot_pre(1) [of q "[a1, a2, q3, q4, q5]"])
  then show ?thesis using sol fk by (intro exI [of _ ?qs]) simp
qed

section \<open>The eight solutions\<close>

text \<open>
  The wrist centre that a pose asks for, the angle of the shoulder for the two arm solutions, the wrist centre
  in the plane of the arm, and the two elbow solutions in the order the code lists them.
\<close>

definition wrist_centre :: "real \<Rightarrow> real list \<Rightarrow> real list \<Rightarrow> real list" where
  "wrist_centre lw m p = [p ! 0 - lw * m ! 2, p ! 1 - lw * m ! 5, p ! 2 - lw * m ! 8]"

definition shoulder_angle :: "real list \<Rightarrow> nat \<Rightarrow> real" where
  "shoulder_angle w i = (if i = 0 then at2 (w ! 1) (w ! 0) else at2 (- (w ! 1)) (- (w ! 0)))"

definition plane_point :: "real \<Rightarrow> real \<Rightarrow> real list \<Rightarrow> nat \<Rightarrow> real \<times> real" where
  "plane_point lb db w i = (let q = shoulder_angle w i in (cos q * w ! 0 + sin q * w ! 1 - db, lb - w ! 2))"

definition elbow_choice :: "real \<Rightarrow> real \<Rightarrow> real \<Rightarrow> real \<times> real \<Rightarrow> nat \<Rightarrow> nat \<Rightarrow> real list" where
  "elbow_choice la lf de s i j = elbow_angles la lf de (fst s) (snd s) ! (if i = 0 then j else 1 - j)"

lemma ik_lengths:
  "length (fst (ik_elbow e k i sw)) = 2" "length (fst (ik_wrist e k i m lst)) = 2"
  "length (ik_branch e k R lst i qs fs qa fa) = 2" "length (ik_arm e k w R lst i qs fs) = 4"
proof -
  show el: "length (fst (ik_elbow e k i sw)) = 2" for sw by (simp add: ik_elbow_def Let_def)
  show wr: "length (fst (ik_wrist e k i m lst)) = 2" for m by (simp add: ik_wrist_def Let_def split: prod.splits)
  show br: "length (ik_branch e k R lst i qs fs qa fa) = 2" for qa fa
    using wr by (simp add: ik_branch_def Let_def split_beta)
  have "\<exists>x y. fst (ik_elbow e k i (ik_planar e k w qs)) = [x, y]"
    by (rule list_of_two) (rule el)
  then show "length (ik_arm e k w R lst i qs fs) = 4"
    using br by (auto simp: ik_arm_def Let_def split_beta)
qed

text \<open>Off the straight wrist the flag is 1.\<close>

lemma ik_wrist_flag:
  assumes "length m = 9" "\<bar>m ! 8\<bar> < 1 - 1 / 1000000"
  shows "snd (ik_wrist exact k i (map Fin m) lst) = 1"
proof -
  have "\<not> 1 - 1 / 1000000 \<le> m ! 8" "\<not> m ! 8 \<le> - 1 + 1 / 1000000" "m ! 8 \<noteq> 1" "m ! 8 \<noteq> - 1"
    using assms(2) by linarith+
  then show ?thesis using assms(1) by (simp add: ik_wrist_def Let_def)
qed

lemma elbow_choice_in:
  assumes "j < 2"
  shows "elbow_choice la lf de s i j \<in> set (elbow_angles la lf de (fst s) (snd s))" "length (elbow_choice la lf de s i j) = 2"
proof -
  have l: "length (elbow_angles la lf de (fst s) (snd s)) = 2" "\<forall>x \<in> set (elbow_angles la lf de (fst s) (snd s)). length x = 2"
    by (simp_all add: elbow_angles_def Let_def)
  show in_set: "elbow_choice la lf de s i j \<in> set (elbow_angles la lf de (fst s) (snd s))"
    unfolding elbow_choice_def by (rule nth_mem) (use assms in \<open>auto simp: l(1)\<close>)
  show "length (elbow_choice la lf de s i j) = 2" using l(2) in_set by blast
qed

lemma ik_branch_nth:
  assumes "length m = 9" "length a = 2" "v < 2" "\<bar>wrist_rot q a m ! 8\<bar> < 1 - 1 / 1000000"
  shows "snd (ik_branch exact (real_arm lb db la lf de lw) (map Fin m) lst i (Fin q) fs (map Fin a) fa ! v) = [fs, fa, 1]"
proof -
  let ?k = "real_arm lb db la lf de lw"
  obtain a1 a2 where a: "a = [a1, a2]" using list_of_two [OF assms(2)] by blast
  have l: "length (wrist_rot q a m) = 9" by (simp add: wrist_rot_def)
  note f = ik_wrist_flag [OF l assms(4), of ?k i lst]
  show ?thesis
    using assms(3) f ik_lengths(2) [of exact ?k i "map Fin (wrist_rot q a m)" lst]
    by (simp add: ik_branch_def Let_def a ik_wrist_matrix [OF assms(1), simplified] split_beta)
qed

lemma solveIK_nth:
  fixes p m :: "real list" and pose :: Pose6D and lb db la lf de lw :: real and i j v :: nat and lst :: "double list"
  assumes pose: "ik_pose exact pose = (map Fin p, map Fin m)" "length m = 9" "0 < lf"
  defines "w \<equiv> wrist_centre lw m p"
  assumes w: "1 / 1000000 < sqrt (w ! 0 * w ! 0 + w ! 1 * w ! 1)" and ij: "i < 2" "j < 2" "v < 2"
    and reach: "0 < la" "in_reach la lf de (fst (plane_point lb db w i)) (snd (plane_point lb db w i))"
  defines "k \<equiv> real_arm lb db la lf de lw" and "n \<equiv> 4 * i + 2 * j + v"
  defines "b \<equiv> ik_branch exact k (map Fin m) lst i (Fin (shoulder_angle w i)) 1
    (map Fin (elbow_choice la lf de (plane_point lb db w i) i j)) 1 ! v"
  shows "ik_config (snd (solveIK exact k pose lst)) ! n = fst b" "solFlag (snd (solveIK exact k pose lst)) ! n = snd b"
proof -
  have "l_ew k = Fin (sqrt (lf\<^sup>2 + de\<^sup>2))"
    using pose(3) by (simp add: k_def real_arm_def DOF6Kinematic_ctor_def Let_def power2_eq_square)
  then have k: "\<not> deq (Fin 0) (l_ew k)" using pose(3) by simp
  have mv: "matMultiply exact (map Fin m) (L6_wrist k) 3 3 1 = map Fin (rvec m [0, 0, lw])"
    using matMultiply_rvec [of m "[0, 0, lw]"] pose(2) by (simp add: k_def real_arm_def DOF6Kinematic_ctor_def Let_def)
  have p3: "length p = 3" using arg_cong [OF pose(1), of "length \<circ> fst"] by (simp add: ik_pose_def)
  have c: "ik_centre exact k (map Fin p) (map Fin m) = map Fin w"
    unfolding ik_centre_def Let_def mv by (simp add: upt_3 w_def wrist_centre_def rvec_def mult.commute p3)
  have lw: "length w = 3" by (simp add: w_def wrist_centre_def)
  have sh: "ik_shoulder exact (map Fin w) lst = (map (\<lambda>i. Fin (shoulder_angle w i)) [0, 1], 1)"
    using w lw by (simp add: ik_shoulder_def shoulder_angle_def)
  define A where "A h = ik_arm exact k (map Fin w) (map Fin m) lst h (Fin (shoulder_angle w h)) 1" for h
  have la: "length (A h) = 4" for h by (simp add: A_def ik_lengths)
  have r: "snd (solveIK exact k pose lst) = \<lparr>ik_config = map fst (A 0 @ A 1), solFlag = map snd (A 0 @ A 1)\<rparr>"
    by (simp only: solveIK_def Let_def k if_False pose(1) prod.case c sh) (simp add: A_def)
  have cs: "i = 0 \<or> i = 1" "j = 0 \<or> j = 1" "v = 0 \<or> v = 1" using ij by linarith+
  have n: "n < 8" using ij by (simp add: n_def)
  have An: "(A 0 @ A 1) ! n = A i ! (2 * j + v)"
    using cs(1) ij by (elim disjE) (simp_all add: n_def nth_append la)
  let ?q = "shoulder_angle w i" and ?s = "plane_point lb db w i"
  have pl: "ik_planar exact k (map Fin w) (Fin ?q) = map Fin [fst ?s, snd ?s, cos ?q * w ! 1 - sin ?q * w ! 0]"
    unfolding k_def by (simp add: ik_planar_exact [OF lw] plane_point_def Let_def)
  define B where "B h = ik_branch exact k (map Fin m) lst i (Fin ?q) 1 (map Fin (elbow_choice la lf de ?s i h)) 1" for h
  have lb: "length (B h) = 2" for h by (simp add: B_def ik_lengths)
  have e2: "elbow_angles la lf de x y = [elbow_choice la lf de (x, y) 0 0, elbow_choice la lf de (x, y) 0 1]" for x y
    by (simp add: elbow_choice_def elbow_angles_def Let_def)
  have Ai: "A i = B 0 @ B 1"
    unfolding A_def ik_arm_def Let_def pl
    unfolding k_def ik_elbow_exact [OF reach(1) pose(3) reach(2)]
    by (simp add: e2 B_def k_def) (simp add: elbow_choice_def)
  have "A i ! (2 * j + v) = B j ! v"
    using cs(2) ij(3) by (elim disjE) (simp_all add: Ai nth_append lb)
  then have "(A 0 @ A 1) ! n = b" using An by (simp add: B_def b_def)
  then show "ik_config (snd (solveIK exact k pose lst)) ! n = fst b" "solFlag (snd (solveIK exact k pose lst)) ! n = snd b"
    using n la by (simp_all add: r del: map_append)
qed

text \<open>Each solution is a branch with regular flags.\<close>

lemma solution_branch:
  fixes p m w :: "real list" and pose :: Pose6D and lb db la lf de lw :: real and i j v :: nat and lst :: "double list"
  assumes "ik_pose exact pose = (map Fin p, map Fin m)" "is_rot m" "0 < lf"
    and "w = wrist_centre lw m p" "1 / 1000000 < sqrt (w ! 0 * w ! 0 + w ! 1 * w ! 1)"
    and "i < 2" "j < 2" "v < 2" "0 < la"
    and "in_reach la lf de (fst (plane_point lb db w i)) (snd (plane_point lb db w i))"
    and "\<bar>wrist_rot (shoulder_angle w i) (elbow_choice la lf de (plane_point lb db w i) i j) m ! 8\<bar> < 1 - 1 / 1000000"
  defines "s \<equiv> snd (solveIK exact (real_arm lb db la lf de lw) pose lst)" and "n \<equiv> 4 * i + 2 * j + v"
    and "q \<equiv> shoulder_angle w i" and "a \<equiv> elbow_choice la lf de (plane_point lb db w i) i j"
  shows "solFlag s ! n = [1, 1, 1]" "length w = 3" "w ! 0 \<noteq> 0 \<or> w ! 1 \<noteq> 0"
    "q = at2 (w ! 1) (w ! 0) \<or> q = at2 (- (w ! 1)) (- (w ! 0))"
    "in_reach la lf de (cos q * w ! 0 + sin q * w ! 1 - db) (lb - w ! 2)"
    "a \<in> set (elbow_angles la lf de (cos q * w ! 0 + sin q * w ! 1 - db) (lb - w ! 2))"
    "(ik_config s ! n, [1, 1, 1]) \<in>
      set (ik_branch exact (real_arm lb db la lf de lw) (map Fin m) lst i (Fin q) 1 (map Fin a) 1)"
proof -
  let ?B = "ik_branch exact (real_arm lb db la lf de lw) (map Fin m) lst i (Fin q) 1 (map Fin a) 1"
  have lm: "length m = 9" using assms(2) by (simp add: is_rot_def)
  note nth = solveIK_nth [OF assms(1) lm assms(3) assms(5) [unfolded assms(4)] assms(6-9) assms(10) [unfolded assms(4)],
      folded assms(4), where lst = lst, folded q_def a_def s_def n_def]
  note a = elbow_choice_in [OF assms(7), of la lf de "plane_point lb db w i" i, folded a_def]
  have f: "snd (?B ! v) = [1, 1, 1]"
    by (rule ik_branch_nth) (use lm a(2) assms(8,11) in \<open>auto simp: q_def a_def\<close>)
  then show "solFlag s ! n = [1, 1, 1]" by (simp add: nth)
  show "length w = 3" "w ! 0 \<noteq> 0 \<or> w ! 1 \<noteq> 0" using assms(4,5) by (auto simp: wrist_centre_def)
  show "q = at2 (w ! 1) (w ! 0) \<or> q = at2 (- (w ! 1)) (- (w ! 0))" by (simp add: q_def shoulder_angle_def)
  have s: "fst (plane_point lb db w i) = cos q * w ! 0 + sin q * w ! 1 - db" "snd (plane_point lb db w i) = lb - w ! 2"
    by (simp_all add: plane_point_def Let_def q_def)
  show "in_reach la lf de (cos q * w ! 0 + sin q * w ! 1 - db) (lb - w ! 2)" using assms(10) by (simp add: s)
  show "a \<in> set (elbow_angles la lf de (cos q * w ! 0 + sin q * w ! 1 - db) (lb - w ! 2))" using a(1) by (simp add: s)
  have "(fst (?B ! v), snd (?B ! v)) \<in> set ?B" using assms(8) by (simp add: ik_lengths)
  then show "(ik_config s ! n, [1, 1, 1]) \<in> set ?B" by (simp add: nth f)
qed

text \<open>C38: A pose whose wrist centre is off the axis of the base and within reach of the arm: each solution of
  the inverse kinematics, for either shoulder, elbow and wrist choice whose elbow angles stay within a half
  turn and whose wrist is not straight, is flagged as regular, and the forward kinematics takes it back to
  the rotation and the position that were asked for.
\<close>

theorem ik_reaches_pose:
  fixes p m w :: "real list" and pose out :: Pose6D and lb db la lf de lw :: real and i j v :: nat and lst :: "double list"
  assumes "0 < la" "0 < lf"
    and "ik_pose exact pose = (map Fin p, map Fin m)" "is_rot m"
    and "w = wrist_centre lw m p" "1 / 1000000 < sqrt (w ! 0 * w ! 0 + w ! 1 * w ! 1)"
    and "i < 2" "j < 2" "v < 2"
    and "in_reach la lf de (fst (plane_point lb db w i)) (snd (plane_point lb db w i))"
    and "\<forall>x \<in> set (elbow_choice la lf de (plane_point lb db w i) i j). \<bar>x\<bar> \<le> pi"
    and "\<bar>wrist_rot (shoulder_angle w i) (elbow_choice la lf de (plane_point lb db w i) i j) m ! 8\<bar> < 1 - 1 / 1000000"
  shows "let k = real_arm lb db la lf de lw; s = snd (solveIK exact k pose lst); n = 4 * i + 2 * j + v;
      out' = solveFK exact k (ik_config s ! n) out
    in solFlag s ! n = [1, 1, 1] \<and> po_R out' = map Fin m \<and> [po_X out', po_Y out', po_Z out'] = map Fin p"
proof -
  note b = solution_branch [OF assms(3,4,2,5,6) assms(7-9) assms(1) assms(10,12)]
  obtain qs where qs: "length qs = 6" "ik_config (snd (solveIK exact (real_arm lb db la lf de lw) pose lst)) ! (4 * i + 2 * j + v) = degrees qs"
    "fk_rot qs = m" "fk_point lb db la lf de lw qs = map2 (+) w (rvec m [0, 0, lw])"
    using branch_reaches [OF assms(1,2,4) b(2-6) assms(11) b(7)] by auto
  have p3: "length p = 3" using arg_cong [OF assms(3), of "length \<circ> fst"] by (simp add: ik_pose_def)
  have "map2 (+) w (rvec m [0, 0, lw]) = p"
    using p3 by (auto simp: assms(5) wrist_centre_def rvec_def mult.commute length_Suc_conv numeral_3_eq_3)
  then show ?thesis
    using b(1) solveFK_exact(1,2) [OF qs(1), of lb db la lf de lw out] by (simp add: Let_def qs)
qed

text \<open>Two links of a metre, the hand level at a metre from the axis.\<close>

lemma unit_arm_elbow: "elbow_choice 1 1 0 (1, 0) 0 0 = [pi / 6, 2 * pi / 3]"
proof -
  have a: "arccos (1 / 2) = pi / 3" using arccos_cos [of "pi / 3"] by (simp add: cos_60)
  show ?thesis by (simp add: elbow_choice_def elbow_angles_def Let_def at2_def a)
qed

lemma unit_arm_wrist: "\<bar>wrist_rot 0 [pi / 6, 2 * pi / 3] rid ! 8\<bar> < 1 - 1 / 1000000"
proof -
  have h: "7 * pi / 6 = pi / 6 + pi" by simp
  have f: "cos (7 * pi / 6) = - (sqrt 3 / 2)" "sin (7 * pi / 6) = - (1 / 2)"
    unfolding h by (simp_all only: cos_periodic_pi sin_periodic_pi cos_30 sin_30)
  have "sqrt 3 < 9 / 5" by (rule real_less_lsqrt) (simp_all add: power2_eq_square)
  moreover have "0 \<le> sqrt (3 :: real)" by simp
  ultimately have "sqrt 3 / 2 < (1 - 1 / 1000000 :: real)" by linarith
  then show ?thesis
    by (simp add: wrist_rot_def rot12_def jrot_def dh_offset_def dh_alpha_def rdh_def rmul_def rtr_def rid_def f cos_60 sin_60)
qed

theorem ik_reaches_pose_witness:
  "let k = real_arm (1 / 5) 0 1 1 0 (1 / 10); m = [1, 0, 0, 0, 1, 0, 0, 0, 1];
     pose = \<lparr>po_X = Fin 1000, po_Y = Fin 0, po_Z = Fin 300, po_A = Fin 0, po_B = Fin 0, po_C = Fin 0,
       po_R = map Fin m, hasR = True\<rparr>;
     s = snd (solveIK exact k pose (replicate 6 (Fin 0))); out' = solveFK exact k (ik_config s ! 0) pose
   in solFlag s ! 0 = [1, 1, 1] \<and> po_R out' = map Fin m \<and>
     [po_X out', po_Y out', po_Z out'] = map Fin [1, 0, 3 / 10]"
proof -
  let ?m = "[1, 0, 0, 0, 1, 0, 0, 0, 1] :: real list"
  let ?pose = "\<lparr>po_X = Fin 1000, po_Y = Fin 0, po_Z = Fin 300, po_A = Fin 0, po_B = Fin 0, po_C = Fin 0,
      po_R = map Fin ?m, hasR = True\<rparr>"
  have w: "[1, 0, 1 / 5] = wrist_centre (1 / 10) ?m [1, 0, 3 / 10]" by (simp add: wrist_centre_def)
  have q: "shoulder_angle [1, 0, 1 / 5] 0 = 0" by (simp add: shoulder_angle_def at2_def)
  then have s: "plane_point (1 / 5) 0 [1, 0, 1 / 5] 0 = (1, 0)" by (simp add: plane_point_def Let_def)
  have m: "is_rot ?m" by (simp add: is_rot_def rmul_def rtr_def rid_def rdet_def)
  have p: "ik_pose exact ?pose = (map Fin [1, 0, 3 / 10], map Fin ?m)" by (simp add: ik_pose_def)
  have r: "in_reach 1 1 0 (fst (1 :: real, 0 :: real)) (snd (1 :: real, 0 :: real))" by (simp add: in_reach_def)
  show ?thesis
    using ik_reaches_pose [of 1 1 ?pose "[1, 0, 3 / 10]" ?m "[1, 0, 1 / 5]" "1 / 10" 0 0 0 0 "1 / 5" 0 "replicate 6 (Fin 0)" ?pose,
        OF _ _ p m w, unfolded s q unit_arm_elbow] r unit_arm_wrist
    by (simp add: Let_def rid_def)
qed

text \<open>
  An elbow solution whose upper-arm angle is more than a half turn is wrapped by a half turn, not a full
  one: the solution is flagged as regular like the others, but the forward kinematics takes it to another
  orientation than the one that was asked for.
\<close>

lemma rot12_half_turn:
  "rot12 [q, a1 - pi, a2] = rmul [-1, 0, 0, 0, -1, 0, 0, 0, 1] (rot12 [q, a1, a2])"
  "rot12 [q, a1 + pi, a2] = rmul [-1, 0, 0, 0, -1, 0, 0, 0, 1] (rot12 [q, a1, a2])"
proof -
  let ?Z = "[-1, 0, 0, 0, -1, 0, 0, 0, 1] :: real list"
  have r: "rdh (x - pi) 0 = rmul ?Z (rdh x 0)" "rdh (x + pi) 0 = rmul ?Z (rdh x 0)" for x
    by (simp_all add: rdh_def rmul_def cos_diff sin_diff)
  have j: "jrot [q, b, a2] 1 = rdh (b - pi / 2) 0" "jrot [q, b, a2] 2 = rdh (a2 + pi / 2) (pi / 2)" for b
    by (simp_all add: jrot_def dh_offset_def dh_alpha_def)
  have c: "a1 - pi - pi / 2 = a1 - pi / 2 - pi" "a1 + pi - pi / 2 = a1 - pi / 2 + pi" by simp_all
  show "rot12 [q, a1 - pi, a2] = rmul ?Z (rot12 [q, a1, a2])" "rot12 [q, a1 + pi, a2] = rmul ?Z (rot12 [q, a1, a2])"
    unfolding rot12_def j c r by (rule rmul_assoc)+
qed

theorem wrapped_solution_misses:
  fixes p m w :: "real list" and pose out :: Pose6D and lb db la lf de lw :: real and i j v :: nat and lst :: "double list"
  assumes "0 < la" "0 < lf"
    and "ik_pose exact pose = (map Fin p, map Fin m)" "is_rot m"
    and "w = wrist_centre lw m p" "1 / 1000000 < sqrt (w ! 0 * w ! 0 + w ! 1 * w ! 1)"
    and "i < 2" "j < 2" "v < 2"
    and "in_reach la lf de (fst (plane_point lb db w i)) (snd (plane_point lb db w i))"
    and "elbow_choice la lf de (plane_point lb db w i) i j = [a1, a2]" "pi < \<bar>a1\<bar>" "\<bar>a2\<bar> \<le> pi"
    and "\<bar>wrist_rot (shoulder_angle w i) [a1, a2] m ! 8\<bar> < 1 - 1 / 1000000"
  shows "let k = real_arm lb db la lf de lw; s = snd (solveIK exact k pose lst); n = 4 * i + 2 * j + v
    in solFlag s ! n = [1, 1, 1] \<and> po_R (solveFK exact k (ik_config s ! n) out) \<noteq> map Fin m"
proof -
  let ?q = "shoulder_angle w i" and ?Z = "[-1, 0, 0, 0, -1, 0, 0, 0, 1] :: real list"
  define b1 where "b1 = (if pi < a1 then a1 - pi else a1 + pi)"
  note b = solution_branch [OF assms(3,4,2,5,6) assms(7-9) assms(1) assms(10), unfolded assms(11), OF assms(14)]
  have f: "[1, 1, 1 :: int] ! 2 = 1" by simp
  obtain q3 q4 q5 where x: "\<bar>q3\<bar> \<le> pi" "\<bar>q4\<bar> \<le> pi" "\<bar>q5\<bar> \<le> pi"
    "ik_config (snd (solveIK exact (real_arm lb db la lf de lw) pose lst)) ! (4 * i + 2 * j + v) =
      map (\<lambda>q. f_mul exact (ik_wrap exact (Fin q)) (RAD_TO_DEG exact)) [?q, a1, a2, q3, q4, q5]"
    "\<And>q0 q1 q2. rot345 [q0, q1, q2, q3, q4, q5] = wrist_rot ?q [a1, a2] m"
    using branch_angles [OF assms(4) b(7) [where lst = lst] f] by metis
  have wr: "ik_wrap exact (Fin a1) = Fin b1" using assms(12) by (auto simp: ik_wrap_def b1_def)
  have sol: "ik_config (snd (solveIK exact (real_arm lb db la lf de lw) pose lst)) ! (4 * i + 2 * j + v) = degrees [?q, b1, a2, q3, q4, q5]"
    using assms(13) shoulder_range [OF b(3,4)] x(1-3) by (simp add: x(4) degrees_def ik_wrap_id RAD_TO_DEG_exact wr)
  have r12: "rot12 [?q, b1, a2] = rmul ?Z (rot12 [?q, a1, a2])" by (simp add: b1_def rot12_half_turn)
  define N where "N = rmul (rtr (jrot [?q] 0)) m"
  have Nr: "is_rot N" unfolding N_def by (intro rot_rmul rot_rtr rot_jrot assms(4))
  have fk: "fk_rot [?q, b1, a2, q3, q4, q5] = rmul (jrot [?q] 0) (rmul ?Z N)"
    unfolding fk_rot_wrist [OF assms(4) x(5)] r12 N_def
    by (simp only: rmul_assoc rot_adj(2) [OF rot_fk(1)] rmul_id(2) length_rmul)
  have "fk_rot [?q, b1, a2, q3, q4, q5] \<noteq> m"
  proof
    assume "fk_rot [?q, b1, a2, q3, q4, q5] = m"
    then have "rmul (rtr (jrot [?q] 0)) (rmul (jrot [?q] 0) (rmul ?Z N)) = N" by (simp only: fk N_def)
    moreover have "rmul (rtr (jrot [?q] 0)) (jrot [?q] 0) = rid" using rot_jrot [of "[?q]" 0] by (simp add: is_rot_def)
    ultimately have "rmul ?Z N = N" by (simp only: rmul_assoc [symmetric]) (simp add: rmul_id rmul_assoc)
    then have "rmul (rmul ?Z N) (rtr N) = rid" by (simp only: rot_adj(2) [OF Nr])
    then have "?Z = rid" by (simp only: rmul_assoc rot_adj(2) [OF Nr]) (simp add: rmul_id)
    then show False by (simp add: rid_def)
  qed
  moreover have "po_R (solveFK exact (real_arm lb db la lf de lw) (degrees [?q, b1, a2, q3, q4, q5]) out) =
      map Fin (fk_rot [?q, b1, a2, q3, q4, q5])"
    by (rule solveFK_exact) simp
  moreover have "inj Fin" by (simp add: inj_def)
  ultimately show ?thesis using b(1) by (simp add: Let_def sol inj_map_eq_map)
qed

theorem wrapped_solution_misses_witness:
  "let k = real_arm (1 / 5) 0 1 1 0 (1 / 10); m = [1, 0, 0, 0, 1, 0, 0, 0, 1];
     pose = \<lparr>po_X = Fin 1000, po_Y = Fin 0, po_Z = Fin 300, po_A = Fin 0, po_B = Fin 0, po_C = Fin 0,
       po_R = map Fin m, hasR = True\<rparr>;
     s = snd (solveIK exact k pose (replicate 6 (Fin 0)))
   in solFlag s ! 4 = [1, 1, 1] \<and> po_R (solveFK exact k (ik_config s ! 4) pose) \<noteq> map Fin m"
proof -
  let ?m = "[1, 0, 0, 0, 1, 0, 0, 0, 1] :: real list"
  let ?pose = "\<lparr>po_X = Fin 1000, po_Y = Fin 0, po_Z = Fin 300, po_A = Fin 0, po_B = Fin 0, po_C = Fin 0,
      po_R = map Fin ?m, hasR = True\<rparr>"
  have w: "[1, 0, 1 / 5] = wrist_centre (1 / 10) ?m [1, 0, 3 / 10]" by (simp add: wrist_centre_def)
  have q: "shoulder_angle [1, 0, 1 / 5] 1 = pi" by (simp add: shoulder_angle_def at2_def)
  then have s: "plane_point (1 / 5) 0 [1, 0, 1 / 5] 1 = (- 1, 0)" by (simp add: plane_point_def Let_def)
  have ac: "arccos (1 / 2) = pi / 3" using arccos_cos [of "pi / 3"] by (simp add: cos_60)
  have a: "elbow_choice 1 1 0 (- 1, 0) 1 0 = [11 * pi / 6, - (2 * pi / 3)]"
    by (simp add: elbow_choice_def elbow_angles_def Let_def at2_def ac)
  have m: "is_rot ?m" by (simp add: is_rot_def rmul_def rtr_def rid_def rdet_def)
  have p: "ik_pose exact ?pose = (map Fin [1, 0, 3 / 10], map Fin ?m)" by (simp add: ik_pose_def)
  have r: "in_reach 1 1 0 (fst (- 1 :: real, 0 :: real)) (snd (- 1 :: real, 0 :: real))" by (simp add: in_reach_def)
  have h: "4 * pi / 3 = pi / 3 + pi" by simp
  have f: "cos (4 * pi / 3) = - (1 / 2)" "sin (4 * pi / 3) = - (sqrt 3 / 2)"
    unfolding h by (simp_all only: cos_periodic_pi sin_periodic_pi cos_60 sin_60)
  have t: "sqrt 3 / 2 < (1 - 1 / 1000000 :: real)"
  proof -
    have "sqrt 3 < 9 / 5" by (rule real_less_lsqrt) (simp_all add: power2_eq_square)
    then show ?thesis by linarith
  qed
  have v: "\<bar>wrist_rot pi [11 * pi / 6, - (2 * pi / 3)] ?m ! 8\<bar> < 1 - 1 / 1000000"
    using t by (simp add: wrist_rot_def rot12_def jrot_def dh_offset_def dh_alpha_def rdh_def rmul_def rtr_def f cos_30 sin_30)
  show ?thesis
    using wrapped_solution_misses [of 1 1 ?pose "[1, 0, 3 / 10]" ?m "[1, 0, 1 / 5]" "1 / 10" 1 0 0 0 "1 / 5" 0
        "11 * pi / 6" "- (2 * pi / 3)" "replicate 6 (Fin 0)" ?pose, OF _ _ p m w, unfolded s q] r a v
    by (simp add: Let_def del: One_nat_def)
qed

section \<open>Euler angles\<close>

lemma rot_more:
  assumes "is_rot a"
  shows "a ! 2 * a ! 3 - a ! 0 * a ! 5 = a ! 7" "a ! 1 * a ! 5 - a ! 2 * a ! 4 = a ! 6" "a ! 3 * a ! 7 - a ! 4 * a ! 6 = a ! 2"
    "a ! 1 * a ! 6 - a ! 0 * a ! 7 = a ! 5" "(a ! 0)\<^sup>2 + (a ! 3)\<^sup>2 + (a ! 6)\<^sup>2 = 1" "a ! 0 * a ! 6 + a ! 1 * a ! 7 + a ! 2 * a ! 8 = 0"
    "a ! 3 * a ! 6 + a ! 4 * a ! 7 + a ! 5 * a ! 8 = 0"
proof -
  show "a ! 2 * a ! 3 - a ! 0 * a ! 5 = a ! 7" "a ! 1 * a ! 5 - a ! 2 * a ! 4 = a ! 6" "a ! 3 * a ! 7 - a ! 4 * a ! 6 = a ! 2"
    "a ! 1 * a ! 6 - a ! 0 * a ! 7 = a ! 5"
    using rot_adj(1) [OF assms] by (simp_all add: radj_def rtr_def)
  have "rmul (rtr a) a = rid" using assms by (simp add: is_rot_def)
  then show "(a ! 0)\<^sup>2 + (a ! 3)\<^sup>2 + (a ! 6)\<^sup>2 = 1" by (simp add: rmul_def rtr_def rid_def power2_eq_square)
  show "a ! 0 * a ! 6 + a ! 1 * a ! 7 + a ! 2 * a ! 8 = 0" "a ! 3 * a ! 6 + a ! 4 * a ! 7 + a ! 5 * a ! 8 = 0"
    using rot_adj(2) [OF assms] by (simp_all add: rmul_def rtr_def rid_def)
qed

lemma euler_algebra:
  assumes "is_rot m" and sa: "c * sa = m ! 3" and ca: "c * ca = m ! 0" and sc: "c * sc = m ! 7" and cc: "c * cc = m ! 8"
    and c: "c\<^sup>2 = 1 - (m ! 6)\<^sup>2" "c \<noteq> 0"
  shows "- (ca * m ! 6) * sc - sa * cc = m ! 1" "- (ca * m ! 6) * cc + sa * sc = m ! 2"
    "- (sa * m ! 6) * sc + ca * cc = m ! 4" "- (sa * m ! 6) * cc - ca * sc = m ! 5"
proof -
  note r = rot_more [OF assms(1)] rot_cofactors [OF assms(1)] rot_norms [OF assms(1)]
  have q: "c\<^sup>2 = (m ! 7)\<^sup>2 + (m ! 8)\<^sup>2" using c(1) r(13) by linarith
  have z: "x = y" if "c\<^sup>2 * x = c\<^sup>2 * y" for x y using that c(2) by simp
  have e: "c\<^sup>2 * (- (x * m ! 6) * y + s * (u * v)) = - (c * x) * m ! 6 * (c * y) + s * ((c * u) * (c * v))" for x y s u v
    by (simp add: power2_eq_square algebra_simps)
  show "- (ca * m ! 6) * sc - sa * cc = m ! 1"
  proof (rule z)
    have "c\<^sup>2 * (- (ca * m ! 6) * sc - sa * cc) = - (m ! 0 * m ! 6) * m ! 7 - m ! 3 * m ! 8"
      using e [of ca sc "- 1" sa cc] by (simp add: sa ca sc cc)
    also have "- (m ! 0 * m ! 6) = m ! 1 * m ! 7 + m ! 2 * m ! 8" using r(6) by linarith
    also have "(m ! 1 * m ! 7 + m ! 2 * m ! 8) * m ! 7 - m ! 3 * m ! 8 = c\<^sup>2 * m ! 1"
      unfolding q using r(11) by (simp add: power2_eq_square algebra_simps flip: r(11))
    finally show "c\<^sup>2 * (- (ca * m ! 6) * sc - sa * cc) = c\<^sup>2 * m ! 1" .
  qed
  show "- (ca * m ! 6) * cc + sa * sc = m ! 2"
  proof (rule z)
    have "c\<^sup>2 * (- (ca * m ! 6) * cc + sa * sc) = - (m ! 0 * m ! 6) * m ! 8 + m ! 3 * m ! 7"
      using e [of ca cc "1" sa sc] by (simp add: sa ca sc cc)
    also have "- (m ! 0 * m ! 6) = m ! 1 * m ! 7 + m ! 2 * m ! 8" using r(6) by linarith
    also have "(m ! 1 * m ! 7 + m ! 2 * m ! 8) * m ! 8 + m ! 3 * m ! 7 = c\<^sup>2 * m ! 2"
      unfolding q by (simp add: power2_eq_square algebra_simps flip: r(11))
    finally show "c\<^sup>2 * (- (ca * m ! 6) * cc + sa * sc) = c\<^sup>2 * m ! 2" .
  qed
  show "- (sa * m ! 6) * sc + ca * cc = m ! 4"
  proof (rule z)
    have "c\<^sup>2 * (- (sa * m ! 6) * sc + ca * cc) = - (m ! 3 * m ! 6) * m ! 7 + m ! 0 * m ! 8"
      using e [of sa sc "1" ca cc] by (simp add: sa ca sc cc)
    also have "- (m ! 3 * m ! 6) = m ! 4 * m ! 7 + m ! 5 * m ! 8" using r(7) by linarith
    also have "(m ! 4 * m ! 7 + m ! 5 * m ! 8) * m ! 7 + m ! 0 * m ! 8 = c\<^sup>2 * m ! 4"
      unfolding q by (simp add: power2_eq_square algebra_simps flip: r(8))
    finally show "c\<^sup>2 * (- (sa * m ! 6) * sc + ca * cc) = c\<^sup>2 * m ! 4" .
  qed
  show "- (sa * m ! 6) * cc - ca * sc = m ! 5"
  proof (rule z)
    have "c\<^sup>2 * (- (sa * m ! 6) * cc - ca * sc) = - (m ! 3 * m ! 6) * m ! 8 - m ! 0 * m ! 7"
      using e [of sa cc "- 1" ca sc] by (simp add: sa ca sc cc)
    also have "- (m ! 3 * m ! 6) = m ! 4 * m ! 7 + m ! 5 * m ! 8" using r(7) by linarith
    also have "(m ! 4 * m ! 7 + m ! 5 * m ! 8) * m ! 8 - m ! 0 * m ! 7 = c\<^sup>2 * m ! 5"
      unfolding q by (simp add: power2_eq_square algebra_simps flip: r(8))
    finally show "c\<^sup>2 * (- (sa * m ! 6) * cc - ca * sc) = c\<^sup>2 * m ! 5" .
  qed
qed

text \<open>
  The Euler angles read off a rotation away from the vertical describe that rotation.
\<close>

theorem euler_round_trip:
  assumes "is_rot m" "\<bar>m ! 6\<bar> < 1 - 1 / 10000"
  shows "eulerAngleToRotMat exact (rotMatToEulerAngle exact (map Fin m)) = map Fin m"
proof -
  have l: "length m = 9" using assms(1) by (simp add: is_rot_def)
  note r = rot_more(5) [OF assms(1)] rot_norms(2) [OF assms(1)]
  define c where "c = sqrt ((m ! 0)\<^sup>2 + (m ! 3)\<^sup>2)"
  have c2: "c\<^sup>2 = 1 - (m ! 6)\<^sup>2" "c\<^sup>2 = (m ! 0)\<^sup>2 + (m ! 3)\<^sup>2" "c\<^sup>2 = (m ! 7)\<^sup>2 + (m ! 8)\<^sup>2"
    using r by (simp_all add: c_def)
  have "(m ! 6)\<^sup>2 < (1 - 1 / 10000)\<^sup>2" using power_strict_mono [OF assms(2), of 2] by simp
  then have "(1 / 1000)\<^sup>2 < c\<^sup>2" unfolding c2(1) by (simp add: power2_eq_square)
  moreover have "0 \<le> c" by (simp add: c_def)
  ultimately have c: "1 / 1000 < c" by (rule power2_less_imp_less)
  define B where "B = at2 (- (m ! 6)) c"
  have "sqrt (c\<^sup>2 + (- (m ! 6))\<^sup>2) = 1" by (simp add: c2(1))
  then have B: "cos B = c" "sin B = - (m ! 6)" using at2_polar(1,2) [of c "- (m ! 6)"] c by (simp_all add: B_def)
  have q: "sqrt ((m ! 0 / c)\<^sup>2 + (m ! 3 / c)\<^sup>2) = 1" "sqrt ((m ! 8 / c)\<^sup>2 + (m ! 7 / c)\<^sup>2) = 1"
  proof -
    have d: "c\<^sup>2 / c\<^sup>2 = 1" using c by simp
    have "(m ! 0 / c)\<^sup>2 + (m ! 3 / c)\<^sup>2 = c\<^sup>2 / c\<^sup>2" "(m ! 8 / c)\<^sup>2 + (m ! 7 / c)\<^sup>2 = c\<^sup>2 / c\<^sup>2"
      unfolding power_divide add_divide_distrib [symmetric] using c2(2,3) by (metis, metis add.commute)
    then have "(m ! 0 / c)\<^sup>2 + (m ! 3 / c)\<^sup>2 = 1" "(m ! 8 / c)\<^sup>2 + (m ! 7 / c)\<^sup>2 = 1"
      by (simp_all only: d)
    then show "sqrt ((m ! 0 / c)\<^sup>2 + (m ! 3 / c)\<^sup>2) = 1" "sqrt ((m ! 8 / c)\<^sup>2 + (m ! 7 / c)\<^sup>2) = 1" by simp_all
  qed
  have nz: "m ! 0 / c \<noteq> 0 \<or> m ! 3 / c \<noteq> 0" "m ! 8 / c \<noteq> 0 \<or> m ! 7 / c \<noteq> 0" using q by auto
  define A where "A = at2 (m ! 3 / c) (m ! 0 / c)"
  define C where "C = at2 (m ! 7 / c) (m ! 8 / c)"
  have A: "c * cos A = m ! 0" "c * sin A = m ! 3" using at2_polar(1,2) [OF nz(1)] c q(1) by (simp_all add: A_def)
  have C: "c * cos C = m ! 8" "c * sin C = m ! 7" using at2_polar(1,2) [OF nz(2)] c q(2) by (simp_all add: C_def)
  have n: "\<not> 1 - 1 / 10000 \<le> \<bar>m ! 6\<bar>" "\<not> \<bar>c\<bar> < 1 / 1000000" using assms(2) c by linarith+
  have e: "rotMatToEulerAngle exact (map Fin m) = map Fin [C, B, A]"
    using n l B c by (simp add: rotMatToEulerAngle_def Let_def A_def C_def c_def [symmetric] power2_eq_square [symmetric] B_def [symmetric])
  have c0: "c \<noteq> 0" using c by simp
  note g = euler_algebra [OF assms(1) A(2) A(1) C(2) C(1) c2(1) c0]
  show ?thesis
    unfolding e by (rule trans [OF _ arg_cong [OF length_9 [OF l], of "map Fin"]]) (use g A C in \<open>simp add: eulerAngleToRotMat_def Let_def B algebra_simps\<close>)
qed



end
