(* ===== verification/SchedulingTest.thy ===== *)
theory SchedulingTest
  imports Composer Legged CommandLine DamiaoSimulator
begin

text \<open>
  \<open>tools/scheduling.cpp\<close>: a test of the robot's thread model.  Two leg threads and a sensor thread write
  staging buffers with a checksum, a composer merges them and counts torn and stale reads, a main loop
  and a logger read the result; at the end the program reports on integrity, balance and the latency of
  the emergency stop.  An event of \<open>sched_step\<close> is one turn of one thread's loop, in any order.
  \<open>sin\<close>, \<open>cos\<close>, the rounding to \<open>float\<close>, the bytes of a \<open>double\<close> and the clock are arguments; a signed
  overflow is reported as \<^const>\<open>BadCast\<close>.  The dummy work of the threads and the printing are left out.
\<close>

section \<open>Data\<close>

record SchedStats =
  ss_min :: u64
  ss_max :: u64
  ss_total :: u64
  ss_count :: u64
  deadline_misses :: u64

definition SchedStats_init :: SchedStats where
  "SchedStats_init = \<lparr>ss_min = - 1, ss_max = 0, ss_total = 0, ss_count = 0, deadline_misses = 0\<rparr>"

definition ss_record :: "u64 \<Rightarrow> u64 \<Rightarrow> SchedStats \<Rightarrow> SchedStats" where
  "ss_record duration deadline s =
     s\<lparr>ss_min := (if duration < ss_min s then duration else ss_min s),
       ss_max := (if ss_max s < duration then duration else ss_max s),
       ss_total := ss_total s + duration, ss_count := ss_count s + 1,
       deadline_misses := (if 0 < deadline \<and> deadline < duration then deadline_misses s + 1 else deadline_misses s)\<rparr>"

record SchedGroup =
  sg_jpos :: "double list"
  sg_jvel :: "double list"
  sg_jtorque :: "double list"
  sg_timestamp :: u64
  sg_sequence :: u64
  sg_writer :: u32
  sg_checksum :: u32

record SchedImu =
  si_ang_vel :: "double list"
  si_acc :: "double list"
  si_timestamp :: u64
  si_sequence :: u64
  si_writer :: u32
  si_checksum :: u32

record SchedComposed =
  co_jpos :: "double list"
  co_jvel :: "double list"
  co_jtorque :: "double list"
  co_ang_vel :: "double list"
  co_imu_ts :: u64
  co_grp_a_ts :: u64
  co_grp_b_ts :: u64
  co_compose_ts :: u64
  co_imu_seq :: u64
  co_grp_a_seq :: u64
  co_grp_b_seq :: u64

definition SchedGroup_zero :: SchedGroup where
  "SchedGroup_zero = \<lparr>sg_jpos = zeros 6, sg_jvel = zeros 6, sg_jtorque = zeros 6, sg_timestamp = 0,
     sg_sequence = 0, sg_writer = 0, sg_checksum = 0\<rparr>"

definition SchedImu_zero :: SchedImu where
  "SchedImu_zero = \<lparr>si_ang_vel = zeros 3, si_acc = zeros 3, si_timestamp = 0, si_sequence = 0,
     si_writer = 0, si_checksum = 0\<rparr>"

definition SchedComposed_zero :: SchedComposed where
  "SchedComposed_zero = \<lparr>co_jpos = zeros 12, co_jvel = zeros 12, co_jtorque = zeros 12, co_ang_vel = zeros 3,
     co_imu_ts = 0, co_grp_a_ts = 0, co_grp_b_ts = 0, co_compose_ts = 0, co_imu_seq = 0, co_grp_a_seq = 0,
     co_grp_b_seq = 0\<rparr>"

text \<open>The program's own double buffer takes its heartbeat from the clock.\<close>

definition sched_publish :: "u64 \<Rightarrow> 'a \<Rightarrow> 'a SourceDoubleBuffer \<Rightarrow> fault + 'a SourceDoubleBuffer" where
  "sched_publish now data b =
     (let wb = 1 - write_idx b in
      bindR (arr_set (buffers b) (unat wb) data) (\<lambda>bs.
        Inr (b\<lparr>buffers := bs, write_idx := wb, d_sequence := d_sequence b + 1, heartbeat_ns := now\<rparr>)))"

definition compute_checksum :: "bytes \<Rightarrow> u32" where
  "compute_checksum bs = fold (\<lambda>b sum. sum * 31 + ucast b) bs 0"

definition checksum_of :: "(double \<Rightarrow> bytes) \<Rightarrow> double list \<Rightarrow> u32" where
  "checksum_of repr xs = compute_checksum (concat (map repr xs))"

section \<open>Threads\<close>

record ThreadConfig =
  tc_name :: string
  tc_fifo :: bool
  tc_priority :: int
  tc_stack :: nat
  tc_period :: u64

definition THREAD_CONFIGS :: "ThreadConfig list" where
  "THREAD_CONFIGS =
     [\<lparr>tc_name = ''Main Loop'', tc_fifo = True, tc_priority = 75, tc_stack = 524288, tc_period = 10000000\<rparr>,
      \<lparr>tc_name = ''Left Leg'', tc_fifo = True, tc_priority = 90, tc_stack = 262144, tc_period = 5000000\<rparr>,
      \<lparr>tc_name = ''Right Leg'', tc_fifo = True, tc_priority = 90, tc_stack = 262144, tc_period = 5000000\<rparr>,
      \<lparr>tc_name = ''IMU Reader'', tc_fifo = True, tc_priority = 80, tc_stack = 131072, tc_period = 5000000\<rparr>,
      \<lparr>tc_name = ''Composer'', tc_fifo = True, tc_priority = 85, tc_stack = 262144, tc_period = 5000000\<rparr>,
      \<lparr>tc_name = ''MQTT Logger'', tc_fifo = False, tc_priority = 0, tc_stack = 524288, tc_period = 0\<rparr>]"

datatype sched_thread = MainLoop | LegThread staging | ImuThread | ComposerThread | LoggerThread

fun thread_idx :: "sched_thread \<Rightarrow> nat" where
  "thread_idx MainLoop = 0"
| "thread_idx (LegThread StageA) = 1"
| "thread_idx (LegThread StageB) = 2"
| "thread_idx ImuThread = 3"
| "thread_idx ComposerThread = 4"
| "thread_idx LoggerThread = 5"

record ThreadResult =
  tr_cycle :: SchedStats
  tr_work :: SchedStats
  tr_jitter :: SchedStats
  tr_iterations :: u64
  tr_stale :: u64
  tr_torn :: u64
  tr_estop :: u64
  tr_sched_ok :: bool

text \<open>The local variables of a thread's function.\<close>

record thread_locals =
  tl_on :: bool
  tl_next :: u64
  tl_prev :: u64
  tl_seq :: u64

record Sched =
  sc_running :: bool
  sc_estop :: bool
  sc_grp :: "staging \<Rightarrow> SchedGroup SourceDoubleBuffer"
  sc_imu :: "SchedImu SourceDoubleBuffer"
  sc_composed :: "SchedComposed SourceDoubleBuffer"
  sc_results :: "sched_thread \<Rightarrow> ThreadResult"
  sc_locals :: "sched_thread \<Rightarrow> thread_locals"
  sc_last_imu :: u64
  sc_last_grp :: "staging \<Rightarrow> u64"
  sc_last_composed :: u64
  sc_preempted :: "sched_thread \<Rightarrow> u64"
  sc_estop_set :: u64

definition apply_scheduling :: "bool \<Rightarrow> bool \<Rightarrow> bool" where
  "apply_scheduling fifo granted = (if fifo then granted else True)"

text \<open>The clock readings of a turn.\<close>

record turn_clock =
  k_start :: u64
  k_work :: u64
  k_stamp :: u64
  k_beat :: u64
  k_work_end :: u64
  k_end :: u64
  k_now :: u64

definition upd_result :: "sched_thread \<Rightarrow> (ThreadResult \<Rightarrow> ThreadResult) \<Rightarrow> Sched \<Rightarrow> Sched" where
  "upd_result t f s = s\<lparr>sc_results := (sc_results s)(t := f (sc_results s t))\<rparr>"

definition upd_locals :: "sched_thread \<Rightarrow> (thread_locals \<Rightarrow> thread_locals) \<Rightarrow> Sched \<Rightarrow> Sched" where
  "upd_locals t f s = s\<lparr>sc_locals := (sc_locals s)(t := f (sc_locals s t))\<rparr>"

definition sched_period :: "sched_thread \<Rightarrow> u64" where
  "sched_period t = tc_period (THREAD_CONFIGS ! thread_idx t)"

definition sched_loop :: "Sched \<Rightarrow> bool" where
  "sched_loop s \<longleftrightarrow> sc_running s \<and> \<not> sc_estop s"

text \<open>The start of a cycle: the jitter and the time of the previous start.\<close>

definition jitter_ns :: "u64 \<Rightarrow> u64 \<Rightarrow> u64 \<Rightarrow> fault + u64" where
  "jitter_ns start prev period =
     (let j = sint (start - prev) - sint period in
      if j < - (2 ^ 63) \<or> 2 ^ 63 \<le> j \<or> j = - (2 ^ 63) then Inl BadCast else Inr (word_of_int \<bar>j\<bar>))"

definition sched_begin :: "sched_thread \<Rightarrow> u64 \<Rightarrow> Sched \<Rightarrow> fault + Sched" where
  "sched_begin t start s =
     bindR (if 0 < tl_seq (sc_locals s t)
            then bindR (jitter_ns start (tl_prev (sc_locals s t)) (sched_period t)) (\<lambda>j.
              Inr (upd_result t (\<lambda>r. r\<lparr>tr_jitter := ss_record j 0 (tr_jitter r)\<rparr>) s))
            else Inr s) (\<lambda>s1.
       Inr (upd_locals t (\<lambda>l. l\<lparr>tl_prev := start\<rparr>) s1))"

text \<open>The end of a cycle: the statistics, the counters and the next wake-up; the legs and the composer count
  a cycle that ran over.\<close>

definition sched_end :: "sched_thread \<Rightarrow> bool \<Rightarrow> turn_clock \<Rightarrow> Sched \<Rightarrow> Sched" where
  "sched_end t counts k s =
     (let l = sc_locals s t; p = sched_period t; next = tl_next l + p; over = \<not> k_now k < next;
          s1 = upd_result t (\<lambda>r. r\<lparr>tr_work := ss_record (k_work_end k - k_work k) 0 (tr_work r),
                 tr_cycle := ss_record (k_end k - k_start k) p (tr_cycle r), tr_iterations := tl_seq l + 1\<rparr>) s;
          s2 = upd_locals t (\<lambda>l. l\<lparr>tl_seq := tl_seq l + 1, tl_next := (if over then k_now k + p else next)\<rparr>) s1
      in if over \<and> counts then s2\<lparr>sc_preempted := (sc_preempted s2)(t := sc_preempted s2 t + 1)\<rparr> else s2)"

definition leave_loop :: "sched_thread \<Rightarrow> u64 \<Rightarrow> Sched \<Rightarrow> Sched" where
  "leave_loop t now s =
     (let s1 = upd_locals t (\<lambda>l. l\<lparr>tl_on := False\<rparr>) s
      in if sc_estop s1 then upd_result t (\<lambda>r. r\<lparr>tr_estop := now\<rparr>) s1 else s1)"

definition sched_turn :: "sched_thread \<Rightarrow> bool \<Rightarrow> turn_clock \<Rightarrow> (Sched \<Rightarrow> fault + Sched) \<Rightarrow> Sched \<Rightarrow> fault + Sched" where
  "sched_turn t counts k work s =
     (if \<not> tl_on (sc_locals s t) then Inr s
      else if \<not> sched_loop s then Inr (leave_loop t (k_start k) s)
      else bindR (sched_begin t (k_start k) s) (\<lambda>s1. bindR (work s1) (\<lambda>s2. Inr (sched_end t counts k s2))))"

section \<open>The legs and the sensor\<close>

definition wave_arg :: "(real \<Rightarrow> real) \<Rightarrow> real \<Rightarrow> u64 \<Rightarrow> nat \<Rightarrow> double" where
  "wave_arg rnd c seq j = dadd rnd (dmul rnd (Fin (rnd (real (unat seq)))) (Fin (rnd c))) (Fin (real j))"

definition leg_data ::
    "(real \<Rightarrow> real) \<Rightarrow> (double \<Rightarrow> double) \<Rightarrow> (double \<Rightarrow> double) \<Rightarrow> (double \<Rightarrow> bytes) \<Rightarrow> nat \<Rightarrow> u64 \<Rightarrow> u64 \<Rightarrow> SchedGroup" where
  "leg_data rnd sn cs repr idx seq now =
     (let jpos = map (\<lambda>j. sn (wave_arg rnd (1 / 100) seq j)) [0..<6] in
      \<lparr>sg_jpos = jpos, sg_jvel = map (\<lambda>j. cs (wave_arg rnd (1 / 100) seq j)) [0..<6],
       sg_jtorque = map (\<lambda>j. dmul rnd (Fin (1 / 2)) (sn (wave_arg rnd (1 / 50) seq j))) [0..<6],
       sg_timestamp = now, sg_sequence = seq, sg_writer = of_nat idx, sg_checksum = checksum_of repr jpos\<rparr>)"

definition leg_work ::
    "(real \<Rightarrow> real) \<Rightarrow> (double \<Rightarrow> double) \<Rightarrow> (double \<Rightarrow> double) \<Rightarrow> (double \<Rightarrow> bytes) \<Rightarrow> staging \<Rightarrow> turn_clock \<Rightarrow>
     Sched \<Rightarrow> fault + Sched" where
  "leg_work rnd sn cs repr stg k s =
     (let t = LegThread stg; d = leg_data rnd sn cs repr (thread_idx t) (tl_seq (sc_locals s t)) (k_stamp k) in
      bindR (sched_publish (k_beat k) d (sc_grp s stg)) (\<lambda>b. Inr (s\<lparr>sc_grp := (sc_grp s)(stg := b)\<rparr>)))"

text \<open>The sensor's sixteen floats; \<open>to_float\<close> rounds a \<open>double\<close> to a \<open>float\<close>.\<close>

definition imu_parsed ::
    "(real \<Rightarrow> real) \<Rightarrow> (double \<Rightarrow> double) \<Rightarrow> (double \<Rightarrow> double) \<Rightarrow> (double \<Rightarrow> double) \<Rightarrow> u64 \<Rightarrow> double list" where
  "imu_parsed rnd to_float sn cs seq =
     concat (map (\<lambda>f. [to_float (sn (wave_arg rnd (1 / 1000) seq f)), to_float (cs (wave_arg rnd (1 / 1000) seq f))]) [0..<8])"

definition imu_data ::
    "(real \<Rightarrow> real) \<Rightarrow> (double \<Rightarrow> double) \<Rightarrow> (double \<Rightarrow> double) \<Rightarrow> (double \<Rightarrow> double) \<Rightarrow> (double \<Rightarrow> bytes) \<Rightarrow> u64 \<Rightarrow> u64 \<Rightarrow> SchedImu" where
  "imu_data rnd to_float sn cs repr seq now =
     (let p = imu_parsed rnd to_float sn cs seq; av = [p ! 6, p ! 4, p ! 5] in
      \<lparr>si_ang_vel = av, si_acc = [p ! 0, p ! 1, p ! 2], si_timestamp = now, si_sequence = seq,
       si_writer = of_nat (thread_idx ImuThread), si_checksum = checksum_of repr av\<rparr>)"

definition imu_work ::
    "(real \<Rightarrow> real) \<Rightarrow> (double \<Rightarrow> double) \<Rightarrow> (double \<Rightarrow> double) \<Rightarrow> (double \<Rightarrow> double) \<Rightarrow> (double \<Rightarrow> bytes) \<Rightarrow> turn_clock \<Rightarrow>
     Sched \<Rightarrow> fault + Sched" where
  "imu_work rnd to_float sn cs repr k s =
     bindR (sched_publish (k_beat k) (imu_data rnd to_float sn cs repr (tl_seq (sc_locals s ImuThread)) (k_stamp k)) (sc_imu s))
       (\<lambda>b. Inr (s\<lparr>sc_imu := b\<rparr>))"

section \<open>The composer\<close>

definition imu_torn :: "(double \<Rightarrow> bytes) \<Rightarrow> SchedImu \<Rightarrow> bool" where
  "imu_torn repr d \<longleftrightarrow> checksum_of repr (si_ang_vel d) \<noteq> si_checksum d \<and> 0 < si_sequence d"

definition group_torn :: "(double \<Rightarrow> bytes) \<Rightarrow> SchedGroup \<Rightarrow> bool" where
  "group_torn repr d \<longleftrightarrow> checksum_of repr (sg_jpos d) \<noteq> sg_checksum d \<and> 0 < sg_sequence d"

definition count_if :: "bool \<Rightarrow> u64 \<Rightarrow> u64" where
  "count_if b n = (if b then n + 1 else n)"

definition compose_data :: "SchedImu \<Rightarrow> SchedGroup \<Rightarrow> SchedGroup \<Rightarrow> u64 \<Rightarrow> SchedComposed" where
  "compose_data imu a b now =
     (let z = SchedComposed_zero in
      \<lparr>co_jpos = copy_groups (sg_jpos a) (sg_jpos b) (co_jpos z), co_jvel = copy_groups (sg_jvel a) (sg_jvel b) (co_jvel z),
       co_jtorque = copy_groups (sg_jtorque a) (sg_jtorque b) (co_jtorque z), co_ang_vel = si_ang_vel imu,
       co_imu_ts = si_timestamp imu, co_grp_a_ts = sg_timestamp a, co_grp_b_ts = sg_timestamp b,
       co_compose_ts = now, co_imu_seq = si_sequence imu, co_grp_a_seq = sg_sequence a, co_grp_b_seq = sg_sequence b\<rparr>)"

definition composer_work :: "(double \<Rightarrow> bytes) \<Rightarrow> turn_clock \<Rightarrow> Sched \<Rightarrow> fault + Sched" where
  "composer_work repr k s =
     bindR (read_buf (sc_imu s)) (\<lambda>imu.
     bindR (read_buf (sc_grp s StageA)) (\<lambda>a.
     bindR (read_buf (sc_grp s StageB)) (\<lambda>b.
     let late = 10 < tl_seq (sc_locals s ComposerThread);
         s1 = upd_result ComposerThread (\<lambda>r. r
           \<lparr>tr_torn := count_if (group_torn repr b) (count_if (group_torn repr a) (count_if (imu_torn repr imu) (tr_torn r))),
            tr_stale := count_if (sg_sequence b = sc_last_grp s StageB \<and> late)
              (count_if (sg_sequence a = sc_last_grp s StageA \<and> late)
                (count_if (si_sequence imu = sc_last_imu s \<and> late) (tr_stale r)))\<rparr>) s;
         s2 = s1\<lparr>sc_last_imu := si_sequence imu,
                 sc_last_grp := (\<lambda>stg. case stg of StageA \<Rightarrow> sg_sequence a | StageB \<Rightarrow> sg_sequence b)\<rparr>
     in bindR (sched_publish (k_beat k) (compose_data imu a b (k_stamp k)) (sc_composed s2)) (\<lambda>c.
          Inr (s2\<lparr>sc_composed := c\<rparr>)))))"

section \<open>The main loop and the logger\<close>

definition main_work :: "Sched \<Rightarrow> fault + Sched" where
  "main_work s =
     bindR (read_buf (sc_composed s)) (\<lambda>c.
       Inr ((upd_result MainLoop (\<lambda>r. r\<lparr>tr_stale :=
               count_if (co_grp_a_seq c = sc_last_composed s \<and> 10 < tl_seq (sc_locals s MainLoop)) (tr_stale r)\<rparr>) s)
            \<lparr>sc_last_composed := co_grp_a_seq c\<rparr>))"

definition sched_log_turn :: "turn_clock \<Rightarrow> Sched \<Rightarrow> fault + Sched" where
  "sched_log_turn k s =
     (let t = LoggerThread in
      if \<not> tl_on (sc_locals s t) then Inr s
      else if \<not> sched_loop s then Inr (leave_loop t (k_start k) s)
      else bindR (read_buf (sc_composed s)) (\<lambda>_.
        Inr (upd_locals t (\<lambda>l. l\<lparr>tl_seq := tl_seq l + 1\<rparr>)
          (upd_result t (\<lambda>r. r\<lparr>tr_work := ss_record (k_work_end k - k_work k) 0 (tr_work r),
             tr_iterations := tl_seq (sc_locals s t) + 1\<rparr>) s))))"

section \<open>The program\<close>

datatype sched_event =
    SchedTurn sched_thread turn_clock
  | EstopTimer u64
  | Interrupted
  | DurationOver
  | StopAll

definition sched_step ::
    "(real \<Rightarrow> real) \<Rightarrow> (double \<Rightarrow> double) \<Rightarrow> (double \<Rightarrow> double) \<Rightarrow> (double \<Rightarrow> double) \<Rightarrow> (double \<Rightarrow> bytes) \<Rightarrow>
     sched_event \<Rightarrow> Sched \<Rightarrow> fault + Sched" where
  "sched_step rnd to_float sn cs repr e s =
     (case e of
        SchedTurn t k \<Rightarrow>
          (case t of
             MainLoop \<Rightarrow> sched_turn t False k main_work s
           | LegThread stg \<Rightarrow> sched_turn t True k (leg_work rnd sn cs repr stg k) s
           | ImuThread \<Rightarrow> sched_turn t False k (imu_work rnd to_float sn cs repr k) s
           | ComposerThread \<Rightarrow> sched_turn t True k (composer_work repr k) s
           | LoggerThread \<Rightarrow> sched_log_turn k s)
      | EstopTimer now \<Rightarrow> Inr (s\<lparr>sc_estop_set := now, sc_estop := True\<rparr>)
      | Interrupted \<Rightarrow> Inr (s\<lparr>sc_running := False\<rparr>)
      | DurationOver \<Rightarrow> Inr (s\<lparr>sc_running := False\<rparr>)
      | StopAll \<Rightarrow> Inr (if sc_running s then s else s\<lparr>sc_estop := True\<rparr>))"

definition ThreadResult_init :: "bool \<Rightarrow> ThreadResult" where
  "ThreadResult_init ok = \<lparr>tr_cycle = SchedStats_init, tr_work = SchedStats_init, tr_jitter = SchedStats_init,
     tr_iterations = 0, tr_stale = 0, tr_torn = 0, tr_estop = 0, tr_sched_ok = ok\<rparr>"

text \<open>The threads at their first test of the loop's condition; \<open>granted\<close> says whose scheduling was granted.\<close>

definition sched_launch :: "(sched_thread \<Rightarrow> bool) \<Rightarrow> (sched_thread \<Rightarrow> u64) \<Rightarrow> Sched" where
  "sched_launch granted starts =
     \<lparr>sc_running = True, sc_estop = False, sc_grp = (\<lambda>_. dbuf_zero SchedGroup_zero), sc_imu = dbuf_zero SchedImu_zero,
      sc_composed = dbuf_zero SchedComposed_zero,
      sc_results = (\<lambda>t. ThreadResult_init (apply_scheduling (tc_fifo (THREAD_CONFIGS ! thread_idx t)) (granted t))),
      sc_locals = (\<lambda>t. \<lparr>tl_on = True, tl_next = starts t, tl_prev = starts t, tl_seq = 0\<rparr>),
      sc_last_imu = 0, sc_last_grp = (\<lambda>_. 0), sc_last_composed = 0, sc_preempted = (\<lambda>_. 0), sc_estop_set = 0\<rparr>"

text \<open>The report.\<close>

definition all_threads :: "sched_thread list" where
  "all_threads = [MainLoop, LegThread StageA, LegThread StageB, ImuThread, ComposerThread, LoggerThread]"

definition total_torn :: "Sched \<Rightarrow> u64" where
  "total_torn s = fold (\<lambda>t n. n + tr_torn (sc_results s t)) all_threads 0"

definition integrity_pass :: "Sched \<Rightarrow> bool" where
  "integrity_pass s \<longleftrightarrow> total_torn s = 0"

definition imbalance :: "(real \<Rightarrow> real) \<Rightarrow> Sched \<Rightarrow> double" where
  "imbalance rnd s =
     (let a = tr_iterations (sc_results s (LegThread StageA)); b = tr_iterations (sc_results s (LegThread StageB)) in
      if 0 < a \<and> 0 < b
      then ddiv rnd (dmul rnd (Fin 100) (dabs (dsub rnd (Fin (rnd (real (unat a)))) (Fin (rnd (real (unat b)))))))
             (Fin (rnd (real (unat (max a b)))))
      else Fin 0)"

definition balance_pass :: "(real \<Rightarrow> real) \<Rightarrow> Sched \<Rightarrow> bool" where
  "balance_pass rnd s \<longleftrightarrow> dlt (imbalance rnd s) (Fin 5)"

definition estop_latency :: "bool \<Rightarrow> Sched \<Rightarrow> sched_thread \<Rightarrow> u64 option" where
  "estop_latency test_estop s t =
     (if test_estop \<and> 0 < sc_estop_set s \<and> 0 < tr_estop (sc_results s t)
      then Some (tr_estop (sc_results s t) - sc_estop_set s) else None)"

text \<open>The options; the arguments of \<open>-dur\<close> and \<open>-estop-delay\<close> go to \<open>atof\<close>.\<close>

record sched_options =
  so_duration :: string
  so_test_estop :: bool
  so_estop_delay :: string

definition sched_defaults :: sched_options where
  "sched_defaults = \<lparr>so_duration = ''10'', so_test_estop = False, so_estop_delay = ''5''\<rparr>"

fun sched_parse :: "string list \<Rightarrow> sched_options \<Rightarrow> sched_options parsed" where
  "sched_parse [] ps = Options ps"
| "sched_parse (a # as) ps =
     (if has_value ''-dur'' a as then sched_parse (tl as) (ps\<lparr>so_duration := hd as\<rparr>)
      else if a = ''-estop'' then sched_parse as (ps\<lparr>so_test_estop := True\<rparr>)
      else if has_value ''-estop-delay'' a as then sched_parse (tl as) (ps\<lparr>so_estop_delay := hd as\<rparr>)
      else if a = ''-h'' then Exit 0 else sched_parse as ps)"

section \<open>Reads are whole and the checksums agree\<close>

definition group_good :: "(double \<Rightarrow> bytes) \<Rightarrow> SchedGroup \<Rightarrow> bool" where
  "group_good repr d \<longleftrightarrow> length (sg_jpos d) = 6 \<and> length (sg_jvel d) = 6 \<and> length (sg_jtorque d) = 6 \<and> \<not> group_torn repr d"

definition imu_good :: "(double \<Rightarrow> bytes) \<Rightarrow> SchedImu \<Rightarrow> bool" where
  "imu_good repr d \<longleftrightarrow> length (si_ang_vel d) = 3 \<and> length (si_acc d) = 3 \<and> \<not> imu_torn repr d"

definition composed_good :: "SchedComposed \<Rightarrow> bool" where
  "composed_good c \<longleftrightarrow> length (co_jpos c) = 12 \<and> length (co_jvel c) = 12 \<and> length (co_jtorque c) = 12 \<and> length (co_ang_vel c) = 3"

lemma sched_publish_wf:
  assumes "dbuf_wf P b" "P d"
  obtains b' where "sched_publish now d b = Inr b'" "dbuf_wf P b'" "read_buf b' = Inr d"
proof -
  have i: "length (buffers b) = 2" "write_idx b = 0 \<or> write_idx b = 1" "\<forall>x \<in> set (buffers b). P x"
    using assms(1) by (auto simp: dbuf_wf_def dbuf_inv_def)
  obtain x y where xy: "buffers b = [x, y]" using i(1) by (auto simp: length_Suc_conv numeral_2_eq_2)
  show thesis
    by (rule that [of "b\<lparr>buffers := (buffers b)[unat (1 - write_idx b) := d], write_idx := 1 - write_idx b,
        d_sequence := d_sequence b + 1, heartbeat_ns := now\<rparr>"])
      (use i assms xy in \<open>auto simp: sched_publish_def arr_set_def dbuf_wf_def dbuf_inv_def read_buf_def arr_get_def Let_def\<close>)
qed

lemma read_wf_obtain:
  assumes "dbuf_wf P b"
  obtains d where "read_buf b = Inr d" "P d"
  using read_wf [OF assms] by blast

lemma leg_data_good: "group_good repr (leg_data rnd sn cs repr i q now)"
  by (simp add: group_good_def leg_data_def group_torn_def Let_def)

lemma imu_data_good: "imu_good repr (imu_data rnd tf sn cs repr q now)"
  by (simp add: imu_good_def imu_data_def imu_torn_def Let_def)

lemma compose_data_good:
  "group_good repr a \<Longrightarrow> group_good repr b \<Longrightarrow> imu_good repr i \<Longrightarrow> composed_good (compose_data i a b now)"
  by (simp add: composed_good_def compose_data_def group_good_def imu_good_def copy_groups_6 SchedComposed_zero_def zeros_def Let_def)

text \<open>What every turn keeps; clock readings stay below \<open>2 ^ 62\<close> nanoseconds.\<close>

definition sched_ok :: "(double \<Rightarrow> bytes) \<Rightarrow> Sched \<Rightarrow> bool" where
  "sched_ok repr s \<longleftrightarrow> (\<forall>stg. dbuf_wf (group_good repr) (sc_grp s stg)) \<and> dbuf_wf (imu_good repr) (sc_imu s) \<and>
     dbuf_wf composed_good (sc_composed s) \<and> (\<forall>t. tr_torn (sc_results s t) = 0) \<and> (\<forall>t. tl_prev (sc_locals s t) < 2 ^ 62)"

fun sched_event_ok :: "sched_event \<Rightarrow> bool" where
  "sched_event_ok (SchedTurn t k) = (k_start k < 2 ^ 62)"
| "sched_event_ok e = True"

lemma jitter_ok:
  assumes "start < 2 ^ 62" "prev < 2 ^ 62" "period = 10000000 \<or> period = 5000000 \<or> period = 0"
  shows "\<exists>j. jitter_ns start prev period = Inr j"
proof -
  have p: "(2 :: int) ^ 62 = 4611686018427387904" "(2 :: int) ^ 63 = 9223372036854775808" by simp_all
  have u: "uint start < 2 ^ 62" "uint prev < 2 ^ 62" using assms(1,2) by (simp_all add: word_less_def)
  have "start - prev = word_of_int (uint start - uint prev)" by simp
  then have "sint (start - prev) = signed_take_bit 63 (uint start - uint prev)" by (simp only: sint_sbintrunc') simp
  also have "\<dots> = uint start - uint prev"
    by (rule signed_take_bit_int_eq_self) (use u uint_ge_0 [of start] uint_ge_0 [of prev] in \<open>unfold p, linarith\<close>)+
  finally have "sint (start - prev) = uint start - uint prev" .
  then have "\<bar>sint (start - prev)\<bar> < 2 ^ 62" using u uint_ge_0 [of start] uint_ge_0 [of prev] by linarith
  moreover have "sint period = 10000000 \<or> sint period = 5000000 \<or> sint period = 0" using assms(3) by auto
  ultimately have "- (2 ^ 63) < sint (start - prev) - sint period" "sint (start - prev) - sint period < 2 ^ 63" by auto
  then show ?thesis by (auto simp: jitter_ns_def Let_def)
qed

lemma sched_period_cases: "sched_period t = 10000000 \<or> sched_period t = 5000000 \<or> sched_period t = 0"
proof -
  have "thread_idx t \<in> {0, 1, 2, 3, 4, 5}" by (cases t rule: thread_idx.cases) auto
  then show ?thesis by (auto simp: sched_period_def THREAD_CONFIGS_def)
qed

lemma sched_begin_ok:
  assumes "sched_ok repr s" "start < 2 ^ 62"
  obtains s' where "sched_begin t start s = Inr s'" "sched_ok repr s'" "sc_locals s' = (sc_locals s)(t := (sc_locals s t)\<lparr>tl_prev := start\<rparr>)"
    "sc_grp s' = sc_grp s" "sc_imu s' = sc_imu s" "sc_composed s' = sc_composed s" "sc_running s' = sc_running s" "sc_estop s' = sc_estop s"
    "sc_last_imu s' = sc_last_imu s" "sc_last_grp s' = sc_last_grp s" "\<And>t. tr_stale (sc_results s' t) = tr_stale (sc_results s t)"
proof -
  have "tl_prev (sc_locals s t) < 2 ^ 62" using assms(1) by (simp add: sched_ok_def)
  then obtain j where j: "jitter_ns start (tl_prev (sc_locals s t)) (sched_period t) = Inr j"
    using jitter_ok [OF assms(2) _ sched_period_cases] by blast
  let ?r = "\<lambda>r. r\<lparr>tr_jitter := ss_record j 0 (tr_jitter r)\<rparr>"
  define s' where "s' = upd_locals t (\<lambda>l. l\<lparr>tl_prev := start\<rparr>) (if 0 < tl_seq (sc_locals s t) then upd_result t ?r s else s)"
  show thesis
    by (rule that [of s']) (use assms in \<open>auto simp: sched_begin_def j s'_def sched_ok_def upd_locals_def upd_result_def\<close>)
qed

lemma sched_end_frame:
  "sc_grp (sched_end t c k s) = sc_grp s"
  "sc_imu (sched_end t c k s) = sc_imu s" "sc_composed (sched_end t c k s) = sc_composed s"
  "sc_running (sched_end t c k s) = sc_running s" "sc_estop (sched_end t c k s) = sc_estop s"
  "sc_last_imu (sched_end t c k s) = sc_last_imu s" "sc_last_grp (sched_end t c k s) = sc_last_grp s"
  "tr_stale (sc_results (sched_end t c k s) u) = tr_stale (sc_results s u)"
  "tl_seq (sc_locals (sched_end t c k s) u) = (if u = t then tl_seq (sc_locals s u) + 1 else tl_seq (sc_locals s u))"
  "tl_on (sc_locals (sched_end t c k s) u) = tl_on (sc_locals s u)"
  by (simp_all add: sched_end_def upd_locals_def upd_result_def sched_ok_def Let_def)

lemma sched_end_ok: "sched_ok repr s \<Longrightarrow> sched_ok repr (sched_end t c k s)"
  by (auto simp: sched_end_def upd_locals_def upd_result_def sched_ok_def Let_def)

text \<open>A turn that is not skipped: the work is done on a state that differs in the thread's locals and results.\<close>

lemma sched_turn_ok:
  assumes "sched_ok repr s" "k_start k < 2 ^ 62"
    and work: "\<And>s1. sched_ok repr s1 \<Longrightarrow> \<exists>s2. work s1 = Inr s2 \<and> sched_ok repr s2"
  shows "\<exists>s'. sched_turn t c k work s = Inr s' \<and> sched_ok repr s'"
proof -
  obtain s1 where "sched_begin t (k_start k) s = Inr s1" "sched_ok repr s1" by (rule sched_begin_ok [OF assms(1,2), of t])
  moreover have "sched_ok repr (leave_loop t n s)" for n
    using assms(1) by (simp add: leave_loop_def upd_locals_def upd_result_def sched_ok_def Let_def)
  ultimately show ?thesis using assms(1) work [of s1] by (auto simp: sched_turn_def sched_end_ok)
qed

lemma leg_work_ok:
  assumes "sched_ok repr s"
  shows "\<exists>s'. leg_work rnd sn cs repr stg k s = Inr s' \<and> sched_ok repr s' \<and>
    read_buf (sc_grp s' stg) = Inr (leg_data rnd sn cs repr (thread_idx (LegThread stg)) (tl_seq (sc_locals s (LegThread stg))) (k_stamp k)) \<and>
    (\<exists>b. s' = s\<lparr>sc_grp := (sc_grp s)(stg := b)\<rparr>)"
proof -
  have "dbuf_wf (group_good repr) (sc_grp s stg)" using assms by (simp add: sched_ok_def)
  then obtain b where "sched_publish (k_beat k) (leg_data rnd sn cs repr (thread_idx (LegThread stg))
      (tl_seq (sc_locals s (LegThread stg))) (k_stamp k)) (sc_grp s stg) = Inr b" "dbuf_wf (group_good repr) b"
    "read_buf b = Inr (leg_data rnd sn cs repr (thread_idx (LegThread stg)) (tl_seq (sc_locals s (LegThread stg))) (k_stamp k))"
    by (rule sched_publish_wf [where P = "group_good repr", OF _ leg_data_good])
  then show ?thesis using assms by (auto simp: leg_work_def Let_def sched_ok_def)
qed

lemma imu_work_ok:
  assumes "sched_ok repr s"
  shows "\<exists>s'. imu_work rnd tf sn cs repr k s = Inr s' \<and> sched_ok repr s' \<and>
    read_buf (sc_imu s') = Inr (imu_data rnd tf sn cs repr (tl_seq (sc_locals s ImuThread)) (k_stamp k)) \<and>
    (\<exists>b. s' = s\<lparr>sc_imu := b\<rparr>)"
proof -
  have "dbuf_wf (imu_good repr) (sc_imu s)" using assms by (simp add: sched_ok_def)
  then obtain b where "sched_publish (k_beat k) (imu_data rnd tf sn cs repr (tl_seq (sc_locals s ImuThread)) (k_stamp k)) (sc_imu s) = Inr b"
    "dbuf_wf (imu_good repr) b" "read_buf b = Inr (imu_data rnd tf sn cs repr (tl_seq (sc_locals s ImuThread)) (k_stamp k))"
    by (rule sched_publish_wf [where P = "imu_good repr", OF _ imu_data_good])
  then show ?thesis using assms by (auto simp: imu_work_def Let_def sched_ok_def)
qed

lemma composer_work_ok:
  assumes "sched_ok repr s" "read_buf (sc_imu s) = Inr i" "read_buf (sc_grp s StageA) = Inr a" "read_buf (sc_grp s StageB) = Inr b"
  defines "late \<equiv> 10 < tl_seq (sc_locals s ComposerThread)"
  obtains s' c where "composer_work repr k s = Inr s'" "sched_ok repr s'"
    "tr_stale (sc_results s' ComposerThread) = count_if (sg_sequence b = sc_last_grp s StageB \<and> late)
       (count_if (sg_sequence a = sc_last_grp s StageA \<and> late)
         (count_if (si_sequence i = sc_last_imu s \<and> late) (tr_stale (sc_results s ComposerThread))))"
    "sc_last_imu s' = si_sequence i" "sc_last_grp s' StageA = sg_sequence a" "sc_last_grp s' StageB = sg_sequence b"
    "sc_grp s' = sc_grp s" "sc_imu s' = sc_imu s" "sc_locals s' = sc_locals s" "sc_running s' = sc_running s" "sc_estop s' = sc_estop s"
    "read_buf (sc_composed s') = Inr (compose_data i a b (k_stamp k))"
proof -
  have g: "imu_good repr i" "group_good repr a" "group_good repr b" and w: "dbuf_wf composed_good (sc_composed s)"
    using assms(1-4) read_wf [of "imu_good repr" "sc_imu s"] read_wf [of "group_good repr" "sc_grp s StageA"]
      read_wf [of "group_good repr" "sc_grp s StageB"] by (auto simp: sched_ok_def)
  obtain c where c: "sched_publish (k_beat k) (compose_data i a b (k_stamp k)) (sc_composed s) = Inr c" "dbuf_wf composed_good c"
    "read_buf c = Inr (compose_data i a b (k_stamp k))"
    by (rule sched_publish_wf [OF w compose_data_good [OF g(2,3,1)]])
  have t: "count_if (group_torn repr b) (count_if (group_torn repr a) (count_if (imu_torn repr i) n)) = n" for n
    using g by (simp add: count_if_def imu_good_def group_good_def)
  obtain s' where e: "composer_work repr k s = Inr s'"
    using c(1) by (simp add: composer_work_def assms(2-4) Let_def upd_result_def)
  show thesis
    by (rule that [OF e]) (use e assms(1) c in \<open>auto simp: composer_work_def assms(2-4) t late_def Let_def upd_result_def sched_ok_def\<close>)
qed

lemma sched_step_ok:
  assumes "sched_ok repr s" "sched_event_ok e"
  shows "\<exists>s'. sched_step rnd tf sn cs repr e s = Inr s' \<and> sched_ok repr s'"
proof (cases e)
  case (SchedTurn t k)
  then have k: "k_start k < 2 ^ 62" using assms(2) by simp
  have m: "\<exists>s2. main_work s1 = Inr s2 \<and> sched_ok repr s2" if h: "sched_ok repr s1" for s1
  proof -
    obtain c where "read_buf (sc_composed s1) = Inr c" using h read_wf [of composed_good "sc_composed s1"] by (auto simp: sched_ok_def)
    then show ?thesis using h by (auto simp: main_work_def upd_result_def sched_ok_def)
  qed
  have l: "\<exists>s'. sched_log_turn k s = Inr s' \<and> sched_ok repr s'"
  proof -
    obtain c where "read_buf (sc_composed s) = Inr c" using assms(1) read_wf [of composed_good "sc_composed s"] by (auto simp: sched_ok_def)
    then show ?thesis using assms(1) by (auto simp: sched_log_turn_def Let_def leave_loop_def upd_result_def upd_locals_def sched_ok_def)
  qed
  have g: "\<exists>s2. leg_work rnd sn cs repr stg k s1 = Inr s2 \<and> sched_ok repr s2" if "sched_ok repr s1" for stg s1
    using leg_work_ok [OF that] by blast
  have i: "\<exists>s2. imu_work rnd tf sn cs repr k s1 = Inr s2 \<and> sched_ok repr s2" if "sched_ok repr s1" for s1
    using imu_work_ok [OF that] by blast
  have c: "\<exists>s2. composer_work repr k s1 = Inr s2 \<and> sched_ok repr s2" if h: "sched_ok repr s1" for s1
  proof -
    obtain i a b where r: "read_buf (sc_imu s1) = Inr i" "read_buf (sc_grp s1 StageA) = Inr a" "read_buf (sc_grp s1 StageB) = Inr b"
      using h read_wf unfolding sched_ok_def by metis
    show ?thesis by (rule composer_work_ok [OF h r, of k]) blast
  qed
  show ?thesis
    using SchedTurn sched_turn_ok [OF assms(1) k m] sched_turn_ok [OF assms(1) k g] sched_turn_ok [OF assms(1) k i]
      sched_turn_ok [OF assms(1) k c] l
    by (cases t) (simp_all add: sched_step_def)
qed (use assms(1) in \<open>auto simp: sched_step_def sched_ok_def\<close>)

lemma sched_launch_ok:
  assumes "\<And>t. starts t < 2 ^ 62"
  shows "sched_ok repr (sched_launch granted starts)"
  using assms by (simp add: sched_ok_def sched_launch_def dbuf_wf_def dbuf_zero_def dbuf_inv_def group_good_def imu_good_def
      composed_good_def SchedGroup_zero_def SchedImu_zero_def SchedComposed_zero_def zeros_def group_torn_def imu_torn_def
      ThreadResult_init_def)

text \<open>However the turns of the threads are interleaved, none faults and none counts a torn read: the integrity
  check has no false alarms, and the merged record always has its twelve joints.\<close>

theorem sched_integrity:
  assumes "list_all sched_event_ok es" "\<And>t. starts t < 2 ^ 62"
  shows "\<exists>s c. foldR (sched_step rnd tf sn cs repr) es (sched_launch granted starts) = Inr s \<and> integrity_pass s \<and>
    read_buf (sc_composed s) = Inr c \<and> composed_good c"
proof -
  have "\<exists>s. foldR (sched_step rnd tf sn cs repr) es (sched_launch granted starts) = Inr s \<and> sched_ok repr s"
    by (rule foldR_total) (use assms(1) in \<open>auto simp: list_all_iff intro!: sched_step_ok sched_launch_ok assms(2)\<close>)
  then obtain s where s: "foldR (sched_step rnd tf sn cs repr) es (sched_launch granted starts) = Inr s" "sched_ok repr s" by blast
  moreover have "integrity_pass s" using s(2) by (simp add: sched_ok_def integrity_pass_def total_torn_def all_threads_def)
  ultimately show ?thesis using read_wf [of composed_good "sc_composed s"] by (auto simp: sched_ok_def)
qed

text \<open>The check sees the positions only: a record with the velocities and torques of another one passes.\<close>

theorem torn_velocity_unnoticed:
  "\<not> group_torn repr g \<Longrightarrow> \<not> group_torn repr (g\<lparr>sg_jvel := v, sg_jtorque := u, sg_timestamp := n\<rparr>)"
  by (simp add: group_torn_def)

section \<open>Stale reads are counted exactly\<close>

definition sched_sources :: "sched_thread list" where
  "sched_sources = [ImuThread, LegThread StageA, LegThread StageB]"

definition published_seq :: "Sched \<Rightarrow> sched_thread \<Rightarrow> u64" where
  "published_seq s t = (case t of LegThread stg \<Rightarrow> sg_sequence (projr (read_buf (sc_grp s stg)))
     | _ \<Rightarrow> si_sequence (projr (read_buf (sc_imu s))))"

abbreviation turns :: "Sched \<Rightarrow> sched_thread \<Rightarrow> u64" where
  "turns s t \<equiv> tl_seq (sc_locals s t)"

definition last_seen :: "Sched \<Rightarrow> sched_thread \<Rightarrow> u64" where
  "last_seen s t = (case t of LegThread stg \<Rightarrow> sc_last_grp s stg | _ \<Rightarrow> sc_last_imu s)"

definition stale_count :: "Sched \<Rightarrow> u64" where
  "stale_count s = tr_stale (sc_results s ComposerThread)"

text \<open>A source either does nothing or publishes the number of its turn.\<close>

definition source_step :: "Sched \<Rightarrow> Sched \<Rightarrow> sched_thread \<Rightarrow> bool" where
  "source_step s s' u \<longleftrightarrow> published_seq s' u = published_seq s u \<and> turns s' u = turns s u \<or>
     published_seq s' u = turns s u \<and> turns s' u = turns s u + 1"

lemma sched_turn_cases:
  assumes "sched_turn t c k work s = Inr s'" "sched_ok repr s" "k_start k < 2 ^ 62"
  obtains "s' = s" "\<not> tl_on (sc_locals s t)" | "s' = leave_loop t (k_start k) s" "\<not> sched_loop s"
  | s1 s2 where "sched_begin t (k_start k) s = Inr s1" "work s1 = Inr s2" "s' = sched_end t c k s2" "sched_loop s" "tl_on (sc_locals s t)"
  using assms(1) by (auto simp: sched_turn_def bindR_Inr_iff split: if_splits)

lemma leave_loop_frame:
  "sc_grp (leave_loop t n s) = sc_grp s" "sc_imu (leave_loop t n s) = sc_imu s" "last_seen (leave_loop t n s) = last_seen s"
  "stale_count (leave_loop t n s) = stale_count s" "turns (leave_loop t n s) u = turns s u"
  "sched_loop (leave_loop t n s) = sched_loop s" "tl_on (sc_locals (leave_loop t n s) u) \<Longrightarrow> tl_on (sc_locals s u)"
  by (auto simp: leave_loop_def upd_locals_def upd_result_def Let_def last_seen_def stale_count_def sched_loop_def fun_eq_iff
      split: sched_thread.splits if_splits)

lemma sched_begin_frame:
  assumes "sched_begin t start s = Inr s1"
  shows "sc_grp s1 = sc_grp s" "sc_imu s1 = sc_imu s" "last_seen s1 = last_seen s" "stale_count s1 = stale_count s"
    "turns s1 u = turns s u" "sched_loop s1 = sched_loop s" "tl_on (sc_locals s1 u) = tl_on (sc_locals s u)"
  using assms by (auto simp: sched_begin_def bindR_Inr_iff upd_locals_def upd_result_def last_seen_def stale_count_def sched_loop_def
      fun_eq_iff split: if_splits sched_thread.splits)

lemma sched_begin_keeps: "sched_ok repr s \<Longrightarrow> start < 2 ^ 62 \<Longrightarrow> sched_begin t start s = Inr s1 \<Longrightarrow> sched_ok repr s1"
  by (erule (1) sched_begin_ok [of _ _ _ t]) simp

lemma sched_end_last: "last_seen (sched_end t c k s) = last_seen s" "stale_count (sched_end t c k s) = stale_count s"
  "sched_loop (sched_end t c k s) = sched_loop s" "published_seq (sched_end t c k s) = published_seq s"
  by (simp_all add: last_seen_def stale_count_def sched_end_frame sched_loop_def published_seq_def fun_eq_iff split: sched_thread.splits)

text \<open>What an event other than a turn of the composer may change.\<close>

definition sched_effect :: "Sched \<Rightarrow> Sched \<Rightarrow> bool" where
  "sched_effect s s' \<longleftrightarrow> last_seen s' = last_seen s \<and> stale_count s' = stale_count s \<and>
     (\<forall>u \<in> set sched_sources. source_step s s' u) \<and> (sched_loop s' \<longrightarrow> sched_loop s) \<and>
     (\<forall>u. tl_on (sc_locals s' u) \<longrightarrow> tl_on (sc_locals s u))"

lemma effect_refl: "sched_effect s s"
  by (simp add: sched_effect_def source_step_def)

lemma effect_leave: "sched_effect s (leave_loop t n s)"
  by (auto simp: sched_effect_def source_step_def leave_loop_frame published_seq_def split: sched_thread.splits)

text \<open>Work that publishes at most the data of its own source.\<close>

lemma effect_turn:
  assumes "sched_turn t c k work s = Inr s'" "sched_ok repr s" "k_start k < 2 ^ 62"
    and work: "\<And>s1 s2. sched_ok repr s1 \<Longrightarrow> work s1 = Inr s2 \<Longrightarrow> last_seen s2 = last_seen s1 \<and> stale_count s2 = stale_count s1 \<and>
      sc_locals s2 = sc_locals s1 \<and> sched_loop s2 = sched_loop s1 \<and>
      (\<forall>u \<in> set sched_sources. published_seq s2 u = (if u = t then turns s1 u else published_seq s1 u))"
  shows "sched_effect s s'"
  using assms(1-3)
proof (cases rule: sched_turn_cases)
  case (3 s1 s2)
  note b = sched_begin_frame [OF 3(1)]
  note w = work [OF sched_begin_keeps [OF assms(2,3) 3(1)] 3(2)]
  have p: "published_seq s1 = published_seq s" by (simp add: published_seq_def b(1,2) fun_eq_iff split: sched_thread.split)
  have tu: "turns s2 u = turns s u" "tl_on (sc_locals s2 u) = tl_on (sc_locals s u)" for u using w b(5,7) by simp_all
  have "source_step s s' u" if "u \<in> set sched_sources" for u
    using w that by (auto simp: source_step_def 3(3) sched_end_last sched_end_frame tu p b(5))
  then show ?thesis
    using w b by (auto simp: sched_effect_def 3(3) sched_end_last sched_end_frame tu)
qed (simp_all add: effect_refl effect_leave)

lemma effect_step:
  assumes "sched_step rnd tf sn cs repr e s = Inr s'" "sched_ok repr s" "sched_event_ok e" "\<And>k. e \<noteq> SchedTurn ComposerThread k"
  shows "sched_effect s s'"
proof (cases e)
  case (SchedTurn t k)
  then have k: "k_start k < 2 ^ 62" using assms(3) by simp
  show ?thesis
  proof (cases t)
    case MainLoop
    then have "sched_turn MainLoop False k main_work s = Inr s'" using assms(1) SchedTurn by (simp add: sched_step_def)
    then show ?thesis
      by (rule effect_turn [OF _ assms(2) k]) (auto simp: main_work_def bindR_Inr_iff upd_result_def last_seen_def stale_count_def
          sched_loop_def published_seq_def sched_sources_def fun_eq_iff split: sched_thread.splits)
  next
    case (LegThread stg)
    then have "sched_turn (LegThread stg) True k (leg_work rnd sn cs repr stg k) s = Inr s'"
      using assms(1) SchedTurn by (simp add: sched_step_def)
    then show ?thesis
    proof (rule effect_turn [OF _ assms(2) k])
      fix s1 s2
      assume "sched_ok repr s1" "leg_work rnd sn cs repr stg k s1 = Inr s2"
      then obtain b where b: "s2 = s1\<lparr>sc_grp := (sc_grp s1)(stg := b)\<rparr>"
        "read_buf (sc_grp s2 stg) = Inr (leg_data rnd sn cs repr (thread_idx (LegThread stg)) (turns s1 (LegThread stg)) (k_stamp k))"
        using leg_work_ok [of repr s1 rnd sn cs stg k] by auto
      have q: "sg_sequence (leg_data rnd sn cs repr i n now) = n" for i n now by (simp add: leg_data_def Let_def)
      show "last_seen s2 = last_seen s1 \<and> stale_count s2 = stale_count s1 \<and> sc_locals s2 = sc_locals s1 \<and>
        sched_loop s2 = sched_loop s1 \<and> (\<forall>u \<in> set sched_sources. published_seq s2 u =
          (if u = LegThread stg then turns s1 u else published_seq s1 u))"
        using b by (auto simp: last_seen_def stale_count_def sched_loop_def published_seq_def sched_sources_def fun_eq_iff q
            split: sched_thread.splits)
    qed
  next
    case ImuThread
    then have "sched_turn ImuThread False k (imu_work rnd tf sn cs repr k) s = Inr s'"
      using assms(1) SchedTurn by (simp add: sched_step_def)
    then show ?thesis
    proof (rule effect_turn [OF _ assms(2) k])
      fix s1 s2
      assume "sched_ok repr s1" "imu_work rnd tf sn cs repr k s1 = Inr s2"
      then obtain b where b: "s2 = s1\<lparr>sc_imu := b\<rparr>"
        "read_buf (sc_imu s2) = Inr (imu_data rnd tf sn cs repr (turns s1 ImuThread) (k_stamp k))"
        using imu_work_ok [of repr s1 rnd tf sn cs k] by auto
      have q: "si_sequence (imu_data rnd tf sn cs repr n now) = n" for n now by (simp add: imu_data_def Let_def)
      show "last_seen s2 = last_seen s1 \<and> stale_count s2 = stale_count s1 \<and> sc_locals s2 = sc_locals s1 \<and>
        sched_loop s2 = sched_loop s1 \<and> (\<forall>u \<in> set sched_sources. published_seq s2 u =
          (if u = ImuThread then turns s1 u else published_seq s1 u))"
        using b by (auto simp: last_seen_def stale_count_def sched_loop_def published_seq_def sched_sources_def fun_eq_iff q
            split: sched_thread.splits)
    qed
  next
    case LoggerThread
    then have "s' = s \<or> s' = leave_loop LoggerThread (k_start k) s \<or> sched_effect s s'"
      using assms(1) SchedTurn by (auto simp: sched_step_def sched_log_turn_def Let_def bindR_Inr_iff upd_locals_def upd_result_def
          sched_effect_def source_step_def last_seen_def stale_count_def sched_loop_def published_seq_def sched_sources_def fun_eq_iff
          split: sched_thread.splits if_splits)
    then show ?thesis using effect_refl effect_leave by blast
  qed (use assms(4) [of k] SchedTurn in simp)
qed (use assms(1) in \<open>auto simp: sched_step_def sched_effect_def source_step_def last_seen_def stale_count_def sched_loop_def
    published_seq_def fun_eq_iff split: sched_thread.splits if_splits\<close>)

lemma composer_turn:
  assumes "sched_step rnd tf sn cs repr (SchedTurn ComposerThread k) s = Inr s'" "sched_ok repr s" "k_start k < 2 ^ 62"
  shows "(\<forall>u \<in> set sched_sources. published_seq s' u = published_seq s u \<and> turns s' u = turns s u) \<and>
    (sched_loop s' \<longrightarrow> sched_loop s) \<and> (\<forall>u. tl_on (sc_locals s' u) \<longrightarrow> tl_on (sc_locals s u)) \<and>
    (sched_loop s \<and> tl_on (sc_locals s ComposerThread) \<longrightarrow> (\<forall>u \<in> set sched_sources. last_seen s' u = published_seq s u) \<and>
      stale_count s' = stale_count s +
        of_nat (length (filter (\<lambda>u. published_seq s u = last_seen s u \<and> 10 < turns s ComposerThread) sched_sources)))"
proof -
  have "sched_turn ComposerThread True k (composer_work repr k) s = Inr s'" using assms(1) by (simp add: sched_step_def)
  then show ?thesis
    using assms(2,3)
  proof (cases rule: sched_turn_cases)
    case (3 s1 s2)
    note b = sched_begin_frame [OF 3(1)]
    have ok: "sched_ok repr s1" by (rule sched_begin_keeps [OF assms(2,3) 3(1)])
    obtain i ga gb where r: "read_buf (sc_imu s1) = Inr i" "read_buf (sc_grp s1 StageA) = Inr ga" "read_buf (sc_grp s1 StageB) = Inr gb"
      using ok read_wf unfolding sched_ok_def by metis
    obtain c where w: "composer_work repr k s1 = Inr c"
      "stale_count c = count_if (sg_sequence gb = sc_last_grp s1 StageB \<and> 10 < turns s1 ComposerThread)
       (count_if (sg_sequence ga = sc_last_grp s1 StageA \<and> 10 < turns s1 ComposerThread)
         (count_if (si_sequence i = sc_last_imu s1 \<and> 10 < turns s1 ComposerThread) (stale_count s1)))"
      "sc_last_imu c = si_sequence i" "sc_last_grp c StageA = sg_sequence ga" "sc_last_grp c StageB = sg_sequence gb"
      "sc_grp c = sc_grp s1" "sc_imu c = sc_imu s1" "sc_locals c = sc_locals s1" "sched_loop c = sched_loop s1"
      by (rule composer_work_ok [OF ok r, of k]) (simp add: stale_count_def sched_loop_def)
    have s2: "s2 = c" using w(1) 3(2) by simp
    have l: "last_seen s ImuThread = sc_last_imu s1" "last_seen s (LegThread g) = sc_last_grp s1 g" for g
      using b(3) by (auto simp: last_seen_def fun_eq_iff split: sched_thread.splits)
    have p: "published_seq s = published_seq s1" by (simp add: published_seq_def b(1,2) fun_eq_iff split: sched_thread.split)
    have q: "published_seq s1 ImuThread = si_sequence i" "published_seq s1 (LegThread StageA) = sg_sequence ga"
      "published_seq s1 (LegThread StageB) = sg_sequence gb" by (simp_all add: published_seq_def r)
    have "stale_count s' = stale_count s +
        of_nat (length (filter (\<lambda>u. published_seq s u = last_seen s u \<and> 10 < turns s ComposerThread) sched_sources))"
      by (simp add: 3(3) sched_end_last s2 w(2) sched_sources_def p q l b(4,5) count_if_def)
    moreover have "\<forall>u \<in> set sched_sources. last_seen s' u = published_seq s u"
      using q by (simp add: 3(3) sched_end_last s2 sched_sources_def p) (simp add: last_seen_def w(3-5))
    moreover have "published_seq s' = published_seq s"
      by (simp add: 3(3) sched_end_last s2 p) (simp add: published_seq_def w(6,7) fun_eq_iff split: sched_thread.split)
    ultimately show ?thesis
      by (auto simp: 3(3) sched_end_last sched_end_frame s2 w(8,9) b(5-7) sched_sources_def)
  qed (auto simp: leave_loop_frame published_seq_def sched_sources_def)
qed

definition seq_inv :: "nat \<Rightarrow> Sched \<Rightarrow> bool" where
  "seq_inv n s \<longleftrightarrow> (\<forall>u \<in> set sched_sources. unat (turns s u) \<le> n \<and> (0 < turns s u \<longrightarrow> published_seq s u = turns s u - 1))"

lemma any_step:
  assumes "sched_step rnd tf sn cs repr e s = Inr s'" "sched_ok repr s" "sched_event_ok e"
  shows "(\<forall>u \<in> set sched_sources. source_step s s' u) \<and> (sched_loop s' \<longrightarrow> sched_loop s) \<and>
    (\<forall>u. tl_on (sc_locals s' u) \<longrightarrow> tl_on (sc_locals s u)) \<and> sched_ok repr s'"
proof -
  have ok: "sched_ok repr s'" using sched_step_ok [OF assms(2,3), of rnd tf sn cs] assms(1) by simp
  show ?thesis
  proof (cases "\<exists>k. e = SchedTurn ComposerThread k")
    case True
    then obtain k where k: "e = SchedTurn ComposerThread k" by blast
    then show ?thesis
      using composer_turn [OF assms(1) [unfolded k] assms(2)] assms(3) ok by (simp add: source_step_def)
  next
    case False
    then show ?thesis using effect_step [OF assms] ok by (simp add: sched_effect_def)
  qed
qed

lemma sched_run:
  assumes "foldR (sched_step rnd tf sn cs repr) es s = Inr s'" "sched_ok repr s" "list_all sched_event_ok es" "seq_inv n s"
    "n + length es < 2 ^ 64"
  shows "sched_ok repr s' \<and> seq_inv (n + length es) s' \<and> (\<forall>u \<in> set sched_sources. turns s u \<le> turns s' u) \<and>
    (sched_loop s' \<longrightarrow> sched_loop s) \<and> (\<forall>u. tl_on (sc_locals s' u) \<longrightarrow> tl_on (sc_locals s u))"
  using assms
proof (induction es arbitrary: s n)
  case (Cons e es)
  then obtain s1 where s1: "sched_step rnd tf sn cs repr e s = Inr s1" "foldR (sched_step rnd tf sn cs repr) es s1 = Inr s'"
    by (auto simp: bindR_Inr_iff)
  have e: "sched_event_ok e" "list_all sched_event_ok es" using Cons.prems(3) by simp_all
  note a = any_step [OF s1(1) Cons.prems(2) e(1)]
  have m: "unat (turns s1 u) \<le> Suc n \<and> turns s u \<le> turns s1 u \<and> (0 < turns s1 u \<longrightarrow> published_seq s1 u = turns s1 u - 1)"
    if u: "u \<in> set sched_sources" for u
  proof -
    have i: "unat (turns s u) \<le> n" "0 < turns s u \<longrightarrow> published_seq s u = turns s u - 1"
      using Cons.prems(4) u by (auto simp: seq_inv_def)
    have b: "unat (turns s u) + 1 < 2 ^ 64" using i(1) Cons.prems(5) by simp
    then have "unat (turns s u + 1) = unat (turns s u) + 1" by (simp add: unat_word_ariths)
    then have "turns s u \<le> turns s u + 1" "unat (turns s u + 1) \<le> Suc n" using i(1) by (simp_all add: word_le_nat_alt)
    then show ?thesis using a u i by (auto simp: source_step_def)
  qed
  then have "seq_inv (Suc n) s1" by (simp add: seq_inv_def)
  then have r: "sched_ok repr s' \<and> seq_inv (Suc n + length es) s' \<and> (\<forall>u \<in> set sched_sources. turns s1 u \<le> turns s' u) \<and>
      (sched_loop s' \<longrightarrow> sched_loop s1) \<and> (\<forall>u. tl_on (sc_locals s' u) \<longrightarrow> tl_on (sc_locals s1 u))"
    using Cons.IH [OF s1(2) _ e(2), of "Suc n"] a Cons.prems(5) by simp
  then show ?case using a m by (fastforce intro: order_trans)
qed simp

lemma quiet_run:
  assumes "foldR (sched_step rnd tf sn cs repr) es s = Inr s'" "sched_ok repr s" "list_all sched_event_ok es"
    "\<And>k. SchedTurn ComposerThread k \<notin> set es"
  shows "last_seen s' = last_seen s \<and> stale_count s' = stale_count s"
  using assms
proof (induction es arbitrary: s)
  case (Cons e es)
  then obtain s1 where s1: "sched_step rnd tf sn cs repr e s = Inr s1" "foldR (sched_step rnd tf sn cs repr) es s1 = Inr s'"
    by (auto simp: bindR_Inr_iff)
  have e: "sched_event_ok e" "list_all sched_event_ok es" "\<And>k. e \<noteq> SchedTurn ComposerThread k" "\<And>k. SchedTurn ComposerThread k \<notin> set es"
    using Cons.prems(3,4) by auto
  show ?case
    using effect_step [OF s1(1) Cons.prems(2) e(1,3)] any_step [OF s1(1) Cons.prems(2) e(1)] Cons.IH [OF s1(2) _ e(2,4)]
    by (simp add: sched_effect_def)
qed simp

text \<open>Between two turns of the composer, the second one late enough to count, the stale counter grows by the
  number of sources that made no turn in between, if each source had published before the first.\<close>

theorem stale_reads_exact:
  assumes es: "list_all sched_event_ok (es1 @ SchedTurn ComposerThread k1 # es2)" "length es1 + length es2 + 1 < 2 ^ 64"
      "\<And>k. SchedTurn ComposerThread k \<notin> set es2"
    and start: "\<And>t. starts t < 2 ^ 62"
    and run: "foldR (sched_step rnd tf sn cs repr) es1 (sched_launch granted starts) = Inr s0"
      "foldR (sched_step rnd tf sn cs repr) (SchedTurn ComposerThread k1 # es2) s0 = Inr s2"
      "sched_step rnd tf sn cs repr (SchedTurn ComposerThread k2) s2 = Inr s3" "k_start k2 < 2 ^ 62"
    and going: "sched_loop s2" "tl_on (sc_locals s2 ComposerThread)" "10 < turns s2 ComposerThread"
    and published: "\<And>u. u \<in> set sched_sources \<Longrightarrow> 0 < turns s0 u"
  shows "stale_count s3 = stale_count s2 + of_nat (length (filter (\<lambda>u. turns s2 u = turns s0 u) sched_sources))"
proof -
  have i: "seq_inv 0 (sched_launch granted starts)" by (simp add: seq_inv_def sched_launch_def)
  have ok: "list_all sched_event_ok es1" "k_start k1 < 2 ^ 62" "list_all sched_event_ok es2" using es(1) by simp_all
  have r0: "sched_ok repr s0" "seq_inv (length es1) s0"
    using sched_run [OF run(1) sched_launch_ok [OF start] ok(1) i] es(2) by simp_all
  obtain s1 where s1: "sched_step rnd tf sn cs repr (SchedTurn ComposerThread k1) s0 = Inr s1" "foldR (sched_step rnd tf sn cs repr) es2 s1 = Inr s2"
    using run(2) by (auto simp: bindR_Inr_iff)
  note c1 = composer_turn [OF s1(1) r0(1) ok(2)]
  have r1: "sched_ok repr s1" using any_step [OF s1(1) r0(1)] ok(2) by simp
  have i1: "seq_inv (length es1) s1" using r0(2) c1 by (simp add: seq_inv_def)
  note r2 = sched_run [OF s1(2) r1 ok(3) i1]
  have b2: "length es1 + length es2 < 2 ^ 64" using es(2) by simp
  have going0: "sched_loop s0" "tl_on (sc_locals s0 ComposerThread)" using r2 [OF b2] going c1 by auto
  note q = quiet_run [OF s1(2) r1 ok(3) es(3)]
  have p: "published_seq s2 u = last_seen s2 u \<longleftrightarrow> turns s2 u = turns s0 u" if u: "u \<in> set sched_sources" for u
  proof -
    have "last_seen s2 u = turns s0 u - 1" using q c1 going0 u r0(2) published [OF u] by (simp add: seq_inv_def)
    moreover have "turns s0 u \<le> turns s2 u" using r2 [OF b2] c1 u by simp
    then have "0 < turns s2 u" using published [OF u] by (rule less_le_trans [rotated])
    then have "published_seq s2 u = turns s2 u - 1" using r2 [OF b2] u by (simp add: seq_inv_def)
    ultimately show ?thesis by simp
  qed
  have "filter (\<lambda>u. published_seq s2 u = last_seen s2 u \<and> 10 < turns s2 ComposerThread) sched_sources =
      filter (\<lambda>u. turns s2 u = turns s0 u) sched_sources"
    by (rule filter_cong) (use p going(3) in simp_all)
  then show ?thesis using composer_turn [OF run(3) _ run(4)] r2 [OF b2] going by simp
qed

section \<open>The end of the test\<close>

text \<open>Once a stop is requested nothing is published any more, and every turn of a running thread ends it.\<close>

theorem stop_ends_threads:
  assumes "\<not> sched_loop s" "sched_step rnd tf sn cs repr (SchedTurn t k) s = Inr s'"
  shows "\<not> tl_on (sc_locals s' t)" "sc_grp s' = sc_grp s" "sc_imu s' = sc_imu s" "sc_composed s' = sc_composed s"
    "tl_on (sc_locals s t) \<Longrightarrow> sc_estop s \<Longrightarrow> tr_estop (sc_results s' t) = k_start k"
proof -
  have "s' = (if tl_on (sc_locals s t) then leave_loop t (k_start k) s else s)"
    using assms by (cases t) (auto simp: sched_step_def sched_turn_def sched_log_turn_def Let_def split: if_splits)
  then show "\<not> tl_on (sc_locals s' t)" "sc_grp s' = sc_grp s" "sc_imu s' = sc_imu s" "sc_composed s' = sc_composed s"
    "tl_on (sc_locals s t) \<Longrightarrow> sc_estop s \<Longrightarrow> tr_estop (sc_results s' t) = k_start k"
    by (auto simp: leave_loop_def upd_locals_def upd_result_def Let_def)
qed

text \<open>The program itself sets the emergency stop when the duration is over.  If it is shorter than the delay of the
  emergency-stop test, the threads stop before the time of the stop is taken, and the reported latency is the
  difference below zero, wrapped around.\<close>

theorem early_end_latency_wraps:
  assumes "k_start k < set_time" "0 < k_start k"
  shows "\<exists>s. foldR (sched_step rnd tf sn cs repr) [DurationOver, StopAll, SchedTurn MainLoop k, EstopTimer set_time]
      (sched_launch granted starts) = Inr s \<and> estop_latency True s MainLoop = Some (- (set_time - k_start k))"
proof -
  have "0 < set_time" using assms by simp
  then show ?thesis
    using assms(2) by (simp add: sched_step_def sched_turn_def sched_loop_def sched_launch_def leave_loop_def upd_locals_def upd_result_def
        estop_latency_def Let_def)
qed

end
