(* ===== verification/LifecycleTest.thy ===== *)
theory LifecycleTest
  imports MercuryController
begin

text \<open>
  \<open>tools/test_shm_lifecycle.cpp\<close>: a test that plays the robot's part in the life of the shared memory,
  with the external controller as a child process.  Modelled are what the test does to the segment, the
  stopping of the child, the checks it makes and the choice of the controller's binary; starting the
  child, sleeping and printing are left out.  The theorem follows the controller through a crash of the
  robot and its restart.
\<close>

section \<open>The robot's part\<close>

text \<open>\<open>mem\<close> is the object's memory; the four flags are the answers of \<open>shm_open\<close>, \<open>fchmod\<close>,
  \<open>ftruncate\<close> and \<open>mmap\<close>.\<close>

definition create_robot_shm :: "bool \<Rightarrow> bool \<Rightarrow> bool \<Rightarrow> bool \<Rightarrow> SharedMemoryLayout \<Rightarrow> SharedMemoryLayout option" where
  "create_robot_shm open_ok mode_ok size_ok map_ok mem =
     (if \<not> open_ok then None else if \<not> mode_ok then None else if \<not> size_ok then None else if \<not> map_ok then None
      else Some (mem\<lparr>version := SHM_VERSION, num_joints := of_nat NUM_ACT_JOINT, control_freq_hz := 400, robot_id := 1,
        emergency_stop := False, controller_emergency_stop := False,
        cmd_buffers := [Command_zero, Command_zero], composed_buffers := [SensorData_zero, SensorData_zero],
        motor_can_ids := map (\<lambda>i. of_nat (i + 1)) [0..<NUM_ACT_JOINT],
        lifecycle_state := lifecycle_code RUNNING, magic := SHM_MAGIC\<rparr>))"

definition update_compose_timestamp :: "u64 \<Rightarrow> SharedMemoryLayout \<Rightarrow> fault + SharedMemoryLayout" where
  "update_compose_timestamp now shm =
     (let wb = 1 - composed_write_idx shm in
      bindR (arr_get (composed_buffers shm) (unat wb)) (\<lambda>sd.
      bindR (arr_set (composed_buffers shm) (unat wb) (sd\<lparr>compose_timestamp_ns := now\<rparr>)) (\<lambda>bs.
        Inr (shm\<lparr>composed_buffers := bs, composed_write_idx := wb, composed_sequence := composed_sequence shm + 1\<rparr>))))"

text \<open>The graceful shutdown of the second test.\<close>

definition graceful_shutdown :: "SharedMemoryLayout \<Rightarrow> SharedMemoryLayout" where
  "graceful_shutdown shm =
     (let s1 = shm\<lparr>lifecycle_state := lifecycle_code SHUTTING_DOWN\<rparr> in s1\<lparr>lifecycle_state := lifecycle_code TERMINATED\<rparr>)"

section \<open>The checks\<close>

record assertions =
  g_assertions :: int
  g_failures :: int

definition assert_true :: "bool \<Rightarrow> assertions \<Rightarrow> assertions" where
  "assert_true c a = (let a1 = a\<lparr>g_assertions := g_assertions a + 1\<rparr> in if \<not> c then a1\<lparr>g_failures := g_failures a1 + 1\<rparr> else a1)"

definition check_advancing :: "SharedMemoryLayout \<Rightarrow> SharedMemoryLayout \<Rightarrow> assertions \<Rightarrow> assertions" where
  "check_advancing before after a = assert_true (cmd_sequence before < cmd_sequence after) a"

text \<open>The check of the command's age; the first test also asserts that the timestamp is not zero.\<close>

definition check_fresh :: "bool \<Rightarrow> u64 \<Rightarrow> SharedMemoryLayout \<Rightarrow> assertions \<Rightarrow> fault + assertions" where
  "check_fresh nonzero now shm a =
     (let idx = cmd_write_idx shm in
      if 1 < idx then Inr a
      else bindR (arr_get (cmd_buffers shm) (unat idx)) (\<lambda>cmd.
        let ts = c_timestamp_ns cmd; a1 = (if nonzero then assert_true (0 < ts) a else a)
        in Inr (if 0 < ts \<and> ts \<le> now then assert_true ((now - ts) div 1000000 < 200) a1 else a1)))"

text \<open>\<open>stop_process\<close>: \<open>rs\<close> are the answers of \<open>waitpid\<close>, whether the child had exited.  The result is
  whether it exited in time and whether it had to be killed.\<close>

fun stop_poll :: "int \<Rightarrow> int \<Rightarrow> bool list \<Rightarrow> bool \<times> bool" where
  "stop_poll timeout_ms elapsed [] = (False, True)"
| "stop_poll timeout_ms elapsed (r # rs) =
     (if timeout_ms \<le> elapsed then (False, True) else if r then (True, False) else stop_poll timeout_ms (elapsed + 10) rs)"

definition stop_process :: "int \<Rightarrow> bool list \<Rightarrow> bool \<times> bool" where
  "stop_process timeout_ms rs = stop_poll timeout_ms 0 rs"

text \<open>\<open>main\<close>: the first argument or the first candidate that can be executed; and the exit status.\<close>

definition controller_candidates :: "string list" where
  "controller_candidates = [''./mercury_controller'', ''../tools/mercury_controller'']"

definition controller_binary :: "string list \<Rightarrow> (string \<Rightarrow> bool) \<Rightarrow> string option" where
  "controller_binary args executable = (case args of a # as \<Rightarrow> Some a | [] \<Rightarrow> find executable controller_candidates)"

definition lifecycle_status :: "assertions \<Rightarrow> int" where
  "lifecycle_status a = (if 0 < g_failures a then 1 else 0)"

section \<open>What the test relies on\<close>

lemma stop_poll_spec:
  assumes "nat (timeout - elapsed + 9) div 10 \<le> length rs"
  shows "stop_poll timeout elapsed rs = (let b = True \<in> set (take (nat (timeout - elapsed + 9) div 10) rs) in (b, \<not> b))"
  using assms
proof (induction rs arbitrary: elapsed)
  case (Cons r rs)
  show ?case
  proof (cases "timeout \<le> elapsed")
    case False
    define n where "n = nat (timeout - (elapsed + 10) + 9) div 10"
    have n: "nat (timeout - elapsed + 9) div 10 = Suc n"
    proof -
      have "nat (timeout - elapsed + 9) = nat (timeout - (elapsed + 10) + 9) + 10 \<or>
          nat (timeout - elapsed + 9) = 10 \<and> nat (timeout - (elapsed + 10) + 9) = 0" using False by linarith
      then show ?thesis by (auto simp: n_def)
    qed
    show ?thesis
      using Cons.IH [of "elapsed + 10", folded n_def] Cons.prems False unfolding n by (auto simp: Let_def)
  qed simp
qed simp

text \<open>The child is killed exactly if it has not exited at any poll within the timeout.\<close>

theorem stop_process_kills:
  assumes "0 < timeout" "nat (timeout + 9) div 10 \<le> length rs"
  shows "stop_process timeout rs = (True, False) \<longleftrightarrow> True \<in> set (take (nat (timeout + 9) div 10) rs)"
    "stop_process timeout rs \<noteq> (True, False) \<Longrightarrow> stop_process timeout rs = (False, True)"
  using stop_poll_spec [of timeout 0 rs] assms(2) by (auto simp: stop_process_def Let_def)

lemma create_robot_shm_ok:
  assumes "create_robot_shm a b c d mem = Some shm" "shm_inv mem"
  shows "candidate_ok shm" "shm_inv shm" "cmd_sequence shm = cmd_sequence mem" "robot_gone now SensorData_zero = False"
proof -
  have c: "command_wf Command_zero" by (simp add: command_wf_def Command_zero_def zeros_def)
  show "candidate_ok shm" "cmd_sequence shm = cmd_sequence mem"
    using assms(1) by (auto simp: create_robot_shm_def candidate_ok_def split: if_splits)
  show "shm_inv shm" using assms c by (auto simp: create_robot_shm_def shm_inv_def shm_wf_def split: if_splits)
  show "robot_gone now SensorData_zero = False" by (simp add: robot_gone_def SensorData_zero_def)
qed

lemma update_compose_ok:
  assumes "shm_inv shm"
  obtains shm' sd where "update_compose_timestamp now shm = Inr shm'" "shm_inv shm'" "cmd_sequence shm' = cmd_sequence shm"
    "candidate_ok shm' = candidate_ok shm"
    "arr_get (composed_buffers shm') (unat (composed_write_idx shm')) = Inr sd" "compose_timestamp_ns sd = now"
proof -
  have l: "length (composed_buffers shm) = 2" "composed_write_idx shm = 0 \<or> composed_write_idx shm = 1"
    using assms by (auto simp: shm_inv_def shm_wf_def)
  let ?wb = "1 - composed_write_idx shm"
  let ?sd = "(composed_buffers shm ! unat ?wb)\<lparr>compose_timestamp_ns := now\<rparr>"
  have b: "unat ?wb < 2" "?wb = 0 \<or> ?wb = 1" using l(2) by auto
  show thesis
    by (rule that [of "shm\<lparr>composed_buffers := (composed_buffers shm)[unat ?wb := ?sd], composed_write_idx := ?wb,
        composed_sequence := composed_sequence shm + 1\<rparr>" ?sd])
      (use assms l b in \<open>auto simp: update_compose_timestamp_def arr_get_def arr_set_def shm_inv_def shm_wf_def candidate_ok_def Let_def\<close>)
qed

lemma shutdown_not_candidate: "\<not> candidate_ok (graceful_shutdown shm)"
  by (simp add: graceful_shutdown_def candidate_ok_def lifecycle_code_def Let_def)

section \<open>Crash and restart of the robot\<close>

lemma put_command_frame:
  "put_command cmd shm = Inr shm' \<Longrightarrow> composed_buffers shm' = composed_buffers shm \<and> composed_write_idx shm' = composed_write_idx shm"
  by (auto simp: put_command_def bindR_Inr_iff)

lemma reattach_skips: "\<forall>a \<in> set as. attach_attempt sz a = None \<Longrightarrow> reattach sz (as @ bs) = reattach sz bs"
  by (induction as) simp_all

text \<open>C40: The controller is attached to a segment whose composed data are more than 100 ms old, and the robot has
  created a new one: in one cycle the controller finds out and attaches to the new segment, and the next cycle
  writes a command there.  The checks of the fourth test, an advancing sequence number and a command younger than
  200 ms, hold.\<close>

theorem controller_reattaches:
  assumes b: "bench_ok b r" "shm_inv shm"
    and stale: "arr_get (composed_buffers shm) (unat (composed_write_idx shm)) = Inr sensor" "robot_gone (t_now (b_clock i1)) sensor"
      "b_others i1 = (\<lambda>x. x)"
    and restart: "create_robot_shm True True True True mem = Some shm0" "shm_inv mem" "update_compose_timestamp ts shm0 = Inr shm2"
    and tries: "b_tries i1 = as @ [\<lparr>fd_ok = True, fstat_ok = True, st_size = sz, mapped = Some shm2\<rparr>]"
      "\<forall>a \<in> set as. attach_attempt sz a = None \<and> mapped a = None"
    and fresh: "b_others i2 = (\<lambda>x. x)" "t_now (b_clock i2) - ts \<le> HEARTBEAT_STALE_NS" "b_tries i2 = []"
    and going: "dlt d (Fin 0) \<or> deq d (Fin 0)"
    and clock: "0 < t_write_start (b_clock i2)" "t_write_start (b_clock i2) \<le> now" "(now - t_write_start (b_clock i2)) div 1000000 < 200"
    and count: "cmd_sequence shm2 < cmd_sequence shm2 + 1"
  shows "\<exists>b' r' shm3 a'. bench_run sz rnd sn cs d [i1, i2] (b, r, Some shm) = Inr (b', r', Some shm3) \<and>
    check_fresh True now shm3 (check_advancing shm2 shm3 a) = Inr a' \<and> g_failures a' = g_failures a"
proof -
  obtain sd where s2: "shm_inv shm2" "candidate_ok shm2" "arr_get (composed_buffers shm2) (unat (composed_write_idx shm2)) = Inr sd"
    "compose_timestamp_ns sd = ts"
    using create_robot_shm_ok [OF restart(1,2)] restart(3) by (metis update_compose_ok sum.inject(2))
  have at: "attach_attempt sz \<lparr>fd_ok = True, fstat_ok = True, st_size = sz, mapped = Some shm2\<rparr> = Some shm2"
    using s2(2) by (simp add: attach_attempt_def)
  have r1: "reattach sz (b_tries i1) = Some shm2"
    using tries by (simp add: reattach_skips at)
  have ok1: "input_ok i1" using stale(3) tries s2(1) by (auto simp: input_ok_def)
  have ok2: "input_ok i2" using fresh(1,3) by (simp add: input_ok_def)
  obtain b1 r1' cmd shm1 sen where c1: "bench_cycle sz rnd sn cs i1 (b, r, shm) = Inr (b1, r1', Some shm2)" "bench_ok b1 r1'"
  proof (rule bench_cycle_ok [OF b ok1, of sz rnd sn cs])
    fix b' r' seg cmd shm1 sensor'
    assume h: "bench_cycle sz rnd sn cs i1 (b, r, shm) = Inr (b', r', seg)" "bench_ok b' r'" "put_command cmd shm = Inr shm1"
      "arr_get (composed_buffers (b_others i1 shm1)) (unat (composed_write_idx (b_others i1 shm1))) = Inr sensor'"
      "seg = (if robot_gone (t_now (b_clock i1)) sensor' then reattach sz (b_tries i1) else Some (b_others i1 shm1))"
    have "sensor' = sensor" using h(4) stale(1,3) put_command_frame [OF h(3)] by simp
    then show thesis using that h(1,2,5) stale(2) r1 by simp
  qed
  obtain b2 r2 shm3 cmd where c2: "bench_cycle sz rnd sn cs i2 (b1, r1', shm2) = Inr (b2, r2, Some shm3)"
    "put_command cmd shm2 = Inr shm3" "c_timestamp_ns cmd = t_write_start (b_clock i2)"
  proof (rule bench_cycle_ok [OF c1(2) s2(1) ok2, of sz rnd sn cs])
    fix b' r' seg cmd shm1 sensor'
    assume h: "bench_cycle sz rnd sn cs i2 (b1, r1', shm2) = Inr (b', r', seg)" "put_command cmd shm2 = Inr shm1"
      "c_timestamp_ns cmd = t_write_start (b_clock i2)"
      "arr_get (composed_buffers (b_others i2 shm1)) (unat (composed_write_idx (b_others i2 shm1))) = Inr sensor'"
      "seg = (if robot_gone (t_now (b_clock i2)) sensor' then reattach sz (b_tries i2) else Some (b_others i2 shm1))"
    have "sensor' = sd" using h(4) s2(3) fresh(1) put_command_frame [OF h(2)] by simp
    then have "\<not> robot_gone (t_now (b_clock i2)) sensor'" using s2(4) fresh(2) by (auto simp: robot_gone_def)
    then show thesis using that h(1-3,5) fresh(1) by simp
  qed
  have run: "bench_run sz rnd sn cs d [i1, i2] (b, r, Some shm) = Inr (b2, r2, Some shm3)"
    using going c1(1) c2(1) by auto
  have i: "cmd_write_idx shm2 = 0 \<or> cmd_write_idx shm2 = 1" "length (cmd_buffers shm2) = 2"
    using s2(1) by (auto simp: shm_inv_def shm_wf_def)
  have w: "cmd_sequence shm3 = cmd_sequence shm2 + 1" "\<not> 1 < cmd_write_idx shm3"
    "arr_get (cmd_buffers shm3) (unat (cmd_write_idx shm3)) = Inr cmd"
    using c2(2) i by (auto simp: put_command_def arr_set_def arr_get_def bindR_Inr_iff split: if_splits)
  have "\<exists>a'. check_fresh True now shm3 (check_advancing shm2 shm3 a) = Inr a' \<and> g_failures a' = g_failures a"
    using w count clock c2(3) by (simp add: check_fresh_def check_advancing_def assert_true_def Let_def)
  then show ?thesis using run by blast
qed

definition clock_at :: "u64 \<Rightarrow> cycle_clock" where
  "clock_at t = \<lparr>t_cycle_start = t, t_write_start = t, t_write_end = t, t_read_start = t, t_read_end = t, t_now = t,
     t_cycle_end = t, t_now2 = t\<rparr>"

theorem controller_reattaches_witness:
  "\<exists>r shm shm2 b' r' shm3 a'. run_start rnd64 (Fin 0) 5 demo_bench = Inr r \<and>
    update_compose_timestamp 1 (the (create_robot_shm True True True True SharedMemoryLayout_zero)) = Inr shm \<and>
    update_compose_timestamp 300000000 (the (create_robot_shm True True True True SharedMemoryLayout_zero)) = Inr shm2 \<and>
    bench_run 100 rnd64 (\<lambda>x. x) (\<lambda>x. x) (Fin 0)
      [\<lparr>b_clock = clock_at 200000002, b_others = (\<lambda>x. x), b_tries =
          [\<lparr>fd_ok = False, fstat_ok = False, st_size = 0, mapped = None\<rparr>,
           \<lparr>fd_ok = True, fstat_ok = True, st_size = 100, mapped = Some shm2\<rparr>]\<rparr>,
       \<lparr>b_clock = clock_at 300000001, b_others = (\<lambda>x. x), b_tries = []\<rparr>]
      (demo_bench, r, Some shm) = Inr (b', r', Some shm3) \<and>
    check_fresh True 300000002 shm3 (check_advancing shm2 shm3 \<lparr>g_assertions = 0, g_failures = 0\<rparr>) = Inr a' \<and> g_failures a' = 0"
proof (rule demo_bench_ok)
  fix r
  assume r: "run_start rnd64 (Fin 0) 5 demo_bench = Inr r" "bench_ok demo_bench r"
  let ?s0 = "the (create_robot_shm True True True True SharedMemoryLayout_zero)"
  have c0: "create_robot_shm True True True True SharedMemoryLayout_zero = Some ?s0" by (simp add: create_robot_shm_def)
  have z: "shm_inv SharedMemoryLayout_zero"
    using shm_zero_wf by (simp add: shm_inv_def SharedMemoryLayout_zero_def command_wf_def Command_zero_def zeros_def)
  note s0 = create_robot_shm_ok [OF c0 z]
  obtain shm sd where s: "update_compose_timestamp 1 ?s0 = Inr shm" "shm_inv shm" "compose_timestamp_ns sd = 1"
    "arr_get (composed_buffers shm) (unat (composed_write_idx shm)) = Inr sd"
    by (rule update_compose_ok [OF s0(2), of 1]) blast
  obtain shm2 where s2: "update_compose_timestamp 300000000 ?s0 = Inr shm2" "cmd_sequence shm2 = 0"
  proof (rule update_compose_ok [OF s0(2), of 300000000])
    fix shm' sd
    assume "update_compose_timestamp 300000000 ?s0 = Inr shm'" "cmd_sequence shm' = cmd_sequence ?s0"
    moreover have "cmd_sequence SharedMemoryLayout_zero = 0" by (simp add: SharedMemoryLayout_zero_def)
    ultimately show thesis using that s0(3) by simp
  qed
  let ?i1 = "\<lparr>b_clock = clock_at 200000002, b_others = (\<lambda>x. x), b_tries =
      [\<lparr>fd_ok = False, fstat_ok = False, st_size = 0, mapped = None\<rparr>,
       \<lparr>fd_ok = True, fstat_ok = True, st_size = 100, mapped = Some shm2\<rparr>]\<rparr>"
  let ?i2 = "\<lparr>b_clock = clock_at 300000001, b_others = (\<lambda>x. x), b_tries = []\<rparr> :: bench_input"
  let ?a = "\<lparr>g_assertions = 0, g_failures = 0\<rparr>"
  have "\<exists>b' r' shm3 a'. bench_run 100 rnd64 (\<lambda>x. x) (\<lambda>x. x) (Fin 0) [?i1, ?i2] (demo_bench, r, Some shm) = Inr (b', r', Some shm3) \<and>
      check_fresh True 300000002 shm3 (check_advancing shm2 shm3 ?a) = Inr a' \<and> g_failures a' = g_failures ?a"
    by (rule controller_reattaches [where as = "[\<lparr>fd_ok = False, fstat_ok = False, st_size = 0, mapped = None\<rparr>]" and ts = 300000000
          and sensor = sd, OF r(2) s(2,4) _ _ c0 z s2(1)])
      (simp_all add: robot_gone_def HEARTBEAT_STALE_NS_def clock_at_def s(3) s2(2) attach_attempt_def)
  then show ?thesis using r(1) s(1) s2(1) by auto
qed

end
