(* ===== verification/EarlyImuReader.thy ===== *)
theory EarlyImuReader
  imports ImuReader
begin

text \<open>
  \<open>src/subsystems/ImuReader.cpp\<close>: an earlier reader of the inertial sensor, which keeps the latest
  sixteen floats of eight frames instead of publishing measurements; the build uses \<open>lib/imu\<close>.
  It asks the configuration for members that its present version no longer has.
\<close>

section \<open>State\<close>

definition early_kMaxFrames :: int where "early_kMaxFrames = 8"
definition early_kMaxFloats :: nat where "early_kMaxFloats = 16"

datatype imu_idx = ACC_X | ACC_Y | ACC_Z | GYRO_X | GYRO_Y | GYRO_Z | MAG_X | MAG_Y | MAG_Z |
  EULER_X | EULER_Y | EULER_Z | QUAT_W | QUAT_X | QUAT_Y | QUAT_Z

record early_config =
  ec_serverIp :: string
  ec_localPort :: int
  ec_numFrames :: int
  ec_startId :: int
  ec_imuId :: int

record EarlyReader =
  er_serverIp :: string
  er_localPort :: int
  er_baseCanId :: u32
  er_numFrames :: int
  er_shutdown :: bool
  er_threadCreated :: bool
  er_data :: "double list"
  er_hasData :: bool
  er_cycleCount :: u64

definition EarlyReader_ctor :: EarlyReader where
  "EarlyReader_ctor = \<lparr>er_serverIp = [], er_localPort = 0, er_baseCanId = 0, er_numFrames = early_kMaxFrames,
     er_shutdown = False, er_threadCreated = False, er_data = replicate early_kMaxFloats (Fin 0),
     er_hasData = False, er_cycleCount = 0\<rparr>"

section \<open>Operations\<close>

definition early_start :: "early_config \<Rightarrow> bool \<Rightarrow> EarlyReader \<Rightarrow> EarlyReader" where
  "early_start cfg create_ok r =
     r\<lparr>er_serverIp := (if ec_serverIp cfg = [] then ''127.0.0.1'' else ec_serverIp cfg),
       er_localPort := ec_localPort cfg,
       er_numFrames := (if 0 < ec_numFrames cfg then min (ec_numFrames cfg) early_kMaxFrames else early_kMaxFrames),
       er_baseCanId := word_of_int (ec_startId cfg + (ec_imuId cfg - 1) * 8),
       er_shutdown := False, er_threadCreated := create_ok\<rparr>"

definition early_shutdown :: "EarlyReader \<Rightarrow> EarlyReader" where
  "early_shutdown r = (let r1 = r\<lparr>er_shutdown := True\<rparr>
     in if \<not> er_threadCreated r1 then r1 else r1\<lparr>er_threadCreated := False\<rparr>)"

definition getFloats :: "EarlyReader \<Rightarrow> double list" where
  "getFloats r = er_data r"

definition getDoubles :: "EarlyReader \<Rightarrow> fault + double list" where
  "getDoubles r = foldR (\<lambda>i out. bindR (arr_get (er_data r) i) (\<lambda>v. Inr (out @ [v]))) [0..<early_kMaxFloats] []"

definition getFloat :: "int \<Rightarrow> EarlyReader \<Rightarrow> fault + double" where
  "getFloat idx r = (if idx < 0 \<or> int early_kMaxFloats \<le> idx then Inr (Fin 0) else arr_get (er_data r) (nat idx))"

text \<open>A frame that was read: the body of the inner loop.\<close>

definition early_frame :: "bytes \<Rightarrow> EarlyReader \<Rightarrow> fault + EarlyReader" where
  "early_frame f r =
     (let canId = frame_canId f in
      if canId < er_baseCanId r \<or> er_baseCanId r + word_of_int (er_numFrames r) \<le> canId then Inr r
      else let offset = sint (canId - er_baseCanId r); slot = nat (offset * 2) in
        bindR (arr_set (er_data r) slot (frame_float 0 f)) (\<lambda>d.
        bindR (arr_set d (slot + 1) (frame_float 1 f)) (\<lambda>d'.
        let r1 = r\<lparr>er_data := d'\<rparr> in
        Inr (if offset = 0 then r1\<lparr>er_cycleCount := er_cycleCount r1 + 1, er_hasData := True\<rparr> else r1))))"

text \<open>The inner loop ends when the socket is empty or gave a short datagram; the result has the datagrams left.\<close>

fun early_drain :: "bytes list \<Rightarrow> EarlyReader \<Rightarrow> fault + bytes list \<times> EarlyReader" where
  "early_drain [] r = Inr ([], r)"
| "early_drain (d # q) r =
     (if length d < sizeof_ImuCanFrame then Inr (q, r)
      else bindR (early_frame (take sizeof_ImuCanFrame d) r) (early_drain q))"

fun early_loop :: "(bool \<times> epoll_result \<times> bytes list) list \<Rightarrow> bytes list \<times> EarlyReader \<Rightarrow> fault + bytes list \<times> EarlyReader" where
  "early_loop [] s = Inr s"
| "early_loop ((shut, ev, came) # ts) (q, r) =
     (if shut then Inr (q @ came, r)
      else case ev of
          EpollError interrupted \<Rightarrow> if interrupted then early_loop ts (q @ came, r) else Inr (q @ came, r)
        | EpollTimeout \<Rightarrow> early_loop ts (q @ came, r)
        | EpollReady \<Rightarrow> bindR (early_drain (q @ came) r) (early_loop ts))"

definition early_run :: "bool \<Rightarrow> bool \<Rightarrow> (bool \<times> epoll_result \<times> bytes list) list \<Rightarrow> EarlyReader \<Rightarrow> fault + EarlyReader" where
  "early_run socket_ok bind_ok ts r =
     (if \<not> socket_ok \<or> \<not> bind_ok then Inr r else bindR (early_loop ts ([], r)) (\<lambda>(q, r'). Inr r'))"

section \<open>The reader holds the latest frames\<close>

definition early_ok :: "EarlyReader \<Rightarrow> bool" where
  "early_ok r \<longleftrightarrow> length (er_data r) = 16 \<and> 1 \<le> er_numFrames r \<and> er_numFrames r \<le> 8"

lemma early_start_ok: "early_ok (early_start cfg ok EarlyReader_ctor)"
  by (simp add: early_ok_def early_start_def EarlyReader_ctor_def early_kMaxFloats_def early_kMaxFrames_def)

text \<open>The frame's place, if it is one of the reader's.\<close>

definition early_offset :: "EarlyReader \<Rightarrow> bytes \<Rightarrow> nat option" where
  "early_offset r f =
     (let k = unat (frame_canId f - er_baseCanId r) in
      if frame_canId f < er_baseCanId r \<or> er_baseCanId r + word_of_int (er_numFrames r) \<le> frame_canId f then None else Some k)"

lemma early_offset_less:
  assumes "early_ok r" "early_offset r f = Some k"
  shows "k < 8" "sint (frame_canId f - er_baseCanId r) = int k"
proof -
  let ?c = "frame_canId f" and ?b = "er_baseCanId r" and ?n = "word_of_int (er_numFrames r) :: u32"
  have h: "?b \<le> ?c" "?c < ?b + ?n" "k = unat (?c - ?b)"
    using assms(2) by (auto simp: early_offset_def Let_def split: if_splits)
  have n: "uint ?n = er_numFrames r" using assms(1) by (simp add: early_ok_def uint_word_of_int)
  have "uint (?b + ?n) \<le> uint ?b + er_numFrames r" using n uint_add_le [of ?b ?n] by simp
  then have "uint ?c < uint ?b + er_numFrames r" using h(2) by (simp add: word_less_def)
  moreover have "uint (?c - ?b) = uint ?c - uint ?b" using h(1) by (simp add: uint_minus_simple_alt word_le_def)
  ultimately have "uint (?c - ?b) < 8" using assms(1) by (simp add: early_ok_def)
  moreover have "uint (?c - ?b) = int k" by (simp only: h(3) uint_nat)
  ultimately show "k < 8" by linarith
  then have "sint (word_of_int (int k) :: u32) = int k"
    unfolding sint_sbintrunc' by (intro signed_take_bit_int_eq_self) simp_all
  moreover have "?c - ?b = word_of_int (int k)" using h(3) by simp
  ultimately show "sint (?c - ?b) = int k" by simp
qed

definition early_write :: "nat \<Rightarrow> bytes \<Rightarrow> EarlyReader \<Rightarrow> EarlyReader" where
  "early_write k f r =
     (let r1 = r\<lparr>er_data := (er_data r)[2 * k := frame_float 0 f, 2 * k + 1 := frame_float 1 f]\<rparr>
      in if k = 0 then r1\<lparr>er_cycleCount := er_cycleCount r1 + 1, er_hasData := True\<rparr> else r1)"

lemma early_frame_eq:
  assumes "early_ok r"
  shows "early_frame f r = Inr (case early_offset r f of None \<Rightarrow> r | Some k \<Rightarrow> early_write k f r)"
proof (cases "early_offset r f")
  case None
  then show ?thesis by (auto simp: early_frame_def early_offset_def Let_def split: if_splits)
next
  case (Some k)
  note k = early_offset_less [OF assms Some]
  have in_window: "\<not> (frame_canId f < er_baseCanId r \<or> er_baseCanId r + word_of_int (er_numFrames r) \<le> frame_canId f)"
    using Some by (simp add: early_offset_def Let_def split: if_splits)
  have s: "nat (int k * 2) = 2 * k" by simp
  show ?thesis
    using assms k(1) by (simp add: early_frame_def Let_def in_window k(2) s Some arr_set_def early_ok_def early_write_def)
qed

lemma early_write_keeps:
  "early_ok r \<Longrightarrow> early_ok (early_write k f r)" "early_offset (early_write k f r) g = early_offset r g"
  by (simp_all add: early_ok_def early_write_def early_offset_def Let_def)

definition full_frames :: "bytes list \<Rightarrow> bytes list" where
  "full_frames q = map (take sizeof_ImuCanFrame) (takeWhile (\<lambda>d. sizeof_ImuCanFrame \<le> length d) q)"

text \<open>The latest of the frames with offset \<open>k\<close>.\<close>

definition latest :: "EarlyReader \<Rightarrow> nat \<Rightarrow> bytes list \<Rightarrow> bytes option" where
  "latest r k fs = fold (\<lambda>f a. if early_offset r f = Some k then Some f else a) fs None"

definition slot_value :: "nat \<Rightarrow> nat \<Rightarrow> bytes option \<Rightarrow> EarlyReader \<Rightarrow> double" where
  "slot_value k h a r = (case a of None \<Rightarrow> er_data r ! (2 * k + h) | Some f \<Rightarrow> frame_float h f)"

lemma latest_fold:
  "fold (\<lambda>f a. if P f then Some f else a) fs a = (case fold (\<lambda>f a. if P f then Some f else a) fs None of None \<Rightarrow> a | Some f \<Rightarrow> Some f)"
proof (induction fs arbitrary: a)
  case (Cons f fs)
  show ?case by (subst (1 2) fold_Cons) (cases "P f"; simp add: Cons [of "Some f"] Cons [of a] split: option.split)
qed simp

theorem early_drain_latest:
  assumes "early_ok r" "k < 8" "h < 2"
  shows "\<exists>q' r'. early_drain q r = Inr (q', r') \<and> early_ok r' \<and>
    er_data r' ! (2 * k + h) = slot_value k h (latest r k (full_frames q)) r \<and>
    er_cycleCount r' = er_cycleCount r + of_nat (length (filter (\<lambda>f. early_offset r f = Some 0) (full_frames q))) \<and>
    (er_hasData r' \<longleftrightarrow> er_hasData r \<or> latest r 0 (full_frames q) \<noteq> None)"
  using assms
proof (induction q arbitrary: r)
  case Nil
  then show ?case by (simp add: full_frames_def latest_def slot_value_def)
next
  case (Cons d q)
  show ?case
  proof (cases "length d < sizeof_ImuCanFrame")
    case True
    then show ?thesis using Cons.prems by (simp add: full_frames_def latest_def slot_value_def)
  next
    case False
    let ?f = "take sizeof_ImuCanFrame d"
    define r1 where "r1 = (case early_offset r ?f of None \<Rightarrow> r | Some j \<Rightarrow> early_write j ?f r)"
    have e: "early_drain (d # q) r = early_drain q r1"
      using False by (simp add: early_frame_eq [OF Cons.prems(1)] r1_def)
    have r1: "early_ok r1" "early_offset r1 = early_offset r"
      using Cons.prems(1) by (auto simp: r1_def early_write_keeps fun_eq_iff split: option.split)
    have ff: "full_frames (d # q) = ?f # full_frames q" using False by (simp add: full_frames_def)
    obtain q' r' where i: "early_drain q r1 = Inr (q', r')" "early_ok r'"
      "er_data r' ! (2 * k + h) = slot_value k h (latest r1 k (full_frames q)) r1"
      "er_cycleCount r' = er_cycleCount r1 + of_nat (length (filter (\<lambda>f. early_offset r1 f = Some 0) (full_frames q)))"
      "er_hasData r' \<longleftrightarrow> er_hasData r1 \<or> latest r1 0 (full_frames q) \<noteq> None"
      using Cons.IH [OF r1(1) Cons.prems(2,3)] by blast
    have l: "latest r j (full_frames (d # q)) = (case latest r j (full_frames q) of
        None \<Rightarrow> (if early_offset r ?f = Some j then Some ?f else None) | Some f \<Rightarrow> Some f)" for j
      unfolding latest_def ff fold_simps by (subst latest_fold) simp
    have len: "length (er_data r) = 16" using Cons.prems(1) by (simp add: early_ok_def)
    have w: "er_data r1 ! (2 * k + h) = (if early_offset r ?f = Some k then frame_float h ?f else er_data r ! (2 * k + h))"
    proof (cases "early_offset r ?f")
      case (Some j)
      have "j < 8" using early_offset_less(1) [OF Cons.prems(1) Some] .
      have D: "er_data r1 = (er_data r)[2 * j := frame_float 0 ?f, 2 * j + 1 := frame_float 1 ?f]"
        using Some by (simp add: r1_def early_write_def Let_def)
      have h: "h = 0 \<or> h = 1" using Cons.prems(3) by linarith
      show ?thesis
      proof (cases "j = k")
        case True
        then show ?thesis using h \<open>j < 8\<close> len Some by (elim disjE) (simp_all add: D)
      next
        case False
        then have "2 * j \<noteq> 2 * k + h" "2 * j + 1 \<noteq> 2 * k + h" using h by presburger+
        then show ?thesis using False Some by (simp add: D)
      qed
    qed (simp add: r1_def)
    have l1: "latest r1 = latest r" by (simp add: latest_def r1(2) fun_eq_iff)
    have hd: "er_hasData r1 \<longleftrightarrow> er_hasData r \<or> early_offset r ?f = Some 0"
      "er_cycleCount r1 = er_cycleCount r + (if early_offset r ?f = Some 0 then 1 else 0)"
      by (simp_all add: r1_def early_write_def Let_def split: option.split)
    have "er_data r' ! (2 * k + h) = slot_value k h (latest r k (full_frames (d # q))) r"
      unfolding i(3) l l1 using w by (simp add: slot_value_def split: option.split)
    moreover have "er_cycleCount r' = er_cycleCount r + of_nat (length (filter (\<lambda>f. early_offset r f = Some 0) (full_frames (d # q))))"
      unfolding i(4) ff r1(2) hd(2) by simp
    moreover have "er_hasData r' \<longleftrightarrow> er_hasData r \<or> latest r 0 (full_frames (d # q)) \<noteq> None"
      unfolding i(5) l l1 hd(1) by (auto split: option.split)
    ultimately show ?thesis using i(1,2) e by auto
  qed
qed

text \<open>\<open>hasData\<close> is documented as "at least one complete frame set has been received": the first frame of
  the first set is enough.\<close>

theorem has_data_after_first_frame:
  "\<exists>r'. early_drain [imu_frame (er_baseCanId r) p] r = Inr ([], r') \<and> er_hasData r' \<and>
     (\<forall>i. 2 \<le> i \<longrightarrow> er_data r' ! i = er_data r ! i)"
  if "early_ok r" "er_baseCanId r < 0xFFFFFFF0"
proof -
  have n: "uint (word_of_int (er_numFrames r) :: u32) = er_numFrames r" "1 \<le> er_numFrames r" "er_numFrames r \<le> 8"
    using that(1) by (simp_all add: early_ok_def uint_word_of_int)
  have b: "uint (er_baseCanId r) < 0xFFFFFFF0" using that(2) by (simp add: word_less_def)
  have "uint (er_baseCanId r + word_of_int (er_numFrames r)) = uint (er_baseCanId r) + er_numFrames r"
    using n b by (simp add: uint_word_ariths)
  then have "er_baseCanId r < er_baseCanId r + word_of_int (er_numFrames r)" using n by (simp add: word_less_def)
  then have o: "early_offset r (imu_frame (er_baseCanId r) p) = Some 0" by (simp add: early_offset_def Let_def)
  then show ?thesis
    using early_frame_eq [OF that(1), of "imu_frame (er_baseCanId r) p"]
    by (simp add: sizeof_ImuCanFrame_def early_write_def Let_def)
qed

end
