(* ===== verification/PhaseTest.thy ===== *)
theory PhaseTest
  imports Prelude
begin

text \<open>
  \<open>src/Test1.cpp\<close>: a test of whole-body controllers goes through phases, each with a controller of its own.
  The controllers, \<open>nextPhase\<close> and the set-up of the phases come from libraries and subclasses outside the
  sources: \<open>next_phase\<close> is an argument, the answer of \<open>EndOfPhase\<close> is an input, and the calls of the
  controllers are the output.
\<close>

datatype phase_call = FirstVisit int | OneStep int | LastVisit int

record Test1 =
  b_first_visit :: bool
  test_phase :: int
  state_list :: nat

text \<open>The constructor does not set \<open>phase_\<close>.\<close>

definition Test1_ctor :: "int \<Rightarrow> Test1" where
  "Test1_ctor junk = \<lparr>b_first_visit = True, test_phase = junk, state_list = 0\<rparr>"

definition getCommand :: "(int \<Rightarrow> int) \<Rightarrow> bool \<Rightarrow> Test1 \<Rightarrow> fault + phase_call list \<times> Test1" where
  "getCommand next_phase ended t =
     (if test_phase t < 0 \<or> int (state_list t) \<le> test_phase t then Inl OutOfBounds
      else let p = test_phase t;
               first = (if b_first_visit t then [FirstVisit p] else []);
               t1 = t\<lparr>b_first_visit := False\<rparr>
           in if ended then Inr (first @ [OneStep p, LastVisit p], t1\<lparr>test_phase := next_phase p, b_first_visit := True\<rparr>)
              else Inr (first @ [OneStep p], t1))"

fun test_run :: "(int \<Rightarrow> int) \<Rightarrow> bool list \<Rightarrow> Test1 \<Rightarrow> fault + phase_call list \<times> Test1" where
  "test_run next_phase [] t = Inr ([], t)"
| "test_run next_phase (e # es) t =
     bindR (getCommand next_phase e t) (\<lambda>(cs, t1). bindR (test_run next_phase es t1) (\<lambda>(ds, t2). Inr (cs @ ds, t2)))"

fun call_follows :: "(int \<Rightarrow> int) \<Rightarrow> phase_call \<Rightarrow> phase_call \<Rightarrow> bool" where
  "call_follows n (FirstVisit p) (OneStep q) = (p = q)"
| "call_follows n (OneStep p) (OneStep q) = (p = q)"
| "call_follows n (OneStep p) (LastVisit q) = (p = q)"
| "call_follows n (LastVisit p) (FirstVisit q) = (q = n p)"
| "call_follows n _ _ = False"

text \<open>The call the next one will be: the entry of the phase or its next step.\<close>

definition next_call :: "Test1 \<Rightarrow> phase_call" where
  "next_call t = (if b_first_visit t then FirstVisit (test_phase t) else OneStep (test_phase t))"

definition phases_closed :: "nat \<Rightarrow> (int \<Rightarrow> int) \<Rightarrow> bool" where
  "phases_closed n next_phase \<longleftrightarrow> (\<forall>p. 0 \<le> p \<and> p < int n \<longrightarrow> 0 \<le> next_phase p \<and> next_phase p < int n)"

lemma getCommand_ok:
  assumes "0 \<le> test_phase t" "test_phase t < int (state_list t)" "phases_closed (state_list t) next_phase"
  obtains cs t' where "getCommand next_phase e t = Inr (cs, t')" "0 \<le> test_phase t'" "test_phase t' < int (state_list t')"
    "state_list t' = state_list t" "cs \<noteq> []" "hd cs = next_call t" "successively (call_follows next_phase) cs"
    "call_follows next_phase (last cs) (next_call t')"
  using assms by (cases "b_first_visit t"; cases e) (auto simp: getCommand_def phases_closed_def next_call_def Let_def)

text \<open>If the phases lead to phases that exist, the calls follow the life cycle of the phases: each phase is
  entered once, stepped at least once, left, and followed by the phase that \<open>nextPhase\<close> names.\<close>

theorem phase_calls_follow_protocol:
  assumes "0 \<le> test_phase t" "test_phase t < int (state_list t)" "phases_closed (state_list t) next_phase"
  shows "\<exists>cs t'. test_run next_phase es t = Inr (cs, t') \<and> successively (call_follows next_phase) cs \<and>
    (cs \<noteq> [] \<longrightarrow> hd cs = next_call t) \<and> (es \<noteq> [] \<longrightarrow> cs \<noteq> [])"
  using assms
proof (induction es arbitrary: t)
  case (Cons e es)
  obtain cs t1 where c: "getCommand next_phase e t = Inr (cs, t1)" "0 \<le> test_phase t1" "test_phase t1 < int (state_list t1)"
    "state_list t1 = state_list t" "cs \<noteq> []" "hd cs = next_call t" "successively (call_follows next_phase) cs"
    "call_follows next_phase (last cs) (next_call t1)" by (rule getCommand_ok [OF Cons.prems, of e])
  obtain ds t2 where d: "test_run next_phase es t1 = Inr (ds, t2)" "successively (call_follows next_phase) ds"
    "ds \<noteq> [] \<longrightarrow> hd ds = next_call t1"
    using Cons.IH [OF c(2,3)] c(4) Cons.prems(3) by auto
  have "successively (call_follows next_phase) (cs @ ds)"
    using c(7,8) d(2,3) by (auto simp: successively_append_iff)
  then show ?case using c d by simp
qed simp

text \<open>Without a set-up the first call reads outside the empty list of controllers.\<close>

theorem unset_phase_faults: "getCommand next_phase e (Test1_ctor junk) = Inl OutOfBounds"
  by (cases "junk < 0") (simp_all add: getCommand_def Test1_ctor_def)

end
