(* ===== verification/Spec2Isabelle.thy ===== *)
theory Spec2Isabelle
  imports ActuatorLoop SpscConcurrent DoubleBufferConcurrent Composer Legged Subsystem PauseHandshake
    PackageGenerator Startup Notifier EventLoop Timers SimulatorMain ImuSimulator Subscriber System
    ActuatorLogger ModeThread ArmKinematics SchedulingTest LifecycleTest EarlyImuReader PhaseTest
begin

text \<open>
  A verification development for the Kuavo leg controller, the C++ program under \<open>src/\<close>.

  \<^bold>\<open>The program.\<close>  A supervisor (\<open>src/Robot.cpp\<close>) creates a shared-memory segment and owns two legs, an
  inertial sensor, a composer, a logger and an MQTT client, each with a thread of its own.  A leg
  reads the command an external controller wrote to the segment and sends each of its six motors a
  CAN frame in a UDP datagram; the motors' replies come back through the same socket.  The legs and
  the sensor stage their data in double buffers; the composer merges them a thousand times a
  second into one record for the controller, and collects records and commands into batches that
  the logger publishes.  The supervisor polls the driver station, calls the mode functions, and
  checks all sources for liveness.

  \<^bold>\<open>Theories and sources.\<close>  Definitions keep the names of the functions, types and constants they
  translate.

  \<^item> \<open>Prelude\<close>: machine integers, faults, sequencing of operations that may fault, double values,
    arrays, bytes, and the locales of step relations with invariants.  \<open>Binary64\<close>: rounding to
    binary64.  \<open>Utility\<close>: \<open>lib/utility/Utility.cpp\<close> and the protocol helpers of
    \<open>include/mercury_shm.h\<close>.
  \<^item> \<open>MercuryShm\<close>: \<open>include/mercury_shm.h\<close>, run without interference; \<open>SpscConcurrent\<close> and
    \<open>DoubleBufferConcurrent\<close>: its ring and its double buffer with both threads running.
  \<^item> \<open>CanBus\<close>: \<open>lib/motor/UdpServer\<close>, \<open>CANAPI\<close>, \<open>CAN\<close> and \<open>lib/composer/MotorParamCache.h\<close>;
    \<open>Motor\<close>: \<open>lib/motor/Motor.cpp\<close> with \<open>DmFrame.h\<close> and \<open>Common.h\<close>; \<open>DamiaoSimulator\<close>:
    \<open>tools/DamiaoSimulator.cpp\<close>, the actuators; \<open>ActuatorLoop\<close>: both sides of the wire.
  \<^item> \<open>Composer\<close>: \<open>lib/composer/Composer.cpp\<close>; \<open>Legged\<close>: \<open>src/subsystems/Legged.cpp\<close>;
    \<open>Subsystem\<close>: \<open>lib/robot/ControlledSubsystemBase.h\<close>, \<open>SubsystemBase.cpp\<close>,
    \<open>lib/common/FdEvent.h\<close>; \<open>PauseHandshake\<close>: \<open>pause()\<close> against the control loop.
  \<^item> \<open>DriverStation\<close>: \<open>lib/ds\<close>, packets, caches, buttons; \<open>PackageGenerator\<close>:
    \<open>tools/PackageGenerator.cpp\<close>, which builds the packets; \<open>Gamepad\<close>: \<open>lib/ds/GenericHID.cpp\<close> and
    \<open>XboxController.cpp\<close>; \<open>EventLoop\<close>: \<open>lib/ds/BooleanEvent.cpp\<close> and \<open>EventLoop.cpp\<close>;
    \<open>TimedRobot\<close>: \<open>lib/robot/TimedRobot.cpp\<close>, \<open>IterativeRobotBase.cpp\<close>, \<open>lib/common/priority_queue.h\<close>.
  \<^item> \<open>Synchronization\<close>: \<open>lib/common/Synchronization.cpp\<close> and \<open>lib/ds/EventVector.h\<close>, events and
    semaphores behind handles and the threads that wait for them; \<open>DsConnection\<close>: the wait for the
    driver station against the network thread.
  \<^item> \<open>Config\<close>: \<open>lib/common/Config.cpp\<close>; \<open>Startup\<close>: \<open>InitializeHAL\<close> of \<open>lib/robot/RobotBase.cpp\<close> with
    the network thread beside it, \<open>lib/mqtt/Wrapper.cpp\<close>, the order of \<open>tools/main.cpp\<close>.
  \<^item> \<open>Timers\<close>: \<open>lib/common/TimerManager.cpp\<close> and \<open>GenericTimerQueue.h\<close>; \<open>Notifier\<close>:
    \<open>lib/common/Notifier.cpp\<close>; no other part of the program uses these.
  \<^item> \<open>ImuReader\<close>: \<open>lib/imu/ImuReader.cpp\<close>; \<open>Logger\<close>: \<open>lib/logger/Logger.cpp\<close>; \<open>MqttClient\<close>:
    \<open>lib/mqtt/MqttClient.cpp\<close>; \<open>Subscriber\<close>: \<open>tools/test_subscriber_influxdb.cpp\<close>;
    \<open>MercuryController\<close>: \<open>tools/mercury_controller.cpp\<close>; \<open>ImuSimulator\<close>: \<open>tools/imuSimulator.cpp\<close>;
    \<open>SimulatorMain\<close>: the entry of \<open>tools/DamiaoSimulator.cpp\<close>; \<open>CommandLine\<close>: the conversions of the C
    library that the tools apply to their arguments.
  \<^item> \<open>ActuatorLogger\<close>: \<open>tools/test_actuator_logger.cpp\<close>, a second implementation of the composer and
    logger threads with simulated motors in one process; \<open>ModeThread\<close>: \<open>tools/DriverStationModeThread.cpp\<close>;
    \<open>SchedulingTest\<close>: \<open>tools/scheduling.cpp\<close>, a test of the thread model; \<open>LifecycleTest\<close>:
    \<open>tools/test_shm_lifecycle.cpp\<close>, which plays the robot for the controller.
  \<^item> \<open>ArmController\<close>: \<open>src/controllers/ArmController.cpp\<close>, the kinematics of a six-joint arm over rounded
    arithmetic; \<open>ArmKinematics\<close>: its theorems, over exact reals.
  \<^item> \<open>EarlyImuReader\<close>: \<open>src/subsystems/ImuReader.cpp\<close>; \<open>PhaseTest\<close>: \<open>src/Test1.cpp\<close>; neither is built.
  \<^item> \<open>Robot\<close>: \<open>src/Robot.cpp\<close>; \<open>System\<close>: all threads of the robot process and the controller's
    commands as events in any order on one shared memory.

  \<^bold>\<open>How the code is rendered.\<close>  A class is a record, its methods are functions on it; a method that may
  fail returns \<open>fault + 'a\<close>, where \<open>fault\<close> names what C++ leaves undefined (a null pointer, an index
  out of bounds, a conversion out of range, a division by zero) and what it throws.  Integers have
  the width of the code and wrap.  Doubles are binary64 values; a rounding function is an argument
  of the arithmetic, instantiated with \<open>rnd64\<close> in the theorems.  The clock, the kernel's answers
  and the calls of libraries (libwebsockets, yaml-cpp, \<open>sin\<close> and \<open>cos\<close>, curl) are arguments; what was sent to a
  socket is a list of datagrams in the world record.  Atomic loads and stores are single steps of
  an interleaving where a theorem is about interference, and plain accesses elsewhere.  Loops over
  a collection are folds, loops over time take the list of their inputs, one for each turn, so no
  definition needs fuel; the list ends when the code's running flag is cleared.

  \<^bold>\<open>What is shown.\<close>
  \<^item> The wire: commands and feedback survive coding, framing and decoding to within one quantum of
    the fixed-point codes, including the rounding errors of binary64; enable and disable arrive.
  \<^item> The legs: exactly which frames a control cycle sends on each of its branches, that a fault
    disables every motor once and then nothing is sent, what is staged, that stop messages are
    obeyed before the controller of the same turn, and that a command of the external controller
    is executed for 100 ms.
  \<^item> Concurrency: the ring is a linearizable queue without races; a double-buffer read is whole if no
    publication overtakes it and may be torn otherwise; no wake-up is lost, neither of the descriptors
    nor of the events; \<open>pause()\<close> excludes the controller under sequential consistency, and does not with
    the memory orders written.
  \<^item> Start-up: the configuration is read once, each setting from its place in the file; no turn of the
    network thread during the start faults, and the robot waits until a packet has arrived.
  \<^item> Data flow: the composer merges, the log loses nothing while there is room, the logger publishes
    every n-th batch, the MQTT queue is FIFO and bounded, the sensor publishes complete measurements,
    also those of the sensor's simulator; the packets of the generator are decoded into what they were
    built from.
  \<^item> Control flow: the mode functions follow their life cycle, a turn of the main loop ends and loses
    no callback, buttons act on their edges, the reader and the writer of driver-station packets work
    on different caches.
  \<^item> The arm: over exact reals the regular solutions of the inverse kinematics reach the pose asked for
    unless an angle is wrapped, the pose written by the forward kinematics is read back as it was, and a
    wrapped upper-arm angle misses the pose.
  \<^item> The tests: the checksums of the thread test never report a torn read while turns are whole, its stale
    counter counts exactly the sources without a turn, and every thread leaves its loop at a stop; after a
    crash and a restart of the robot the controller finds the new segment and commands arrive there again.
  \<^item> The whole: from the state after initialisation no order of events faults or breaks the shared
    memory; detaching stops every user of the segment first.
  \<^item> Where the code does something else than its comments say, the theorem states what it does.

  \<^bold>\<open>Interfaces.\<close>  \<open>fp_rounding\<close> and \<open>fp_error\<close> (what the codes ask of rounding), \<open>bounded_queue\<close> (the log
  ring), \<open>packet_observer\<close> (what the CAN layer asks of a motor), \<open>min_queue\<close> (the callback queue),
  \<open>bounded_steps\<close> and \<open>invariant_steps\<close> (step relations), \<open>rt_subsystem\<close> (what the real-time loop asks
  of a leg), \<open>total_component\<close> (what a scheduler asks of the whole).  Each is interpreted on the
  model's own definitions.

  \<^bold>\<open>Bounds.\<close>  Twelve joints in two groups of six, a ring of 256 batches of four samples, twelve device ids,
  ages compared in 64-bit nanoseconds.  Theorems about ages state the wrap-around; the ring's
  theorem needs fewer than \<open>2 ^ 64\<close> pushes, the range of its indices.

  \<^bold>\<open>Not modelled.\<close>  Thread attributes, signals, logging and printing; the C wrappers of the event
  handles; the abstract interfaces, the constants and the trajectory types, which have no logic of
  their own; \<open>src/LieGroup\<close>, a vendored library which the build leaves out; the empty class of
  \<open>src/subsystems/Imu.cpp\<close>; the scripts of the four life-cycle tests, which fork, sleep and print; the
  vendored simulator under \<open>srSimulator\<close>.
\<close>

section \<open>Concrete states used by the witnesses\<close>

definition demo_world :: motor_world where
  "demo_world = \<lparr>canHandles = Some [], servers = Map.empty, param_cache = MotorParamCache_init,
     maxCanDevice = 7, udp_config = \<lparr>baseLocalPort = 8887, baseRemotePort = 8886\<rparr>,
     observerIp = ''127.0.0.1'', send_result = (\<lambda>_. 13), sent = [], motors = []\<rparr>"

definition demo_motor :: motor_world where
  "demo_motor = snd (projr (Motor_ctor DM8009 1 True demo_world))"

definition demo_sim :: Sim where
  "demo_sim = projr (handleCommand rnd64 (wire 1 dataframe_enable_motor) 13 (projr (DamiaoMultiSimulator [1])))"

definition demo_mit :: MITParam where
  "demo_mit = \<lparr>mit_kp = Fin 100, mit_kd = Fin 1, mit_q = Fin 0, mit_dq = Fin 0, mit_tau = Fin 0\<rparr>"

lemma demo_world_inv: "motors_inv demo_world"
  by (simp add: motors_inv_def demo_world_def handles_ok_def arrays_ok_def getInstance_def UdpServer_init_def)

lemma demo_motor_wired: "wired demo_motor 0" "m_motorType (motors demo_motor ! 0) = DM8009"
  "m_deviceId (motors demo_motor ! 0) = 1" "sent demo_motor = []" "maxCanDevice demo_motor = 7"
proof -
  have m: "motors demo_world = []" "sent demo_world = []" "maxCanDevice demo_world = 7"
    by (simp_all add: demo_world_def)
  obtain w' a where "Motor_ctor DM8009 1 True demo_world = Inr (length (motors demo_world), w')"
    "motors_inv w'" "motors w' = motors demo_world @ [a]" "m_deviceId a = 1" "m_motorType a = DM8009"
    "m_hasCache a = True" "sent w' = sent demo_world" "maxCanDevice w' = maxCanDevice demo_world"
    by (rule Motor_ctor_ok [OF demo_world_inv, of 1 DM8009 True]) (simp_all add: devices_def m)
  moreover from this(1) have "demo_motor = w'" by (simp add: demo_motor_def)
  ultimately show "wired demo_motor 0" "m_motorType (motors demo_motor ! 0) = DM8009"
    "m_deviceId (motors demo_motor ! 0) = 1" "sent demo_motor = []" "maxCanDevice demo_motor = 7"
    by (simp_all add: motors_inv_def m)
qed

lemma demo_sim_ok: "sim_inv demo_sim" "\<exists>m. map_of (motors_ids demo_sim) 1 = Some m \<and> s_status m = ENABLED"
proof -
  let ?s = "projr (DamiaoMultiSimulator [1])"
  have s: "DamiaoMultiSimulator [1] = Inr ?s"
    by (simp add: DamiaoMultiSimulator_def MAX_MOTORS_def)
  note inv = DamiaoMultiSimulator_inv [OF s]
  obtain m where m: "map_of (motors_ids ?s) (ucast (1::u32)) = Some m"
    by (simp add: DamiaoMultiSimulator_def MAX_MOTORS_def sim_add_def)
  have id: "identifyCommand ?s (wire 1 dataframe_enable_motor) 13 =
      \<lparr>pc_type = control_type 0xFC, pc_motor = Some (ucast (1::u32)), pc_canId = 1\<rparr>"
    by (rule identify_control [OF _ _ _ m]) (simp_all add: dataframe_enable_motor_def numeral_eq_Suc)
  obtain m' resp where h: "handleCommand rnd64 (wire 1 dataframe_enable_motor) 13 ?s =
      Inr ((put_state 1 m' ?s)\<lparr>responses := resp\<rparr>)" "s_status m' = ENABLED"
    by (rule control_command [OF inv, of "wire 1 dataframe_enable_motor" 13 1 ENABLE m])
      (use m id in \<open>auto simp: control_type_def is_param_cmd_def control_effect_def\<close>)
  show "sim_inv demo_sim"
    using handleCommand_inv [OF inv h(1)] by (simp add: demo_sim_def h(1))
  show "\<exists>m. map_of (motors_ids demo_sim) 1 = Some m \<and> s_status m = ENABLED"
    using h m by (simp add: demo_sim_def)
qed

section \<open>Commands and feedback across the bus\<close>



text \<open>C3: the enable and disable commands of a wired motor each become one datagram on the motor's
  own leg, and the actuator that receives it is enabled or disabled, whatever it did before.\<close>

theorem enable_disable_reach_actuator:
  assumes "wired w n" "sim_inv s" "map_of (motors_ids s) (ucast (m_deviceId (motors w ! n))) = Some m"
  shows "\<exists>w' dg s' m'. (if on then enableMotor n w else disableMotor n w) = Inr w' \<and> sent w' = sent w @ [dg] \<and>
    dg_client dg = Some (leg_client (maxCanDevice w) (dev_of (motors w ! n))) \<and>
    handleCommand rnd64 (sim_recv (dg_bytes dg)) 13 s = Inr s' \<and> sim_inv s' \<and>
    map_of (motors_ids s') (ucast (m_deviceId (motors w ! n))) = Some m' \<and>
    s_status m' = (if on then ENABLED else DISABLED)"
proof -
  let ?m = "motors w ! n" and ?k = "ucast (m_deviceId (motors w ! n)) :: u16"
  define b where "b = (if on then 0xFC else 0xFD :: u8)"
  define d where "d = replicate 7 0xFF @ [b]"
  have dev: "1 \<le> uint (m_deviceId ?m)" "uint (m_deviceId ?m) \<le> 12"
    using assms(1) by (auto simp: wired_def Let_def dev_of_def)
  have d: "(if on then dataframe_enable_motor else dataframe_disable_motor) = d" "length d = 8"
    by (simp_all add: d_def b_def dataframe_enable_motor_def dataframe_disable_motor_def numeral_eq_Suc)
  obtain w' where w': "sendMessage n d 0 False w = Inr w'"
    "sent w' = sent w @ [command_dg (maxCanDevice w) ?m 0 d]"
    by (rule sendMessage_wired [OF assms(1) d(2), of 0])
  have id: "identifyCommand s (wire (m_deviceId ?m) d) 13 =
      \<lparr>pc_type = control_type b, pc_motor = Some ?k, pc_canId = m_deviceId ?m\<rparr>"
    by (rule identify_control [OF dev d_def assms(3)])
  obtain m' resp where h: "handleCommand rnd64 (wire (m_deviceId ?m) d) 13 s =
      Inr ((put_state ?k m' s)\<lparr>responses := resp\<rparr>)" "s_status m' = (if on then ENABLED else DISABLED)"
    by (rule control_command [OF assms(2), of "wire (m_deviceId ?m) d" 13 ?k "control_type b" m])
      (use id assms(3) in \<open>auto simp: b_def control_type_def is_param_cmd_def control_effect_def split: if_splits\<close>)
  have send: "(if on then enableMotor n w else disableMotor n w) = Inr w'"
    using w'(1) d(1) by (auto simp: enableMotor_def disableMotor_def split: if_splits)
  show ?thesis
    using w'(2) send h assms(3) handleCommand_inv [OF assms(2) h(1)] d(2)
    by (intro exI [of _ w'] exI [of _ "command_dg (maxCanDevice w) ?m 0 d"]
        exI [of _ "(put_state ?k m' s)\<lparr>responses := resp\<rparr>"] exI [of _ m'])
      (simp add: command_dg_def sim_recv_wire)
qed

theorem enable_disable_reach_actuator_witness:
  "\<exists>w' dg s' m'. disableMotor 0 demo_motor = Inr w' \<and> sent w' = [dg] \<and> dg_client dg = Some ClientLeft \<and>
    handleCommand rnd64 (sim_recv (dg_bytes dg)) 13 demo_sim = Inr s' \<and>
    map_of (motors_ids s') 1 = Some m' \<and> s_status m' = DISABLED"
proof -
  obtain m where m: "map_of (motors_ids demo_sim) 1 = Some m" using demo_sim_ok(2) by blast
  show ?thesis
    using enable_disable_reach_actuator [OF demo_motor_wired(1) demo_sim_ok(1), of m False] m
    by (simp add: demo_motor_wired dev_of_def leg_client_def) blast
qed


lemma demo_motor_idle: "m_frameIds (getInstance i demo_motor) = Map.empty"
  by (simp add: demo_motor_def demo_world_def Motor_ctor_def CAN_ctor_def HAL_InitializeCAN_def
      registrateCallback_def subscribe_def bindDevicesToServer_def in_range_def MAX_DEVICE_ID_def
      getInstance_def putInstance_def UdpServer_init_def Let_def)


end
